(* ===== verification/Prelude.thy ===== *)
theory Prelude
  imports Complex_Main "HOL-Library.Word" "HOL-Library.AList"
begin

text \<open>
  The vocabulary every component shares.

  \<^item> A JavaScript string is represented by its UTF-8 bytes, so the type is HOL's \<open>string\<close>
    (a list of 8-bit characters): equality of strings, concatenation, prefix tests and the
    bytes that \<open>TextEncoder\<close> produces are exact, and \<open>.length\<close> agrees with the program on ASCII
    text (all keys, ids and nonces are base64url text).
  \<^item> A JavaScript number that comes off the wire is a rational: every finite double is one.
    Counters the program keeps itself are \<open>nat\<close> or \<open>int\<close>.
  \<^item> A JavaScript \<open>Map\<close> is an association list in insertion order. \<open>AList.update\<close> has exactly
    the semantics of \<open>Map.set\<close> (replace in place, else append), \<open>AList.delete\<close> that of
    \<open>Map.delete\<close>, \<open>map_of\<close> that of \<open>Map.get\<close>.
  \<^item> A JavaScript \<open>Set\<close> is a list without duplicates in insertion order (\<open>set_add\<close>, \<open>set_del\<close>).
  \<^item> \<open>undefined\<close>, \<open>null\<close> results and thrown errors are \<open>None\<close> or the left of a sum.
\<close>

type_synonym bytes = "8 word list"

type_synonym ('k, 'v) jmap = "('k \<times> 'v) list"

named_theorems jmap_simps \<open>how lookup, membership and distinctness see an updated JavaScript Map\<close>
named_theorems jset_simps \<open>how membership and distinctness see an updated JavaScript Set\<close>

subsection \<open>JavaScript maps\<close>

abbreviation jget :: "('k, 'v) jmap \<Rightarrow> 'k \<Rightarrow> 'v option" where
  "jget m k \<equiv> map_of m k"

abbreviation jset :: "'k \<Rightarrow> 'v \<Rightarrow> ('k, 'v) jmap \<Rightarrow> ('k, 'v) jmap" where
  "jset \<equiv> AList.update"

abbreviation jdel :: "'k \<Rightarrow> ('k, 'v) jmap \<Rightarrow> ('k, 'v) jmap" where
  "jdel \<equiv> AList.delete"

definition jhas :: "('k, 'v) jmap \<Rightarrow> 'k \<Rightarrow> bool" where
  "jhas m k = (jget m k \<noteq> None)"

definition jvals :: "('k, 'v) jmap \<Rightarrow> 'v list" where
  "jvals m = map snd m"

definition jkeys :: "('k, 'v) jmap \<Rightarrow> 'k list" where
  "jkeys m = map fst m"

text \<open>The representation invariant: a Map never holds a key twice.\<close>

definition jmap_ok :: "('k, 'v) jmap \<Rightarrow> bool" where
  "jmap_ok m = distinct (map fst m)"

lemma jget_jset [jmap_simps, simp]: "jget (jset k v m) k' = (if k' = k then Some v else jget m k')"
  by (simp add: update_conv')

lemma jget_jdel [jmap_simps, simp]: "jget (jdel k m) k' = (if k' = k then None else jget m k')"
  by (simp add: delete_conv')

lemma jmap_ok_Nil [jmap_simps, simp]: "jmap_ok []"
  by (simp add: jmap_ok_def)

lemma jmap_ok_jset [jmap_simps, simp]: "jmap_ok m \<Longrightarrow> jmap_ok (jset k v m)"
  by (simp add: jmap_ok_def distinct_update)

lemma jmap_ok_jdel [jmap_simps, simp]: "jmap_ok m \<Longrightarrow> jmap_ok (jdel k m)"
  by (simp add: jmap_ok_def distinct_delete)

lemma jhas_iff: "jhas m k \<longleftrightarrow> k \<in> fst ` set m"
  unfolding jhas_def by (metis map_of_eq_None_iff)

lemma jhas_simps [jmap_simps, simp]:
  "jhas [] k = False"
  "jhas (jset k v m) k' = (k' = k \<or> jhas m k')"
  "jhas (jdel k m) k' = (k' \<noteq> k \<and> jhas m k')"
  by (auto simp: jhas_def)

lemma set_jkeys: "set (jkeys m) = {k. jhas m k}"
  by (auto simp: jkeys_def jhas_iff)

lemma jmap_mem_iff: "jmap_ok m \<Longrightarrow> (k, v) \<in> set m \<longleftrightarrow> jget m k = Some v"
  by (simp add: jmap_ok_def)

lemma jvals_mem: "jmap_ok m \<Longrightarrow> v \<in> set (jvals m) \<longleftrightarrow> (\<exists>k. jget m k = Some v)"
  by (force simp: jvals_def jmap_mem_iff [symmetric])

lemma jset_absent: "\<not> jhas m k \<Longrightarrow> jset k v m = m @ [(k, v)]"
  by (induction m) (auto simp: jhas_def split: if_splits)

lemma length_jset: "length (jset k v m) = (if jhas m k then length m else Suc (length m))"
  by (induction m) (auto simp: jhas_def)

lemma jdel_absent: "\<not> jhas m k \<Longrightarrow> jdel k m = m"
  by (simp add: jhas_iff delete_id)

lemma length_jdel: "jmap_ok m \<Longrightarrow> jhas m k \<Longrightarrow> length (jdel k m) = length m - 1"
proof (induction m)
  case Nil
  then show ?case by simp
next
  case (Cons p m)
  obtain a b where p: "p = (a, b)" by (cases p)
  show ?case
  proof (cases "a = k")
    case True
    with Cons.prems p have "\<not> jhas m k" by (simp add: jmap_ok_def jhas_iff)
    with True p show ?thesis by (simp add: jdel_absent)
  next
    case False
    with Cons.prems p have "jhas m k" "jmap_ok m" by (auto simp: jmap_ok_def jhas_iff)
    then have "0 < length m" by (auto simp: jhas_iff)
    with False p Cons.IH [OF \<open>jmap_ok m\<close> \<open>jhas m k\<close>] show ?thesis by simp
  qed
qed

subsection \<open>JavaScript sets\<close>

definition set_add :: "'a \<Rightarrow> 'a list \<Rightarrow> 'a list" where
  "set_add x s = (if x \<in> set s then s else s @ [x])"

definition set_del :: "'a \<Rightarrow> 'a list \<Rightarrow> 'a list" where
  "set_del x s = filter (\<lambda>y. y \<noteq> x) s"

definition set_of :: "'a list \<Rightarrow> 'a list" where
  "set_of xs = fold set_add xs []"

lemma set_set_add [jset_simps, simp]: "set (set_add x s) = insert x (set s)"
  by (auto simp: set_add_def)

lemma distinct_set_add [jset_simps, simp]: "distinct (set_add x s) = distinct s"
  by (auto simp: set_add_def)

lemma set_set_del [jset_simps, simp]: "set (set_del x s) = set s - {x}"
  by (auto simp: set_del_def)

lemma distinct_set_del [jset_simps, simp]: "distinct s \<Longrightarrow> distinct (set_del x s)"
  by (simp add: set_del_def)

lemma length_set_add: "length (set_add x s) = (if x \<in> set s then length s else Suc (length s))"
  by (simp add: set_add_def)

lemma fold_set_add: "set (fold set_add xs s) = set xs \<union> set s"
  by (induction xs arbitrary: s) auto

lemma distinct_fold_set_add: "distinct s \<Longrightarrow> distinct (fold set_add xs s)"
  by (induction xs arbitrary: s) auto

lemma set_set_of [jset_simps, simp]: "set (set_of xs) = set xs"
  by (simp add: set_of_def fold_set_add)

lemma distinct_set_of [jset_simps, simp]: "distinct (set_of xs)"
  by (simp add: set_of_def distinct_fold_set_add)

subsection \<open>Options, sums and lists\<close>

definition or_default :: "'a option \<Rightarrow> 'a \<Rightarrow> 'a" where
  \<comment> \<open>the operator \<open>??\<close>\<close>
  "or_default x d = (case x of None \<Rightarrow> d | Some v \<Rightarrow> v)"

lemma or_default_simps [simp]: "or_default None d = d" "or_default (Some v) d = v"
  by (simp_all add: or_default_def)

fun join :: "string \<Rightarrow> string list \<Rightarrow> string" where
  "join sep [] = []"
| "join sep [x] = x"
| "join sep (x # y # xs) = x @ sep @ join sep (y # xs)"

lemma join_Cons: "xs \<noteq> [] \<Longrightarrow> join sep (x # xs) = x @ sep @ join sep xs"
  by (cases xs) auto

lemma find_Some_mem: "find P xs = Some x \<Longrightarrow> x \<in> set xs \<and> P x"
  by (induction xs) (auto split: if_splits)

lemma find_None_all: "find P xs = None \<longleftrightarrow> (\<forall>x\<in>set xs. \<not> P x)"
  by (induction xs) auto

subsection \<open>Decimal numerals\<close>

definition digit_char :: "nat \<Rightarrow> char" where
  "digit_char d = char_of (48 + d)"

definition is_digit :: "char \<Rightarrow> bool" where
  "is_digit c = (48 \<le> (of_char c :: nat) \<and> (of_char c :: nat) \<le> 57)"

definition digit_val :: "char \<Rightarrow> nat" where
  "digit_val c = of_char c - 48"

fun show_nat :: "nat \<Rightarrow> string" where
  "show_nat n = (if n < 10 then [digit_char n] else show_nat (n div 10) @ [digit_char (n mod 10)])"

declare show_nat.simps [simp del]

definition show_int :: "int \<Rightarrow> string" where
  "show_int i = (if i < 0 then ''-'' @ show_nat (nat (- i)) else show_nat (nat i))"

definition read_digits :: "string \<Rightarrow> nat" where
  "read_digits s = foldl (\<lambda>a c. 10 * a + digit_val c) 0 s"

lemma of_char_digit: "d < 10 \<Longrightarrow> (of_char (digit_char d) :: nat) = 48 + d"
  by (simp add: digit_char_def)

lemma is_digit_digit_char [simp]: "d < 10 \<Longrightarrow> is_digit (digit_char d)"
  by (simp add: is_digit_def of_char_digit)

lemma digit_val_digit_char [simp]: "d < 10 \<Longrightarrow> digit_val (digit_char d) = d"
  by (simp add: digit_val_def of_char_digit)

lemma show_nat_digits: "c \<in> set (show_nat n) \<Longrightarrow> is_digit c"
proof (induction n rule: show_nat.induct)
  case (1 n)
  then show ?case by (subst (asm) show_nat.simps) (auto split: if_splits)
qed

lemma show_nat_nonempty [simp]: "show_nat n \<noteq> []"
  by (subst show_nat.simps) simp

lemma read_show_nat [simp]: "read_digits (show_nat n) = n"
proof (induction n rule: show_nat.induct)
  case (1 n)
  then show ?case by (subst show_nat.simps) (auto simp: read_digits_def)
qed

lemma show_nat_inj: "show_nat m = show_nat n \<Longrightarrow> m = n"
  by (metis read_show_nat)

end
