(* ===== verification/Json.thy ===== *)
theory Json
  imports Prelude
begin

text \<open>
  JSON values, \<open>JSON.stringify\<close> and \<open>JSON.parse\<close> of the JavaScript standard library, as the
  program uses them: every frame, card, export, backup and signed record is a JSON text.
  Objects keep their properties in order. The printer emits no white space (the layout argument of
  the two exports is not modelled); the parser skips it. Numbers are rationals: an integer is
  printed in decimal, as JavaScript does below 10^21. The program itself serialises integers only
  (versions, counts, sizes, indices, epoch milliseconds); a fraction is printed as \<open>n/d\<close>, so that
  the printer is injective, and the parser reads the decimal and exponent forms too.
\<close>

datatype json =
    JNull
  | JBool bool
  | JNum rat
  | JStr string
  | JArr "json list"
  | JObj "(string \<times> json) list"

subsection \<open>JSON.stringify\<close>

definition hex_digit :: "nat \<Rightarrow> char" where
  "hex_digit d = (if d < 10 then char_of (48 + d) else char_of (87 + d))"

definition esc_char :: "char \<Rightarrow> string" where
  "esc_char c = (let n = (of_char c :: nat) in
     if n = 34 then [CHR 0x5C, CHR 0x22]
     else if n = 92 then [CHR 0x5C, CHR 0x5C]
     else if n = 8 then [CHR 0x5C, CHR ''b'']
     else if n = 9 then [CHR 0x5C, CHR ''t'']
     else if n = 10 then [CHR 0x5C, CHR ''n'']
     else if n = 12 then [CHR 0x5C, CHR ''f'']
     else if n = 13 then [CHR 0x5C, CHR ''r'']
     else if n < 32 then [CHR 0x5C, CHR ''u'', CHR ''0'', CHR ''0'', hex_digit (n div 16), hex_digit (n mod 16)]
     else [c])"

definition json_quote :: "string \<Rightarrow> string" where
  "json_quote s = CHR 0x22 # concat (map esc_char s) @ [CHR 0x22]"

definition show_num :: "rat \<Rightarrow> string" where
  "show_num r = (case quotient_of r of (n, d) \<Rightarrow>
     if d = 1 then show_int n else show_int n @ ''/'' @ show_int d)"

fun json_str :: "json \<Rightarrow> string" where
  "json_str JNull = ''null''"
| "json_str (JBool b) = (if b then ''true'' else ''false'')"
| "json_str (JNum r) = show_num r"
| "json_str (JStr s) = json_quote s"
| "json_str (JArr xs) = ''['' @ join '','' (map json_str xs) @ '']''"
| "json_str (JObj fs) =
     ''{'' @ join '','' (map (\<lambda>(k, v). json_quote k @ '':'' @ json_str v) fs) @ ''}''"

subsection \<open>JSON.parse\<close>

definition is_ws :: "char \<Rightarrow> bool" where
  "is_ws c = (let n = (of_char c :: nat) in n = 32 \<or> n = 9 \<or> n = 10 \<or> n = 13)"

definition skip_ws :: "string \<Rightarrow> string" where
  "skip_ws = dropWhile is_ws"

definition hex_val :: "char \<Rightarrow> nat option" where
  "hex_val c = (let n = (of_char c :: nat) in
     if 48 \<le> n \<and> n \<le> 57 then Some (n - 48)
     else if 97 \<le> n \<and> n \<le> 102 then Some (n - 87)
     else if 65 \<le> n \<and> n \<le> 70 then Some (n - 55)
     else None)"

text \<open>The UTF-8 bytes of the character that a \<open>u\<close> escape names.\<close>

definition utf8_point :: "nat \<Rightarrow> string" where
  "utf8_point n =
     (if n < 128 then [char_of n]
      else if n < 2048 then [char_of (192 + n div 64), char_of (128 + n mod 64)]
      else [char_of (224 + n div 4096), char_of (128 + (n div 64) mod 64), char_of (128 + n mod 64)])"

fun parse_string :: "string \<Rightarrow> (string \<times> string) option" where
  "parse_string [] = None"
| "parse_string (c # cs) =
     (let n = (of_char c :: nat) in
      if n = 34 then Some ([], cs)
      else if n < 32 then None
      else if n = 92 then
        (case cs of
          [] \<Rightarrow> None
        | e # cs1 \<Rightarrow>
            if e = CHR ''u'' then
              (case cs1 of
                a # b # c' # d # cs2 \<Rightarrow>
                  (case (hex_val a, hex_val b, hex_val c', hex_val d) of
                    (Some a', Some b', Some c'', Some d') \<Rightarrow>
                      (case parse_string cs2 of
                        None \<Rightarrow> None
                      | Some (s, r) \<Rightarrow> Some (utf8_point (((a' * 16 + b') * 16 + c'') * 16 + d') @ s, r))
                  | _ \<Rightarrow> None)
              | _ \<Rightarrow> None)
            else
              (case parse_string cs1 of
                None \<Rightarrow> None
              | Some (s, r) \<Rightarrow>
                  (if e = CHR 0x22 \<or> e = CHR 0x5C \<or> e = CHR ''/'' then Some (e # s, r)
                   else if e = CHR ''b'' then Some (CHR 0x08 # s, r)
                   else if e = CHR ''t'' then Some (CHR 0x09 # s, r)
                   else if e = CHR ''n'' then Some (CHR 0x0A # s, r)
                   else if e = CHR ''f'' then Some (CHR 0x0C # s, r)
                   else if e = CHR ''r'' then Some (CHR 0x0D # s, r)
                   else None)))
      else (case parse_string cs of None \<Rightarrow> None | Some (s, r) \<Rightarrow> Some (c # s, r)))"

definition span_digits :: "string \<Rightarrow> string \<times> string" where
  "span_digits s = (takeWhile is_digit s, dropWhile is_digit s)"

text \<open>
  The number grammar: an integer part without superfluous zeros, then an optional fraction and an
  optional exponent. The printer's \<open>n/d\<close> form is read too.
\<close>

definition parse_exp :: "rat \<Rightarrow> string \<Rightarrow> (rat \<times> string) option" where
  "parse_exp m s = (case s of
      e # r \<Rightarrow>
        if e = CHR ''e'' \<or> e = CHR ''E'' then
          (case r of
            sg # r' \<Rightarrow>
              (let neg = (sg = CHR ''-''); body = (if sg = CHR ''-'' \<or> sg = CHR ''+'' then r' else r);
                   (ds, r'') = span_digits body
               in if ds = [] then None
                  else Some (if neg then m / 10 ^ read_digits ds else m * 10 ^ read_digits ds, r''))
          | [] \<Rightarrow> None)
        else Some (m, s)
    | [] \<Rightarrow> Some (m, s))"

definition parse_frac :: "nat \<Rightarrow> string \<Rightarrow> (rat \<times> string) option" where
  "parse_frac n s = (case s of
      c # r \<Rightarrow>
        if c = CHR ''.'' then
          (let (ds, r') = span_digits r in
           if ds = [] then None
           else parse_exp (of_nat n + of_nat (read_digits ds) / 10 ^ length ds) r')
        else if c = CHR ''/'' then
          (let (ds, r') = span_digits r in
           if ds = [] then None else Some (of_nat n / of_nat (read_digits ds), r'))
        else parse_exp (of_nat n) s
    | [] \<Rightarrow> Some (of_nat n, s))"

definition parse_unsigned :: "string \<Rightarrow> (rat \<times> string) option" where
  "parse_unsigned s = (let (ds, r) = span_digits s in
     if ds = [] \<or> (hd ds = CHR ''0'' \<and> tl ds \<noteq> []) then None
     else parse_frac (read_digits ds) r)"

definition parse_num :: "string \<Rightarrow> (rat \<times> string) option" where
  "parse_num s = (case s of
      c # r \<Rightarrow> if c = CHR ''-'' then map_option (\<lambda>(m, r'). (- m, r')) (parse_unsigned r)
               else parse_unsigned s
    | [] \<Rightarrow> None)"

fun strip :: "string \<Rightarrow> string \<Rightarrow> string option" where
  "strip [] s = Some s"
| "strip (p # ps) [] = None"
| "strip (p # ps) (c # cs) = (if p = c then strip ps cs else None)"

text \<open>
  The value parser. The first argument bounds the recursion; \<open>json_parse\<close> gives it twice the length
  of the text and two more, and \<open>json_parse_str\<close> below shows that this is enough for every printed
  value. Later duplicates of a key replace the value of the earlier one, as in JavaScript.
\<close>

fun parse_value :: "nat \<Rightarrow> string \<Rightarrow> (json \<times> string) option"
  and parse_elems :: "nat \<Rightarrow> string \<Rightarrow> (json list \<times> string) option"
  and parse_members :: "nat \<Rightarrow> (string \<times> json) list \<Rightarrow> string \<Rightarrow> ((string \<times> json) list \<times> string) option"
where
  "parse_value 0 s = None"
| "parse_value (Suc n) s =
     (case skip_ws s of
       [] \<Rightarrow> None
     | c # cs \<Rightarrow>
         if c = CHR 0x22 then map_option (\<lambda>(t, r). (JStr t, r)) (parse_string cs)
         else if c = CHR ''['' then
           (case skip_ws cs of
             [] \<Rightarrow> None
           | d # ds \<Rightarrow> if d = CHR '']'' then Some (JArr [], ds)
                        else map_option (\<lambda>(xs, r). (JArr xs, r)) (parse_elems n (d # ds)))
         else if c = CHR ''{'' then
           (case skip_ws cs of
             [] \<Rightarrow> None
           | d # ds \<Rightarrow> if d = CHR ''}'' then Some (JObj [], ds)
                        else map_option (\<lambda>(fs, r). (JObj fs, r)) (parse_members n [] (d # ds)))
         else if c = CHR ''n'' then map_option (\<lambda>r. (JNull, r)) (strip ''ull'' cs)
         else if c = CHR ''t'' then map_option (\<lambda>r. (JBool True, r)) (strip ''rue'' cs)
         else if c = CHR ''f'' then map_option (\<lambda>r. (JBool False, r)) (strip ''alse'' cs)
         else map_option (\<lambda>(m, r). (JNum m, r)) (parse_num (c # cs)))"
| "parse_elems 0 s = None"
| "parse_elems (Suc n) s =
     (case parse_value n s of
       None \<Rightarrow> None
     | Some (v, r) \<Rightarrow>
         (case skip_ws r of
           [] \<Rightarrow> None
         | d # ds \<Rightarrow>
             if d = CHR '']'' then Some ([v], ds)
             else if d = CHR '','' then map_option (\<lambda>(xs, r'). (v # xs, r')) (parse_elems n ds)
             else None))"
| "parse_members 0 acc s = None"
| "parse_members (Suc n) acc s =
     (case skip_ws s of
       [] \<Rightarrow> None
     | c # cs \<Rightarrow>
         if c \<noteq> CHR 0x22 then None
         else
           (case parse_string cs of
             None \<Rightarrow> None
           | Some (k, r) \<Rightarrow>
               (case skip_ws r of
                 [] \<Rightarrow> None
               | d # ds \<Rightarrow>
                   if d \<noteq> CHR '':'' then None
                   else
                     (case parse_value n ds of
                       None \<Rightarrow> None
                     | Some (v, r2) \<Rightarrow>
                         (case skip_ws r2 of
                           [] \<Rightarrow> None
                         | e # es \<Rightarrow>
                             if e = CHR ''}'' then Some (jset k v acc, es)
                             else if e = CHR '','' then parse_members n (jset k v acc) es
                             else None)))))"

definition json_parse :: "string \<Rightarrow> json option" where
  "json_parse s =
     (case parse_value (2 * length s + 2) s of
       None \<Rightarrow> None
     | Some (v, r) \<Rightarrow> (if skip_ws r = [] then Some v else None))"


subsection \<open>The round trip\<close>

text \<open>A JSON value of the program has no object with a repeated key.\<close>

fun wf_json :: "json \<Rightarrow> bool" where
  "wf_json (JArr xs) = (\<forall>x\<in>set xs. wf_json x)"
| "wf_json (JObj fs) = (distinct (map fst fs) \<and> (\<forall>(k, v)\<in>set fs. wf_json v))"
| "wf_json _ = True"

text \<open>How much recursion the parser spends on the text of a value.\<close>

fun json_cost :: "json \<Rightarrow> nat" where
  "json_cost (JArr xs) = Suc (sum_list (map (\<lambda>x. Suc (json_cost x)) xs))"
| "json_cost (JObj fs) = Suc (sum_list (map (\<lambda>(k, v). Suc (json_cost v)) fs))"
| "json_cost _ = 1"

lemma char_eqI: "(of_char c :: nat) = of_char d \<Longrightarrow> c = d"
  by simp

lemma hex_val_hex_digit: "d < 16 \<Longrightarrow> hex_val (hex_digit d) = Some d"
  by (auto simp: hex_val_def hex_digit_def Let_def)

lemma parse_string_esc:
  "parse_string (esc_char c @ t) =
     (case parse_string t of None \<Rightarrow> None | Some (s, r) \<Rightarrow> Some (c # s, r))"
proof -
  let ?n = "of_char c :: nat"
  have c: "c = char_of ?n" by simp
  consider (q) "?n = 34" | (b) "?n = 92" | (bs) "?n = 8" | (tb) "?n = 9" | (nl) "?n = 10"
    | (ff) "?n = 12" | (cr) "?n = 13"
    | (u) "?n < 32" "?n \<notin> {8, 9, 10, 12, 13}" | (plain) "32 \<le> ?n" "?n \<noteq> 34" "?n \<noteq> 92"
    by auto linarith
  then show ?thesis
  proof cases
    case u
    then have "?n div 16 < 16" "?n mod 16 < 16" by auto
    note h = hex_val_hex_digit [OF this(1)] hex_val_hex_digit [OF this(2)]
    have z: "hex_val (CHR ''0'') = Some 0" by (simp add: hex_val_def)
    have p: "utf8_point (of_char c) = [c]" using u by (simp add: utf8_point_def)
    have e: "esc_char c = [CHR 0x5C, CHR ''u'', CHR ''0'', CHR ''0'', hex_digit (?n div 16), hex_digit (?n mod 16)]"
      using u by (simp add: esc_char_def Let_def)
    show ?thesis by (simp add: e h z p split: option.splits prod.splits)
  next
    case plain
    then show ?thesis by (simp add: esc_char_def Let_def)
  next
    case q
    then have "c = CHR 0x22" by (intro char_eqI) simp
    then show ?thesis by (simp add: esc_char_def split: option.splits prod.splits)
  next
    case b
    then have "c = CHR 0x5C" by (intro char_eqI) simp
    then show ?thesis by (simp add: esc_char_def split: option.splits prod.splits)
  next
    case bs
    then have "c = CHR 0x08" by (intro char_eqI) simp
    then show ?thesis by (simp add: esc_char_def split: option.splits prod.splits)
  next
    case tb
    then have "c = CHR 0x09" by (intro char_eqI) simp
    then show ?thesis by (simp add: esc_char_def split: option.splits prod.splits)
  next
    case nl
    then have "c = CHR 0x0A" by (intro char_eqI) simp
    then show ?thesis by (simp add: esc_char_def split: option.splits prod.splits)
  next
    case ff
    then have "c = CHR 0x0C" by (intro char_eqI) simp
    then show ?thesis by (simp add: esc_char_def split: option.splits prod.splits)
  next
    case cr
    then have "c = CHR 0x0D" by (intro char_eqI) simp
    then show ?thesis by (simp add: esc_char_def split: option.splits prod.splits)
  qed
qed

lemma parse_string_quoted:
  "parse_string (concat (map esc_char s) @ CHR 0x22 # rest) = Some (s, rest)"
  by (induction s) (simp_all add: parse_string_esc)

text \<open>What may follow a number so that the number ends there.\<close>

definition num_end :: "string \<Rightarrow> bool" where
  "num_end s = (case s of [] \<Rightarrow> True
     | c # _ \<Rightarrow> \<not> is_digit c \<and> c \<notin> set ''.eE/'')"

lemma num_end_simps [simp]:
  "num_end []" "num_end (CHR '','' # r)" "num_end (CHR '']'' # r)" "num_end (CHR ''}'' # r)"
  by (simp_all add: num_end_def is_digit_def)

lemma takeWhile_digits:
  "num_end r \<or> (\<exists>c r'. r = c # r' \<and> \<not> is_digit c) \<Longrightarrow>
   takeWhile is_digit (show_nat n @ r) = show_nat n \<and> dropWhile is_digit (show_nat n @ r) = r"
proof -
  assume a: "num_end r \<or> (\<exists>c r'. r = c # r' \<and> \<not> is_digit c)"
  then have "takeWhile is_digit r = []" "dropWhile is_digit r = r"
    by (auto simp: num_end_def split: list.splits)
  moreover have "\<forall>c\<in>set (show_nat n). is_digit c" by (simp add: show_nat_digits)
  ultimately show ?thesis by (simp add: takeWhile_append dropWhile_append)
qed

lemma zero_digit: "digit_char 0 = CHR ''0''"
  by (rule char_eqI) (simp add: of_char_digit)

lemma show_nat_no_leading_zero: "hd (show_nat n) = CHR ''0'' \<Longrightarrow> tl (show_nat n) = []"
proof (induction n rule: show_nat.induct)
  case (1 n)
  show ?case
  proof (cases "n < 10")
    case True
    then show ?thesis by (subst show_nat.simps) simp
  next
    case False
    then have e: "show_nat n = show_nat (n div 10) @ [digit_char (n mod 10)]"
      by (subst show_nat.simps) simp
    with "1.prems" have "hd (show_nat (n div 10)) = CHR ''0''" by simp
    with "1.IH" False have "tl (show_nat (n div 10)) = []" by simp
    then obtain c where c: "show_nat (n div 10) = [c]" by (metis list.exhaust_sel show_nat_nonempty)
    with \<open>hd (show_nat (n div 10)) = CHR ''0''\<close> have "c = CHR ''0''" by simp
    with c have "show_nat (n div 10) = show_nat 0" by (simp add: show_nat.simps [of 0] zero_digit)
    then have "n div 10 = 0" by (rule show_nat_inj)
    with False show ?thesis by simp
  qed
qed

lemma parse_exp_end: "num_end r \<Longrightarrow> parse_exp m r = Some (m, r)"
  by (auto simp: parse_exp_def num_end_def split: list.splits)

lemma parse_frac_end: "num_end r \<Longrightarrow> parse_frac n r = Some (of_nat n, r)"
  by (auto simp: parse_frac_def num_end_def parse_exp_end [unfolded num_end_def] split: list.splits)

lemma parse_unsigned_nat:
  assumes "num_end r"
  shows "parse_unsigned (show_nat n @ r) = Some (of_nat n, r)"
  using assms takeWhile_digits [of r n] show_nat_no_leading_zero [of n]
  by (simp add: parse_unsigned_def span_digits_def parse_frac_end)

lemma parse_unsigned_frac:
  assumes "num_end r"
  shows "parse_unsigned (show_nat n @ CHR ''/'' # show_nat d @ r) = Some (of_nat n / of_nat d, r)"
proof -
  have "\<not> is_digit (CHR ''/'')" by (simp add: is_digit_def)
  then have "takeWhile is_digit (show_nat n @ CHR ''/'' # show_nat d @ r) = show_nat n
      \<and> dropWhile is_digit (show_nat n @ CHR ''/'' # show_nat d @ r) = CHR ''/'' # show_nat d @ r"
    by (intro takeWhile_digits) auto
  with assms takeWhile_digits [of r d] show_nat_no_leading_zero [of n] show ?thesis
    by (simp add: parse_unsigned_def span_digits_def parse_frac_def)
qed

lemma hd_show_nat_not_minus: "hd (show_nat n) \<noteq> CHR ''-''"
proof -
  have "is_digit (hd (show_nat n))" by (rule show_nat_digits [of _ n]) simp
  then show ?thesis by (auto simp: is_digit_def)
qed

lemma parse_num_unsigned: "parse_num (show_nat n @ r) = parse_unsigned (show_nat n @ r)"
proof -
  obtain c cs where c: "show_nat n = c # cs" by (meson list.exhaust show_nat_nonempty)
  with hd_show_nat_not_minus [of n] show ?thesis by (simp add: parse_num_def)
qed

lemma parse_num_minus:
  "parse_num (CHR ''-'' # s) = map_option (\<lambda>(m, r'). (- m, r')) (parse_unsigned s)"
  by (simp add: parse_num_def)

lemma parse_show_num:
  assumes r: "num_end r"
  shows "parse_num (show_num q @ r) = Some (q, r)"
proof -
  obtain n d where nd: "quotient_of q = (n, d)" by (cases "quotient_of q")
  then have d: "0 < d" by (rule quotient_of_denom_pos)
  have q: "q = of_int n / of_int d" using nd by (simp add: quotient_of_div)
  have dn: "of_int d = (of_nat (nat d) :: rat)" using d by (simp only: of_nat_nat order.strict_implies_order)
  have sd: "show_int d = show_nat (nat d)" using d by (simp add: show_int_def)
  show ?thesis
  proof (cases "n < 0")
    case True
    then have "of_int n = - (of_nat (nat (- n)) :: rat)" by simp
    then have q': "q = - (of_nat (nat (- n)) / of_nat (nat d))" using q dn by (metis minus_divide_left)
    have s: "show_num q = CHR ''-'' # show_nat (nat (- n)) @ (if d = 1 then [] else CHR ''/'' # show_nat (nat d))"
      using True nd sd by (simp add: show_num_def show_int_def)
    show ?thesis
    proof (cases "d = 1")
      case True
      with s q' parse_unsigned_nat [OF r] show ?thesis by (simp add: parse_num_minus)
    next
      case False
      with s q' parse_unsigned_frac [OF r] show ?thesis by (simp add: parse_num_minus)
    qed
  next
    case False
    then have "of_int n = (of_nat (nat n) :: rat)" by simp
    then have q': "q = of_nat (nat n) / of_nat (nat d)" using q dn by metis
    have s: "show_num q = show_nat (nat n) @ (if d = 1 then [] else CHR ''/'' # show_nat (nat d))"
      using False nd sd by (simp add: show_num_def show_int_def)
    show ?thesis
    proof (cases "d = 1")
      case True
      with s q' parse_unsigned_nat [OF r] show ?thesis by (simp add: parse_num_unsigned)
    next
      case False
      with s q' parse_unsigned_frac [OF r] show ?thesis by (simp add: parse_num_unsigned)
    qed
  qed
qed

text \<open>How the text of a value starts.\<close>

definition num_start :: "char \<Rightarrow> bool" where
  "num_start c = (is_digit c \<or> c = CHR ''-'')"

definition val_start :: "char \<Rightarrow> bool" where
  "val_start c = (num_start c \<or> c \<in> {CHR 0x22, CHR ''['', CHR ''{'', CHR ''n'', CHR ''t'', CHR ''f''})"

lemma show_num_start: "\<exists>c cs. show_num q = c # cs \<and> num_start c"
proof -
  have n: "\<exists>c cs. show_nat n = c # cs \<and> num_start c" for n
    using show_nat_digits [of "hd (show_nat n)" n] show_nat_nonempty [of n]
    by (cases "show_nat n") (auto simp: num_start_def)
  have i: "\<exists>c cs. show_int i = c # cs \<and> num_start c" for i
    using n by (auto simp: show_int_def num_start_def)
  obtain k d where "quotient_of q = (k, d)" by (cases "quotient_of q")
  with i [of k] show ?thesis by (auto simp: show_num_def)
qed

lemma json_str_start: "\<exists>c cs. json_str j = c # cs \<and> val_start c"
proof (cases j)
  case (JNum q)
  with show_num_start [of q] show ?thesis by (auto simp: val_start_def)
qed (auto simp: val_start_def json_quote_def)

lemma val_start_not_ws: "val_start c \<Longrightarrow> \<not> is_ws c \<and> c \<noteq> CHR '']'' \<and> c \<noteq> CHR ''}''"
  by (auto simp: val_start_def num_start_def is_ws_def is_digit_def Let_def)

lemma skip_ws_json_str [simp]: "skip_ws (json_str j @ r) = json_str j @ r"
  using json_str_start [of j] val_start_not_ws by (auto simp: skip_ws_def)

lemma skip_ws_id [simp]: "\<not> is_ws c \<Longrightarrow> skip_ws (c # r) = c # r"
  by (simp add: skip_ws_def)

lemma skip_ws_Nil [simp]: "skip_ws [] = []"
  by (simp add: skip_ws_def)

lemma not_ws [simp]:
  "\<not> is_ws CHR '',''" "\<not> is_ws CHR '']''" "\<not> is_ws CHR ''}''" "\<not> is_ws CHR '':''" "\<not> is_ws CHR 0x22"
  "\<not> is_ws CHR ''[''" "\<not> is_ws CHR ''{''" "\<not> is_ws CHR ''n''" "\<not> is_ws CHR ''t''" "\<not> is_ws CHR ''f''"
  by (simp_all add: is_ws_def)

definition reads_back :: "json \<Rightarrow> bool" where
  "reads_back j = (\<forall>n rest. json_cost j \<le> n \<longrightarrow> num_end rest \<longrightarrow>
     parse_value n (json_str j @ rest) = Some (j, rest))"

lemma reads_backD:
  "reads_back j \<Longrightarrow> json_cost j \<le> n \<Longrightarrow> num_end rest \<Longrightarrow> parse_value n (json_str j @ rest) = Some (j, rest)"
  by (simp add: reads_back_def)

lemma parse_elems_str:
  assumes "xs \<noteq> []" "\<forall>x\<in>set xs. reads_back x" "sum_list (map (\<lambda>x. Suc (json_cost x)) xs) \<le> n"
  shows "parse_elems n (join '','' (map json_str xs) @ CHR '']'' # rest) = Some (xs, rest)"
  using assms
proof (induction xs arbitrary: n)
  case Nil
  then show ?case by simp
next
  case (Cons x xs)
  then obtain m where n: "n = Suc m" by (cases n) auto
  show ?case
  proof (cases "xs = []")
    case True
    with Cons.prems n show ?thesis by (simp add: reads_backD)
  next
    case False
    with Cons.prems n have "parse_elems m (join '','' (map json_str xs) @ CHR '']'' # rest) = Some (xs, rest)"
      by (intro Cons.IH) auto
    with False Cons.prems n show ?thesis by (simp add: join_Cons reads_backD)
  qed
qed

lemma parse_members_str:
  assumes "fs \<noteq> []" "\<forall>(k, v)\<in>set fs. reads_back v" "sum_list (map (\<lambda>(k, v). Suc (json_cost v)) fs) \<le> n"
    and "distinct (map fst (acc @ fs))"
  shows "parse_members n acc (join '','' (map (\<lambda>(k, v). json_quote k @ '':'' @ json_str v) fs) @ CHR ''}'' # rest)
    = Some (acc @ fs, rest)"
  using assms
proof (induction fs arbitrary: n acc)
  case Nil
  then show ?case by simp
next
  case (Cons f fs)
  obtain k v where f: "f = (k, v)" by (cases f)
  from Cons.prems f obtain m where n: "n = Suc m" by (cases n) auto
  have v: "reads_back v" "json_cost v \<le> m" using Cons.prems f n by auto
  have "\<not> jhas acc k" using Cons.prems(4) f by (auto simp: jhas_iff)
  then have acc: "jset k v acc = acc @ [(k, v)]" by (rule jset_absent)
  show ?case
  proof (cases "fs = []")
    case True
    with n f v acc show ?thesis
      by (simp add: json_quote_def parse_string_quoted reads_backD)
  next
    case False
    with Cons.prems n f have "parse_members m (acc @ [(k, v)])
        (join '','' (map (\<lambda>(k, v). json_quote k @ '':'' @ json_str v) fs) @ CHR ''}'' # rest)
      = Some ((acc @ [(k, v)]) @ fs, rest)"
      by (intro Cons.IH) auto
    with False n f v acc show ?thesis
      by (simp add: join_Cons json_quote_def parse_string_quoted reads_backD)
  qed
qed

lemma join_start:
  "xs \<noteq> [] \<Longrightarrow> \<exists>c cs. join '','' (map json_str xs) = c # cs \<and> val_start c"
  using json_str_start [of "hd xs"] by (cases xs) (auto simp: join_Cons, (cases "tl xs"; auto))

lemma join_members_start:
  assumes "fs \<noteq> []"
  shows "\<exists>cs. join '','' (map (\<lambda>(k, v). json_quote k @ '':'' @ json_str v) fs) = CHR 0x22 # cs"
  using assms by (cases fs; cases "tl fs") (auto simp: json_quote_def split: prod.splits)

lemma json_str_reads_back: "wf_json j \<Longrightarrow> reads_back j"
proof (induction j rule: json_str.induct)
  case 1
  show ?case
    by (auto simp: reads_back_def dest!: Suc_le_D)
next
  case (2 b)
  show ?case
    by (auto simp: reads_back_def dest!: Suc_le_D)
next
  case (3 q)
  show ?case
    unfolding reads_back_def
  proof (intro allI impI)
    fix n rest
    assume n: "json_cost (JNum q) \<le> n" and r: "num_end rest"
    from n obtain m where m: "n = Suc m" by (cases n) auto
    obtain c cs where c: "show_num q = c # cs" "num_start c" using show_num_start by blast
    have s: "skip_ws (c # cs @ rest) = c # cs @ rest"
      using c(2) val_start_not_ws [of c] by (simp add: val_start_def)
    have "c \<noteq> CHR 0x22 \<and> c \<noteq> CHR ''['' \<and> c \<noteq> CHR ''{'' \<and> c \<noteq> CHR ''n'' \<and> c \<noteq> CHR ''t'' \<and> c \<noteq> CHR ''f''"
      using c(2) by (auto simp: num_start_def is_digit_def)
    with m s c r parse_show_num [OF r, of q] show "parse_value n (json_str (JNum q) @ rest) = Some (JNum q, rest)"
      by simp
  qed
next
  case (4 s)
  show ?case
    by (auto simp: reads_back_def json_quote_def parse_string_quoted dest!: Suc_le_D)
next
  case (5 xs)
  then have xs: "\<forall>x\<in>set xs. reads_back x" by simp
  show ?case
    unfolding reads_back_def
  proof (intro allI impI)
    fix n rest
    assume n: "json_cost (JArr xs) \<le> n" and r: "num_end rest"
    from n obtain m where m: "n = Suc m" by (cases n) auto
    show "parse_value n (json_str (JArr xs) @ rest) = Some (JArr xs, rest)"
    proof (cases "xs = []")
      case True
      with m show ?thesis by simp
    next
      case False
      obtain c cs where c: "join '','' (map json_str xs) = c # cs" "val_start c"
        using join_start [OF False] by blast
      have "parse_elems m (join '','' (map json_str xs) @ CHR '']'' # rest) = Some (xs, rest)"
        using False xs n m by (intro parse_elems_str) auto
      with m c val_start_not_ws [of c] show ?thesis by simp
    qed
  qed
next
  case (6 fs)
  then have fs: "\<forall>(k, v)\<in>set fs. reads_back v" by auto
  show ?case
    unfolding reads_back_def
  proof (intro allI impI)
    fix n rest
    assume n: "json_cost (JObj fs) \<le> n" and r: "num_end rest"
    from n obtain m where m: "n = Suc m" by (cases n) auto
    let ?t = "join '','' (map (\<lambda>(k, v). json_quote k @ '':'' @ json_str v) fs)"
    show "parse_value n (json_str (JObj fs) @ rest) = Some (JObj fs, rest)"
    proof (cases "fs = []")
      case True
      with m show ?thesis by simp
    next
      case False
      obtain cs where c: "?t = CHR 0x22 # cs" using join_members_start [OF False] by blast
      have "parse_members m [] (?t @ CHR ''}'' # rest) = Some ([] @ fs, rest)"
        using False fs n m "6.prems" by (intro parse_members_str) auto
      with m c show ?thesis by simp
    qed
  qed
qed

lemma length_join_ge:
  "sum_list (map length xs) + length xs \<le> Suc (length (join '','' xs))"
proof (induction xs)
  case Nil
  then show ?case by simp
next
  case (Cons x xs)
  then show ?case by (cases xs) auto
qed

lemma json_cost_le: "json_cost j \<le> 2 * length (json_str j)"
proof (induction j rule: json_str.induct)
  case (5 xs)
  have "sum_list (map (\<lambda>x. Suc (json_cost x)) xs) \<le> length xs + 2 * sum_list (map (length \<circ> json_str) xs)"
    using 5 by (induction xs) force+
  with length_join_ge [of "map json_str xs"] show ?case by simp
next
  case (6 fs)
  let ?f = "\<lambda>(k, v). json_quote k @ '':'' @ json_str v"
  have "sum_list (map (\<lambda>(k, v). Suc (json_cost v)) fs) \<le> length fs + 2 * sum_list (map (length \<circ> ?f) fs)"
    using 6
  proof (induction fs)
    case Nil
    then show ?case by simp
  next
    case (Cons p fs)
    obtain k v where p: "p = (k, v)" by (cases p)
    have "json_cost v \<le> 2 * length (json_str v)" using Cons.prems p by auto
    moreover have "sum_list (map (\<lambda>(k, v). Suc (json_cost v)) fs) \<le> length fs + 2 * sum_list (map (length \<circ> ?f) fs)"
      using Cons.prems by (intro Cons.IH) auto
    ultimately show ?case using p by (simp add: comp_def)
  qed
  with length_join_ge [of "map ?f fs"] show ?case by simp
next
  case (3 q)
  obtain c cs where "show_num q = c # cs" using show_num_start by blast
  then show ?case by simp
qed (auto simp: json_quote_def)

text \<open>Every well-formed value is read back from its text.\<close>

lemma json_parse_str [simp]:
  assumes "wf_json j"
  shows "json_parse (json_str j) = Some j"
proof -
  have "parse_value (2 * length (json_str j) + 2) (json_str j @ []) = Some (j, [])"
    using json_cost_le [of j] by (intro reads_backD json_str_reads_back assms) simp_all
  then show ?thesis by (simp add: json_parse_def)
qed

lemma json_str_inj: "wf_json a \<Longrightarrow> wf_json b \<Longrightarrow> json_str a = json_str b \<Longrightarrow> a = b"
  by (metis json_parse_str option.inject)

text \<open>Whatever the parser returns has no repeated key.\<close>

lemma wf_jset_members:
  "wf_json (JObj acc) \<Longrightarrow> wf_json v \<Longrightarrow> wf_json (JObj (jset k v acc))"
proof -
  have "\<forall>(k', v')\<in>set (jset k v acc). wf_json v'" if "\<forall>(k', v')\<in>set acc. wf_json v'" "wf_json v"
    using that by (induction acc) auto
  then show "wf_json (JObj acc) \<Longrightarrow> wf_json v \<Longrightarrow> wf_json (JObj (jset k v acc))"
    by (simp add: distinct_update)
qed

lemma parse_wf:
  "(\<forall>s j r. parse_value n s = Some (j, r) \<longrightarrow> wf_json j)
   \<and> (\<forall>s xs r. parse_elems n s = Some (xs, r) \<longrightarrow> (\<forall>x\<in>set xs. wf_json x))
   \<and> (\<forall>acc s fs r. parse_members n acc s = Some (fs, r) \<longrightarrow> wf_json (JObj acc) \<longrightarrow> wf_json (JObj fs))"
proof (induction n)
  case (Suc n)
  then have v: "\<And>s j r. parse_value n s = Some (j, r) \<Longrightarrow> wf_json j"
    and e: "\<And>s xs r x. parse_elems n s = Some (xs, r) \<Longrightarrow> x \<in> set xs \<Longrightarrow> wf_json x"
    and m: "\<And>acc s fs r. parse_members n acc s = Some (fs, r) \<Longrightarrow> wf_json (JObj acc) \<Longrightarrow> wf_json (JObj fs)"
    by blast+
  have "wf_json j" if "parse_value (Suc n) s = Some (j, r)" for s j r
    using that m [of "[]"] by (auto split: list.splits if_splits simp del: wf_json.simps(2) dest: e)
      (auto simp: wf_json.simps)
  moreover have "wf_json x" if "parse_elems (Suc n) s = Some (xs, r)" "x \<in> set xs" for s xs r x
    using that by (auto split: list.splits if_splits option.splits) (blast intro: e v)+
  moreover have "wf_json (JObj fs)" if p: "parse_members (Suc n) acc s = Some (fs, r)" "wf_json (JObj acc)" for acc s fs r
    using p by (auto split: list.splits if_splits option.splits simp del: wf_json.simps)
      (meson wf_jset_members v m)+
  ultimately show ?case by blast
qed simp

lemma json_parse_wf: "json_parse s = Some j \<Longrightarrow> wf_json j"
  by (auto simp: json_parse_def split: option.splits if_splits dest: parse_wf [THEN conjunct1, rule_format] simp del: parse_value.simps)

end
