(* ===== verification/Encoding.thy ===== *)
theory Encoding
  imports Json "HOL-Library.List_Lexorder" "HOL-Library.Char_ord" "HOL-Library.Multiset"
begin

unbundle bit_operations_syntax

text \<open>
  \<open>orp-ref/core/encoding.ts\<close> and \<open>orp-ref/core/canonical.ts\<close>: base64url, UTF-8, concatenation and
  comparison of byte arrays, and the canonical JSON text that every signature covers. The base64url
  coder of Node's \<open>Buffer\<close> is written out: decoding ignores characters outside the two alphabets.
  The two facts the rest of the development rests on are that decoding inverts encoding and that
  the canonical text determines the value up to the order of object keys.
\<close>

subsection \<open>base64url\<close>

definition sextet_char :: "nat \<Rightarrow> char" where
  "sextet_char n =
     (if n < 26 then char_of (65 + n) else if n < 52 then char_of (71 + n)
      else if n < 62 then char_of (n - 4) else if n = 62 then CHR ''-'' else CHR ''_'')"

definition char_sextet :: "char \<Rightarrow> nat option" where
  "char_sextet c = (let n = (of_char c :: nat) in
     if 65 \<le> n \<and> n \<le> 90 then Some (n - 65)
     else if 97 \<le> n \<and> n \<le> 122 then Some (n - 71)
     else if 48 \<le> n \<and> n \<le> 57 then Some (n + 4)
     else if n = 45 \<or> n = 43 then Some 62
     else if n = 95 \<or> n = 47 then Some 63
     else None)"

fun enc_sextets :: "nat list \<Rightarrow> nat list" where
  "enc_sextets (a # b # c # r) =
     a div 4 # (a mod 4 * 16 + b div 16) # (b mod 16 * 4 + c div 64) # c mod 64 # enc_sextets r"
| "enc_sextets [a, b] = [a div 4, a mod 4 * 16 + b div 16, b mod 16 * 4]"
| "enc_sextets [a] = [a div 4, a mod 4 * 16]"
| "enc_sextets [] = []"

fun dec_sextets :: "nat list \<Rightarrow> nat list" where
  "dec_sextets (p # q # r # s # t) =
     (p * 4 + q div 16) # (q mod 16 * 16 + r div 4) # (r mod 4 * 64 + s) # dec_sextets t"
| "dec_sextets [p, q, r] = [p * 4 + q div 16, q mod 16 * 16 + r div 4]"
| "dec_sextets [p, q] = [p * 4 + q div 16]"
| "dec_sextets [p] = []"
| "dec_sextets [] = []"

definition b64uEncode :: "bytes \<Rightarrow> string" where
  "b64uEncode bs = map sextet_char (enc_sextets (map unat bs))"

definition b64uDecode :: "string \<Rightarrow> bytes" where
  "b64uDecode s = map of_nat (dec_sextets (List.map_filter char_sextet s))"

lemma char_sextet_sextet_char: "n < 64 \<Longrightarrow> char_sextet (sextet_char n) = Some n"
  by (auto simp: char_sextet_def sextet_char_def Let_def)

lemma enc_sextets_bound: "\<forall>x\<in>set xs. x < 256 \<Longrightarrow> \<forall>y\<in>set (enc_sextets xs). y < 64"
  by (induction xs rule: enc_sextets.induct) auto

lemma sextet_arith:
  fixes a b c :: nat
  assumes "a < 256" "b < 256" "c < 256"
  shows "a div 4 * 4 + (a mod 4 * 16 + b div 16) div 16 = a"
    and "(a mod 4 * 16 + b div 16) mod 16 * 16 + (b mod 16 * 4 + c div 64) div 4 = b"
    and "(b mod 16 * 4 + c div 64) mod 4 * 64 + c mod 64 = c"
proof -
  have "b div 16 < 16" "c div 64 < 4" using assms by auto
  then show "a div 4 * 4 + (a mod 4 * 16 + b div 16) div 16 = a"
    and "(a mod 4 * 16 + b div 16) mod 16 * 16 + (b mod 16 * 4 + c div 64) div 4 = b"
    and "(b mod 16 * 4 + c div 64) mod 4 * 64 + c mod 64 = c"
    by simp_all
qed

lemma dec_enc_sextets: "\<forall>x\<in>set xs. x < 256 \<Longrightarrow> dec_sextets (enc_sextets xs) = xs"
  by (induction xs rule: enc_sextets.induct) (use sextet_arith [of _ _ 0] sextet_arith [of _ 0 0] in
      \<open>auto simp: sextet_arith simp del: div_mult_self1 div_mult_self2\<close>)

lemma map_filter_sextets: "\<forall>x\<in>set ns. x < 64 \<Longrightarrow> List.map_filter char_sextet (map sextet_char ns) = ns"
  by (induction ns) (auto simp: List.map_filter_simps char_sextet_sextet_char)

lemma unat_byte_bound: "\<forall>x\<in>set (map unat (bs :: bytes)). x < 256"
  by (auto intro: less_le_trans [OF unsigned_less [where 'b = 8]])

lemma b64uDecode_b64uEncode [simp]: "b64uDecode (b64uEncode bs) = bs"
proof -
  have "List.map_filter char_sextet (b64uEncode bs) = enc_sextets (map unat bs)"
    unfolding b64uEncode_def by (intro map_filter_sextets enc_sextets_bound unat_byte_bound)
  then have "b64uDecode (b64uEncode bs) = map of_nat (map unat bs)"
    using dec_enc_sextets [OF unat_byte_bound [of bs]] by (simp add: b64uDecode_def)
  then show ?thesis by (simp add: comp_def)
qed

lemma b64uEncode_inj: "b64uEncode a = b64uEncode b \<Longrightarrow> a = b"
  by (metis b64uDecode_b64uEncode)

lemma b64uEncode_eq_iff [simp]: "b64uEncode a = b64uEncode b \<longleftrightarrow> a = b"
  using b64uEncode_inj by blast

subsection \<open>UTF-8, concatenation, comparison\<close>

definition utf8 :: "string \<Rightarrow> bytes" where
  "utf8 s = map (\<lambda>c. of_nat (of_char c)) s"

definition fromUtf8 :: "bytes \<Rightarrow> string" where
  "fromUtf8 bs = map (\<lambda>b. char_of (unat b)) bs"

lemma unat_of_char [simp]: "unat (of_nat (of_char c) :: 8 word) = of_char c"
proof -
  have "(of_char c :: nat) < 2 ^ LENGTH(8)" using nat_of_char_less_256 [of c] by simp
  then show ?thesis by (simp add: unsigned_of_nat take_bit_nat_eq_self)
qed

lemma fromUtf8_utf8 [simp]: "fromUtf8 (utf8 s) = s"
  by (simp add: fromUtf8_def utf8_def comp_def)

lemma utf8_eq_iff [simp]: "utf8 a = utf8 b \<longleftrightarrow> a = b"
  by (metis fromUtf8_utf8)

definition concatBytes :: "bytes list \<Rightarrow> bytes" where
  "concatBytes arrays = concat arrays"

text \<open>The loop accumulates the differences of the bytes and looks at the result once.\<close>

definition bytesEqual :: "bytes \<Rightarrow> bytes \<Rightarrow> bool" where
  "bytesEqual a b =
     (if length a \<noteq> length b then False
      else foldl (\<lambda>diff (x, y). diff OR (x XOR y)) 0 (zip a b) = 0)"

lemma word_or_eq_0: "(a :: 8 word) OR b = 0 \<longleftrightarrow> a = 0 \<and> b = 0"
  by (metis or_eq_0_iff)

lemma word_xor_eq_0: "(a :: 8 word) XOR b = 0 \<longleftrightarrow> a = b"
  by (metis bit.xor_self word_bw_lcs(3) xor.right_neutral)

lemma diff_fold:
  "foldl (\<lambda>diff (x, y). diff OR (x XOR y)) d ps = (0 :: 8 word) \<longleftrightarrow> d = 0 \<and> (\<forall>(x, y)\<in>set ps. x = y)"
  by (induction ps arbitrary: d) (auto simp: word_or_eq_0 word_xor_eq_0)

lemma zip_diag: "length a = length b \<Longrightarrow> (\<forall>(x, y)\<in>set (zip a b). x = y) \<longleftrightarrow> a = b"
  by (induction a b rule: list_induct2) auto

lemma bytesEqual_iff: "bytesEqual a b \<longleftrightarrow> a = b"
  by (auto simp: bytesEqual_def diff_fold zip_diag)

subsection \<open>Canonical JSON\<close>

text \<open>
  The recursion of \<open>canon\<close>. A JSON value has no \<open>undefined\<close> field and no non-finite number, so the
  function is total; the two throws of the source concern values outside this type.
\<close>

fun canon :: "json \<Rightarrow> string" where
  "canon JNull = ''null''"
| "canon (JNum r) = show_num r"
| "canon (JBool b) = json_str (JBool b)"
| "canon (JStr s) = json_str (JStr s)"
| "canon (JArr xs) = ''['' @ join '','' (map canon xs) @ '']''"
| "canon (JObj obj) =
     ''{'' @ join '','' (map (\<lambda>(k, v). json_quote k @ '':'' @ canon v) (sort_key fst obj)) @ ''}''"

definition canonicalize :: "json \<Rightarrow> string" where
  "canonicalize v = canon v"

definition canonicalBytes :: "json \<Rightarrow> bytes" where
  "canonicalBytes v = utf8 (canonicalize v)"

text \<open>The value with the keys of every object sorted, all the way down.\<close>

fun norm_json :: "json \<Rightarrow> json" where
  "norm_json (JArr xs) = JArr (map norm_json xs)"
| "norm_json (JObj fs) = JObj (map (\<lambda>(k, v). (k, norm_json v)) (sort_key fst fs))"
| "norm_json j = j"

lemma canon_norm: "canon j = json_str (norm_json j)"
proof (induction j rule: canon.induct)
  case (5 xs)
  then have "map canon xs = map (json_str \<circ> norm_json) xs" by simp
  then show ?case by (metis canon.simps(5) json_str.simps(5) map_map norm_json.simps(1))
next
  case (6 obj)
  then have "map (\<lambda>(k, v). json_quote k @ '':'' @ canon v) (sort_key fst obj) =
      map (\<lambda>(k, v). json_quote k @ '':'' @ json_str v) (map (\<lambda>(k, v). (k, norm_json v)) (sort_key fst obj))"
    by auto
  then show ?case by (simp only: canon.simps json_str.simps norm_json.simps)
qed auto

lemma wf_norm_json: "wf_json j \<Longrightarrow> wf_json (norm_json j)"
proof (induction j rule: norm_json.induct)
  case (2 fs)
  have "map fst (map (\<lambda>(k, v). (k, norm_json v)) (sort_key fst fs)) = map fst (sort_key fst fs)"
    by (simp add: case_prod_beta comp_def)
  moreover have "distinct (map fst (sort_key fst fs))"
  proof -
    have "mset (map fst (sort_key fst fs)) = mset (map fst fs)" by simp
    then show ?thesis using "2.prems" by (metis mset_eq_imp_distinct_iff wf_json.simps(2))
  qed
  ultimately show ?case using 2 by (auto simp del: map_map)
qed auto

text \<open>
  Two records have the same signing preimage exactly when they are the same up to the order of
  their keys: nothing in a record can be changed without changing what was signed.
\<close>

lemma canonicalBytes_eq_iff:
  "wf_json a \<Longrightarrow> wf_json b \<Longrightarrow> canonicalBytes a = canonicalBytes b \<longleftrightarrow> norm_json a = norm_json b"
  by (auto simp: canonicalBytes_def canonicalize_def canon_norm intro: json_str_inj wf_norm_json)

text \<open>A record of string fields is determined by its normal form.\<close>

lemma norm_json_JStr [simp]: "norm_json j = JStr s \<longleftrightarrow> j = JStr s"
  by (cases j) auto

lemma jget_map_snd: "jget (map (\<lambda>(k, v). (k, f v)) fs) k = map_option f (jget fs k)"
  by (induction fs) auto

lemma jget_sort_key:
  assumes "distinct (map fst fs)"
  shows "jget (sort_key fst fs) k = jget fs k"
proof -
  have "distinct (map fst (sort_key fst fs))" using assms
    by (metis mset_eq_imp_distinct_iff mset_map mset_sort)
  then show ?thesis using assms by (metis map_of_eq_Some_iff not_None_eq option.exhaust set_sort)
qed

lemma norm_json_get:
  assumes "norm_json (JObj a) = norm_json (JObj b)" "wf_json (JObj a)" "wf_json (JObj b)"
  shows "map_option norm_json (jget a k) = map_option norm_json (jget b k)"
proof -
  have "map (\<lambda>(k, v). (k, norm_json v)) (sort_key fst a) = map (\<lambda>(k, v). (k, norm_json v)) (sort_key fst b)"
    using assms(1) by simp
  then have "map_option norm_json (jget (sort_key fst a) k) = map_option norm_json (jget (sort_key fst b) k)"
    by (metis jget_map_snd)
  with assms show ?thesis by (simp add: jget_sort_key)
qed

lemma norm_json_get_str:
  assumes "norm_json (JObj a) = norm_json (JObj b)" "wf_json (JObj a)" "wf_json (JObj b)"
  shows "jget a k = Some (JStr s) \<longleftrightarrow> jget b k = Some (JStr s)"
proof -
  have "x = Some (JStr s) \<longleftrightarrow> map_option norm_json x = Some (JStr s)" for x
    by (cases x) auto
  then show ?thesis using norm_json_get [OF assms] by metis
qed

text \<open>From here on texts are reasoned about as wholes.\<close>

declare json_str.simps [simp del] canon.simps [simp del]

end
