(* ===== verification/Identity.thy ===== *)
theory Identity
  imports Encoding
begin

text \<open>
  \<open>orp-ref/core/identity.ts\<close> and \<open>orp-ref/core/sign.ts\<close>: device identities, key bindings and
  signed records. The \<open>@noble\<close> primitives are third-party code: they are the fields of \<open>crypto\<close>,
  an argument of every function that uses them, and what the program relies on is stated by the
  named predicates \<open>ed_ok\<close>, \<open>dh_ok\<close>, \<open>aead_ok\<close> and their kin, which properties take as
  hypotheses. A primitive that throws returns \<open>None\<close>. Randomness and time are arguments.
\<close>

record crypto =
  ed_pub :: "bytes \<Rightarrow> bytes"
  ed_sign :: "bytes \<Rightarrow> bytes \<Rightarrow> bytes"
  ed_verify :: "bytes \<Rightarrow> bytes \<Rightarrow> bytes \<Rightarrow> bool option"
  x_pub :: "bytes \<Rightarrow> bytes"
  x_shared :: "bytes \<Rightarrow> bytes \<Rightarrow> bytes option"
  hkdf256 :: "bytes \<Rightarrow> bytes \<Rightarrow> bytes \<Rightarrow> nat \<Rightarrow> bytes"
  sha256 :: "bytes \<Rightarrow> bytes"
  xchacha_enc :: "bytes \<Rightarrow> bytes \<Rightarrow> bytes \<Rightarrow> bytes"
  xchacha_dec :: "bytes \<Rightarrow> bytes \<Rightarrow> bytes \<Rightarrow> bytes option"

text \<open>Documented behaviour of the primitives.\<close>

definition ed_ok :: "crypto \<Rightarrow> bool" where
  \<comment> \<open>a signature verifies under the signer's public key\<close>
  "ed_ok C = (\<forall>m priv. ed_verify C (ed_sign C m priv) m (ed_pub C priv) = Some True)"

definition ed_only_signed :: "crypto \<Rightarrow> bytes \<Rightarrow> bytes set \<Rightarrow> bool" where
  \<comment> \<open>under this public key only the messages of the set verify (unforgeability: the set of
     messages that the holder of the key has signed)\<close>
  "ed_only_signed C pub M = (\<forall>sig m. ed_verify C sig m pub = Some True \<longrightarrow> m \<in> M)"

definition dh_ok :: "crypto \<Rightarrow> bool" where
  \<comment> \<open>Diffie-Hellman agreement on honest public keys, which are 32 bytes long\<close>
  "dh_ok C = ((\<forall>a b. x_shared C a (x_pub C b) \<noteq> None \<and> x_shared C a (x_pub C b) = x_shared C b (x_pub C a))
     \<and> (\<forall>a. length (x_pub C a) = 32))"

definition aead_ok :: "crypto \<Rightarrow> bool" where
  \<comment> \<open>decryption inverts encryption, which appends a 16-byte tag\<close>
  "aead_ok C = (\<forall>k n p. xchacha_dec C k n (xchacha_enc C k n p) = Some p
     \<and> length (xchacha_enc C k n p) = length p + 16)"

definition aead_keyed :: "crypto \<Rightarrow> bool" where
  \<comment> \<open>a ciphertext does not authenticate under another key\<close>
  "aead_keyed C = (\<forall>k n p k' n'. k \<noteq> k' \<longrightarrow> xchacha_dec C k' n' (xchacha_enc C k n p) = None)"

definition hkdf_salted :: "crypto \<Rightarrow> bool" where
  \<comment> \<open>keys derived with different salts or infos differ\<close>
  "hkdf_salted C = (\<forall>ikm salt info ikm' salt' info' n.
     hkdf256 C ikm salt info n = hkdf256 C ikm' salt' info' n \<longrightarrow> salt = salt' \<and> info = info')"

subsection \<open>Property access and decoding of untyped values\<close>

text \<open>
  \<open>o.k\<close> on a parsed value: \<open>None\<close> is \<open>undefined\<close>. The names the program reads are not properties
  of strings, numbers or arrays.
\<close>

definition jprop :: "json \<Rightarrow> string \<Rightarrow> json option" where
  "jprop j k = (case j of JObj fs \<Rightarrow> jget fs k | _ \<Rightarrow> None)"

lemma jprop_JObj [simp]: "jprop (JObj fs) k = jget fs k"
  by (simp add: jprop_def)

definition is_obj :: "json \<Rightarrow> bool" where
  \<comment> \<open>\<open>typeof v === "object" \<and> v !== null\<close>: an object or an array\<close>
  "is_obj j = (case j of JObj _ \<Rightarrow> True | JArr _ \<Rightarrow> True | _ \<Rightarrow> False)"

fun num_bytes :: "json list \<Rightarrow> bytes" where
  "num_bytes [] = []"
| "num_bytes (JNum r # xs) = of_int (if 0 \<le> r then \<lfloor>r\<rfloor> else \<lceil>r\<rceil>) # num_bytes xs"
| "num_bytes (_ # xs) = 0 # num_bytes xs"

text \<open>
  \<open>b64uDecode\<close> on an untyped value: \<open>Buffer.from\<close> decodes a string, copies an array of numbers, and
  throws on \<open>undefined\<close>, null, numbers and booleans. Objects that imitate a buffer are not modelled.
\<close>

definition json_b64u :: "json option \<Rightarrow> bytes option" where
  "json_b64u v = (case v of
       Some (JStr s) \<Rightarrow> Some (b64uDecode s)
     | Some (JArr xs) \<Rightarrow> Some (num_bytes xs)
     | _ \<Rightarrow> None)"

lemma json_b64u_JStr [simp]: "json_b64u (Some (JStr s)) = Some (b64uDecode s)"
  by (simp add: json_b64u_def)

text \<open>An object literal whose \<open>undefined\<close> fields disappear when it is serialised.\<close>

definition obj_of :: "(string \<times> json option) list \<Rightarrow> json" where
  "obj_of fs = JObj (List.map_filter (\<lambda>(k, v). map_option (Pair k) v) fs)"

subsection \<open>Device identities\<close>

record device_identity =
  di_signingPriv :: bytes
  di_transportPriv :: bytes
  signingPub :: bytes
  transportPub :: bytes
  di_binding :: json

definition binding_body :: "string \<Rightarrow> string \<Rightarrow> string \<Rightarrow> json" where
  "binding_body ik tk created =
     JObj [(''identity_key'', JStr ik), (''transport_key'', JStr tk), (''created_utc'', JStr created)]"

definition mk_identity :: "crypto \<Rightarrow> bytes \<Rightarrow> bytes \<Rightarrow> string \<Rightarrow> device_identity" where
  "mk_identity C signingPriv transportPriv createdUtc =
     (let sp = ed_pub C signingPriv; tp = x_pub C transportPriv;
          body = binding_body (b64uEncode sp) (b64uEncode tp) createdUtc;
          sig = b64uEncode (ed_sign C (canonicalBytes body) signingPriv)
      in \<lparr>di_signingPriv = signingPriv, di_transportPriv = transportPriv,
          signingPub = sp, transportPub = tp,
          di_binding = JObj [(''identity_key'', JStr (b64uEncode sp)), (''transport_key'', JStr (b64uEncode tp)),
                             (''created_utc'', JStr createdUtc), (''binding_sig'', JStr sig)]\<rparr>)"

text \<open>\<open>generate\<close> and \<open>fromPrivateKeys\<close>: the constructor on fresh or on stored keys.\<close>

definition generate :: "crypto \<Rightarrow> bytes \<Rightarrow> bytes \<Rightarrow> string \<Rightarrow> device_identity" where
  "generate C randSigning randTransport now = mk_identity C randSigning randTransport now"

definition fromPrivateKeys :: "crypto \<Rightarrow> bytes \<Rightarrow> bytes \<Rightarrow> string \<Rightarrow> device_identity" where
  "fromPrivateKeys C signingPriv transportPriv createdUtc = mk_identity C signingPriv transportPriv createdUtc"

definition identityKeyB64 :: "device_identity \<Rightarrow> string" where
  "identityKeyB64 i = b64uEncode (signingPub i)"

definition transportKeyB64 :: "device_identity \<Rightarrow> string" where
  "transportKeyB64 i = b64uEncode (transportPub i)"

record public_identity =
  pi_identity_key :: string
  pi_transport_key :: string
  pi_binding :: json

definition exportPublic :: "device_identity \<Rightarrow> public_identity" where
  "exportPublic i = \<lparr>pi_identity_key = identityKeyB64 i, pi_transport_key = transportKeyB64 i,
     pi_binding = di_binding i\<rparr>"

definition di_sign :: "crypto \<Rightarrow> device_identity \<Rightarrow> bytes \<Rightarrow> bytes" where
  "di_sign C i preimage = ed_sign C preimage (di_signingPriv i)"

text \<open>An identity as the constructor builds it.\<close>

definition identity_ok :: "crypto \<Rightarrow> device_identity \<Rightarrow> bool" where
  "identity_ok C i = (\<exists>sp tp created. i = mk_identity C sp tp created)"

definition verifyBinding :: "crypto \<Rightarrow> json \<Rightarrow> bool" where
  "verifyBinding C b =
     (let body = obj_of [(''identity_key'', jprop b ''identity_key''),
                         (''transport_key'', jprop b ''transport_key''),
                         (''created_utc'', jprop b ''created_utc'')]
      in case json_b64u (jprop b ''binding_sig'') of
           None \<Rightarrow> False
         | Some sig \<Rightarrow>
             (case json_b64u (jprop b ''identity_key'') of
               None \<Rightarrow> False
             | Some pub \<Rightarrow> ed_verify C sig (canonicalBytes body) pub = Some True))"

subsection \<open>Signed records\<close>

type_synonym fields = "(string \<times> json) list"

definition without_signature :: "fields \<Rightarrow> fields" where
  "without_signature record = filter (\<lambda>(k, v). k \<noteq> ''signature'') record"

definition signObject :: "crypto \<Rightarrow> device_identity \<Rightarrow> fields \<Rightarrow> fields" where
  "signObject C signer record =
     (let sig = di_sign C signer (canonicalBytes (JObj (without_signature record)))
      in jset ''signature'' (JStr (b64uEncode sig)) record)"

definition verifyObject :: "crypto \<Rightarrow> fields \<Rightarrow> string \<Rightarrow> bool" where
  "verifyObject C record signerPubB64 =
     (case jget record ''signature'' of
       Some (JStr sigB64) \<Rightarrow>
         if sigB64 = [] then False
         else ed_verify C (b64uDecode sigB64) (canonicalBytes (JObj (without_signature record)))
                (b64uDecode signerPubB64) = Some True
     | _ \<Rightarrow> False)"

subsection \<open>Lemmas\<close>

lemma obj_of_body [simp]:
  "obj_of [(k1, Some a), (k2, Some b), (k3, Some c)] = JObj [(k1, a), (k2, b), (k3, c)]"
  by (simp add: obj_of_def List.map_filter_simps)

lemma mk_identity_sel [simp]:
  "di_signingPriv (mk_identity C sp tp cr) = sp"
  "di_transportPriv (mk_identity C sp tp cr) = tp"
  "signingPub (mk_identity C sp tp cr) = ed_pub C sp"
  "transportPub (mk_identity C sp tp cr) = x_pub C tp"
  by (simp_all add: mk_identity_def Let_def)

lemma identity_ok_keys:
  "identity_ok C i \<Longrightarrow> signingPub i = ed_pub C (di_signingPriv i) \<and> transportPub i = x_pub C (di_transportPriv i)"
  by (auto simp: identity_ok_def)

lemma mk_identity_ok [simp]: "identity_ok C (mk_identity C sp tp cr)"
  by (auto simp: identity_ok_def)

lemma jprop_binding_mk [simp]:
  "jprop (di_binding (mk_identity C sp tp cr)) ''identity_key'' = Some (JStr (b64uEncode (ed_pub C sp)))"
  "jprop (di_binding (mk_identity C sp tp cr)) ''transport_key'' = Some (JStr (b64uEncode (x_pub C tp)))"
  "jprop (di_binding (mk_identity C sp tp cr)) ''created_utc'' = Some (JStr cr)"
  "jprop (di_binding (mk_identity C sp tp cr)) ''binding_sig'' =
     Some (JStr (b64uEncode (ed_sign C (canonicalBytes (binding_body (b64uEncode (ed_pub C sp)) (b64uEncode (x_pub C tp)) cr)) sp)))"
  by (simp_all add: mk_identity_def Let_def)

lemma verifyBinding_mk:
  assumes "ed_ok C"
  shows "verifyBinding C (di_binding (mk_identity C sp tp cr))"
  using assms by (simp add: verifyBinding_def ed_ok_def binding_body_def)

lemma jprop_binding_ok:
  assumes "identity_ok C i"
  shows "jprop (di_binding i) ''identity_key'' = Some (JStr (identityKeyB64 i))"
    and "jprop (di_binding i) ''transport_key'' = Some (JStr (transportKeyB64 i))"
  using assms by (auto simp: identity_ok_def identityKeyB64_def transportKeyB64_def)

lemma verifyBinding_identity: "ed_ok C \<Longrightarrow> identity_ok C i \<Longrightarrow> verifyBinding C (di_binding i)"
  by (auto simp: identity_ok_def verifyBinding_mk)

lemma is_obj_binding: "identity_ok C i \<Longrightarrow> is_obj (di_binding i)"
  by (auto simp: identity_ok_def mk_identity_def Let_def is_obj_def)

lemma wf_binding: "identity_ok C i \<Longrightarrow> wf_json (di_binding i)"
  by (auto simp: identity_ok_def mk_identity_def Let_def)

lemma without_signature_jset [simp]:
  "without_signature (jset ''signature'' v r) = without_signature r"
  unfolding without_signature_def by (induction r) auto

lemma jget_without_signature [simp]:
  "jget (without_signature r) k = (if k = ''signature'' then None else jget r k)"
  unfolding without_signature_def by (induction r) auto

lemma jget_signObject [simp]:
  "k \<noteq> ''signature'' \<Longrightarrow> jget (signObject C i r) k = jget r k"
  by (simp add: signObject_def Let_def)

lemma b64uEncode_nonempty: "bs \<noteq> [] \<Longrightarrow> b64uEncode bs \<noteq> []"
  by (metis b64uDecode_b64uEncode b64uEncode_inj list.map_disc_iff b64uEncode_def enc_sextets.simps(4) list.simps(8))

definition ed_nonempty :: "crypto \<Rightarrow> bool" where
  \<comment> \<open>signatures are not empty (Ed25519 signatures have 64 bytes)\<close>
  "ed_nonempty C = (\<forall>m k. ed_sign C m k \<noteq> [])"

lemma verify_signObject:
  assumes "ed_ok C" "ed_nonempty C" "identity_ok C i"
  shows "verifyObject C (signObject C i record) (identityKeyB64 i)"
  using assms identity_ok_keys [OF assms(3)]
  by (simp add: verifyObject_def signObject_def Let_def di_sign_def identityKeyB64_def ed_ok_def
      ed_nonempty_def b64uEncode_nonempty)

lemma distinct_without_signature:
  "distinct (map fst r) \<Longrightarrow> distinct (map fst (without_signature r))"
  unfolding without_signature_def by (simp add: distinct_map inj_on_def)

lemma wf_without_signature: "wf_json (JObj r) \<Longrightarrow> wf_json (JObj (without_signature r))"
  by (auto simp: distinct_without_signature) (auto simp: without_signature_def)

text \<open>
  If only the bodies in \<open>B\<close> were signed with a key, a record that verifies under it has the fields
  of one of them.
\<close>

lemma verified_record_signed:
  assumes v: "verifyObject C record pub"
    and only: "ed_only_signed C (b64uDecode pub) (canonicalBytes ` JObj ` B)"
    and wf: "wf_json (JObj record)" "\<forall>b\<in>B. wf_json (JObj b)"
  shows "\<exists>b\<in>B. norm_json (JObj (without_signature record)) = norm_json (JObj b)"
proof -
  have "canonicalBytes (JObj (without_signature record)) \<in> canonicalBytes ` JObj ` B"
    using v only by (auto simp: verifyObject_def ed_only_signed_def split: option.splits json.splits if_splits)
  then obtain b where "b \<in> B" "canonicalBytes (JObj (without_signature record)) = canonicalBytes (JObj b)"
    by blast
  then show ?thesis using wf wf_without_signature by (metis canonicalBytes_eq_iff)
qed

end
