(* ===== verification/SealedBox.thy ===== *)
theory SealedBox
  imports Identity
begin

text \<open>
  \<open>orp-ref/core/sealedbox.ts\<close>, \<open>orp-ref/core/messagelayer.ts\<close> and
  \<open>orp-ref/client/securechannel.ts\<close>: the anonymous sealed box, the static directional message keys
  and the channel that encrypts with them.
\<close>

subsection \<open>Sealed boxes\<close>

definition SEALED_INFO :: bytes where
  "SEALED_INFO = utf8 ''blind-rendezvous/sealed-box/v1''"

definition deriveKeyAndNonce :: "crypto \<Rightarrow> bytes \<Rightarrow> bytes \<Rightarrow> bytes \<Rightarrow> bytes \<times> bytes" where
  "deriveKeyAndNonce C shared ephPub recipientPub =
     (let salt = concatBytes [ephPub, recipientPub]
      in (hkdf256 C shared salt SEALED_INFO 32, take 24 (sha256 C salt)))"

definition seal :: "crypto \<Rightarrow> bytes \<Rightarrow> bytes \<Rightarrow> bytes \<Rightarrow> bytes option" where
  \<comment> \<open>the first argument after the primitives is the random ephemeral key; \<open>None\<close> is a throw\<close>
  "seal C ephPriv plaintext recipientPub =
     (let ephPub = x_pub C ephPriv
      in case x_shared C ephPriv recipientPub of
           None \<Rightarrow> None
         | Some shared \<Rightarrow>
             (let (key, nonce) = deriveKeyAndNonce C shared ephPub recipientPub
              in Some (concatBytes [ephPub, xchacha_enc C key nonce plaintext])))"

definition unseal :: "crypto \<Rightarrow> bytes \<Rightarrow> bytes \<Rightarrow> bytes \<Rightarrow> bytes option" where
  "unseal C box priv pub =
     (if length box < 32 + 16 then None
      else
        (let ephPub = take 32 box; ct = drop 32 box
         in case x_shared C priv ephPub of
              None \<Rightarrow> None
            | Some shared \<Rightarrow>
                (let (key, nonce) = deriveKeyAndNonce C shared ephPub pub
                 in xchacha_dec C key nonce ct)))"

lemma unseal_seal:
  assumes "dh_ok C" "aead_ok C" "seal C eph p (x_pub C priv) = Some box"
  shows "unseal C box priv (x_pub C priv) = Some p"
proof -
  have sh: "x_shared C priv (x_pub C eph) = x_shared C eph (x_pub C priv)"
    and len: "length (x_pub C eph) = 32" using assms(1) by (auto simp: dh_ok_def)
  with assms(2,3) show ?thesis
    by (auto simp: seal_def unseal_def Let_def concatBytes_def aead_ok_def deriveKeyAndNonce_def
        split: option.splits prod.splits)
qed

lemma seal_total: "dh_ok C \<Longrightarrow> \<exists>box. seal C eph p (x_pub C priv) = Some box"
  by (auto simp: dh_ok_def seal_def Let_def deriveKeyAndNonce_def split: option.splits)

text \<open>A box sealed to one public key does not open for the holder of another.\<close>

lemma unseal_wrong_key:
  assumes "dh_ok C" "aead_keyed C" "hkdf_salted C"
    and "seal C eph p recipient = Some box" and "recipient \<noteq> pub'"
  shows "unseal C box priv' pub' = None"
proof -
  have len: "length (x_pub C eph) = 32" using assms(1) by (simp add: dh_ok_def)
  obtain shared where s: "x_shared C eph recipient = Some shared"
    and box: "box = x_pub C eph @ xchacha_enc C (hkdf256 C shared (x_pub C eph @ recipient) SEALED_INFO 32)
      (take 24 (sha256 C (x_pub C eph @ recipient))) p"
    using assms(4) by (auto simp: seal_def Let_def deriveKeyAndNonce_def concatBytes_def split: option.splits)
  have "hkdf256 C shared (x_pub C eph @ recipient) SEALED_INFO 32 \<noteq>
        hkdf256 C sh' (x_pub C eph @ pub') SEALED_INFO 32" for sh'
    using assms(3,5) unfolding hkdf_salted_def by (metis same_append_eq)
  then show ?thesis using assms(2) len
    by (auto simp: unseal_def box deriveKeyAndNonce_def concatBytes_def aead_keyed_def Let_def split: option.splits)
qed

subsection \<open>Directional message keys\<close>

definition INFO_BASE :: string where
  "INFO_BASE = ''blind-rendezvous/message-layer/v1-STATIC-NO-RATCHET''"

definition INFO_LO_HI :: bytes where
  "INFO_LO_HI = utf8 (INFO_BASE @ ''/lo->hi'')"

definition INFO_HI_LO :: bytes where
  "INFO_HI_LO = utf8 (INFO_BASE @ ''/hi->lo'')"

fun lexLess :: "bytes \<Rightarrow> bytes \<Rightarrow> bool" where
  "lexLess (a # as) (b # bs) = (if a \<noteq> b then a < b else lexLess as bs)"
| "lexLess as bs = (length as < length bs)"

record directional_keys =
  sendKey :: bytes
  recvKey :: bytes

definition deriveDirectionalKeys :: "crypto \<Rightarrow> bytes \<Rightarrow> bytes \<Rightarrow> bytes \<Rightarrow> directional_keys option" where
  "deriveDirectionalKeys C myPriv theirPub myPub =
     (case x_shared C myPriv theirPub of
       None \<Rightarrow> None
     | Some shared \<Rightarrow>
         (let iAmLo = lexLess myPub theirPub;
              lo = (if iAmLo then myPub else theirPub);
              hi = (if iAmLo then theirPub else myPub);
              salt = concatBytes [lo, hi];
              loHi = hkdf256 C shared salt INFO_LO_HI 32;
              hiLo = hkdf256 C shared salt INFO_HI_LO 32
          in Some (if iAmLo then \<lparr>sendKey = loHi, recvKey = hiLo\<rparr> else \<lparr>sendKey = hiLo, recvKey = loHi\<rparr>)))"

definition encryptMessage :: "crypto \<Rightarrow> bytes \<Rightarrow> bytes \<Rightarrow> bytes \<Rightarrow> bytes" where
  "encryptMessage C nonce key plaintext = concatBytes [nonce, xchacha_enc C key nonce plaintext]"

definition decryptMessage :: "crypto \<Rightarrow> bytes \<Rightarrow> bytes \<Rightarrow> bytes option" where
  "decryptMessage C key framed =
     (if length framed < 24 + 16 then None
      else xchacha_dec C key (take 24 framed) (drop 24 framed))"

text \<open>\<open>lexLess\<close> is the lexicographic order of the list library.\<close>

lemma Nil_less_iff: "[] < bs \<longleftrightarrow> bs \<noteq> ([] :: bytes)"
  by (cases bs) simp_all

lemma lexLess_less: "lexLess a b \<longleftrightarrow> a < b"
  by (induction a b rule: lexLess.induct) (auto simp: Nil_less_iff)

lemma decrypt_encrypt:
  "aead_ok C \<Longrightarrow> length nonce = 24 \<Longrightarrow> decryptMessage C key (encryptMessage C nonce key p) = Some p"
  by (simp add: decryptMessage_def encryptMessage_def concatBytes_def aead_ok_def)

text \<open>The two ends of a conversation hold each other's keys, if they are two devices.\<close>

lemma directional_keys_agree:
  assumes "dh_ok C" "x_pub C a \<noteq> x_pub C b"
  shows "\<exists>ka kb. deriveDirectionalKeys C a (x_pub C b) (x_pub C a) = Some ka
    \<and> deriveDirectionalKeys C b (x_pub C a) (x_pub C b) = Some kb
    \<and> sendKey ka = recvKey kb \<and> recvKey ka = sendKey kb"
proof -
  obtain s where "x_shared C a (x_pub C b) = Some s" "x_shared C b (x_pub C a) = Some s"
    using assms(1) by (metis dh_ok_def not_None_eq)
  moreover have "lexLess (x_pub C a) (x_pub C b) \<longleftrightarrow> \<not> lexLess (x_pub C b) (x_pub C a)"
    using assms(2) by (auto simp: lexLess_less)
  ultimately show ?thesis
    by (cases "lexLess (x_pub C a) (x_pub C b)") (simp_all add: deriveDirectionalKeys_def Let_def)
qed

lemma info_distinct: "INFO_LO_HI \<noteq> INFO_HI_LO"
  by (simp add: INFO_LO_HI_def INFO_HI_LO_def)

lemma directional_keys_distinct:
  assumes "hkdf_salted C" "deriveDirectionalKeys C priv their mine = Some k"
  shows "sendKey k \<noteq> recvKey k"
proof -
  have "hkdf256 C sh salt INFO_LO_HI 32 \<noteq> hkdf256 C sh salt INFO_HI_LO 32" for sh salt
    using assms(1) info_distinct unfolding hkdf_salted_def by blast
  note this [THEN not_sym] this
  then show ?thesis using assms(2)
    by (auto simp: deriveDirectionalKeys_def Let_def simp del: not_None_eq split: option.splits if_splits)
qed

subsection \<open>The secure channel\<close>

record secure_channel =
  sc_sendKey :: bytes
  sc_recvKey :: bytes

definition SecureChannel :: "crypto \<Rightarrow> bytes \<Rightarrow> bytes \<Rightarrow> bytes \<Rightarrow> secure_channel option" where
  "SecureChannel C myPriv myPub theirPub =
     map_option (\<lambda>k. \<lparr>sc_sendKey = sendKey k, sc_recvKey = recvKey k\<rparr>)
       (deriveDirectionalKeys C myPriv theirPub myPub)"

definition sc_send :: "crypto \<Rightarrow> bytes \<Rightarrow> secure_channel \<Rightarrow> string \<Rightarrow> bytes" where
  "sc_send C nonce ch text = encryptMessage C nonce (sc_sendKey ch) (utf8 text)"

definition sc_receive :: "crypto \<Rightarrow> secure_channel \<Rightarrow> bytes \<Rightarrow> string option" where
  "sc_receive C ch framed = map_option fromUtf8 (decryptMessage C (sc_recvKey ch) framed)"

lemma secure_channel_delivers:
  assumes "dh_ok C" "aead_ok C" "x_pub C a \<noteq> x_pub C b" "length nonce = 24"
    and "SecureChannel C a (x_pub C a) (x_pub C b) = Some cha"
    and "SecureChannel C b (x_pub C b) (x_pub C a) = Some chb"
  shows "sc_receive C chb (sc_send C nonce cha t) = Some t"
  using directional_keys_agree [OF assms(1,3)] assms(2,4-)
  by (auto simp: SecureChannel_def sc_receive_def sc_send_def decrypt_encrypt)

text \<open>A frame that comes back to its sender does not decrypt.\<close>

lemma secure_channel_no_reflection:
  assumes "hkdf_salted C" "aead_keyed C" "length nonce = 24"
    and "SecureChannel C priv mine their = Some ch"
  shows "sc_receive C ch (sc_send C nonce ch t) = None"
proof -
  have "sc_sendKey ch \<noteq> sc_recvKey ch"
    using assms(1,4) by (auto simp: SecureChannel_def dest: directional_keys_distinct)
  with assms(2,3) show ?thesis
    by (auto simp: sc_receive_def sc_send_def decryptMessage_def encryptMessage_def concatBytes_def aead_keyed_def)
qed

end
