(* ===== verification/Ice.thy ===== *)
theory Ice
  imports Prelude "HOL-Library.Sublist"
begin

text \<open>
  \<open>orp-ref/core/ice.ts\<close>: the ICE candidate filter, which keeps a device's LAN addresses out of the
  signaling it sends, and the gate behind it. Candidates are split at ASCII white space. The main
  theorem: whatever standard candidate line the filter keeps passes the gate.
\<close>

definition is_space :: "char \<Rightarrow> bool" where
  \<comment> \<open>\<open>\s\<close>\<close>
  "is_space c = (let n = (of_char c :: nat) in n = 32 \<or> (9 \<le> n \<and> n \<le> 13))"

definition is_word :: "char \<Rightarrow> bool" where
  \<comment> \<open>\<open>\w\<close>\<close>
  "is_word c = (let n = (of_char c :: nat) in
     (48 \<le> n \<and> n \<le> 57) \<or> (65 \<le> n \<and> n \<le> 90) \<or> (97 \<le> n \<and> n \<le> 122) \<or> n = 95)"

definition lower :: "char \<Rightarrow> char" where
  "lower c = (let n = (of_char c :: nat) in if 65 \<le> n \<and> n \<le> 90 then char_of (n + 32) else c)"

definition trim :: "string \<Rightarrow> string" where
  "trim s = rev (dropWhile is_space (rev (dropWhile is_space s)))"

function split_ws :: "string \<Rightarrow> string list" where
  \<comment> \<open>\<open>split(/\s+/)\<close>\<close>
  "split_ws s = (case dropWhile (\<lambda>c. \<not> is_space c) s of
       [] \<Rightarrow> [s]
     | _ # r \<Rightarrow> takeWhile (\<lambda>c. \<not> is_space c) s # split_ws (dropWhile is_space r))"
  by pat_completeness auto

termination
proof (relation "measure length")
  show "(dropWhile is_space r, s) \<in> measure length"
    if "dropWhile (\<lambda>c. \<not> is_space c) s = c # r" for s c r
    using that length_dropWhile_le [of "\<lambda>c. \<not> is_space c" s] length_dropWhile_le [of is_space r] by simp
qed simp

declare split_ws.simps [simp del]

fun split_on :: "char \<Rightarrow> string \<Rightarrow> string list" where
  "split_on d [] = [[]]"
| "split_on d (c # cs) =
     (if c = d then [] # split_on d cs else (case split_on d cs of [] \<Rightarrow> [[c]] | w # ws \<Rightarrow> (c # w) # ws))"

definition IPV4 :: "string \<Rightarrow> bool" where
  "IPV4 s = (let ps = split_on (CHR ''.'') s
     in length ps = 4 \<and> list_all (\<lambda>p. 1 \<le> length p \<and> length p \<le> 3 \<and> list_all is_digit p) ps)"

definition isRawIp :: "string \<Rightarrow> bool" where
  "isRawIp addr = (if IPV4 addr then True else if CHR '':'' \<in> set addr then True else False)"

definition isMdnsHostname :: "string \<Rightarrow> bool" where
  "isMdnsHostname addr = suffix ''.local'' (map lower addr)"

definition starts_with :: "string \<Rightarrow> string \<Rightarrow> bool" where
  "starts_with p s = (take (length p) s = p)"

definition index_of :: "'a \<Rightarrow> 'a list \<Rightarrow> nat option" where
  "index_of x xs = (if x \<in> set xs then Some (length (takeWhile (\<lambda>y. y \<noteq> x) xs)) else None)"

subsection \<open>Parsing\<close>

record parsed_candidate =
  pc_foundation :: string
  pc_component :: string
  pc_transport :: string
  pc_priority :: string
  pc_address :: string
  pc_port :: string
  pc_type :: string
  pc_raddr :: "string option"
  pc_rport :: "string option"
  pc_rest :: string

definition after_tag :: "string \<Rightarrow> string list \<Rightarrow> string option" where
  "after_tag tag t = (case index_of tag t of
       Some i \<Rightarrow> if i + 1 < length t then Some (t ! (i + 1)) else None
     | None \<Rightarrow> None)"

definition strip_prefix :: "string \<Rightarrow> string \<Rightarrow> string" where
  "strip_prefix p s = (if starts_with p s then drop (length p) s else s)"

definition parseCandidate :: "string \<Rightarrow> parsed_candidate option" where
  "parseCandidate line =
     (let s = strip_prefix ''candidate:'' (strip_prefix ''a='' (trim line)); t = split_ws s
      in if length t < 8 then None
         else (case after_tag ''typ'' t of
             None \<Rightarrow> None
           | Some ty \<Rightarrow> Some \<lparr>pc_foundation = t ! 0, pc_component = t ! 1, pc_transport = t ! 2,
               pc_priority = t ! 3, pc_address = t ! 4, pc_port = t ! 5, pc_type = ty,
               pc_raddr = after_tag ''raddr'' t, pc_rport = after_tag ''rport'' t, pc_rest = s\<rparr>))"

subsection \<open>The policy\<close>

text \<open>
  \<open>rest.replace(/\braddr\s+\S+/i, repl)\<close>: the first place where the tag starts a word and is followed
  by white space and a token.
\<close>

definition tag_match :: "string \<Rightarrow> string \<Rightarrow> string option" where
  "tag_match tag s =
     (if map lower (take (length tag) s) = tag then
        (let r = drop (length tag) s; w = takeWhile is_space r; v = dropWhile is_space r
         in if w \<noteq> [] \<and> v \<noteq> [] then Some (dropWhile (\<lambda>c. \<not> is_space c) v) else None)
      else None)"

fun replace_tag :: "string \<Rightarrow> string \<Rightarrow> bool \<Rightarrow> string \<Rightarrow> string" where
  "replace_tag tag repl inWord [] = []"
| "replace_tag tag repl inWord (c # cs) =
     (case (if inWord then None else tag_match tag (c # cs)) of
        Some rest \<Rightarrow> repl @ rest
      | None \<Rightarrow> c # replace_tag tag repl (is_word c) cs)"

definition scrub_text :: "string \<Rightarrow> string" where
  "scrub_text rest =
     replace_tag ''rport'' ''rport 0'' False (replace_tag ''raddr'' ''raddr 0.0.0.0'' False rest)"

definition scrubRelated :: "parsed_candidate \<Rightarrow> string" where
  "scrubRelated c = scrub_text (pc_rest c)"

record filter_decision =
  fd_keep :: bool
  fd_reason :: string
  fd_sanitized :: "string option"

definition decideCandidate :: "parsed_candidate \<Rightarrow> filter_decision" where
  "decideCandidate c =
     (if pc_type c = ''host'' then
        (if isMdnsHostname (pc_address c) then
           \<lparr>fd_keep = True, fd_reason = ''host:mdns-obfuscated'', fd_sanitized = Some (scrubRelated c)\<rparr>
         else if isRawIp (pc_address c) then
           \<lparr>fd_keep = False, fd_reason = ''host:raw-ip-dropped'', fd_sanitized = None\<rparr>
         else \<lparr>fd_keep = False, fd_reason = ''host:unknown-address-form-dropped'', fd_sanitized = None\<rparr>)
      else if pc_type c = ''srflx'' \<or> pc_type c = ''relay'' \<or> pc_type c = ''prflx'' then
        \<lparr>fd_keep = True, fd_reason = pc_type c @ '':retained-raddr-scrubbed'', fd_sanitized = Some (scrubRelated c)\<rparr>
      else \<lparr>fd_keep = False, fd_reason = ''unknown-type:'' @ pc_type c @ '':dropped'', fd_sanitized = None\<rparr>)"

record filter_result =
  fr_kept :: "string list"
  fr_dropped :: "(string \<times> string) list"

text \<open>What becomes of one line: the text to emit, or the reason why it is dropped.\<close>

definition candidate_fate :: "string \<Rightarrow> string + string" where
  "candidate_fate line = (case parseCandidate line of
       None \<Rightarrow> Inl ''unparseable''
     | Some c \<Rightarrow>
         (let d = decideCandidate c
          in case fd_sanitized d of
               Some s \<Rightarrow> if fd_keep d \<and> s \<noteq> [] then Inr s else Inl (fd_reason d)
             | None \<Rightarrow> Inl (fd_reason d)))"

definition filterCandidates :: "string list \<Rightarrow> filter_result" where
  "filterCandidates lines = foldl (\<lambda>r line. case candidate_fate line of
       Inr s \<Rightarrow> r\<lparr>fr_kept := fr_kept r @ [''candidate:'' @ s]\<rparr>
     | Inl why \<Rightarrow> r\<lparr>fr_dropped := fr_dropped r @ [(line, why)]\<rparr>)
     \<lparr>fr_kept = [], fr_dropped = []\<rparr> lines"

fun strip_cr :: "string \<Rightarrow> string" where
  "strip_cr s = (if s \<noteq> [] \<and> last s = CHR 0x0D then butlast s else s)"

definition sdp_lines :: "string \<Rightarrow> string list" where
  \<comment> \<open>\<open>split(/\r?\n/)\<close>: a carriage return belongs to the separator only before a newline\<close>
  "sdp_lines s = (let ls = split_on (CHR 0x0A) s in map strip_cr (butlast ls) @ [last ls])"

definition filterSdp :: "string \<Rightarrow> string \<times> filter_result" where
  "filterSdp sdp =
     (let (out, r) = foldl (\<lambda>(out, r) rawLine.
            if starts_with ''a=candidate:'' rawLine then
              (case candidate_fate rawLine of
                 Inr s \<Rightarrow> (let line = ''a=candidate:'' @ s
                          in (out @ [line], r\<lparr>fr_kept := fr_kept r @ [line]\<rparr>))
               | Inl why \<Rightarrow> (out, r\<lparr>fr_dropped := fr_dropped r @ [(rawLine, why)]\<rparr>))
            else (out @ [rawLine], r))
          ([], \<lparr>fr_kept = [], fr_dropped = []\<rparr>) (sdp_lines sdp)
      in (join [CHR 0x0D, CHR 0x0A] out, r))"

subsection \<open>The gate\<close>

text \<open>The addresses that the gate throws on: \<open>None\<close> lets the line pass.\<close>

definition line_leak :: "string \<Rightarrow> string option" where
  "line_leak line = (case parseCandidate line of
       None \<Rightarrow> None
     | Some c \<Rightarrow>
         if pc_type c = ''host'' \<and> isRawIp (pc_address c) then
           Some (''ICE leak: unobfuscated host candidate would escape: '' @ pc_address c)
         else (case pc_raddr c of
             Some a \<Rightarrow> if a \<noteq> [] \<and> isRawIp a \<and> a \<noteq> ''0.0.0.0'' then
                 Some (''ICE leak: candidate retains base host address in raddr: '' @ a) else None
           | None \<Rightarrow> None))"

fun assert_lines :: "string list \<Rightarrow> string + unit" where
  "assert_lines [] = Inr ()"
| "assert_lines (l # ls) = (case line_leak l of Some e \<Rightarrow> Inl e | None \<Rightarrow> assert_lines ls)"

definition assertNoUnobfuscatedHost :: "string list + string \<Rightarrow> string + unit" where
  "assertNoUnobfuscatedHost x = (case x of
       Inl lines \<Rightarrow> assert_lines lines
     | Inr sdp \<Rightarrow> assert_lines (filter (\<lambda>l. sublist ''candidate:'' l) (sdp_lines sdp)))"

subsection \<open>Splitting\<close>

definition is_token :: "string \<Rightarrow> bool" where
  "is_token t = (t \<noteq> [] \<and> (\<forall>c\<in>set t. \<not> is_space c))"

definition blank :: string where "blank = '' ''"

lemma is_space_sp [simp]: "is_space (CHR '' '')"
  by (simp add: is_space_def)

lemma takeWhile_token: "\<forall>c\<in>set t. \<not> is_space c \<Longrightarrow>
    takeWhile (\<lambda>c. \<not> is_space c) (t @ CHR '' '' # r) = t \<and>
    dropWhile (\<lambda>c. \<not> is_space c) (t @ CHR '' '' # r) = CHR '' '' # r"
  by (induction t) auto

lemma split_ws_last: "\<forall>c\<in>set t. \<not> is_space c \<Longrightarrow> split_ws t = [t]"
  by (subst split_ws.simps) (simp add: dropWhile_eq_Nil_conv [THEN iffD2])

lemma split_ws_join: "ts \<noteq> [] \<Longrightarrow> list_all is_token ts \<Longrightarrow> split_ws (join blank ts) = ts"
proof (induction ts)
  case (Cons t ts)
  then have t: "\<forall>c\<in>set t. \<not> is_space c" by (simp add: is_token_def)
  show ?case
  proof (cases ts)
    case Nil
    with t show ?thesis by (simp add: split_ws_last)
  next
    case (Cons u us)
    then have j: "join blank (t # ts) = t @ CHR '' '' # join blank ts" by (simp add: blank_def)
    obtain c cs where u: "u = c # cs" "\<not> is_space c" using Cons.prems Cons by (cases u) (auto simp: is_token_def)
    have "dropWhile is_space (join blank ts) = join blank ts" using u Cons by (cases us) simp_all
    moreover have "split_ws (join blank ts) = ts" using Cons.IH Cons.prems Cons by simp
    ultimately show ?thesis unfolding j using takeWhile_token [OF t, of "join blank ts"]
      by (subst split_ws.simps) simp
  qed
qed simp

subsection \<open>Scrubbing\<close>

lemma lower_space [simp]: "lower (CHR '' '') = CHR '' ''"
  by (simp add: lower_def)

lemma tag_match_other:
  assumes tag: "\<forall>c\<in>set tag. \<not> is_space c" and t: "\<forall>c\<in>set t. \<not> is_space c" and ne: "map lower t \<noteq> tag"
  shows "tag_match tag (t @ CHR '' '' # r) = None" and "tag_match tag t = None"
proof -
  consider (lt) "length tag < length t" | (eq) "length tag = length t" | (gt) "length t < length tag" by linarith
  then show "tag_match tag (t @ CHR '' '' # r) = None"
  proof cases
    case lt
    then obtain c cs where d: "drop (length tag) t = c # cs" by (cases "drop (length tag) t") auto
    then have "c \<in> set t" by (metis in_set_dropD list.set_intros(1))
    with t d lt show ?thesis by (simp add: tag_match_def Let_def)
  next
    case eq
    with ne show ?thesis by (simp add: tag_match_def)
  next
    case gt
    have "map lower (take (length tag) (t @ CHR '' '' # r)) \<noteq> tag"
    proof
      assume m: "map lower (take (length tag) (t @ CHR '' '' # r)) = tag"
      obtain k where k: "length tag = length t + Suc k" using gt by (metis less_iff_Suc_add add_Suc_right)
      have "CHR '' '' \<in> set (map lower (take (length tag) (t @ CHR '' '' # r)))" by (simp add: k)
      with m tag show False by (metis is_space_sp)
    qed
    then show ?thesis by (simp add: tag_match_def)
  qed
  show "tag_match tag t = None"
  proof (cases "drop (length tag) t")
    case Nil
    then show ?thesis by (simp add: tag_match_def Let_def)
  next
    case (Cons c cs)
    then have "c \<in> set t" by (metis in_set_dropD list.set_intros(1))
    with t Cons show ?thesis by (simp add: tag_match_def Let_def)
  qed
qed

definition no_tag :: "string \<Rightarrow> string \<Rightarrow> bool" where
  \<comment> \<open>no word of the token ends it as the tag\<close>
  "no_tag tag t = (\<not> suffix tag (map lower t))"

lemma no_tag_Cons: "no_tag tag (c # cs) \<Longrightarrow> no_tag tag cs \<and> map lower (c # cs) \<noteq> tag"
  by (auto simp: no_tag_def suffix_Cons)

lemma replace_tag_skip:
  assumes "\<forall>c\<in>set tag. \<not> is_space c" "\<forall>c\<in>set t. \<not> is_space c" "no_tag tag t"
  shows "replace_tag tag repl w t = t"
    and "tag \<noteq> [] \<Longrightarrow> replace_tag tag repl w (t @ CHR '' '' # r) = t @ CHR '' '' # replace_tag tag repl False r"
proof -
  show "replace_tag tag repl w t = t" using assms(2,3)
  proof (induction t arbitrary: w)
    case (Cons c cs)
    then have "tag_match tag (c # cs) = None"
      using no_tag_Cons [OF Cons.prems(2)] Cons.prems(1) by (intro tag_match_other(2) [OF assms(1)]) auto
    with Cons no_tag_Cons [OF Cons.prems(2)] show ?case by simp
  qed simp
  show "replace_tag tag repl w (t @ CHR '' '' # r) = t @ CHR '' '' # replace_tag tag repl False r"
    if ne: "tag \<noteq> []" using assms(2,3)
  proof (induction t arbitrary: w)
    case Nil
    have "tag_match tag ([] @ CHR '' '' # r) = None" using ne by (intro tag_match_other [OF assms(1)]) auto
    then show ?case by (simp add: is_word_def)
  next
    case (Cons c cs)
    then have "tag_match tag ((c # cs) @ CHR '' '' # r) = None"
      using no_tag_Cons [OF Cons.prems(2)] Cons.prems(1) by (intro tag_match_other [OF assms(1)]) auto
    with Cons no_tag_Cons [OF Cons.prems(2)] show ?case by simp
  qed
qed

lemma join_sp_Cons: "ts \<noteq> [] \<Longrightarrow> join blank (t # ts) = t @ CHR '' '' # join blank ts"
  by (cases ts) (auto simp: blank_def)

lemma replace_tag_none:
  assumes "\<forall>c\<in>set tag. \<not> is_space c" "tag \<noteq> []" "list_all is_token ts" "list_all (no_tag tag) ts"
  shows "replace_tag tag repl w (join blank ts) = join blank ts"
  using assms(3,4)
proof (induction ts arbitrary: w)
  case (Cons t ts)
  then have t: "\<forall>c\<in>set t. \<not> is_space c" "no_tag tag t" by (auto simp: is_token_def)
  show ?case
  proof (cases "ts = []")
    case True
    with replace_tag_skip(1) [OF assms(1) t] show ?thesis by simp
  next
    case False
    with replace_tag_skip(2) [OF assms(1) t assms(2)] Cons show ?thesis by (simp add: join_sp_Cons)
  qed
qed simp

lemma tag_match_here:
  assumes "\<forall>c\<in>set tag. \<not> is_space c" "map lower tag = tag" "is_token a" "list_all is_token post"
  shows "tag_match tag (join blank (tag # a # post)) = Some (drop (length a) (join blank (a # post)))"
proof -
  obtain c cs where a: "a = c # cs" "\<forall>x\<in>set a. \<not> is_space x" using assms(3) by (cases a) (auto simp: is_token_def)
  have 1: "dropWhile is_space (join blank (a # post)) = join blank (a # post)" "join blank (a # post) \<noteq> []"
    using a by (cases post, simp_all)+
  have "dropWhile (\<lambda>x. \<not> is_space x) (join blank (a # post)) = drop (length a) (join blank (a # post))"
    using takeWhile_token [OF a(2)] a(2)
    by (cases "post = []") (simp_all add: join_sp_Cons dropWhile_eq_Nil_conv [THEN iffD2])
  moreover have "join blank (tag # a # post) = tag @ CHR '' '' # join blank (a # post)" by (simp add: blank_def)
  ultimately show ?thesis using 1 assms(2)
    by (simp add: tag_match_def Let_def del: join.simps dropWhile_eq_Nil_conv)
qed

lemma replace_tag_found:
  assumes tag: "\<forall>c\<in>set tag. \<not> is_space c" "map lower tag = tag" "tag \<noteq> []"
    and "list_all is_token pre" "list_all (no_tag tag) pre" "is_token a" "list_all is_token post"
  shows "replace_tag tag (tag @ CHR '' '' # v) False (join blank (pre @ tag # a # post)) =
    join blank (pre @ tag # v # post)"
  using assms(4,5)
proof (induction pre)
  case Nil
  obtain c cs where c: "tag = c # cs" using tag(3) by (cases tag) auto
  have j: "join blank (tag # a # post) = c # (cs @ CHR '' '' # join blank (a # post))" by (simp add: blank_def c)
  have "drop (length a) (join blank (a # post)) = drop (length v) (join blank (v # post))"
    by (cases "post = []") (simp_all add: join_sp_Cons)
  moreover have "v @ drop (length v) (join blank (v # post)) = join blank (v # post)"
    by (cases "post = []") (simp_all add: join_sp_Cons)
  moreover have "replace_tag tag (tag @ CHR '' '' # v) False (join blank (tag # a # post)) =
      (tag @ CHR '' '' # v) @ drop (length a) (join blank (a # post))"
    using tag_match_here [OF tag(1,2) assms(6,7)] unfolding j by (simp del: join.simps)
  ultimately show ?case by (simp add: blank_def)
next
  case (Cons t pre)
  then have t: "\<forall>c\<in>set t. \<not> is_space c" "no_tag tag t" by (auto simp: is_token_def)
  show ?case using replace_tag_skip(2) [OF tag(1) t tag(3)] Cons by (simp add: join_sp_Cons)
qed

subsection \<open>Standard candidate lines\<close>

text \<open>
  The grammar of RFC 8839: six leading tokens, the type, the optional related address and port, and
  extensions. Only the two tags are spelled like the tags.
\<close>

definition std_tokens ::
  "string list \<Rightarrow> string \<Rightarrow> string option \<Rightarrow> string option \<Rightarrow> string list \<Rightarrow> string list" where
  "std_tokens heads ty ra rp exts = heads @ [''typ'', ty] @
     (case ra of Some a \<Rightarrow> [''raddr'', a] | None \<Rightarrow> []) @
     (case rp of Some p \<Rightarrow> [''rport'', p] | None \<Rightarrow> []) @ exts"

definition plain_token :: "string \<Rightarrow> bool" where
  "plain_token t = (is_token t \<and> no_tag ''raddr'' t \<and> no_tag ''rport'' t \<and> t \<noteq> ''typ'')"

definition std_ok :: "string list \<Rightarrow> string \<Rightarrow> string option \<Rightarrow> string option \<Rightarrow> string list \<Rightarrow> bool" where
  "std_ok heads ty ra rp exts = (length heads = 6 \<and> list_all plain_token (heads @ ty # exts)
     \<and> pred_option plain_token ra \<and> pred_option plain_token rp)"

lemma no_tag_not: "no_tag tag t \<Longrightarrow> map lower tag = tag \<Longrightarrow> t \<noteq> tag"
  by (auto simp: no_tag_def)

lemma lower_letters [simp]:
  "lower (CHR ''r'') = CHR ''r''" "lower (CHR ''a'') = CHR ''a''" "lower (CHR ''d'') = CHR ''d''"
  "lower (CHR ''p'') = CHR ''p''" "lower (CHR ''o'') = CHR ''o''" "lower (CHR ''t'') = CHR ''t''"
  by (simp_all add: lower_def)

lemma lower_tags: "map lower ''raddr'' = ''raddr''" "map lower ''rport'' = ''rport''"
  by simp_all

lemma tag_chars [simp]: "\<forall>c\<in>set ''raddr''. \<not> is_space c" "\<forall>c\<in>set ''rport''. \<not> is_space c"
  by (simp_all add: is_space_def)

lemma plain_tokens [simp]:
  "plain_token ''0.0.0.0''" "plain_token ''0''" "is_token ''typ''" "is_token ''raddr''" "is_token ''rport''"
  "no_tag ''raddr'' ''typ''" "no_tag ''rport'' ''typ''" "no_tag ''rport'' ''raddr''" "no_tag ''raddr'' ''rport''"
  by (simp_all add: plain_token_def is_token_def is_space_def no_tag_def lower_def suffix_def)

lemma plain_tokenD:
  "plain_token t \<Longrightarrow> is_token t \<and> no_tag ''raddr'' t \<and> no_tag ''rport'' t \<and> t \<noteq> ''typ'' \<and> t \<noteq> ''raddr'' \<and> t \<noteq> ''rport''"
  unfolding plain_token_def using no_tag_not [OF _ lower_tags(1)] no_tag_not [OF _ lower_tags(2)] by blast

lemma not_plain [simp]: "\<not> plain_token ''raddr''" "\<not> plain_token ''rport''" "\<not> plain_token ''typ''"
  using plain_tokenD by blast+

lemma list_all_plain:
  "list_all plain_token ts \<Longrightarrow> list_all is_token ts \<and> list_all (no_tag ''raddr'') ts \<and> list_all (no_tag ''rport'') ts"
  by (auto simp: list_all_iff dest: plain_tokenD)

lemma std_tokens_token: "std_ok h ty ra rp ex \<Longrightarrow> list_all is_token (std_tokens h ty ra rp ex)"
  by (auto simp: std_ok_def std_tokens_def list_all_plain dest: plain_tokenD split: option.splits)

lemma scrub_std:
  assumes "std_ok h ty ra rp ex"
  shows "scrub_text (join blank (std_tokens h ty ra rp ex)) =
    join blank (std_tokens h ty (map_option (\<lambda>_. ''0.0.0.0'') ra) (map_option (\<lambda>_. ''0'') rp) ex)"
proof -
  let ?ra = "map_option (\<lambda>_. ''0.0.0.0'') ra"
  have ok: "list_all plain_token (h @ ty # ex)" "pred_option plain_token ra" "pred_option plain_token rp"
    using assms by (auto simp: std_ok_def)
  note toks = ok(1) [THEN list_all_plain] ok(2,3)
  have v: "''raddr 0.0.0.0'' = ''raddr'' @ CHR '' '' # ''0.0.0.0''" "''rport 0'' = ''rport'' @ CHR '' '' # ''0''" by simp_all
  have 1: "replace_tag ''raddr'' ''raddr 0.0.0.0'' False (join blank (std_tokens h ty ra rp ex)) =
      join blank (std_tokens h ty ?ra rp ex)"
  proof (cases ra)
    case None
    then show ?thesis using toks
      by (intro trans [OF replace_tag_none]) (auto simp: std_tokens_def dest: plain_tokenD split: option.splits)
  next
    case (Some a)
    let ?post = "(case rp of Some p \<Rightarrow> [''rport'', p] | None \<Rightarrow> []) @ ex"
    have "replace_tag ''raddr'' (''raddr'' @ CHR '' '' # ''0.0.0.0'') False
        (join blank ((h @ [''typ'', ty]) @ ''raddr'' # a # ?post)) =
        join blank ((h @ [''typ'', ty]) @ ''raddr'' # ''0.0.0.0'' # ?post)"
      using toks Some by (intro replace_tag_found) (auto dest: plain_tokenD split: option.splits)
    then show ?thesis unfolding v by (simp add: std_tokens_def Some)
  qed
  have 2: "replace_tag ''rport'' ''rport 0'' False (join blank (std_tokens h ty ?ra rp ex)) =
      join blank (std_tokens h ty ?ra (map_option (\<lambda>_. ''0'') rp) ex)"
  proof (cases rp)
    case None
    then show ?thesis using toks
      by (intro trans [OF replace_tag_none])
        (auto simp: std_tokens_def dest: plain_tokenD split: option.splits intro: plain_tokenD [THEN conjunct1]
           plain_tokenD [THEN conjunct2, THEN conjunct2, THEN conjunct1])
  next
    case (Some p)
    let ?pre = "h @ [''typ'', ty] @ (case ?ra of Some a \<Rightarrow> [''raddr'', a] | None \<Rightarrow> [])"
    have z: "is_token ''0.0.0.0''" "no_tag ''rport'' ''0.0.0.0''" by (simp_all add: plain_tokenD)
    have "replace_tag ''rport'' (''rport'' @ CHR '' '' # ''0'') False
        (join blank (?pre @ ''rport'' # p # ex)) = join blank (?pre @ ''rport'' # ''0'' # ex)"
      using toks Some z by (intro replace_tag_found) (auto dest: plain_tokenD split: option.splits)
    then show ?thesis unfolding v by (simp add: std_tokens_def Some)
  qed
  show ?thesis by (simp only: scrub_text_def 1 2)
qed

lemma last_join: "ts \<noteq> [] \<Longrightarrow> list_all is_token ts \<Longrightarrow> join blank ts \<noteq> [] \<and> \<not> is_space (last (join blank ts))"
proof (induction ts)
  case (Cons t ts)
  then show ?case
    by (cases "ts = []") (auto simp: join_sp_Cons is_token_def)
qed simp

lemma trim_id: "s \<noteq> [] \<Longrightarrow> \<not> is_space (hd s) \<Longrightarrow> \<not> is_space (last s) \<Longrightarrow> trim s = s"
proof -
  assume s: "s \<noteq> []" "\<not> is_space (hd s)" "\<not> is_space (last s)"
  then have "dropWhile is_space s = s" by (cases s) auto
  moreover have "dropWhile is_space (rev s) = rev s" using s by (cases s rule: rev_cases) auto
  ultimately show ?thesis by (simp add: trim_def)
qed

lemma index_of_append: "x \<notin> set xs \<Longrightarrow> index_of x (xs @ x # ys) = Some (length xs)"
  by (auto simp: index_of_def takeWhile_append)

lemma after_tag_append: "x \<notin> set xs \<Longrightarrow> after_tag x (xs @ x # y # ys) = Some y"
  by (simp add: after_tag_def index_of_append nth_append)

lemma after_tag_absent: "x \<notin> set xs \<Longrightarrow> after_tag x xs = None"
  by (simp add: after_tag_def index_of_def)

lemma parse_std:
  assumes ok: "std_ok h ty ra rp ex" and p: "p = ''candidate:'' \<or> p = ''a=candidate:''"
  shows "parseCandidate (p @ join blank (std_tokens h ty ra rp ex)) =
    Some \<lparr>pc_foundation = h ! 0, pc_component = h ! 1, pc_transport = h ! 2, pc_priority = h ! 3,
      pc_address = h ! 4, pc_port = h ! 5, pc_type = ty, pc_raddr = ra, pc_rport = rp,
      pc_rest = join blank (std_tokens h ty ra rp ex)\<rparr>"
proof -
  let ?t = "std_tokens h ty ra rp ex"
  have len: "length h = 6" and pl: "\<forall>x\<in>set (h @ ty # ex). plain_token x"
      "pred_option plain_token ra" "pred_option plain_token rp"
    using ok by (auto simp: std_ok_def list_all_iff)
  have "x \<notin> set h \<and> x \<notin> set ex" if "\<not> plain_token x" for x using that pl(1) by auto
  note np = this [OF not_plain(1)] this [OF not_plain(2)] this [OF not_plain(3)]
  have ne: "?t \<noteq> []" "8 \<le> length ?t" using len by (simp_all add: std_tokens_def)
  have tok: "list_all is_token ?t" by (rule std_tokens_token [OF ok])
  have trim: "trim (p @ join blank ?t) = p @ join blank ?t"
    using last_join [OF ne(1) tok] p by (intro trim_id) (auto simp: is_space_def)
  have strip: "strip_prefix ''candidate:'' (strip_prefix ''a='' (p @ join blank ?t)) = join blank ?t"
    using p by (auto simp: strip_prefix_def starts_with_def)
  have hd: "?t ! i = h ! i" if "i < 6" for i using that len by (simp add: std_tokens_def nth_append)
  have tyk: "after_tag ''typ'' ?t = Some ty"
    using pl np by (auto simp: std_tokens_def intro!: after_tag_append dest: plain_tokenD)
  have ra: "after_tag ''raddr'' ?t = ra"
  proof (cases ra)
    case None
    then show ?thesis using pl np
      by (auto simp: std_tokens_def intro!: after_tag_absent dest: plain_tokenD split: option.splits)
  next
    case (Some a)
    have "''raddr'' \<notin> set (h @ [''typ'', ty])" using pl np by (auto dest: plain_tokenD)
    from after_tag_append [OF this] show ?thesis by (simp add: std_tokens_def Some)
  qed
  have rp: "after_tag ''rport'' ?t = rp"
  proof (cases rp)
    case None
    then show ?thesis using pl np
      by (auto simp: std_tokens_def intro!: after_tag_absent dest: plain_tokenD split: option.splits)
  next
    case (Some q)
    have "''rport'' \<notin> set (h @ [''typ'', ty] @ (case ra of Some a \<Rightarrow> [''raddr'', a] | None \<Rightarrow> []))"
      using pl np by (auto dest: plain_tokenD split: option.splits)
    from after_tag_append [OF this] show ?thesis by (simp add: std_tokens_def Some)
  qed
  show ?thesis using ne(2)
    by (simp add: parseCandidate_def Let_def trim strip split_ws_join [OF ne(1) tok] hd tyk ra rp)
qed

subsection \<open>What the filter lets through\<close>

lemma candidate_fate_std:
  assumes ok: "std_ok h ty ra rp ex" and p: "p = ''candidate:'' \<or> p = ''a=candidate:''"
    and k: "candidate_fate (p @ join blank (std_tokens h ty ra rp ex)) = Inr s"
  shows "s = join blank (std_tokens h ty (map_option (\<lambda>_. ''0.0.0.0'') ra) (map_option (\<lambda>_. ''0'') rp) ex)"
    and "ty = ''host'' \<Longrightarrow> isMdnsHostname (h ! 4)"
    and "ty \<in> {''host'', ''srflx'', ''relay'', ''prflx''}"
  using k scrub_std [OF ok] unfolding candidate_fate_def parse_std [OF ok p]
  by (auto simp: decideCandidate_def Let_def scrubRelated_def split: if_splits)

lemma kept_passes_gate:
  assumes ok: "std_ok h ty ra rp ex" and p: "p = ''candidate:'' \<or> p = ''a=candidate:''"
    and k: "candidate_fate (p @ join blank (std_tokens h ty ra rp ex)) = Inr s"
    and name: "isMdnsHostname (h ! 4) \<Longrightarrow> \<not> isRawIp (h ! 4)"
    and q: "q = ''candidate:'' \<or> q = ''a=candidate:''"
  shows "line_leak (q @ s) = None"
proof -
  have ok': "std_ok h ty (map_option (\<lambda>_. ''0.0.0.0'') ra) (map_option (\<lambda>_. ''0'') rp) ex"
    using ok by (auto simp: std_ok_def option.pred_map pred_option_def)
  have "ty = ''host'' \<Longrightarrow> \<not> isRawIp (h ! 4)" using candidate_fate_std(2) [OF ok p k] name by blast
  then show ?thesis
    unfolding candidate_fate_std(1) [OF ok p k] line_leak_def parse_std [OF ok' q]
    by (auto split: option.splits)
qed

lemma filterCandidates_fold:
  "filterCandidates lines =
     \<lparr>fr_kept = map ((@) ''candidate:'') (List.map_filter (\<lambda>l. case candidate_fate l of Inr s \<Rightarrow> Some s | Inl _ \<Rightarrow> None) lines),
      fr_dropped = List.map_filter (\<lambda>l. case candidate_fate l of Inl w \<Rightarrow> Some (l, w) | Inr _ \<Rightarrow> None) lines\<rparr>"
proof -
  let ?step = "\<lambda>r line. case candidate_fate line of
       Inr s \<Rightarrow> r\<lparr>fr_kept := fr_kept r @ [''candidate:'' @ s]\<rparr>
     | Inl why \<Rightarrow> r\<lparr>fr_dropped := fr_dropped r @ [(line, why)]\<rparr>"
  have "foldl ?step \<lparr>fr_kept = ks, fr_dropped = ds\<rparr> lines =
      \<lparr>fr_kept = ks @ map ((@) ''candidate:'') (List.map_filter (\<lambda>l. case candidate_fate l of Inr s \<Rightarrow> Some s | Inl _ \<Rightarrow> None) lines),
       fr_dropped = ds @ List.map_filter (\<lambda>l. case candidate_fate l of Inl w \<Rightarrow> Some (l, w) | Inr _ \<Rightarrow> None) lines\<rparr>" for ks ds
    by (induction lines arbitrary: ks ds) (auto simp: List.map_filter_simps split: sum.splits)
  from this [of "[]" "[]"] show ?thesis by (simp add: filterCandidates_def)
qed

lemma assert_lines_Inr: "assert_lines ls = Inr () \<longleftrightarrow> (\<forall>l\<in>set ls. line_leak l = None)"
  by (induction ls) (auto split: option.splits)

lemma set_map_filter: "x \<in> set (List.map_filter f xs) \<longleftrightarrow> (\<exists>y\<in>set xs. f y = Some x)"
  by (induction xs) (auto simp: List.map_filter_simps split: option.splits)

lemma fr_kept_mem:
  assumes "k \<in> set (fr_kept (filterCandidates lines))"
  obtains l s where "l \<in> set lines" "candidate_fate l = Inr s" "k = ''candidate:'' @ s"
proof -
  obtain s where s: "k = ''candidate:'' @ s"
    "s \<in> set (List.map_filter (\<lambda>l. case candidate_fate l of Inr s \<Rightarrow> Some s | Inl _ \<Rightarrow> None) lines)"
    using assms unfolding filterCandidates_fold filter_result.simps set_map by blast
  then obtain l where "l \<in> set lines" "(case candidate_fate l of Inr s \<Rightarrow> Some s | Inl _ \<Rightarrow> None) = Some s"
    unfolding set_map_filter by blast
  with s(1) that show ?thesis by (cases "candidate_fate l") auto
qed

text \<open>A standard line whose mDNS name, if it has one, is not an address literal.\<close>

definition std_line :: "string \<Rightarrow> bool" where
  "std_line l = (\<exists>h ty ra rp ex. std_ok h ty ra rp ex \<and> (isMdnsHostname (h ! 4) \<longrightarrow> \<not> isRawIp (h ! 4))
     \<and> (l = ''candidate:'' @ join blank (std_tokens h ty ra rp ex) \<or> l = ''a=candidate:'' @ join blank (std_tokens h ty ra rp ex)))"

lemma filtered_passes_gate:
  assumes "\<forall>l\<in>set lines. std_line l"
  shows "assertNoUnobfuscatedHost (Inl (fr_kept (filterCandidates lines))) = Inr ()"
proof -
  have "line_leak k = None" if kept: "k \<in> set (fr_kept (filterCandidates lines))" for k
  proof -
    obtain l s where l: "l \<in> set lines" "candidate_fate l = Inr s" "k = ''candidate:'' @ s"
      using kept by (rule fr_kept_mem)
    with assms have "std_line l" by blast
    then obtain h ty ra rp ex p where ok: "std_ok h ty ra rp ex" and nm: "isMdnsHostname (h ! 4) \<longrightarrow> \<not> isRawIp (h ! 4)"
      and p: "p = ''candidate:'' \<or> p = ''a=candidate:''" and lp: "l = p @ join blank (std_tokens h ty ra rp ex)"
      unfolding std_line_def by blast
    show ?thesis unfolding l(3)
      using nm by (intro kept_passes_gate [OF ok p l(2) [unfolded lp]]) simp_all
  qed
  then show ?thesis by (simp add: assertNoUnobfuscatedHost_def assert_lines_Inr)
qed

text \<open>No line is lost: every one is kept or dropped with a reason.\<close>

lemma filter_accounts:
  "length (fr_kept (filterCandidates lines)) + length (fr_dropped (filterCandidates lines)) = length lines"
  unfolding filterCandidates_fold
  by (induction lines) (auto simp: List.map_filter_simps split: sum.splits)

end
