(* ===== verification/Schemas.thy ===== *)
theory Schemas
  imports Identity
begin

text \<open>
  \<open>orp-ref/core/schemas.ts\<close>: the JSON schemas of the wire records and the validator. A schema
  keeps the keywords the validator reads; \<open>$id\<close>, titles and descriptions are dropped, and no schema
  of the file uses \<open>pattern\<close>. The operator \<open>in\<close> of JavaScript also sees the properties that every
  object inherits from \<open>Object.prototype\<close>, so \<open>in_obj\<close> does. The validator returns its errors in
  the order and with the words of the source; \<open>matches\<close> is the same check as a predicate.
\<close>

datatype schema = Schema
  (sc_const: "json option")
  (sc_enum: "json list option")
  (sc_type: "string option")
  (sc_minItems: "nat option")
  (sc_items: "schema option")
  (sc_required: "string list")
  (sc_properties: "(string \<times> schema) list")
  (sc_closed: bool)

definition const_schema :: "string \<Rightarrow> schema" where
  "const_schema s = Schema (Some (JStr s)) None None None None [] [] False"

definition enum_schema :: "string list \<Rightarrow> schema" where
  "enum_schema ss = Schema None (Some (map JStr ss)) None None None [] [] False"

definition type_schema :: "string \<Rightarrow> schema" where
  "type_schema t = Schema None None (Some t) None None [] [] False"

abbreviation string_schema :: schema where
  "string_schema \<equiv> type_schema ''string''"

definition object_schema :: "string list \<Rightarrow> (string \<times> schema) list \<Rightarrow> schema" where
  \<comment> \<open>\<open>type: "object"\<close> with \<open>additionalProperties: false\<close>\<close>
  "object_schema required properties =
     Schema None None (Some ''object'') None None required properties True"

subsection \<open>The schemas\<close>

definition KEY_BINDING_SCHEMA :: schema where
  "KEY_BINDING_SCHEMA = object_schema
     [''identity_key'', ''transport_key'', ''created_utc'', ''binding_sig'']
     [(''identity_key'', string_schema), (''transport_key'', string_schema),
      (''created_utc'', string_schema), (''binding_sig'', string_schema)]"

definition PRESENCE_SCHEMA :: schema where
  "PRESENCE_SCHEMA = object_schema
     [''type'', ''self_key'', ''boards_scope'', ''webrtc_capabilities'', ''session_nonce'',
      ''timestamp_utc'', ''signature'']
     [(''type'', const_schema ''presence''),
      (''self_key'', string_schema),
      (''boards_scope'', Schema None None (Some ''array'') (Some 1) (Some string_schema) [] [] False),
      (''webrtc_capabilities'', object_schema [''data_channel'', ''ice_restart'']
         [(''data_channel'', type_schema ''boolean''), (''ice_restart'', type_schema ''boolean'')]),
      (''session_nonce'', string_schema),
      (''timestamp_utc'', string_schema),
      (''push_token'', string_schema),
      (''signature'', string_schema)]"

definition INTENT_SCHEMA :: schema where
  "INTENT_SCHEMA = object_schema
     [''type'', ''self_key'', ''target_key'', ''session_nonce'', ''timestamp_utc'', ''signature'']
     [(''type'', const_schema ''intent''), (''self_key'', string_schema), (''target_key'', string_schema),
      (''session_nonce'', string_schema), (''timestamp_utc'', string_schema), (''signature'', string_schema)]"

definition MATCH_FRAME_SCHEMA :: schema where
  "MATCH_FRAME_SCHEMA = object_schema
     [''type'', ''match_id'', ''from_key'', ''phase'', ''session_nonce'', ''timestamp_utc'', ''signature'']
     [(''type'', enum_schema [''match_offer'', ''match_answer'']), (''match_id'', string_schema),
      (''from_key'', string_schema), (''phase'', enum_schema [''key'', ''signaling'']),
      (''transport_key'', string_schema), (''binding'', KEY_BINDING_SCHEMA),
      (''enc_signaling'', string_schema), (''session_nonce'', string_schema),
      (''timestamp_utc'', string_schema), (''signature'', string_schema)]"

definition KEY_MIGRATION_SCHEMA :: schema where
  "KEY_MIGRATION_SCHEMA = object_schema
     [''type'', ''old_key'', ''new_key'', ''new_binding'', ''issued_utc'', ''retire_after_utc'',
      ''session_nonce'', ''timestamp_utc'', ''old_sig'', ''new_sig'']
     [(''type'', const_schema ''key_migration''), (''old_key'', string_schema), (''new_key'', string_schema),
      (''new_binding'', KEY_BINDING_SCHEMA), (''issued_utc'', string_schema),
      (''retire_after_utc'', string_schema), (''session_nonce'', string_schema),
      (''timestamp_utc'', string_schema), (''old_sig'', string_schema), (''new_sig'', string_schema)]"

definition MIGRATION_ACK_SCHEMA :: schema where
  "MIGRATION_ACK_SCHEMA = object_schema
     [''type'', ''acked_by'', ''old_key'', ''new_key'', ''migration_nonce'', ''session_nonce'',
      ''timestamp_utc'', ''signature'']
     [(''type'', const_schema ''migration_ack''), (''acked_by'', string_schema), (''old_key'', string_schema),
      (''new_key'', string_schema), (''migration_nonce'', string_schema), (''session_nonce'', string_schema),
      (''timestamp_utc'', string_schema), (''signature'', string_schema)]"

definition SEALED_MESSAGE_SCHEMA :: schema where
  "SEALED_MESSAGE_SCHEMA = object_schema
     [''type'', ''message_id'', ''created_utc'', ''ack_pubkey'', ''sealed_body'']
     [(''type'', const_schema ''msg''), (''message_id'', string_schema), (''created_utc'', string_schema),
      (''ack_pubkey'', string_schema), (''sealed_body'', string_schema)]"

definition BOARD_PROPAGATION_SCHEMA :: schema where
  "BOARD_PROPAGATION_SCHEMA = object_schema
     [''type'', ''record'', ''origin_board'', ''hop'', ''max_hops'', ''path'']
     [(''type'', const_schema ''board_propagation''), (''record'', type_schema ''object''),
      (''origin_board'', string_schema), (''hop'', type_schema ''integer''),
      (''max_hops'', type_schema ''integer''),
      (''path'', Schema None None (Some ''array'') (Some 1) (Some string_schema) [] [] False)]"

subsection \<open>The validator\<close>

definition object_prototype :: "string list" where
  "object_prototype =
     [''constructor'', ''__defineGetter__'', ''__defineSetter__'', ''hasOwnProperty'',
      ''__lookupGetter__'', ''__lookupSetter__'', ''isPrototypeOf'', ''propertyIsEnumerable'',
      ''toString'', ''valueOf'', ''__proto__'', ''toLocaleString'']"

definition in_obj :: "string \<Rightarrow> (string \<times> 'a) list \<Rightarrow> bool" where
  \<comment> \<open>the operator \<open>in\<close>\<close>
  "in_obj k fs = (jhas fs k \<or> k \<in> set object_prototype)"

definition typeOf :: "json \<Rightarrow> string" where
  "typeOf v = (case v of
       JNull \<Rightarrow> ''null'' | JArr _ \<Rightarrow> ''array'' | JObj _ \<Rightarrow> ''object''
     | JStr _ \<Rightarrow> ''string'' | JNum _ \<Rightarrow> ''number'' | JBool _ \<Rightarrow> ''boolean'')"

definition strict_eq :: "json \<Rightarrow> json \<Rightarrow> bool" where
  \<comment> \<open>\<open>===\<close>: two objects or arrays are never the same object here\<close>
  "strict_eq a b = (case (a, b) of
       (JObj _, _) \<Rightarrow> False | (JArr _, _) \<Rightarrow> False | _ \<Rightarrow> a = b)"

definition quoted :: "string \<Rightarrow> string" where
  "quoted s = CHR 0x22 # s @ [CHR 0x22]"

fun check :: "schema \<Rightarrow> json \<Rightarrow> string \<Rightarrow> string list" where
  "check (Schema c e t mi it req props strict) v path =
     (case c of
        Some k \<Rightarrow> if strict_eq v k then [] else [path @ '': expected const '' @ json_str k]
      | None \<Rightarrow> []) @
     (case e of
        Some es \<Rightarrow> if list_ex (strict_eq v) es then []
                   else [path @ '': '' @ json_str v @ '' not in enum '' @ json_str (JArr es)]
      | None \<Rightarrow> []) @
     (case t of
        None \<Rightarrow> []
      | Some ty \<Rightarrow>
          if typeOf v \<noteq> (if ty = ''integer'' then ''number'' else ty)
          then [path @ '': expected type '' @ ty @ '', got '' @ typeOf v]
          else
            (if ty = ''array'' then
               (case v of
                 JArr arr \<Rightarrow>
                   (case mi of
                      Some m \<Rightarrow> if length arr < m then [path @ '': expected >= '' @ show_nat m @ '' items''] else []
                    | None \<Rightarrow> []) @
                   (case it of
                      Some s \<Rightarrow> concat (map (\<lambda>(i, x). check s x (path @ ''['' @ show_nat i @ '']''))
                                  (zip [0..<length arr] arr))
                    | None \<Rightarrow> [])
               | _ \<Rightarrow> [])
             else if ty = ''object'' then
               (case v of
                 JObj fs \<Rightarrow>
                   List.map_filter (\<lambda>r. if in_obj r fs then None
                      else Some (path @ '': missing required property '' @ quoted r)) req @
                   (if strict then
                      List.map_filter (\<lambda>k. if in_obj k props then None
                         else Some (path @ '': additional property '' @ quoted k @ '' not allowed'')) (jkeys fs)
                    else []) @
                   concat (map (\<lambda>(k, s). case jget fs k of
                        Some x \<Rightarrow> check s x (path @ ''.'' @ k) | None \<Rightarrow> []) props)
               | _ \<Rightarrow> [])
             else []))"

definition validateSchema :: "schema \<Rightarrow> json \<Rightarrow> string list" where
  \<comment> \<open>the errors; the record is valid when there are none\<close>
  "validateSchema s v = check s v ''$''"

definition schema_valid :: "schema \<Rightarrow> json \<Rightarrow> bool" where
  "schema_valid s v = (validateSchema s v = [])"

subsection \<open>The check as a predicate\<close>

fun matches :: "schema \<Rightarrow> json \<Rightarrow> bool" where
  "matches (Schema c e t mi it req props strict) v \<longleftrightarrow>
     (case c of Some k \<Rightarrow> strict_eq v k | None \<Rightarrow> True) \<and>
     (case e of Some es \<Rightarrow> list_ex (strict_eq v) es | None \<Rightarrow> True) \<and>
     (case t of None \<Rightarrow> True
      | Some ty \<Rightarrow>
          typeOf v = (if ty = ''integer'' then ''number'' else ty) \<and>
          (if ty = ''array'' then
             (case v of
               JArr arr \<Rightarrow> (case mi of Some m \<Rightarrow> m \<le> length arr | None \<Rightarrow> True) \<and>
                 (case it of Some s \<Rightarrow> list_all (matches s) arr | None \<Rightarrow> True)
             | _ \<Rightarrow> True)
           else if ty = ''object'' then
             (case v of
               JObj fs \<Rightarrow> list_all (\<lambda>r. in_obj r fs) req \<and>
                 (strict \<longrightarrow> list_all (\<lambda>k. in_obj k props) (jkeys fs)) \<and>
                 list_all (\<lambda>(k, s). case jget fs k of Some x \<Rightarrow> matches s x | None \<Rightarrow> True) props
             | _ \<Rightarrow> True)
           else True))"

lemma map_filter_None: "List.map_filter f xs = [] \<longleftrightarrow> (\<forall>x\<in>set xs. f x = None)"
  by (induction xs) (auto simp: List.map_filter_simps split: option.splits)

lemma check_items:
  assumes "\<And>x p. check s x p = [] \<longleftrightarrow> matches s x" "length ns = length arr"
  shows "(\<forall>(i, x)\<in>set (zip ns arr). check s x (f i) = []) \<longleftrightarrow> list_all (matches s) arr"
  using assms(2) by (induction ns arr rule: list_induct2) (simp_all add: assms(1))

lemma check_props:
  assumes "\<And>k s x p. (k, s) \<in> set props \<Longrightarrow> check s x p = [] \<longleftrightarrow> matches s x"
  shows "(\<forall>(k, s)\<in>set props. (case jget fs k of Some x \<Rightarrow> check s x (f k) | None \<Rightarrow> []) = []) \<longleftrightarrow>
    list_all (\<lambda>(k, s). case jget fs k of Some x \<Rightarrow> matches s x | None \<Rightarrow> True) props"
proof -
  have "(case jget fs k of Some x \<Rightarrow> check s x (f k) | None \<Rightarrow> []) = [] \<longleftrightarrow>
      (case jget fs k of Some x \<Rightarrow> matches s x | None \<Rightarrow> True)" if "(k, s) \<in> set props" for k s
    using assms [OF that] by (simp split: option.splits)
  then show ?thesis unfolding list_all_iff by (intro ball_cong) auto
qed

lemma check_matches: "check s v path = [] \<longleftrightarrow> matches s v"
proof (induction s arbitrary: v path)
  case (Schema c e t mi it req props strict)
  show ?case
  proof (cases t)
    case None
    then show ?thesis by (simp split: option.splits)
  next
    case (Some ty)
    show ?thesis
    proof (cases "typeOf v = (if ty = ''integer'' then ''number'' else ty)")
      case False
      with Some show ?thesis by (simp split: option.splits)
    next
      case tyok: True
      consider (arr) xs where "v = JArr xs" "ty = ''array''" | (obj) fs where "v = JObj fs" "ty = ''object''"
        | (other) "ty \<noteq> ''array''" "ty \<noteq> ''object''"
        using tyok by (cases v) (auto simp: typeOf_def split: if_splits)
      then show ?thesis
      proof cases
        case other
        with Some tyok show ?thesis by (simp split: option.splits)
      next
        case (arr xs)
        have "(\<forall>(i, x)\<in>set (zip [0..<length xs] xs). check s x (path @ ''['' @ show_nat i @ '']'') = [])
            \<longleftrightarrow> list_all (matches s) xs" if "it = Some s" for s
          using Schema.IH(1) [of s] that by (intro check_items) simp_all
        with arr Some tyok show ?thesis by (simp add: case_prod_unfold split: option.splits)
      next
        case (obj fs)
        have "(\<forall>(k, s)\<in>set props. (case jget fs k of Some x \<Rightarrow> check s x (path @ ''.'' @ k) | None \<Rightarrow> []) = []) \<longleftrightarrow>
            list_all (\<lambda>(k, s). case jget fs k of Some x \<Rightarrow> matches s x | None \<Rightarrow> True) props"
          using Schema.IH(2) by (intro check_props) auto
        note props = this [unfolded case_prod_unfold]
        have c: "check (Schema c e t mi it req props strict) v path = [] \<longleftrightarrow>
            (case c of Some k \<Rightarrow> strict_eq v k | None \<Rightarrow> True) \<and>
            (case e of Some es \<Rightarrow> list_ex (strict_eq v) es | None \<Rightarrow> True) \<and>
            (\<forall>r\<in>set req. in_obj r fs) \<and> (strict \<longrightarrow> (\<forall>k\<in>set (jkeys fs). in_obj k props)) \<and>
            (\<forall>p\<in>set props. (case jget fs (fst p) of Some x \<Rightarrow> check (snd p) x (path @ ''.'' @ fst p) | None \<Rightarrow> []) = [])"
          using obj Some tyok by (simp add: map_filter_None case_prod_unfold split: option.splits)
        have m: "matches (Schema c e t mi it req props strict) v \<longleftrightarrow>
            (case c of Some k \<Rightarrow> strict_eq v k | None \<Rightarrow> True) \<and>
            (case e of Some es \<Rightarrow> list_ex (strict_eq v) es | None \<Rightarrow> True) \<and>
            (\<forall>r\<in>set req. in_obj r fs) \<and> (strict \<longrightarrow> (\<forall>k\<in>set (jkeys fs). in_obj k props)) \<and>
            list_all (\<lambda>p. case jget fs (fst p) of Some x \<Rightarrow> matches (snd p) x | None \<Rightarrow> True) props"
          using tyok unfolding obj Some by (simp add: list_all_iff case_prod_unfold)
        show ?thesis unfolding c m props ..
      qed
    qed
  qed
qed

text \<open>The validator reports no error exactly for the values the schema describes.\<close>

lemma schema_valid_iff: "schema_valid s v \<longleftrightarrow> matches s v"
  by (simp add: schema_valid_def validateSchema_def check_matches)

subsection \<open>What a valid record looks like\<close>

lemma matches_const [simp]: "matches (const_schema s) v \<longleftrightarrow> v = JStr s"
  by (cases v) (auto simp: const_schema_def strict_eq_def)

lemma matches_enum [simp]: "matches (enum_schema ss) v \<longleftrightarrow> (\<exists>s\<in>set ss. v = JStr s)"
  by (cases v) (auto simp: enum_schema_def strict_eq_def list_ex_iff)

lemma matches_string [simp]: "matches string_schema v \<longleftrightarrow> (\<exists>s. v = JStr s)"
  by (cases v) (auto simp: type_schema_def typeOf_def)

lemma matches_boolean [simp]: "matches (type_schema ''boolean'') v \<longleftrightarrow> (\<exists>b. v = JBool b)"
  by (cases v) (auto simp: type_schema_def typeOf_def)

lemma matches_object [simp]:
  "matches (object_schema req props) v \<longleftrightarrow>
     (\<exists>fs. v = JObj fs \<and> (\<forall>r\<in>set req. in_obj r fs) \<and>
       (\<forall>k. jhas fs k \<longrightarrow> in_obj k props) \<and>
       (\<forall>(k, s)\<in>set props. \<forall>x. jget fs k = Some x \<longrightarrow> matches s x))"
proof (cases v)
  case (JObj fs)
  have o: "(case x of Some y \<Rightarrow> P y | None \<Rightarrow> True) \<longleftrightarrow> (\<forall>y. x = Some y \<longrightarrow> P y)" for x :: "json option" and P
    by (cases x) auto
  show ?thesis by (simp add: JObj object_schema_def typeOf_def list_all_iff set_jkeys o)
qed (auto simp: object_schema_def typeOf_def)

lemma matches_string_array [simp]:
  "matches (Schema None None (Some ''array'') (Some 1) (Some string_schema) [] [] False) v \<longleftrightarrow>
     (\<exists>ss. ss \<noteq> [] \<and> v = JArr (map JStr ss))"
proof (cases v)
  case (JArr xs)
  have "(\<forall>x\<in>set xs. \<exists>s. x = JStr s) \<longleftrightarrow> (\<exists>ss. xs = map JStr ss)"
    by (metis (no_types, lifting) ex_map_conv)
  with JArr show ?thesis by (auto simp: typeOf_def list_all_iff Suc_le_eq)
qed (auto simp: typeOf_def)

lemma required_str:
  assumes "schema_valid (object_schema req props) (JObj fs)" "k \<in> set req" "(k, string_schema) \<in> set props"
    "k \<notin> set object_prototype"
  shows "\<exists>s. jget fs k = Some (JStr s)"
proof -
  have m: "matches (object_schema req props) (JObj fs)" using assms(1) by (simp add: schema_valid_iff)
  with assms(2,4) have "jhas fs k" by (auto simp: in_obj_def)
  then obtain x where x: "jget fs k = Some x" by (auto simp: jhas_def)
  from m assms(3) x have "matches string_schema x" unfolding matches_object by blast
  with x show ?thesis by simp
qed

text \<open>
  A closed schema admits no field outside its own, except one that is named like an inherited
  property of every object.
\<close>

lemma closed_schema_keys:
  assumes "schema_valid (object_schema req props) v"
  shows "\<exists>fs. v = JObj fs \<and> fst ` set fs \<subseteq> fst ` set props \<union> set object_prototype"
proof -
  have "matches (object_schema req props) v" using assms by (simp add: schema_valid_iff)
  then obtain fs where v: "v = JObj fs" and k: "\<forall>k. jhas fs k \<longrightarrow> in_obj k props"
    unfolding matches_object by blast
  have "fst ` set fs \<subseteq> fst ` set props \<union> set object_prototype"
  proof
    fix x assume "x \<in> fst ` set fs"
    then have "jhas fs x" by (simp add: jhas_iff)
    with k have "in_obj x props" by blast
    then show "x \<in> fst ` set props \<union> set object_prototype" by (simp add: in_obj_def jhas_iff)
  qed
  with v show ?thesis by blast
qed

end
