(* ===== verification/Wire.thy ===== *)
theory Wire
  imports Schemas
begin

text \<open>
  \<open>orp-ref/core/wire.ts\<close>: the builders of presence beacons, intents and match frames, and the two
  verifiers that guard every reader of them. A builder takes the random nonce and the time it would
  draw itself as its last arguments. The theorems: what a builder makes, the verifier accepts; and a
  key frame the verifier accepts carries the transport key its sender signed for.
\<close>

definition newNonce :: "bytes \<Rightarrow> string" where
  "newNonce rnd = b64uEncode rnd"

definition nowIso :: "string option \<Rightarrow> string \<Rightarrow> string" where
  \<comment> \<open>the injected clock if there is one, else the system's\<close>
  "nowIso now systemTime = or_default now systemTime"

subsection \<open>Builders\<close>

record webrtc_capabilities =
  data_channel :: bool
  ice_restart :: bool

definition caps_json :: "webrtc_capabilities \<Rightarrow> json" where
  "caps_json c = JObj [(''data_channel'', JBool (data_channel c)), (''ice_restart'', JBool (ice_restart c))]"

record presence_opts =
  po_boards_scope :: "string list"
  po_capabilities :: "webrtc_capabilities option"
  po_session_nonce :: "string option"
  po_push_token :: "string option"
  po_now :: "string option"

definition makePresence :: "crypto \<Rightarrow> device_identity \<Rightarrow> presence_opts \<Rightarrow> bytes \<Rightarrow> string \<Rightarrow> fields" where
  "makePresence C identity opts rnd sys = signObject C identity
     ([(''type'', JStr ''presence''),
       (''self_key'', JStr (identityKeyB64 identity)),
       (''boards_scope'', JArr (map JStr (po_boards_scope opts))),
       (''webrtc_capabilities'',
         caps_json (or_default (po_capabilities opts) \<lparr>data_channel = True, ice_restart = True\<rparr>)),
       (''session_nonce'', JStr (or_default (po_session_nonce opts) (newNonce rnd))),
       (''timestamp_utc'', JStr (nowIso (po_now opts) sys))] @
      (case po_push_token opts of Some t \<Rightarrow> [(''push_token'', JStr t)] | None \<Rightarrow> []))"

definition makeIntent ::
  "crypto \<Rightarrow> device_identity \<Rightarrow> string \<Rightarrow> string option \<Rightarrow> string option \<Rightarrow> bytes \<Rightarrow> string \<Rightarrow> fields" where
  "makeIntent C identity target nonce now rnd sys = signObject C identity
     [(''type'', JStr ''intent''),
      (''self_key'', JStr (identityKeyB64 identity)),
      (''target_key'', JStr target),
      (''session_nonce'', JStr (or_default nonce (newNonce rnd))),
      (''timestamp_utc'', JStr (nowIso now sys))]"

datatype frame_type = match_offer | match_answer

definition frame_type_str :: "frame_type \<Rightarrow> string" where
  "frame_type_str t = (case t of match_offer \<Rightarrow> ''match_offer'' | match_answer \<Rightarrow> ''match_answer'')"

definition makeKeyFrame ::
  "crypto \<Rightarrow> device_identity \<Rightarrow> frame_type \<Rightarrow> string \<Rightarrow> string option \<Rightarrow> bytes \<Rightarrow> string \<Rightarrow> fields" where
  "makeKeyFrame C identity ty match_id now rnd sys = signObject C identity
     [(''type'', JStr (frame_type_str ty)),
      (''match_id'', JStr match_id),
      (''from_key'', JStr (identityKeyB64 identity)),
      (''phase'', JStr ''key''),
      (''transport_key'', JStr (transportKeyB64 identity)),
      (''binding'', di_binding identity),
      (''session_nonce'', JStr (newNonce rnd)),
      (''timestamp_utc'', JStr (nowIso now sys))]"

definition makeSignalingFrame ::
  "crypto \<Rightarrow> device_identity \<Rightarrow> frame_type \<Rightarrow> string \<Rightarrow> string \<Rightarrow> string option \<Rightarrow> bytes \<Rightarrow> string \<Rightarrow> fields" where
  "makeSignalingFrame C identity ty match_id enc_signaling now rnd sys = signObject C identity
     [(''type'', JStr (frame_type_str ty)),
      (''match_id'', JStr match_id),
      (''from_key'', JStr (identityKeyB64 identity)),
      (''phase'', JStr ''signaling''),
      (''enc_signaling'', JStr enc_signaling),
      (''session_nonce'', JStr (newNonce rnd)),
      (''timestamp_utc'', JStr (nowIso now sys))]"

subsection \<open>Untyped values\<close>

fun js_text :: "json \<Rightarrow> string" where
  \<comment> \<open>a value in a template literal\<close>
  "js_text JNull = ''null''"
| "js_text (JBool b) = (if b then ''true'' else ''false'')"
| "js_text (JNum r) = show_num r"
| "js_text (JStr s) = s"
| "js_text (JArr xs) = join '','' (map (\<lambda>x. if x = JNull then [] else js_text x) xs)"
| "js_text (JObj _) = ''[object Object]''"

definition js_text_opt :: "json option \<Rightarrow> string" where
  "js_text_opt v = (case v of None \<Rightarrow> ''undefined'' | Some j \<Rightarrow> js_text j)"

definition obj_fields :: "json \<Rightarrow> fields" where
  "obj_fields j = (case j of JObj fs \<Rightarrow> fs | _ \<Rightarrow> [])"

definition jstr :: "json option \<Rightarrow> string" where
  \<comment> \<open>a property that the schema has already shown to be a string\<close>
  "jstr v = (case v of Some (JStr s) \<Rightarrow> s | _ \<Rightarrow> [])"

definition jis_str :: "json option \<Rightarrow> bool" where
  \<comment> \<open>\<open>typeof v === "string"\<close>\<close>
  "jis_str v = (case v of Some (JStr _) \<Rightarrow> True | _ \<Rightarrow> False)"

lemma jis_str_JStr [simp]: "jis_str (Some (JStr s))"
  by (simp add: jis_str_def)

lemma jis_str_iff: "jis_str v \<longleftrightarrow> (\<exists>s. v = Some (JStr s))"
  by (auto simp: jis_str_def split: option.splits json.splits)

lemma jis_str_None [simp]: "\<not> jis_str None"
  by (simp add: jis_str_def)

lemma obj_fields_JObj [simp]: "obj_fields (JObj fs) = fs"
  by (simp add: obj_fields_def)

lemma jstr_JStr [simp]: "jstr (Some (JStr s)) = s"
  by (simp add: jstr_def)

subsection \<open>Verifiers\<close>

record announce_verification =
  av_valid :: bool
  av_kind :: "string option"
  av_reason :: "string option"

definition verifyAnnounce :: "crypto \<Rightarrow> json \<Rightarrow> announce_verification" where
  "verifyAnnounce C r =
     (if \<not> is_obj r then \<lparr>av_valid = False, av_kind = None, av_reason = Some ''not-an-object''\<rparr>
      else if jprop r ''type'' = Some (JStr ''presence'') then
        (if validateSchema PRESENCE_SCHEMA r \<noteq> [] then
           \<lparr>av_valid = False, av_kind = Some ''presence'',
             av_reason = Some (join ''; '' (validateSchema PRESENCE_SCHEMA r))\<rparr>
         else if \<not> verifyObject C (obj_fields r) (jstr (jprop r ''self_key'')) then
           \<lparr>av_valid = False, av_kind = Some ''presence'', av_reason = Some ''bad-signature''\<rparr>
         else \<lparr>av_valid = True, av_kind = Some ''presence'', av_reason = None\<rparr>)
      else if jprop r ''type'' = Some (JStr ''intent'') then
        (if validateSchema INTENT_SCHEMA r \<noteq> [] then
           \<lparr>av_valid = False, av_kind = Some ''intent'',
             av_reason = Some (join ''; '' (validateSchema INTENT_SCHEMA r))\<rparr>
         else if \<not> verifyObject C (obj_fields r) (jstr (jprop r ''self_key'')) then
           \<lparr>av_valid = False, av_kind = Some ''intent'', av_reason = Some ''bad-signature''\<rparr>
         else \<lparr>av_valid = True, av_kind = Some ''intent'', av_reason = None\<rparr>)
      else \<lparr>av_valid = False, av_kind = None,
             av_reason = Some (''unknown-type:'' @ js_text_opt (jprop r ''type''))\<rparr>)"

text \<open>A verification that fails returns its reason on the left.\<close>

definition verifyMatchFrame :: "crypto \<Rightarrow> json \<Rightarrow> string option \<Rightarrow> string + unit" where
  "verifyMatchFrame C frame expectedFromKey =
     (if validateSchema MATCH_FRAME_SCHEMA frame \<noteq> [] then
        Inl (join ''; '' (validateSchema MATCH_FRAME_SCHEMA frame))
      else if \<not> verifyObject C (obj_fields frame) (jstr (jprop frame ''from_key'')) then Inl ''bad-signature''
      else if (case expectedFromKey of None \<Rightarrow> False
               | Some k \<Rightarrow> k \<noteq> [] \<and> jstr (jprop frame ''from_key'') \<noteq> k) then Inl ''unexpected-sender''
      else if jprop frame ''phase'' = Some (JStr ''key'') then
        (if jstr (jprop frame ''transport_key'') = [] \<or> jprop frame ''binding'' = None then
           Inl ''key-frame-missing-transport-key-or-binding''
         else
           (let b = the (jprop frame ''binding'')
            in if \<not> verifyBinding C b then Inl ''bad-binding''
               else if jprop b ''identity_key'' \<noteq> jprop frame ''from_key'' then Inl ''binding-identity-mismatch''
               else if jprop b ''transport_key'' \<noteq> jprop frame ''transport_key'' then Inl ''binding-transport-mismatch''
               else Inr ()))
      else if jprop frame ''phase'' = Some (JStr ''signaling'') then
        (if jstr (jprop frame ''enc_signaling'') = [] then Inl ''signaling-frame-missing-blob'' else Inr ())
      else Inr ())"

subsection \<open>What is built verifies\<close>

text \<open>Membership in the schemas, field by field.\<close>

lemma schema_obj_iff:
  "schema_valid (object_schema req props) (JObj fs) \<longleftrightarrow>
     (\<forall>r\<in>set req. in_obj r fs) \<and> (\<forall>k. jhas fs k \<longrightarrow> in_obj k props) \<and>
     (\<forall>(k, s)\<in>set props. \<forall>x. jget fs k = Some x \<longrightarrow> matches s x)"
  unfolding schema_valid_iff matches_object by auto

lemma schema_required:
  assumes "schema_valid (object_schema req props) (JObj fs)" "k \<in> set req" "k \<notin> set object_prototype"
  shows "jhas fs k"
  using assms unfolding schema_obj_iff in_obj_def by blast

lemma schema_field:
  assumes "schema_valid (object_schema req props) (JObj fs)" "(k, s) \<in> set props" "jget fs k = Some x"
  shows "matches s x"
  using assms unfolding schema_obj_iff by blast

lemma valid_iff_no_errors: "validateSchema s v = [] \<longleftrightarrow> schema_valid s v"
  by (simp add: schema_valid_def)

lemma in_obj_jhas: "jhas fs k \<Longrightarrow> in_obj k fs"
  by (simp add: in_obj_def)

lemma jhas_append [simp]: "jhas (xs @ ys) k \<longleftrightarrow> jhas xs k \<or> jhas ys k"
  by (auto simp: jhas_iff)

lemma jhas_Cons [simp]: "jhas (p # xs) k \<longleftrightarrow> k = fst p \<or> jhas xs k"
  by (auto simp: jhas_iff)

lemma jhas_signObject [simp]: "jhas (signObject C i fs) k \<longleftrightarrow> k = ''signature'' \<or> jhas fs k"
  by (simp add: signObject_def Let_def)

lemma signature_signObject: "\<exists>s. jget (signObject C i fs) ''signature'' = Some (JStr s)"
  by (simp add: signObject_def Let_def)

lemma binding_matches: "identity_ok C i \<Longrightarrow> matches KEY_BINDING_SCHEMA (di_binding i)"
  by (auto simp: identity_ok_def KEY_BINDING_SCHEMA_def mk_identity_def Let_def in_obj_def)

text \<open>
  A record that the builder signs is valid for a closed schema if its fields are.
\<close>

lemma signed_valid:
  assumes "\<forall>r\<in>set req. r = ''signature'' \<or> jhas fs r"
    and "\<forall>k. k = ''signature'' \<or> jhas fs k \<longrightarrow> jhas props k"
    and "(''signature'', string_schema) \<in> set props" "distinct (map fst props)"
    and "\<forall>(k, s)\<in>set props. k \<noteq> ''signature'' \<longrightarrow> (\<forall>x. jget fs k = Some x \<longrightarrow> matches s x)"
  shows "schema_valid (object_schema req props) (JObj (signObject C i fs))"
  unfolding schema_obj_iff
proof (intro conjI)
  show "\<forall>r\<in>set req. in_obj r (signObject C i fs)" using assms(1) by (auto intro!: in_obj_jhas)
  show "\<forall>k. jhas (signObject C i fs) k \<longrightarrow> in_obj k props" using assms(2) by (auto intro!: in_obj_jhas)
  have "matches s x" if "(k, s) \<in> set props" "jget (signObject C i fs) k = Some x" for k s x
  proof (cases "k = ''signature''")
    case True
    with that assms(3,4) have "s = string_schema" by (metis map_of_eq_Some_iff option.inject)
    with that True signature_signObject [of C i fs] show ?thesis by auto
  next
    case False
    with that assms(5) show ?thesis by auto
  qed
  then show "\<forall>(k, s)\<in>set props. \<forall>x. jget (signObject C i fs) k = Some x \<longrightarrow> matches s x" by blast
qed

lemma makePresence_schema:
  assumes "po_boards_scope opts \<noteq> []"
  shows "schema_valid PRESENCE_SCHEMA (JObj (makePresence C i opts rnd sys))"
  unfolding PRESENCE_SCHEMA_def makePresence_def
  using assms by (intro signed_valid) (auto simp: caps_json_def in_obj_def typeOf_def list_all_iff Suc_le_eq split: option.splits)

lemma makeIntent_schema: "schema_valid INTENT_SCHEMA (JObj (makeIntent C i t n now rnd sys))"
  unfolding INTENT_SCHEMA_def makeIntent_def by (intro signed_valid) auto

lemma makeKeyFrame_schema:
  assumes "identity_ok C i"
  shows "schema_valid MATCH_FRAME_SCHEMA (JObj (makeKeyFrame C i ty mid now rnd sys))"
  unfolding MATCH_FRAME_SCHEMA_def makeKeyFrame_def using binding_matches [OF assms]
  by (intro signed_valid) (auto simp: frame_type_str_def split: frame_type.split)

lemma makeSignalingFrame_schema:
  "schema_valid MATCH_FRAME_SCHEMA (JObj (makeSignalingFrame C i ty mid enc now rnd sys))"
  unfolding MATCH_FRAME_SCHEMA_def makeSignalingFrame_def
  by (intro signed_valid) (auto simp: frame_type_str_def split: frame_type.split)

lemma verify_built:
  assumes "ed_ok C" "ed_nonempty C" "identity_ok C i"
  shows "verifyObject C (makePresence C i opts rnd sys) (identityKeyB64 i)"
    and "verifyObject C (makeIntent C i t n now rnd sys) (identityKeyB64 i)"
    and "verifyObject C (makeKeyFrame C i ty mid now rnd sys) (identityKeyB64 i)"
    and "verifyObject C (makeSignalingFrame C i ty mid enc now rnd sys) (identityKeyB64 i)"
  unfolding makePresence_def makeIntent_def makeKeyFrame_def makeSignalingFrame_def
  by (rule verify_signObject [OF assms])+

lemma jget_built [simp]:
  "jget (makePresence C i opts rnd sys) ''type'' = Some (JStr ''presence'')"
  "jget (makePresence C i opts rnd sys) ''self_key'' = Some (JStr (identityKeyB64 i))"
  "jget (makeIntent C i t n now rnd sys) ''type'' = Some (JStr ''intent'')"
  "jget (makeIntent C i t n now rnd sys) ''self_key'' = Some (JStr (identityKeyB64 i))"
  "jget (makeIntent C i t n now rnd sys) ''target_key'' = Some (JStr t)"
  "jget (makeKeyFrame C i ty mid now rnd sys) ''from_key'' = Some (JStr (identityKeyB64 i))"
  "jget (makeKeyFrame C i ty mid now rnd sys) ''phase'' = Some (JStr ''key'')"
  "jget (makeKeyFrame C i ty mid now rnd sys) ''transport_key'' = Some (JStr (transportKeyB64 i))"
  "jget (makeKeyFrame C i ty mid now rnd sys) ''binding'' = Some (di_binding i)"
  "jget (makeKeyFrame C i ty mid now rnd sys) ''type'' = Some (JStr (frame_type_str ty))"
  "jget (makeKeyFrame C i ty mid now rnd sys) ''match_id'' = Some (JStr mid)"
  "jget (makeSignalingFrame C i ty mid enc now rnd sys) ''from_key'' = Some (JStr (identityKeyB64 i))"
  "jget (makeSignalingFrame C i ty mid enc now rnd sys) ''phase'' = Some (JStr ''signaling'')"
  "jget (makeSignalingFrame C i ty mid enc now rnd sys) ''enc_signaling'' = Some (JStr enc)"
  "jget (makeSignalingFrame C i ty mid enc now rnd sys) ''type'' = Some (JStr (frame_type_str ty))"
  "jget (makeSignalingFrame C i ty mid enc now rnd sys) ''match_id'' = Some (JStr mid)"
  by (simp_all add: makePresence_def makeIntent_def makeKeyFrame_def makeSignalingFrame_def)

lemma transportKeyB64_nonempty: "dh_ok C \<Longrightarrow> identity_ok C i \<Longrightarrow> transportKeyB64 i \<noteq> []"
  using identity_ok_keys [of C i] unfolding transportKeyB64_def dh_ok_def
  by (metis b64uEncode_nonempty length_0_conv zero_neq_numeral)

lemma announce_built:
  assumes "ed_ok C" "ed_nonempty C" "identity_ok C i"
  shows "po_boards_scope opts \<noteq> [] \<Longrightarrow> av_valid (verifyAnnounce C (JObj (makePresence C i opts rnd sys)))"
    and "av_valid (verifyAnnounce C (JObj (makeIntent C i t n now rnd sys)))"
  using verify_built [OF assms] by (simp_all add: verifyAnnounce_def is_obj_def valid_iff_no_errors
      makePresence_schema makeIntent_schema)

lemma key_frame_checks:
  assumes "identity_ok C i" "transportKeyB64 i \<noteq> []" "verifyBinding C (di_binding i)"
    and "verifyObject C (makeKeyFrame C i ty mid now rnd sys) (identityKeyB64 i)"
  shows "verifyMatchFrame C (JObj (makeKeyFrame C i ty mid now rnd sys)) (Some (identityKeyB64 i)) = Inr ()"
  using assms jprop_binding_ok [OF assms(1)]
  by (simp add: verifyMatchFrame_def valid_iff_no_errors makeKeyFrame_schema [OF assms(1)] Let_def)

lemma key_frame_built:
  assumes "ed_ok C" "ed_nonempty C" "dh_ok C" "identity_ok C i"
  shows "verifyMatchFrame C (JObj (makeKeyFrame C i ty mid now rnd sys)) (Some (identityKeyB64 i)) = Inr ()"
  by (rule key_frame_checks [OF assms(4) transportKeyB64_nonempty [OF assms(3,4)]
        verifyBinding_identity [OF assms(1,4)] verify_built(3) [OF assms(1,2,4)]])

lemma signaling_frame_built:
  assumes "ed_ok C" "ed_nonempty C" "identity_ok C i" "enc \<noteq> []"
  shows "verifyMatchFrame C (JObj (makeSignalingFrame C i ty mid enc now rnd sys)) (Some (identityKeyB64 i)) = Inr ()"
  using verify_built [OF assms(1,2,3)] assms(4)
  by (simp add: verifyMatchFrame_def valid_iff_no_errors makeSignalingFrame_schema)

subsection \<open>What verifies is authentic\<close>

lemma verifyMatchFrame_Inr:
  assumes "verifyMatchFrame C frame (Some k) = Inr ()" "k \<noteq> []"
  shows "schema_valid MATCH_FRAME_SCHEMA frame"
    and "\<exists>fs. frame = JObj fs \<and> verifyObject C fs k \<and> jget fs ''from_key'' = Some (JStr k)"
    and "jprop frame ''phase'' = Some (JStr ''key'') \<Longrightarrow>
      \<exists>b t. jprop frame ''binding'' = Some b \<and> t \<noteq> [] \<and> jprop frame ''transport_key'' = Some (JStr t)
        \<and> verifyBinding C b \<and> jprop b ''identity_key'' = Some (JStr k) \<and> jprop b ''transport_key'' = Some (JStr t)"
    and "jprop frame ''phase'' = Some (JStr ''signaling'') \<Longrightarrow>
      \<exists>e. e \<noteq> [] \<and> jprop frame ''enc_signaling'' = Some (JStr e)"
proof -
  show sv: "schema_valid MATCH_FRAME_SCHEMA frame"
    using assms(1) by (auto simp: verifyMatchFrame_def schema_valid_def split: if_splits)
  then obtain fs where f: "frame = JObj fs" using closed_schema_keys unfolding MATCH_FRAME_SCHEMA_def by blast
  have str: "\<exists>s. jget fs x = Some (JStr s)" if "x \<in> {''from_key'', ''match_id''}" for x
    using sv that unfolding f MATCH_FRAME_SCHEMA_def by (intro required_str) (auto simp: object_prototype_def)
  obtain fk where fk: "jget fs ''from_key'' = Some (JStr fk)" using str by blast
  show frm: "\<exists>fs. frame = JObj fs \<and> verifyObject C fs k \<and> jget fs ''from_key'' = Some (JStr k)"
    using assms fk by (auto simp: verifyMatchFrame_def f split: if_splits)
  then have fk': "fk = k" using fk f by simp
  have ts: "jget fs ''transport_key'' = Some (JStr t)" if "jstr (jget fs ''transport_key'') = t" "t \<noteq> []" for t
    using that by (auto simp: jstr_def split: option.splits json.splits)
  have es: "jget fs ''enc_signaling'' = Some (JStr t)" if "jstr (jget fs ''enc_signaling'') = t" "t \<noteq> []" for t
    using that by (auto simp: jstr_def split: option.splits json.splits)
  show "\<exists>b t. jprop frame ''binding'' = Some b \<and> t \<noteq> [] \<and> jprop frame ''transport_key'' = Some (JStr t)
        \<and> verifyBinding C b \<and> jprop b ''identity_key'' = Some (JStr k) \<and> jprop b ''transport_key'' = Some (JStr t)"
    if "jprop frame ''phase'' = Some (JStr ''key'')"
    using assms that fk fk' ts
    by (auto simp: verifyMatchFrame_def f Let_def split: if_splits)
  show "\<exists>e. e \<noteq> [] \<and> jprop frame ''enc_signaling'' = Some (JStr e)"
    if "jprop frame ''phase'' = Some (JStr ''signaling'')"
    using assms that es by (auto simp: verifyMatchFrame_def f split: if_splits)
qed

text \<open>
  What an identity ever signs: its own binding, and records that carry a \<open>type\<close>. (Wire records,
  migrations and acknowledgements all do.)
\<close>

definition signs_only :: "crypto \<Rightarrow> device_identity \<Rightarrow> fields set \<Rightarrow> bool" where
  "signs_only C i R = (ed_only_signed C (signingPub i)
      (insert (canonicalBytes (binding_body (identityKeyB64 i) (transportKeyB64 i) (jstr (jprop (di_binding i) ''created_utc''))))
        ((\<lambda>fs. canonicalBytes (JObj fs)) ` R))
     \<and> (\<forall>fs\<in>R. wf_json (JObj fs) \<and> jhas fs ''type''))"

lemma binding_body_no_type:
  assumes "norm_json (binding_body a b c) = norm_json (JObj fs)" "wf_json (JObj fs)"
  shows "\<not> jhas fs ''type''"
proof -
  let ?f = "[(''identity_key'', JStr a), (''transport_key'', JStr b), (''created_utc'', JStr c)]"
  have "map_option norm_json (jget ?f ''type'') = map_option norm_json (jget fs ''type'')"
    using assms by (intro norm_json_get) (simp_all only: binding_body_def, simp_all)
  then show ?thesis by (simp add: jhas_def)
qed

lemma binding_body_inj:
  assumes "norm_json (binding_body a b c) = norm_json (binding_body a' b' c')"
  shows "b = b'"
proof -
  let ?f = "\<lambda>a b c. [(''identity_key'', JStr a), (''transport_key'', JStr b), (''created_utc'', JStr c)]"
  have "jget (?f a b c) ''transport_key'' = Some (JStr b) \<longleftrightarrow> jget (?f a' b' c') ''transport_key'' = Some (JStr b)"
    using assms by (intro norm_json_get_str) (simp_all add: binding_body_def)
  then show ?thesis by simp
qed

text \<open>
  A binding of an identity's key that verifies names that identity's transport key: nobody else can
  attach a transport key of their own to it.
\<close>

lemma verifyBinding_authentic:
  assumes signs: "signs_only C i R" and v: "verifyBinding C b"
    and ik: "jprop b ''identity_key'' = Some (JStr (identityKeyB64 i))"
    and tk: "jprop b ''transport_key'' = Some (JStr t)" and cr: "jprop b ''created_utc'' = Some (JStr c)"
  shows "t = transportKeyB64 i"
proof -
  let ?own = "binding_body (identityKeyB64 i) (transportKeyB64 i) (jstr (jprop (di_binding i) ''created_utc''))"
  let ?body = "binding_body (identityKeyB64 i) t c"
  obtain sig where "ed_verify C sig (canonicalBytes ?body) (signingPub i) = Some True"
    using v by (auto simp: verifyBinding_def ik tk cr binding_body_def identityKeyB64_def split: option.splits)
  with signs consider "canonicalBytes ?body = canonicalBytes ?own"
    | fs where "fs \<in> R" "canonicalBytes ?body = canonicalBytes (JObj fs)"
    unfolding signs_only_def ed_only_signed_def by blast
  then show ?thesis
  proof cases
    case 1
    moreover have "wf_json ?body" "wf_json ?own" by (simp_all add: binding_body_def)
    ultimately show ?thesis using binding_body_inj canonicalBytes_eq_iff by blast
  next
    case (2 fs)
    then have "wf_json (JObj fs)" "jhas fs ''type''" using signs by (auto simp: signs_only_def)
    moreover have "wf_json ?body" by (simp add: binding_body_def)
    ultimately show ?thesis using 2 binding_body_no_type canonicalBytes_eq_iff by blast
  qed
qed

lemma binding_schema_strings:
  assumes "matches KEY_BINDING_SCHEMA b" "k \<in> {''identity_key'', ''transport_key'', ''created_utc'', ''binding_sig''}"
  shows "\<exists>s. jprop b k = Some (JStr s)"
proof -
  obtain fs where b: "b = JObj fs" using assms(1) unfolding KEY_BINDING_SCHEMA_def matches_object by blast
  with assms show ?thesis
    unfolding KEY_BINDING_SCHEMA_def by (auto simp del: matches_object simp: schema_valid_iff [symmetric] object_prototype_def
        intro!: required_str)
qed

lemma frame_binding_schema:
  assumes "schema_valid MATCH_FRAME_SCHEMA (JObj fs)" "jget fs ''binding'' = Some b"
  shows "matches KEY_BINDING_SCHEMA b"
  using assms unfolding MATCH_FRAME_SCHEMA_def schema_obj_iff by auto

lemma key_frame_authentic:
  assumes "signs_only C i R" "identityKeyB64 i \<noteq> []"
    and v: "verifyMatchFrame C frame (Some (identityKeyB64 i)) = Inr ()"
    and p: "jprop frame ''phase'' = Some (JStr ''key'')"
  shows "jprop frame ''transport_key'' = Some (JStr (transportKeyB64 i))"
proof -
  obtain b t where b: "jprop frame ''binding'' = Some b" "jprop frame ''transport_key'' = Some (JStr t)"
      "verifyBinding C b" "jprop b ''identity_key'' = Some (JStr (identityKeyB64 i))"
      "jprop b ''transport_key'' = Some (JStr t)"
    using verifyMatchFrame_Inr(3) [OF v assms(2) p] by blast
  obtain fs where f: "frame = JObj fs" using verifyMatchFrame_Inr(2) [OF v assms(2)] by blast
  have "matches KEY_BINDING_SCHEMA b"
    using verifyMatchFrame_Inr(1) [OF v assms(2)] b(1) unfolding f by (auto intro: frame_binding_schema)
  then obtain c where "jprop b ''created_utc'' = Some (JStr c)" using binding_schema_strings by blast
  with assms(1) b show ?thesis using verifyBinding_authentic by blast
qed

end
