(* ===== verification/Session.thy ===== *)
theory Session
  imports SealedBox Ice Wire
begin

text \<open>
  \<open>orp-ref/core/protocol.ts\<close> and \<open>orp-ref/client/client.ts\<close>: the messages between client and board,
  the two-stage match of one session and the client that dispatches the board's messages. A handler
  runs to completion; what it sends, applies and reports is appended to traces. The WebRTC endpoint is
  third-party code: the description it would create comes with each call (\<open>None\<close>: it throws). The
  theorems: a session holds no other transport key than the one its counterparty signed for; what it
  sends passed the ICE gate; it sends at most one offer; two honest sessions connect.
\<close>

subsection \<open>The envelope\<close>

datatype frame_kind = FKey | FOffer | FAnswer

datatype role = Initiator | Responder

datatype inbound =
    InPresence fields
  | InIntent fields
  | InRelay string frame_kind string

datatype outbound =
    OutAck string
  | OutRejected string string
  | OutEvicted string
  | OutMatch string role string
  | OutRelay string frame_kind string
  | OutChannelClosed string string

definition encodeFrame :: "fields \<Rightarrow> string" where
  "encodeFrame frame = b64uEncode (utf8 (json_str (JObj frame)))"

definition decodeFrame :: "string \<Rightarrow> json option" where
  "decodeFrame blob = json_parse (fromUtf8 (b64uDecode blob))"

lemma decode_encode [simp]: "wf_json (JObj f) \<Longrightarrow> decodeFrame (encodeFrame f) = Some (JObj f)"
  by (simp add: decodeFrame_def encodeFrame_def del: wf_json.simps)

subsection \<open>The session\<close>

datatype session_state = AwaitPeerKey | AwaitOffer | AwaitAnswer | Connected | Closed

record match_session =
  ms_identity :: device_identity
  ms_role :: role
  ms_matchId :: string
  ms_counterpartyKey :: string
  ms_state :: session_state
  ms_peerTransportPub :: "bytes option"
  ms_remoteSdp :: "json option"
  ms_lastError :: "string option"
  ms_relayed :: "(frame_kind \<times> string) list"
  ms_applied :: "(json option \<times> json option) list"
  ms_connected :: "secure_channel list"
  ms_endpointClosed :: bool

definition MatchSession :: "device_identity \<Rightarrow> role \<Rightarrow> string \<Rightarrow> string \<Rightarrow> match_session" where
  "MatchSession identity role matchId counterpartyKey =
     \<lparr>ms_identity = identity, ms_role = role, ms_matchId = matchId, ms_counterpartyKey = counterpartyKey,
      ms_state = AwaitPeerKey, ms_peerTransportPub = None, ms_remoteSdp = None, ms_lastError = None,
      ms_relayed = [], ms_applied = [], ms_connected = [], ms_endpointClosed = False\<rparr>"

text \<open>What a handler draws from outside: randomness, the time and the endpoint's description.\<close>

record session_env =
  se_nonce :: bytes
  se_eph :: bytes
  se_now :: string
  se_local :: "(string \<times> string list) option"

definition ms_relay :: "frame_kind \<Rightarrow> fields \<Rightarrow> match_session \<Rightarrow> match_session" where
  "ms_relay k f s = s\<lparr>ms_relayed := ms_relayed s @ [(k, encodeFrame f)]\<rparr>"

definition ms_fail :: "string \<Rightarrow> match_session \<Rightarrow> match_session" where
  "ms_fail e s = s\<lparr>ms_lastError := Some e\<rparr>"

definition start :: "crypto \<Rightarrow> session_env \<Rightarrow> match_session \<Rightarrow> match_session" where
  "start C e s =
     (let ty = (if ms_role s = Initiator then match_offer else match_answer);
          keyFrame = makeKeyFrame C (ms_identity s) ty (ms_matchId s) None (se_nonce e) (se_now e);
          s' = ms_relay FKey keyFrame s
      in s'\<lparr>ms_state := (if ms_role s = Initiator then AwaitPeerKey else AwaitOffer)\<rparr>)"

text \<open>
  \<open>sealSignaling\<close>: filter, gate, seal. A throw is the error text on the left.
\<close>

definition signaling_payload :: "string \<Rightarrow> string list \<Rightarrow> json" where
  "signaling_payload sdp cands = JObj [(''sdp'', JStr sdp), (''candidates'', JArr (map JStr cands))]"

definition sealSignaling ::
  "crypto \<Rightarrow> bytes \<Rightarrow> bytes \<Rightarrow> string \<Rightarrow> string list \<Rightarrow> string + string" where
  "sealSignaling C eph peerPub sdp candidates =
     (let filtered = filterCandidates candidates; (sdp', _) = filterSdp sdp
      in case assertNoUnobfuscatedHost (Inl (fr_kept filtered)) of
           Inl err \<Rightarrow> Inl err
         | Inr _ \<Rightarrow>
             (case assertNoUnobfuscatedHost (Inr sdp') of
                Inl err \<Rightarrow> Inl err
              | Inr _ \<Rightarrow>
                  (case seal C eph (utf8 (json_str (signaling_payload sdp' (fr_kept filtered)))) peerPub of
                     None \<Rightarrow> Inl ''seal''
                   | Some box \<Rightarrow> Inr (b64uEncode box))))"

definition session_error :: "string \<Rightarrow> match_session \<Rightarrow> match_session" where
  \<comment> \<open>the client's backstop for a rejected handler\<close>
  "session_error e s = ms_fail (''session-error:'' @ e) s"

text \<open>\<open>sendOffer\<close> and \<open>sendAnswer\<close>; the flag tells whether the handler goes on.\<close>

definition send_signaling ::
  "crypto \<Rightarrow> session_env \<Rightarrow> frame_type \<Rightarrow> frame_kind \<Rightarrow> match_session \<Rightarrow> match_session \<times> bool" where
  "send_signaling C e ty kind s =
     (case se_local e of
        None \<Rightarrow> (session_error ''createLocalDescription'' s, False)
      | Some (sdp, cands) \<Rightarrow>
          (case sealSignaling C (se_eph e) (the (ms_peerTransportPub s)) sdp cands of
             Inl err \<Rightarrow> (session_error err s, False)
           | Inr enc \<Rightarrow>
               (ms_relay kind (makeSignalingFrame C (ms_identity s) ty (ms_matchId s) enc None (se_nonce e) (se_now e)) s,
                True)))"

definition sendOffer :: "crypto \<Rightarrow> session_env \<Rightarrow> match_session \<Rightarrow> match_session" where
  "sendOffer C e s =
     (let (s', ok) = send_signaling C e match_offer FOffer s
      in if ok then s'\<lparr>ms_state := AwaitAnswer\<rparr> else s')"

definition sendAnswer :: "crypto \<Rightarrow> session_env \<Rightarrow> match_session \<Rightarrow> match_session \<times> bool" where
  "sendAnswer C e s = send_signaling C e match_answer FAnswer s"

definition finishConnect :: "crypto \<Rightarrow> match_session \<Rightarrow> match_session" where
  "finishConnect C s =
     (if ms_state s = Connected \<or> ms_state s = Closed then s
      else (case SecureChannel C (di_transportPriv (ms_identity s)) (transportPub (ms_identity s))
                   (the (ms_peerTransportPub s)) of
          None \<Rightarrow> session_error ''SecureChannel'' s
        | Some ch \<Rightarrow> s\<lparr>ms_state := Connected, ms_connected := ms_connected s @ [ch]\<rparr>))"

definition on_key :: "crypto \<Rightarrow> session_env \<Rightarrow> json \<Rightarrow> match_session \<Rightarrow> match_session" where
  "on_key C e frame s =
     (if ms_peerTransportPub s \<noteq> None then s
      else if \<not> verifyBinding C (the (jprop frame ''binding'')) then ms_fail ''bad-binding'' s
      else
        (let s' = s\<lparr>ms_peerTransportPub := Some (b64uDecode (jstr (jprop frame ''transport_key'')))\<rparr>
         in if ms_role s = Initiator then sendOffer C e s' else s'))"

definition open_payload :: "crypto \<Rightarrow> device_identity \<Rightarrow> json \<Rightarrow> json option" where
  "open_payload C identity frame =
     (case unseal C (b64uDecode (jstr (jprop frame ''enc_signaling''))) (di_transportPriv identity) (transportPub identity) of
        None \<Rightarrow> None
      | Some pt \<Rightarrow> json_parse (fromUtf8 pt))"

definition on_signaling :: "crypto \<Rightarrow> session_env \<Rightarrow> json \<Rightarrow> match_session \<Rightarrow> match_session" where
  "on_signaling C e frame s =
     (if ms_peerTransportPub s = None then ms_fail ''signaling-before-key'' s
      else
        (case open_payload C (ms_identity s) frame of
           None \<Rightarrow> ms_fail ''unseal-failed'' s
         | Some payload \<Rightarrow>
             if payload = JNull then session_error ''payload'' s
             else (let sdp = jprop payload ''sdp'';
                  apply = (\<lambda>s. s\<lparr>ms_applied := ms_applied s @ [(sdp, jprop payload ''candidates'')]\<rparr>)
              in if ms_role s = Responder then
                   (let (s', ok) = sendAnswer C e (apply (s\<lparr>ms_remoteSdp := sdp\<rparr>))
                    in if ok then finishConnect C s' else s')
                 else finishConnect C (apply s))))"

definition onRelay :: "crypto \<Rightarrow> session_env \<Rightarrow> string \<Rightarrow> match_session \<Rightarrow> match_session" where
  "onRelay C e blob s =
     (case decodeFrame blob of
        None \<Rightarrow> ms_fail ''undecodable-frame'' s
      | Some frame \<Rightarrow>
          if frame = JNull then session_error ''frame'' s
          else if jprop frame ''match_id'' \<noteq> Some (JStr (ms_matchId s)) then ms_fail ''wrong-match-id'' s
          else (case verifyMatchFrame C frame (Some (ms_counterpartyKey s)) of
              Inl reason \<Rightarrow> ms_fail (''frame-rejected:'' @ reason) s
            | Inr _ \<Rightarrow>
                if jprop frame ''phase'' = Some (JStr ''key'') then on_key C e frame s
                else on_signaling C e frame s))"

definition onChannelClosed :: "match_session \<Rightarrow> match_session" where
  "onChannelClosed s = s"

definition ms_close :: "match_session \<Rightarrow> match_session" where
  "ms_close s = s\<lparr>ms_state := Closed, ms_endpointClosed := True\<rparr>"

subsection \<open>The client\<close>

record client =
  cl_identity :: device_identity
  cl_boards_scope :: "string list option"
  cl_pushToken :: "string option"
  cl_now :: "string option"
  cl_sessions :: "(string, match_session) jmap"
  cl_pendingTargets :: "string list"
  cl_events :: "outbound list"
  cl_sent :: "inbound list"
  cl_connected :: "(string \<times> string \<times> secure_channel) list"
  cl_connClosed :: bool

definition Client :: "device_identity \<Rightarrow> string list option \<Rightarrow> string option \<Rightarrow> string option \<Rightarrow> client" where
  "Client identity scope pushToken now =
     \<lparr>cl_identity = identity, cl_boards_scope = scope, cl_pushToken = pushToken, cl_now = now, cl_sessions = [],
      cl_pendingTargets = [], cl_events = [], cl_sent = [], cl_connected = [], cl_connClosed = False\<rparr>"

definition announcePresence :: "crypto \<Rightarrow> session_env \<Rightarrow> string list option \<Rightarrow> client \<Rightarrow> client" where
  "announcePresence C e scope c =
     (let presence = makePresence C (cl_identity c)
            \<lparr>po_boards_scope = or_default scope (or_default (cl_boards_scope c) [''default'']),
             po_capabilities = None, po_session_nonce = None, po_push_token = cl_pushToken c, po_now = cl_now c\<rparr>
            (se_nonce e) (se_now e)
      in c\<lparr>cl_sent := cl_sent c @ [InPresence presence]\<rparr>)"

definition sendIntent :: "crypto \<Rightarrow> session_env \<Rightarrow> string \<Rightarrow> client \<Rightarrow> client" where
  "sendIntent C e targetKey c =
     (let c' = c\<lparr>cl_pendingTargets := set_add targetKey (cl_pendingTargets c)\<rparr>;
          intent = makeIntent C (cl_identity c) targetKey None (cl_now c) (se_nonce e) (se_now e)
      in c'\<lparr>cl_sent := cl_sent c' @ [InIntent intent]\<rparr>)"

text \<open>
  The session's relays become the client's sends and its connections the client's notices: the part
  of the traces that a handler has added.
\<close>

definition put_session :: "string \<Rightarrow> match_session \<Rightarrow> match_session \<Rightarrow> client \<Rightarrow> client" where
  "put_session mid old new c = c\<lparr>cl_sessions := jset mid new (cl_sessions c),
     cl_sent := cl_sent c @ map (\<lambda>(k, b). InRelay mid k b) (drop (length (ms_relayed old)) (ms_relayed new)),
     cl_connected := cl_connected c @
       map (\<lambda>ch. (mid, ms_counterpartyKey new, ch)) (drop (length (ms_connected old)) (ms_connected new))\<rparr>"

definition onBoardMessage :: "crypto \<Rightarrow> session_env \<Rightarrow> outbound \<Rightarrow> client \<Rightarrow> client" where
  "onBoardMessage C e msg c0 =
     (let c = c0\<lparr>cl_events := cl_events c0 @ [msg]\<rparr>
      in case msg of
           OutMatch mid role key \<Rightarrow>
             if role = Initiator \<and> key \<notin> set (cl_pendingTargets c) then
               c\<lparr>cl_events := cl_events c @ [OutRejected ''relay'' ''unsolicited-match'']\<rparr>
             else
               (let s = MatchSession (cl_identity c) role mid key
                in put_session mid s (start C e s) c)
         | OutRelay mid _ blob \<Rightarrow>
             (case jget (cl_sessions c) mid of
                None \<Rightarrow> c
              | Some s \<Rightarrow> put_session mid s (onRelay C e blob s) c)
         | OutChannelClosed mid _ \<Rightarrow>
             (case jget (cl_sessions c) mid of
                None \<Rightarrow> c
              | Some s \<Rightarrow> put_session mid s (onChannelClosed s) c)
         | _ \<Rightarrow> c)"

definition cl_close :: "client \<Rightarrow> client" where
  "cl_close c = c\<lparr>cl_sessions := map (\<lambda>(k, s). (k, ms_close s)) (cl_sessions c), cl_connClosed := True\<rparr>"

subsection \<open>A session as a step system\<close>

inductive ms_step :: "crypto \<Rightarrow> match_session \<Rightarrow> match_session \<Rightarrow> bool" for C where
  Start: "ms_step C s (start C e s)"
| Relay: "ms_step C s (onRelay C e blob s)"
| ChannelClosed: "ms_step C s (onChannelClosed s)"
| Close: "ms_step C s (ms_close s)"

text \<open>The transport key a session holds is one that its counterparty's binding certifies.\<close>

definition certified :: "crypto \<Rightarrow> string \<Rightarrow> bytes \<Rightarrow> bool" where
  "certified C key p = (\<exists>b t. verifyBinding C b \<and> matches KEY_BINDING_SCHEMA b
     \<and> jprop b ''identity_key'' = Some (JStr key) \<and> jprop b ''transport_key'' = Some (JStr t) \<and> p = b64uDecode t)"

text \<open>A signaling frame whose sealed payload passed the gate.\<close>

definition gated :: "crypto \<Rightarrow> bytes \<Rightarrow> string \<Rightarrow> bool" where
  "gated C peer blob = (\<exists>i ty mid eph sdp cands box nonce now.
     blob = encodeFrame (makeSignalingFrame C i ty mid (b64uEncode box) None nonce now)
     \<and> seal C eph (utf8 (json_str (signaling_payload sdp cands))) peer = Some box
     \<and> assertNoUnobfuscatedHost (Inl cands) = Inr () \<and> assertNoUnobfuscatedHost (Inr sdp) = Inr ())"

definition offers :: "match_session \<Rightarrow> nat" where
  "offers s = length (filter (\<lambda>(k, _). k = FOffer) (ms_relayed s))"

definition ms_inv :: "crypto \<Rightarrow> match_session \<Rightarrow> bool" where
  "ms_inv C s = (
     (\<forall>p. ms_peerTransportPub s = Some p \<longrightarrow> certified C (ms_counterpartyKey s) p)
     \<and> (\<forall>(k, blob)\<in>set (ms_relayed s). k \<noteq> FKey \<longrightarrow> (\<exists>p. ms_peerTransportPub s = Some p \<and> gated C p blob))
     \<and> offers s \<le> 1 \<and> (offers s = 1 \<longrightarrow> ms_peerTransportPub s \<noteq> None)
     \<and> (\<forall>ch\<in>set (ms_connected s). \<exists>p. ms_peerTransportPub s = Some p \<and>
          SecureChannel C (di_transportPriv (ms_identity s)) (transportPub (ms_identity s)) p = Some ch))"

lemma ms_inv_init: "ms_inv C (MatchSession i r m k)"
  by (simp add: ms_inv_def MatchSession_def offers_def)

lemma ms_inv_fail [simp]: "ms_inv C (ms_fail e s) = ms_inv C s" "ms_inv C (session_error e s) = ms_inv C s"
  by (simp_all add: ms_inv_def ms_fail_def session_error_def offers_def)

lemma sealSignaling_gated:
  assumes "sealSignaling C eph peer sdp cands = Inr enc"
  shows "gated C peer (encodeFrame (makeSignalingFrame C i ty mid enc None nonce now))"
proof -
  obtain sdp' r where f: "filterSdp sdp = (sdp', r)" by (cases "filterSdp sdp")
  let ?kept = "fr_kept (filterCandidates cands)"
  obtain box where "seal C eph (utf8 (json_str (signaling_payload sdp' ?kept))) peer = Some box" "enc = b64uEncode box"
    and "assertNoUnobfuscatedHost (Inl ?kept) = Inr ()" "assertNoUnobfuscatedHost (Inr sdp') = Inr ()"
    using assms by (auto simp: sealSignaling_def f Let_def split: sum.splits option.splits)
  then show ?thesis unfolding gated_def by blast
qed

lemma send_signaling_cases:
  assumes "send_signaling C e ty kind s = (s', ok)" "ms_peerTransportPub s = Some p"
  shows "\<not> ok \<and> (\<exists>err. s' = session_error err s)
    \<or> ok \<and> (\<exists>blob. s' = s\<lparr>ms_relayed := ms_relayed s @ [(kind, blob)]\<rparr> \<and> gated C p blob)"
proof (cases "se_local e")
  case None
  with assms show ?thesis by (auto simp: send_signaling_def)
next
  case (Some l)
  obtain sdp cands where l: "l = (sdp, cands)" by (cases l)
  show ?thesis
  proof (cases "sealSignaling C (se_eph e) p sdp cands")
    case (Inl err)
    with Some l assms show ?thesis by (auto simp: send_signaling_def)
  next
    case (Inr enc)
    with Some l assms sealSignaling_gated [OF Inr] show ?thesis by (auto simp: send_signaling_def ms_relay_def)
  qed
qed

lemma ms_inv_relayed:
  assumes "ms_inv C s" "ms_peerTransportPub s = Some p" "gated C p blob" "kind = FOffer \<longrightarrow> offers s = 0"
  shows "ms_inv C (s\<lparr>ms_relayed := ms_relayed s @ [(kind, blob)]\<rparr>)"
  using assms by (auto simp: ms_inv_def offers_def)

lemma ms_inv_finish:
  assumes "ms_inv C s" "ms_peerTransportPub s \<noteq> None"
  shows "ms_inv C (finishConnect C s)"
proof (cases "ms_state s = Connected \<or> ms_state s = Closed")
  case True
  with assms show ?thesis by (simp add: finishConnect_def)
next
  case False
  with assms show ?thesis
    by (auto simp: finishConnect_def ms_inv_def offers_def session_error_def ms_fail_def split: option.splits)
qed

lemma ms_inv_on_key:
  assumes inv: "ms_inv C s" and v: "verifyMatchFrame C frame (Some (ms_counterpartyKey s)) = Inr ()"
    and ne: "ms_counterpartyKey s \<noteq> []" and ph: "jprop frame ''phase'' = Some (JStr ''key'')"
  shows "ms_inv C (on_key C e frame s)"
proof (cases "ms_peerTransportPub s = None \<and> verifyBinding C (the (jprop frame ''binding''))")
  case False
  with inv show ?thesis by (auto simp: on_key_def)
next
  case True
  obtain b t where b: "jprop frame ''binding'' = Some b" "jprop frame ''transport_key'' = Some (JStr t)"
      "verifyBinding C b" "jprop b ''identity_key'' = Some (JStr (ms_counterpartyKey s))"
      "jprop b ''transport_key'' = Some (JStr t)"
    using verifyMatchFrame_Inr(3) [OF v ne ph] by blast
  obtain fs where f: "frame = JObj fs" using verifyMatchFrame_Inr(2) [OF v ne] by blast
  have "matches KEY_BINDING_SCHEMA b"
    using verifyMatchFrame_Inr(1) [OF v ne] b(1) unfolding f by (auto intro: frame_binding_schema)
  with b have cert: "certified C (ms_counterpartyKey s) (b64uDecode t)" unfolding certified_def by blast
  let ?s = "s\<lparr>ms_peerTransportPub := Some (b64uDecode t)\<rparr>"
  have none: "offers s = 0" "\<forall>(k, _)\<in>set (ms_relayed s). k = FKey" "ms_connected s = []"
    using inv True by (auto simp: ms_inv_def split: prod.splits)
  have inv': "ms_inv C ?s" using none cert unfolding ms_inv_def by (auto simp: offers_def)
  have eq: "on_key C e frame s = (if ms_role s = Initiator then sendOffer C e ?s else ?s)"
    using True b by (simp add: on_key_def)
  obtain s' ok where r: "send_signaling C e match_offer FOffer ?s = (s', ok)"
    by (cases "send_signaling C e match_offer FOffer ?s")
  have d: "\<not> ok \<and> (\<exists>err. s' = session_error err ?s)
      \<or> ok \<and> (\<exists>blob. s' = ?s\<lparr>ms_relayed := ms_relayed s @ [(FOffer, blob)]\<rparr> \<and> gated C (b64uDecode t) blob)"
    using send_signaling_cases [OF r, of "b64uDecode t"] by simp
  have "ms_inv C (sendOffer C e ?s)"
    using d
  proof (elim disjE exE conjE)
    fix err assume "\<not> ok" "s' = session_error err ?s"
    with inv' r show ?thesis by (simp add: sendOffer_def)
  next
    fix blob assume ok: "ok" "s' = ?s\<lparr>ms_relayed := ms_relayed s @ [(FOffer, blob)]\<rparr>" "gated C (b64uDecode t) blob"
    have "ms_inv C s'" using ms_inv_relayed [OF inv', of "b64uDecode t" blob FOffer] ok none by (simp add: offers_def)
    with r ok show ?thesis by (simp add: sendOffer_def ms_inv_def offers_def)
  qed
  with inv' show ?thesis by (simp add: eq)
qed

lemma ms_inv_on_signaling:
  assumes inv: "ms_inv C s"
  shows "ms_inv C (on_signaling C e frame s)"
proof (cases "ms_peerTransportPub s")
  case None
  with inv show ?thesis by (simp add: on_signaling_def)
next
  case (Some p)
  show ?thesis
  proof (cases "open_payload C (ms_identity s) frame")
    case None
    with inv Some show ?thesis by (simp add: on_signaling_def)
  next
    case pl: (Some payload)
    show ?thesis
    proof (cases "payload = JNull")
      case True
      with inv Some pl show ?thesis by (simp add: on_signaling_def)
    next
      case False
      let ?sdp = "jprop payload ''sdp''"
      let ?app = "\<lambda>s. s\<lparr>ms_applied := ms_applied s @ [(?sdp, jprop payload ''candidates'')]\<rparr>"
      let ?r = "?app (s\<lparr>ms_remoteSdp := ?sdp\<rparr>)"
      have i1: "ms_inv C ?r" "ms_inv C (?app s)" using inv by (simp_all add: ms_inv_def offers_def)
      obtain s' ok where r: "sendAnswer C e ?r = (s', ok)" by (cases "sendAnswer C e ?r")
      have eq: "on_signaling C e frame s =
          (if ms_role s = Responder then (if ok then finishConnect C s' else s') else finishConnect C (?app s))"
        using Some pl False r by (simp add: on_signaling_def Let_def)
      have d: "\<not> ok \<and> (\<exists>err. s' = session_error err ?r)
          \<or> ok \<and> (\<exists>blob. s' = ?r\<lparr>ms_relayed := ms_relayed s @ [(FAnswer, blob)]\<rparr> \<and> gated C p blob)"
        using send_signaling_cases [OF r [unfolded sendAnswer_def], of p] Some by simp
      have "ms_inv C (if ok then finishConnect C s' else s')"
        using d
      proof (elim disjE exE conjE)
        fix err assume "\<not> ok" "s' = session_error err ?r"
        with i1 show ?thesis by simp
      next
        fix blob assume ok: "ok" "s' = ?r\<lparr>ms_relayed := ms_relayed s @ [(FAnswer, blob)]\<rparr>" "gated C p blob"
        have "ms_inv C s'" using ms_inv_relayed [OF i1(1), of p blob FAnswer] ok Some by simp
        with ok Some show ?thesis by (simp add: ms_inv_finish)
      qed
      moreover have "ms_inv C (finishConnect C (?app s))" using i1 Some by (simp add: ms_inv_finish)
      ultimately show ?thesis by (simp add: eq)
    qed
  qed
qed

lemma session_fixed [simp]:
  "ms_counterpartyKey (onRelay C e blob s) = ms_counterpartyKey s" "ms_role (onRelay C e blob s) = ms_role s"
  "ms_identity (onRelay C e blob s) = ms_identity s" "ms_matchId (onRelay C e blob s) = ms_matchId s"
proof -
  let ?same = "\<lambda>s s'. ms_counterpartyKey s' = ms_counterpartyKey s \<and> ms_role s' = ms_role s
    \<and> ms_identity s' = ms_identity s \<and> ms_matchId s' = ms_matchId s"
  have snd: "?same s (fst (send_signaling C e ty k s))" for ty k s
    by (auto simp: send_signaling_def session_error_def ms_fail_def ms_relay_def split: option.splits sum.splits)
  have fin: "?same s (finishConnect C s)" for s
    by (auto simp: finishConnect_def session_error_def ms_fail_def split: option.splits)
  have key: "?same s (on_key C e f s)" for f
    using snd [of match_offer FOffer "s\<lparr>ms_peerTransportPub := Some (b64uDecode (jstr (jprop f ''transport_key'')))\<rparr>"]
    by (auto simp: on_key_def sendOffer_def ms_fail_def Let_def split: prod.splits)
  have sig: "?same s (on_signaling C e f s)" for f
  proof -
    have "?same s (case sendAnswer C e t of (s', ok) \<Rightarrow> if ok then finishConnect C s' else s')" if "?same s t" for t
      using snd [of match_answer FAnswer t] fin [of "fst (sendAnswer C e t)"] that
      by (cases "send_signaling C e match_answer FAnswer t") (simp add: sendAnswer_def)
    note this [of "s\<lparr>ms_remoteSdp := x, ms_applied := y\<rparr>" for x y]
    with fin [of "s\<lparr>ms_applied := y\<rparr>" for y] show ?thesis
      by (auto simp: on_signaling_def session_error_def ms_fail_def Let_def split: option.splits)
  qed
  have "?same s (onRelay C e blob s)"
    using key sig by (auto simp: onRelay_def session_error_def ms_fail_def split: option.splits sum.splits)
  then show "ms_counterpartyKey (onRelay C e blob s) = ms_counterpartyKey s" "ms_role (onRelay C e blob s) = ms_role s"
    "ms_identity (onRelay C e blob s) = ms_identity s" "ms_matchId (onRelay C e blob s) = ms_matchId s" by simp_all
qed

lemma ms_inv_onRelay:
  assumes "ms_inv C s" "ms_counterpartyKey s \<noteq> []"
  shows "ms_inv C (onRelay C e blob s)"
proof (cases "decodeFrame blob")
  case None
  with assms show ?thesis by (simp add: onRelay_def)
next
  case (Some frame)
  show ?thesis
  proof (cases "frame = JNull")
    case True
    with Some assms show ?thesis by (simp add: onRelay_def)
  next
    case False
    then have eq: "onRelay C e blob s =
       (if jprop frame ''match_id'' \<noteq> Some (JStr (ms_matchId s)) then ms_fail ''wrong-match-id'' s
          else (case verifyMatchFrame C frame (Some (ms_counterpartyKey s)) of
              Inl reason \<Rightarrow> ms_fail (''frame-rejected:'' @ reason) s
            | Inr _ \<Rightarrow>
                if jprop frame ''phase'' = Some (JStr ''key'') then on_key C e frame s
                else on_signaling C e frame s))"
      using Some False by (simp add: onRelay_def)
    show ?thesis unfolding eq using assms ms_inv_on_key [OF assms(1) _ assms(2)] ms_inv_on_signaling [OF assms(1)]
      by (auto split: sum.splits)
  qed
qed

lemma ms_inv_start: "ms_inv C s \<Longrightarrow> ms_inv C (start C e s)"
  by (auto simp: start_def ms_relay_def ms_inv_def offers_def Let_def)

lemma ms_inv_step:
  "ms_step C s s' \<Longrightarrow> ms_inv C s \<and> ms_counterpartyKey s = k \<and> k \<noteq> []
    \<Longrightarrow> ms_inv C s' \<and> ms_counterpartyKey s' = k"
proof (induction rule: ms_step.induct)
  case (Start s e)
  then show ?case by (simp add: ms_inv_start) (simp add: start_def ms_relay_def Let_def)
next
  case (Close s)
  then show ?case by (auto simp: ms_close_def ms_inv_def offers_def)
qed (auto simp: ms_inv_onRelay onChannelClosed_def)

lemma ms_inv_reachable:
  assumes "(ms_step C)\<^sup>*\<^sup>* (MatchSession i r m k) s" "k \<noteq> []"
  shows "ms_inv C s \<and> ms_counterpartyKey s = k"
  using assms(1)
proof (induction rule: rtranclp_induct)
  case base
  show ?case by (simp add: ms_inv_init) (simp add: MatchSession_def)
next
  case (step s s')
  with ms_inv_step assms(2) show ?case by blast
qed

lemma certified_authentic:
  assumes "signs_only C i R" "certified C (identityKeyB64 i) p" "identity_ok C i"
  shows "p = transportPub i"
proof -
  obtain b t where b: "verifyBinding C b" "matches KEY_BINDING_SCHEMA b"
    "jprop b ''identity_key'' = Some (JStr (identityKeyB64 i))" "jprop b ''transport_key'' = Some (JStr t)" "p = b64uDecode t"
    using assms(2) unfolding certified_def by blast
  obtain c where "jprop b ''created_utc'' = Some (JStr c)" using binding_schema_strings [OF b(2)] by blast
  with b assms(1) have "t = transportKeyB64 i" using verifyBinding_authentic by blast
  with b(5) show ?thesis by (simp add: transportKeyB64_def)
qed

subsection \<open>Two honest ends connect\<close>

lemma wf_update: "distinct (map fst r) \<Longrightarrow> distinct (map fst (jset k v r))"
  by (rule distinct_update)

lemma wf_signObject: "wf_json (JObj fs) \<Longrightarrow> wf_json (JObj (signObject C i fs))"
proof -
  have "\<forall>(k, v)\<in>set (jset k' (JStr x) fs). wf_json v" if "\<forall>(k, v)\<in>set fs. wf_json v" for k' x
    using that by (induction fs) auto
  then show "wf_json (JObj fs) \<Longrightarrow> wf_json (JObj (signObject C i fs))"
    by (auto simp: signObject_def Let_def wf_update)
qed

lemma wf_frames:
  "identity_ok C i \<Longrightarrow> wf_json (JObj (makeKeyFrame C i ty mid now rnd sys))"
  "wf_json (JObj (makeSignalingFrame C i ty mid enc now rnd sys))"
  unfolding makeKeyFrame_def makeSignalingFrame_def
  by (rule wf_signObject, simp add: wf_binding)+

definition honest :: "crypto \<Rightarrow> device_identity \<Rightarrow> bool" where
  "honest C i = (ed_ok C \<and> ed_nonempty C \<and> dh_ok C \<and> aead_ok C \<and> identity_ok C i)"

lemma relay_key:
  assumes "honest C i" "ms_matchId s = mid" "ms_counterpartyKey s = identityKeyB64 i" "ms_peerTransportPub s = None"
  shows "onRelay C e (encodeFrame (makeKeyFrame C i ty mid None n now)) s =
    (let s' = s\<lparr>ms_peerTransportPub := Some (transportPub i)\<rparr>
     in if ms_role s = Initiator then sendOffer C e s' else s')"
proof -
  have h: "ed_ok C" "ed_nonempty C" "dh_ok C" "identity_ok C i" using assms(1) by (auto simp: honest_def)
  show ?thesis
    using assms(2-) key_frame_built [OF h] verifyBinding_identity [OF h(1,4)]
    by (simp add: onRelay_def wf_frames(1) [OF h(4)] on_key_def transportKeyB64_def Let_def del: wf_json.simps)
qed

lemma wf_payload: "wf_json (signaling_payload sdp cands)"
  by (auto simp: signaling_payload_def)

lemma relay_signaling:
  assumes "honest C i" "honest C me" "ms_matchId s = mid" "ms_counterpartyKey s = identityKeyB64 i"
    and "ms_identity s = me" "ms_peerTransportPub s = Some p"
    and box: "seal C eph (utf8 (json_str (signaling_payload sdp cands))) (transportPub me) = Some box" "b64uEncode box \<noteq> []"
  shows "onRelay C e (encodeFrame (makeSignalingFrame C i ty mid (b64uEncode box) None n now)) s =
    (let app = (\<lambda>s. s\<lparr>ms_applied := ms_applied s @ [(Some (JStr sdp), Some (JArr (map JStr cands)))]\<rparr>)
     in if ms_role s = Responder then
          (let (s', ok) = sendAnswer C e (app (s\<lparr>ms_remoteSdp := Some (JStr sdp)\<rparr>)) in if ok then finishConnect C s' else s')
        else finishConnect C (app s))"
proof -
  have h: "ed_ok C" "ed_nonempty C" "dh_ok C" "aead_ok C" "identity_ok C i" "identity_ok C me"
    using assms(1,2) by (auto simp: honest_def)
  have tp: "transportPub me = x_pub C (di_transportPriv me)" using identity_ok_keys [OF h(6)] by simp
  have un: "open_payload C me (JObj (makeSignalingFrame C i ty mid (b64uEncode box) None n now)) =
      Some (signaling_payload sdp cands)"
    using unseal_seal [OF h(3,4) box(1) [unfolded tp]] wf_payload by (simp add: open_payload_def tp)
  have props: "jprop (signaling_payload sdp cands) ''sdp'' = Some (JStr sdp)"
      "jprop (signaling_payload sdp cands) ''candidates'' = Some (JArr (map JStr cands))"
      "signaling_payload sdp cands \<noteq> JNull"
    by (simp_all add: signaling_payload_def)
  show ?thesis
    using assms(3-6) signaling_frame_built [OF h(1,2,5) box(2)] wf_frames(2) un props
    by (simp add: onRelay_def on_signaling_def Let_def del: wf_json.simps)
qed

text \<open>An endpoint whose description gets through the filter and the gate.\<close>

definition sendable :: "session_env \<Rightarrow> bool" where
  "sendable e = (case se_local e of None \<Rightarrow> False | Some (sdp, cands) \<Rightarrow>
     (\<forall>l\<in>set cands. std_line l) \<and> assertNoUnobfuscatedHost (Inr (fst (filterSdp sdp))) = Inr ())"

lemma send_signaling_ok:
  assumes "dh_ok C" "sendable e" "ms_peerTransportPub s = Some (x_pub C priv)"
  shows "\<exists>sdp cands box. send_signaling C e ty kind s =
      (ms_relay kind (makeSignalingFrame C (ms_identity s) ty (ms_matchId s) (b64uEncode box) None (se_nonce e) (se_now e)) s, True)
    \<and> seal C (se_eph e) (utf8 (json_str (signaling_payload sdp cands))) (x_pub C priv) = Some box \<and> b64uEncode box \<noteq> []"
proof -
  obtain sdp cands where l: "se_local e = Some (sdp, cands)" "\<forall>l\<in>set cands. std_line l"
    and g: "assertNoUnobfuscatedHost (Inr (fst (filterSdp sdp))) = Inr ()"
    using assms(2) by (auto simp: sendable_def split: option.splits)
  obtain sdp' r where f: "filterSdp sdp = (sdp', r)" by (cases "filterSdp sdp")
  let ?kept = "fr_kept (filterCandidates cands)"
  obtain box where box: "seal C (se_eph e) (utf8 (json_str (signaling_payload sdp' ?kept))) (x_pub C priv) = Some box"
    using seal_total [OF assms(1)] by blast
  have "32 \<le> length box"
    using box assms(1) by (auto simp: seal_def Let_def concatBytes_def dh_ok_def split: option.splits prod.splits)
  then have ne: "b64uEncode box \<noteq> []" by (intro b64uEncode_nonempty) auto
  have "sealSignaling C (se_eph e) (x_pub C priv) sdp cands = Inr (b64uEncode box)"
    using filtered_passes_gate [OF l(2)] g f box by (simp add: sealSignaling_def Let_def)
  with l assms(3) have "send_signaling C e ty kind s =
      (ms_relay kind (makeSignalingFrame C (ms_identity s) ty (ms_matchId s) (b64uEncode box) None (se_nonce e) (se_now e)) s, True)"
    by (simp add: send_signaling_def)
  with box ne show ?thesis by blast
qed

definition last_blob :: "match_session \<Rightarrow> string" where
  "last_blob s = snd (last (ms_relayed s))"

lemma handshake_connects:
  assumes ha: "honest C a" and hb: "honest C b" and ne: "transportPub a \<noteq> transportPub b"
    and send: "sendable ea1" "sendable eb2"
    and sa0: "sa0 = start C ea0 (MatchSession a Initiator mid (identityKeyB64 b))"
    and sb0: "sb0 = start C eb0 (MatchSession b Responder mid (identityKeyB64 a))"
    and sa1: "sa1 = onRelay C ea1 (last_blob sb0) sa0" and sb1: "sb1 = onRelay C eb1 (last_blob sa0) sb0"
    and sb2: "sb2 = onRelay C eb2 (last_blob sa1) sb1" and sa2: "sa2 = onRelay C ea2 (last_blob sb2) sa1"
  shows "ms_state sa2 = Connected \<and> ms_state sb2 = Connected \<and>
    (\<exists>cha chb. ms_connected sa2 = [cha] \<and> ms_connected sb2 = [chb] \<and>
      (\<forall>nonce t. length nonce = 24 \<longrightarrow> sc_receive C chb (sc_send C nonce cha t) = Some t
        \<and> sc_receive C cha (sc_send C nonce chb t) = Some t))"
proof -
  have cr: "dh_ok C" "aead_ok C" "identity_ok C a" "identity_ok C b" using ha hb by (auto simp: honest_def)
  note ka = identity_ok_keys [OF cr(3), THEN conjunct2] and kb = identity_ok_keys [OF cr(4), THEN conjunct2]
  have a0: "sa0 = (MatchSession a Initiator mid (identityKeyB64 b))\<lparr>ms_relayed :=
      [(FKey, encodeFrame (makeKeyFrame C a match_offer mid None (se_nonce ea0) (se_now ea0)))]\<rparr>"
    unfolding sa0 by (simp add: start_def MatchSession_def ms_relay_def)
  have b0: "sb0 = (MatchSession b Responder mid (identityKeyB64 a))\<lparr>ms_state := AwaitOffer, ms_relayed :=
      [(FKey, encodeFrame (makeKeyFrame C b match_answer mid None (se_nonce eb0) (se_now eb0)))]\<rparr>"
    unfolding sb0 by (simp add: start_def MatchSession_def ms_relay_def)
  have b1: "sb1 = sb0\<lparr>ms_peerTransportPub := Some (transportPub a)\<rparr>"
    unfolding sb1 by (simp add: a0 last_blob_def, subst relay_key [OF ha]) (simp_all add: b0 MatchSession_def)
  let ?ta = "sa0\<lparr>ms_peerTransportPub := Some (transportPub b)\<rparr>"
  have "sa1 = sendOffer C ea1 ?ta"
    unfolding sa1 by (simp add: b0 last_blob_def, subst relay_key [OF hb]) (simp_all add: a0 MatchSession_def)
  moreover obtain sdp cands box where
    off: "send_signaling C ea1 match_offer FOffer ?ta =
      (ms_relay FOffer (makeSignalingFrame C a match_offer mid (b64uEncode box) None (se_nonce ea1) (se_now ea1)) ?ta, True)"
      "seal C (se_eph ea1) (utf8 (json_str (signaling_payload sdp cands))) (transportPub b) = Some box" "b64uEncode box \<noteq> []"
    using send_signaling_ok [OF cr(1) send(1), of ?ta "di_transportPriv b" match_offer FOffer]
    by (auto simp: kb a0 MatchSession_def)
  ultimately have a1: "sa1 = (ms_relay FOffer
      (makeSignalingFrame C a match_offer mid (b64uEncode box) None (se_nonce ea1) (se_now ea1)) ?ta)\<lparr>ms_state := AwaitAnswer\<rparr>"
    by (simp add: sendOffer_def)
  then have la1: "last_blob sa1 = encodeFrame (makeSignalingFrame C a match_offer mid (b64uEncode box) None (se_nonce ea1) (se_now ea1))"
    by (simp add: last_blob_def ms_relay_def)
  let ?tb = "sb1\<lparr>ms_remoteSdp := Some (JStr sdp), ms_applied := [(Some (JStr sdp), Some (JArr (map JStr cands)))]\<rparr>"
  obtain sdp2 cands2 box2 where
    ans: "send_signaling C eb2 match_answer FAnswer ?tb =
      (ms_relay FAnswer (makeSignalingFrame C b match_answer mid (b64uEncode box2) None (se_nonce eb2) (se_now eb2)) ?tb, True)"
      "seal C (se_eph eb2) (utf8 (json_str (signaling_payload sdp2 cands2))) (transportPub a) = Some box2" "b64uEncode box2 \<noteq> []"
    using send_signaling_ok [OF cr(1) send(2), of ?tb "di_transportPriv a" match_answer FAnswer]
    by (auto simp: ka b1 b0 MatchSession_def)
  let ?tb' = "ms_relay FAnswer (makeSignalingFrame C b match_answer mid (b64uEncode box2) None (se_nonce eb2) (se_now eb2)) ?tb"
  have b2: "sb2 = finishConnect C ?tb'"
    unfolding sb2 la1 using ans(1)
    by (subst relay_signaling [OF ha hb _ _ _ _ off(2,3)])
      (simp_all add: b1 b0 MatchSession_def sendAnswer_def Let_def)
  obtain cha chb where ch: "SecureChannel C (di_transportPriv a) (transportPub a) (transportPub b) = Some cha"
      "SecureChannel C (di_transportPriv b) (transportPub b) (transportPub a) = Some chb"
    using directional_keys_agree [OF cr(1) ne [unfolded ka kb]] by (auto simp: SecureChannel_def ka kb)
  have b2': "sb2 = ?tb'\<lparr>ms_state := Connected, ms_connected := [chb]\<rparr>"
    unfolding b2 using ch(2) by (simp add: finishConnect_def ms_relay_def b1 b0 MatchSession_def)
  then have lb2: "last_blob sb2 = encodeFrame (makeSignalingFrame C b match_answer mid (b64uEncode box2) None (se_nonce eb2) (se_now eb2))"
    by (simp add: last_blob_def ms_relay_def)
  have "sa2 = finishConnect C (sa1\<lparr>ms_applied := [(Some (JStr sdp2), Some (JArr (map JStr cands2)))]\<rparr>)"
    unfolding sa2 lb2
    by (subst relay_signaling [OF hb ha _ _ _ _ ans(2,3)]) (simp_all add: a1 a0 ms_relay_def MatchSession_def)
  then have "ms_state sa2 = Connected" "ms_connected sa2 = [cha]"
    using ch(1) by (simp_all add: finishConnect_def a1 a0 ms_relay_def MatchSession_def)
  moreover have "ms_state sb2 = Connected" "ms_connected sb2 = [chb]" by (simp_all add: b2')
  moreover have "sc_receive C chb (sc_send C nonce cha t) = Some t" if "length nonce = 24" for nonce t
    using secure_channel_delivers [OF cr(1,2) ne [unfolded ka kb] that ch [unfolded ka kb]] .
  moreover have "sc_receive C cha (sc_send C nonce chb t) = Some t" if "length nonce = 24" for nonce t
    using secure_channel_delivers [OF cr(1,2) ne [unfolded ka kb, symmetric] that ch(2,1) [unfolded ka kb]] .
  ultimately show ?thesis by blast
qed

subsection \<open>No redirection\<close>

inductive cl_step :: "crypto \<Rightarrow> client \<Rightarrow> client \<Rightarrow> bool" for C where
  Announce: "cl_step C c (announcePresence C e scope c)"
| Intent: "cl_step C c (sendIntent C e target c)"
| Board: "cl_step C c (onBoardMessage C e msg c)"
| CloseAll: "cl_step C c (cl_close c)"

text \<open>
  A client initiates only towards keys it asked for: every intent it sent names one of them, and so
  does every session in which it is the initiator.
\<close>

definition cl_inv :: "client \<Rightarrow> bool" where
  "cl_inv c = (\<forall>mid s. jget (cl_sessions c) mid = Some s \<longrightarrow>
     ms_role s = Initiator \<longrightarrow> ms_counterpartyKey s \<in> set (cl_pendingTargets c))"

lemma start_fixed [simp]:
  "ms_role (start C e s) = ms_role s" "ms_counterpartyKey (start C e s) = ms_counterpartyKey s"
  by (simp_all add: start_def ms_relay_def Let_def)

lemma cl_inv_put:
  assumes "cl_inv c" "ms_role s' = Initiator \<longrightarrow> ms_counterpartyKey s' \<in> set (cl_pendingTargets c)"
  shows "cl_inv (put_session mid s s' c)"
  using assms by (auto simp: cl_inv_def put_session_def)

lemma cl_inv_step:
  assumes "cl_step C c c'" "cl_inv c"
  shows "cl_inv c' \<and> set (cl_pendingTargets c) \<subseteq> set (cl_pendingTargets c')"
  using assms
proof (induction rule: cl_step.induct)
  case (Announce c e scope)
  then show ?case by (simp add: announcePresence_def cl_inv_def Let_def)
next
  case (Intent c e target)
  then show ?case by (auto simp: sendIntent_def cl_inv_def Let_def)
next
  case (Board c e msg)
  let ?c = "c\<lparr>cl_events := cl_events c @ [msg]\<rparr>"
  have i: "cl_inv ?c" using Board by (simp add: cl_inv_def)
  have t: "cl_pendingTargets (put_session mid s s' d) = cl_pendingTargets d" for mid s s' d by (simp add: put_session_def)
  show ?case
  proof (cases msg)
    case (OutMatch mid role key)
    then show ?thesis using i cl_inv_put [OF i]
      by (auto simp: onBoardMessage_def Let_def t) (auto simp: cl_inv_def MatchSession_def)
  next
    case (OutRelay mid k blob)
    then show ?thesis using i cl_inv_put [OF i]
      by (auto simp: onBoardMessage_def Let_def t split: option.splits) (auto simp: cl_inv_def)
  next
    case (OutChannelClosed mid reason)
    then show ?thesis using i cl_inv_put [OF i]
      by (auto simp: onBoardMessage_def Let_def t onChannelClosed_def split: option.splits) (auto simp: cl_inv_def)
  qed (use i in \<open>simp_all add: onBoardMessage_def\<close>)
next
  case (CloseAll c)
  have "jget (map (\<lambda>(k, s). (k, ms_close s)) m) k = map_option ms_close (jget m k)" for m :: "(string, match_session) jmap" and k
    by (rule jget_map_snd)
  with CloseAll show ?case by (auto simp: cl_close_def cl_inv_def ms_close_def)
qed

lemma cl_inv_reachable: "(cl_step C)\<^sup>*\<^sup>* (Client i scope tok now) c \<Longrightarrow> cl_inv c"
proof (induction rule: rtranclp_induct)
  case base
  show ?case by (simp add: Client_def cl_inv_def)
qed (use cl_inv_step in blast)

end
