(* ===== verification/Instances.thy ===== *)
theory Instances
  imports Session
begin

text \<open>
  Concrete instances of the cryptographic primitives, which show that the named hypotheses of the
  properties can hold. They are not cryptography: they have the documented shape (lengths, who can
  verify and open what) and compute.
\<close>

definition pad32 :: "bytes \<Rightarrow> bytes" where
  "pad32 bs = take 32 (bs @ replicate 32 0)"

definition frame_key :: "bytes \<Rightarrow> bytes" where
  \<comment> \<open>self-delimiting: no value is a proper prefix of another\<close>
  "frame_key k = replicate (length k) 1 @ [0] @ k"

text \<open>Primitives on which everything honest works: signatures verify, agreement agrees, boxes open.\<close>

definition open_crypto :: crypto where
  "open_crypto = \<lparr>ed_pub = pad32, ed_sign = (\<lambda>m priv. [1]), ed_verify = (\<lambda>sig m pub. Some True),
     x_pub = pad32, x_shared = (\<lambda>a b. Some []), hkdf256 = (\<lambda>ikm salt info n. frame_key salt @ info),
     sha256 = (\<lambda>m. m), xchacha_enc = (\<lambda>k n p. p @ replicate 16 0),
     xchacha_dec = (\<lambda>k n c. Some (take (length c - 16) c))\<rparr>"

text \<open>Primitives whose ciphertexts open under their own key only.\<close>

definition keyed_crypto :: crypto where
  "keyed_crypto = open_crypto\<lparr>xchacha_enc := (\<lambda>k n p. frame_key k @ p),
     xchacha_dec := (\<lambda>k n c. if take (length (frame_key k)) c = frame_key k then Some (drop (length (frame_key k)) c) else None)\<rparr>"

text \<open>Primitives under which exactly the messages of a list verify, whoever signed them.\<close>

definition signed_crypto :: "bytes list \<Rightarrow> crypto" where
  "signed_crypto ms = open_crypto\<lparr>ed_verify := (\<lambda>sig m pub. Some (m \<in> set ms))\<rparr>"

lemma length_pad32 [simp]: "length (pad32 bs) = 32"
  by (simp add: pad32_def)

lemma takeWhile_ones: "takeWhile (\<lambda>c. c = (1 :: 8 word)) (replicate n 1 @ 0 # r) = replicate n 1"
  by (induction n) auto

lemma frame_key_app: "frame_key a @ x = frame_key b @ y \<Longrightarrow> a = b \<and> x = y"
proof -
  assume eq: "frame_key a @ x = frame_key b @ y"
  have tw: "takeWhile (\<lambda>c. c = 1) (frame_key k @ z) = replicate (length k) 1" for k z
    by (simp add: frame_key_def takeWhile_ones)
  have "length a = length b" using arg_cong [OF eq, of "takeWhile (\<lambda>c. c = 1)"] unfolding tw
    by (metis length_replicate)
  with eq show ?thesis by (simp add: frame_key_def)
qed

lemma open_crypto_ok [simp]: "ed_ok open_crypto" "ed_nonempty open_crypto" "dh_ok open_crypto" "aead_ok open_crypto"
  by (simp_all add: ed_ok_def ed_nonempty_def dh_ok_def aead_ok_def open_crypto_def)

lemma hkdf_salted_open [simp]: "hkdf_salted open_crypto" "hkdf_salted keyed_crypto"
  by (auto simp: hkdf_salted_def keyed_crypto_def open_crypto_def dest: frame_key_app)

lemma keyed_crypto_ok [simp]: "dh_ok keyed_crypto" "aead_keyed keyed_crypto" "ed_ok keyed_crypto" "ed_nonempty keyed_crypto"
proof -
  show "dh_ok keyed_crypto" "ed_ok keyed_crypto" "ed_nonempty keyed_crypto"
    by (simp_all add: dh_ok_def ed_ok_def ed_nonempty_def keyed_crypto_def open_crypto_def)
  have dec: "xchacha_dec keyed_crypto k' n' c = None"
    if "take (length (frame_key k')) c \<noteq> frame_key k'" for k' n' c
    using that by (simp add: keyed_crypto_def)
  have "take (length (frame_key k')) (frame_key k @ p) \<noteq> frame_key k'" if "k \<noteq> k'" for k k' p
  proof
    assume "take (length (frame_key k')) (frame_key k @ p) = frame_key k'"
    then have "frame_key k @ p = frame_key k' @ drop (length (frame_key k')) (frame_key k @ p)"
      using append_take_drop_id [of "length (frame_key k')" "frame_key k @ p"] by simp
    with that show False by (blast dest: frame_key_app)
  qed
  moreover have "xchacha_enc keyed_crypto k n p = frame_key k @ p" for k n p by (simp add: keyed_crypto_def)
  ultimately show "aead_keyed keyed_crypto" unfolding aead_keyed_def using dec by simp
qed

lemma ed_only_signed_crypto [simp]: "set ms \<subseteq> M \<Longrightarrow> ed_only_signed (signed_crypto ms) pub M"
  by (auto simp: ed_only_signed_def signed_crypto_def)

subsection \<open>Two devices\<close>

definition bob :: device_identity where "bob = mk_identity open_crypto [2] [3] ''2024-01-01T00:00:00.000Z''"
definition alice :: device_identity where "alice = mk_identity open_crypto [1] [1] ''2024-01-01T00:00:00.000Z''"

lemma alice_bob [simp]: "identity_ok open_crypto alice" "identity_ok open_crypto bob" 
  by (simp_all add: alice_def bob_def)

lemma keys_distinct: "identityKeyB64 alice \<noteq> identityKeyB64 bob" "transportPub alice \<noteq> transportPub bob"
  "identityKeyB64 alice \<noteq> []" "identityKeyB64 bob \<noteq> []" "transportKeyB64 bob \<noteq> []" "transportKeyB64 alice \<noteq> []"
proof -
  have p: "pad32 [a] = a # replicate 31 0" for a by (simp add: pad32_def numeral_eq_Suc)
  have k: "signingPub alice \<noteq> signingPub bob" "signingPub alice \<noteq> []" "signingPub bob \<noteq> []"
    "transportPub alice \<noteq> transportPub bob" "transportPub alice \<noteq> []" "transportPub bob \<noteq> []"
    by (simp_all add: alice_def bob_def mk_identity_def Let_def open_crypto_def p)
  then show "identityKeyB64 alice \<noteq> identityKeyB64 bob" "transportPub alice \<noteq> transportPub bob"
    "identityKeyB64 alice \<noteq> []" "identityKeyB64 bob \<noteq> []" "transportKeyB64 bob \<noteq> []" "transportKeyB64 alice \<noteq> []"
    using b64uEncode_nonempty b64uEncode_inj unfolding identityKeyB64_def transportKeyB64_def by blast+
qed

definition bob_frame :: fields where
  "bob_frame = makeKeyFrame open_crypto bob match_answer ''m'' None [5] ''2025-01-01T00:00:00.000Z''"

definition bob_signed :: crypto where
  "bob_signed = signed_crypto [canonicalBytes (binding_body (identityKeyB64 bob) (transportKeyB64 bob) ''2024-01-01T00:00:00.000Z''),
     canonicalBytes (JObj (without_signature bob_frame))]"

lemma signed_same [simp]: "mk_identity (signed_crypto ms) = mk_identity open_crypto"
  by (simp add: fun_eq_iff mk_identity_def signed_crypto_def open_crypto_def)

lemma identity_ok_signed [simp]: "identity_ok (signed_crypto ms) = identity_ok open_crypto"
  by (simp add: fun_eq_iff identity_ok_def)

lemma makeKeyFrame_signed: "makeKeyFrame (signed_crypto ms) = makeKeyFrame open_crypto"
  by (simp add: fun_eq_iff makeKeyFrame_def signObject_def di_sign_def signed_crypto_def open_crypto_def)

lemma bob_signed_binding: "verifyBinding bob_signed (di_binding bob)"
  by (simp add: verifyBinding_def bob_def bob_signed_def signed_crypto_def binding_body_def
    identityKeyB64_def transportKeyB64_def mk_identity_def Let_def)

lemma verify_signed: "verifyObject (signed_crypto ms) (signObject open_crypto i r) k =
    (canonicalBytes (JObj (without_signature r)) \<in> set ms)"
proof -
  have "di_sign open_crypto i m \<noteq> []" for m by (simp add: di_sign_def open_crypto_def)
  then show ?thesis by (simp add: verifyObject_def signObject_def Let_def signed_crypto_def b64uEncode_nonempty)
qed

lemma without_signature_signObject [simp]: "without_signature (signObject C i r) = without_signature r"
  by (simp add: signObject_def Let_def)

lemma bob_signed_frame: "verifyMatchFrame bob_signed (JObj bob_frame) (Some (identityKeyB64 bob)) = Inr ()"
proof -
  have eq: "bob_frame = makeKeyFrame bob_signed bob match_answer ''m'' None [5] ''2025-01-01T00:00:00.000Z''"
    by (simp add: bob_frame_def bob_signed_def makeKeyFrame_signed)
  have ok: "identity_ok bob_signed bob" by (simp add: bob_signed_def)
  have "verifyObject bob_signed bob_frame (identityKeyB64 bob)"
    unfolding bob_signed_def bob_frame_def makeKeyFrame_def verify_signed by simp
  then show ?thesis unfolding eq by (rule key_frame_checks [OF ok keys_distinct(5) bob_signed_binding])
qed

subsection \<open>A session with a certified key\<close>

definition bob_records :: "fields set" where
  "bob_records = {without_signature bob_frame}"

definition after_key :: match_session where
  "after_key = onRelay bob_signed \<lparr>se_nonce = [6], se_eph = [7], se_now = ''2025-01-01T00:00:01.000Z'', se_local = None\<rparr>
     (encodeFrame bob_frame) (MatchSession alice Responder ''m'' (identityKeyB64 bob))"

lemma wf_bob_frame: "wf_json (JObj bob_frame)"
  unfolding bob_frame_def by (rule wf_frames) simp

lemma bob_signs_only: "signs_only bob_signed bob bob_records"
proof -
  have "without_signature bob_frame \<in> bob_records" by (simp add: bob_records_def)
  moreover have "jhas (without_signature bob_frame) ''type''" by (simp add: jhas_def bob_frame_def)
  ultimately show ?thesis
    using wf_without_signature [OF wf_bob_frame]
    by (auto simp: signs_only_def bob_signed_def bob_records_def bob_def)
qed

lemma after_key_peer: "ms_peerTransportPub after_key = Some (transportPub bob)"
proof -
  have g: "jget bob_frame ''match_id'' = Some (JStr ''m'')" "jget bob_frame ''phase'' = Some (JStr ''key'')"
    "jget bob_frame ''binding'' = Some (di_binding bob)" "jget bob_frame ''transport_key'' = Some (JStr (transportKeyB64 bob))"
    by (simp_all add: bob_frame_def)
  show ?thesis unfolding after_key_def onRelay_def decode_encode [OF wf_bob_frame] option.case
    using bob_signed_frame bob_signed_binding g
    by (simp add: MatchSession_def on_key_def transportKeyB64_def)
qed

subsection \<open>A handshake\<close>

definition env_of :: "nat \<Rightarrow> session_env" where
  "env_of n = \<lparr>se_nonce = [of_nat n], se_eph = [of_nat n, 1], se_now = ''2025-01-01T00:00:00.000Z'',
     se_local = Some (''v=0'', [''candidate:1 1 udp 2130706431 0123456789abcdef.local 9 typ host'',
       ''candidate:2 1 udp 1677729535 203.0.113.7 9 typ srflx raddr 192.168.1.2 rport 5000''])\<rparr>"

definition hs_a0 :: match_session where
  "hs_a0 = start open_crypto (env_of 1) (MatchSession alice Initiator ''m'' (identityKeyB64 bob))"

definition hs_b0 :: match_session where
  "hs_b0 = start open_crypto (env_of 2) (MatchSession bob Responder ''m'' (identityKeyB64 alice))"

definition hs_a1 :: match_session where
  "hs_a1 = onRelay open_crypto (env_of 3) (last_blob hs_b0) hs_a0"

definition hs_b1 :: match_session where
  "hs_b1 = onRelay open_crypto (env_of 4) (last_blob hs_a0) hs_b0"

definition hs_b2 :: match_session where
  "hs_b2 = onRelay open_crypto (env_of 5) (last_blob hs_a1) hs_b1"

definition hs_a2 :: match_session where
  "hs_a2 = onRelay open_crypto (env_of 6) (last_blob hs_b2) hs_a1"

lemma honest_open: "honest open_crypto alice" "honest open_crypto bob"
  by (simp_all add: honest_def)

lemma pred_option_case: "pred_option P x = (case x of None \<Rightarrow> True | Some a \<Rightarrow> P a)"
  by (cases x) simp_all

lemma std_line_host: "std_line ''candidate:1 1 udp 2130706431 0123456789abcdef.local 9 typ host''"
  unfolding std_line_def
proof (intro exI conjI impI disjI1)
  let ?h = "[''1'', ''1'', ''udp'', ''2130706431'', ''0123456789abcdef.local'', ''9'']"
  show "std_ok ?h ''host'' None None []" unfolding std_ok_def pred_option_case by code_simp
  show "\<not> isRawIp (?h ! 4)" by code_simp
  show "''candidate:1 1 udp 2130706431 0123456789abcdef.local 9 typ host'' =
    ''candidate:'' @ join blank (std_tokens ?h ''host'' None None [])" by code_simp
qed

lemma std_line_srflx: "std_line ''candidate:2 1 udp 1677729535 203.0.113.7 9 typ srflx raddr 192.168.1.2 rport 5000''"
  unfolding std_line_def
proof (intro exI conjI disjI1)
  let ?h = "[''2'', ''1'', ''udp'', ''1677729535'', ''203.0.113.7'', ''9'']"
  show "std_ok ?h ''srflx'' (Some ''192.168.1.2'') (Some ''5000'') []" unfolding std_ok_def pred_option_case by code_simp
  show "isMdnsHostname (?h ! 4) \<longrightarrow> \<not> isRawIp (?h ! 4)" by code_simp
  show "''candidate:2 1 udp 1677729535 203.0.113.7 9 typ srflx raddr 192.168.1.2 rport 5000'' =
    ''candidate:'' @ join blank (std_tokens ?h ''srflx'' (Some ''192.168.1.2'') (Some ''5000'') [])" by code_simp
qed

lemma sendable_env: "sendable (env_of n)"
proof -
  have "assertNoUnobfuscatedHost (Inr (fst (filterSdp ''v=0''))) = Inr ()" by code_simp
  then show ?thesis using std_line_host std_line_srflx by (simp add: sendable_def env_of_def)
qed

end
