(* ===== verification/Clock.thy ===== *)
theory Clock
  imports Prelude
begin

text \<open>
  \<open>orp-ref/core/clock.ts\<close>: the injectable clock and its deterministic implementation \<open>FakeClock\<close>,
  and \<open>Date.parse\<close> of the standard library on ISO time stamps in UTC, the only form the program
  writes. A timer's callback is a value of a type parameter; the argument \<open>fire\<close> runs it on the
  world, which contains the clock. The loop of \<open>advance\<close> may run forever when callbacks keep setting
  timers, so it is a partial function; it is shown to return when they set none.
\<close>

subsection \<open>Date.parse\<close>

definition leap :: "nat \<Rightarrow> bool" where
  "leap y = ((4 dvd y \<and> \<not> 100 dvd y) \<or> 400 dvd y)"

definition month_len :: "nat \<Rightarrow> nat \<Rightarrow> nat" where
  "month_len y m = (if m = 2 then (if leap y then 29 else 28)
     else if m = 4 \<or> m = 6 \<or> m = 9 \<or> m = 11 then 30 else 31)"

definition days_before_year :: "nat \<Rightarrow> int" where
  \<comment> \<open>days from 1970-01-01 to the first day of the year\<close>
  "days_before_year y = (let p = int y - 1 in 365 * (int y - 1970) + (p div 4 - p div 100 + p div 400) - 477)"

definition days_before_month :: "nat \<Rightarrow> nat \<Rightarrow> nat" where
  "days_before_month y m = sum_list (map (month_len y) [1..<m])"

definition num_field :: "string \<Rightarrow> nat \<Rightarrow> nat \<Rightarrow> nat option" where
  "num_field s i n = (let f = take n (drop i s)
     in if length f = n \<and> list_all is_digit f then Some (read_digits f) else None)"

text \<open>\<open>YYYY-MM-DDTHH:MM:SS.mmmZ\<close>; \<open>None\<close> is \<open>NaN\<close>.\<close>

definition date_parse :: "string \<Rightarrow> int option" where
  "date_parse s =
     (if length s = 24 \<and> s ! 4 = CHR ''-'' \<and> s ! 7 = CHR ''-'' \<and> s ! 10 = CHR ''T'' \<and> s ! 13 = CHR '':''
         \<and> s ! 16 = CHR '':'' \<and> s ! 19 = CHR ''.'' \<and> s ! 23 = CHR ''Z'' then
        (case (num_field s 0 4, num_field s 5 2, num_field s 8 2, num_field s 11 2, num_field s 14 2,
               num_field s 17 2, num_field s 20 3) of
           (Some y, Some mo, Some d, Some h, Some mi, Some se, Some ms) \<Rightarrow>
             if 1 \<le> mo \<and> mo \<le> 12 \<and> 1 \<le> d \<and> d \<le> 31 \<and> h \<le> 23 \<and> mi \<le> 59 \<and> se \<le> 59 then
               Some ((((days_before_year y + int (days_before_month y mo) + int d - 1) * 24 + int h) * 60
                 + int mi) * 60 * 1000 + int se * 1000 + int ms)
             else None
         | _ \<Rightarrow> None)
      else None)"

subsection \<open>FakeClock\<close>

record 'cb fake_clock =
  fc_clock :: nat
  fc_seq :: nat
  fc_timers :: "(nat, nat \<times> 'cb) jmap"

definition FakeClock :: "'cb fake_clock" where
  "FakeClock = \<lparr>fc_clock = 0, fc_seq = 0, fc_timers = []\<rparr>"

definition setTimer :: "nat \<Rightarrow> 'cb \<Rightarrow> 'cb fake_clock \<Rightarrow> nat \<times> 'cb fake_clock" where
  "setTimer delayMs cb c =
     (fc_seq c, c\<lparr>fc_seq := fc_seq c + 1, fc_timers := jset (fc_seq c) (fc_clock c + delayMs, cb) (fc_timers c)\<rparr>)"

definition clearTimer :: "nat \<Rightarrow> 'cb fake_clock \<Rightarrow> 'cb fake_clock" where
  "clearTimer i c = c\<lparr>fc_timers := jdel i (fc_timers c)\<rparr>"

text \<open>The due timer with the least deadline, the first one among equals.\<close>

definition next_due :: "nat \<Rightarrow> (nat, nat \<times> 'cb) jmap \<Rightarrow> (nat \<times> nat \<times> 'cb) option" where
  "next_due target ts = foldl (\<lambda>nxt (i, due, cb).
       if due \<le> target \<and> (case nxt of None \<Rightarrow> True | Some (_, a, _) \<Rightarrow> due < a) then Some (i, due, cb) else nxt)
     None ts"

definition begin_fire :: "nat \<Rightarrow> nat \<Rightarrow> 'cb fake_clock \<Rightarrow> 'cb fake_clock" where
  "begin_fire i due c = c\<lparr>fc_timers := jdel i (fc_timers c), fc_clock := due\<rparr>"

partial_function (option) advance_loop ::
  "('cb \<Rightarrow> 'cb fake_clock \<times> 's \<Rightarrow> 'cb fake_clock \<times> 's) \<Rightarrow> nat \<Rightarrow> 'cb fake_clock \<times> 's
    \<Rightarrow> ('cb fake_clock \<times> 's) option" where
  "advance_loop fire target w =
     (case next_due target (fc_timers (fst w)) of
        None \<Rightarrow> Some ((fst w)\<lparr>fc_clock := target\<rparr>, snd w)
      | Some (i, due, cb) \<Rightarrow> advance_loop fire target (fire cb (begin_fire i due (fst w), snd w)))"

definition advance ::
  "('cb \<Rightarrow> 'cb fake_clock \<times> 's \<Rightarrow> 'cb fake_clock \<times> 's) \<Rightarrow> nat \<Rightarrow> 'cb fake_clock \<times> 's
    \<Rightarrow> ('cb fake_clock \<times> 's) option" where
  "advance fire ms w = advance_loop fire (fc_clock (fst w) + ms) w"

subsection \<open>Invariant\<close>

text \<open>Timer ids are fresh, and no timer is overdue.\<close>

definition clock_ok :: "'cb fake_clock \<Rightarrow> bool" where
  "clock_ok c = (jmap_ok (fc_timers c) \<and> (\<forall>i due cb. jget (fc_timers c) i = Some (due, cb) \<longrightarrow> i < fc_seq c \<and> fc_clock c \<le> due))"

lemma clock_ok_new [simp]: "clock_ok FakeClock"
  by (simp add: clock_ok_def FakeClock_def)

lemma clock_ok_setTimer [simp]: "clock_ok c \<Longrightarrow> clock_ok (snd (setTimer d cb c))"
  by (auto simp: clock_ok_def setTimer_def intro: less_SucI)

lemma clock_ok_clearTimer [simp]: "clock_ok c \<Longrightarrow> clock_ok (clearTimer i c)"
  by (auto simp: clock_ok_def clearTimer_def)

lemma setTimer_fresh: "clock_ok c \<Longrightarrow> setTimer d cb c = (i, c') \<Longrightarrow> \<not> jhas (fc_timers c) i"
  by (auto simp: clock_ok_def setTimer_def jhas_def)

lemma next_due_fold:
  fixes target :: nat
  assumes "foldl (\<lambda>nxt (i, due, cb). if due \<le> target \<and> (case nxt of None \<Rightarrow> True | Some (_, a, _) \<Rightarrow> due < a)
      then Some (i, due, cb) else nxt) nxt ts = r"
    and "\<forall>x. nxt = Some x \<longrightarrow> fst (snd x) \<le> target"
  shows "case r of
      None \<Rightarrow> nxt = None \<and> (\<forall>(i, due, cb)\<in>set ts. target < due)
    | Some (i, due, cb) \<Rightarrow> due \<le> target \<and> ((i, due, cb) \<in> set ts \<or> nxt = Some (i, due, cb))
        \<and> (\<forall>(i', due', cb')\<in>set ts. due \<le> due') \<and> (\<forall>x. nxt = Some x \<longrightarrow> due \<le> fst (snd x))"
  using assms
proof (induction ts arbitrary: nxt)
  case Nil
  then show ?case by (cases nxt) auto
next
  case (Cons t ts)
  obtain i due cb where t: "t = (i, due, cb)" by (cases t)
  let ?nxt = "if due \<le> target \<and> (case nxt of None \<Rightarrow> True | Some (_, a, _) \<Rightarrow> due < a) then Some (i, due, cb) else nxt"
  have *: "case r of
      None \<Rightarrow> ?nxt = None \<and> (\<forall>(i, due, cb)\<in>set ts. target < due)
    | Some (i, due, cb) \<Rightarrow> due \<le> target \<and> ((i, due, cb) \<in> set ts \<or> ?nxt = Some (i, due, cb))
        \<and> (\<forall>(i', due', cb')\<in>set ts. due \<le> due') \<and> (\<forall>x. ?nxt = Some x \<longrightarrow> due \<le> fst (snd x))"
    using Cons.prems by (intro Cons.IH) (auto simp: t split: if_splits)
  show ?case
  proof (cases r)
    case None
    with * Cons.prems(2) show ?thesis by (auto simp: t split: if_splits option.splits)
  next
    case (Some x)
    obtain i' due' cb' where x: "x = (i', due', cb')" by (cases x)
    from * show ?thesis using Cons.prems(2) unfolding Some x t
      by (cases nxt) (auto split: if_splits)
  qed
qed

lemma next_due_None: "next_due target ts = None \<Longrightarrow> (i, due, cb) \<in> set ts \<Longrightarrow> target < due"
  using next_due_fold [of target None ts None] by (auto simp: next_due_def)

lemma next_due_Some:
  assumes "next_due target ts = Some (i, due, cb)"
  shows "due \<le> target" "(i, due, cb) \<in> set ts" "\<And>i' due' cb'. (i', due', cb') \<in> set ts \<Longrightarrow> due \<le> due'"
  using next_due_fold [of target None ts "Some (i, due, cb)"] assms by (auto simp: next_due_def)

text \<open>
  A callback that touches no timer: the loop ends, the clock stands at its target, the due timers have
  run in the order of their deadlines and the others are still set.
\<close>

definition quiet :: "('cb \<Rightarrow> 'cb fake_clock \<times> 's \<Rightarrow> 'cb fake_clock \<times> 's) \<Rightarrow> bool" where
  "quiet fire = (\<forall>cb w. fst (fire cb w) = fst w)"

lemma begin_fire_ok:
  assumes "clock_ok c" "next_due target (fc_timers c) = Some (i, due, cb)"
  shows "clock_ok (begin_fire i due c)" "fc_clock c \<le> due" "due \<le> target"
    "length (fc_timers (begin_fire i due c)) < length (fc_timers c)"
proof -
  note n = next_due_Some [OF assms(2)]
  have g: "jget (fc_timers c) i = Some (due, cb)" using n(2) assms(1) by (auto simp: clock_ok_def jmap_mem_iff)
  show "due \<le> target" by (rule n(1))
  show "fc_clock c \<le> due" using g assms(1) by (auto simp: clock_ok_def)
  have "due \<le> due'" if "jget (fc_timers c) i' = Some (due', cb')" for i' due' cb'
    using that n(3) assms(1) by (auto simp: clock_ok_def jmap_mem_iff)
  then show "clock_ok (begin_fire i due c)" using assms(1) by (auto simp: clock_ok_def begin_fire_def)
  have "jhas (fc_timers c) i" using g by (simp add: jhas_def)
  then have "length (jdel i (fc_timers c)) = length (fc_timers c) - 1" "fc_timers c \<noteq> []"
    using assms(1) by (auto simp: clock_ok_def length_jdel)
  then show "length (fc_timers (begin_fire i due c)) < length (fc_timers c)"
    by (cases "fc_timers c") (simp_all add: begin_fire_def)
qed

lemma advance_loop_quiet:
  assumes "quiet fire" "clock_ok c" "fc_clock c \<le> target"
  shows "\<exists>c' s'. advance_loop fire target (c, s) = Some (c', s') \<and> fc_clock c' = target \<and> clock_ok c'
    \<and> (\<forall>i. jget (fc_timers c') i = (case jget (fc_timers c) i of
          Some (due, cb) \<Rightarrow> if due \<le> target then None else Some (due, cb) | None \<Rightarrow> None))"
  using assms(2,3)
proof (induction "length (fc_timers c)" arbitrary: c s rule: less_induct)
  case less
  show ?case
  proof (cases "next_due target (fc_timers c)")
    case None
    have late: "target < due" if "jget (fc_timers c) i = Some (due, cb)" for i due cb
      using that next_due_None [OF None] by (meson map_of_SomeD)
    then have "clock_ok (c\<lparr>fc_clock := target\<rparr>)" using less.prems by (auto simp: clock_ok_def less_imp_le)
    moreover have "jget (fc_timers c) i = (case jget (fc_timers c) i of
          Some (due, cb) \<Rightarrow> if due \<le> target then None else Some (due, cb) | None \<Rightarrow> None)" for i
      using late by (auto simp flip: not_less split: option.splits)
    ultimately show ?thesis using None by (subst advance_loop.simps) auto
  next
    case (Some x)
    obtain i due cb where x: "x = (i, due, cb)" by (cases x)
    note n = Some [unfolded x]
    let ?c = "begin_fire i due c"
    obtain s1 where s1: "fire cb (?c, s) = (?c, s1)"
      using assms(1) unfolding quiet_def by (metis fst_conv prod.collapse)
    note b = begin_fire_ok [OF less.prems(1) n]
    have "fc_clock ?c \<le> target" using b(3) by (simp add: begin_fire_def)
    from less.hyps [OF b(4) b(1) this, of s1] obtain c' s' where
      r: "advance_loop fire target (?c, s1) = Some (c', s')" "fc_clock c' = target" "clock_ok c'"
        "\<forall>i. jget (fc_timers c') i = (case jget (fc_timers ?c) i of
          Some (due, cb) \<Rightarrow> if due \<le> target then None else Some (due, cb) | None \<Rightarrow> None)" by blast
    have "jget (fc_timers c) i = Some (due, cb)"
      using next_due_Some(2) [OF n] less.prems(1) by (auto simp: clock_ok_def jmap_mem_iff)
    with r(4) b(3) have "\<forall>i. jget (fc_timers c') i = (case jget (fc_timers c) i of
          Some (due, cb) \<Rightarrow> if due \<le> target then None else Some (due, cb) | None \<Rightarrow> None)"
      by (auto simp: begin_fire_def)
    with r n s1 show ?thesis by (subst advance_loop.simps) simp
  qed
qed

lemma advance_quiet:
  assumes "quiet fire" "clock_ok c"
  shows "\<exists>c' s'. advance fire ms (c, s) = Some (c', s') \<and> fc_clock c' = fc_clock c + ms \<and> clock_ok c'
    \<and> (\<forall>i. jget (fc_timers c') i = (case jget (fc_timers c) i of
          Some (due, cb) \<Rightarrow> if due \<le> fc_clock c + ms then None else Some (due, cb) | None \<Rightarrow> None))"
  using advance_loop_quiet [OF assms, of "fc_clock c + ms" s] by (simp add: advance_def)

lemma fc_timers_clearTimer [simp]: "fc_timers (clearTimer i c) = jdel i (fc_timers c)"
  by (simp add: clearTimer_def)

text \<open>What every firing preserves holds when the loop ends, where no due timer is left.\<close>

lemma advance_loop_invariant:
  assumes "advance_loop fire target w = Some w'" "P w"
    and step: "\<And>i due cb c s. P (c, s) \<Longrightarrow> next_due target (fc_timers c) = Some (i, due, cb) \<Longrightarrow>
      P (fire cb (begin_fire i due c, s))"
  shows "\<exists>c. P (c, snd w') \<and> next_due target (fc_timers c) = None \<and> fst w' = c\<lparr>fc_clock := target\<rparr>"
proof -
  let ?Q = "\<lambda>f t w w'. f = fire \<longrightarrow> t = target \<longrightarrow> P w \<longrightarrow>
    (\<exists>c. P (c, snd w') \<and> next_due target (fc_timers c) = None \<and> fst w' = c\<lparr>fc_clock := target\<rparr>)"
  have "?Q fire target w w'"
  proof (rule advance_loop.raw_induct [where P = ?Q, OF _ assms(1)], intro impI)
    fix loop f t w w'
    assume ih: "\<And>f t w w'. loop f t w = Some w' \<Longrightarrow> ?Q f t w w'"
      and body: "(case next_due t (fc_timers (fst w)) of
          None \<Rightarrow> Some ((fst w)\<lparr>fc_clock := t\<rparr>, snd w)
        | Some (i, due, cb) \<Rightarrow> loop f t (f cb (begin_fire i due (fst w), snd w))) = Some w'"
      and f: "f = fire" "t = target" and p: "P w"
    obtain c s where w: "w = (c, s)" by (cases w)
    show "\<exists>c. P (c, snd w') \<and> next_due target (fc_timers c) = None \<and> fst w' = c\<lparr>fc_clock := target\<rparr>"
    proof (cases "next_due target (fc_timers c)")
      case None
      with body p show ?thesis by (auto simp: w f)
    next
      case (Some x)
      obtain i due cb where x: "x = (i, due, cb)" by (cases x)
      have "P (fire cb (begin_fire i due c, s))" using step p Some x w by blast
      moreover have "loop fire target (fire cb (begin_fire i due c, s)) = Some w'"
        using body Some by (simp add: w f x)
      ultimately show ?thesis using ih by blast
    qed
  qed
  with assms(2) show ?thesis by blast
qed

end
