(* ===== verification/DeliveryLayer.thy ===== *)
theory DeliveryLayer
  imports SealedBox Wire Clock
begin

text \<open>
  \<open>orp-ref/core/deliverylayer.ts\<close> and \<open>orp-ref/client/reliablechannel.ts\<close>: delivery receipts. A
  message carries a one-time public key, the receipt is sealed to it, and the sender's queue is
  cleared by a valid receipt or by the timeout. The channel runs on the deterministic clock, whose
  timers carry the id of the message they expire; what it sends, delivers and settles are traces.
\<close>

subsection \<open>Frames\<close>

datatype delivery_frame =
    MsgFrame (df_message_id: string) (df_ack_pubkey: string) (df_body: string)
  | AckFrame (df_message_id: string) (df_sealed_ack: string)

record ack_key =
  ak_priv :: bytes
  ak_pub :: bytes

definition generateOneTimeAckKey :: "crypto \<Rightarrow> bytes \<Rightarrow> ack_key" where
  "generateOneTimeAckKey C rnd = \<lparr>ak_priv = rnd, ak_pub = x_pub C rnd\<rparr>"

definition newMessageId :: "bytes \<Rightarrow> string" where
  "newMessageId rnd = b64uEncode rnd"

definition buildMessageFrame :: "string \<Rightarrow> ack_key \<Rightarrow> string \<Rightarrow> string" where
  "buildMessageFrame messageId ackKey body = json_str (JObj
     [(''type'', JStr ''msg''), (''message_id'', JStr messageId),
      (''ack_pubkey'', JStr (b64uEncode (ak_pub ackKey))), (''body'', JStr body)])"

definition buildAckFrame :: "crypto \<Rightarrow> bytes \<Rightarrow> string \<Rightarrow> bytes \<Rightarrow> string \<Rightarrow> string option" where
  "buildAckFrame C eph messageId ackPubkey now =
     (let payload = JObj [(''message_id'', JStr messageId), (''received_utc'', JStr now)]
      in case seal C eph (utf8 (json_str payload)) ackPubkey of
           None \<Rightarrow> None
         | Some sealed \<Rightarrow> Some (json_str (JObj
             [(''type'', JStr ''ack''), (''message_id'', JStr messageId),
              (''sealed_ack'', JStr (b64uEncode sealed))])))"

definition parseDeliveryFrame :: "string \<Rightarrow> delivery_frame option" where
  "parseDeliveryFrame text =
     (case json_parse text of
        None \<Rightarrow> None
      | Some o1 \<Rightarrow>
          if \<not> is_obj o1 then None
          else if jprop o1 ''type'' = Some (JStr ''msg'') \<and> jis_str (jprop o1 ''message_id'')
              \<and> jis_str (jprop o1 ''ack_pubkey'') \<and> jis_str (jprop o1 ''body'') then
            Some (MsgFrame (jstr (jprop o1 ''message_id'')) (jstr (jprop o1 ''ack_pubkey'')) (jstr (jprop o1 ''body'')))
          else if jprop o1 ''type'' = Some (JStr ''ack'') \<and> jis_str (jprop o1 ''message_id'')
              \<and> jis_str (jprop o1 ''sealed_ack'') then
            Some (AckFrame (jstr (jprop o1 ''message_id'')) (jstr (jprop o1 ''sealed_ack'')))
          else None)"

definition verifyAck :: "crypto \<Rightarrow> string \<Rightarrow> string \<Rightarrow> ack_key \<Rightarrow> json option" where
  \<comment> \<open>the frame's fields and the local one-time key; \<open>None\<close> is a throw\<close>
  "verifyAck C messageId sealedAck ackKey =
     (case unseal C (b64uDecode sealedAck) (ak_priv ackKey) (ak_pub ackKey) of
        None \<Rightarrow> None
      | Some pt \<Rightarrow>
          (case json_parse (fromUtf8 pt) of
             None \<Rightarrow> None
           | Some payload \<Rightarrow> if jprop payload ''message_id'' = Some (JStr messageId) then Some payload else None))"

lemma parse_buildMessage [simp]:
  "parseDeliveryFrame (buildMessageFrame m k b) = Some (MsgFrame m (b64uEncode (ak_pub k)) b)"
  by (simp add: parseDeliveryFrame_def buildMessageFrame_def is_obj_def)

lemma parse_buildAck:
  "buildAckFrame C eph m pub now = Some text \<Longrightarrow> \<exists>s. parseDeliveryFrame text = Some (AckFrame m s)"
  by (auto simp: parseDeliveryFrame_def buildAckFrame_def is_obj_def Let_def split: option.splits)

text \<open>A receipt built for a message verifies under its one-time key, and under no other.\<close>

definition ack_payload :: "string \<Rightarrow> string \<Rightarrow> json" where
  "ack_payload m now = JObj [(''message_id'', JStr m), (''received_utc'', JStr now)]"

lemma built_ack:
  assumes "seal C eph (utf8 (json_str (ack_payload m now))) pub = Some box"
  shows "\<exists>text. buildAckFrame C eph m pub now = Some text \<and> parseDeliveryFrame text = Some (AckFrame m (b64uEncode box))"
  using assms by (simp add: buildAckFrame_def Let_def parseDeliveryFrame_def is_obj_def ack_payload_def)

lemma built_ack_verifies:
  assumes "dh_ok C" "aead_ok C" "seal C eph (utf8 (json_str (ack_payload m now))) (x_pub C priv) = Some box"
  shows "verifyAck C m' (b64uEncode box) (generateOneTimeAckKey C priv) = (if m' = m then Some (ack_payload m now) else None)"
  using unseal_seal [OF assms] by (simp add: verifyAck_def generateOneTimeAckKey_def) (simp add: ack_payload_def)

lemma built_ack_other_key:
  assumes "dh_ok C" "aead_keyed C" "hkdf_salted C" "ak_pub k' \<noteq> pub"
    and "seal C eph (utf8 (json_str (ack_payload m now))) pub = Some box"
  shows "verifyAck C m' (b64uEncode box) k' = None"
  using unseal_wrong_key [OF assms(1,2,3,5) assms(4) [symmetric]] by (simp add: verifyAck_def)

subsection \<open>The channel's state\<close>

record pending_entry =
  pe_messageId :: string
  pe_body :: string
  pe_ackKey :: ack_key
  pe_sentAt :: nat
  pe_timer :: nat

datatype outcome = Resolved | DeliveryTimeout

record reliable_channel =
  rc_ackTimeoutMs :: nat
  rc_channel :: secure_channel
  rc_pending :: "(string, pending_entry) jmap"
  rc_hasCb :: bool
  rc_wire :: "bytes list"
  rc_delivered :: "string list"
  rc_settled :: "(string \<times> outcome) list"

type_synonym rc_world = "string fake_clock \<times> reliable_channel"

definition ReliableChannel :: "secure_channel \<Rightarrow> nat option \<Rightarrow> reliable_channel" where
  "ReliableChannel ch ackTimeout = \<lparr>rc_ackTimeoutMs = or_default ackTimeout 30000, rc_channel = ch, rc_pending = [],
     rc_hasCb = False, rc_wire = [], rc_delivered = [], rc_settled = []\<rparr>"

definition rc_onMessage :: "reliable_channel \<Rightarrow> reliable_channel" where
  "rc_onMessage s = s\<lparr>rc_hasCb := True\<rparr>"

definition chan_send :: "crypto \<Rightarrow> bytes \<Rightarrow> string \<Rightarrow> reliable_channel \<Rightarrow> reliable_channel" where
  "chan_send C nonce text s = s\<lparr>rc_wire := rc_wire s @ [sc_send C nonce (rc_channel s) text]\<rparr>"

record rc_random =
  rr_id :: bytes
  rr_ackPriv :: bytes
  rr_nonce :: bytes
  rr_eph :: bytes

definition rc_send :: "crypto \<Rightarrow> rc_random \<Rightarrow> string \<Rightarrow> rc_world \<Rightarrow> rc_world" where
  "rc_send C r body w =
     (let (c, s) = w; messageId = newMessageId (rr_id r); ackKey = generateOneTimeAckKey C (rr_ackPriv r);
          frame = buildMessageFrame messageId ackKey body;
          (timer, c') = setTimer (rc_ackTimeoutMs s) messageId c;
          s' = s\<lparr>rc_pending := jset messageId
                   \<lparr>pe_messageId = messageId, pe_body = body, pe_ackKey = ackKey, pe_sentAt = fc_clock c', pe_timer = timer\<rparr>
                   (rc_pending s)\<rparr>
      in (c', chan_send C (rr_nonce r) frame s'))"

text \<open>The callback of a message's timer.\<close>

definition rc_expire :: "string \<Rightarrow> rc_world \<Rightarrow> rc_world" where
  "rc_expire messageId w =
     (let (c, s) = w
      in if \<not> jhas (rc_pending s) messageId then (c, s)
         else (c, s\<lparr>rc_pending := jdel messageId (rc_pending s),
                    rc_settled := rc_settled s @ [(messageId, DeliveryTimeout)]\<rparr>))"

definition rc_advance :: "nat \<Rightarrow> rc_world \<Rightarrow> rc_world option" where
  "rc_advance ms w = advance rc_expire ms w"

definition rc_pendingInfo :: "reliable_channel \<Rightarrow> (string \<times> string \<times> nat) list" where
  "rc_pendingInfo s = map (\<lambda>e. (pe_messageId e, pe_body e, pe_sentAt e)) (jvals (rc_pending s))"

definition rc_pendingCount :: "reliable_channel \<Rightarrow> nat" where
  "rc_pendingCount s = length (rc_pending s)"

definition rc_onRawMessage :: "crypto \<Rightarrow> rc_random \<Rightarrow> string \<Rightarrow> string \<Rightarrow> rc_world \<Rightarrow> rc_world" where
  "rc_onRawMessage C r now text w =
     (let (c, s) = w
      in case parseDeliveryFrame text of
           None \<Rightarrow> (c, s)
         | Some (MsgFrame m a b) \<Rightarrow>
             (let s' = (if rc_hasCb s then s\<lparr>rc_delivered := rc_delivered s @ [b]\<rparr> else s)
              in case buildAckFrame C (rr_eph r) m (b64uDecode a) now of
                   Some ack \<Rightarrow> (c, chan_send C (rr_nonce r) ack s')
                 | None \<Rightarrow> (c, s'))
         | Some (AckFrame m sealed) \<Rightarrow>
             (case jget (rc_pending s) m of
                None \<Rightarrow> (c, s)
              | Some entry \<Rightarrow>
                  (case verifyAck C m sealed (pe_ackKey entry) of
                     None \<Rightarrow> (c, s)
                   | Some _ \<Rightarrow>
                       (clearTimer (pe_timer entry) c,
                        s\<lparr>rc_pending := jdel m (rc_pending s), rc_settled := rc_settled s @ [(m, Resolved)]\<rparr>))))"

subsection \<open>The channel as a step system\<close>

inductive rc_step :: "crypto \<Rightarrow> rc_world \<Rightarrow> rc_world \<Rightarrow> bool" for C where
  Send: "\<not> jhas (rc_settled (snd w)) (newMessageId (rr_id r)) \<Longrightarrow> \<not> jhas (rc_pending (snd w)) (newMessageId (rr_id r))
    \<Longrightarrow> rc_step C w (rc_send C r body w)"
| Receive: "rc_step C w (rc_onRawMessage C r now text w)"
| Tick: "rc_advance ms w = Some w' \<Longrightarrow> rc_step C w w'"

inductive_cases rc_step_elim: "rc_step C w w'"

text \<open>
  The invariant: every pending message has its own running timer and every timer its message; a message is pending or settled,
  never both, and settled at most once.
\<close>

definition rc_inv :: "rc_world \<Rightarrow> bool" where
  "rc_inv w = (let (c, s) = w in clock_ok c \<and> jmap_ok (rc_pending s)
     \<and> (\<forall>m e. jget (rc_pending s) m = Some e \<longrightarrow> pe_messageId e = m
           \<and> jget (fc_timers c) (pe_timer e) = Some (pe_sentAt e + rc_ackTimeoutMs s, m))
     \<and> (\<forall>i due m. jget (fc_timers c) i = Some (due, m) \<longrightarrow> (\<exists>e. jget (rc_pending s) m = Some e \<and> pe_timer e = i))
     \<and> jmap_ok (rc_settled s) \<and> (\<forall>m. jhas (rc_settled s) m \<longrightarrow> \<not> jhas (rc_pending s) m))"

lemma jmap_ok_snoc [simp]: "jmap_ok (xs @ [(k, v)]) \<longleftrightarrow> jmap_ok xs \<and> \<not> jhas xs k"
  by (auto simp: jmap_ok_def jhas_iff)

lemma rc_inv_timer:
  "rc_inv (c, s) \<Longrightarrow> jget (rc_pending s) m = Some e \<Longrightarrow>
    jget (fc_timers c) (pe_timer e) = Some (pe_sentAt e + rc_ackTimeoutMs s, m)"
  by (simp add: rc_inv_def)

lemma rc_inv_owner:
  "rc_inv (c, s) \<Longrightarrow> jget (fc_timers c) i = Some (due, m) \<Longrightarrow>
    \<exists>e. jget (rc_pending s) m = Some e \<and> pe_timer e = i"
  by (simp add: rc_inv_def)

lemma rc_inv_init: "rc_inv (FakeClock, ReliableChannel ch t)"
  by (simp add: rc_inv_def ReliableChannel_def FakeClock_def clock_ok_def)

lemma rc_inv_send:
  assumes "rc_inv w" "\<not> jhas (rc_settled (snd w)) (newMessageId (rr_id r))"
    "\<not> jhas (rc_pending (snd w)) (newMessageId (rr_id r))"
  shows "rc_inv (rc_send C r body w)"
proof -
  obtain c s where w: "w = (c, s)" by (cases w)
  have c: "clock_ok c" using assms(1) by (simp add: w rc_inv_def)
  then have fresh: "jget (fc_timers c) i = Some x \<Longrightarrow> i \<noteq> fc_seq c" for i x
    by (cases x) (auto simp: clock_ok_def)
  have "clock_ok (snd (setTimer d m c))" for d m using c by simp
  moreover have "m \<noteq> newMessageId (rr_id r)" if "jget (fc_timers c) i = Some (d, m)" for i d m
    using rc_inv_owner [OF assms(1) [unfolded w] that] assms(3) by (auto simp: w jhas_def)
  ultimately show ?thesis using assms fresh
    by (auto simp: w rc_inv_def rc_send_def chan_send_def setTimer_def Let_def)
qed

lemma rc_inv_raw:
  assumes "rc_inv w"
  shows "rc_inv (rc_onRawMessage C r now text w)"
proof -
  obtain c s where w: "w = (c, s)" by (cases w)
  show ?thesis
  proof (cases "parseDeliveryFrame text")
    case None
    with assms show ?thesis by (simp add: w rc_onRawMessage_def)
  next
    case (Some f)
    show ?thesis
    proof (cases f)
      case (MsgFrame m a b)
      with assms Some show ?thesis
        by (auto simp: w rc_onRawMessage_def rc_inv_def chan_send_def Let_def split: option.splits)
    next
      case (AckFrame m sealed)
      show ?thesis
      proof (cases "jget (rc_pending s) m")
        case None
        with AckFrame Some assms show ?thesis by (simp add: w rc_onRawMessage_def)
      next
        case e: (Some e)
        have "pe_timer e' \<noteq> pe_timer e" if "jget (rc_pending s) m' = Some e'" "m' \<noteq> m" for m' e'
          using rc_inv_timer [OF assms [unfolded w] that(1)] rc_inv_timer [OF assms [unfolded w] e] that(2) by auto
        moreover have "m' \<noteq> m" if "jget (fc_timers c) i = Some (d, m')" "i \<noteq> pe_timer e" for i d m'
          using rc_inv_owner [OF assms [unfolded w] that(1)] that(2) e by auto
        ultimately show ?thesis using e AckFrame Some assms
          by (auto simp: w rc_onRawMessage_def rc_inv_def jhas_def split: option.splits)
      qed
    qed
  qed
qed

lemma rc_inv_fire:
  assumes inv: "rc_inv (c, s)" and n: "next_due target (fc_timers c) = Some (i, due, m)"
  shows "rc_inv (rc_expire m (begin_fire i due c, s))"
    and "snd (rc_expire m (begin_fire i due c, s)) =
      s\<lparr>rc_pending := jdel m (rc_pending s), rc_settled := rc_settled s @ [(m, DeliveryTimeout)]\<rparr>"
    and "jhas (rc_pending s) m"
proof -
  have c: "clock_ok c" using inv by (simp add: rc_inv_def)
  have t: "jget (fc_timers c) i = Some (due, m)"
    using next_due_Some(2) [OF n] c by (auto simp: clock_ok_def jmap_mem_iff)
  then obtain e where e: "jget (rc_pending s) m = Some e" "pe_timer e = i" using rc_inv_owner [OF inv] by blast
  then show has: "jhas (rc_pending s) m" by (simp add: jhas_def)
  then show "snd (rc_expire m (begin_fire i due c, s)) =
      s\<lparr>rc_pending := jdel m (rc_pending s), rc_settled := rc_settled s @ [(m, DeliveryTimeout)]\<rparr>"
    by (simp add: rc_expire_def)
  have other: "pe_timer e' \<noteq> i" if "jget (rc_pending s) m' = Some e'" "m' \<noteq> m" for m' e'
    using rc_inv_timer [OF inv that(1)] t that(2) by auto
  have uniq: "m' \<noteq> m" if "jget (fc_timers c) i' = Some (d, m')" "i' \<noteq> i" for i' d m'
    using rc_inv_owner [OF inv that(1)] that(2) e by auto
  have "clock_ok (begin_fire i due c)" by (rule begin_fire_ok [OF c n])
  moreover have "fc_timers (begin_fire i due c) = jdel i (fc_timers c)" by (simp add: begin_fire_def)
  ultimately show "rc_inv (rc_expire m (begin_fire i due c, s))"
    using inv has other uniq by (auto simp: rc_inv_def rc_expire_def jhas_def)
qed

lemma quiet_rc_expire: "quiet rc_expire"
  by (simp add: quiet_def rc_expire_def Let_def split: prod.splits)

text \<open>Time passes: exactly the messages whose deadline is reached are settled, as timeouts.\<close>

definition rc_expired :: "nat \<Rightarrow> reliable_channel \<Rightarrow> reliable_channel \<Rightarrow> bool" where
  "rc_expired t s s' = (\<forall>m e. jget (rc_pending s) m = Some e \<longrightarrow>
     (if pe_sentAt e + rc_ackTimeoutMs s \<le> t then \<not> jhas (rc_pending s') m \<and> jget (rc_settled s') m = Some DeliveryTimeout
      else jget (rc_pending s') m = Some e))"

lemma rc_advance_spec:
  assumes inv: "rc_inv (c, s)"
  shows "\<exists>c' s'. rc_advance ms (c, s) = Some (c', s') \<and> rc_inv (c', s') \<and> fc_clock c' = fc_clock c + ms
    \<and> rc_expired (fc_clock c + ms) s s' \<and> (\<forall>m. jhas (rc_pending s') m \<longrightarrow> jhas (rc_pending s) m)"
proof -
  have c: "clock_ok c" using inv by (simp add: rc_inv_def)
  obtain c' s' where r: "rc_advance ms (c, s) = Some (c', s')" "fc_clock c' = fc_clock c + ms" "clock_ok c'"
    and timers: "\<And>i. jget (fc_timers c') i = (case jget (fc_timers c) i of
          Some (due, cb) \<Rightarrow> if due \<le> fc_clock c + ms then None else Some (due, cb) | None \<Rightarrow> None)"
    using advance_quiet [OF quiet_rc_expire c, of ms s] unfolding rc_advance_def by blast
  let ?P = "\<lambda>(c1, s1). rc_inv (c1, s1) \<and> rc_ackTimeoutMs s1 = rc_ackTimeoutMs s
    \<and> (\<forall>m. jget (rc_pending s1) m = jget (rc_pending s) m \<or>
         jget (rc_pending s1) m = None \<and> (jhas (rc_pending s) m \<longrightarrow> jget (rc_settled s1) m = Some DeliveryTimeout))"
  have step: "?P (rc_expire m (begin_fire i due c1, s1))"
    if "?P (c1, s1)" "next_due (fc_clock c + ms) (fc_timers c1) = Some (i, due, m)" for i due m c1 s1
  proof -
    have inv1: "rc_inv (c1, s1)" using that(1) by simp
    note f = rc_inv_fire [OF inv1 that(2)]
    obtain c2 s2 where e: "rc_expire m (begin_fire i due c1, s1) = (c2, s2)" by (cases "rc_expire m (begin_fire i due c1, s1)")
    have "\<not> jhas (rc_settled s1) m" using inv1 f(3) by (auto simp: rc_inv_def)
    then show ?thesis using f that(1) unfolding e by (auto simp: map_add_def jhas_def split: option.splits)
  qed
  have base: "?P (c, s)" using inv by simp
  have loop: "advance_loop rc_expire (fc_clock c + ms) (c, s) = Some (c', s')"
    using r(1) by (simp add: rc_advance_def advance_def)
  have "\<exists>c0. ?P (c0, snd (c', s')) \<and> next_due (fc_clock c + ms) (fc_timers c0) = None
      \<and> fst (c', s') = c0\<lparr>fc_clock := fc_clock c + ms\<rparr>"
    by (rule advance_loop_invariant [where P = ?P, OF loop base]) (rule step)
  then obtain c0 where p: "?P (c0, s')" and c': "c' = c0\<lparr>fc_clock := fc_clock c + ms\<rparr>" by auto
  have inv': "rc_inv (c', s')" using p r(3) by (auto simp: rc_inv_def c')
  have "rc_expired (fc_clock c + ms) s s'" unfolding rc_expired_def
  proof (intro allI impI)
    fix m e assume e: "jget (rc_pending s) m = Some e"
    note t = rc_inv_timer [OF inv e]
    have pm: "jget (rc_pending s') m = jget (rc_pending s) m \<or> jget (rc_pending s') m = None
        \<and> (jhas (rc_pending s) m \<longrightarrow> jget (rc_settled s') m = Some DeliveryTimeout)" using p by simp
    show "if pe_sentAt e + rc_ackTimeoutMs s \<le> fc_clock c + ms
        then \<not> jhas (rc_pending s') m \<and> jget (rc_settled s') m = Some DeliveryTimeout
        else jget (rc_pending s') m = Some e"
    proof (cases "pe_sentAt e + rc_ackTimeoutMs s \<le> fc_clock c + ms")
      case True
      then have "jget (fc_timers c') (pe_timer e) = None" using timers t by simp
      then have "jget (rc_pending s') m \<noteq> Some e" using rc_inv_timer [OF inv'] by auto
      with pm e True show ?thesis by (auto simp: jhas_def)
    next
      case False
      then have "jget (fc_timers c') (pe_timer e) = Some (pe_sentAt e + rc_ackTimeoutMs s, m)" using timers t by simp
      from rc_inv_owner [OF inv' this] have "jhas (rc_pending s') m" by (auto simp: jhas_def)
      with pm e False show ?thesis by (auto simp: jhas_def)
    qed
  qed
  moreover have "\<forall>m. jhas (rc_pending s') m \<longrightarrow> jhas (rc_pending s) m"
    using p unfolding prod.case jhas_def by metis
  ultimately show ?thesis using r inv' by blast
qed

lemma rc_inv_step: "rc_step C w w' \<Longrightarrow> rc_inv w \<Longrightarrow> rc_inv w'"
proof (induction rule: rc_step.induct)
  case (Tick ms w w')
  then show ?case using rc_advance_spec [of "fst w" "snd w" ms] by auto
qed (simp_all add: rc_inv_send rc_inv_raw)

lemma rc_inv_reachable: "(rc_step C)\<^sup>*\<^sup>* (FakeClock, ReliableChannel ch t) w \<Longrightarrow> rc_inv w"
  by (induction rule: rtranclp_induct) (auto intro: rc_inv_step rc_inv_init)

text \<open>
  A pending message leaves the queue only through a receipt that verifies under its one-time key, or
  through its timeout; the step records which.
\<close>

lemma rc_leaves_pending:
  assumes "rc_step C (c, s) (c', s')" "rc_inv (c, s)" "jget (rc_pending s) m = Some e" "\<not> jhas (rc_pending s') m"
  shows "jget (rc_settled s') m = Some Resolved \<and> (\<exists>sealed. verifyAck C m sealed (pe_ackKey e) \<noteq> None)
    \<or> jget (rc_settled s') m = Some DeliveryTimeout \<and> pe_sentAt e + rc_ackTimeoutMs s \<le> fc_clock c'"
  using assms(1)
proof (cases rule: rc_step.cases)
  case (Send r body)
  with assms(3,4) show ?thesis
    by (auto simp: rc_send_def chan_send_def Let_def jhas_def split: prod.splits if_splits)
next
  case (Receive r now raw)
  have nset: "\<not> jhas (rc_settled s) m" using assms(2,3) by (auto simp: rc_inv_def jhas_def)
  show ?thesis
  proof (cases "parseDeliveryFrame raw")
    case None
    with Receive assms(3,4) show ?thesis by (simp add: rc_onRawMessage_def jhas_def)
  next
    case (Some f)
    show ?thesis
    proof (cases f)
      case (MsgFrame m' a b)
      with Some Receive assms(3,4) show ?thesis
        by (auto simp: rc_onRawMessage_def chan_send_def Let_def jhas_def split: option.splits if_splits)
    next
      case (AckFrame m' sealed)
      with Some Receive assms(3,4) have "m' = m" "verifyAck C m sealed (pe_ackKey e) \<noteq> None"
        "s' = s\<lparr>rc_pending := jdel m (rc_pending s), rc_settled := rc_settled s @ [(m, Resolved)]\<rparr>"
        by (auto simp: rc_onRawMessage_def jhas_def split: option.splits if_splits)
      with nset show ?thesis by (auto simp: map_add_def jhas_def split: option.splits)
    qed
  qed
next
  case (Tick ms)
  with rc_advance_spec [OF assms(2), of ms] have x: "rc_expired (fc_clock c + ms) s s'" "fc_clock c' = fc_clock c + ms"
    by auto
  then show ?thesis
    using x(1) [unfolded rc_expired_def, rule_format, OF assms(3)] assms(3,4) by (auto simp: jhas_def split: if_splits)
qed

subsection \<open>Two ends\<close>

text \<open>A send, its delivery at the other end, and the receipt's way back.\<close>

lemma rc_send_sel:
  "rc_pending (snd (rc_send C r body (c, s))) = jset (newMessageId (rr_id r))
     \<lparr>pe_messageId = newMessageId (rr_id r), pe_body = body, pe_ackKey = generateOneTimeAckKey C (rr_ackPriv r),
      pe_sentAt = fc_clock c, pe_timer = fc_seq c\<rparr> (rc_pending s)"
  "rc_wire (snd (rc_send C r body (c, s))) = rc_wire s @ [sc_send C (rr_nonce r) (rc_channel s)
     (buildMessageFrame (newMessageId (rr_id r)) (generateOneTimeAckKey C (rr_ackPriv r)) body)]"
  "rc_settled (snd (rc_send C r body (c, s))) = rc_settled s"
  by (simp_all add: rc_send_def chan_send_def setTimer_def Let_def)

lemma rc_round_trip:
  assumes crypto: "dh_ok C" "aead_ok C" "x_pub C a \<noteq> x_pub C b"
    and cha: "SecureChannel C a (x_pub C a) (x_pub C b) = Some (rc_channel sa)"
    and chb: "SecureChannel C b (x_pub C b) (x_pub C a) = Some (rc_channel sb)"
    and nonces: "length (rr_nonce r) = 24" "length (rr_nonce r') = 24" and cb: "rc_hasCb sb"
    and fresh: "\<not> jhas (rc_settled sa) (newMessageId (rr_id r))"
  shows "\<exists>text sealed box.
      sc_receive C (rc_channel sb) (last (rc_wire (snd (rc_send C r body (ca, sa))))) = Some text
    \<and> rc_delivered (snd (rc_onRawMessage C r' now text (cb', sb))) = rc_delivered sb @ [body]
    \<and> sc_receive C (rc_channel sa) (last (rc_wire (snd (rc_onRawMessage C r' now text (cb', sb))))) = Some sealed
    \<and> \<not> jhas (rc_pending (snd (rc_onRawMessage C r'' now' sealed (rc_send C r body (ca, sa))))) (newMessageId (rr_id r))
    \<and> jget (rc_settled (snd (rc_onRawMessage C r'' now' sealed (rc_send C r body (ca, sa))))) (newMessageId (rr_id r)) = Some Resolved
    \<and> box = sealed"
proof -
  let ?m = "newMessageId (rr_id r)" and ?k = "generateOneTimeAckKey C (rr_ackPriv r)"
  let ?w = "rc_send C r body (ca, sa)"
  let ?text = "buildMessageFrame ?m ?k body"
  have up: "sc_receive C (rc_channel sb) (last (rc_wire (snd ?w))) = Some ?text"
    unfolding rc_send_sel using secure_channel_delivers [OF crypto nonces(1) cha chb] by simp
  obtain box where box: "seal C (rr_eph r') (utf8 (json_str (ack_payload ?m now))) (x_pub C (rr_ackPriv r)) = Some box"
    using seal_total [OF crypto(1)] by blast
  obtain ack where ack: "buildAckFrame C (rr_eph r') ?m (ak_pub ?k) now = Some ack"
      "parseDeliveryFrame ack = Some (AckFrame ?m (b64uEncode box))"
    using built_ack [OF box] by (auto simp: generateOneTimeAckKey_def)
  have recv: "snd (rc_onRawMessage C r' now ?text (cb', sb)) =
      chan_send C (rr_nonce r') ack (sb\<lparr>rc_delivered := rc_delivered sb @ [body]\<rparr>)"
    using ack(1) cb by (simp add: rc_onRawMessage_def Let_def)
  have down: "sc_receive C (rc_channel sa) (last (rc_wire (snd (rc_onRawMessage C r' now ?text (cb', sb))))) = Some ack"
    unfolding recv using secure_channel_delivers [OF crypto(1,2) crypto(3) [symmetric] nonces(2) chb cha]
    by (simp add: chan_send_def)
  obtain c1 s1 where w: "?w = (c1, s1)" by (cases ?w)
  have p: "jget (rc_pending s1) ?m = Some \<lparr>pe_messageId = ?m, pe_body = body, pe_ackKey = ?k, pe_sentAt = fc_clock ca, pe_timer = fc_seq ca\<rparr>"
      "rc_settled s1 = rc_settled sa"
    using rc_send_sel [of C r body ca sa] by (simp_all add: w)
  have v: "verifyAck C ?m (b64uEncode box) ?k = Some (ack_payload ?m now)"
    using built_ack_verifies [OF crypto(1,2) box] by simp
  have "snd (rc_onRawMessage C r'' now' ack (c1, s1)) =
      s1\<lparr>rc_pending := jdel ?m (rc_pending s1), rc_settled := rc_settled s1 @ [(?m, Resolved)]\<rparr>"
    using ack(2) p v by (simp add: rc_onRawMessage_def)
  with up down recv fresh p(2) show ?thesis
    unfolding w by (intro exI [of _ ?text] exI [of _ ack]) (auto simp: chan_send_def map_add_def jhas_def split: option.splits)
qed

end
