(* ===== verification/MigrationCore.thy ===== *)
theory MigrationCore
  imports Wire Clock
begin

text \<open>
  \<open>orp-ref/core/migration.ts\<close>: key migrations, their acknowledgements, the verifiers and the
  recipient's registry. The lemmas: what is built verifies; what verifies was authorised by the old
  key and binds the new one; the registry follows chains to their end and survives cycles.
\<close>

subsection \<open>Builders\<close>

definition migrationSigningBody :: "json \<Rightarrow> json" where
  "migrationSigningBody m = obj_of (map (\<lambda>k. (k, jprop m k))
     [''type'', ''old_key'', ''new_key'', ''new_binding'', ''issued_utc'', ''retire_after_utc'',
      ''session_nonce'', ''timestamp_utc''])"

definition migration_body ::
  "device_identity \<Rightarrow> device_identity \<Rightarrow> string \<Rightarrow> string option \<Rightarrow> string option \<Rightarrow> string option
    \<Rightarrow> bytes \<Rightarrow> string \<Rightarrow> fields" where
  "migration_body oldIdentity newIdentity retire issued nonce now rnd sys =
     [(''type'', JStr ''key_migration''),
      (''old_key'', JStr (identityKeyB64 oldIdentity)),
      (''new_key'', JStr (identityKeyB64 newIdentity)),
      (''new_binding'', di_binding newIdentity),
      (''issued_utc'', JStr (or_default issued (nowIso now sys))),
      (''retire_after_utc'', JStr retire),
      (''session_nonce'', JStr (or_default nonce (newNonce rnd))),
      (''timestamp_utc'', JStr (nowIso now sys))]"

definition makeKeyMigration ::
  "crypto \<Rightarrow> device_identity \<Rightarrow> device_identity \<Rightarrow> string \<Rightarrow> string option \<Rightarrow> string option \<Rightarrow> string option
    \<Rightarrow> bytes \<Rightarrow> string \<Rightarrow> fields" where
  "makeKeyMigration C oldIdentity newIdentity retire issued nonce now rnd sys =
     (let body = migration_body oldIdentity newIdentity retire issued nonce now rnd sys;
          preimage = canonicalBytes (JObj body)
      in body @ [(''old_sig'', JStr (b64uEncode (di_sign C oldIdentity preimage))),
                 (''new_sig'', JStr (b64uEncode (di_sign C newIdentity preimage)))])"

definition makeMigrationAck ::
  "crypto \<Rightarrow> device_identity \<Rightarrow> json \<Rightarrow> string option \<Rightarrow> string option \<Rightarrow> bytes \<Rightarrow> string \<Rightarrow> fields" where
  "makeMigrationAck C recipient migration nonce now rnd sys = signObject C recipient
     [(''type'', JStr ''migration_ack''),
      (''acked_by'', JStr (identityKeyB64 recipient)),
      (''old_key'', JStr (jstr (jprop migration ''old_key''))),
      (''new_key'', JStr (jstr (jprop migration ''new_key''))),
      (''migration_nonce'', JStr (jstr (jprop migration ''session_nonce''))),
      (''session_nonce'', JStr (or_default nonce (newNonce rnd))),
      (''timestamp_utc'', JStr (nowIso now sys))]"

subsection \<open>Verifiers\<close>

definition verifyKeyMigration :: "crypto \<Rightarrow> json \<Rightarrow> string + unit" where
  "verifyKeyMigration C m =
     (if validateSchema KEY_MIGRATION_SCHEMA m \<noteq> [] then
        Inl (join ''; '' (validateSchema KEY_MIGRATION_SCHEMA m))
      else if jprop m ''old_key'' = jprop m ''new_key'' then Inl ''old-and-new-key-identical''
      else
        (let b = the (jprop m ''new_binding'')
         in if \<not> verifyBinding C b then Inl ''bad-new-binding''
            else if jprop b ''identity_key'' \<noteq> jprop m ''new_key'' then Inl ''new-binding-identity-mismatch''
            else
              (let preimage = canonicalBytes (migrationSigningBody m);
                   verified = (\<lambda>sig key. ed_verify C (b64uDecode (jstr (jprop m sig))) preimage
                                (b64uDecode (jstr (jprop m key))))
               in case verified ''old_sig'' ''old_key'' of
                    None \<Rightarrow> Inl ''malformed-signature''
                  | Some False \<Rightarrow> Inl ''bad-old-signature''
                  | Some True \<Rightarrow>
                      (case verified ''new_sig'' ''new_key'' of
                         None \<Rightarrow> Inl ''malformed-signature''
                       | Some False \<Rightarrow> Inl ''bad-new-signature''
                       | Some True \<Rightarrow> Inr ()))))"

definition verifyMigrationAck :: "crypto \<Rightarrow> json \<Rightarrow> string option \<Rightarrow> string + unit" where
  "verifyMigrationAck C a expectedRecipientKey =
     (if validateSchema MIGRATION_ACK_SCHEMA a \<noteq> [] then
        Inl (join ''; '' (validateSchema MIGRATION_ACK_SCHEMA a))
      else if \<not> verifyObject C (obj_fields a) (jstr (jprop a ''acked_by'')) then Inl ''bad-signature''
      else if (case expectedRecipientKey of None \<Rightarrow> False
               | Some k \<Rightarrow> k \<noteq> [] \<and> jstr (jprop a ''acked_by'') \<noteq> k) then Inl ''unexpected-acker''
      else Inr ())"

subsection \<open>The registry\<close>

record accepted_migration =
  am_newKey :: string
  am_newBinding :: json
  am_retireAfterMs :: int

type_synonym registry = "(string, accepted_migration) jmap"

definition reg_accept :: "crypto \<Rightarrow> registry \<Rightarrow> json \<Rightarrow> (string + unit) \<times> registry" where
  "reg_accept C byOldKey m =
     (case verifyKeyMigration C m of
        Inl e \<Rightarrow> (Inl e, byOldKey)
      | Inr _ \<Rightarrow>
          (case date_parse (jstr (jprop m ''retire_after_utc'')) of
             None \<Rightarrow> (Inl ''bad-retire-after-utc'', byOldKey)
           | Some ms \<Rightarrow>
               (Inr (), jset (jstr (jprop m ''old_key''))
                  \<lparr>am_newKey = jstr (jprop m ''new_key''), am_newBinding = the (jprop m ''new_binding''),
                   am_retireAfterMs = ms\<rparr> byOldKey)))"

definition hasMigration :: "registry \<Rightarrow> string \<Rightarrow> bool" where
  "hasMigration byOldKey key = jhas byOldKey key"

lemma filter_shrinks:
  assumes "x \<in> set xs" "P x" "\<not> Q x" "\<And>y. Q y \<Longrightarrow> P y"
  shows "length (filter Q xs) < length (filter P xs)"
  using assms(1)
proof (induction xs)
  case (Cons a xs)
  have le: "length (filter Q xs) \<le> length (filter P xs)" for xs
    using assms(4) by (induction xs) auto
  show ?case
  proof (cases "x = a")
    case True
    with assms le [of xs] show ?thesis by simp
  next
    case False
    with Cons have "length (filter Q xs) < length (filter P xs)" by simp
    then show ?thesis using assms(4) by auto
  qed
qed simp

text \<open>
  The loop of \<open>currentKey\<close> and, with the binding of the last step, that of \<open>currentBinding\<close>. Every
  round adds a key to \<open>seen\<close> that the registry can lead to, so the loop ends.
\<close>

function current_loop :: "registry \<Rightarrow> string list \<Rightarrow> string \<Rightarrow> json option \<Rightarrow> string \<times> json option" where
  "current_loop byOldKey seen cur binding =
     (case jget byOldKey cur of
        None \<Rightarrow> (cur, binding)
      | Some nxt \<Rightarrow>
          if am_newKey nxt \<in> set seen then (cur, binding)
          else current_loop byOldKey (set_add (am_newKey nxt) seen) (am_newKey nxt) (Some (am_newBinding nxt)))"
  by pat_completeness auto

termination
proof (relation "measure (\<lambda>(r, seen, _, _). length (filter (\<lambda>(_, m). am_newKey m \<notin> set seen) r))")
  show "((r, set_add (am_newKey nxt) seen, am_newKey nxt, Some (am_newBinding nxt)), (r, seen, cur, b))
      \<in> measure (\<lambda>(r, seen, _, _). length (filter (\<lambda>(_, m). am_newKey m \<notin> set seen) r))"
    if "jget r cur = Some nxt" "am_newKey nxt \<notin> set seen" for r :: registry and seen cur b nxt
    using that map_of_SomeD [OF that(1)]
    by (auto intro!: filter_shrinks [where x = "(cur, nxt)"])
qed simp

declare current_loop.simps [simp del]

definition currentKey :: "registry \<Rightarrow> string \<Rightarrow> string" where
  "currentKey byOldKey key = fst (current_loop byOldKey [key] key None)"

definition currentBinding :: "registry \<Rightarrow> string \<Rightarrow> json option" where
  "currentBinding byOldKey key = snd (current_loop byOldKey [key] key None)"

definition isRetired :: "registry \<Rightarrow> string \<Rightarrow> string \<Rightarrow> bool" where
  "isRetired byOldKey key nowUtc =
     (case jget byOldKey key of
        None \<Rightarrow> False
      | Some m \<Rightarrow> (case date_parse nowUtc of Some t \<Rightarrow> am_retireAfterMs m \<le> t | None \<Rightarrow> False))"

definition isValid :: "registry \<Rightarrow> string \<Rightarrow> string \<Rightarrow> bool" where
  "isValid byOldKey key nowUtc = (\<not> isRetired byOldKey key nowUtc)"

subsection \<open>What is built verifies\<close>

lemma built_body: "migrationSigningBody (JObj (makeKeyMigration C old new r i n now rnd sys)) =
    JObj (migration_body old new r i n now rnd sys)"
  by (simp add: migrationSigningBody_def makeKeyMigration_def migration_body_def Let_def obj_of_def
      List.map_filter_simps)

lemma makeKeyMigration_schema:
  assumes "identity_ok C new"
  shows "schema_valid KEY_MIGRATION_SCHEMA (JObj (makeKeyMigration C old new r i n now rnd sys))"
  unfolding KEY_MIGRATION_SCHEMA_def schema_obj_iff using binding_matches [OF assms]
  by (auto simp: makeKeyMigration_def migration_body_def Let_def in_obj_def)

definition sig_works :: "crypto \<Rightarrow> device_identity \<Rightarrow> bytes \<Rightarrow> bool" where
  \<comment> \<open>the identity's signature on the message verifies\<close>
  "sig_works C i m = (ed_verify C (di_sign C i m) m (signingPub i) = Some True)"

lemma sig_works_ok: "ed_ok C \<Longrightarrow> identity_ok C i \<Longrightarrow> sig_works C i m"
  using identity_ok_keys [of C i] by (simp add: sig_works_def ed_ok_def di_sign_def)

lemma migration_checks:
  assumes "identity_ok C new" "verifyBinding C (di_binding new)" "identityKeyB64 old \<noteq> identityKeyB64 new"
    and "sig_works C old (canonicalBytes (JObj (migration_body old new r i n now rnd sys)))"
    and "sig_works C new (canonicalBytes (JObj (migration_body old new r i n now rnd sys)))"
  shows "verifyKeyMigration C (JObj (makeKeyMigration C old new r i n now rnd sys)) = Inr ()"
proof -
  let ?m = "makeKeyMigration C old new r i n now rnd sys"
  let ?pre = "canonicalBytes (JObj (migration_body old new r i n now rnd sys))"
  have g: "jget ?m ''old_key'' = Some (JStr (identityKeyB64 old))" "jget ?m ''new_key'' = Some (JStr (identityKeyB64 new))"
    "jget ?m ''new_binding'' = Some (di_binding new)"
    "jget ?m ''old_sig'' = Some (JStr (b64uEncode (di_sign C old ?pre)))"
    "jget ?m ''new_sig'' = Some (JStr (b64uEncode (di_sign C new ?pre)))"
    by (simp_all add: makeKeyMigration_def migration_body_def Let_def)
  show ?thesis
    using assms(2-5) jprop_binding_ok [OF assms(1)]
    by (simp add: verifyKeyMigration_def valid_iff_no_errors makeKeyMigration_schema [OF assms(1)] g built_body Let_def
        identityKeyB64_def sig_works_def)
qed

lemma built_migration_verifies:
  assumes "ed_ok C" "identity_ok C old" "identity_ok C new" "identityKeyB64 old \<noteq> identityKeyB64 new"
  shows "verifyKeyMigration C (JObj (makeKeyMigration C old new r i n now rnd sys)) = Inr ()"
  by (rule migration_checks [OF assms(3) verifyBinding_identity [OF assms(1,3)] assms(4)
        sig_works_ok [OF assms(1,2)] sig_works_ok [OF assms(1,3)]])

lemma makeMigrationAck_verifies:
  assumes "ed_ok C" "ed_nonempty C" "identity_ok C i"
  shows "verifyMigrationAck C (JObj (makeMigrationAck C i m n now rnd sys)) (Some (identityKeyB64 i)) = Inr ()"
proof -
  have "schema_valid MIGRATION_ACK_SCHEMA (JObj (makeMigrationAck C i m n now rnd sys))"
    unfolding MIGRATION_ACK_SCHEMA_def makeMigrationAck_def by (intro signed_valid) auto
  moreover have "verifyObject C (makeMigrationAck C i m n now rnd sys) (identityKeyB64 i)"
    unfolding makeMigrationAck_def by (rule verify_signObject [OF assms])
  moreover have "jget (makeMigrationAck C i m n now rnd sys) ''acked_by'' = Some (JStr (identityKeyB64 i))"
    by (simp add: makeMigrationAck_def)
  ultimately show ?thesis by (simp add: verifyMigrationAck_def valid_iff_no_errors)
qed

subsection \<open>What verifies was authorised\<close>

lemma verifyKeyMigration_Inr:
  assumes "verifyKeyMigration C m = Inr ()"
  shows "\<exists>ok nk b. jprop m ''old_key'' = Some (JStr ok) \<and> jprop m ''new_key'' = Some (JStr nk) \<and> ok \<noteq> nk
    \<and> jprop m ''new_binding'' = Some b \<and> matches KEY_BINDING_SCHEMA b \<and> verifyBinding C b
    \<and> jprop b ''identity_key'' = Some (JStr nk)
    \<and> (\<exists>sig. ed_verify C sig (canonicalBytes (migrationSigningBody m)) (b64uDecode ok) = Some True)
    \<and> (\<exists>sig. ed_verify C sig (canonicalBytes (migrationSigningBody m)) (b64uDecode nk) = Some True)"
proof -
  have sv: "schema_valid KEY_MIGRATION_SCHEMA m"
    using assms by (auto simp: verifyKeyMigration_def schema_valid_def split: if_splits)
  then obtain fs where f: "m = JObj fs" using closed_schema_keys unfolding KEY_MIGRATION_SCHEMA_def by blast
  note sv' = sv [unfolded f KEY_MIGRATION_SCHEMA_def]
  have "\<exists>s. jget fs ''old_key'' = Some (JStr s)" "\<exists>s. jget fs ''new_key'' = Some (JStr s)"
    by (rule required_str [OF sv']; simp add: object_prototype_def)+
  then obtain ok nk where k: "jget fs ''old_key'' = Some (JStr ok)" "jget fs ''new_key'' = Some (JStr nk)"
    by blast
  have "jhas fs ''new_binding''"
    using sv unfolding f KEY_MIGRATION_SCHEMA_def
    by (rule schema_required) (simp_all add: object_prototype_def)
  then obtain b where b: "jget fs ''new_binding'' = Some b" by (auto simp: jhas_def)
  have "matches KEY_BINDING_SCHEMA b"
    using sv unfolding f KEY_MIGRATION_SCHEMA_def by (rule schema_field [OF _ _ b]) simp
  moreover note k b
  ultimately show ?thesis
    using assms unfolding f verifyKeyMigration_def
    by (auto simp: Let_def split: if_splits option.splits bool.splits)
qed

lemma signing_body_get:
  assumes "k \<in> {''type'', ''old_key'', ''new_key'', ''new_binding''}"
  shows "\<exists>fs. migrationSigningBody m = JObj fs \<and> jget fs k = jprop m k"
proof -
  have g: "jget (List.map_filter (\<lambda>(k, v). map_option (Pair k) v) (map (\<lambda>k. (k, f k)) ks)) k =
      (if k \<in> set ks then f k else None)" for f :: "string \<Rightarrow> json option" and ks
    by (induction ks) (auto simp: List.map_filter_simps split: option.splits)
  show ?thesis unfolding migrationSigningBody_def obj_of_def using assms by (auto simp: g simp del: list.map)
qed

text \<open>
  The old key's holder signed nothing but the bodies in \<open>B\<close>: a migration that verifies names the new
  key and carries the binding of one of them.
\<close>

lemma migration_authorised:
  assumes v: "verifyKeyMigration C m = Inr ()" and ok: "jprop m ''old_key'' = Some (JStr ok)"
    and only: "ed_only_signed C (b64uDecode ok) (canonicalBytes ` JObj ` B)"
    and wf: "wf_json (migrationSigningBody m)" "\<forall>b\<in>B. wf_json (JObj b)"
  shows "\<exists>b\<in>B. jget b ''new_key'' = jprop m ''new_key'' \<and> jget b ''old_key'' = Some (JStr ok)"
proof -
  obtain sig where "ed_verify C sig (canonicalBytes (migrationSigningBody m)) (b64uDecode ok) = Some True"
    using verifyKeyMigration_Inr [OF v] ok by auto
  then obtain b where b: "b \<in> B" "canonicalBytes (migrationSigningBody m) = canonicalBytes (JObj b)"
    using only unfolding ed_only_signed_def by blast
  obtain nk where nk: "jprop m ''new_key'' = Some (JStr nk)" using verifyKeyMigration_Inr [OF v] by blast
  obtain fs where f: "migrationSigningBody m = JObj fs" by (simp add: migrationSigningBody_def obj_of_def)
  have "jget fs ''new_key'' = Some (JStr nk)" "jget fs ''old_key'' = Some (JStr ok)"
    using signing_body_get [of "''new_key''" m] signing_body_get [of "''old_key''" m] nk ok f by auto
  moreover have n: "norm_json (JObj fs) = norm_json (JObj b)" "wf_json (JObj fs)" "wf_json (JObj b)"
    using b wf f canonicalBytes_eq_iff by fastforce+
  ultimately have "jget b ''new_key'' = Some (JStr nk)" "jget b ''old_key'' = Some (JStr ok)"
    using norm_json_get_str [OF n] by blast+
  with b(1) nk show ?thesis by auto
qed

subsection \<open>The registry's invariant\<close>

text \<open>Every key the registry leads to comes with a binding of its own.\<close>

definition reg_ok :: "crypto \<Rightarrow> registry \<Rightarrow> bool" where
  "reg_ok C r = (jmap_ok r \<and> (\<forall>k m. jget r k = Some m \<longrightarrow>
     k \<noteq> am_newKey m \<and> verifyBinding C (am_newBinding m)
     \<and> jprop (am_newBinding m) ''identity_key'' = Some (JStr (am_newKey m))))"

lemma reg_ok_empty [simp]: "reg_ok C []"
  by (simp add: reg_ok_def)

lemma reg_accept_Inr:
  assumes "reg_accept C r m = (Inr (), r')"
  shows "\<exists>a ok. verifyKeyMigration C m = Inr () \<and> jprop m ''old_key'' = Some (JStr ok) \<and> r' = jset ok a r
    \<and> jprop m ''new_key'' = Some (JStr (am_newKey a)) \<and> jprop m ''new_binding'' = Some (am_newBinding a)
    \<and> date_parse (jstr (jprop m ''retire_after_utc'')) = Some (am_retireAfterMs a)"
proof -
  have v: "verifyKeyMigration C m = Inr ()" using assms by (auto simp: reg_accept_def split: sum.splits)
  from verifyKeyMigration_Inr [OF this] v assms show ?thesis
    by (auto simp: reg_accept_def split: option.splits)
qed

lemma reg_accept_ok:
  assumes "reg_ok C r"
  shows "reg_ok C (snd (reg_accept C r m))"
proof (cases "reg_accept C r m")
  case (Pair e r')
  show ?thesis
  proof (cases e)
    case Inl
    with Pair assms show ?thesis by (auto simp: reg_accept_def split: sum.splits option.splits)
  next
    case (Inr u)
    with Pair have acc: "reg_accept C r m = (Inr (), r')" by simp
    from reg_accept_Inr [OF acc] obtain a ok where a: "verifyKeyMigration C m = Inr ()"
      "jprop m ''old_key'' = Some (JStr ok)" "r' = jset ok a r"
      "jprop m ''new_key'' = Some (JStr (am_newKey a))" "jprop m ''new_binding'' = Some (am_newBinding a)" by blast
    from verifyKeyMigration_Inr [OF a(1)] a have "ok \<noteq> am_newKey a" "verifyBinding C (am_newBinding a)"
      "jprop (am_newBinding a) ''identity_key'' = Some (JStr (am_newKey a))" by auto
    with assms a(3) Pair show ?thesis by (auto simp: reg_ok_def)
  qed
qed

subsection \<open>Following chains\<close>

text \<open>One accepted migration, and the abstract specification of a chain of them.\<close>

definition migrates :: "registry \<Rightarrow> string \<Rightarrow> string \<Rightarrow> bool" where
  "migrates r k k' = (\<exists>m. jget r k = Some m \<and> am_newKey m = k')"

lemma current_loop_spec:
  assumes "current_loop r seen cur b = (k, b')" "cur \<in> set seen" "\<forall>s\<in>set seen. (migrates r)\<^sup>*\<^sup>* s cur"
  shows "(migrates r)\<^sup>*\<^sup>* cur k"
    and "\<not> hasMigration r k \<or> (\<exists>k'. migrates r k k' \<and> (migrates r)\<^sup>*\<^sup>* k' k)"
    and "b' = (if k = cur then b else b') \<and> (k \<noteq> cur \<longrightarrow> (\<exists>p m. jget r p = Some m \<and> am_newKey m = k \<and> b' = Some (am_newBinding m)))"
proof -
  have "(migrates r)\<^sup>*\<^sup>* cur k \<and> (\<not> hasMigration r k \<or> (\<exists>k'. migrates r k k' \<and> (migrates r)\<^sup>*\<^sup>* k' k))
    \<and> (b' = b \<and> k = cur \<or> (k \<notin> set seen \<and> (\<exists>p m. jget r p = Some m \<and> am_newKey m = k \<and> b' = Some (am_newBinding m))))"
    using assms
  proof (induction r seen cur b rule: current_loop.induct)
    case (1 r seen cur b)
    show ?case
    proof (cases "jget r cur")
      case None
      with 1(2) show ?thesis by (subst (asm) current_loop.simps) (simp add: hasMigration_def jhas_def)
    next
      case (Some m)
      have step: "migrates r cur (am_newKey m)" using Some by (auto simp: migrates_def)
      show ?thesis
      proof (cases "am_newKey m \<in> set seen")
        case True
        with 1(2,4) Some step show ?thesis by (subst (asm) current_loop.simps) auto
      next
        case False
        let ?seen = "set_add (am_newKey m) seen"
        have r: "current_loop r ?seen (am_newKey m) (Some (am_newBinding m)) = (k, b')"
          using 1(2) Some False by (subst (asm) current_loop.simps) simp
        have sn: "\<forall>s\<in>set ?seen. (migrates r)\<^sup>*\<^sup>* s (am_newKey m)"
          using 1(4) step by (auto intro: rtranclp.rtrancl_into_rtrancl)
        have ih: "(migrates r)\<^sup>*\<^sup>* (am_newKey m) k"
            "\<not> hasMigration r k \<or> (\<exists>k'. migrates r k k' \<and> (migrates r)\<^sup>*\<^sup>* k' k)"
            "b' = Some (am_newBinding m) \<and> k = am_newKey m \<or>
              (k \<notin> set ?seen \<and> (\<exists>p m. jget r p = Some m \<and> am_newKey m = k \<and> b' = Some (am_newBinding m)))"
          using 1(1) [OF Some False r _ sn] by simp_all
        have "(migrates r)\<^sup>*\<^sup>* cur k" using step ih(1) by (rule converse_rtranclp_into_rtranclp)
        moreover have "k \<notin> set seen \<and> (\<exists>p m. jget r p = Some m \<and> am_newKey m = k \<and> b' = Some (am_newBinding m))"
          using ih(3) False Some by auto
        ultimately show ?thesis using ih(2) by blast
      qed
    qed
  qed
  with assms(2) show "(migrates r)\<^sup>*\<^sup>* cur k"
    and "\<not> hasMigration r k \<or> (\<exists>k'. migrates r k k' \<and> (migrates r)\<^sup>*\<^sup>* k' k)"
    and "b' = (if k = cur then b else b') \<and> (k \<noteq> cur \<longrightarrow> (\<exists>p m. jget r p = Some m \<and> am_newKey m = k \<and> b' = Some (am_newBinding m)))"
    by auto
qed

text \<open>
  \<open>currentKey\<close> follows accepted migrations; it stops at a key that was not migrated or that leads back
  into the chain. Without a cycle it is the end of the chain.
\<close>

lemma currentKey_chain:
  "(migrates r)\<^sup>*\<^sup>* key (currentKey r key)"
  "\<not> hasMigration r (currentKey r key) \<or> (\<exists>k'. migrates r (currentKey r key) k' \<and> (migrates r)\<^sup>*\<^sup>* k' (currentKey r key))"
  using current_loop_spec [of r "[key]" key None "fst (current_loop r [key] key None)" "snd (current_loop r [key] key None)"]
  by (simp_all add: currentKey_def)

lemma currentKey_terminal:
  assumes "(migrates r)\<^sup>*\<^sup>* key k" "\<not> hasMigration r k"
  shows "currentKey r key = k"
proof -
  have det: "b = c" if "migrates r a b" "migrates r a c" for a b c using that by (auto simp: migrates_def)
  have noout: "\<not> migrates r k x" for x using assms(2) by (auto simp: migrates_def hasMigration_def jhas_def)
  have line: "(migrates r)\<^sup>*\<^sup>* a k" if "(migrates r)\<^sup>*\<^sup>* key a" for a using that
  proof (induction rule: rtranclp_induct)
    case (step y z)
    show ?case using step(3)
    proof (cases rule: converse_rtranclpE)
      case base
      with noout step(2) show ?thesis by simp
    next
      case (step w)
      with det [OF step(1) \<open>migrates r y z\<close>] show ?thesis by simp
    qed
  qed (rule assms(1))
  have acyc: "\<not> (migrates r)\<^sup>+\<^sup>+ a a" if "(migrates r)\<^sup>*\<^sup>* a k" for a using that
  proof (induction rule: converse_rtranclp_induct)
    case base
    then show ?case using noout by (meson tranclpD)
  next
    case (step y z)
    show ?case
    proof
      assume "(migrates r)\<^sup>+\<^sup>+ y y"
      then obtain w where "migrates r y w" "(migrates r)\<^sup>*\<^sup>* w y" by (meson tranclpD)
      with det [OF step(1)] have "(migrates r)\<^sup>*\<^sup>* z y" by blast
      from this step(1) have "(migrates r)\<^sup>+\<^sup>+ z z" by (rule rtranclp_into_tranclp1)
      with step(3) show False ..
    qed
  qed
  let ?c = "currentKey r key"
  show ?thesis
  proof (cases "hasMigration r ?c")
    case False
    have "(migrates r)\<^sup>*\<^sup>* ?c k" using line currentKey_chain(1) by blast
    then show ?thesis
    proof (cases rule: converse_rtranclpE)
      case (step w)
      with False show ?thesis by (auto simp: migrates_def hasMigration_def jhas_def)
    qed
  next
    case True
    then obtain k' where "migrates r ?c k'" "(migrates r)\<^sup>*\<^sup>* k' ?c" using currentKey_chain(2) by blast
    then have "(migrates r)\<^sup>+\<^sup>+ ?c ?c" by (rule rtranclp_into_tranclp2)
    with acyc line currentKey_chain(1) show ?thesis by blast
  qed
qed

text \<open>The binding a recipient is given belongs to the key it is given, and verifies.\<close>

lemma currentBinding_owned:
  assumes "reg_ok C r"
  shows "case currentBinding r key of
      None \<Rightarrow> currentKey r key = key
    | Some b \<Rightarrow> verifyBinding C b \<and> jprop b ''identity_key'' = Some (JStr (currentKey r key))"
proof -
  let ?l = "current_loop r [key] key None"
  have "snd ?l = (if fst ?l = key then None else snd ?l)"
    and "fst ?l \<noteq> key \<longrightarrow> (\<exists>p m. jget r p = Some m \<and> am_newKey m = fst ?l \<and> snd ?l = Some (am_newBinding m))"
    using current_loop_spec(3) [of r "[key]" key None "fst ?l" "snd ?l"] by simp_all
  with assms show ?thesis
    unfolding currentBinding_def currentKey_def reg_ok_def by (cases "fst ?l = key") (auto split: option.splits)
qed

end
