(* ===== verification/Frames.thy ===== *)
theory Frames
  imports Wire
begin

text \<open>
  \<open>packages/orpal-core/src/messaging/frames.ts\<close>: the application frames that ride a reliable channel,
  their JSON text and the shape check of the decoder. The decoder inverts the encoder, and an
  encoded frame is never mistaken for another kind.
\<close>

definition APP_FRAME_VERSION :: rat where
  "APP_FRAME_VERSION = 1"

definition SEAL_ALG :: string where
  "SEAL_ALG = ''orp-sealedbox-v1''"

datatype challenge_target = OldKey | NewKey

record file_offer =
  fo_fileId :: string
  fo_name :: string
  fo_size :: rat
  fo_mime :: string
  fo_chunkSize :: rat
  fo_chunks :: rat
  fo_sha256 :: string
  fo_ts :: rat

datatype app_frame =
    TextFrame (tf_id: string) (tf_text: string) (tf_ts: rat)
  | AwkFrame (af_id: string) (af_ts: rat)
  | FileOfferFrame file_offer
  | FileChunkFrame (fc_fileId: string) (fc_i: rat) (fc_data: string)
  | FileDoneFrame (fd_fileId: string)
  | SealedFrame (sf_alg: string) (sf_box: string)
  | HelloFrame (hf_card: string)
  | KeyMigrationFrame (kf_migration: json)
  | MigrationAckFrame (mf_ack: json)
  | MigrationChallengeFrame challenge_target string string
  | MigrationChallengeResponseFrame challenge_target string

definition target_str :: "challenge_target \<Rightarrow> string" where
  "target_str t = (case t of OldKey \<Rightarrow> ''old'' | NewKey \<Rightarrow> ''new'')"

definition target_of :: "json option \<Rightarrow> challenge_target option" where
  "target_of v = (if v = Some (JStr ''old'') then Some OldKey
     else if v = Some (JStr ''new'') then Some NewKey else None)"

definition app_frame_json :: "app_frame \<Rightarrow> json" where
  "app_frame_json f = JObj ((''v'', JNum APP_FRAME_VERSION) # (case f of
       TextFrame i t ts \<Rightarrow> [(''t'', JStr ''text''), (''id'', JStr i), (''text'', JStr t), (''ts'', JNum ts)]
     | AwkFrame i ts \<Rightarrow> [(''t'', JStr ''awk''), (''id'', JStr i), (''ts'', JNum ts)]
     | FileOfferFrame o1 \<Rightarrow> [(''t'', JStr ''file-offer''), (''fileId'', JStr (fo_fileId o1)), (''name'', JStr (fo_name o1)),
         (''size'', JNum (fo_size o1)), (''mime'', JStr (fo_mime o1)), (''chunkSize'', JNum (fo_chunkSize o1)),
         (''chunks'', JNum (fo_chunks o1)), (''sha256'', JStr (fo_sha256 o1)), (''ts'', JNum (fo_ts o1))]
     | FileChunkFrame fid i d \<Rightarrow> [(''t'', JStr ''file-chunk''), (''fileId'', JStr fid), (''i'', JNum i), (''data'', JStr d)]
     | FileDoneFrame fid \<Rightarrow> [(''t'', JStr ''file-done''), (''fileId'', JStr fid)]
     | SealedFrame alg box \<Rightarrow> [(''t'', JStr ''sealed''), (''alg'', JStr alg), (''box'', JStr box)]
     | HelloFrame cd \<Rightarrow> [(''t'', JStr ''hello''), (''card'', JStr cd)]
     | KeyMigrationFrame m \<Rightarrow> [(''t'', JStr ''key-migration''), (''migration'', m)]
     | MigrationAckFrame a \<Rightarrow> [(''t'', JStr ''migration-ack''), (''ack'', a)]
     | MigrationChallengeFrame tg sn ap \<Rightarrow> [(''t'', JStr ''migration-challenge''), (''target'', JStr (target_str tg)),
         (''sealed_nonce'', JStr sn), (''ack_pubkey'', JStr ap)]
     | MigrationChallengeResponseFrame tg se \<Rightarrow> [(''t'', JStr ''migration-challenge-response''),
         (''target'', JStr (target_str tg)), (''sealed_echo'', JStr se)]))"

definition encodeAppFrame :: "app_frame \<Rightarrow> string" where
  "encodeAppFrame f = json_str (app_frame_json f)"

definition jis_num :: "json option \<Rightarrow> bool" where
  "jis_num v = (case v of Some (JNum _) \<Rightarrow> True | _ \<Rightarrow> False)"

definition jnum :: "json option \<Rightarrow> rat" where
  "jnum v = (case v of Some (JNum r) \<Rightarrow> r | _ \<Rightarrow> 0)"

definition jis_obj :: "json option \<Rightarrow> bool" where
  "jis_obj v = (case v of Some j \<Rightarrow> is_obj j | None \<Rightarrow> False)"

lemma jnum_simps [simp]: "jis_num (Some (JNum r))" "jnum (Some (JNum r)) = r" "jis_obj (Some j) = is_obj j"
  by (simp_all add: jis_num_def jnum_def jis_obj_def)

definition decode_fields :: "(string \<Rightarrow> json option) \<Rightarrow> string \<Rightarrow> app_frame option" where
  "decode_fields f t =
     (if t = ''text'' then
        (if jis_str (f ''id'') \<and> jis_str (f ''text'') \<and> jis_num (f ''ts'')
         then Some (TextFrame (jstr (f ''id'')) (jstr (f ''text'')) (jnum (f ''ts''))) else None)
      else if t = ''awk'' then
        (if jis_str (f ''id'') \<and> jis_num (f ''ts'') then Some (AwkFrame (jstr (f ''id'')) (jnum (f ''ts''))) else None)
      else if t = ''file-offer'' then
        (if jis_str (f ''fileId'') \<and> jis_str (f ''name'') \<and> jis_num (f ''size'') \<and> jis_str (f ''mime'')
            \<and> jis_num (f ''chunkSize'') \<and> jis_num (f ''chunks'') \<and> jis_str (f ''sha256'') \<and> jis_num (f ''ts'')
         then Some (FileOfferFrame \<lparr>fo_fileId = jstr (f ''fileId''), fo_name = jstr (f ''name''),
             fo_size = jnum (f ''size''), fo_mime = jstr (f ''mime''), fo_chunkSize = jnum (f ''chunkSize''),
             fo_chunks = jnum (f ''chunks''), fo_sha256 = jstr (f ''sha256''), fo_ts = jnum (f ''ts'')\<rparr>)
         else None)
      else if t = ''file-chunk'' then
        (if jis_str (f ''fileId'') \<and> jis_num (f ''i'') \<and> jis_str (f ''data'')
         then Some (FileChunkFrame (jstr (f ''fileId'')) (jnum (f ''i'')) (jstr (f ''data''))) else None)
      else if t = ''file-done'' then
        (if jis_str (f ''fileId'') then Some (FileDoneFrame (jstr (f ''fileId''))) else None)
      else if t = ''sealed'' then
        (if f ''alg'' = Some (JStr SEAL_ALG) \<and> jis_str (f ''box'')
         then Some (SealedFrame SEAL_ALG (jstr (f ''box''))) else None)
      else if t = ''hello'' then
        (if jis_str (f ''card'') then Some (HelloFrame (jstr (f ''card''))) else None)
      else if t = ''key-migration'' then
        (if jis_obj (f ''migration'') then Some (KeyMigrationFrame (the (f ''migration''))) else None)
      else if t = ''migration-ack'' then
        (if jis_obj (f ''ack'') then Some (MigrationAckFrame (the (f ''ack''))) else None)
      else if t = ''migration-challenge'' then
        (case target_of (f ''target'') of
           Some tg \<Rightarrow> if jis_str (f ''sealed_nonce'') \<and> jis_str (f ''ack_pubkey'')
             then Some (MigrationChallengeFrame tg (jstr (f ''sealed_nonce'')) (jstr (f ''ack_pubkey''))) else None
         | None \<Rightarrow> None)
      else if t = ''migration-challenge-response'' then
        (case target_of (f ''target'') of
           Some tg \<Rightarrow> if jis_str (f ''sealed_echo'')
             then Some (MigrationChallengeResponseFrame tg (jstr (f ''sealed_echo''))) else None
         | None \<Rightarrow> None)
      else None)"

definition decodeAppFrame :: "string \<Rightarrow> app_frame option" where
  "decodeAppFrame text =
     (case json_parse text of
        None \<Rightarrow> None
      | Some o1 \<Rightarrow>
          if \<not> is_obj o1 then None
          else if jprop o1 ''v'' \<noteq> Some (JNum APP_FRAME_VERSION) then None
          else if \<not> jis_str (jprop o1 ''t'') then None
          else decode_fields (jprop o1) (jstr (jprop o1 ''t'')))"

subsection \<open>Round trip\<close>

definition app_frame_ok :: "app_frame \<Rightarrow> bool" where
  \<comment> \<open>the wrapped records are objects and the sealed frame has the one algorithm tag\<close>
  "app_frame_ok f = (case f of
       KeyMigrationFrame m \<Rightarrow> is_obj m \<and> wf_json m
     | MigrationAckFrame a \<Rightarrow> is_obj a \<and> wf_json a
     | SealedFrame alg _ \<Rightarrow> alg = SEAL_ALG
     | _ \<Rightarrow> True)"

lemma target_of_str [simp]: "target_of (Some (JStr (target_str t))) = Some t"
  by (cases t) (simp_all add: target_of_def target_str_def)

lemma wf_app_frame: "app_frame_ok f \<Longrightarrow> wf_json (app_frame_json f)"
  by (cases f) (simp_all add: app_frame_json_def app_frame_ok_def)

lemma decode_encodeAppFrame:
  assumes "app_frame_ok f"
  shows "decodeAppFrame (encodeAppFrame f) = Some f"
proof -
  have p: "json_parse (encodeAppFrame f) = Some (app_frame_json f)"
    using wf_app_frame [OF assms] by (simp add: encodeAppFrame_def)
  show ?thesis using assms unfolding decodeAppFrame_def p option.case
    by (cases f) (simp_all add: app_frame_json_def is_obj_def decode_fields_def app_frame_ok_def)
qed

lemma encodeAppFrame_inj:
  "app_frame_ok f \<Longrightarrow> app_frame_ok g \<Longrightarrow> encodeAppFrame f = encodeAppFrame g \<Longrightarrow> f = g"
  by (metis decode_encodeAppFrame option.inject)

text \<open>What the decoder lets through has the shape of its kind.\<close>

lemma decode_sealed_alg: "decodeAppFrame t = Some (SealedFrame alg box) \<Longrightarrow> alg = SEAL_ALG"
  by (auto simp: decodeAppFrame_def decode_fields_def split: option.splits if_splits)

end
