(* ===== verification/Sealed.thy ===== *)
theory Sealed
  imports Frames SealedBox
begin

text \<open>
  \<open>packages/orpal-core/src/messaging/sealed.ts\<close>: user payloads sealed to the recipient's pinned
  transport key. Only its holder opens them, and nothing but a text or a file offer comes out.
\<close>

definition sealAppFrame :: "crypto \<Rightarrow> bytes \<Rightarrow> app_frame \<Rightarrow> string \<Rightarrow> app_frame option" where
  \<comment> \<open>the random ephemeral key first; \<open>None\<close> is a throw\<close>
  "sealAppFrame C eph inner recipientTransportKeyB64u =
     (case seal C eph (utf8 (encodeAppFrame inner)) (b64uDecode recipientTransportKeyB64u) of
        None \<Rightarrow> None
      | Some box \<Rightarrow> Some (SealedFrame SEAL_ALG (b64uEncode box)))"

definition sealable :: "app_frame \<Rightarrow> bool" where
  "sealable f = (case f of TextFrame _ _ _ \<Rightarrow> True | FileOfferFrame _ \<Rightarrow> True | _ \<Rightarrow> False)"

definition openSealedFrame :: "crypto \<Rightarrow> string \<Rightarrow> string \<Rightarrow> bytes \<Rightarrow> bytes \<Rightarrow> app_frame option" where
  "openSealedFrame C alg box tPriv tPub =
     (if alg \<noteq> SEAL_ALG then None
      else (case unseal C (b64uDecode box) tPriv tPub of
          None \<Rightarrow> None
        | Some plaintext \<Rightarrow>
            (case decodeAppFrame (fromUtf8 plaintext) of
               None \<Rightarrow> None
             | Some inner \<Rightarrow> if sealable inner then Some inner else None)))"

lemma sealable_ok: "sealable f \<Longrightarrow> app_frame_ok f"
  by (cases f) (simp_all add: sealable_def app_frame_ok_def)

lemma open_sealAppFrame:
  assumes "dh_ok C" "aead_ok C" "sealable f"
  shows "\<exists>box. sealAppFrame C eph f (b64uEncode (x_pub C priv)) = Some (SealedFrame SEAL_ALG box)
    \<and> openSealedFrame C SEAL_ALG box priv (x_pub C priv) = Some f"
proof -
  obtain box where box: "seal C eph (utf8 (encodeAppFrame f)) (x_pub C priv) = Some box"
    using seal_total [OF assms(1)] by blast
  show ?thesis
    using unseal_seal [OF assms(1,2) box] decode_encodeAppFrame [OF sealable_ok [OF assms(3)]] box assms(3)
    by (auto simp: sealAppFrame_def openSealedFrame_def)
qed

lemma open_wrong_key:
  assumes "dh_ok C" "aead_keyed C" "hkdf_salted C"
    and "sealAppFrame C eph f key = Some (SealedFrame alg box)" "b64uDecode key \<noteq> pub"
  shows "openSealedFrame C alg box priv pub = None"
proof -
  obtain b where b: "seal C eph (utf8 (encodeAppFrame f)) (b64uDecode key) = Some b" "box = b64uEncode b" "alg = SEAL_ALG"
    using assms(4) by (auto simp: sealAppFrame_def split: option.splits)
  show ?thesis using unseal_wrong_key [OF assms(1-3) b(1) assms(5)] by (simp add: openSealedFrame_def b)
qed

lemma open_sealable: "openSealedFrame C alg box priv pub = Some f \<Longrightarrow> sealable f"
  by (auto simp: openSealedFrame_def split: option.splits if_splits)

end
