(* ===== verification/PendingQueue.thy ===== *)
theory PendingQueue
  imports Prelude
begin

text \<open>
  \<open>packages/orpal-core/src/messaging/pending-queue.ts\<close>: the durable queue of outbound messages. The
  interface \<open>PendingQueueStore\<close> is a record of operations over a store state, its contract the locale
  \<open>pending_queue_store\<close>, and the in-memory store its implementation. The metrics loop is shown to
  compute the minimum, maxima, sum and counts it stands for.
\<close>

datatype pending_payload = PendingText string

record pending_message =
  pm_recipientId :: string
  pm_recipientTransportKey :: string
  pm_messageId :: string
  pm_timestamp :: rat
  pm_attemptCount :: nat
  pm_lastAttemptAt :: "rat option"
  pm_payload :: pending_payload

text \<open>A patch sets the retry metadata it carries.\<close>

record pending_patch =
  pp_attemptCount :: "nat option"
  pp_lastAttemptAt :: "rat option option"

definition apply_patch :: "pending_patch \<Rightarrow> pending_message \<Rightarrow> pending_message" where
  "apply_patch p m = m\<lparr>pm_attemptCount := or_default (pp_attemptCount p) (pm_attemptCount m),
     pm_lastAttemptAt := or_default (pp_lastAttemptAt p) (pm_lastAttemptAt m)\<rparr>"

lemma apply_patch_id [simp]:
  "pm_messageId (apply_patch p m) = pm_messageId m" "pm_recipientId (apply_patch p m) = pm_recipientId m"
  "pm_recipientTransportKey (apply_patch p m) = pm_recipientTransportKey m"
  "pm_payload (apply_patch p m) = pm_payload m" "pm_timestamp (apply_patch p m) = pm_timestamp m"
  by (simp_all add: apply_patch_def)

subsection \<open>The interface and its contract\<close>

record 's pending_store =
  ps_enqueue :: "pending_message \<Rightarrow> 's \<Rightarrow> 's"
  ps_update :: "string \<Rightarrow> pending_patch \<Rightarrow> 's \<Rightarrow> 's"
  ps_remove :: "string \<Rightarrow> 's \<Rightarrow> 's"
  ps_get :: "string \<Rightarrow> 's \<Rightarrow> pending_message option"
  ps_list :: "'s \<Rightarrow> pending_message list"
  ps_clear :: "'s \<Rightarrow> 's"

locale pending_queue_store =
  fixes ops :: "'s pending_store" and ok :: "'s \<Rightarrow> bool"
  assumes get_enqueue: "ok s \<Longrightarrow> ps_get ops k (ps_enqueue ops m s) =
      (if k = pm_messageId m then Some m else ps_get ops k s)"
    and get_update: "ok s \<Longrightarrow> ps_get ops k (ps_update ops i p s) =
      (if k = i then map_option (apply_patch p) (ps_get ops k s) else ps_get ops k s)"
    and get_remove: "ok s \<Longrightarrow> ps_get ops k (ps_remove ops i s) = (if k = i then None else ps_get ops k s)"
    and get_clear: "ok s \<Longrightarrow> ps_get ops k (ps_clear ops s) = None"
    and list_get: "ok s \<Longrightarrow> m \<in> set (ps_list ops s) \<longleftrightarrow> ps_get ops (pm_messageId m) s = Some m"
    and list_distinct: "ok s \<Longrightarrow> distinct (map pm_messageId (ps_list ops s))"
    and get_id: "ok s \<Longrightarrow> ps_get ops k s = Some m \<Longrightarrow> pm_messageId m = k"
    and ok_ops: "ok s \<Longrightarrow> ok (ps_enqueue ops m s)" "ok s \<Longrightarrow> ok (ps_update ops i p s)"
      "ok s \<Longrightarrow> ok (ps_remove ops i s)" "ok s \<Longrightarrow> ok (ps_clear ops s)"
begin

lemma enqueue_idem:
  assumes "ok s"
  shows "ps_get ops k (ps_enqueue ops m (ps_enqueue ops m s)) = ps_get ops k (ps_enqueue ops m s)"
  using assms by (simp add: get_enqueue ok_ops)

lemma update_gone:
  assumes "ok s" "ps_get ops i s = None"
  shows "ps_get ops k (ps_update ops i p s) = ps_get ops k s"
  using assms by (simp add: get_update)

lemma queued_iff:
  assumes "ok s"
  shows "ps_get ops k s \<noteq> None \<longleftrightarrow> k \<in> pm_messageId ` set (ps_list ops s)"
proof
  assume "ps_get ops k s \<noteq> None"
  then obtain m where "ps_get ops k s = Some m" by blast
  then have "m \<in> set (ps_list ops s)" "pm_messageId m = k" using assms get_id by (auto simp: list_get)
  then show "k \<in> pm_messageId ` set (ps_list ops s)" by blast
next
  assume "k \<in> pm_messageId ` set (ps_list ops s)"
  then show "ps_get ops k s \<noteq> None" using assms by (auto simp: list_get)
qed

end

subsection \<open>The in-memory store\<close>

type_synonym mem_pending = "(string, pending_message) jmap"

definition mem_enqueue :: "pending_message \<Rightarrow> mem_pending \<Rightarrow> mem_pending" where
  "mem_enqueue msg rows = jset (pm_messageId msg) msg rows"

definition mem_update :: "string \<Rightarrow> pending_patch \<Rightarrow> mem_pending \<Rightarrow> mem_pending" where
  "mem_update messageId patch rows =
     (case jget rows messageId of Some m \<Rightarrow> jset messageId (apply_patch patch m) rows | None \<Rightarrow> rows)"

definition mem_remove :: "string \<Rightarrow> mem_pending \<Rightarrow> mem_pending" where
  "mem_remove messageId rows = jdel messageId rows"

definition mem_get :: "string \<Rightarrow> mem_pending \<Rightarrow> pending_message option" where
  "mem_get messageId rows = jget rows messageId"

definition mem_list :: "mem_pending \<Rightarrow> pending_message list" where
  "mem_list rows = jvals rows"

definition mem_clear :: "mem_pending \<Rightarrow> mem_pending" where
  "mem_clear rows = []"

definition InMemoryPendingQueueStore :: "mem_pending pending_store" where
  "InMemoryPendingQueueStore = \<lparr>ps_enqueue = mem_enqueue, ps_update = mem_update, ps_remove = mem_remove,
     ps_get = mem_get, ps_list = mem_list, ps_clear = mem_clear\<rparr>"

lemmas mem_pending_defs = InMemoryPendingQueueStore_def mem_enqueue_def mem_update_def mem_remove_def
  mem_get_def mem_list_def mem_clear_def

definition mem_pending_ok :: "mem_pending \<Rightarrow> bool" where
  "mem_pending_ok rows = (jmap_ok rows \<and> (\<forall>k m. jget rows k = Some m \<longrightarrow> pm_messageId m = k))"

interpretation mem_pending: pending_queue_store InMemoryPendingQueueStore mem_pending_ok
proof
  fix s :: mem_pending and k i m p
  assume s: "mem_pending_ok s"
  show "ps_get InMemoryPendingQueueStore k (ps_enqueue InMemoryPendingQueueStore m s) =
      (if k = pm_messageId m then Some m else ps_get InMemoryPendingQueueStore k s)"
    by (simp add: mem_pending_defs)
  show "ps_get InMemoryPendingQueueStore k (ps_update InMemoryPendingQueueStore i p s) =
      (if k = i then map_option (apply_patch p) (ps_get InMemoryPendingQueueStore k s)
       else ps_get InMemoryPendingQueueStore k s)"
    by (simp add: mem_pending_defs split: option.splits)
  show "ps_get InMemoryPendingQueueStore k (ps_remove InMemoryPendingQueueStore i s) =
      (if k = i then None else ps_get InMemoryPendingQueueStore k s)"
    by (simp add: mem_pending_defs)
  show "ps_get InMemoryPendingQueueStore k (ps_clear InMemoryPendingQueueStore s) = None"
    by (simp add: mem_pending_defs)
  show "m \<in> set (ps_list InMemoryPendingQueueStore s) \<longleftrightarrow>
      ps_get InMemoryPendingQueueStore (pm_messageId m) s = Some m"
    using s by (auto simp: mem_pending_defs mem_pending_ok_def jvals_mem)
  show "distinct (map pm_messageId (ps_list InMemoryPendingQueueStore s))"
  proof -
    have eq: "map pm_messageId (map snd s) = map fst s"
      using s by (auto simp: mem_pending_ok_def jmap_mem_iff)
    show ?thesis unfolding mem_pending_defs pending_store.simps jvals_def eq
      using s by (simp add: mem_pending_ok_def jmap_ok_def)
  qed
  show "pm_messageId m = k" if "ps_get InMemoryPendingQueueStore k s = Some m"
    using that s by (simp add: mem_pending_defs mem_pending_ok_def)
  show "mem_pending_ok (ps_enqueue InMemoryPendingQueueStore m s)"
    "mem_pending_ok (ps_update InMemoryPendingQueueStore i p s)"
    "mem_pending_ok (ps_remove InMemoryPendingQueueStore i s)"
    "mem_pending_ok (ps_clear InMemoryPendingQueueStore s)"
    using s by (auto simp: mem_pending_defs mem_pending_ok_def split: option.splits if_splits)
qed

subsection \<open>Metrics\<close>

record pending_metrics =
  mt_total :: nat
  mt_oldestPendingTs :: "rat option"
  mt_lastAttemptAt :: "rat option"
  mt_totalAttempts :: nat
  mt_maxAttempts :: nat
  mt_byRecipient :: "(string, nat) jmap"

definition metrics_step :: "pending_metrics \<Rightarrow> pending_message \<Rightarrow> pending_metrics" where
  "metrics_step a m =
     (let a1 = (case mt_oldestPendingTs a of
             None \<Rightarrow> a\<lparr>mt_oldestPendingTs := Some (pm_timestamp m)\<rparr>
           | Some old \<Rightarrow> if pm_timestamp m < old then a\<lparr>mt_oldestPendingTs := Some (pm_timestamp m)\<rparr> else a);
          a2 = (case pm_lastAttemptAt m of
             None \<Rightarrow> a1
           | Some l \<Rightarrow> (case mt_lastAttemptAt a1 of
               None \<Rightarrow> a1\<lparr>mt_lastAttemptAt := Some l\<rparr>
             | Some l0 \<Rightarrow> if l0 < l then a1\<lparr>mt_lastAttemptAt := Some l\<rparr> else a1));
          a3 = a2\<lparr>mt_totalAttempts := mt_totalAttempts a2 + pm_attemptCount m\<rparr>;
          a4 = (if mt_maxAttempts a3 < pm_attemptCount m then a3\<lparr>mt_maxAttempts := pm_attemptCount m\<rparr> else a3)
      in a4\<lparr>mt_byRecipient := jset (pm_recipientId m) (or_default (jget (mt_byRecipient a4) (pm_recipientId m)) 0 + 1)
             (mt_byRecipient a4)\<rparr>)"

definition computePendingMetrics :: "pending_message list \<Rightarrow> pending_metrics" where
  "computePendingMetrics rows =
     (foldl metrics_step \<lparr>mt_total = 0, mt_oldestPendingTs = None, mt_lastAttemptAt = None, mt_totalAttempts = 0,
        mt_maxAttempts = 0, mt_byRecipient = []\<rparr> rows)\<lparr>mt_total := length rows\<rparr>"

text \<open>The specification: extrema of a list that may be empty, a sum and a count.\<close>

definition min_of :: "rat list \<Rightarrow> rat option" where
  "min_of xs = (if xs = [] then None else Some (Min (set xs)))"

definition max_of :: "rat list \<Rightarrow> rat option" where
  "max_of xs = (if xs = [] then None else Some (Max (set xs)))"

definition metrics_spec :: "pending_message list \<Rightarrow> pending_metrics \<Rightarrow> bool" where
  "metrics_spec rows a = (
     mt_oldestPendingTs a = min_of (map pm_timestamp rows)
     \<and> mt_lastAttemptAt a = max_of (List.map_filter pm_lastAttemptAt rows)
     \<and> mt_totalAttempts a = sum_list (map pm_attemptCount rows)
     \<and> (\<forall>m\<in>set rows. pm_attemptCount m \<le> mt_maxAttempts a)
     \<and> (mt_maxAttempts a = 0 \<or> mt_maxAttempts a \<in> pm_attemptCount ` set rows)
     \<and> (\<forall>r. or_default (jget (mt_byRecipient a) r) 0 = length (filter (\<lambda>m. pm_recipientId m = r) rows)))"

lemma min_of_snoc: "min_of (xs @ [x]) = Some (case min_of xs of None \<Rightarrow> x | Some y \<Rightarrow> if x < y then x else y)"
proof (cases "xs = []")
  case False
  define y where "y = Min (set xs)"
  have "Min (set (xs @ [x])) = min x y" using False by (simp add: y_def Min_insert)
  with False have "min_of (xs @ [x]) = Some (min x y)" "min_of xs = Some y" by (simp_all add: min_of_def y_def)
  then show ?thesis by (auto simp: min_def)
qed (simp add: min_of_def)

lemma max_of_snoc: "max_of (xs @ [x]) = Some (case max_of xs of None \<Rightarrow> x | Some y \<Rightarrow> if y < x then x else y)"
proof (cases "xs = []")
  case False
  define y where "y = Max (set xs)"
  have "Max (set (xs @ [x])) = max x y" using False by (simp add: y_def Max_insert)
  with False have "max_of (xs @ [x]) = Some (max x y)" "max_of xs = Some y" by (simp_all add: max_of_def y_def)
  then show ?thesis by (auto simp: max_def)
qed (simp add: max_of_def)

lemma map_filter_snoc: "List.map_filter f (xs @ [x]) = List.map_filter f xs @ (case f x of None \<Rightarrow> [] | Some y \<Rightarrow> [y])"
  by (induction xs) (auto simp: List.map_filter_simps split: option.splits)

lemma metrics_step_spec:
  assumes "metrics_spec rows a"
  shows "metrics_spec (rows @ [m]) (metrics_step a m)"
proof -
  note sp = assms [unfolded metrics_spec_def]
  have "mt_oldestPendingTs (metrics_step a m) = min_of (map pm_timestamp (rows @ [m]))"
    using sp by (simp add: metrics_step_def Let_def min_of_snoc split: option.splits)
  moreover have "mt_lastAttemptAt (metrics_step a m) = max_of (List.map_filter pm_lastAttemptAt (rows @ [m]))"
    using sp by (simp add: metrics_step_def Let_def map_filter_snoc max_of_snoc split: option.splits)
  moreover have "mt_totalAttempts (metrics_step a m) = sum_list (map pm_attemptCount (rows @ [m]))"
    using sp by (simp add: metrics_step_def Let_def split: option.splits)
  moreover have mx: "mt_maxAttempts (metrics_step a m) = max (mt_maxAttempts a) (pm_attemptCount m)"
    by (simp add: metrics_step_def Let_def max_def split: option.splits)
  moreover have "mt_byRecipient (metrics_step a m) = jset (pm_recipientId m)
      (or_default (jget (mt_byRecipient a) (pm_recipientId m)) 0 + 1) (mt_byRecipient a)"
    by (simp add: metrics_step_def Let_def split: option.splits)
  ultimately show ?thesis using sp unfolding metrics_spec_def
    by (auto simp: max_def le_max_iff_disj)
qed

lemma computePendingMetrics_spec:
  "metrics_spec rows (computePendingMetrics rows) \<and> mt_total (computePendingMetrics rows) = length rows"
proof -
  let ?a0 = "\<lparr>mt_total = 0, mt_oldestPendingTs = None, mt_lastAttemptAt = None, mt_totalAttempts = 0,
        mt_maxAttempts = 0, mt_byRecipient = []\<rparr>"
  have "metrics_spec rows (foldl metrics_step ?a0 rows)"
  proof (induction rows rule: rev_induct)
    case Nil
    show ?case by (simp add: metrics_spec_def min_of_def max_of_def List.map_filter_simps)
  next
    case (snoc m rows)
    then show ?case by (simp add: metrics_step_spec)
  qed
  then show ?thesis by (simp add: computePendingMetrics_def metrics_spec_def)
qed

end
