(* ===== verification/DeliveryWorker.thy ===== *)
theory DeliveryWorker
  imports PendingQueue
begin

text \<open>
  \<open>packages/orpal-core/src/messaging/delivery-worker.ts\<close>: the worker that retries queued messages until
  they are acknowledged. Its methods suspend at every \<open>await\<close>, so the state holds the suspended calls
  as threads; an event starts a call, fires a timer, lets a suspended store read happen or lets a
  thread go on. The worker is written against the operations of any \<open>PendingQueueStore\<close>; its lemmas
  are proved in the context of that contract. The debug log is not modelled. The theorems: a queued
  message leaves the queue by its acknowledgement only; while the worker runs, every queued message
  has a timer or a thread that will attempt it; nothing is sent that was not queued.
\<close>

subsection \<open>Backoff\<close>

record backoff_config =
  bo_baseMs :: rat
  bo_factor :: rat
  bo_maxMs :: rat
  bo_jitter :: rat

definition DEFAULT_BACKOFF :: backoff_config where
  "DEFAULT_BACKOFF = \<lparr>bo_baseMs = 1000, bo_factor = 2, bo_maxMs = 60000, bo_jitter = 3 / 10\<rparr>"

definition js_round :: "rat \<Rightarrow> int" where
  "js_round x = \<lfloor>x + 1 / 2\<rfloor>"

definition delayFor :: "backoff_config \<Rightarrow> rat \<Rightarrow> nat \<Rightarrow> int" where
  "delayFor backoff random attemptCount =
     (let raw = bo_baseMs backoff * bo_factor backoff ^ attemptCount;
          capped = min (bo_maxMs backoff) raw;
          spread = capped * bo_jitter backoff;
          jittered = capped + (random * 2 - 1) * spread
      in max 0 (js_round jittered))"

definition backoff_ok :: "backoff_config \<Rightarrow> bool" where
  "backoff_ok b = (0 \<le> bo_baseMs b \<and> 1 \<le> bo_factor b \<and> 0 \<le> bo_maxMs b \<and> 0 \<le> bo_jitter b \<and> bo_jitter b \<le> 1)"

lemma js_round_bounds: "of_int (js_round x) \<le> x + 1 / 2" "x - 1 / 2 < of_int (js_round x)"
proof -
  show "of_int (js_round x) \<le> x + 1 / 2" unfolding js_round_def by (rule of_int_floor_le)
  have "x + 1 / 2 < of_int \<lfloor>x + 1 / 2\<rfloor> + 1" by linarith
  then show "x - 1 / 2 < of_int (js_round x)" unfolding js_round_def by linarith
qed

text \<open>
  The delay of an attempt lies within the jitter around the capped exponential, up to rounding, and is
  never negative.
\<close>

lemma delayFor_bounds:
  assumes b: "backoff_ok b" and r: "0 \<le> random" "random < 1"
    and c: "capped = min (bo_maxMs b) (bo_baseMs b * bo_factor b ^ n)"
  shows "0 \<le> delayFor b random n"
    and "of_int (delayFor b random n) \<le> capped * (1 + bo_jitter b) + 1 / 2"
    and "capped * (1 - bo_jitter b) - 1 / 2 < of_int (delayFor b random n)"
    and "of_int (delayFor b random n) \<le> bo_maxMs b * (1 + bo_jitter b) + 1 / 2"
proof -
  let ?j = "capped + (random * 2 - 1) * (capped * bo_jitter b)"
  have d: "delayFor b random n = max 0 (js_round ?j)" by (simp add: delayFor_def Let_def c)
  have cap: "0 \<le> capped" "capped \<le> bo_maxMs b" using b by (auto simp: c backoff_ok_def)
  then have s: "0 \<le> capped * bo_jitter b" using b by (simp add: backoff_ok_def)
  have "(random * 2 - 1) * (capped * bo_jitter b) \<le> 1 * (capped * bo_jitter b)"
    using r s by (intro mult_right_mono) auto
  moreover have "(- 1) * (capped * bo_jitter b) \<le> (random * 2 - 1) * (capped * bo_jitter b)"
    using r s by (intro mult_right_mono) auto
  ultimately have j: "?j \<le> capped * (1 + bo_jitter b)" "capped * (1 - bo_jitter b) \<le> ?j"
    by (auto simp: algebra_simps)
  have "0 \<le> capped * (1 - bo_jitter b)" using cap b by (simp add: backoff_ok_def)
  show "0 \<le> delayFor b random n" by (simp add: d)
  have up: "0 \<le> capped * (1 + bo_jitter b) + 1 / 2" using cap s by (simp add: distrib_left)
  show le: "of_int (delayFor b random n) \<le> capped * (1 + bo_jitter b) + 1 / 2"
    using js_round_bounds(1) [of ?j] j(1) up by (auto simp: d max_def)
  show "capped * (1 - bo_jitter b) - 1 / 2 < of_int (delayFor b random n)"
    using js_round_bounds(2) [of ?j] j(2) by (auto simp: d max_def)
  have "capped * (1 + bo_jitter b) \<le> bo_maxMs b * (1 + bo_jitter b)"
    using cap b by (intro mult_right_mono) (auto simp: backoff_ok_def)
  with le show "of_int (delayFor b random n) \<le> bo_maxMs b * (1 + bo_jitter b) + 1 / 2" by linarith
qed

subsection \<open>The worker's state\<close>

text \<open>
  A thread is a suspended call: what it waits for, and what it has read. A read is a step of its own,
  between the call and the continuation, so both an immediate and a delayed store are covered.
\<close>

datatype wthread =
    TEnqueued string
  | TResume
  | TResumed "string list"
  | TFlush "string option"
  | TFlushing "string list"
  | TFetch string
  | TFetched string "pending_message option"
  | TAttempt pending_message
  | TRecheck string
  | TRechecked string "pending_message option"
  | TUpdated string nat
  | TAck string
  | TAcked string "pending_message option"

record 's worker =
  dw_store :: 's
  dw_timers :: "(string, int) jmap"
  dw_inflight :: "string list"
  dw_running :: bool
  dw_threads :: "wthread list"
  dw_sends :: "pending_message list"
  dw_metrics :: "pending_metrics list"
  dw_enqueued :: "pending_message list"

definition DeliveryWorker :: "'s \<Rightarrow> 's worker" where
  "DeliveryWorker store = \<lparr>dw_store = store, dw_timers = [], dw_inflight = [], dw_running = False, dw_threads = [],
     dw_sends = [], dw_metrics = [], dw_enqueued = []\<rparr>"

definition spawn :: "wthread \<Rightarrow> 's worker \<Rightarrow> 's worker" where
  "spawn t w = w\<lparr>dw_threads := dw_threads w @ [t]\<rparr>"

definition emitMetrics :: "'s pending_store \<Rightarrow> 's worker \<Rightarrow> 's worker" where
  "emitMetrics ops w = w\<lparr>dw_metrics := dw_metrics w @ [computePendingMetrics (ps_list ops (dw_store w))]\<rparr>"

definition cancelTimer :: "string \<Rightarrow> 's worker \<Rightarrow> 's worker" where
  "cancelTimer i w = w\<lparr>dw_timers := jdel i (dw_timers w)\<rparr>"

definition scheduleSoon :: "string \<Rightarrow> 's worker \<Rightarrow> 's worker" where
  "scheduleSoon i w = (let w' = cancelTimer i w in w'\<lparr>dw_timers := jset i 0 (dw_timers w')\<rparr>)"

definition scheduleBackoff :: "backoff_config \<Rightarrow> rat \<Rightarrow> string \<Rightarrow> nat \<Rightarrow> 's worker \<Rightarrow> 's worker" where
  "scheduleBackoff b random i n w =
     (if \<not> dw_running w then w
      else (let w' = cancelTimer i w in w'\<lparr>dw_timers := jset i (delayFor b random n) (dw_timers w')\<rparr>))"

text \<open>The synchronous head of \<open>runAttempt\<close>, up to its first \<open>await\<close>.\<close>

definition runAttempt :: "string \<Rightarrow> 's worker \<Rightarrow> 's worker" where
  "runAttempt i w =
     (if \<not> dw_running w then w
      else if i \<in> set (dw_inflight w) then w
      else spawn (TFetch i) w)"

subsection \<open>Calls, timers and threads\<close>

definition dw_start :: "'s worker \<Rightarrow> 's worker" where
  "dw_start w = (if dw_running w then w else spawn TResume (w\<lparr>dw_running := True\<rparr>))"

definition dw_stop :: "'s worker \<Rightarrow> 's worker" where
  "dw_stop w = w\<lparr>dw_running := False, dw_timers := []\<rparr>"

definition dw_enqueue :: "'s pending_store \<Rightarrow> pending_message \<Rightarrow> 's worker \<Rightarrow> 's worker" where
  "dw_enqueue ops m w = spawn (TEnqueued (pm_messageId m))
     (w\<lparr>dw_store := ps_enqueue ops m (dw_store w), dw_enqueued := dw_enqueued w @ [m]\<rparr>)"

definition dw_flush :: "string option \<Rightarrow> 's worker \<Rightarrow> 's worker" where
  \<comment> \<open>\<open>flushRecipient\<close>, or \<open>flushAll\<close> without a recipient\<close>
  "dw_flush r w = (if \<not> dw_running w then w else spawn (TFlush r) w)"

definition dw_acknowledge :: "string \<Rightarrow> 's worker \<Rightarrow> 's worker" where
  "dw_acknowledge i w = spawn (TAck i) w"

definition dw_fire :: "string \<Rightarrow> 's worker \<Rightarrow> 's worker" where
  "dw_fire i w = (if jhas (dw_timers w) i then runAttempt i (cancelTimer i w) else w)"

text \<open>A suspended read happens.\<close>

definition thread_read :: "'s pending_store \<Rightarrow> 's \<Rightarrow> wthread \<Rightarrow> wthread" where
  "thread_read ops s t = (case t of
       TResume \<Rightarrow> TResumed (map pm_messageId (ps_list ops s))
     | TFlush r \<Rightarrow> TFlushing (map pm_messageId (filter (\<lambda>m. case r of None \<Rightarrow> True | Some x \<Rightarrow> pm_recipientId m = x)
         (ps_list ops s)))
     | TFetch i \<Rightarrow> TFetched i (ps_get ops i s)
     | TRecheck i \<Rightarrow> TRechecked i (ps_get ops i s)
     | TAck i \<Rightarrow> TAcked i (ps_get ops i s)
     | _ \<Rightarrow> t)"

text \<open>What an attempt, the clock and the random source answer.\<close>

record env =
  ev_dispatched :: bool
  ev_now :: rat
  ev_random :: rat

text \<open>A thread goes on until its next \<open>await\<close> or its end.\<close>

definition thread_go :: "'s pending_store \<Rightarrow> backoff_config \<Rightarrow> env \<Rightarrow> wthread \<Rightarrow> 's worker \<Rightarrow> 's worker" where
  "thread_go ops b e t w = (case t of
       TEnqueued i \<Rightarrow> runAttempt i (emitMetrics ops w)
     | TResumed is \<Rightarrow> emitMetrics ops (fold scheduleSoon is w)
     | TFlushing is \<Rightarrow> fold runAttempt is w
     | TFetched i None \<Rightarrow> w
     | TFetched i (Some m) \<Rightarrow>
         (let w1 = cancelTimer i w
          in spawn (TAttempt m) (w1\<lparr>dw_inflight := set_add i (dw_inflight w1), dw_sends := dw_sends w1 @ [m]\<rparr>))
     | TAttempt m \<Rightarrow> spawn (TRecheck (pm_messageId m)) (w\<lparr>dw_inflight := set_del (pm_messageId m) (dw_inflight w)\<rparr>)
     | TRechecked i None \<Rightarrow> w
     | TRechecked i (Some still) \<Rightarrow>
         (let n = pm_attemptCount still + 1
          in spawn (TUpdated i n) (w\<lparr>dw_store := ps_update ops i
               \<lparr>pp_attemptCount = Some n, pp_lastAttemptAt = Some (Some (ev_now e))\<rparr> (dw_store w)\<rparr>))
     | TUpdated i n \<Rightarrow> scheduleBackoff b (ev_random e) i (n - 1) (emitMetrics ops w)
     | TAcked i None \<Rightarrow> w
     | TAcked i (Some _) \<Rightarrow> emitMetrics ops ((cancelTimer i w)\<lparr>dw_store := ps_remove ops i (dw_store w)\<rparr>)
     | _ \<Rightarrow> spawn t w)"

datatype wevent =
    EvStart | EvStop | EvEnqueue pending_message | EvFlush "string option" | EvAcknowledge string
  | EvTimer string | EvRead nat | EvGo nat env

definition drop_at :: "nat \<Rightarrow> 'a list \<Rightarrow> 'a list" where
  "drop_at n xs = take n xs @ drop (Suc n) xs"

definition dw_step :: "'s pending_store \<Rightarrow> backoff_config \<Rightarrow> 's worker \<Rightarrow> wevent \<Rightarrow> 's worker" where
  "dw_step ops b w ev = (case ev of
       EvStart \<Rightarrow> dw_start w
     | EvStop \<Rightarrow> dw_stop w
     | EvEnqueue m \<Rightarrow> dw_enqueue ops m w
     | EvFlush r \<Rightarrow> dw_flush r w
     | EvAcknowledge i \<Rightarrow> dw_acknowledge i w
     | EvTimer i \<Rightarrow> dw_fire i w
     | EvRead n \<Rightarrow> if n < length (dw_threads w)
         then w\<lparr>dw_threads := (dw_threads w)[n := thread_read ops (dw_store w) (dw_threads w ! n)]\<rparr> else w
     | EvGo n e \<Rightarrow> if n < length (dw_threads w)
         then thread_go ops b e (dw_threads w ! n) (w\<lparr>dw_threads := drop_at n (dw_threads w)\<rparr>) else w)"

definition dw_run :: "'s pending_store \<Rightarrow> backoff_config \<Rightarrow> wevent list \<Rightarrow> 's worker \<Rightarrow> 's worker" where
  "dw_run ops b evs w = foldl (dw_step ops b) w evs"

subsection \<open>The invariant\<close>

fun covers :: "string \<Rightarrow> wthread \<Rightarrow> bool" where
  \<comment> \<open>a thread that will attempt the message, or set its timer, before it ends\<close>
  "covers i (TEnqueued j) = (i = j)"
| "covers i TResume = True"
| "covers i (TResumed is) = (i \<in> set is)"
| "covers i (TFetch j) = (i = j)"
| "covers i (TFetched j (Some m)) = (i = j)"
| "covers i (TAttempt m) = (i = pm_messageId m)"
| "covers i (TRecheck j) = (i = j)"
| "covers i (TRechecked j (Some m)) = (i = j)"
| "covers i (TUpdated j n) = (i = j)"
| "covers i _ = False"

definition cov :: "'s worker \<Rightarrow> string \<Rightarrow> bool" where
  "cov w i = (jhas (dw_timers w) i \<or> (\<exists>t\<in>set (dw_threads w). covers i t))"

definition inflight_ok :: "'s worker \<Rightarrow> bool" where
  "inflight_ok w = (\<forall>i\<in>set (dw_inflight w). \<exists>m. TAttempt m \<in> set (dw_threads w) \<and> pm_messageId m = i)"

text \<open>What the message was when it was enqueued; retries change its metadata only.\<close>

definition same_content :: "pending_message \<Rightarrow> pending_message \<Rightarrow> bool" where
  "same_content a m = (pm_messageId a = pm_messageId m \<and> pm_recipientId a = pm_recipientId m
     \<and> pm_recipientTransportKey a = pm_recipientTransportKey m \<and> pm_payload a = pm_payload m
     \<and> pm_timestamp a = pm_timestamp m)"

fun carried :: "wthread \<Rightarrow> pending_message option" where
  "carried (TFetched i m) = m"
| "carried (TAttempt m) = Some m"
| "carried _ = None"

fun names_own :: "wthread \<Rightarrow> bool" where
  "names_own (TFetched i (Some m)) = (pm_messageId m = i)"
| "names_own _ = True"

lemma names_own_fetched: "names_own (TFetched i x) \<longleftrightarrow> (\<forall>m. x = Some m \<longrightarrow> pm_messageId m = i)"
  by (cases x) auto

lemma spawn_sel [simp]:
  "dw_store (spawn t w) = dw_store w" "dw_timers (spawn t w) = dw_timers w" "dw_inflight (spawn t w) = dw_inflight w"
  "dw_running (spawn t w) = dw_running w" "dw_threads (spawn t w) = dw_threads w @ [t]"
  "dw_sends (spawn t w) = dw_sends w" "dw_enqueued (spawn t w) = dw_enqueued w"
  by (simp_all add: spawn_def)

lemma emitMetrics_sel [simp]:
  "dw_store (emitMetrics ops w) = dw_store w" "dw_timers (emitMetrics ops w) = dw_timers w"
  "dw_inflight (emitMetrics ops w) = dw_inflight w" "dw_running (emitMetrics ops w) = dw_running w"
  "dw_threads (emitMetrics ops w) = dw_threads w" "dw_sends (emitMetrics ops w) = dw_sends w"
  "dw_enqueued (emitMetrics ops w) = dw_enqueued w"
  by (simp_all add: emitMetrics_def)

lemma cancelTimer_sel [simp]:
  "dw_store (cancelTimer i w) = dw_store w" "dw_timers (cancelTimer i w) = jdel i (dw_timers w)"
  "dw_inflight (cancelTimer i w) = dw_inflight w" "dw_running (cancelTimer i w) = dw_running w"
  "dw_threads (cancelTimer i w) = dw_threads w" "dw_sends (cancelTimer i w) = dw_sends w"
  "dw_enqueued (cancelTimer i w) = dw_enqueued w"
  by (simp_all add: cancelTimer_def)

lemma runAttempt_sel [simp]:
  "dw_store (runAttempt i w) = dw_store w" "dw_timers (runAttempt i w) = dw_timers w"
  "dw_inflight (runAttempt i w) = dw_inflight w" "dw_running (runAttempt i w) = dw_running w"
  "dw_sends (runAttempt i w) = dw_sends w" "dw_enqueued (runAttempt i w) = dw_enqueued w"
  by (simp_all add: runAttempt_def)

lemma runAttempt_threads: "\<exists>ts. dw_threads (runAttempt i w) = dw_threads w @ ts \<and> set ts \<subseteq> {TFetch i}"
  by (simp add: runAttempt_def)

lemma cov_runAttempt: "cov w j \<Longrightarrow> cov (runAttempt i w) j"
  by (auto simp: cov_def runAttempt_def)

lemma cov_runAttempt_self: "dw_running w \<Longrightarrow> inflight_ok w \<Longrightarrow> cov (runAttempt i w) i"
  by (auto simp: cov_def runAttempt_def inflight_ok_def) (metis covers.simps(6))

lemma inflight_runAttempt: "inflight_ok w \<Longrightarrow> inflight_ok (runAttempt i w)"
  by (auto simp: inflight_ok_def runAttempt_def)

lemma fold_runAttempt:
  "cov w j \<Longrightarrow> cov (fold runAttempt is w) j"
  "inflight_ok w \<Longrightarrow> inflight_ok (fold runAttempt is w)"
  "dw_store (fold runAttempt is w) = dw_store w" "dw_running (fold runAttempt is w) = dw_running w"
  "dw_sends (fold runAttempt is w) = dw_sends w" "dw_enqueued (fold runAttempt is w) = dw_enqueued w"
  by (induction "is" arbitrary: w) (auto simp: cov_runAttempt inflight_runAttempt)

lemma names_runAttempt: "\<forall>t\<in>set (dw_threads w). names_own t \<Longrightarrow> \<forall>t\<in>set (dw_threads (runAttempt i w)). names_own t"
  by (auto simp: runAttempt_def)

lemma names_fold_runAttempt:
  "\<forall>t\<in>set (dw_threads w). names_own t \<Longrightarrow> \<forall>t\<in>set (dw_threads (fold runAttempt is w)). names_own t"
proof (induction "is" arbitrary: w)
  case (Cons i "is")
  show ?case using Cons.IH [OF names_runAttempt [OF Cons.prems]] by simp
qed simp

lemma scheduleSoon_sel [simp]:
  "dw_store (scheduleSoon i w) = dw_store w" "jhas (dw_timers (scheduleSoon i w)) j = (j = i \<or> jhas (dw_timers w) j)"
  "dw_inflight (scheduleSoon i w) = dw_inflight w" "dw_running (scheduleSoon i w) = dw_running w"
  "dw_threads (scheduleSoon i w) = dw_threads w" "dw_sends (scheduleSoon i w) = dw_sends w"
  "dw_enqueued (scheduleSoon i w) = dw_enqueued w"
  by (auto simp: scheduleSoon_def Let_def)

lemma fold_scheduleSoon [simp]:
  "dw_store (fold scheduleSoon is w) = dw_store w"
  "jhas (dw_timers (fold scheduleSoon is w)) j = (j \<in> set is \<or> jhas (dw_timers w) j)"
  "dw_inflight (fold scheduleSoon is w) = dw_inflight w" "dw_running (fold scheduleSoon is w) = dw_running w"
  "dw_threads (fold scheduleSoon is w) = dw_threads w" "dw_sends (fold scheduleSoon is w) = dw_sends w"
  "dw_enqueued (fold scheduleSoon is w) = dw_enqueued w"
  by (induction "is" arbitrary: w) auto

lemma scheduleBackoff_sel [simp]:
  "dw_store (scheduleBackoff b r i n w) = dw_store w"
  "jhas (dw_timers (scheduleBackoff b r i n w)) j = (j = i \<and> dw_running w \<or> jhas (dw_timers w) j)"
  "dw_inflight (scheduleBackoff b r i n w) = dw_inflight w" "dw_running (scheduleBackoff b r i n w) = dw_running w"
  "dw_threads (scheduleBackoff b r i n w) = dw_threads w" "dw_sends (scheduleBackoff b r i n w) = dw_sends w"
  "dw_enqueued (scheduleBackoff b r i n w) = dw_enqueued w"
  by (auto simp: scheduleBackoff_def Let_def)

lemma set_drop_at: "n < length xs \<Longrightarrow> set xs = insert (xs ! n) (set (drop_at n xs))"
  by (metis Cons_nth_drop_Suc drop_at_def id_take_nth_drop insert_is_Un list.simps(15) set_append sup_commute sup_left_commute)

lemma set_update: "n < length xs \<Longrightarrow> set (xs[n := y]) = insert y (set (drop_at n xs))"
  by (simp add: upd_conv_take_nth_drop drop_at_def)

context pending_queue_store
begin

definition queued :: "'s worker \<Rightarrow> string \<Rightarrow> bool" where
  "queued w i = (ps_get ops i (dw_store w) \<noteq> None)"

definition dw_inv :: "'s worker \<Rightarrow> bool" where
  "dw_inv w = (ok (dw_store w) \<and> inflight_ok w \<and> (\<forall>t\<in>set (dw_threads w). names_own t)
     \<and> (dw_running w \<longrightarrow> (\<forall>i. queued w i \<longrightarrow> cov w i)))"

text \<open>A thread that goes on hands its message over to the next thread, a timer or the acknowledgement.\<close>

lemma go_inv:
  assumes okk: "ok (dw_store w)" and infl: "\<forall>i\<in>set (dw_inflight w). \<exists>m. TAttempt m \<in> insert t (set (dw_threads w)) \<and> pm_messageId m = i"
    and own: "names_own t" "\<forall>t\<in>set (dw_threads w). names_own t"
    and cv: "dw_running w \<Longrightarrow> \<forall>i. queued w i \<longrightarrow> cov w i \<or> covers i t"
  shows "dw_inv (thread_go ops b e t w)"
proof -
  have io: "inflight_ok w" if "\<And>m. t \<noteq> TAttempt m" using infl that unfolding inflight_ok_def by blast
  show ?thesis
  proof (cases t)
    case (TEnqueued i)
    let ?e = "emitMetrics ops w"
    have io': "inflight_ok ?e" using io TEnqueued by (simp add: inflight_ok_def)
    have "cov (runAttempt i ?e) j" if "dw_running w" "queued w j" for j
    proof (cases "j = i")
      case True
      with cov_runAttempt_self [OF _ io', of i] that(1) show ?thesis by simp
    next
      case False
      with cv [OF that(1)] that(2) TEnqueued have "cov ?e j" by (auto simp: cov_def)
      then show ?thesis by (rule cov_runAttempt)
    qed
    with TEnqueued okk own(2) inflight_runAttempt [OF io', of i] names_runAttempt [of ?e i] show ?thesis
      by (simp add: dw_inv_def thread_go_def queued_def)
  next
    case TResume
    with okk io own cv show ?thesis
      by (auto simp: dw_inv_def thread_go_def queued_def cov_def inflight_ok_def)
  next
    case (TResumed "is")
    with okk io own cv show ?thesis
      by (auto simp: dw_inv_def thread_go_def queued_def cov_def inflight_ok_def)
  next
    case (TFlush r)
    with okk io own cv show ?thesis
      by (auto simp: dw_inv_def thread_go_def queued_def cov_def inflight_ok_def)
  next
    case (TFlushing "is")
    with okk io own cv show ?thesis
      using names_fold_runAttempt [OF own(2), of "is"] fold_runAttempt(1) [of w _ "is"] fold_runAttempt(2) [of w "is"]
      by (auto simp: dw_inv_def thread_go_def queued_def fold_runAttempt)
  next
    case (TFetch i)
    with okk io own cv show ?thesis
      by (auto simp: dw_inv_def thread_go_def queued_def cov_def inflight_ok_def)
  next
    case (TFetched i m)
    with okk io own cv show ?thesis
      by (cases m) (auto simp: dw_inv_def thread_go_def queued_def cov_def inflight_ok_def Let_def)
  next
    case (TAttempt m)
    have "\<exists>m'. TAttempt m' \<in> set (dw_threads w) \<and> pm_messageId m' = i"
      if "i \<in> set (dw_inflight w)" "i \<noteq> pm_messageId m" for i
      using infl that TAttempt by auto
    with TAttempt okk own cv show ?thesis
      by (auto simp: dw_inv_def thread_go_def queued_def cov_def inflight_ok_def)
  next
    case (TRecheck i)
    with okk io own cv show ?thesis
      by (auto simp: dw_inv_def thread_go_def queued_def cov_def inflight_ok_def)
  next
    case (TRechecked i m)
    with okk io own cv show ?thesis
      by (cases m) (auto simp: dw_inv_def thread_go_def queued_def cov_def inflight_ok_def Let_def ok_ops get_update split: if_splits)
  next
    case (TUpdated i n)
    with okk io own cv show ?thesis
      by (auto simp: dw_inv_def thread_go_def queued_def cov_def inflight_ok_def)
  next
    case (TAck i)
    with okk io own cv show ?thesis
      by (auto simp: dw_inv_def thread_go_def queued_def cov_def inflight_ok_def)
  next
    case (TAcked i m)
    with okk io own cv show ?thesis
      by (cases m) (auto simp: dw_inv_def thread_go_def queued_def cov_def inflight_ok_def ok_ops get_remove split: if_splits)
  qed
qed

lemma read_covers:
  assumes "ok (dw_store w)" "queued w i" "covers i t"
  shows "covers i (thread_read ops (dw_store w) t)"
  using assms queued_iff [OF assms(1), of i] by (cases t) (auto simp: thread_read_def queued_def)

lemma dw_inv_step:
  assumes inv: "dw_inv w"
  shows "dw_inv (dw_step ops b w ev)"
proof -
  have okk: "ok (dw_store w)" and io: "inflight_ok w" and own: "\<forall>t\<in>set (dw_threads w). names_own t"
    and cv: "dw_running w \<Longrightarrow> queued w i \<Longrightarrow> cov w i" for i using inv by (auto simp: dw_inv_def)
  show ?thesis
  proof (cases ev)
    case EvStart
    with okk io own cv show ?thesis
      by (auto simp: dw_step_def dw_start_def dw_inv_def inflight_ok_def cov_def)
  next
    case EvStop
    with okk io own show ?thesis by (auto simp: dw_step_def dw_stop_def dw_inv_def inflight_ok_def)
  next
    case (EvEnqueue m)
    with okk io own cv show ?thesis
      by (auto simp: dw_step_def dw_enqueue_def dw_inv_def inflight_ok_def cov_def queued_def ok_ops get_enqueue split: if_splits)
  next
    case (EvFlush r)
    with okk io own cv show ?thesis
      by (auto simp: dw_step_def dw_flush_def dw_inv_def inflight_ok_def cov_def queued_def)
  next
    case (EvAcknowledge i)
    with okk io own cv show ?thesis
      by (auto simp: dw_step_def dw_acknowledge_def dw_inv_def inflight_ok_def cov_def queued_def)
  next
    case (EvTimer i)
    show ?thesis
    proof (cases "jhas (dw_timers w) i")
      case True
      let ?w = "cancelTimer i w"
      have io': "inflight_ok ?w" using io by (simp add: inflight_ok_def)
      have "cov (runAttempt i ?w) j" if "dw_running w" "queued w j" for j
      proof (cases "j = i")
        case True
        with cov_runAttempt_self [OF _ io', of i] that(1) show ?thesis by simp
      next
        case False
        with cv [OF that] have "cov ?w j" by (auto simp: cov_def)
        then show ?thesis by (rule cov_runAttempt)
      qed
      moreover have "\<forall>t\<in>set (dw_threads (runAttempt i ?w)). names_own t" using own by (auto simp: runAttempt_def)
      ultimately show ?thesis using True EvTimer okk inflight_runAttempt [OF io', of i]
        by (simp add: dw_step_def dw_fire_def dw_inv_def queued_def)
    qed (use EvTimer inv in \<open>simp add: dw_step_def dw_fire_def\<close>)
  next
    case (EvRead n)
    show ?thesis
    proof (cases "n < length (dw_threads w)")
      case True
      let ?t = "dw_threads w ! n" let ?t' = "thread_read ops (dw_store w) ?t"
      note d = set_drop_at [OF True] set_update [OF True, of ?t']
      let ?w' = "w\<lparr>dw_threads := (dw_threads w)[n := ?t']\<rparr>"
      have a: "?t' = ?t" if "?t = TAttempt m" for m using that by (simp add: thread_read_def)
      have "names_own ?t" using own d(1) by simp
      then have "names_own ?t'" using okk get_id
        by (cases ?t) (auto simp: thread_read_def names_own_fetched)
      then have 1: "\<forall>t\<in>set (dw_threads ?w'). names_own t" using own d by simp
      have 2: "inflight_ok ?w'" unfolding inflight_ok_def
      proof
        fix i assume "i \<in> set (dw_inflight ?w')"
        then obtain m where "TAttempt m \<in> set (dw_threads w)" "pm_messageId m = i" using io by (auto simp: inflight_ok_def)
        moreover have "TAttempt m \<in> set (dw_threads ?w')"
        proof (cases "?t = TAttempt m")
          case True
          from a [OF this] True d(2) show ?thesis by simp
        next
          case False
          with calculation(1) d show ?thesis by auto
        qed
        ultimately show "\<exists>m. TAttempt m \<in> set (dw_threads ?w') \<and> pm_messageId m = i" by blast
      qed
      have 3: "cov ?w' i" if q: "dw_running w" "queued w i" for i
      proof (cases "jhas (dw_timers w) i")
        case False
        with cv [OF q] obtain t where t: "t \<in> set (dw_threads w)" "covers i t" by (auto simp: cov_def)
        then have "covers i ?t' \<or> t \<in> set (drop_at n (dw_threads w))"
          using d(1) read_covers [OF okk q(2), of ?t] by auto
        with t(2) d(2) show ?thesis by (auto simp: cov_def)
      qed (simp add: cov_def)
      show ?thesis using True EvRead okk 1 2 3 by (simp add: dw_step_def dw_inv_def queued_def)
    qed (use EvRead inv in \<open>simp add: dw_step_def\<close>)
  next
    case (EvGo n e)
    show ?thesis
    proof (cases "n < length (dw_threads w)")
      case True
      note d = set_drop_at [OF True]
      let ?w = "w\<lparr>dw_threads := drop_at n (dw_threads w)\<rparr>"
      have "dw_inv (thread_go ops b e (dw_threads w ! n) ?w)"
      proof (rule go_inv)
        show "ok (dw_store ?w)" using okk by simp
        show "\<forall>i\<in>set (dw_inflight ?w). \<exists>m. TAttempt m \<in> insert (dw_threads w ! n) (set (dw_threads ?w)) \<and> pm_messageId m = i"
          using io d by (simp add: inflight_ok_def)
        show "names_own (dw_threads w ! n)" "\<forall>t\<in>set (dw_threads ?w). names_own t" using own d by auto
        show "\<forall>i. queued ?w i \<longrightarrow> cov ?w i \<or> covers i (dw_threads w ! n)" if "dw_running ?w"
          using cv that d by (auto simp: cov_def queued_def)
      qed
      with True EvGo show ?thesis by (simp add: dw_step_def)
    qed (use EvGo inv in \<open>simp add: dw_step_def\<close>)
  qed
qed

lemma dw_inv_run: "dw_inv w \<Longrightarrow> dw_inv (dw_run ops b evs w)"
  by (induction evs arbitrary: w) (simp_all add: dw_run_def dw_inv_step)

lemma dw_inv_init: "ok s \<Longrightarrow> dw_inv (DeliveryWorker s)"
  by (simp add: dw_inv_def DeliveryWorker_def inflight_ok_def)

text \<open>Only the acknowledgement of a message takes it off the queue.\<close>

lemma step_queued:
  assumes okk: "ok (dw_store w)" and q: "queued w i"
    and no: "\<And>n e m. ev = EvGo n e \<Longrightarrow> n < length (dw_threads w) \<Longrightarrow> dw_threads w ! n \<noteq> TAcked i (Some m)"
  shows "queued (dw_step ops b w ev) i"
proof (cases ev)
  case (EvGo n e)
  show ?thesis
  proof (cases "n < length (dw_threads w)")
    case True
    let ?w = "w\<lparr>dw_threads := drop_at n (dw_threads w)\<rparr>"
    have na: "dw_threads w ! n \<noteq> TAcked i (Some m)" for m using no EvGo True by blast
    have "queued (thread_go ops b e (dw_threads w ! n) ?w) i"
    proof (cases "dw_threads w ! n")
      case (TFetched j m)
      with q show ?thesis by (cases m) (simp_all add: thread_go_def queued_def Let_def)
    next
      case (TRechecked j m)
      with q okk show ?thesis by (cases m) (auto simp: thread_go_def queued_def Let_def get_update)
    next
      case (TAcked j m)
      with q okk na show ?thesis by (cases m) (auto simp: thread_go_def queued_def get_remove)
    qed (use q in \<open>simp_all add: thread_go_def queued_def fold_runAttempt\<close>)
    with True EvGo show ?thesis by (simp add: dw_step_def)
  qed (use EvGo q in \<open>simp add: dw_step_def\<close>)
qed (use okk q in \<open>simp_all add: dw_step_def queued_def dw_start_def dw_stop_def dw_enqueue_def dw_flush_def
  dw_acknowledge_def dw_fire_def get_enqueue\<close>)

text \<open>
  Every message in the store, in a thread or handed to an attempt has the content of one that was
  enqueued, or that the store held at first.
\<close>

definition dw_content :: "'s \<Rightarrow> 's worker \<Rightarrow> bool" where
  "dw_content s0 w = (let known = \<lambda>m. \<exists>a. (ps_get ops (pm_messageId a) s0 = Some a \<or> a \<in> set (dw_enqueued w)) \<and> same_content a m
     in ok (dw_store w) \<and> (\<forall>i m. ps_get ops i (dw_store w) = Some m \<longrightarrow> known m)
        \<and> (\<forall>t\<in>set (dw_threads w). \<forall>m. carried t = Some m \<longrightarrow> known m) \<and> (\<forall>m\<in>set (dw_sends w). known m))"

lemma same_content_refl [simp]: "same_content m m"
  by (simp add: same_content_def)

lemma same_content_patch [simp]: "same_content a (apply_patch p m) = same_content a m"
  by (simp add: same_content_def)

lemma dw_content_step:
  assumes inv: "dw_content s0 w"
  shows "dw_content s0 (dw_step ops b w ev)"
proof -
  define known where "known E m \<longleftrightarrow> (\<exists>a. (ps_get ops (pm_messageId a) s0 = Some a \<or> a \<in> set E) \<and> same_content a m)" for E m
  have known_patch: "known E (apply_patch p m) = known E m" for E p m by (simp add: known_def)
  have known_more: "known E m \<Longrightarrow> known (E @ F) m" for E F m by (auto simp: known_def)
  have known_self: "known (E @ [m]) m" for E m by (auto simp: known_def intro: exI [of _ m])
  have C: "dw_content s0 w \<longleftrightarrow> ok (dw_store w) \<and> (\<forall>i m. ps_get ops i (dw_store w) = Some m \<longrightarrow> known (dw_enqueued w) m)
        \<and> (\<forall>t\<in>set (dw_threads w). \<forall>m. carried t = Some m \<longrightarrow> known (dw_enqueued w) m)
        \<and> (\<forall>m\<in>set (dw_sends w). known (dw_enqueued w) m)" for w
    by (simp add: dw_content_def known_def Let_def)
  have okk: "ok (dw_store w)" and st: "\<And>i m. ps_get ops i (dw_store w) = Some m \<Longrightarrow> known (dw_enqueued w) m"
    and th: "\<And>t m. t \<in> set (dw_threads w) \<Longrightarrow> carried t = Some m \<Longrightarrow> known (dw_enqueued w) m"
    and sd: "\<And>m. m \<in> set (dw_sends w) \<Longrightarrow> known (dw_enqueued w) m" using inv unfolding C by blast+
  have att: "dw_content s0 w \<Longrightarrow> dw_content s0 (runAttempt i w)" for i and w :: "'s worker"
    by (auto simp: C runAttempt_def)
  have fatt: "dw_content s0 w \<Longrightarrow> dw_content s0 (fold runAttempt is w)" for "is" and w :: "'s worker"
    by (induction "is" arbitrary: w) (auto intro: att)
  show ?thesis
  proof (cases ev)
    case (EvEnqueue m)
    with okk st th sd known_more known_self show ?thesis
      by (auto simp: C dw_step_def dw_enqueue_def ok_ops get_enqueue split: if_splits)
  next
    case (EvTimer i)
    have "dw_content s0 (cancelTimer i w)" using inv by (simp add: C)
    with EvTimer inv att show ?thesis by (simp add: dw_step_def dw_fire_def)
  next
    case (EvRead n)
    show ?thesis
    proof (cases "n < length (dw_threads w)")
      case True
      note d = set_drop_at [OF True] set_update [OF True, of "thread_read ops (dw_store w) (dw_threads w ! n)"]
      have "known (dw_enqueued w) m" if "carried (thread_read ops (dw_store w) (dw_threads w ! n)) = Some m" for m
        using that st th [of "dw_threads w ! n"] d(1) by (cases "dw_threads w ! n") (auto simp: thread_read_def)
      with True EvRead okk st th sd d show ?thesis by (auto simp: C dw_step_def)
    qed (use EvRead inv in \<open>simp add: dw_step_def\<close>)
  next
    case (EvGo n e)
    show ?thesis
    proof (cases "n < length (dw_threads w)")
      case True
      let ?w = "w\<lparr>dw_threads := drop_at n (dw_threads w)\<rparr>" let ?t = "dw_threads w ! n"
      note d = set_drop_at [OF True]
      have w: "dw_content s0 ?w" and t: "\<And>m. carried ?t = Some m \<Longrightarrow> known (dw_enqueued w) m"
        using inv th d by (auto simp: C)
      have em: "dw_content s0 (emitMetrics ops v) = dw_content s0 v" for v by (simp add: C)
      have "dw_content s0 (thread_go ops b e ?t ?w)"
      proof (cases ?t)
        case (TEnqueued i)
        with att [of "emitMetrics ops ?w" i] w show ?thesis by (simp add: thread_go_def em)
      next
        case (TFlushing "is")
        with fatt [OF w] show ?thesis by (simp add: thread_go_def)
      next
        case (TFetched i m)
        with w t show ?thesis by (cases m) (auto simp: thread_go_def C Let_def)
      next
        case (TRechecked i m)
        with w okk show ?thesis
          by (cases m) (auto simp: thread_go_def C Let_def ok_ops get_update known_patch split: if_splits)
      next
        case (TAcked i m)
        with w okk show ?thesis by (cases m) (auto simp: thread_go_def C em ok_ops get_remove split: if_splits)
      qed (use w t in \<open>auto simp: thread_go_def C\<close>)
      with True EvGo show ?thesis by (simp add: dw_step_def)
    qed (use EvGo inv in \<open>simp add: dw_step_def\<close>)
  qed (use inv in \<open>auto simp: C dw_step_def dw_start_def dw_stop_def dw_flush_def dw_acknowledge_def\<close>)
qed

lemma dw_content_run: "dw_content s0 w \<Longrightarrow> dw_content s0 (dw_run ops b evs w)"
  by (induction evs arbitrary: w) (simp_all add: dw_run_def dw_content_step)

lemma dw_content_init: "ok s \<Longrightarrow> dw_content s (DeliveryWorker s)"
  using get_id by (auto simp: dw_content_def DeliveryWorker_def intro!: exI)

end

end
