(* ===== verification/Contacts.thy ===== *)
theory Contacts
  imports Wire
begin

text \<open>
  \<open>packages/orpal-core/src/contacts/contact.ts\<close>: contacts and the cards they come from. A card is
  accepted only if its binding verifies and ties its identity key to its transport key; so a card for
  an identity that signs only what it should carries that identity's own transport key.
\<close>

record contact =
  ct_identityKey :: string
  ct_transportKey :: string
  ct_binding :: json
  ct_displayName :: string
  ct_relayOnly :: bool
  ct_preferredBoards :: "string list option"
  ct_fallbackBoards :: "string list option"
  ct_autoAcceptMigration :: "bool option"
  ct_addedUtc :: string
  ct_isLoopback :: bool

record contact_card =
  cc_identity_key :: string
  cc_transport_key :: string
  cc_binding :: json
  cc_name :: "string option"

definition serializeContactCard :: "public_identity \<Rightarrow> string option \<Rightarrow> string" where
  "serializeContactCard pub name = json_str (obj_of
     [(''v'', Some (JNum 1)), (''kind'', Some (JStr ''orpal-contact'')),
      (''identity_key'', Some (JStr (pi_identity_key pub))), (''transport_key'', Some (JStr (pi_transport_key pub))),
      (''binding'', Some (pi_binding pub)), (''name'', map_option JStr name)])"

definition parseContactCard :: "crypto \<Rightarrow> string \<Rightarrow> string + contact_card" where
  "parseContactCard C input =
     (case json_parse input of
        None \<Rightarrow> Inl ''not-valid-json''
      | Some o1 \<Rightarrow>
          if \<not> is_obj o1 then Inl ''not-an-object''
          else if jprop o1 ''kind'' \<noteq> Some (JStr ''orpal-contact'') then Inl ''not-an-orpal-contact-card''
          else if \<not> jis_str (jprop o1 ''identity_key'') \<or> \<not> jis_str (jprop o1 ''transport_key'')
              \<or> \<not> (case jprop o1 ''binding'' of Some b \<Rightarrow> is_obj b | None \<Rightarrow> False) then Inl ''missing-fields''
          else
            (let binding = the (jprop o1 ''binding'')
             in if \<not> verifyBinding C binding then Inl ''bad-binding-signature''
                else if jprop binding ''identity_key'' \<noteq> jprop o1 ''identity_key'' then Inl ''binding-identity-mismatch''
                else if jprop binding ''transport_key'' \<noteq> jprop o1 ''transport_key'' then Inl ''binding-transport-mismatch''
                else Inr \<lparr>cc_identity_key = jstr (jprop o1 ''identity_key''),
                       cc_transport_key = jstr (jprop o1 ''transport_key''), cc_binding = binding,
                       cc_name = (if jis_str (jprop o1 ''name'') then Some (jstr (jprop o1 ''name'')) else None)\<rparr>))"

definition shortKey :: "string \<Rightarrow> string" where
  \<comment> \<open>with the UTF-8 bytes of the ellipsis\<close>
  "shortKey identityKey =
     (if length identityKey \<le> 12 then identityKey
      else take 6 identityKey @ [CHR 0xE2, CHR 0x80, CHR 0xA6] @ drop (length identityKey - 4) identityKey)"

record contact_opts =
  co_displayName :: "string option"
  co_relayOnly :: "bool option"
  co_preferredBoards :: "string list option"
  co_fallbackBoards :: "string list option"
  co_now :: "string option"

definition no_opts :: contact_opts where
  "no_opts = \<lparr>co_displayName = None, co_relayOnly = None, co_preferredBoards = None, co_fallbackBoards = None, co_now = None\<rparr>"

definition contactFromCard :: "contact_card \<Rightarrow> contact_opts \<Rightarrow> string \<Rightarrow> contact" where
  "contactFromCard cd opts sys =
     \<lparr>ct_identityKey = cc_identity_key cd, ct_transportKey = cc_transport_key cd, ct_binding = cc_binding cd,
      ct_displayName = or_default (co_displayName opts) (or_default (cc_name cd) (shortKey (cc_identity_key cd))),
      ct_relayOnly = or_default (co_relayOnly opts) False,
      ct_preferredBoards = Some (or_default (co_preferredBoards opts) []),
      ct_fallbackBoards = Some (or_default (co_fallbackBoards opts) []),
      ct_autoAcceptMigration = None, ct_addedUtc = nowIso (co_now opts) sys, ct_isLoopback = False\<rparr>"

definition LOOPBACK_NAME :: string where
  "LOOPBACK_NAME = ''Test (me)''"

definition makeLoopbackContact ::
  "crypto \<Rightarrow> public_identity \<Rightarrow> string option \<Rightarrow> string option \<Rightarrow> string \<Rightarrow> string + contact" where
  "makeLoopbackContact C pub name now sys =
     (case parseContactCard C (serializeContactCard pub (Some (or_default name LOOPBACK_NAME))) of
        Inl reason \<Rightarrow> Inl (''makeLoopbackContact: own card failed validation ('' @ reason @ '')'')
      | Inr cd \<Rightarrow> Inr ((contactFromCard cd (no_opts\<lparr>co_now := now\<rparr>) sys)\<lparr>ct_isLoopback := True\<rparr>))"

subsection \<open>A card is what its owner signed\<close>

definition card_bound :: "crypto \<Rightarrow> contact_card \<Rightarrow> bool" where
  \<comment> \<open>the binding is self-signed and ties the two keys of the card\<close>
  "card_bound C cd = (verifyBinding C (cc_binding cd)
     \<and> jprop (cc_binding cd) ''identity_key'' = Some (JStr (cc_identity_key cd))
     \<and> jprop (cc_binding cd) ''transport_key'' = Some (JStr (cc_transport_key cd)))"

lemma wf_jget: "wf_json (JObj fs) \<Longrightarrow> jget fs k = Some v \<Longrightarrow> wf_json v"
  using map_of_SomeD by fastforce

lemma wf_jprop: "wf_json j \<Longrightarrow> jprop j k = Some v \<Longrightarrow> wf_json v"
  by (cases j) (auto simp: jprop_def simp del: wf_json.simps intro: wf_jget)

lemma parseContactCard_Inr:
  assumes "parseContactCard C input = Inr cd"
  shows "card_bound C cd" "wf_json (cc_binding cd)"
proof -
  obtain o1 b where o: "json_parse input = Some o1" "jprop o1 ''binding'' = Some b" "cc_binding cd = b"
    and k: "jis_str (jprop o1 ''identity_key'')" "jis_str (jprop o1 ''transport_key'')"
      "cc_identity_key cd = jstr (jprop o1 ''identity_key'')" "cc_transport_key cd = jstr (jprop o1 ''transport_key'')"
    and b: "verifyBinding C b" "jprop b ''identity_key'' = jprop o1 ''identity_key''"
      "jprop b ''transport_key'' = jprop o1 ''transport_key''"
    using assms unfolding parseContactCard_def by (auto simp: Let_def split: option.splits if_splits)
  show "card_bound C cd" using o(3) k b by (auto simp: card_bound_def jis_str_iff)
  show "wf_json (cc_binding cd)" using json_parse_wf [OF o(1)] o(2,3) wf_jprop by metis
qed

lemma parse_card_checks:
  assumes "verifyBinding C (di_binding i)" "identity_ok C i"
  shows "parseContactCard C (serializeContactCard (exportPublic i) name) =
    Inr \<lparr>cc_identity_key = identityKeyB64 i, cc_transport_key = transportKeyB64 i, cc_binding = di_binding i, cc_name = name\<rparr>"
proof -
  let ?j = "obj_of [(''v'', Some (JNum 1)), (''kind'', Some (JStr ''orpal-contact'')),
      (''identity_key'', Some (JStr (identityKeyB64 i))), (''transport_key'', Some (JStr (transportKeyB64 i))),
      (''binding'', Some (di_binding i)), (''name'', map_option JStr name)]"
  have "wf_json ?j" using wf_binding [OF assms(2)] by (cases name) (simp_all add: obj_of_def List.map_filter_simps)
  then have p: "json_parse (serializeContactCard (exportPublic i) name) = Some ?j"
    by (simp add: serializeContactCard_def exportPublic_def)
  have g: "jprop ?j ''kind'' = Some (JStr ''orpal-contact'')" "jprop ?j ''identity_key'' = Some (JStr (identityKeyB64 i))"
    "jprop ?j ''transport_key'' = Some (JStr (transportKeyB64 i))" "jprop ?j ''binding'' = Some (di_binding i)"
    "jprop ?j ''name'' = map_option JStr name" "is_obj ?j"
    by (cases name; simp add: obj_of_def List.map_filter_simps is_obj_def)+
  show ?thesis unfolding parseContactCard_def p option.case
    using g assms(1) jprop_binding_ok [OF assms(2)] is_obj_binding [OF assms(2)]
    by (cases name) (simp_all add: Let_def)
qed

lemma parse_serializeContactCard:
  assumes "ed_ok C" "identity_ok C i"
  shows "parseContactCard C (serializeContactCard (exportPublic i) name) =
    Inr \<lparr>cc_identity_key = identityKeyB64 i, cc_transport_key = transportKeyB64 i, cc_binding = di_binding i, cc_name = name\<rparr>"
  by (rule parse_card_checks [OF verifyBinding_identity [OF assms] assms(2)])

text \<open>A verified binding of any shape, as long as it came out of the parser.\<close>

lemma binding_authentic:
  assumes signs: "signs_only C i R" and v: "verifyBinding C b" and wf: "wf_json b"
    and ik: "jprop b ''identity_key'' = Some (JStr (identityKeyB64 i))"
    and tk: "jprop b ''transport_key'' = Some (JStr t)"
  shows "t = transportKeyB64 i"
proof -
  let ?own = "[(''identity_key'', JStr (identityKeyB64 i)), (''transport_key'', JStr (transportKeyB64 i)),
    (''created_utc'', JStr (jstr (jprop (di_binding i) ''created_utc'')))]"
  let ?fs = "[(''identity_key'', JStr (identityKeyB64 i)), (''transport_key'', JStr t)] @
    (case jprop b ''created_utc'' of Some c \<Rightarrow> [(''created_utc'', c)] | None \<Rightarrow> [])"
  have body: "obj_of [(''identity_key'', jprop b ''identity_key''), (''transport_key'', jprop b ''transport_key''),
      (''created_utc'', jprop b ''created_utc'')] = JObj ?fs"
    by (simp add: ik tk obj_of_def List.map_filter_simps split: option.splits)
  have wfs: "wf_json (JObj ?fs)" using wf wf_jprop by (auto split: option.splits)
  obtain sig where "ed_verify C sig (canonicalBytes (JObj ?fs)) (signingPub i) = Some True"
    using v unfolding verifyBinding_def body by (auto simp: ik identityKeyB64_def split: option.splits)
  with signs consider "canonicalBytes (JObj ?fs) = canonicalBytes (JObj ?own)"
    | gs where "gs \<in> R" "canonicalBytes (JObj ?fs) = canonicalBytes (JObj gs)"
    unfolding signs_only_def ed_only_signed_def binding_body_def by blast
  then show ?thesis
  proof cases
    case 1
    have wo: "wf_json (JObj ?own)" by simp
    have "norm_json (JObj ?fs) = norm_json (JObj ?own)" using 1 canonicalBytes_eq_iff [OF wfs wo] by blast
    from norm_json_get_str [OF this wfs wo, of "''transport_key''" t] show ?thesis by simp
  next
    case (2 gs)
    then have wg: "wf_json (JObj gs)" "jhas gs ''type''" using signs by (auto simp: signs_only_def)
    have "norm_json (JObj ?fs) = norm_json (JObj gs)" using 2 canonicalBytes_eq_iff [OF wfs wg(1)] by blast
    from norm_json_get [OF this wfs wg(1), of "''type''"] wg(2) show ?thesis
      by (auto simp: jhas_def split: option.splits)
  qed
qed

lemma card_authentic:
  assumes "signs_only C i R" "parseContactCard C input = Inr cd" "cc_identity_key cd = identityKeyB64 i"
  shows "cc_transport_key cd = transportKeyB64 i"
  using parseContactCard_Inr [OF assms(2)] assms(1,3) binding_authentic by (auto simp: card_bound_def)

lemma contactFromCard_sel [simp]:
  "ct_identityKey (contactFromCard cd opts sys) = cc_identity_key cd"
  "ct_transportKey (contactFromCard cd opts sys) = cc_transport_key cd"
  "ct_binding (contactFromCard cd opts sys) = cc_binding cd"
  "ct_isLoopback (contactFromCard cd opts sys) = False"
  by (simp_all add: contactFromCard_def)

lemma makeLoopback_own:
  assumes "ed_ok C" "identity_ok C i"
  shows "\<exists>c. makeLoopbackContact C (exportPublic i) name now sys = Inr c \<and> ct_isLoopback c
    \<and> ct_identityKey c = identityKeyB64 i \<and> ct_transportKey c = transportKeyB64 i"
  using parse_serializeContactCard [OF assms] by (simp add: makeLoopbackContact_def)

end
