(* ===== verification/ContactExport.thy ===== *)
theory ContactExport
  imports Contacts Frames
begin

text \<open>
  \<open>packages/orpal-core/src/contacts/contact-export.ts\<close>: the contact bundle. Every entry of an imported
  bundle goes through the check of a single card; an exported bundle imports unchanged. Fields of an
  entry are read at their declared types.
\<close>

definition CONTACTS_EXPORT_KIND :: string where
  "CONTACTS_EXPORT_KIND = ''orpal-contacts-export''"

definition strs_json :: "string list \<Rightarrow> json" where
  "strs_json xs = JArr (map JStr xs)"

definition toEntry :: "contact \<Rightarrow> json" where
  "toEntry c = JObj
     [(''identityKey'', JStr (ct_identityKey c)), (''transportKey'', JStr (ct_transportKey c)), (''binding'', ct_binding c),
      (''displayName'', JStr (ct_displayName c)), (''relayOnly'', JBool (ct_relayOnly c)),
      (''preferredBoards'', strs_json (or_default (ct_preferredBoards c) [])),
      (''fallbackBoards'', strs_json (or_default (ct_fallbackBoards c) [])),
      (''autoAcceptMigration'', JBool (or_default (ct_autoAcceptMigration c) False)), (''addedUtc'', JStr (ct_addedUtc c))]"

definition serializeContacts :: "contact list \<Rightarrow> string option \<Rightarrow> string \<Rightarrow> string" where
  "serializeContacts contacts now sys = json_str (JObj
     [(''v'', JNum 1), (''kind'', JStr CONTACTS_EXPORT_KIND), (''exportedUtc'', JStr (nowIso now sys)),
      (''contacts'', JArr (map toEntry (filter (\<lambda>c. \<not> ct_isLoopback c) contacts)))])"

record contacts_export =
  ce_exportedUtc :: string
  ce_contacts :: "json list"

definition parseContactsExport :: "string \<Rightarrow> string + contacts_export" where
  "parseContactsExport input =
     (case json_parse input of
        None \<Rightarrow> Inl ''not-valid-json''
      | Some o1 \<Rightarrow>
          if \<not> is_obj o1 then Inl ''not-an-object''
          else if jprop o1 ''kind'' \<noteq> Some (JStr CONTACTS_EXPORT_KIND) then Inl ''not-a-contacts-export''
          else if jprop o1 ''v'' \<noteq> Some (JNum 1) then Inl ''unsupported-version''
          else (case jprop o1 ''contacts'' of
              Some (JArr cs) \<Rightarrow> Inr \<lparr>ce_exportedUtc = jstr (jprop o1 ''exportedUtc''), ce_contacts = cs\<rparr>
            | _ \<Rightarrow> Inl ''missing-contacts''))"

subsection \<open>Import\<close>

datatype collision = Skip | Overwrite

record import_opts =
  io_onCollision :: "collision option"
  io_existingKeys :: "string list"
  io_ownKey :: "string option"
  io_now :: "string option"

record import_summary =
  is_imported :: nat
  is_skipped :: nat
  is_rejected :: "(string \<times> string) list"

record import_state =
  im_contacts :: "contact list"
  im_summary :: import_summary
  im_seen :: "string list"

definition jopt_bool :: "json option \<Rightarrow> bool option" where
  "jopt_bool v = (case v of Some (JBool b) \<Rightarrow> Some b | _ \<Rightarrow> None)"

definition jopt_str :: "json option \<Rightarrow> string option" where
  "jopt_str v = (case v of Some (JStr s) \<Rightarrow> Some s | _ \<Rightarrow> None)"

definition jopt_strs :: "json option \<Rightarrow> string list option" where
  "jopt_strs v = (case v of Some (JArr xs) \<Rightarrow> Some (map (\<lambda>x. jstr (Some x)) xs) | _ \<Rightarrow> None)"

definition entry_card :: "json \<Rightarrow> string" where
  "entry_card entry = json_str (obj_of
     [(''v'', Some (JNum 1)), (''kind'', Some (JStr ''orpal-contact'')),
      (''identity_key'', jprop entry ''identityKey''), (''transport_key'', jprop entry ''transportKey''),
      (''binding'', jprop entry ''binding''), (''name'', jprop entry ''displayName'')])"

definition entry_contact :: "json \<Rightarrow> contact_card \<Rightarrow> import_opts \<Rightarrow> string \<Rightarrow> contact" where
  "entry_contact entry cd opts sys =
     (let c = contactFromCard cd \<lparr>co_displayName = jopt_str (jprop entry ''displayName''),
            co_relayOnly = jopt_bool (jprop entry ''relayOnly''),
            co_preferredBoards = jopt_strs (jprop entry ''preferredBoards''),
            co_fallbackBoards = jopt_strs (jprop entry ''fallbackBoards''), co_now = io_now opts\<rparr> sys;
          c1 = c\<lparr>ct_autoAcceptMigration := Some (or_default (jopt_bool (jprop entry ''autoAcceptMigration'')) False)\<rparr>
      in case jopt_str (jprop entry ''addedUtc'') of
           Some t \<Rightarrow> if t \<noteq> [] then c1\<lparr>ct_addedUtc := t\<rparr> else c1
         | None \<Rightarrow> c1)"

definition reject :: "string \<Rightarrow> string \<Rightarrow> import_state \<Rightarrow> import_state" where
  "reject key reason st =
     st\<lparr>im_summary := (im_summary st)\<lparr>is_rejected := is_rejected (im_summary st) @ [(key, reason)]\<rparr>\<rparr>"

definition import_entry :: "crypto \<Rightarrow> import_opts \<Rightarrow> string \<Rightarrow> import_state \<Rightarrow> json \<Rightarrow> import_state" where
  "import_entry C opts sys st entry =
     (let idKey = or_default (jopt_str (jprop entry ''identityKey'')) ''(unknown)''
      in case parseContactCard C (entry_card entry) of
           Inl reason \<Rightarrow> reject idKey reason st
         | Inr card2 \<Rightarrow>
             if (case io_ownKey opts of Some own \<Rightarrow> own \<noteq> [] \<and> cc_identity_key card2 = own | None \<Rightarrow> False) then
               reject idKey ''that-is-your-own-card'' st
             else if (cc_identity_key card2 \<in> set (im_seen st) \<or> cc_identity_key card2 \<in> set (io_existingKeys opts))
                 \<and> or_default (io_onCollision opts) Skip = Skip then
               st\<lparr>im_summary := (im_summary st)\<lparr>is_skipped := is_skipped (im_summary st) + 1\<rparr>\<rparr>
             else
               st\<lparr>im_contacts := im_contacts st @ [entry_contact entry card2 opts sys],
                  im_seen := set_add (cc_identity_key card2) (im_seen st),
                  im_summary := (im_summary st)\<lparr>is_imported := is_imported (im_summary st) + 1\<rparr>\<rparr>)"

definition importContacts :: "crypto \<Rightarrow> import_opts \<Rightarrow> string \<Rightarrow> contacts_export \<Rightarrow> contact list \<times> import_summary" where
  "importContacts C opts sys bundle =
     (let st = foldl (import_entry C opts sys)
            \<lparr>im_contacts = [], im_summary = \<lparr>is_imported = 0, is_skipped = 0, is_rejected = []\<rparr>, im_seen = []\<rparr>
            (ce_contacts bundle)
      in (im_contacts st, im_summary st))"

subsection \<open>What an import lets in\<close>

definition contact_bound :: "crypto \<Rightarrow> contact \<Rightarrow> bool" where
  "contact_bound C c = (verifyBinding C (ct_binding c) \<and> wf_json (ct_binding c)
     \<and> jprop (ct_binding c) ''identity_key'' = Some (JStr (ct_identityKey c))
     \<and> jprop (ct_binding c) ''transport_key'' = Some (JStr (ct_transportKey c)))"

definition import_inv :: "crypto \<Rightarrow> import_opts \<Rightarrow> nat \<Rightarrow> import_state \<Rightarrow> bool" where
  "import_inv C opts n st = (
     (\<forall>c\<in>set (im_contacts st). contact_bound C c \<and> \<not> ct_isLoopback c \<and> (ct_identityKey c = [] \<or> io_ownKey opts \<noteq> Some (ct_identityKey c)))
     \<and> set (im_seen st) = ct_identityKey ` set (im_contacts st)
     \<and> (or_default (io_onCollision opts) Skip = Skip \<longrightarrow>
          distinct (map ct_identityKey (im_contacts st)) \<and> (\<forall>c\<in>set (im_contacts st). ct_identityKey c \<notin> set (io_existingKeys opts)))
     \<and> is_imported (im_summary st) = length (im_contacts st)
     \<and> is_imported (im_summary st) + is_skipped (im_summary st) + length (is_rejected (im_summary st)) = n)"

lemma entry_contact_sel [simp]:
  "ct_identityKey (entry_contact e cd opts sys) = cc_identity_key cd"
  "ct_transportKey (entry_contact e cd opts sys) = cc_transport_key cd"
  "ct_binding (entry_contact e cd opts sys) = cc_binding cd"
  "ct_isLoopback (entry_contact e cd opts sys) = False"
  by (simp_all add: entry_contact_def Let_def split: option.splits)

lemma import_inv_step:
  assumes "import_inv C opts n st"
  shows "import_inv C opts (Suc n) (import_entry C opts sys st e)"
proof (cases "parseContactCard C (entry_card e)")
  case (Inl reason)
  with assms show ?thesis by (simp add: import_entry_def import_inv_def reject_def Let_def)
next
  case (Inr cd)
  note p = parseContactCard_Inr [OF Inr]
  let ?c = "entry_contact e cd opts sys"
  have b: "contact_bound C ?c" using p by (simp add: contact_bound_def card_bound_def)
  consider (own) "case io_ownKey opts of Some own \<Rightarrow> own \<noteq> [] \<and> cc_identity_key cd = own | None \<Rightarrow> False"
    | (coll) "\<not> (case io_ownKey opts of Some own \<Rightarrow> own \<noteq> [] \<and> cc_identity_key cd = own | None \<Rightarrow> False)"
      "(cc_identity_key cd \<in> set (im_seen st) \<or> cc_identity_key cd \<in> set (io_existingKeys opts))
        \<and> or_default (io_onCollision opts) Skip = Skip"
    | (new) "\<not> (case io_ownKey opts of Some own \<Rightarrow> own \<noteq> [] \<and> cc_identity_key cd = own | None \<Rightarrow> False)"
      "\<not> ((cc_identity_key cd \<in> set (im_seen st) \<or> cc_identity_key cd \<in> set (io_existingKeys opts))
        \<and> or_default (io_onCollision opts) Skip = Skip)" by blast
  then show ?thesis
  proof cases
    case own
    with Inr assms show ?thesis by (simp add: import_entry_def import_inv_def reject_def Let_def)
  next
    case coll
    with Inr assms show ?thesis by (simp add: import_entry_def import_inv_def Let_def)
  next
    case new
    have o: "cc_identity_key cd = [] \<or> io_ownKey opts \<noteq> Some (cc_identity_key cd)" using new(1) by (auto split: option.splits)
    have e: "import_entry C opts sys st e = st\<lparr>im_contacts := im_contacts st @ [?c],
                  im_seen := set_add (cc_identity_key cd) (im_seen st),
                  im_summary := (im_summary st)\<lparr>is_imported := is_imported (im_summary st) + 1\<rparr>\<rparr>"
      using Inr new by (auto simp: import_entry_def Let_def)
    show ?thesis unfolding e using assms b o new(2) by (auto simp: import_inv_def)
  qed
qed

lemma import_inv_fold: "import_inv C opts n st \<Longrightarrow> import_inv C opts (n + length es) (foldl (import_entry C opts sys) st es)"
proof (induction es arbitrary: n st)
  case (Cons e es)
  from Cons.IH [OF import_inv_step [OF Cons.prems, of sys e]] show ?case by simp
qed simp

lemma importContacts_inv:
  assumes "importContacts C opts sys bundle = (cs, sm)"
  shows "\<exists>seen. import_inv C opts (length (ce_contacts bundle)) \<lparr>im_contacts = cs, im_summary = sm, im_seen = seen\<rparr>"
proof -
  let ?init = "\<lparr>im_contacts = [], im_summary = \<lparr>is_imported = 0, is_skipped = 0, is_rejected = []\<rparr>, im_seen = []\<rparr>"
  let ?st = "foldl (import_entry C opts sys) ?init (ce_contacts bundle)"
  have "import_inv C opts 0 ?init" unfolding import_inv_def by simp
  from import_inv_fold [OF this, of "ce_contacts bundle" sys]
  have "import_inv C opts (length (ce_contacts bundle)) ?st" by (simp only: add_0)
  moreover have "?st = \<lparr>im_contacts = cs, im_summary = sm, im_seen = im_seen ?st\<rparr>"
    using assms by (auto simp: importContacts_def Let_def)
  ultimately show ?thesis by metis
qed

subsection \<open>Export and import\<close>

text \<open>A stored contact as the program makes them: bound, and with its optional fields filled in.\<close>

definition exportable :: "contact \<Rightarrow> bool" where
  "exportable c \<longleftrightarrow> ct_preferredBoards c \<noteq> None \<and> ct_fallbackBoards c \<noteq> None \<and> ct_autoAcceptMigration c \<noteq> None
     \<and> ct_addedUtc c \<noteq> [] \<and> is_obj (ct_binding c)"

lemma jopt_simps [simp]:
  "jopt_bool (Some (JBool b)) = Some b" "jopt_str (Some (JStr s)) = Some s" "jopt_strs (Some (strs_json ss)) = Some ss"
  by (simp_all add: jopt_bool_def jopt_str_def jopt_strs_def strs_json_def comp_def)

lemma wf_strs_json [simp]: "wf_json (strs_json ss)"
  by (auto simp: strs_json_def)

lemma import_toEntry:
  assumes "contact_bound C c" "exportable c"
  shows "\<exists>cd. parseContactCard C (entry_card (toEntry c)) = Inr cd \<and> cc_identity_key cd = ct_identityKey c
    \<and> (\<not> ct_isLoopback c \<longrightarrow> entry_contact (toEntry c) cd opts sys = c)"
proof -
  let ?j = "JObj [(''v'', JNum 1), (''kind'', JStr ''orpal-contact''),
      (''identity_key'', JStr (ct_identityKey c)), (''transport_key'', JStr (ct_transportKey c)),
      (''binding'', ct_binding c), (''name'', JStr (ct_displayName c))]"
  have "entry_card (toEntry c) = json_str ?j" by (simp add: entry_card_def toEntry_def obj_of_def List.map_filter_simps)
  moreover have "wf_json ?j" using assms(1) by (simp add: contact_bound_def)
  ultimately have p: "json_parse (entry_card (toEntry c)) = Some ?j" by simp
  let ?cd = "\<lparr>cc_identity_key = ct_identityKey c, cc_transport_key = ct_transportKey c, cc_binding = ct_binding c,
      cc_name = Some (ct_displayName c)\<rparr>"
  have "parseContactCard C (entry_card (toEntry c)) = Inr ?cd"
    unfolding parseContactCard_def p option.case using assms by (simp add: is_obj_def [of "JObj _"] contact_bound_def exportable_def Let_def)
  moreover have "\<not> ct_isLoopback c \<longrightarrow> entry_contact (toEntry c) ?cd opts sys = c"
    using assms(2) by (auto simp: entry_contact_def toEntry_def contactFromCard_def exportable_def Let_def)
  ultimately show ?thesis by simp
qed

lemma import_export_fold:
  assumes "\<forall>c\<in>set cs. contact_bound C c \<and> exportable c \<and> \<not> ct_isLoopback c \<and> ct_identityKey c \<notin> set (im_seen st)
      \<and> ct_identityKey c \<notin> set (io_existingKeys opts) \<and> io_ownKey opts \<noteq> Some (ct_identityKey c)"
    and "distinct (map ct_identityKey cs)"
  shows "im_contacts (foldl (import_entry C opts sys) st (map toEntry cs)) = im_contacts st @ cs"
  using assms
proof (induction cs arbitrary: st)
  case (Cons c cs)
  then have c: "contact_bound C c" "exportable c" "\<not> ct_isLoopback c" by auto
  have fresh: "\<forall>d\<in>set cs. ct_identityKey d \<noteq> ct_identityKey c" using Cons.prems(2) by (metis distinct.simps(2) image_eqI list.set_map list.simps(9))
  from import_toEntry [OF c(1,2), of opts sys] c(3) obtain cd where cd:
    "parseContactCard C (entry_card (toEntry c)) = Inr cd" "cc_identity_key cd = ct_identityKey c"
    "entry_contact (toEntry c) cd opts sys = c" by blast
  let ?st = "st\<lparr>im_contacts := im_contacts st @ [c], im_seen := set_add (ct_identityKey c) (im_seen st),
                  im_summary := (im_summary st)\<lparr>is_imported := is_imported (im_summary st) + 1\<rparr>\<rparr>"
  have "import_entry C opts sys st (toEntry c) = ?st"
    using cd Cons.prems by (auto simp: import_entry_def Let_def split: option.splits)
  moreover have "im_contacts (foldl (import_entry C opts sys) ?st (map toEntry cs)) = im_contacts ?st @ cs"
    using Cons.prems fresh by (intro Cons.IH) auto
  ultimately show ?case by simp
qed simp

lemma wf_toEntry: "contact_bound C c \<Longrightarrow> wf_json (toEntry c)"
  by (simp add: toEntry_def contact_bound_def)

lemma parse_serializeContacts:
  assumes "\<forall>c\<in>set cs. contact_bound C c"
  shows "parseContactsExport (serializeContacts cs now sys) =
    Inr \<lparr>ce_exportedUtc = nowIso now sys, ce_contacts = map toEntry (filter (\<lambda>c. \<not> ct_isLoopback c) cs)\<rparr>"
proof -
  let ?j = "JObj [(''v'', JNum 1), (''kind'', JStr CONTACTS_EXPORT_KIND), (''exportedUtc'', JStr (nowIso now sys)),
      (''contacts'', JArr (map toEntry (filter (\<lambda>c. \<not> ct_isLoopback c) cs)))]"
  have "wf_json ?j" using assms wf_toEntry by auto
  then have "json_parse (serializeContacts cs now sys) = Some ?j" by (simp add: serializeContacts_def)
  then show ?thesis by (simp add: parseContactsExport_def is_obj_def)
qed

lemma export_import:
  assumes "\<forall>c\<in>set cs. contact_bound C c \<and> exportable c \<and> ct_identityKey c \<notin> set (io_existingKeys opts)
      \<and> io_ownKey opts \<noteq> Some (ct_identityKey c)"
    and "distinct (map ct_identityKey cs)"
  shows "\<exists>bundle. parseContactsExport (serializeContacts cs now sys) = Inr bundle
    \<and> fst (importContacts C opts sys' bundle) = filter (\<lambda>c. \<not> ct_isLoopback c) cs"
proof -
  let ?cs = "filter (\<lambda>c. \<not> ct_isLoopback c) cs"
  have "distinct (map ct_identityKey ?cs)" using assms(2) by (induction cs) auto
  then have "im_contacts (foldl (import_entry C opts sys')
      \<lparr>im_contacts = [], im_summary = \<lparr>is_imported = 0, is_skipped = 0, is_rejected = []\<rparr>, im_seen = []\<rparr> (map toEntry ?cs)) = [] @ ?cs"
    using assms(1) by (subst import_export_fold) auto
  with assms(1) parse_serializeContacts [of cs C now sys] show ?thesis
    by (simp add: importContacts_def Let_def)
qed

end
