(* ===== verification/ConversationStore.thy ===== *)
theory ConversationStore
  imports Contacts "HOL-Library.Multiset"
begin

text \<open>
  \<open>packages/orpal-core/src/persistence/conversation-store.ts\<close>: contacts and message history. The
  interface is a record of operations, its contract the locale \<open>conversation_store\<close>; the in-memory
  store implements it. \<open>messaging/contact-registry.ts\<close>, the client's cache of routing facts per
  contact, is at the end.
\<close>

datatype outbound_state = OQueued | OSending | ODelivered | OAcknowledged | OFailed

datatype transfer_state = XOffered | XTransferring | XComplete | XFailed | XIntegrityFailed

datatype message_kind = KText | KFile

datatype direction = DOut | DIn

record file_meta =
  fm_fileId :: string
  fm_name :: string
  fm_size :: rat
  fm_mime :: string
  fm_sha256 :: string
  fm_chunkSize :: rat
  fm_chunks :: rat
  fm_path :: "string option"
  fm_state :: transfer_state
  fm_transferred :: rat

record stored_message =
  sm_id :: string
  sm_contactKey :: string
  sm_direction :: direction
  sm_kind :: message_kind
  sm_ts :: rat
  sm_text :: "string option"
  sm_file :: "file_meta option"
  sm_state :: outbound_state

record message_patch =
  mp_state :: "outbound_state option"
  mp_text :: "string option"
  mp_file :: "file_meta option"

definition patch_message :: "message_patch \<Rightarrow> stored_message \<Rightarrow> stored_message" where
  \<comment> \<open>\<open>Object.assign\<close> with the fields the patch carries\<close>
  "patch_message p m = m\<lparr>sm_state := or_default (mp_state p) (sm_state m),
     sm_text := (case mp_text p of None \<Rightarrow> sm_text m | Some t \<Rightarrow> Some t),
     sm_file := (case mp_file p of None \<Rightarrow> sm_file m | Some f \<Rightarrow> Some f)\<rparr>"

definition no_patch :: message_patch where
  "no_patch = \<lparr>mp_state = None, mp_text = None, mp_file = None\<rparr>"

definition patch_state :: "outbound_state \<Rightarrow> message_patch" where
  "patch_state s = no_patch\<lparr>mp_state := Some s\<rparr>"

lemma patch_message_keeps [simp]:
  "sm_id (patch_message p m) = sm_id m" "sm_contactKey (patch_message p m) = sm_contactKey m"
  "sm_direction (patch_message p m) = sm_direction m" "sm_kind (patch_message p m) = sm_kind m"
  "sm_ts (patch_message p m) = sm_ts m"
  by (simp_all add: patch_message_def)

lemma patch_state_simps [simp]:
  "sm_state (patch_message (patch_state s) m) = s" "sm_text (patch_message (patch_state s) m) = sm_text m"
  "sm_file (patch_message (patch_state s) m) = sm_file m"
  by (simp_all add: patch_message_def patch_state_def no_patch_def)

record list_opts =
  lo_limit :: "nat option"
  lo_before :: "rat option"

subsection \<open>The interface and its contract\<close>

record 's conv_store =
  cv_upsertContact :: "contact \<Rightarrow> 's \<Rightarrow> 's"
  cv_listContacts :: "'s \<Rightarrow> contact list"
  cv_getContact :: "string \<Rightarrow> 's \<Rightarrow> contact option"
  cv_removeContact :: "string \<Rightarrow> 's \<Rightarrow> 's"
  cv_appendMessage :: "stored_message \<Rightarrow> 's \<Rightarrow> 's"
  cv_updateMessage :: "string \<Rightarrow> message_patch \<Rightarrow> 's \<Rightarrow> 's"
  cv_getMessage :: "string \<Rightarrow> 's \<Rightarrow> stored_message option"
  cv_listMessages :: "string \<Rightarrow> list_opts \<Rightarrow> 's \<Rightarrow> stored_message list"
  cv_listAllMessages :: "'s \<Rightarrow> stored_message list"
  cv_clear :: "'s \<Rightarrow> 's"

definition page_of :: "string \<Rightarrow> list_opts \<Rightarrow> stored_message list \<Rightarrow> stored_message list \<Rightarrow> bool" where
  \<comment> \<open>\<open>page\<close> is the newest part of the conversation before the cursor, newest first\<close>
  "page_of key opts rows page = (\<exists>older.
     mset (page @ older) = mset (filter (\<lambda>m. sm_contactKey m = key
        \<and> (case lo_before opts of None \<Rightarrow> True | Some b \<Rightarrow> sm_ts m < b)) rows)
     \<and> sorted_wrt (\<lambda>m n. sm_ts n \<le> sm_ts m) (page @ older)
     \<and> (case lo_limit opts of None \<Rightarrow> older = []
        | Some l \<Rightarrow> length page \<le> l \<and> (older \<noteq> [] \<longrightarrow> length page = l)))"

locale conversation_store =
  fixes ops :: "'s conv_store" and ok :: "'s \<Rightarrow> bool"
  assumes getContact_upsert: "ok s \<Longrightarrow> cv_getContact ops k (cv_upsertContact ops c s) =
      (if k = ct_identityKey c then Some c else cv_getContact ops k s)"
    and getContact_remove: "ok s \<Longrightarrow> cv_getContact ops k (cv_removeContact ops i s) =
      (if k = i then None else cv_getContact ops k s)"
    and getContact_msg: "ok s \<Longrightarrow> cv_getContact ops k (cv_appendMessage ops m s) = cv_getContact ops k s"
      "ok s \<Longrightarrow> cv_getContact ops k (cv_updateMessage ops i p s) = cv_getContact ops k s"
    and getMessage_append: "ok s \<Longrightarrow> cv_getMessage ops k (cv_appendMessage ops m s) =
      (if k = sm_id m then Some m else cv_getMessage ops k s)"
    and getMessage_update: "ok s \<Longrightarrow> cv_getMessage ops k (cv_updateMessage ops i p s) =
      (if k = i then map_option (patch_message p) (cv_getMessage ops k s) else cv_getMessage ops k s)"
    and getMessage_contact: "ok s \<Longrightarrow> cv_getMessage ops k (cv_upsertContact ops c s) = cv_getMessage ops k s"
      "ok s \<Longrightarrow> cv_getMessage ops k (cv_removeContact ops i s) = cv_getMessage ops k s"
    and get_clear: "ok s \<Longrightarrow> cv_getContact ops k (cv_clear ops s) = None"
      "ok s \<Longrightarrow> cv_getMessage ops k (cv_clear ops s) = None"
    and listContacts_get: "ok s \<Longrightarrow> c \<in> set (cv_listContacts ops s) \<longleftrightarrow>
      cv_getContact ops (ct_identityKey c) s = Some c"
    and getContact_key: "ok s \<Longrightarrow> cv_getContact ops k s = Some c \<Longrightarrow> ct_identityKey c = k"
    and listAll_get: "ok s \<Longrightarrow> m \<in> set (cv_listAllMessages ops s) \<longleftrightarrow> cv_getMessage ops (sm_id m) s = Some m"
    and listAll_distinct: "ok s \<Longrightarrow> distinct (map sm_id (cv_listAllMessages ops s))"
    and getMessage_id: "ok s \<Longrightarrow> cv_getMessage ops k s = Some m \<Longrightarrow> sm_id m = k"
    and listMessages_page: "ok s \<Longrightarrow> page_of k lo (cv_listAllMessages ops s) (cv_listMessages ops k lo s)"
    and ok_ops: "ok s \<Longrightarrow> ok (cv_upsertContact ops c s)" "ok s \<Longrightarrow> ok (cv_removeContact ops i s)"
      "ok s \<Longrightarrow> ok (cv_appendMessage ops m s)" "ok s \<Longrightarrow> ok (cv_updateMessage ops i p s)"
      "ok s \<Longrightarrow> ok (cv_clear ops s)"
begin

lemmas gets = getContact_upsert getContact_remove getContact_msg getMessage_append getMessage_update
  getMessage_contact get_clear ok_ops

lemma append_idem:
  assumes "ok s"
  shows "cv_getMessage ops k (cv_appendMessage ops m (cv_appendMessage ops m s)) =
    cv_getMessage ops k (cv_appendMessage ops m s)"
  using assms by (simp add: gets)

lemma listMessages_mem:
  assumes "ok s" "m \<in> set (cv_listMessages ops k lo s)"
  shows "cv_getMessage ops (sm_id m) s = Some m \<and> sm_contactKey m = k"
proof -
  obtain older where "mset (cv_listMessages ops k lo s @ older) = mset (filter (\<lambda>m. sm_contactKey m = k
        \<and> (case lo_before lo of None \<Rightarrow> True | Some b \<Rightarrow> sm_ts m < b)) (cv_listAllMessages ops s))"
    using listMessages_page [OF assms(1), of k lo] unfolding page_of_def by blast
  then have "set (cv_listMessages ops k lo s @ older) = set (filter (\<lambda>m. sm_contactKey m = k
        \<and> (case lo_before lo of None \<Rightarrow> True | Some b \<Rightarrow> sm_ts m < b)) (cv_listAllMessages ops s))"
    by (rule mset_eq_setD)
  with assms have "m \<in> set (cv_listAllMessages ops s)" "sm_contactKey m = k" by auto
  with assms(1) show ?thesis by (simp add: listAll_get)
qed

lemma listMessages_all:
  assumes "ok s" "cv_getMessage ops i s = Some m"
  shows "m \<in> set (cv_listMessages ops (sm_contactKey m) \<lparr>lo_limit = None, lo_before = None\<rparr> s)"
proof -
  have "m \<in> set (cv_listAllMessages ops s)" using assms getMessage_id by (auto simp: listAll_get)
  moreover have "mset (cv_listMessages ops (sm_contactKey m) \<lparr>lo_limit = None, lo_before = None\<rparr> s) =
      mset (filter (\<lambda>n. sm_contactKey n = sm_contactKey m) (cv_listAllMessages ops s))"
    using listMessages_page [OF assms(1), of "sm_contactKey m" "\<lparr>lo_limit = None, lo_before = None\<rparr>"]
    by (auto simp: page_of_def)
  ultimately show ?thesis using mset_eq_setD by fastforce
qed

end

subsection \<open>The in-memory store\<close>

record mem_conv =
  mc_contacts :: "(string, contact) jmap"
  mc_messages :: "(string, stored_message) jmap"

definition mc_empty :: mem_conv where
  "mc_empty = \<lparr>mc_contacts = [], mc_messages = []\<rparr>"

definition mc_upsertContact :: "contact \<Rightarrow> mem_conv \<Rightarrow> mem_conv" where
  "mc_upsertContact contact s = s\<lparr>mc_contacts := jset (ct_identityKey contact) contact (mc_contacts s)\<rparr>"

definition mc_listContacts :: "mem_conv \<Rightarrow> contact list" where
  "mc_listContacts s = jvals (mc_contacts s)"

definition mc_getContact :: "string \<Rightarrow> mem_conv \<Rightarrow> contact option" where
  "mc_getContact identityKey s = jget (mc_contacts s) identityKey"

definition mc_removeContact :: "string \<Rightarrow> mem_conv \<Rightarrow> mem_conv" where
  "mc_removeContact identityKey s = s\<lparr>mc_contacts := jdel identityKey (mc_contacts s)\<rparr>"

definition mc_appendMessage :: "stored_message \<Rightarrow> mem_conv \<Rightarrow> mem_conv" where
  "mc_appendMessage message s = s\<lparr>mc_messages := jset (sm_id message) message (mc_messages s)\<rparr>"

definition mc_updateMessage :: "string \<Rightarrow> message_patch \<Rightarrow> mem_conv \<Rightarrow> mem_conv" where
  "mc_updateMessage i patch s =
     (case jget (mc_messages s) i of
        Some m \<Rightarrow> s\<lparr>mc_messages := jset i (patch_message patch m) (mc_messages s)\<rparr>
      | None \<Rightarrow> s)"

definition mc_getMessage :: "string \<Rightarrow> mem_conv \<Rightarrow> stored_message option" where
  "mc_getMessage i s = jget (mc_messages s) i"

definition mc_listMessages :: "string \<Rightarrow> list_opts \<Rightarrow> mem_conv \<Rightarrow> stored_message list" where
  "mc_listMessages contactKey opts s =
     (let rows = filter (\<lambda>m. sm_contactKey m = contactKey) (jvals (mc_messages s));
          rows1 = (case lo_before opts of None \<Rightarrow> rows | Some b \<Rightarrow> filter (\<lambda>m. sm_ts m < b) rows);
          rows2 = sort_key (\<lambda>m. - sm_ts m) rows1
      in case lo_limit opts of None \<Rightarrow> rows2 | Some l \<Rightarrow> take l rows2)"

definition mc_listAllMessages :: "mem_conv \<Rightarrow> stored_message list" where
  "mc_listAllMessages s = jvals (mc_messages s)"

definition mc_clear :: "mem_conv \<Rightarrow> mem_conv" where
  "mc_clear s = \<lparr>mc_contacts = [], mc_messages = []\<rparr>"

definition InMemoryConversationStore :: "mem_conv conv_store" where
  "InMemoryConversationStore = \<lparr>cv_upsertContact = mc_upsertContact, cv_listContacts = mc_listContacts,
     cv_getContact = mc_getContact, cv_removeContact = mc_removeContact, cv_appendMessage = mc_appendMessage,
     cv_updateMessage = mc_updateMessage, cv_getMessage = mc_getMessage, cv_listMessages = mc_listMessages,
     cv_listAllMessages = mc_listAllMessages, cv_clear = mc_clear\<rparr>"

lemmas mem_conv_defs = InMemoryConversationStore_def mc_upsertContact_def mc_listContacts_def mc_getContact_def
  mc_removeContact_def mc_appendMessage_def mc_updateMessage_def mc_getMessage_def mc_listAllMessages_def mc_clear_def

definition mem_conv_ok :: "mem_conv \<Rightarrow> bool" where
  "mem_conv_ok s = (jmap_ok (mc_contacts s) \<and> jmap_ok (mc_messages s)
     \<and> (\<forall>k c. jget (mc_contacts s) k = Some c \<longrightarrow> ct_identityKey c = k)
     \<and> (\<forall>k m. jget (mc_messages s) k = Some m \<longrightarrow> sm_id m = k))"

lemma mc_listMessages_page: "page_of k lo (mc_listAllMessages s) (mc_listMessages k lo s)"
proof -
  define cut where "cut = (\<lambda>m :: stored_message. case lo_before lo of None \<Rightarrow> True | Some b \<Rightarrow> sm_ts m < b)"
  define rows where "rows = sort_key (\<lambda>m. - sm_ts m)
    (filter (\<lambda>m. sm_contactKey m = k \<and> cut m) (jvals (mc_messages s)))"
  have srt: "sorted_wrt (\<lambda>m n. sm_ts n \<le> sm_ts m) rows"
    using sorted_sort_key [of "\<lambda>m. - sm_ts m" "filter (\<lambda>m. sm_contactKey m = k \<and> cut m) (jvals (mc_messages s))"]
    by (simp add: rows_def sorted_map)
  have eq: "mc_listMessages k lo s = (case lo_limit lo of None \<Rightarrow> rows | Some l \<Rightarrow> take l rows)"
    by (cases "lo_before lo"; cases "lo_limit lo") (simp_all add: mc_listMessages_def rows_def cut_def Let_def)
  have ms: "mset rows = mset (filter (\<lambda>m. sm_contactKey m = k \<and> cut m) (mc_listAllMessages s))"
    by (simp add: rows_def mc_listAllMessages_def)
  define older where "older = (case lo_limit lo of None \<Rightarrow> [] | Some l \<Rightarrow> drop l rows)"
  have cat: "mc_listMessages k lo s @ older = rows" by (cases "lo_limit lo") (simp_all add: eq older_def)
  have "case lo_limit lo of None \<Rightarrow> older = []
      | Some l \<Rightarrow> length (mc_listMessages k lo s) \<le> l \<and> (older \<noteq> [] \<longrightarrow> length (mc_listMessages k lo s) = l)"
    by (cases "lo_limit lo") (simp_all add: eq older_def)
  then show ?thesis unfolding page_of_def
    by (intro exI [of _ older]) (use ms srt in \<open>simp add: cat cut_def del: mset_append\<close>)
qed

interpretation mem_conv: conversation_store InMemoryConversationStore mem_conv_ok
proof
  fix s :: mem_conv and k i c m p lo
  assume s: "mem_conv_ok s"
  let ?S = InMemoryConversationStore
  show "cv_getContact ?S k (cv_upsertContact ?S c s) = (if k = ct_identityKey c then Some c else cv_getContact ?S k s)"
    "cv_getContact ?S k (cv_removeContact ?S i s) = (if k = i then None else cv_getContact ?S k s)"
    "cv_getContact ?S k (cv_appendMessage ?S m s) = cv_getContact ?S k s"
    "cv_getContact ?S k (cv_updateMessage ?S i p s) = cv_getContact ?S k s"
    "cv_getMessage ?S k (cv_appendMessage ?S m s) = (if k = sm_id m then Some m else cv_getMessage ?S k s)"
    "cv_getMessage ?S k (cv_updateMessage ?S i p s) =
      (if k = i then map_option (patch_message p) (cv_getMessage ?S k s) else cv_getMessage ?S k s)"
    "cv_getMessage ?S k (cv_upsertContact ?S c s) = cv_getMessage ?S k s"
    "cv_getMessage ?S k (cv_removeContact ?S i s) = cv_getMessage ?S k s"
    "cv_getContact ?S k (cv_clear ?S s) = None" "cv_getMessage ?S k (cv_clear ?S s) = None"
    by (auto simp: mem_conv_defs split: option.splits)
  show "c \<in> set (cv_listContacts ?S s) \<longleftrightarrow> cv_getContact ?S (ct_identityKey c) s = Some c"
    "m \<in> set (cv_listAllMessages ?S s) \<longleftrightarrow> cv_getMessage ?S (sm_id m) s = Some m"
    using s by (auto simp: mem_conv_defs mem_conv_ok_def jvals_mem)
  show "ct_identityKey c = k" if "cv_getContact ?S k s = Some c"
    using that s by (simp add: mem_conv_defs mem_conv_ok_def)
  show "sm_id m = k" if "cv_getMessage ?S k s = Some m"
    using that s by (simp add: mem_conv_defs mem_conv_ok_def)
  show "distinct (map sm_id (cv_listAllMessages ?S s))"
  proof -
    have eq: "map sm_id (map snd (mc_messages s)) = map fst (mc_messages s)"
      using s by (auto simp: mem_conv_ok_def jmap_mem_iff)
    show ?thesis unfolding mem_conv_defs conv_store.simps jvals_def eq
      using s by (simp add: mem_conv_ok_def jmap_ok_def)
  qed
  show "page_of k lo (cv_listAllMessages ?S s) (cv_listMessages ?S k lo s)"
    using mc_listMessages_page by (simp add: InMemoryConversationStore_def)
  show "mem_conv_ok (cv_upsertContact ?S c s)" "mem_conv_ok (cv_removeContact ?S i s)"
    "mem_conv_ok (cv_appendMessage ?S m s)" "mem_conv_ok (cv_updateMessage ?S i p s)" "mem_conv_ok (cv_clear ?S s)"
    using s by (auto simp: mem_conv_defs mem_conv_ok_def split: option.splits if_splits)
qed

subsection \<open>The registry of routing facts\<close>

record contact_record =
  cr_relayOnly :: bool
  cr_transportKey :: string
  cr_preferred :: "string list"
  cr_fallback :: "string list"
  cr_autoAcceptMigration :: bool

record record_patch =
  rp_relayOnly :: "bool option"
  rp_transportKey :: "string option"
  rp_boards :: "(string list \<times> string list) option"
  rp_autoAcceptMigration :: "bool option"

type_synonym contact_registry = "(string, contact_record) jmap"

definition cr_set :: "string \<Rightarrow> contact_record \<Rightarrow> contact_registry \<Rightarrow> contact_registry" where
  "cr_set key r reg = jset key r reg"

definition cr_get :: "contact_registry \<Rightarrow> string \<Rightarrow> contact_record option" where
  "cr_get reg key = jget reg key"

definition record_of :: "contact \<Rightarrow> contact_record" where
  "record_of c = \<lparr>cr_relayOnly = ct_relayOnly c, cr_transportKey = ct_transportKey c,
     cr_preferred = or_default (ct_preferredBoards c) [], cr_fallback = or_default (ct_fallbackBoards c) [],
     cr_autoAcceptMigration = or_default (ct_autoAcceptMigration c) False\<rparr>"

definition cr_loadAll :: "contact list \<Rightarrow> contact_registry \<Rightarrow> contact_registry" where
  "cr_loadAll contacts reg = fold (\<lambda>c. cr_set (ct_identityKey c) (record_of c)) contacts reg"

definition cr_patch :: "string \<Rightarrow> record_patch \<Rightarrow> contact_registry \<Rightarrow> contact_registry" where
  "cr_patch key patch reg =
     (case jget reg key of
        Some old \<Rightarrow> jset key (old\<lparr>cr_relayOnly := or_default (rp_relayOnly patch) (cr_relayOnly old),
            cr_transportKey := or_default (rp_transportKey patch) (cr_transportKey old),
            cr_preferred := (case rp_boards patch of None \<Rightarrow> cr_preferred old | Some b \<Rightarrow> fst b),
            cr_fallback := (case rp_boards patch of None \<Rightarrow> cr_fallback old | Some b \<Rightarrow> snd b),
            cr_autoAcceptMigration := or_default (rp_autoAcceptMigration patch) (cr_autoAcceptMigration old)\<rparr>) reg
      | None \<Rightarrow> reg)"

definition cr_remove :: "string \<Rightarrow> contact_registry \<Rightarrow> contact_registry" where
  "cr_remove key reg = jdel key reg"

definition cr_clear :: "contact_registry \<Rightarrow> contact_registry" where
  "cr_clear reg = []"

definition transportKeyOf :: "contact_registry \<Rightarrow> string \<Rightarrow> string option" where
  "transportKeyOf reg key = map_option cr_transportKey (jget reg key)"

definition relayOnlyOf :: "contact_registry \<Rightarrow> string \<Rightarrow> bool" where
  "relayOnlyOf reg key = or_default (map_option cr_relayOnly (jget reg key)) False"

definition autoAcceptOf :: "contact_registry \<Rightarrow> string \<Rightarrow> bool" where
  "autoAcceptOf reg key = or_default (map_option cr_autoAcceptMigration (jget reg key)) False"

definition boardsOf :: "contact_registry \<Rightarrow> string \<Rightarrow> string list \<times> string list" where
  "boardsOf reg key = (case jget reg key of None \<Rightarrow> ([], []) | Some r \<Rightarrow> (cr_preferred r, cr_fallback r))"

lemma loadAll_get:
  "jget (cr_loadAll cs reg) k = (case find (\<lambda>c. ct_identityKey c = k) (rev cs) of
     Some c \<Rightarrow> Some (record_of c) | None \<Rightarrow> jget reg k)"
proof (induction cs arbitrary: reg)
  case (Cons c cs)
  have "find P (xs @ [x]) = (case find P xs of Some y \<Rightarrow> Some y | None \<Rightarrow> if P x then Some x else None)"
    for P and xs :: "contact list" and x by (induction xs) auto
  with Cons show ?case by (auto simp: cr_loadAll_def cr_set_def split: option.splits)
qed (simp add: cr_loadAll_def)

end
