(* ===== verification/Connections.thy ===== *)
theory Connections
  imports Prelude
begin

text \<open>
  \<open>packages/orpal-core/src/util/events.ts\<close> and \<open>messaging/connection-manager.ts\<close>. The emitter keeps a
  set of listeners per event and isolates their failures. The connection manager keeps one connection
  per contact and coalesces connection attempts: callers share the promise of the attempt in flight.
  A promise is a number; its outcome, its timer and its waiter are entries of the state, so that the
  three ways an attempt ends (connected, timed out, still waiting) are visible. The callback
  \<open>sendIntents\<close> runs inside the promise's executor and is an argument, a function on the state.
\<close>

subsection \<open>The event emitter\<close>

type_synonym emitter = "(string, nat list) jmap"

definition em_on :: "string \<Rightarrow> nat \<Rightarrow> emitter \<Rightarrow> emitter" where
  "em_on event cb ls = jset event (set_add cb (or_default (jget ls event) [])) ls"

definition em_off :: "string \<Rightarrow> nat \<Rightarrow> emitter \<Rightarrow> emitter" where
  "em_off event cb ls = (case jget ls event of Some s \<Rightarrow> jset event (set_del cb s) ls | None \<Rightarrow> ls)"

definition em_removeAll :: "emitter \<Rightarrow> emitter" where
  "em_removeAll ls = map (\<lambda>(k, s). (k, [])) ls"

text \<open>
  A listener runs on the program's state and the emitter (it may unsubscribe itself or others) and
  reports whether it threw; \<open>emit\<close> iterates over a copy of the set and logs what was thrown.
\<close>

type_synonym ('s, 'p) listener = "'p \<Rightarrow> 's \<times> emitter \<Rightarrow> ('s \<times> emitter) \<times> string option"

fun em_dispatch :: "(nat \<Rightarrow> ('s, 'p) listener) \<Rightarrow> 'p \<Rightarrow> nat list \<Rightarrow> 's \<times> emitter \<Rightarrow> ('s \<times> emitter) \<times> string list" where
  "em_dispatch run payload [] st = (st, [])"
| "em_dispatch run payload (cb # cbs) st =
     (case run cb payload st of
        (st1, threw) \<Rightarrow> (case em_dispatch run payload cbs st1 of
           (st2, errs) \<Rightarrow> (st2, (case threw of None \<Rightarrow> errs | Some e \<Rightarrow> e # errs))))"

definition em_emit :: "(nat \<Rightarrow> ('s, 'p) listener) \<Rightarrow> string \<Rightarrow> 'p \<Rightarrow> 's \<times> emitter \<Rightarrow> ('s \<times> emitter) \<times> string list" where
  "em_emit run event payload st =
     (case jget (snd st) event of None \<Rightarrow> (st, []) | Some s \<Rightarrow> em_dispatch run payload s st)"

definition subscribed :: "emitter \<Rightarrow> string \<Rightarrow> nat set" where
  "subscribed ls event = set (or_default (jget ls event) [])"

lemma subscribed_simps [simp]:
  "subscribed (em_on event cb ls) event' = (if event' = event then insert cb (subscribed ls event) else subscribed ls event')"
  "subscribed (em_off event cb ls) event' = (if event' = event then subscribed ls event - {cb} else subscribed ls event')"
  by (auto simp: subscribed_def em_on_def em_off_def split: option.splits)

lemma subscribed_removeAll [simp]: "subscribed (em_removeAll ls) event = {}"
  by (induction ls) (auto simp: subscribed_def em_removeAll_def)

text \<open>
  With a log of calls in the program's state, one emission calls every listener subscribed when it
  started exactly once, whatever the listeners throw and however they change the subscriptions.
\<close>

lemma em_dispatch_calls:
  assumes "\<And>cb p calls ls. fst (fst (run cb p (calls, ls))) = calls @ [cb]"
  shows "fst (fst (em_dispatch run payload cbs (calls, ls))) = calls @ cbs"
proof (induction cbs arbitrary: calls ls)
  case (Cons cb cbs)
  obtain calls1 ls1 t where r: "run cb payload (calls, ls) = ((calls1, ls1), t)" by (metis prod.exhaust)
  with assms [of cb payload calls ls] have l1: "calls1 = calls @ [cb]" by simp
  have "fst (fst (em_dispatch run payload cbs (calls1, ls1))) = calls1 @ cbs" by (rule Cons.IH)
  with r l1 show ?case by (auto split: prod.splits)
qed simp

subsection \<open>The connection manager\<close>

datatype contact_state = CUnknown | CConnecting | CConnected | CDown

record conn =
  cn_contactKey :: string
  cn_matchKey :: string
  cn_boardId :: string
  cn_endpoint :: "nat option"
  cn_state :: contact_state

datatype outcome = Waiting | Resolved conn | Rejected string

record cman =
  cm_connections :: "(string, conn) jmap"
  cm_matchToCounterparty :: "(string, string) jmap"
  cm_endpointsByMatch :: "(string, nat) jmap"
  cm_connectWaiters :: "(string, nat list) jmap"
  cm_pendingConnects :: "(string, nat) jmap"
  cm_desired :: "string list"
  cm_timers :: "(nat, string) jmap"
  cm_promises :: "outcome list"
  cm_states :: "(string \<times> contact_state) list"
  cm_closed :: "nat list"

definition cman_init :: cman where
  "cman_init = \<lparr>cm_connections = [], cm_matchToCounterparty = [], cm_endpointsByMatch = [], cm_connectWaiters = [],
     cm_pendingConnects = [], cm_desired = [], cm_timers = [], cm_promises = [], cm_states = [], cm_closed = []\<rparr>"

definition mk :: "string \<Rightarrow> string \<Rightarrow> string" where
  "mk boardId matchId = boardId @ '' '' @ matchId"

definition getConnection :: "cman \<Rightarrow> string \<Rightarrow> conn option" where
  "getConnection c key = jget (cm_connections c) key"

definition setConnection :: "string \<Rightarrow> conn \<Rightarrow> cman \<Rightarrow> cman" where
  "setConnection key cn c = c\<lparr>cm_connections := jset key cn (cm_connections c)\<rparr>"

definition allConnections :: "cman \<Rightarrow> conn list" where
  "allConnections c = jvals (cm_connections c)"

definition recordMatch :: "string \<Rightarrow> string \<Rightarrow> cman \<Rightarrow> cman" where
  "recordMatch matchKey key c = c\<lparr>cm_matchToCounterparty := jset matchKey key (cm_matchToCounterparty c)\<rparr>"

definition counterpartyFor :: "cman \<Rightarrow> string \<Rightarrow> string option" where
  "counterpartyFor c matchKey = jget (cm_matchToCounterparty c) matchKey"

definition storeEndpoint :: "string \<Rightarrow> nat \<Rightarrow> cman \<Rightarrow> cman" where
  "storeEndpoint matchKey ep c = c\<lparr>cm_endpointsByMatch := jset matchKey ep (cm_endpointsByMatch c)\<rparr>"

definition getEndpoint :: "cman \<Rightarrow> string \<Rightarrow> nat option" where
  "getEndpoint c matchKey = jget (cm_endpointsByMatch c) matchKey"

definition contactState :: "cman \<Rightarrow> string \<Rightarrow> contact_state" where
  "contactState c key = or_default (map_option cn_state (jget (cm_connections c) key)) CUnknown"

definition emitState :: "string \<Rightarrow> contact_state \<Rightarrow> cman \<Rightarrow> cman" where
  "emitState key st c = c\<lparr>cm_states := cm_states c @ [(key, st)]\<rparr>"

definition addConnectWaiter :: "string \<Rightarrow> nat \<Rightarrow> cman \<Rightarrow> cman" where
  "addConnectWaiter key w c =
     c\<lparr>cm_connectWaiters := jset key (set_add w (or_default (jget (cm_connectWaiters c) key) [])) (cm_connectWaiters c)\<rparr>"

definition removeConnectWaiter :: "string \<Rightarrow> nat \<Rightarrow> cman \<Rightarrow> cman" where
  "removeConnectWaiter key w c =
     (case jget (cm_connectWaiters c) key of
        Some s \<Rightarrow> c\<lparr>cm_connectWaiters := jset key (set_del w s) (cm_connectWaiters c)\<rparr> | None \<Rightarrow> c)"

definition settle :: "nat \<Rightarrow> outcome \<Rightarrow> cman \<Rightarrow> cman" where
  \<comment> \<open>\<open>resolve\<close> or \<open>reject\<close>: only the first settles the promise\<close>
  "settle p v c = (if cm_promises c ! p = Waiting then c\<lparr>cm_promises := (cm_promises c)[p := v]\<rparr> else c)"

definition call_waiter :: "string \<Rightarrow> conn \<Rightarrow> nat \<Rightarrow> cman \<Rightarrow> cman" where
  "call_waiter key cn w c =
     (let c1 = c\<lparr>cm_timers := jdel w (cm_timers c)\<rparr>;
          c2 = removeConnectWaiter key w c1;
          c3 = c2\<lparr>cm_pendingConnects := jdel key (cm_pendingConnects c2)\<rparr>
      in settle w (Resolved cn) c3)"

definition fireConnectTimer :: "nat \<Rightarrow> cman \<Rightarrow> cman" where
  "fireConnectTimer w c =
     (case jget (cm_timers c) w of
        None \<Rightarrow> c
      | Some key \<Rightarrow>
          (let c1 = removeConnectWaiter key w (c\<lparr>cm_timers := jdel w (cm_timers c)\<rparr>);
               c2 = c1\<lparr>cm_pendingConnects := jdel key (cm_pendingConnects c1)\<rparr>;
               c3 = (if map_option cn_state (jget (cm_connections c2) key) \<noteq> Some CConnected then emitState key CDown c2 else c2)
           in settle w (Rejected key) c3))"

definition openAttempt :: "string \<Rightarrow> (cman \<Rightarrow> cman) \<Rightarrow> cman \<Rightarrow> nat \<times> cman" where
  \<comment> \<open>the promise's executor, then its entry in the map of attempts in flight\<close>
  "openAttempt key sendIntents c =
     (let p = length (cm_promises c);
          c1 = c\<lparr>cm_promises := cm_promises c @ [Waiting], cm_timers := jset p key (cm_timers c)\<rparr>;
          c2 = addConnectWaiter key p c1;
          c3 = c2\<lparr>cm_desired := set_add key (cm_desired c2)\<rparr>;
          c4 = sendIntents (emitState key CConnecting c3)
      in (p, c4\<lparr>cm_pendingConnects := jset key p (cm_pendingConnects c4)\<rparr>))"

definition ensureConnection :: "string \<Rightarrow> (cman \<Rightarrow> cman) \<Rightarrow> cman \<Rightarrow> (conn + nat) \<times> cman" where
  "ensureConnection key sendIntents c =
     (let existing = jget (cm_connections c) key
      in if existing \<noteq> None \<and> cn_state (the existing) = CConnected then (Inl (the existing), c)
         else (case jget (cm_pendingConnects c) key of
             Some inflight \<Rightarrow> (Inr inflight, c)
           | None \<Rightarrow> (case openAttempt key sendIntents c of (p, c1) \<Rightarrow> (Inr p, c1))))"

definition resolveConnectWaiters :: "string \<Rightarrow> conn \<Rightarrow> cman \<Rightarrow> cman" where
  "resolveConnectWaiters key cn c =
     (case jget (cm_connectWaiters c) key of
        None \<Rightarrow> c
      | Some s \<Rightarrow> fold (call_waiter key cn) s (c\<lparr>cm_connectWaiters := jdel key (cm_connectWaiters c)\<rparr>))"

definition handleEndpointState :: "string \<Rightarrow> string \<Rightarrow> cman \<Rightarrow> cman" where
  "handleEndpointState matchKey state c =
     (case jget (cm_matchToCounterparty c) matchKey of
        None \<Rightarrow> c
      | Some key \<Rightarrow> if key = [] then c else
          (case jget (cm_connections c) key of
             None \<Rightarrow> c
           | Some cn \<Rightarrow>
               if cn_matchKey cn \<noteq> matchKey then c
               else if state = ''connected'' then emitState key CConnected c
               else if state = ''disconnected'' \<or> state = ''failed'' \<or> state = ''closed'' then
                 emitState key CDown (c\<lparr>cm_connections := jset key (cn\<lparr>cn_state := CDown\<rparr>) (cm_connections c)\<rparr>)
               else c))"

definition dropConnection :: "string \<Rightarrow> cman \<Rightarrow> cman" where
  "dropConnection key c =
     (case jget (cm_connections c) key of
        None \<Rightarrow> c
      | Some cn \<Rightarrow> c\<lparr>cm_closed := cm_closed c @ (case cn_endpoint cn of None \<Rightarrow> [] | Some e \<Rightarrow> [e]),
          cm_connections := jdel key (cm_connections c)\<rparr>)"

definition closeAll :: "cman \<Rightarrow> cman" where
  "closeAll c = c\<lparr>cm_closed := cm_closed c @ List.map_filter cn_endpoint (jvals (cm_connections c)), cm_connections := []\<rparr>"

subsection \<open>The attempts in flight\<close>

text \<open>
  The invariant: a promise that waits has a timer, a waiter and the slot of its contact, so there is
  at most one attempt per contact and none that nothing can end.
\<close>

definition waiters_of :: "cman \<Rightarrow> string \<Rightarrow> nat list" where
  "waiters_of c key = or_default (jget (cm_connectWaiters c) key) []"

definition linked :: "(nat, string) jmap \<Rightarrow> outcome list \<Rightarrow> (string, nat) jmap \<Rightarrow> (string \<Rightarrow> nat list) \<Rightarrow> bool" where
  "linked timers promises pending waiters = (
     (\<forall>p key. jget timers p = Some key \<longleftrightarrow> jget pending key = Some p)
     \<and> (\<forall>key. waiters key = (case jget pending key of None \<Rightarrow> [] | Some p \<Rightarrow> [p]))
     \<and> (\<forall>p. jget timers p \<noteq> None \<longleftrightarrow> p < length promises \<and> promises ! p = Waiting))"

definition cm_ok :: "cman \<Rightarrow> bool" where
  "cm_ok c = linked (cm_timers c) (cm_promises c) (cm_pendingConnects c) (waiters_of c)"

definition quiet :: "(cman \<Rightarrow> cman) \<Rightarrow> bool" where
  \<comment> \<open>a callback that at most announces states\<close>
  "quiet f = (\<forall>c. \<exists>evs. f c = c\<lparr>cm_states := cm_states c @ evs\<rparr>)"

lemma linked_link: "linked t ps pd w \<Longrightarrow> jget t p = Some key \<longleftrightarrow> jget pd key = Some p"
  unfolding linked_def by blast

lemma linked_waiters: "linked t ps pd w \<Longrightarrow> w key = (case jget pd key of None \<Rightarrow> [] | Some p \<Rightarrow> [p])"
  unfolding linked_def by blast

lemma linked_timer: "linked t ps pd w \<Longrightarrow> jget t p \<noteq> None \<longleftrightarrow> p < length ps \<and> ps ! p = Waiting"
  unfolding linked_def by blast

lemma linked_open:
  assumes l: "linked t ps pd w" and none: "jget pd key = None"
  shows "linked (jset (length ps) key t) (ps @ [Waiting]) (jset key (length ps) pd) (w(key := [length ps]))"
proof -
  have fresh: "jget t (length ps) = None" using linked_timer [OF l, of "length ps"] by simp
  then have f2: "jget pd k \<noteq> Some (length ps)" for k using linked_link [OF l] by (metis option.distinct(1))
  have f3: "jget t p \<noteq> Some key" for p using linked_link [OF l] none by (metis option.distinct(1))
  show ?thesis unfolding linked_def
  proof (intro conjI allI)
    fix p k
    show "(jget (jset (length ps) key t) p = Some k) = (jget (jset key (length ps) pd) k = Some p)"
      using linked_link [OF l, of p k] f2 [of k] f3 [of p] by auto
    show "(w(key := [length ps])) k = (case jget (jset key (length ps) pd) k of None \<Rightarrow> [] | Some p \<Rightarrow> [p])"
      using linked_waiters [OF l, of k] by simp
    show "(jget (jset (length ps) key t) p \<noteq> None) = (p < length (ps @ [Waiting]) \<and> (ps @ [Waiting]) ! p = Waiting)"
      using linked_timer [OF l, of p] by (auto simp: nth_append less_Suc_eq)
  qed
qed

lemma linked_close:
  assumes l: "linked t ps pd w" and p0: "jget t p0 = Some key" and v: "v \<noteq> Waiting"
  shows "linked (jdel p0 t) (ps[p0 := v]) (jdel key pd) (w(key := []))"
proof -
  have k0: "jget pd key = Some p0" using linked_link [OF l] p0 by blast
  show ?thesis unfolding linked_def
  proof (intro conjI allI)
    fix p k
    have a: "p = p0 \<Longrightarrow> jget pd k = Some p \<Longrightarrow> k = key" using linked_link [OF l, of p0 k] p0 by simp
    have b: "k = key \<Longrightarrow> jget t p = Some k \<Longrightarrow> p = p0" using linked_link [OF l, of p key] k0 by simp
    have "(p \<noteq> p0 \<and> jget t p = Some k) = (k \<noteq> key \<and> jget pd k = Some p)"
      using a b linked_link [OF l, of p k] by blast
    then show "(jget (jdel p0 t) p = Some k) = (jget (jdel key pd) k = Some p)" by (cases "p = p0"; cases "k = key") simp_all
    show "(w(key := [])) k = (case jget (jdel key pd) k of None \<Rightarrow> [] | Some p \<Rightarrow> [p])"
      using linked_waiters [OF l, of k] by simp
    show "(jget (jdel p0 t) p \<noteq> None) = (p < length (ps[p0 := v]) \<and> ps[p0 := v] ! p = Waiting)"
      using linked_timer [OF l, of p] v by (auto simp: nth_list_update)
  qed
qed

lemma cm_ok_cong:
  "cm_timers c' = cm_timers c \<Longrightarrow> cm_promises c' = cm_promises c \<Longrightarrow> cm_pendingConnects c' = cm_pendingConnects c \<Longrightarrow>
   waiters_of c' = waiters_of c \<Longrightarrow> cm_ok c' = cm_ok c"
  by (simp add: cm_ok_def)

lemma cm_ok_init [simp]: "cm_ok cman_init"
  by (simp add: cm_ok_def linked_def cman_init_def waiters_of_def)

lemma handleEndpointState_keeps:
  "cm_timers (handleEndpointState m s c) = cm_timers c" "cm_promises (handleEndpointState m s c) = cm_promises c"
  "cm_pendingConnects (handleEndpointState m s c) = cm_pendingConnects c"
  "cm_connectWaiters (handleEndpointState m s c) = cm_connectWaiters c"
  by (simp_all add: handleEndpointState_def emitState_def split: option.split)

lemma cm_ok_others [simp]:
  "cm_ok (setConnection key cn c) = cm_ok c" "cm_ok (recordMatch m key c) = cm_ok c" "cm_ok (storeEndpoint m e c) = cm_ok c"
  "cm_ok (emitState key st c) = cm_ok c" "cm_ok (closeAll c) = cm_ok c" "cm_ok (dropConnection key c) = cm_ok c"
  "cm_ok (handleEndpointState m s c) = cm_ok c"
  by (rule cm_ok_cong; simp add: setConnection_def recordMatch_def storeEndpoint_def emitState_def closeAll_def
      dropConnection_def handleEndpointState_keeps waiters_of_def fun_eq_iff split: option.split)+

lemma openAttempt_eq:
  assumes "cm_ok c" "quiet f" "jget (cm_pendingConnects c) key = None" "openAttempt key f c = (p, c')"
  shows "p = length (cm_promises c)" "cm_promises c' = cm_promises c @ [Waiting]"
    "cm_timers c' = jset p key (cm_timers c)" "cm_pendingConnects c' = jset key p (cm_pendingConnects c)"
    "waiters_of c' = (waiters_of c)(key := [p])" "cm_connections c' = cm_connections c"
    "set (cm_desired c') = insert key (set (cm_desired c))"
proof -
  define c3 where "c3 = emitState key CConnecting ((addConnectWaiter key (length (cm_promises c))
    (c\<lparr>cm_promises := cm_promises c @ [Waiting], cm_timers := jset (length (cm_promises c)) key (cm_timers c)\<rparr>))
    \<lparr>cm_desired := set_add key (cm_desired c)\<rparr>)"
  have "waiters_of c key = []" using assms(1,3) linked_waiters unfolding cm_ok_def by fastforce
  then have w: "set_add x (or_default (jget (cm_connectWaiters c) key) []) = [x]" for x
    by (simp add: waiters_of_def set_add_def)
  have c3: "cm_promises c3 = cm_promises c @ [Waiting]" "cm_timers c3 = jset (length (cm_promises c)) key (cm_timers c)"
    "cm_connectWaiters c3 = jset key [length (cm_promises c)] (cm_connectWaiters c)"
    "cm_pendingConnects c3 = cm_pendingConnects c" "cm_connections c3 = cm_connections c"
    "cm_desired c3 = set_add key (cm_desired c)"
    by (simp_all add: c3_def emitState_def addConnectWaiter_def w)
  obtain evs where f: "f c3 = c3\<lparr>cm_states := cm_states c3 @ evs\<rparr>" using assms(2) unfolding quiet_def by blast
  have "openAttempt key f c = (length (cm_promises c), (f c3)\<lparr>cm_pendingConnects :=
      jset key (length (cm_promises c)) (cm_pendingConnects (f c3))\<rparr>)"
    unfolding openAttempt_def c3_def Let_def by (simp add: addConnectWaiter_def)
  with assms(4) have eq: "p = length (cm_promises c)"
    "c' = (f c3)\<lparr>cm_pendingConnects := jset key p (cm_pendingConnects (f c3))\<rparr>" by auto
  show "p = length (cm_promises c)" "cm_promises c' = cm_promises c @ [Waiting]"
    "cm_timers c' = jset p key (cm_timers c)" "cm_pendingConnects c' = jset key p (cm_pendingConnects c)"
    "waiters_of c' = (waiters_of c)(key := [p])" "cm_connections c' = cm_connections c"
    "set (cm_desired c') = insert key (set (cm_desired c))"
    by (simp_all add: eq f c3 waiters_of_def fun_eq_iff)
qed

lemma cm_ok_openAttempt:
  assumes "cm_ok c" "quiet f" "jget (cm_pendingConnects c) key = None" "openAttempt key f c = (p, c')"
  shows "cm_ok c'"
  using linked_open [OF assms(1) [unfolded cm_ok_def] assms(3)]
  unfolding cm_ok_def openAttempt_eq(2-5) [OF assms] openAttempt_eq(1) [OF assms] .

lemma cm_ok_ensureConnection:
  assumes "cm_ok c" "quiet f" "ensureConnection key f c = (r, c')"
  shows "cm_ok c'"
  using assms cm_ok_openAttempt [OF assms(1,2)]
  by (auto simp: ensureConnection_def Let_def split: if_splits option.splits prod.splits)

lemma removeConnectWaiter_keeps [simp]:
  "cm_timers (removeConnectWaiter key w c) = cm_timers c" "cm_promises (removeConnectWaiter key w c) = cm_promises c"
  "cm_pendingConnects (removeConnectWaiter key w c) = cm_pendingConnects c"
  "cm_connections (removeConnectWaiter key w c) = cm_connections c" "cm_states (removeConnectWaiter key w c) = cm_states c"
  by (simp_all add: removeConnectWaiter_def split: option.split)

lemma waiters_remove [simp]:
  "waiters_of (removeConnectWaiter key w c) = (waiters_of c)(key := set_del w (waiters_of c key))"
  by (auto simp: removeConnectWaiter_def waiters_of_def fun_eq_iff set_del_def split: option.split)

lemma waiters_of_cong [simp]:
  "waiters_of (c\<lparr>cm_timers := t\<rparr>) = waiters_of c" "waiters_of (c\<lparr>cm_pendingConnects := pd\<rparr>) = waiters_of c"
  "waiters_of (c\<lparr>cm_promises := ps\<rparr>) = waiters_of c" "waiters_of (emitState key st c) = waiters_of c"
  by (simp_all add: waiters_of_def emitState_def fun_eq_iff)

lemma waiters_of_pure: "waiters_of (c\<lparr>cm_pendingConnects := pd, cm_states := x\<rparr>) = waiters_of c"
  by (simp add: waiters_of_def fun_eq_iff)

lemma fireConnectTimer_eq:
  assumes ok: "cm_ok c" and t: "jget (cm_timers c) p = Some key"
  shows "cm_promises (fireConnectTimer p c) = (cm_promises c)[p := Rejected key]"
    "cm_timers (fireConnectTimer p c) = jdel p (cm_timers c)"
    "cm_pendingConnects (fireConnectTimer p c) = jdel key (cm_pendingConnects c)"
    "waiters_of (fireConnectTimer p c) = (waiters_of c)(key := [])"
    "cm_connections (fireConnectTimer p c) = cm_connections c"
    "cm_states (fireConnectTimer p c) = cm_states c @ (if contactState c key = CConnected then [] else [(key, CDown)])"
proof -
  note l = ok [unfolded cm_ok_def]
  have w: "waiters_of c key = [p]" using linked_waiters [OF l, of key] linked_link [OF l, of p key] t by simp
  have s: "cm_promises c ! p = Waiting" using linked_timer [OF l, of p] t by simp
  have cs: "(map_option cn_state (jget (cm_connections c) key) \<noteq> Some CConnected) = (contactState c key \<noteq> CConnected)"
    by (cases "jget (cm_connections c) key") (simp_all add: contactState_def)
  show "cm_promises (fireConnectTimer p c) = (cm_promises c)[p := Rejected key]"
    "cm_timers (fireConnectTimer p c) = jdel p (cm_timers c)"
    "cm_pendingConnects (fireConnectTimer p c) = jdel key (cm_pendingConnects c)"
    "waiters_of (fireConnectTimer p c) = (waiters_of c)(key := [])"
    "cm_connections (fireConnectTimer p c) = cm_connections c"
    "cm_states (fireConnectTimer p c) = cm_states c @ (if contactState c key = CConnected then [] else [(key, CDown)])"
    using t w s cs by (simp_all add: fireConnectTimer_def Let_def settle_def set_del_def emitState_def waiters_of_pure)
qed

lemma cm_ok_fireConnectTimer:
  assumes "cm_ok c"
  shows "cm_ok (fireConnectTimer p c)"
proof (cases "jget (cm_timers c) p")
  case None
  then show ?thesis using assms by (simp add: fireConnectTimer_def)
next
  case (Some key)
  show ?thesis unfolding cm_ok_def fireConnectTimer_eq(1-4) [OF assms Some]
    by (rule linked_close [OF assms [unfolded cm_ok_def] Some]) simp
qed

lemma resolve_none:
  assumes "cm_ok c" "jget (cm_pendingConnects c) key = None"
  shows "cm_promises (resolveConnectWaiters key cn c) = cm_promises c"
    "cm_timers (resolveConnectWaiters key cn c) = cm_timers c"
    "cm_pendingConnects (resolveConnectWaiters key cn c) = cm_pendingConnects c"
    "waiters_of (resolveConnectWaiters key cn c) = waiters_of c"
proof -
  have "waiters_of c key = []" using assms linked_waiters unfolding cm_ok_def by fastforce
  then have "jget (cm_connectWaiters c) key = None \<or> jget (cm_connectWaiters c) key = Some []"
    by (cases "jget (cm_connectWaiters c) key") (auto simp: waiters_of_def)
  then show "cm_promises (resolveConnectWaiters key cn c) = cm_promises c"
    "cm_timers (resolveConnectWaiters key cn c) = cm_timers c"
    "cm_pendingConnects (resolveConnectWaiters key cn c) = cm_pendingConnects c"
    "waiters_of (resolveConnectWaiters key cn c) = waiters_of c"
    by (auto simp: resolveConnectWaiters_def waiters_of_def fun_eq_iff)
qed

lemma resolve_some:
  assumes ok: "cm_ok c" and pd: "jget (cm_pendingConnects c) key = Some p"
  shows "cm_promises (resolveConnectWaiters key cn c) = (cm_promises c)[p := Resolved cn]"
    "cm_timers (resolveConnectWaiters key cn c) = jdel p (cm_timers c)"
    "cm_pendingConnects (resolveConnectWaiters key cn c) = jdel key (cm_pendingConnects c)"
    "waiters_of (resolveConnectWaiters key cn c) = (waiters_of c)(key := [])"
proof -
  note l = ok [unfolded cm_ok_def]
  have t: "jget (cm_timers c) p = Some key" using linked_link [OF l] pd by blast
  have "waiters_of c key = [p]" using linked_waiters [OF l, of key] pd by simp
  then have w: "jget (cm_connectWaiters c) key = Some [p]"
    by (cases "jget (cm_connectWaiters c) key") (auto simp: waiters_of_def)
  have s: "cm_promises c ! p = Waiting" using linked_timer [OF l, of p] t by simp
  show "cm_promises (resolveConnectWaiters key cn c) = (cm_promises c)[p := Resolved cn]"
    "cm_timers (resolveConnectWaiters key cn c) = jdel p (cm_timers c)"
    "cm_pendingConnects (resolveConnectWaiters key cn c) = jdel key (cm_pendingConnects c)"
    "waiters_of (resolveConnectWaiters key cn c) = (waiters_of c)(key := [])"
    using w s by (simp_all add: resolveConnectWaiters_def call_waiter_def Let_def settle_def removeConnectWaiter_def
        waiters_of_def fun_eq_iff)
qed

lemma cm_ok_resolve:
  assumes "cm_ok c"
  shows "cm_ok (resolveConnectWaiters key cn c)"
proof (cases "jget (cm_pendingConnects c) key")
  case None
  show ?thesis using assms unfolding cm_ok_def resolve_none [OF assms None] .
next
  case (Some p)
  note l = assms [unfolded cm_ok_def]
  have t: "jget (cm_timers c) p = Some key" using linked_link [OF l] Some by blast
  show ?thesis unfolding cm_ok_def resolve_some [OF assms Some] by (rule linked_close [OF l t]) simp
qed

subsection \<open>Runs of the manager\<close>

inductive cm_step :: "cman \<Rightarrow> cman \<Rightarrow> bool" where
  cm_ensure: "quiet f \<Longrightarrow> ensureConnection key f c = (r, c') \<Longrightarrow> cm_step c c'"
| cm_connected: "cm_step c (resolveConnectWaiters key cn (setConnection key cn c))"
| cm_timeout: "cm_step c (fireConnectTimer p c)"
| cm_endpoint: "cm_step c (handleEndpointState m st c)"
| cm_record: "cm_step c (recordMatch m key c)"
| cm_store: "cm_step c (storeEndpoint m e c)"
| cm_emit: "cm_step c (emitState key st c)"
| cm_drop: "cm_step c (dropConnection key c)"
| cm_close: "cm_step c (closeAll c)"

inductive cm_reach :: "cman \<Rightarrow> bool" where
  cm_start: "cm_reach cman_init"
| cm_next: "cm_reach c \<Longrightarrow> cm_step c c' \<Longrightarrow> cm_reach c'"

inductive_cases cm_stepE: "cm_step c c'"

lemma cm_ok_step: "cm_step c c' \<Longrightarrow> cm_ok c \<Longrightarrow> cm_ok c'"
  by (erule cm_stepE) (auto intro: cm_ok_ensureConnection cm_ok_resolve cm_ok_fireConnectTimer)

lemma cm_ok_reach: "cm_reach c \<Longrightarrow> cm_ok c"
  by (induction rule: cm_reach.induct) (auto intro: cm_ok_step)

text \<open>A promise is settled once: nothing changes it afterwards.\<close>

lemma settled_stable:
  assumes st: "cm_step c c'" and ok: "cm_ok c" and p: "p < length (cm_promises c)" "cm_promises c ! p \<noteq> Waiting"
  shows "p < length (cm_promises c') \<and> cm_promises c' ! p = cm_promises c ! p"
  using st
proof (cases rule: cm_step.cases)
  case (cm_ensure f key r)
  show ?thesis
  proof (cases "cm_promises c' = cm_promises c")
    case False
    then obtain q where "openAttempt key f c = (q, c')" "jget (cm_pendingConnects c) key = None"
      using cm_ensure(2) by (auto simp: ensureConnection_def Let_def split: if_splits option.splits prod.splits)
    with openAttempt_eq(2) [OF ok cm_ensure(1)] p show ?thesis by (simp add: nth_append)
  qed (simp add: p)
next
  case (cm_connected key cn)
  define d where "d = setConnection key cn c"
  have d: "cm_ok d" "cm_promises d = cm_promises c"
    using ok by (simp add: d_def) (simp add: d_def setConnection_def)
  show ?thesis
  proof (cases "jget (cm_pendingConnects d) key")
    case None
    then show ?thesis using resolve_none(1) [OF d(1) None] p cm_connected d by (simp add: d_def)
  next
    case (Some q)
    have "jget (cm_timers d) q \<noteq> None"
      using linked_link [OF d(1) [unfolded cm_ok_def], of q key] Some by simp
    then have "q \<noteq> p" using linked_timer [OF d(1) [unfolded cm_ok_def], of q] d p by auto
    then show ?thesis using resolve_some(1) [OF d(1) Some] p cm_connected d by (simp add: d_def)
  qed
next
  case (cm_timeout q)
  show ?thesis
  proof (cases "jget (cm_timers c) q")
    case None
    then show ?thesis using cm_timeout p by (simp add: fireConnectTimer_def)
  next
    case (Some key)
    then have "q \<noteq> p" using linked_timer [OF ok [unfolded cm_ok_def], of q] p by auto
    then show ?thesis using fireConnectTimer_eq(1) [OF ok Some] cm_timeout p by simp
  qed
qed (use p in \<open>auto simp: handleEndpointState_keeps recordMatch_def storeEndpoint_def emitState_def dropConnection_def
    closeAll_def split: option.splits\<close>)

text \<open>Concurrent callers share one attempt, and a connection resolves it for all of them.\<close>

lemma ensure_shared:
  assumes "cm_ok c" "quiet f" "quiet g" "contactState c key \<noteq> CConnected" "ensureConnection key f c = (r, c1)"
  shows "\<exists>p. r = Inr p \<and> ensureConnection key g c1 = (Inr p, c1) \<and> cm_promises c1 ! p = Waiting
    \<and> p < length (cm_promises c1)"
proof -
  have nc: "\<not> (jget (cm_connections c) key \<noteq> None \<and> cn_state (the (jget (cm_connections c) key)) = CConnected)"
    using assms(4) by (auto simp: contactState_def)
  have ok1: "cm_ok c1" by (rule cm_ok_ensureConnection [OF assms(1,2,5)])
  obtain p where r: "r = Inr p" and pd: "jget (cm_pendingConnects c1) key = Some p" and cn: "cm_connections c1 = cm_connections c"
  proof (cases "jget (cm_pendingConnects c) key")
    case (Some p)
    have "ensureConnection key f c = (Inr p, c)" using nc Some by (simp add: ensureConnection_def Let_def)
    then show ?thesis using assms(5) Some that by simp
  next
    case None
    obtain p c2 where o1: "openAttempt key f c = (p, c2)" by fastforce
    then have "ensureConnection key f c = (Inr p, c2)" using nc None by (simp add: ensureConnection_def Let_def)
    then have "r = Inr p" "c2 = c1" using assms(5) by auto
    with openAttempt_eq(4,6) [OF assms(1,2) None o1] that show ?thesis by simp
  qed
  have "ensureConnection key g c1 = (Inr p, c1)" using nc pd by (simp add: ensureConnection_def Let_def cn)
  moreover have "jget (cm_timers c1) p = Some key" using linked_link ok1 pd unfolding cm_ok_def by blast
  then have "p < length (cm_promises c1) \<and> cm_promises c1 ! p = Waiting"
    using linked_timer ok1 unfolding cm_ok_def by fastforce
  ultimately show ?thesis using r by blast
qed

end
