(* ===== verification/FileTransfer.thy ===== *)
theory FileTransfer
  imports Frames
begin

text \<open>
  \<open>packages/orpal-core/src/transfer/file-transfer.ts\<close>: files in chunks over an acknowledged sender.
  The sender is a pool of workers over a shared counter with bounded retries; the receiver a set of
  calls that suspend at the sink's operations, so that frames interleave with pending writes. A file's
  hash (\<open>bytesToHex(sha256(..))\<close>, third-party code) is the argument \<open>hash\<close>. The sink is the
  interface of the locale \<open>file_sink\<close>; the in-memory sink implements it.
\<close>

subsection \<open>Sources, options, chunks\<close>

record file_source =
  fs_bytes :: bytes
  fs_name :: string
  fs_mime :: string

definition fs_size :: "file_source \<Rightarrow> nat" where
  "fs_size s = length (fs_bytes s)"

definition fs_readChunk :: "file_source \<Rightarrow> nat \<Rightarrow> nat \<Rightarrow> bytes" where
  "fs_readChunk s offset len = take len (drop offset (fs_bytes s))"

record transfer_opts =
  to_chunkSize :: "nat option"
  to_window :: "nat option"
  to_maxRetries :: "nat option"
  to_retryBackoffMs :: "nat option"

definition opt_chunkSize :: "transfer_opts \<Rightarrow> nat" where
  "opt_chunkSize o1 = or_default (to_chunkSize o1) (16 * 1024)"

definition opt_window :: "transfer_opts \<Rightarrow> nat" where
  "opt_window o1 = max 1 (or_default (to_window o1) 4)"

definition opt_maxRetries :: "transfer_opts \<Rightarrow> nat" where
  "opt_maxRetries o1 = or_default (to_maxRetries o1) 3"

definition opt_retryBackoffMs :: "transfer_opts \<Rightarrow> nat" where
  "opt_retryBackoffMs o1 = or_default (to_retryBackoffMs o1) 250"

text \<open>\<open>Math.ceil\<close> of the quotient; a chunk size of zero is outside the model (the program divides by it).\<close>

definition chunkCount :: "nat \<Rightarrow> nat \<Rightarrow> nat" where
  "chunkCount sz chunkSize = (if sz = 0 then 0 else (sz + chunkSize - 1) div chunkSize)"

definition offer_of :: "(bytes \<Rightarrow> string) \<Rightarrow> transfer_opts \<Rightarrow> file_source \<Rightarrow> string \<Rightarrow> rat \<Rightarrow> file_offer" where
  "offer_of hash o1 s fileId now = \<lparr>fo_fileId = fileId, fo_name = fs_name s, fo_size = of_nat (fs_size s), fo_mime = fs_mime s,
     fo_chunkSize = of_nat (opt_chunkSize o1), fo_chunks = of_nat (chunkCount (fs_size s) (opt_chunkSize o1)),
     fo_sha256 = hash (fs_bytes s), fo_ts = now\<rparr>"

definition chunk_bytes :: "bytes \<Rightarrow> nat \<Rightarrow> nat \<Rightarrow> bytes" where
  "chunk_bytes bs cs i = take (min cs (length bs - i * cs)) (drop (i * cs) bs)"

definition chunk_frame :: "transfer_opts \<Rightarrow> file_source \<Rightarrow> string \<Rightarrow> nat \<Rightarrow> app_frame" where
  "chunk_frame o1 s fileId i =
     (let cs = opt_chunkSize o1; offset = i * cs; len = min cs (fs_size s - offset)
      in FileChunkFrame fileId (of_nat i) (b64uEncode (fs_readChunk s offset len)))"

subsection \<open>The sender\<close>

text \<open>
  A worker takes the next index, sends the chunk, waits for the acknowledgement and retries on a
  timeout after a backoff. \<open>SNext\<close> is a worker at the head of its loop; \<open>SSending i n\<close> one that has
  sent chunk \<open>i\<close> for the \<open>n\<close>-th retry; \<open>SBackoff\<close> one that waits to send again.
\<close>

datatype sworker = SNext | SSending nat nat | SBackoff nat nat nat | SDone | SFailed nat

record sender =
  se_next :: nat
  se_workers :: "sworker list"
  se_transferred :: nat
  se_chunksDone :: nat
  se_acked :: "nat list"
  se_frames :: "nat list"

record sparams =
  sp_size :: nat
  sp_chunkSize :: nat
  sp_maxRetries :: nat
  sp_backoffMs :: nat

definition sp_chunks :: "sparams \<Rightarrow> nat" where
  "sp_chunks p = chunkCount (sp_size p) (sp_chunkSize p)"

definition sender_init :: "sparams \<Rightarrow> nat \<Rightarrow> sender" where
  "sender_init p window = \<lparr>se_next = 0, se_workers = replicate (min window (sp_chunks p)) SNext, se_transferred = 0,
     se_chunksDone = 0, se_acked = [], se_frames = []\<rparr>"

datatype sevent = Run nat | Acked nat | TimedOut nat | ChannelError nat | Wake nat

definition set_worker :: "nat \<Rightarrow> sworker \<Rightarrow> sender \<Rightarrow> sender" where
  "set_worker w st s = s\<lparr>se_workers := (se_workers s)[w := st]\<rparr>"

definition se_step :: "sparams \<Rightarrow> sender \<Rightarrow> sevent \<Rightarrow> sender" where
  "se_step p s ev = (case ev of
       Run w \<Rightarrow>
         (if w < length (se_workers s) \<and> se_workers s ! w = SNext then
            (let i = se_next s; s1 = s\<lparr>se_next := se_next s + 1\<rparr>
             in if sp_chunks p \<le> i then set_worker w SDone s1
                else set_worker w (SSending i 0) (s1\<lparr>se_frames := se_frames s1 @ [i]\<rparr>))
          else s)
     | Acked w \<Rightarrow>
         (if w < length (se_workers s) then (case se_workers s ! w of
            SSending i _ \<Rightarrow>
              (let len = min (sp_chunkSize p) (sp_size p - i * sp_chunkSize p)
               in set_worker w SNext (s\<lparr>se_transferred := se_transferred s + len, se_chunksDone := se_chunksDone s + 1,
                    se_acked := se_acked s @ [i]\<rparr>))
          | _ \<Rightarrow> s) else s)
     | TimedOut w \<Rightarrow>
         (if w < length (se_workers s) then (case se_workers s ! w of
            SSending i attempt \<Rightarrow>
              (if sp_maxRetries p \<le> attempt then set_worker w (SFailed i) s
               else set_worker w (SBackoff i (attempt + 1) (sp_backoffMs p * 2 ^ attempt)) s)
          | _ \<Rightarrow> s) else s)
     | ChannelError w \<Rightarrow>
         (if w < length (se_workers s) then (case se_workers s ! w of
            SSending i _ \<Rightarrow> set_worker w (SFailed i) s | _ \<Rightarrow> s) else s)
     | Wake w \<Rightarrow>
         (if w < length (se_workers s) then (case se_workers s ! w of
            SBackoff i attempt _ \<Rightarrow> set_worker w (SSending i attempt) (s\<lparr>se_frames := se_frames s @ [i]\<rparr>)
          | _ \<Rightarrow> s) else s))"

definition se_run :: "sparams \<Rightarrow> sevent list \<Rightarrow> sender \<Rightarrow> sender" where
  "se_run p evs s = foldl (se_step p) s evs"

subsection \<open>Sinks\<close>

record 'k sink_ops =
  sk_writeChunk :: "rat \<Rightarrow> bytes \<Rightarrow> 'k \<Rightarrow> 'k option"
  sk_finalize :: "(bytes \<Rightarrow> string) \<Rightarrow> 'k \<Rightarrow> (string \<times> 'k) option"
  sk_abort :: "'k \<Rightarrow> 'k"

subsection \<open>The receiver\<close>

datatype outcome = Received string string | IntegrityFailed string | Aborted string

record progress =
  pr_fileId :: string
  pr_name :: string
  pr_transferred :: nat
  pr_total :: rat
  pr_chunksDone :: nat
  pr_chunksTotal :: rat

record 'k receiving =
  rf_offer :: file_offer
  rf_sink :: "'k option"
  rf_received :: "rat list"
  rf_transferred :: nat
  rf_buffer :: "(rat, bytes) jmap"
  rf_ready :: bool

text \<open>
  A suspended call holds the receiving file by reference, an index of the heap. \<open>TFlush\<close> is
  \<open>onOffer\<close> at a write of its flush loop, with the entries still to come.
\<close>

datatype rthread =
    TCreate nat
  | TFlush nat rat bytes "(rat \<times> bytes) list"
  | TChunk nat string rat bytes
  | TFinalize string string string
  | TAbort string

record 'k freceiver =
  fr_heap :: "'k receiving list"
  fr_files :: "(string, nat) jmap"
  fr_threads :: "rthread list"
  fr_progress :: "progress list"
  fr_outcomes :: "outcome list"

definition FileReceiver :: "'k freceiver" where
  "FileReceiver = \<lparr>fr_heap = [], fr_files = [], fr_threads = [], fr_progress = [], fr_outcomes = []\<rparr>"

definition fr_spawn :: "rthread \<Rightarrow> 'k freceiver \<Rightarrow> 'k freceiver" where
  "fr_spawn t s = s\<lparr>fr_threads := fr_threads s @ [t]\<rparr>"

definition fr_update :: "nat \<Rightarrow> ('k receiving \<Rightarrow> 'k receiving) \<Rightarrow> 'k freceiver \<Rightarrow> 'k freceiver" where
  "fr_update r f s = s\<lparr>fr_heap := (fr_heap s)[r := f (fr_heap s ! r)]\<rparr>"

definition emitProgress :: "string \<Rightarrow> 'k freceiver \<Rightarrow> 'k freceiver" where
  "emitProgress fileId s =
     (case jget (fr_files s) fileId of
        None \<Rightarrow> s
      | Some r \<Rightarrow> (let f = fr_heap s ! r in s\<lparr>fr_progress := fr_progress s @
          [\<lparr>pr_fileId = fileId, pr_name = fo_name (rf_offer f), pr_transferred = rf_transferred f, pr_total = fo_size (rf_offer f),
            pr_chunksDone = length (rf_received f), pr_chunksTotal = fo_chunks (rf_offer f)\<rparr>]\<rparr>))"

definition onComplete :: "outcome \<Rightarrow> 'k freceiver \<Rightarrow> 'k freceiver" where
  "onComplete out s = s\<lparr>fr_outcomes := fr_outcomes s @ [out]\<rparr>"

definition fr_all :: "'k receiving \<Rightarrow> bool" where
  "fr_all f = (of_nat (length (rf_received f)) = fo_chunks (rf_offer f))"

definition fr_complete :: "'k sink_ops \<Rightarrow> (bytes \<Rightarrow> string) \<Rightarrow> string \<Rightarrow> 'k freceiver \<Rightarrow> 'k freceiver" where
  "fr_complete ops hash fileId s =
     (case jget (fr_files s) fileId of
        None \<Rightarrow> s
      | Some r \<Rightarrow> (case rf_sink (fr_heap s ! r) of
          None \<Rightarrow> s
        | Some k \<Rightarrow>
            (let s1 = s\<lparr>fr_files := jdel fileId (fr_files s)\<rparr>
             in case sk_finalize ops hash k of
                  None \<Rightarrow> s1
                | Some (got, k1) \<Rightarrow> fr_spawn (TFinalize fileId got (fo_sha256 (rf_offer (fr_heap s ! r))))
                    (fr_update r (\<lambda>f. f\<lparr>rf_sink := Some k1\<rparr>) s1))))"

definition fr_received :: "nat \<Rightarrow> rat \<Rightarrow> bytes \<Rightarrow> 'k freceiver \<Rightarrow> 'k freceiver" where
  "fr_received r i bytes s = fr_update r (\<lambda>f. f\<lparr>rf_received := set_add i (rf_received f),
     rf_transferred := rf_transferred f + length bytes\<rparr>) s"

text \<open>A write that throws rejects the call that made it; the call ends there.\<close>

definition fr_write :: "'k sink_ops \<Rightarrow> nat \<Rightarrow> rat \<Rightarrow> bytes \<Rightarrow> rthread \<Rightarrow> 'k freceiver \<Rightarrow> 'k freceiver" where
  "fr_write ops r i bytes t s =
     (case rf_sink (fr_heap s ! r) of
        None \<Rightarrow> s
      | Some k \<Rightarrow> (case sk_writeChunk ops (i * fo_chunkSize (rf_offer (fr_heap s ! r))) bytes k of
          None \<Rightarrow> s
        | Some k1 \<Rightarrow> fr_spawn t (fr_update r (\<lambda>f. f\<lparr>rf_sink := Some k1\<rparr>) s)))"

fun fr_flush :: "'k sink_ops \<Rightarrow> (bytes \<Rightarrow> string) \<Rightarrow> nat \<Rightarrow> (rat \<times> bytes) list \<Rightarrow> 'k freceiver \<Rightarrow> 'k freceiver" where
  "fr_flush ops hash r [] s =
     (let s1 = fr_update r (\<lambda>f. f\<lparr>rf_buffer := []\<rparr>) s; fileId = fo_fileId (rf_offer (fr_heap s1 ! r));
          s2 = emitProgress fileId s1
      in if fr_all (fr_heap s2 ! r) then fr_complete ops hash fileId s2 else s2)"
| "fr_flush ops hash r ((i, bytes) # rest) s =
     (if i \<in> set (rf_received (fr_heap s ! r)) then fr_flush ops hash r rest s
      else fr_write ops r i bytes (TFlush r i bytes rest) s)"

definition onOffer :: "file_offer \<Rightarrow> 'k freceiver \<Rightarrow> 'k freceiver" where
  "onOffer offer s =
     (if jhas (fr_files s) (fo_fileId offer) then s
      else
        (let f = \<lparr>rf_offer = offer, rf_sink = None, rf_received = [], rf_transferred = 0, rf_buffer = [], rf_ready = False\<rparr>;
             r = length (fr_heap s);
             s1 = s\<lparr>fr_heap := fr_heap s @ [f], fr_files := jset (fo_fileId offer) r (fr_files s)\<rparr>
         in fr_spawn (TCreate r) (emitProgress (fo_fileId offer) s1)))"

definition onChunk :: "'k sink_ops \<Rightarrow> string \<Rightarrow> rat \<Rightarrow> string \<Rightarrow> 'k freceiver \<Rightarrow> 'k freceiver" where
  "onChunk ops fileId i data s =
     (case jget (fr_files s) fileId of
        None \<Rightarrow> s
      | Some r \<Rightarrow>
          (let f = fr_heap s ! r; bytes = b64uDecode data
           in if i < 0 \<or> fo_chunks (rf_offer f) \<le> i then s
              else if i \<in> set (rf_received f) then s
              else if \<not> rf_ready f \<or> rf_sink f = None then fr_update r (\<lambda>f. f\<lparr>rf_buffer := jset i bytes (rf_buffer f)\<rparr>) s
              else fr_write ops r i bytes (TChunk r fileId i bytes) s))"

definition onDone :: "'k sink_ops \<Rightarrow> (bytes \<Rightarrow> string) \<Rightarrow> string \<Rightarrow> 'k freceiver \<Rightarrow> 'k freceiver" where
  "onDone ops hash fileId s =
     (case jget (fr_files s) fileId of
        None \<Rightarrow> s
      | Some r \<Rightarrow> if fr_all (fr_heap s ! r) then fr_complete ops hash fileId s else s)"

definition fr_abort :: "'k sink_ops \<Rightarrow> string \<Rightarrow> 'k freceiver \<Rightarrow> 'k freceiver" where
  "fr_abort ops fileId s =
     (case jget (fr_files s) fileId of
        None \<Rightarrow> s
      | Some r \<Rightarrow> fr_spawn (TAbort fileId)
          (fr_update r (\<lambda>f. f\<lparr>rf_sink := map_option (sk_abort ops) (rf_sink f)\<rparr>) (s\<lparr>fr_files := jdel fileId (fr_files s)\<rparr>)))"

text \<open>A suspended call goes on; for \<open>TCreate\<close> with the sink that was created, or with none on a rejection.\<close>

definition fr_go :: "'k sink_ops \<Rightarrow> (bytes \<Rightarrow> string) \<Rightarrow> 'k option \<Rightarrow> rthread \<Rightarrow> 'k freceiver \<Rightarrow> 'k freceiver" where
  "fr_go ops hash created t s = (case t of
       TCreate r \<Rightarrow>
         (let fileId = fo_fileId (rf_offer (fr_heap s ! r))
          in case created of
               None \<Rightarrow> onComplete (Aborted fileId) (s\<lparr>fr_files := jdel fileId (fr_files s)\<rparr>)
             | Some k \<Rightarrow> fr_flush ops hash r (sort_key fst (rf_buffer (fr_heap s ! r)))
                 (fr_update r (\<lambda>f. f\<lparr>rf_sink := Some k, rf_ready := True\<rparr>) s))
     | TFlush r i bytes rest \<Rightarrow> fr_flush ops hash r rest (fr_received r i bytes s)
     | TChunk r fileId i bytes \<Rightarrow>
         (let s1 = emitProgress fileId (fr_received r i bytes s)
          in if fr_all (fr_heap s1 ! r) then fr_complete ops hash fileId s1 else s1)
     | TFinalize fileId got expected \<Rightarrow>
         onComplete (if got \<noteq> expected then IntegrityFailed fileId else Received fileId got) s
     | TAbort fileId \<Rightarrow> onComplete (Aborted fileId) s)"

datatype 'k revent =
    EvOffer file_offer | EvChunk string rat string | EvDone string | EvAbort string | EvResume nat "'k option"

definition fr_step :: "'k sink_ops \<Rightarrow> (bytes \<Rightarrow> string) \<Rightarrow> 'k freceiver \<Rightarrow> 'k revent \<Rightarrow> 'k freceiver" where
  "fr_step ops hash s ev = (case ev of
       EvOffer offer \<Rightarrow> onOffer offer s
     | EvChunk fileId i data \<Rightarrow> onChunk ops fileId i data s
     | EvDone fileId \<Rightarrow> onDone ops hash fileId s
     | EvAbort fileId \<Rightarrow> fr_abort ops fileId s
     | EvResume n created \<Rightarrow>
         if n < length (fr_threads s)
         then fr_go ops hash created (fr_threads s ! n) (s\<lparr>fr_threads := take n (fr_threads s) @ drop (Suc n) (fr_threads s)\<rparr>)
         else s)"

definition fr_run :: "'k sink_ops \<Rightarrow> (bytes \<Rightarrow> string) \<Rightarrow> 'k revent list \<Rightarrow> 'k freceiver \<Rightarrow> 'k freceiver" where
  "fr_run ops hash evs s = foldl (fr_step ops hash) s evs"

subsection \<open>The in-memory sink\<close>

record mem_sink =
  ms_parts :: "(rat, bytes) jmap"
  ms_total :: nat
  ms_assembled :: "bytes option"

definition new_sink :: mem_sink where
  "new_sink = \<lparr>ms_parts = [], ms_total = 0, ms_assembled = None\<rparr>"

definition ms_writeChunk :: "rat \<Rightarrow> bytes \<Rightarrow> mem_sink \<Rightarrow> mem_sink option" where
  "ms_writeChunk offset data k =
     (let k1 = (if jhas (ms_parts k) offset then k else k\<lparr>ms_total := ms_total k + length data\<rparr>)
      in Some (k1\<lparr>ms_parts := jset offset data (ms_parts k1)\<rparr>))"

definition typed_set :: "bytes \<Rightarrow> rat \<Rightarrow> bytes \<Rightarrow> bytes option" where
  \<comment> \<open>\<open>Uint8Array.set\<close>: the offset is truncated, a range outside the array throws\<close>
  "typed_set out offset data =
     (let k = (if 0 \<le> offset then \<lfloor>offset\<rfloor> else \<lceil>offset\<rceil>)
      in if k < 0 \<or> length out < nat k + length data then None
         else Some (take (nat k) out @ data @ drop (nat k + length data) out))"

fun set_all :: "(rat \<times> bytes) list \<Rightarrow> bytes \<Rightarrow> bytes option" where
  "set_all [] out = Some out"
| "set_all ((off, data) # ps) out = (case typed_set out off data of None \<Rightarrow> None | Some out1 \<Rightarrow> set_all ps out1)"

definition ms_finalize :: "(bytes \<Rightarrow> string) \<Rightarrow> mem_sink \<Rightarrow> (string \<times> mem_sink) option" where
  "ms_finalize hash k =
     (case set_all (sort_key fst (ms_parts k)) (replicate (ms_total k) 0) of
        None \<Rightarrow> None
      | Some out \<Rightarrow> Some (hash out, k\<lparr>ms_assembled := Some out\<rparr>))"

definition ms_abort :: "mem_sink \<Rightarrow> mem_sink" where
  "ms_abort k = k\<lparr>ms_parts := [], ms_total := 0\<rparr>"

definition InMemoryFileSink :: "mem_sink sink_ops" where
  "InMemoryFileSink = \<lparr>sk_writeChunk = ms_writeChunk, sk_finalize = ms_finalize, sk_abort = ms_abort\<rparr>"

subsection \<open>The chunks tile the file\<close>

definition chunk_len :: "nat \<Rightarrow> nat \<Rightarrow> nat \<Rightarrow> nat" where
  "chunk_len sz cs i = min cs (sz - i * cs)"

lemma length_chunk [simp]: "length (chunk_bytes bs cs i) = chunk_len (length bs) cs i"
  by (simp add: chunk_bytes_def chunk_len_def)

lemma chunkCount_le: "0 < cs \<Longrightarrow> chunkCount sz cs \<le> i \<Longrightarrow> sz \<le> i * cs"
proof -
  assume cs: "0 < cs" and i: "chunkCount sz cs \<le> i"
  show "sz \<le> i * cs"
  proof (cases "sz = 0")
    case False
    then have "(sz + cs - 1) div cs \<le> i" using i by (simp add: chunkCount_def)
    then have "sz + cs - 1 < (i + 1) * cs" using cs by (simp add: div_less_iff_less_mult less_Suc_eq_le [symmetric] flip: less_Suc_eq_le)
    then show ?thesis using cs by simp
  qed simp
qed

lemma chunkCount_lt: "0 < cs \<Longrightarrow> i < chunkCount sz cs \<Longrightarrow> i * cs < sz"
proof -
  assume cs: "0 < cs" and i: "i < chunkCount sz cs"
  then have "sz \<noteq> 0" "i + 1 \<le> (sz + cs - 1) div cs" by (auto simp: chunkCount_def split: if_splits)
  then have "(i + 1) * cs \<le> sz + cs - 1" using cs by (simp add: less_eq_div_iff_mult_less_eq)
  with cs \<open>sz \<noteq> 0\<close> show "i * cs < sz" by simp
qed

lemma sum_chunk_len: "0 < cs \<Longrightarrow> (\<Sum>i<m. chunk_len sz cs i) = min sz (m * cs)"
  by (induction m) (auto simp: chunk_len_def min_def)

lemma sum_all_chunks: "0 < cs \<Longrightarrow> (\<Sum>i<chunkCount sz cs. chunk_len sz cs i) = sz"
  using chunkCount_le [of cs sz "chunkCount sz cs"] by (simp add: sum_chunk_len)

lemma take_chunk: "0 < cs \<Longrightarrow> take (i * cs) bs @ chunk_bytes bs cs i = take (Suc i * cs) bs"
proof -
  have "take (i * cs + cs) bs = take (i * cs) bs @ take cs (drop (i * cs) bs)" by (rule take_add)
  moreover have "take cs (drop (i * cs) bs) = chunk_bytes bs cs i"
    by (simp add: chunk_bytes_def min_def)
  ultimately show "take (i * cs) bs @ chunk_bytes bs cs i = take (Suc i * cs) bs" by (simp add: add.commute)
qed

definition tiling :: "bytes \<Rightarrow> nat \<Rightarrow> (rat \<times> bytes) list" where
  "tiling bs cs = map (\<lambda>i. (of_nat (i * cs), chunk_bytes bs cs i)) [0..<chunkCount (length bs) cs]"

lemma of_nat_mult_eq: "0 < cs \<Longrightarrow> (of_nat (i * cs) = (of_nat (j * cs) :: rat)) = (i = j)"
  by (simp only: of_nat_eq_iff) simp

lemma distinct_tiling: "0 < cs \<Longrightarrow> distinct (map fst (tiling bs cs))"
  by (simp add: tiling_def distinct_map comp_def inj_on_def)

lemma map_of_tiling:
  assumes "0 < cs"
  shows "map_of (tiling bs cs) (of_nat (i * cs)) = (if i < chunkCount (length bs) cs then Some (chunk_bytes bs cs i) else None)"
proof (cases "i < chunkCount (length bs) cs")
  case True
  then have "(of_nat (i * cs), chunk_bytes bs cs i) \<in> set (tiling bs cs)" by (force simp: tiling_def)
  with True show ?thesis using distinct_tiling [OF assms] by (simp add: map_of_eq_Some_iff)
next
  case False
  then show ?thesis using assms by (force simp: map_of_eq_None_iff tiling_def)
qed

lemma sorted_tiling: "0 < cs \<Longrightarrow> sorted (map fst (tiling bs cs))"
  by (simp add: tiling_def comp_def sorted_iff_nth_mono mult_le_mono1 flip: of_nat_mult)

lemma set_all_tiling:
  assumes "0 < cs" "m \<le> chunkCount (length bs) cs"
  shows "set_all (map (\<lambda>i. (of_nat (i * cs), chunk_bytes bs cs i)) [0..<m]) (replicate (length bs) 0) =
    Some (take (m * cs) bs @ replicate (length bs - m * cs) 0)"
  using assms(2)
proof (induction m)
  case (Suc m)
  have app: "set_all (xs @ ys) out = (case set_all xs out of None \<Rightarrow> None | Some o1 \<Rightarrow> set_all ys o1)" for xs ys out
    by (induction xs out rule: set_all.induct) (auto split: option.splits)
  let ?out = "take (m * cs) bs @ replicate (length bs - m * cs) (0 :: 8 word)"
  have lt: "m * cs < length bs" using chunkCount_lt [OF assms(1)] Suc.prems by simp
  have fl: "\<lfloor>of_nat (m * cs) :: rat\<rfloor> = int (m * cs)" by (simp only: floor_of_nat)
  have "typed_set ?out (of_nat (m * cs)) (chunk_bytes bs cs m) =
      Some (take (m * cs) bs @ chunk_bytes bs cs m @ drop (m * cs + chunk_len (length bs) cs m) ?out)"
    using lt unfolding typed_set_def fl by (simp add: chunk_len_def Let_def del: of_nat_mult)
  also have "drop (m * cs + chunk_len (length bs) cs m) ?out = replicate (length bs - Suc m * cs) 0"
    using lt by (simp add: chunk_len_def min_def add.commute)
  finally have "typed_set ?out (of_nat (m * cs)) (chunk_bytes bs cs m) = Some (take (Suc m * cs) bs @ replicate (length bs - Suc m * cs) 0)"
    using take_chunk [OF assms(1), of m bs] by (simp only: append_assoc [symmetric])
  with Suc show ?case by (simp add: app del: of_nat_mult)
qed simp

subsection \<open>The contract of a sink\<close>

locale file_sink =
  fixes ops :: "'k sink_ops" and hash :: "bytes \<Rightarrow> string" and parts :: "'k \<Rightarrow> rat \<Rightarrow> bytes option" and ok :: "'k \<Rightarrow> bool"
  assumes write_total: "ok k \<Longrightarrow> \<exists>k'. sk_writeChunk ops off data k = Some k'"
    and write_parts: "sk_writeChunk ops off data k = Some k' \<Longrightarrow> parts k' = (parts k)(off \<mapsto> data)"
    and write_ok: "sk_writeChunk ops off data k = Some k' \<Longrightarrow> ok k \<Longrightarrow>
      (\<And>d. parts k off = Some d \<Longrightarrow> length d = length data) \<Longrightarrow> ok k'"
    and finalize_ok: "ok k \<Longrightarrow> 0 < cs \<Longrightarrow> parts k = map_of (tiling bs cs) \<Longrightarrow> \<exists>k'. sk_finalize ops hash k = Some (hash bs, k')"

definition ms_ok :: "mem_sink \<Rightarrow> bool" where
  "ms_ok k = (jmap_ok (ms_parts k) \<and> ms_total k = sum_list (map (length \<circ> snd) (ms_parts k)))"

lemma sum_list_jset:
  "jmap_ok m \<Longrightarrow> sum_list (map (f \<circ> snd) (jset k v m)) + (case jget m k of None \<Rightarrow> 0 | Some v0 \<Rightarrow> f v0)
    = sum_list (map (f \<circ> snd) m) + (f v :: nat)"
proof (induction m)
  case (Cons p m)
  obtain a b where p: "p = (a, b)" by fastforce
  from Cons p show ?case by (cases "a = k") (auto simp: jmap_ok_def split: option.splits)
qed simp

lemma ms_finalize_tiling:
  assumes ok: "ms_ok k" and cs: "0 < cs" and t: "map_of (ms_parts k) = map_of (tiling bs cs)"
  shows "ms_finalize hash k = Some (hash bs, k\<lparr>ms_assembled := Some bs\<rparr>)"
proof -
  have d: "distinct (map fst (ms_parts k))" using ok by (simp add: ms_ok_def jmap_ok_def)
  have "set (ms_parts k) = set (tiling bs cs)"
    using t d distinct_tiling [OF cs] map_of_inject_set by blast
  then have perm: "mset (ms_parts k) = mset (tiling bs cs)"
    using d distinct_tiling [OF cs] by (simp add: distinct_map set_eq_iff_mset_eq_distinct)
  have n: "length bs \<le> chunkCount (length bs) cs * cs" by (rule chunkCount_le [OF cs order_refl])
  have "ms_total k = sum_list (map (length \<circ> snd) (tiling bs cs))"
    using ok perm by (metis ms_ok_def mset_map sum_mset_sum_list)
  also have "\<dots> = (\<Sum>i<chunkCount (length bs) cs. chunk_len (length bs) cs i)"
    by (simp add: tiling_def comp_def sum_list_sum_nth atLeast0LessThan)
  also have "\<dots> = length bs" by (rule sum_all_chunks [OF cs])
  finally have total: "ms_total k = length bs" .
  have "sort_key fst (ms_parts k) = tiling bs cs"
    by (rule sort_key_inj_key_eq [OF perm _ sorted_tiling [OF cs]]) (use d in \<open>simp add: distinct_map\<close>)
  then have "set_all (sort_key fst (ms_parts k)) (replicate (ms_total k) 0) = Some bs"
    using set_all_tiling [OF cs order_refl, of bs] n by (simp add: total tiling_def)
  then show ?thesis by (simp add: ms_finalize_def)
qed

interpretation mem_sink: file_sink InMemoryFileSink hash "\<lambda>k. map_of (ms_parts k)" ms_ok for hash
proof
  fix off :: rat and data bs :: bytes and k k' :: mem_sink and cs :: nat
  show "\<exists>k'. sk_writeChunk InMemoryFileSink off data k = Some k'"
    by (simp add: InMemoryFileSink_def ms_writeChunk_def Let_def)
  show "map_of (ms_parts k') = (map_of (ms_parts k))(off \<mapsto> data)" if "sk_writeChunk InMemoryFileSink off data k = Some k'"
    using that by (auto simp: InMemoryFileSink_def ms_writeChunk_def Let_def update_conv)
  show "ms_ok k'" if w: "sk_writeChunk InMemoryFileSink off data k = Some k'" and k: "ms_ok k"
    and l: "\<And>d. map_of (ms_parts k) off = Some d \<Longrightarrow> length d = length data"
  proof -
    have "jmap_ok (ms_parts k)" using k by (simp add: ms_ok_def)
    from sum_list_jset [OF this, of length off data] w k l show ?thesis
      by (auto simp: InMemoryFileSink_def ms_writeChunk_def Let_def ms_ok_def jhas_def split: option.splits if_splits)
  qed
  show "\<exists>k'. sk_finalize InMemoryFileSink hash k = Some (hash bs, k')" if "ms_ok k" "0 < cs"
    "map_of (ms_parts k) = map_of (tiling bs cs)"
    using ms_finalize_tiling [OF that] by (simp add: InMemoryFileSink_def)
qed

subsection \<open>A whole transfer\<close>

definition chunk_events :: "bytes \<Rightarrow> nat \<Rightarrow> string \<Rightarrow> nat \<Rightarrow> 'k revent list" where
  \<comment> \<open>a chunk arrives and is handled to the end\<close>
  "chunk_events bs cs fileId i = [EvChunk fileId (of_nat i) (b64uEncode (chunk_bytes bs cs i)), EvResume 0 None, EvResume 0 None]"

definition offer_for :: "bytes \<Rightarrow> nat \<Rightarrow> file_offer \<Rightarrow> bool" where
  "offer_for bs cs offer = (fo_chunkSize offer = of_nat cs \<and> fo_chunks offer = of_nat (chunkCount (length bs) cs))"

definition verdict :: "(bytes \<Rightarrow> string) \<Rightarrow> bytes \<Rightarrow> file_offer \<Rightarrow> outcome" where
  \<comment> \<open>the outcome of a transfer whose sink holds these bytes\<close>
  "verdict hash bs offer = (if hash bs \<noteq> fo_sha256 offer then IntegrityFailed (fo_fileId offer) else Received (fo_fileId offer) (hash bs))"

context file_sink
begin

definition transferring :: "bytes \<Rightarrow> nat \<Rightarrow> file_offer \<Rightarrow> nat set \<Rightarrow> 'k freceiver \<Rightarrow> bool" where
  "transferring bs cs offer D s = (fr_threads s = [] \<and> D \<subseteq> {..<chunkCount (length bs) cs} \<and>
     (if D = {..<chunkCount (length bs) cs} then jget (fr_files s) (fo_fileId offer) = None
        \<and> fr_outcomes s = [verdict hash bs offer] \<and> (\<exists>f k k2. fr_heap s = [f] \<and> rf_sink f = Some k2 \<and> ok k
          \<and> parts k = map_of (tiling bs cs) \<and> sk_finalize ops hash k = Some (hash bs, k2))
      else jget (fr_files s) (fo_fileId offer) = Some 0 \<and> fr_outcomes s = [] \<and> (\<exists>f k. fr_heap s = [f] \<and> rf_offer f = offer
        \<and> rf_ready f \<and> rf_sink f = Some k \<and> ok k \<and> distinct (rf_received f) \<and> set (rf_received f) = of_nat ` D
        \<and> parts k = (\<lambda>off. if \<exists>i\<in>D. off = of_nat (i * cs) then map_of (tiling bs cs) off else None))))"

lemma fr_sel [simp]:
  "fr_heap (emitProgress fid s) = fr_heap s" "fr_files (emitProgress fid s) = fr_files s"
  "fr_threads (emitProgress fid s) = fr_threads s" "fr_outcomes (emitProgress fid s) = fr_outcomes s"
  "fr_heap (fr_update r g s) = (fr_heap s)[r := g (fr_heap s ! r)]" "fr_files (fr_update r g s) = fr_files s"
  "fr_threads (fr_update r g s) = fr_threads s" "fr_outcomes (fr_update r g s) = fr_outcomes s"
  "fr_heap (fr_spawn t s) = fr_heap s" "fr_files (fr_spawn t s) = fr_files s"
  "fr_threads (fr_spawn t s) = fr_threads s @ [t]" "fr_outcomes (fr_spawn t s) = fr_outcomes s"
  "fr_heap (onComplete out s) = fr_heap s" "fr_files (onComplete out s) = fr_files s"
  "fr_threads (onComplete out s) = fr_threads s" "fr_outcomes (onComplete out s) = fr_outcomes s @ [out]"
  by (simp_all add: emitProgress_def fr_update_def fr_spawn_def onComplete_def Let_def split: option.splits)

lemma resume_none: "fr_threads s = [] \<Longrightarrow> fr_step ops hash s (EvResume 0 c) = s"
  by (simp add: fr_step_def)

lemma transferring_chunk:
  assumes cs: "0 < cs" and off: "offer_for bs cs offer" and t: "transferring bs cs offer D s" and i: "i < chunkCount (length bs) cs"
  shows "transferring bs cs offer (insert i D) (fr_run ops hash (chunk_events bs cs (fo_fileId offer) i) s)"
proof (cases "D = {..<chunkCount (length bs) cs}")
  case True
  then have "fr_step ops hash s (EvChunk (fo_fileId offer) (of_nat i) (b64uEncode (chunk_bytes bs cs i))) = s"
    using t by (simp add: transferring_def fr_step_def onChunk_def)
  then show ?thesis using t True i by (simp add: fr_run_def chunk_events_def resume_none transferring_def insert_absorb)
next
  case False
  let ?n = "chunkCount (length bs) cs"
  from t False obtain f k where st: "fr_threads s = []" "jget (fr_files s) (fo_fileId offer) = Some 0" "fr_outcomes s = []"
    "fr_heap s = [f]" "rf_offer f = offer" "rf_ready f" "rf_sink f = Some k" "ok k" "distinct (rf_received f)"
    "set (rf_received f) = of_nat ` D" and D: "D \<subseteq> {..<?n}"
    and pk: "parts k = (\<lambda>off. if \<exists>i\<in>D. off = of_nat (i * cs) then map_of (tiling bs cs) off else None)"
    by (auto simp: transferring_def)
  have o: "fo_chunkSize offer = of_nat cs" "fo_chunks offer = of_nat ?n"
    using off by (simp_all add: offer_for_def)
  have mem: "of_nat j \<in> set (rf_received f) \<longleftrightarrow> j \<in> D" for j unfolding st by auto
  show ?thesis
  proof (cases "i \<in> D")
    case True
    then have "fr_step ops hash s (EvChunk (fo_fileId offer) (of_nat i) (b64uEncode (chunk_bytes bs cs i))) = s"
      using st mem by (simp add: fr_step_def onChunk_def Let_def)
    then show ?thesis using t True st by (simp add: fr_run_def chunk_events_def resume_none insert_absorb)
  next
    case iD: False
    have off_i: "of_nat i * of_nat cs = (of_nat (i * cs) :: rat)" by simp
    obtain k1 where w: "sk_writeChunk ops (of_nat (i * cs)) (chunk_bytes bs cs i) k = Some k1" using write_total [OF st(8)] by blast
    have til: "map_of (tiling bs cs) (of_nat (i * cs)) = Some (chunk_bytes bs cs i)" using map_of_tiling [OF cs] i by simp
    have fresh: "parts k (of_nat (i * cs)) = None" using iD cs of_nat_mult_eq [OF cs] by (auto simp: pk)
    have ok1: "ok k1" by (rule write_ok [OF w st(8)]) (simp add: fresh del: of_nat_mult)
    have p1: "parts k1 = (\<lambda>off. if \<exists>j\<in>insert i D. off = of_nat (j * cs) then map_of (tiling bs cs) off else None)"
      unfolding write_parts [OF w] pk using til by (auto simp: fun_eq_iff)
    define f1 where "f1 = f\<lparr>rf_sink := Some k1, rf_received := rf_received f @ [of_nat i],
      rf_transferred := rf_transferred f + chunk_len (length bs) cs i\<rparr>"
    let ?c = "EvChunk (fo_fileId offer) (of_nat i) (b64uEncode (chunk_bytes bs cs i))"
    define s1 where "s1 = fr_step ops hash s ?c"
    have s1: "fr_threads s1 = [TChunk 0 (fo_fileId offer) (of_nat i) (chunk_bytes bs cs i)]"
      "fr_files s1 = fr_files s" "fr_outcomes s1 = []" "fr_heap s1 = [f\<lparr>rf_sink := Some k1\<rparr>]"
      using st i iD mem w by (simp_all add: s1_def fr_step_def onChunk_def fr_write_def Let_def o del: of_nat_mult flip: of_nat_mult)
    define s2 where "s2 = emitProgress (fo_fileId offer) (fr_received 0 (of_nat i) (chunk_bytes bs cs i) (s1\<lparr>fr_threads := []\<rparr>))"
    have s2: "fr_threads s2 = []" "fr_files s2 = fr_files s" "fr_outcomes s2 = []" "fr_heap s2 = [f1]"
      using iD mem by (simp_all add: s2_def fr_received_def s1 f1_def set_add_def)
    have r2: "fr_step ops hash s1 (EvResume 0 None) =
        (if fr_all f1 then fr_complete ops hash (fo_fileId offer) s2 else s2)"
    proof -
      have "fr_heap (fr_received 0 (of_nat i) (chunk_bytes bs cs i) (s1\<lparr>fr_threads := []\<rparr>)) = [f1]"
        using s2(4) by (simp add: s2_def)
      then show ?thesis by (simp add: fr_step_def s1 fr_go_def Let_def flip: s2_def)
    qed
    have fin: "finite D" using D by (rule finite_subset) simp
    have all: "fr_all f1 = (insert i D = {..<?n})"
    proof -
      have "length (rf_received f) = card (of_nat ` D :: rat set)" using st(9,10) distinct_card by metis
      also have "\<dots> = card D" by (rule card_image) simp
      finally have "length (rf_received f1) = card (insert i D)" using iD fin by (simp add: f1_def)
      then have "fr_all f1 = (card (insert i D) = ?n)" by (simp add: fr_all_def f1_def st o)
      also have "\<dots> = (insert i D = {..<?n})"
        using D i by (metis card_lessThan card_subset_eq finite_lessThan insert_subset lessThan_iff)
      finally show ?thesis .
    qed
    have ev: "fr_run ops hash (chunk_events bs cs (fo_fileId offer) i) s =
        fr_step ops hash (fr_step ops hash s1 (EvResume 0 None)) (EvResume 0 None)"
      by (simp add: fr_run_def chunk_events_def s1_def)
    show ?thesis
    proof (cases "insert i D = {..<?n}")
      case True
      have full: "parts k1 = map_of (tiling bs cs)"
      proof
        fix x show "parts k1 x = map_of (tiling bs cs) x"
        proof (cases "map_of (tiling bs cs) x")
          case (Some d)
          then obtain j where "j < ?n" "x = of_nat (j * cs)" using map_of_SomeD by (force simp: tiling_def)
          then show ?thesis unfolding p1 True by auto
        qed (simp add: p1)
      qed
      then obtain k2 where fin: "sk_finalize ops hash k1 = Some (hash bs, k2)" using finalize_ok [OF ok1 cs full] by blast
      define s3 where "s3 = fr_complete ops hash (fo_fileId offer) s2"
      have "fr_threads s3 = [TFinalize (fo_fileId offer) (hash bs) (fo_sha256 offer)]" "jget (fr_files s3) (fo_fileId offer) = None"
        "fr_outcomes s3 = []" "fr_heap s3 = [f1\<lparr>rf_sink := Some k2\<rparr>]"
        using fin st o by (simp_all add: s3_def fr_complete_def s2 f1_def Let_def)
      then show ?thesis unfolding ev r2 s3_def [symmetric] using all True ok1 full fin
        by (simp add: fr_step_def fr_go_def transferring_def verdict_def) blast
    next
      case False
      have "D \<noteq> {..<?n}" using iD i by auto
      show ?thesis unfolding ev r2 using all False s2 D i st ok1 p1 mem iD
        by (simp add: resume_none transferring_def f1_def)
    qed
  qed
qed

lemma transferring_chunks:
  assumes "0 < cs" "offer_for bs cs offer" "transferring bs cs offer D s" "\<forall>i\<in>set is. i < chunkCount (length bs) cs"
  shows "transferring bs cs offer (D \<union> set is) (fr_run ops hash (concat (map (chunk_events bs cs (fo_fileId offer)) is)) s)"
  using assms(3,4)
proof (induction "is" arbitrary: D s)
  case (Cons i "is")
  have "transferring bs cs offer (insert i D) (fr_run ops hash (chunk_events bs cs (fo_fileId offer) i) s)"
    by (rule transferring_chunk [OF assms(1,2) Cons.prems(1)]) (use Cons.prems(2) in simp)
  from Cons.IH [OF this] Cons.prems(2) show ?case by (simp add: fr_run_def)
qed (simp add: fr_run_def)

lemma transferring_start:
  assumes "offer_for bs cs offer" "0 < cs" "bs \<noteq> []" "ok k" "parts k = Map.empty"
  shows "transferring bs cs offer {} (fr_run ops hash [EvOffer offer, EvResume 0 (Some k)] FileReceiver)"
proof -
  have n: "0 < chunkCount (length bs) cs" using assms(2,3) chunkCount_le [of cs "length bs" 0] by (cases "chunkCount (length bs) cs") auto
  then have "\<not> fr_all \<lparr>rf_offer = offer, rf_sink = Some k, rf_received = [], rf_transferred = 0, rf_buffer = [], rf_ready = True\<rparr>"
    using assms(1) by (simp add: fr_all_def offer_for_def)
  moreover have "{} \<noteq> {..<chunkCount (length bs) cs}" using n by auto
  ultimately show ?thesis using n assms(4,5)
    by (simp add: fr_run_def fr_step_def onOffer_def FileReceiver_def fr_go_def Let_def transferring_def fr_update_def
        fr_spawn_def fun_eq_iff)
qed

text \<open>
  Every chunk arrives at least once, in any order and with any repetitions, each handled to the end: the
  transfer ends once, with the verdict on the file, and the sink was finalized with the file's chunks.
\<close>

lemma transfer_ends:
  assumes "offer_for bs cs offer" "0 < cs" "bs \<noteq> []" "ok k" "parts k = Map.empty"
    and "set is = {..<chunkCount (length bs) cs}"
    and "s = fr_run ops hash ([EvOffer offer, EvResume 0 (Some k)] @ concat (map (chunk_events bs cs (fo_fileId offer)) is)) FileReceiver"
  shows "fr_outcomes s = [verdict hash bs offer]"
    and "\<exists>f k1 k2. fr_heap s = [f] \<and> rf_sink f = Some k2 \<and> ok k1 \<and> parts k1 = map_of (tiling bs cs)
      \<and> sk_finalize ops hash k1 = Some (hash bs, k2)"
  using transferring_chunks [OF assms(2,1) transferring_start [OF assms(1-5)], of "is"] assms(6,7)
  by (simp_all add: fr_run_def transferring_def)

end

subsection \<open>The sender's pool\<close>

fun held :: "sworker \<Rightarrow> nat list" where
  "held (SSending i _) = [i]"
| "held (SBackoff i _ _) = [i]"
| "held (SFailed i) = [i]"
| "held _ = []"

definition in_hand :: "sender \<Rightarrow> nat multiset" where
  "in_hand s = mset (concat (map held (se_workers s)))"

fun tries_ok :: "sparams \<Rightarrow> nat list \<Rightarrow> sworker \<Rightarrow> bool" where
  "tries_ok p frames (SSending i n) = (n \<le> sp_maxRetries p \<and> count_list frames i = n + 1)"
| "tries_ok p frames (SBackoff i n _) = (n \<le> sp_maxRetries p \<and> count_list frames i = n)"
| "tries_ok p frames (SFailed i) = (count_list frames i \<le> sp_maxRetries p + 1)"
| "tries_ok p frames _ = True"

text \<open>
  Every index taken from the counter is acknowledged or in the hands of exactly one worker; progress is
  the acknowledged bytes; a chunk is sent at most once plus the retries.
\<close>

definition se_inv :: "sparams \<Rightarrow> nat \<Rightarrow> sender \<Rightarrow> bool" where
  "se_inv p window s = (
     length (se_workers s) = min window (sp_chunks p)
     \<and> mset (se_acked s) + in_hand s = mset [0..<min (se_next s) (sp_chunks p)]
     \<and> se_chunksDone s = length (se_acked s)
     \<and> se_transferred s = sum_list (map (chunk_len (sp_size p) (sp_chunkSize p)) (se_acked s))
     \<and> (\<forall>w\<in>set (se_workers s). tries_ok p (se_frames s) w) \<and> (\<forall>i\<in>set (se_acked s). count_list (se_frames s) i \<le> sp_maxRetries p + 1)
     \<and> (\<forall>i. se_next s \<le> i \<longrightarrow> count_list (se_frames s) i = 0)
     \<and> (SDone \<in> set (se_workers s) \<longrightarrow> sp_chunks p \<le> se_next s))"

lemma in_hand_update:
  assumes "w < length (se_workers s)"
  shows "in_hand (set_worker w st s) + mset (held (se_workers s ! w)) = in_hand s + mset (held st)"
proof -
  let ?ws = "se_workers s"
  have a: "?ws = take w ?ws @ ?ws ! w # drop (Suc w) ?ws" using id_take_nth_drop [OF assms] .
  have b: "?ws[w := st] = take w ?ws @ st # drop (Suc w) ?ws" by (rule upd_conv_take_nth_drop [OF assms])
  have "mset (concat (map held ?ws)) = mset (concat (map held (take w ?ws))) + mset (held (?ws ! w)) + mset (concat (map held (drop (Suc w) ?ws)))"
    by (subst a) simp
  moreover have "mset (concat (map held (?ws[w := st]))) = mset (concat (map held (take w ?ws))) + mset (held st) + mset (concat (map held (drop (Suc w) ?ws)))"
    unfolding b by simp
  ultimately show ?thesis by (simp add: in_hand_def set_worker_def)
qed

lemma se_sel [simp]:
  "se_next (set_worker w st s) = se_next s" "se_transferred (set_worker w st s) = se_transferred s"
  "se_chunksDone (set_worker w st s) = se_chunksDone s" "se_acked (set_worker w st s) = se_acked s"
  "se_frames (set_worker w st s) = se_frames s" "se_workers (set_worker w st s) = (se_workers s)[w := st]"
  by (simp_all add: set_worker_def)

lemma in_hand_cong [simp]:
  "in_hand (s\<lparr>se_next := a\<rparr>) = in_hand s" "in_hand (s\<lparr>se_frames := fr\<rparr>) = in_hand s"
  "in_hand (s\<lparr>se_transferred := b, se_chunksDone := c, se_acked := d\<rparr>) = in_hand s"
  "in_hand (s\<lparr>se_next := a, se_frames := fr\<rparr>) = in_hand s"
  by (simp_all add: in_hand_def)

lemma held_mem: "w \<in> set (se_workers s) \<Longrightarrow> i \<in> set (held w) \<Longrightarrow> i \<in># in_hand s"
  by (auto simp: in_hand_def)

lemma tries_cong:
  "(\<And>i. i \<in> set (held w) \<Longrightarrow> count_list fr' i = count_list fr i) \<Longrightarrow> tries_ok p fr' w = tries_ok p fr w"
  by (cases w) auto

text \<open>No other worker holds what one worker holds.\<close>

lemma held_once:
  assumes inv: "se_inv p window s" and w: "w < length (se_workers s)" "i \<in> set (held (se_workers s ! w))"
  shows "i < se_next s" "i < sp_chunks p" "i \<notin> set (se_acked s)"
    and "v < length (se_workers s) \<Longrightarrow> i \<in> set (held (se_workers s ! v)) \<Longrightarrow> v = w"
proof -
  have eq: "mset (se_acked s) + in_hand s = mset [0..<min (se_next s) (sp_chunks p)]" using inv by (simp add: se_inv_def)
  have i: "i \<in># in_hand s" by (rule held_mem [OF nth_mem [OF w(1)] w(2)])
  then have m: "i \<in># mset [0..<min (se_next s) (sp_chunks p)]" unfolding eq [symmetric] by simp
  then show "i < se_next s" "i < sp_chunks p" by simp_all
  have c: "count (mset (se_acked s)) i + count (in_hand s) i = 1"
    using m by (metis count_union eq distinct_count_atmost_1 distinct_upt set_mset_mset)
  with i show "i \<notin> set (se_acked s)"
    by (metis One_nat_def add_is_1 count_greater_zero_iff less_nat_zero_code set_mset_mset zero_neq_one)
  show "v = w" if v: "v < length (se_workers s)" "i \<in> set (held (se_workers s ! v))"
  proof (rule ccontr)
    assume "v \<noteq> w"
    let ?s = "set_worker w SNext s"
    have "se_workers s ! v \<in> set (se_workers ?s)"
      using v(1) \<open>v \<noteq> w\<close> by (metis length_list_update nth_list_update_neq nth_mem se_sel(6))
    then have "i \<in># in_hand ?s" using v(2) by (rule held_mem)
    moreover have "in_hand ?s + mset (held (se_workers s ! w)) = in_hand s" using in_hand_update [OF w(1), of SNext] by simp
    then have "count (in_hand ?s) i + count (mset (held (se_workers s ! w))) i = count (in_hand s) i" by (metis count_union)
    moreover have "0 < count (mset (held (se_workers s ! w))) i" using w(2) by simp
    moreover have "0 < count (in_hand ?s) i" using calculation(1) by simp
    ultimately show False using c by simp
  qed
qed

lemma tries_others:
  assumes "se_inv p window s" "w < length (se_workers s)" "i \<in> set (held (se_workers s ! w))"
    and "v < length (se_workers s)" "v \<noteq> w"
  shows "tries_ok p (se_frames s @ [i]) (se_workers s ! v) = tries_ok p (se_frames s) (se_workers s ! v)"
  by (rule tries_cong) (use held_once(4) [OF assms(1-4)] assms(5) in \<open>force simp: count_list_append\<close>)

lemma all_workers_update:
  "w < length ws \<Longrightarrow> (\<forall>x\<in>set (ws[w := st]). P x) \<longleftrightarrow> P st \<and> (\<forall>v<length ws. v \<noteq> w \<longrightarrow> P (ws ! v))"
  by (auto simp: all_set_conv_all_nth nth_list_update)

lemma se_inv_step:
  assumes inv: "se_inv p window s"
  shows "se_inv p window (se_step p s ev)"
proof -
  note I = inv [unfolded se_inv_def]
  have T: "v < length (se_workers s) \<Longrightarrow> tries_ok p (se_frames s) (se_workers s ! v)" for v using I by auto
  show ?thesis
  proof (cases ev)
    case (Run w)
    show ?thesis
    proof (cases "w < length (se_workers s) \<and> se_workers s ! w = SNext")
      case True
      then have w: "w < length (se_workers s)" and n: "se_workers s ! w = SNext" by auto
      show ?thesis
      proof (cases "sp_chunks p \<le> se_next s")
        case past: True
        let ?t = "set_worker w SDone (s\<lparr>se_next := se_next s + 1\<rparr>)"
        have e: "se_step p s ev = ?t" using True past by (simp add: Run se_step_def Let_def)
        have h: "in_hand ?t = in_hand s" using in_hand_update [of w "s\<lparr>se_next := se_next s + 1\<rparr>" SDone] w n by simp
        show ?thesis unfolding e se_inv_def h using I past w T
          by (auto simp: all_workers_update min_def dest: in_set_conv_nth [THEN iffD1])
      next
        case False
        let ?i = "se_next s"
        let ?s1 = "s\<lparr>se_next := ?i + 1, se_frames := se_frames s @ [?i]\<rparr>"
        let ?t = "set_worker w (SSending ?i 0) ?s1"
        have e: "se_step p s ev = ?t" using True False by (simp add: Run se_step_def Let_def)
        have h: "in_hand ?t = in_hand s + {#?i#}" using in_hand_update [of w ?s1 "SSending ?i 0"] w n by simp
        have eq: "mset (se_acked s) + in_hand ?t = mset [0..<min (se_next ?t) (sp_chunks p)]"
          unfolding h using I False by (simp add: min_def not_le Suc_le_eq)
        have c0: "count_list (se_frames s) ?i = 0" using I by simp
        have ni: "?i \<notin> set (held (se_workers s ! v))" if "v < length (se_workers s)" for v
          using held_once(1) [OF inv that] by blast
        have oth: "tries_ok p (se_frames s @ [?i]) (se_workers s ! v)" if "v < length (se_workers s)" for v
        proof -
          have "tries_ok p (se_frames s @ [?i]) (se_workers s ! v) = tries_ok p (se_frames s) (se_workers s ! v)"
            by (rule tries_cong) (use ni [OF that] in auto)
          then show ?thesis using T [OF that] by simp
        qed
        have na: "?i \<notin> set (se_acked s)"
        proof
          assume "?i \<in> set (se_acked s)"
          then have "?i \<in># mset (se_acked s) + in_hand s" by simp
          moreover have "mset (se_acked s) + in_hand s = mset [0..<min ?i (sp_chunks p)]" using I by simp
          ultimately show False by simp
        qed
        have nd: "SDone \<notin> set (se_workers ?t)" using I False w by (auto dest: set_update_subset_insert [THEN subsetD])
        show ?thesis unfolding e se_inv_def
        proof (intro conjI)
          show "mset (se_acked ?t) + in_hand ?t = mset [0..<min (se_next ?t) (sp_chunks p)]" using eq by simp
          show "\<forall>x\<in>set (se_workers ?t). tries_ok p (se_frames ?t) x" using oth w c0 by (simp add: all_workers_update)
          show "SDone \<in> set (se_workers ?t) \<longrightarrow> sp_chunks p \<le> se_next ?t" using nd by blast
        qed (use I na in auto)
      qed
    next
      case False
      then show ?thesis using inv by (auto simp: Run se_step_def)
    qed
  next
    case (Acked w)
    show ?thesis
    proof (cases "w < length (se_workers s) \<and> (\<exists>i n. se_workers s ! w = SSending i n)")
      case True
      then obtain i n where w: "w < length (se_workers s)" and wi: "se_workers s ! w = SSending i n" by blast
      let ?s1 = "s\<lparr>se_transferred := se_transferred s + chunk_len (sp_size p) (sp_chunkSize p) i,
        se_chunksDone := se_chunksDone s + 1, se_acked := se_acked s @ [i]\<rparr>"
      let ?t = "set_worker w SNext ?s1"
      have e: "se_step p s ev = ?t" using w wi by (simp add: Acked se_step_def Let_def chunk_len_def)
      have h: "in_hand ?t + {#i#} = in_hand s" using in_hand_update [of w ?s1 SNext] w wi by simp
      then have h2: "mset (se_acked ?t) + in_hand ?t = mset (se_acked s) + in_hand s" by (simp flip: h)
      have nd: "SDone \<in> set (se_workers ?t) \<longrightarrow> SDone \<in> set (se_workers s)" by (auto dest: set_update_subset_insert [THEN subsetD])
      show ?thesis unfolding e se_inv_def h2 using I w T T [OF w] nd wi by (auto simp: all_workers_update)
    next
      case False
      then have "se_step p s ev = s" by (auto simp: Acked se_step_def split: sworker.splits)
      then show ?thesis using inv by simp
    qed
  next
    case (TimedOut w)
    show ?thesis
    proof (cases "w < length (se_workers s) \<and> (\<exists>i n. se_workers s ! w = SSending i n)")
      case True
      then obtain i n where w: "w < length (se_workers s)" and wi: "se_workers s ! w = SSending i n" by blast
      define st where "st = (if sp_maxRetries p \<le> n then SFailed i else SBackoff i (n + 1) (sp_backoffMs p * 2 ^ n))"
      have e: "se_step p s ev = set_worker w st s" using w wi by (simp add: TimedOut se_step_def st_def)
      have "held st = [i]" by (simp add: st_def)
      then have h: "in_hand (set_worker w st s) = in_hand s" using in_hand_update [of w s st] w wi by simp
      have nd: "SDone \<in> set ((se_workers s)[w := st]) \<longrightarrow> SDone \<in> set (se_workers s)"
        by (auto simp: st_def dest: set_update_subset_insert [THEN subsetD])
      have "tries_ok p (se_frames s) st" using T [OF w] wi by (auto simp: st_def)
      then show ?thesis unfolding e se_inv_def h using I w T nd by (auto simp: all_workers_update)
    next
      case False
      then have "se_step p s ev = s" by (auto simp: TimedOut se_step_def split: sworker.splits)
      then show ?thesis using inv by simp
    qed
  next
    case (ChannelError w)
    show ?thesis
    proof (cases "w < length (se_workers s) \<and> (\<exists>i n. se_workers s ! w = SSending i n)")
      case True
      then obtain i n where w: "w < length (se_workers s)" and wi: "se_workers s ! w = SSending i n" by blast
      have e: "se_step p s ev = set_worker w (SFailed i) s" using w wi by (simp add: ChannelError se_step_def)
      have h: "in_hand (set_worker w (SFailed i) s) = in_hand s" using in_hand_update [of w s "SFailed i"] w wi by simp
      have nd: "SDone \<in> set ((se_workers s)[w := SFailed i]) \<longrightarrow> SDone \<in> set (se_workers s)"
        by (auto dest: set_update_subset_insert [THEN subsetD])
      show ?thesis unfolding e se_inv_def h using I w T T [OF w] wi nd by (auto simp: all_workers_update)
    next
      case False
      then have "se_step p s ev = s" by (auto simp: ChannelError se_step_def split: sworker.splits)
      then show ?thesis using inv by simp
    qed
  next
    case (Wake w)
    show ?thesis
    proof (cases "w < length (se_workers s) \<and> (\<exists>i n d. se_workers s ! w = SBackoff i n d)")
      case True
      then obtain i n d where w: "w < length (se_workers s)" and wi: "se_workers s ! w = SBackoff i n d" by blast
      let ?s1 = "s\<lparr>se_frames := se_frames s @ [i]\<rparr>"
      let ?t = "set_worker w (SSending i n) ?s1"
      have e: "se_step p s ev = ?t" using w wi by (simp add: Wake se_step_def)
      have h: "in_hand ?t = in_hand s" using in_hand_update [of w ?s1 "SSending i n"] w wi by simp
      have ih: "i \<in> set (held (se_workers s ! w))" using wi by simp
      note once = held_once [OF inv w ih]
      have nd: "SDone \<in> set (se_workers ?t) \<longrightarrow> SDone \<in> set (se_workers s)" by (auto dest: set_update_subset_insert [THEN subsetD])
      have "tries_ok p (se_frames s @ [i]) (SSending i n)" using T [OF w] wi by simp
      moreover have "tries_ok p (se_frames s @ [i]) (se_workers s ! v)" if "v < length (se_workers s)" "v \<noteq> w" for v
        using tries_others [OF inv w ih that] T [OF that(1)] by simp
      ultimately have "\<forall>x\<in>set (se_workers ?t). tries_ok p (se_frames ?t) x" using w by (simp add: all_workers_update)
      moreover have "\<forall>j\<in>set (se_acked s). count_list (se_frames s @ [i]) j \<le> sp_maxRetries p + 1" using I once(3) by auto
      moreover have "\<forall>j. se_next s \<le> j \<longrightarrow> count_list (se_frames s @ [i]) j = 0" using I once(1) by auto
      ultimately show ?thesis unfolding e se_inv_def h using I nd by simp
    next
      case False
      then have "se_step p s ev = s" by (auto simp: Wake se_step_def split: sworker.splits)
      then show ?thesis using inv by simp
    qed
  qed
qed

lemma se_inv_init: "se_inv p window (sender_init p window)"
  by (simp add: se_inv_def sender_init_def in_hand_def)

lemma se_inv_run: "se_inv p window s \<Longrightarrow> se_inv p window (se_run p evs s)"
  by (induction evs arbitrary: s) (simp_all add: se_run_def se_inv_step)

text \<open>When every worker has returned, every chunk was acknowledged once and the whole size transferred.\<close>

lemma sender_tries:
  assumes "se_inv p window s" "i < sp_chunks p"
  shows "count_list (se_frames s) i \<le> sp_maxRetries p + 1"
proof (cases "i < se_next s")
  case True
  then have "i \<in># mset (se_acked s) + in_hand s" using assms by (simp add: se_inv_def)
  then consider "i \<in> set (se_acked s)" | w where "w \<in> set (se_workers s)" "i \<in> set (held w)"
    by (auto simp: in_hand_def)
  then show ?thesis
  proof cases
    case 2
    then have "tries_ok p (se_frames s) w" using assms(1) by (simp add: se_inv_def)
    then show ?thesis using 2(2) by (cases w) simp_all
  qed (use assms(1) in \<open>simp add: se_inv_def\<close>)
next
  case False
  then show ?thesis using assms(1) by (simp add: se_inv_def)
qed

lemma offer_of_for: "offer_for (fs_bytes src) (opt_chunkSize o1) (offer_of hash o1 src fileId now)"
  by (simp add: offer_for_def offer_of_def fs_size_def)

lemma chunk_frame_bytes: "chunk_frame o1 src fileId i =
    FileChunkFrame fileId (of_nat i) (b64uEncode (chunk_bytes (fs_bytes src) (opt_chunkSize o1) i))"
  by (simp add: chunk_frame_def Let_def fs_readChunk_def chunk_bytes_def fs_size_def)

lemma sender_done:
  assumes inv: "se_inv p window s" and cs: "0 < sp_chunkSize p" "0 < window"
    and d: "set (se_workers s) \<subseteq> {SDone}"
  shows "mset (se_acked s) = mset [0..<sp_chunks p]" "se_transferred s = sp_size p" "se_chunksDone s = sp_chunks p"
proof -
  note I = inv [unfolded se_inv_def]
  have "in_hand s = {#}" using d by (auto simp: in_hand_def)
  moreover have "sp_chunks p \<le> se_next s"
  proof (cases "sp_chunks p = 0")
    case False
    then have "0 < length (se_workers s)" using I cs by simp
    then have "SDone \<in> set (se_workers s)" using d by (metis length_greater_0_conv list.set_sel(1) singletonD subsetD)
    then show ?thesis using I by blast
  qed simp
  ultimately show a: "mset (se_acked s) = mset [0..<sp_chunks p]" using I by (simp add: min_def)
  then show "se_chunksDone s = sp_chunks p" using I by (metis length_upt minus_nat.diff_0 size_mset)
  have "se_transferred s = sum_list (map (chunk_len (sp_size p) (sp_chunkSize p)) [0..<sp_chunks p])"
    using I a by (metis mset_map sum_mset_sum_list)
  also have "\<dots> = sp_size p" using sum_all_chunks [OF cs(1)] by (simp add: sp_chunks_def interv_sum_list_conv_sum_set_nat atLeast0LessThan)
  finally show "se_transferred s = sp_size p" .
qed

end
