(* ===== verification/WebFiles.thy ===== *)
theory WebFiles
  imports FileTransfer Ice
begin

text \<open>
  The file side of \<open>apps/web/src/orpal/browser-bridge.ts\<close> and of its adapters in \<open>bridge-stores.ts\<close>: the
  files picked for sending, the incoming files reassembled in memory, the images kept for a preview, the
  downloads handed to the user. Random ids, the picked file and object URLs are arguments. The sink an
  incoming file streams into is shown to keep the contract of \<open>file_sink\<close>, so a transfer into it completes.
\<close>

subsection \<open>State\<close>

record picked_file =
  pk_name :: string
  pk_type :: string
  pk_bytes :: bytes

record write_entry =
  we_name :: string
  we_chunks :: "(rat, bytes) jmap"
  we_fileId :: "string option"
  we_mime :: "string option"

record web_files =
  wf_images :: "(string, string \<times> bytes) jmap"
  wf_urls :: "(string, string) jmap"
  wf_picked :: "(string, picked_file) jmap"
  wf_writes :: "(string, write_entry) jmap"
  wf_downloads :: "(string \<times> bytes) list"

definition web_files_init :: web_files where
  "web_files_init = \<lparr>wf_images = [], wf_urls = [], wf_picked = [], wf_writes = [], wf_downloads = []\<rparr>"

subsection \<open>Types of files\<close>

definition MIME_BY_EXT :: "(string, string) jmap" where
  "MIME_BY_EXT =
     [(''txt'', ''text/plain''), (''md'', ''text/markdown''), (''json'', ''application/json''), (''pdf'', ''application/pdf''),
      (''png'', ''image/png''), (''jpg'', ''image/jpeg''), (''jpeg'', ''image/jpeg''), (''gif'', ''image/gif''),
      (''webp'', ''image/webp''), (''mp4'', ''video/mp4''), (''mov'', ''video/quicktime''), (''mp3'', ''audio/mpeg''),
      (''zip'', ''application/zip'')]"

definition extension_of :: "string \<Rightarrow> string" where
  \<comment> \<open>lower case on the ASCII letters, which is where the table has its keys\<close>
  "extension_of name = (if CHR ''.'' \<in> set name
     then map lower (rev (takeWhile (\<lambda>c. c \<noteq> CHR ''.'') (rev name))) else [])"

text \<open>
  The table is an object literal, so the lookup also finds what it inherits: for these two names the result
  is a function or an object, not a string. That case is the left of the sum.
\<close>

definition inherited_names :: "string list" where
  "inherited_names = [''constructor'', ''__proto__'']"

definition mimeFor :: "string \<Rightarrow> string \<Rightarrow> unit + string" where
  "mimeFor name declared =
     (if declared \<noteq> [] then Inr declared
      else let ext = extension_of name
           in case jget MIME_BY_EXT ext of
                Some m \<Rightarrow> Inr m
              | None \<Rightarrow> if ext \<in> set inherited_names then Inl () else Inr ''application/octet-stream'')"

definition isImageMime :: "string \<Rightarrow> bool" where
  "isImageMime mime = (take 6 mime = ''image/'')"

subsection \<open>Sending\<close>

definition pickFile :: "picked_file option \<Rightarrow> string \<Rightarrow> web_files \<Rightarrow> (string \<times> string \<times> nat \<times> (unit + string)) option \<times> web_files" where
  "pickFile chosen path s =
     (case chosen of
        None \<Rightarrow> (None, s)
      | Some file \<Rightarrow> (Some (path, pk_name file, length (pk_bytes file), mimeFor (pk_name file) (pk_type file)),
          s\<lparr>wf_picked := jset path file (wf_picked s)\<rparr>))"

definition openRead :: "string \<Rightarrow> web_files \<Rightarrow> (string \<times> string \<times> nat \<times> (unit + string)) option" where
  "openRead path s = map_option (\<lambda>file. (path, pk_name file, length (pk_bytes file), mimeFor (pk_name file) (pk_type file)))
     (jget (wf_picked s) path)"

definition readChunk :: "string \<Rightarrow> nat \<Rightarrow> nat \<Rightarrow> web_files \<Rightarrow> bytes option" where
  "readChunk handleId offset len s = map_option (\<lambda>file. take len (drop offset (pk_bytes file))) (jget (wf_picked s) handleId)"

definition READ_CHUNK_FOR_HASH :: nat where
  "READ_CHUNK_FOR_HASH = 2 ^ 20"

text \<open>The loop that feeds the hasher: the digest is that of the concatenation of what it was fed.\<close>

function fed_from :: "nat \<Rightarrow> bytes \<Rightarrow> bytes" where
  "fed_from off bs = (if off < length bs
     then take READ_CHUNK_FOR_HASH (drop off bs) @ fed_from (off + READ_CHUNK_FOR_HASH) bs else [])"
  by auto

termination by (relation "measure (\<lambda>(off, bs). length bs - off)") (auto simp: READ_CHUNK_FOR_HASH_def)

declare fed_from.simps [simp del]

definition hashPicked :: "(bytes \<Rightarrow> string) \<Rightarrow> string \<Rightarrow> web_files \<Rightarrow> string option" where
  "hashPicked hash handleId s = map_option (\<lambda>file. hash (fed_from 0 (pk_bytes file))) (jget (wf_picked s) handleId)"

definition closeRead :: "string \<Rightarrow> web_files \<Rightarrow> web_files" where
  "closeRead handleId s = s\<lparr>wf_picked := jdel handleId (wf_picked s)\<rparr>"

lemma fed_all: "fed_from off bs = drop off bs"
proof (induction off bs rule: fed_from.induct)
  case (1 off bs)
  show ?case
  proof (cases "off < length bs")
    case True
    then have "fed_from off bs = take READ_CHUNK_FOR_HASH (drop off bs) @ drop (READ_CHUNK_FOR_HASH + off) bs"
      using 1 by (subst fed_from.simps) (simp add: add.commute)
    also have "\<dots> = drop off bs" by (metis append_take_drop_id drop_drop)
    finally show ?thesis .
  qed (subst fed_from.simps, simp)
qed

lemma hashPicked_eq: "hashPicked hash handleId s = map_option (\<lambda>file. hash (pk_bytes file)) (jget (wf_picked s) handleId)"
  by (simp add: hashPicked_def fed_all)

text \<open>\<open>makeFileSource\<close> of the adapters; a type that is not a string cannot be put in an offer.\<close>

definition makeFileSource :: "string \<Rightarrow> web_files \<Rightarrow> file_source option" where
  "makeFileSource path s = (case openRead path s of
       Some (h, name, _, Inr mime) \<Rightarrow> map_option (\<lambda>file. \<lparr>fs_bytes = pk_bytes file, fs_name = name, fs_mime = mime\<rparr>) (jget (wf_picked s) h)
     | _ \<Rightarrow> None)"

lemma makeFileSource_reads:
  assumes "makeFileSource path s = Some src"
  shows "readChunk path offset len s = Some (fs_readChunk src offset len)"
    and "hashPicked hash path s = Some (hash (fs_bytes src))"
  using assms by (auto simp: makeFileSource_def openRead_def readChunk_def fs_readChunk_def hashPicked_eq split: option.splits sum.splits)

subsection \<open>Receiving\<close>

definition openWrite :: "string \<Rightarrow> string option \<Rightarrow> string option \<Rightarrow> string \<Rightarrow> web_files \<Rightarrow> (string \<times> string) \<times> web_files" where
  "openWrite name fileId mime handleId s =
     ((handleId, name), s\<lparr>wf_writes := jset handleId \<lparr>we_name = name, we_chunks = [], we_fileId = fileId, we_mime = mime\<rparr> (wf_writes s)\<rparr>)"

definition writeChunk :: "string \<Rightarrow> rat \<Rightarrow> bytes \<Rightarrow> web_files \<Rightarrow> web_files option" where
  "writeChunk handleId offset data s =
     (case jget (wf_writes s) handleId of
        None \<Rightarrow> None
      | Some entry \<Rightarrow> Some (s\<lparr>wf_writes := jset handleId (entry\<lparr>we_chunks := jset offset data (we_chunks entry)\<rparr>) (wf_writes s)\<rparr>))"

definition assemble :: "write_entry \<Rightarrow> bytes option" where
  "assemble entry =
     (let offsets = sort (jkeys (we_chunks entry));
          chunk = (\<lambda>off. or_default (jget (we_chunks entry) off) []);
          total = fold (\<lambda>off t. max t (off + of_nat (length (chunk off)))) offsets 0
      in set_all (map (\<lambda>off. (off, chunk off)) offsets) (replicate (nat \<lfloor>total\<rfloor>) 0))"

definition triggerDownload :: "string \<Rightarrow> bytes \<Rightarrow> web_files \<Rightarrow> web_files" where
  "triggerDownload name bytes s = s\<lparr>wf_downloads := wf_downloads s @ [(name, bytes)]\<rparr>"

definition finalizeWrite :: "(bytes \<Rightarrow> string) \<Rightarrow> string \<Rightarrow> web_files \<Rightarrow> (string \<times> string) option \<times> web_files" where
  "finalizeWrite hash handleId s =
     (case jget (wf_writes s) handleId of
        None \<Rightarrow> (None, s)
      | Some entry \<Rightarrow>
          (let s1 = s\<lparr>wf_writes := jdel handleId (wf_writes s)\<rparr>
           in case assemble entry of
                None \<Rightarrow> (None, s1)
              | Some bytes \<Rightarrow>
                  (let fid = or_default (we_fileId entry) []; mime = or_default (we_mime entry) []
                   in (Some (hash bytes, we_name entry),
                       if fid \<noteq> [] \<and> mime \<noteq> [] \<and> isImageMime mime then s1\<lparr>wf_images := jset fid (mime, bytes) (wf_images s1)\<rparr>
                       else triggerDownload (we_name entry) bytes s1))))"

definition abortWrite :: "string \<Rightarrow> web_files \<Rightarrow> web_files" where
  "abortWrite handleId s = s\<lparr>wf_writes := jdel handleId (wf_writes s)\<rparr>"

definition imageObjectUrl :: "string \<Rightarrow> string \<Rightarrow> web_files \<Rightarrow> string option \<times> web_files" where
  "imageObjectUrl fileId fresh s =
     (case jget (wf_urls s) fileId of
        Some cached \<Rightarrow> (Some cached, s)
      | None \<Rightarrow> (case jget (wf_images s) fileId of
          None \<Rightarrow> (None, s)
        | Some blob \<Rightarrow> (Some fresh, s\<lparr>wf_urls := jset fileId fresh (wf_urls s)\<rparr>)))"

definition retainOutgoingImage :: "string \<Rightarrow> string \<Rightarrow> string \<Rightarrow> web_files \<Rightarrow> web_files" where
  "retainOutgoingImage fileId path mime s =
     (if \<not> isImageMime mime then s
      else case jget (wf_picked s) path of
             None \<Rightarrow> s
           | Some file \<Rightarrow> s\<lparr>wf_images := jset fileId (pk_type file, pk_bytes file) (wf_images s)\<rparr>)"

definition saveText :: "string \<Rightarrow> string \<Rightarrow> web_files \<Rightarrow> web_files" where
  "saveText name text s = triggerDownload name (utf8 text) s"

subsection \<open>The sink of an incoming file\<close>

definition incoming_sink :: "string \<Rightarrow> web_files sink_ops" where
  "incoming_sink h = \<lparr>sk_writeChunk = writeChunk h,
     sk_finalize = (\<lambda>hash s. case finalizeWrite hash h s of (Some (sha, path), s1) \<Rightarrow> Some (sha, s1) | (None, s1) \<Rightarrow> None),
     sk_abort = abortWrite h\<rparr>"

definition createIncomingFileSink :: "file_offer \<Rightarrow> string \<Rightarrow> web_files \<Rightarrow> (web_files sink_ops \<times> string) \<times> web_files" where
  "createIncomingFileSink offer uuid s =
     (case openWrite (fo_name offer) (Some (fo_fileId offer)) (Some (fo_mime offer)) uuid s of
        ((h, path), s1) \<Rightarrow> ((incoming_sink h, path), s1))"

definition entry_parts :: "string \<Rightarrow> web_files \<Rightarrow> rat \<Rightarrow> bytes option" where
  "entry_parts h s = (case jget (wf_writes s) h of None \<Rightarrow> Map.empty | Some e \<Rightarrow> map_of (we_chunks e))"

definition entry_ok :: "string \<Rightarrow> file_offer \<Rightarrow> web_files \<Rightarrow> bool" where
  "entry_ok h offer s = (\<exists>e. jget (wf_writes s) h = Some e \<and> jmap_ok (we_chunks e) \<and> we_name e = fo_name offer
     \<and> we_fileId e = Some (fo_fileId offer) \<and> we_mime e = Some (fo_mime offer))"

text \<open>\<open>assemble\<close> of the chunks that tile a file is the file.\<close>

lemma tiling_total:
  assumes "0 < cs" "m \<le> chunkCount (length bs) cs"
  shows "fold (\<lambda>i t. max t (of_nat (i * cs) + of_nat (chunk_len (length bs) cs i))) [0..<m] (0 :: rat) = of_nat (min (m * cs) (length bs))"
  using assms(2)
proof (induction m)
  case (Suc m)
  then have lt: "m * cs < length bs" using chunkCount_lt [OF assms(1)] by simp
  have "fold (\<lambda>i t. max t (of_nat (i * cs) + of_nat (chunk_len (length bs) cs i))) [0..<Suc m] (0 :: rat) =
      max (of_nat (min (m * cs) (length bs))) (of_nat (m * cs + chunk_len (length bs) cs m))"
    using Suc by simp
  also have "\<dots> = of_nat (max (min (m * cs) (length bs)) (m * cs + chunk_len (length bs) cs m))" by (simp only: of_nat_max)
  also have "max (min (m * cs) (length bs)) (m * cs + chunk_len (length bs) cs m) = min (Suc m * cs) (length bs)"
    using lt by (simp add: chunk_len_def)
  finally show ?case .
qed simp

lemma assemble_tiling:
  assumes ok: "jmap_ok (we_chunks e)" and cs: "0 < cs" and t: "map_of (we_chunks e) = map_of (tiling bs cs)"
  shows "assemble e = Some bs"
proof -
  let ?n = "chunkCount (length bs) cs"
  have d: "distinct (map fst (we_chunks e))" using ok by (simp add: jmap_ok_def)
  have "set (we_chunks e) = set (tiling bs cs)" using t d distinct_tiling [OF cs] map_of_inject_set by blast
  then have "mset (we_chunks e) = mset (tiling bs cs)"
    using d distinct_tiling [OF cs] by (simp add: distinct_map set_eq_iff_mset_eq_distinct)
  then have "mset (jkeys (we_chunks e)) = mset (map fst (tiling bs cs))" by (simp add: jkeys_def)
  then have offs: "sort (jkeys (we_chunks e)) = map fst (tiling bs cs)"
    using properties_for_sort sorted_tiling [OF cs] by metis
  have ch: "or_default (jget (we_chunks e) (of_nat (i * cs))) [] = chunk_bytes bs cs i" if "i < ?n" for i
    using that by (simp only: t map_of_tiling [OF cs]) simp
  have fsts: "map fst (tiling bs cs) = map (\<lambda>i. of_nat (i * cs)) [0..<?n]" by (simp add: tiling_def)
  have maps: "map (\<lambda>off. (off, or_default (jget (we_chunks e) off) [])) (map fst (tiling bs cs)) = tiling bs cs"
    unfolding fsts using ch by (simp add: tiling_def del: of_nat_mult)
  have "fold (\<lambda>off t. max t (off + of_nat (length (or_default (jget (we_chunks e) off) [])))) (map fst (tiling bs cs)) (0 :: rat) =
      fold (\<lambda>i t. max t (of_nat (i * cs) + of_nat (chunk_len (length bs) cs i))) [0..<?n] 0"
    unfolding fsts fold_map comp_def by (rule fold_cong) (use ch in \<open>simp_all del: of_nat_mult\<close>)
  also have "\<dots> = of_nat (length bs)"
    using chunkCount_le [OF cs order_refl, of "length bs"] by (simp only: tiling_total [OF cs order_refl] min_absorb2)
  finally have total: "fold (\<lambda>off t. max t (off + of_nat (length (or_default (jget (we_chunks e) off) [])))) (map fst (tiling bs cs)) (0 :: rat) =
      of_nat (length bs)" .
  have "set_all (tiling bs cs) (replicate (length bs) 0) = Some bs"
    using set_all_tiling [OF cs order_refl, of bs] chunkCount_le [OF cs order_refl, of "length bs"] by (simp add: tiling_def)
  then show ?thesis unfolding assemble_def Let_def offs total maps by simp
qed

interpretation web_sink: file_sink "incoming_sink h" hash "entry_parts h" "entry_ok h offer" for h offer hash
proof
  fix off :: rat and data bs :: bytes and k k' :: web_files and cs :: nat
  show "\<exists>k'. sk_writeChunk (incoming_sink h) off data k = Some k'" if "entry_ok h offer k"
    using that by (auto simp: incoming_sink_def writeChunk_def entry_ok_def)
  show "entry_parts h k' = (entry_parts h k)(off \<mapsto> data)" if "sk_writeChunk (incoming_sink h) off data k = Some k'"
    using that by (auto simp: incoming_sink_def writeChunk_def entry_parts_def fun_eq_iff split: option.splits)
  show "entry_ok h offer k'" if "sk_writeChunk (incoming_sink h) off data k = Some k'" "entry_ok h offer k"
    using that by (auto simp: incoming_sink_def writeChunk_def entry_ok_def)
  show "\<exists>k'. sk_finalize (incoming_sink h) hash k = Some (hash bs, k')" if k: "entry_ok h offer k" "0 < cs"
    "entry_parts h k = map_of (tiling bs cs)"
  proof -
    obtain e where e: "jget (wf_writes k) h = Some e" "jmap_ok (we_chunks e)" using k(1) by (auto simp: entry_ok_def)
    then have "assemble e = Some bs" using assemble_tiling [OF e(2) k(2)] k(3) by (simp add: entry_parts_def)
    then show ?thesis using e by (simp add: incoming_sink_def finalizeWrite_def Let_def)
  qed
qed

lemma created_sink:
  assumes "createIncomingFileSink offer uuid s = ((sink, path), s1)"
  shows "sink = incoming_sink uuid" "entry_ok uuid offer s1" "entry_parts uuid s1 = Map.empty"
  using assms by (auto simp: createIncomingFileSink_def openWrite_def entry_ok_def entry_parts_def)

definition delivered :: "string \<Rightarrow> file_offer \<Rightarrow> bytes \<Rightarrow> web_files \<Rightarrow> bool" where
  \<comment> \<open>the user has these bytes: a download was triggered, or the image is kept for the preview\<close>
  "delivered h offer bs s = (jget (wf_writes s) h = None \<and>
     (if fo_fileId offer \<noteq> [] \<and> isImageMime (fo_mime offer) then jget (wf_images s) (fo_fileId offer) = Some (fo_mime offer, bs)
      else wf_downloads s \<noteq> [] \<and> last (wf_downloads s) = (fo_name offer, bs)))"

lemma finalize_delivers:
  assumes "entry_ok h offer s" "0 < cs" "entry_parts h s = map_of (tiling bs cs)"
    and "sk_finalize (incoming_sink h) hash s = Some (hash bs, s1)"
  shows "delivered h offer bs s1"
proof -
  obtain e where e: "jget (wf_writes s) h = Some e" "jmap_ok (we_chunks e)" "we_name e = fo_name offer"
    "we_fileId e = Some (fo_fileId offer)" "we_mime e = Some (fo_mime offer)"
    using assms(1) by (auto simp: entry_ok_def)
  have "assemble e = Some bs" using assemble_tiling [OF e(2) assms(2)] assms(3) e(1) by (simp add: entry_parts_def)
  with e assms(4) show ?thesis
    by (auto simp: incoming_sink_def finalizeWrite_def Let_def delivered_def triggerDownload_def isImageMime_def split: if_splits)
qed

text \<open>A whole transfer into the browser: the bytes reach the user, whatever the verdict on them is.\<close>

lemma transfer_into_browser:
  assumes off: "offer_for bs cs offer" and cs: "0 < cs" and ne: "bs \<noteq> []"
    and c: "createIncomingFileSink offer h w = ((sink, path), w1)" and all: "set is = {..<chunkCount (length bs) cs}"
    and r: "r = fr_run sink hash ([EvOffer offer, EvResume 0 (Some w1)] @ concat (map (chunk_events bs cs (fo_fileId offer)) is)) FileReceiver"
  shows "fr_outcomes r = [verdict hash bs offer]" and "\<exists>f w2. fr_heap r = [f] \<and> rf_sink f = Some w2 \<and> delivered h offer bs w2"
proof -
  note k = created_sink [OF c]
  note t = web_sink.transfer_ends [OF off cs ne k(2,3) all r [unfolded k(1)]]
  show "fr_outcomes r = [verdict hash bs offer]" by (rule t(1))
  show "\<exists>f w2. fr_heap r = [f] \<and> rf_sink f = Some w2 \<and> delivered h offer bs w2"
    using t(2) finalize_delivers [OF _ cs] by blast
qed

end
