(* ===== verification/Idb.thy ===== *)
theory Idb
  imports Prelude "HOL-Library.List_Lexorder" "HOL-Library.Char_ord" "HOL-Library.Multiset"
begin

text \<open>
  \<open>apps/web/src/orpal/idb.ts\<close>: the wrapper over IndexedDB. An object store is the list of its records
  in ascending key order, which is the order in which IndexedDB returns them. One call is one transaction;
  a write transaction completes, or it aborts and leaves the store as it was.
\<close>

definition DB_NAME :: string where "DB_NAME = ''orpal''"

definition DB_VERSION :: nat where "DB_VERSION = 2"

definition STORE_KV :: string where "STORE_KV = ''kv''"

definition STORE_CONTACTS :: string where "STORE_CONTACTS = ''contacts''"

definition STORE_MESSAGES :: string where "STORE_MESSAGES = ''messages''"

definition STORE_PENDING :: string where "STORE_PENDING = ''pending''"

subsection \<open>Opening: the schema upgrade\<close>

text \<open>A store of the schema: its name, its key path, its indexes.\<close>

record store_schema =
  ss_keyPath :: "string option"
  ss_indexes :: "(string \<times> string) list"

definition create_if_absent :: "string \<Rightarrow> store_schema \<Rightarrow> (string, store_schema) jmap \<Rightarrow> (string, store_schema) jmap" where
  "create_if_absent nm sc db = (if jhas db nm then db else jset nm sc db)"

definition onupgradeneeded :: "(string, store_schema) jmap \<Rightarrow> (string, store_schema) jmap" where
  "onupgradeneeded db =
     (let db1 = create_if_absent STORE_KV \<lparr>ss_keyPath = None, ss_indexes = []\<rparr> db;
          db2 = create_if_absent STORE_CONTACTS \<lparr>ss_keyPath = Some ''identityKey'', ss_indexes = []\<rparr> db1;
          db3 = create_if_absent STORE_MESSAGES \<lparr>ss_keyPath = Some ''id'', ss_indexes = [(''contactKey'', ''contactKey'')]\<rparr> db2
      in create_if_absent STORE_PENDING \<lparr>ss_keyPath = Some ''messageId'', ss_indexes = []\<rparr> db3)"

lemma create_if_absent_keeps: "jget db k = Some sc \<Longrightarrow> jget (create_if_absent nm sc' db) k = Some sc"
  by (auto simp: create_if_absent_def jhas_def)

lemma create_if_absent_has: "jhas (create_if_absent nm sc db) k = (k = nm \<or> jhas db k)"
  by (auto simp: create_if_absent_def)

text \<open>An upgrade keeps every store of the older version and adds the missing ones; a second one changes nothing.\<close>

lemma upgrade_keeps: "jget db k = Some sc \<Longrightarrow> jget (onupgradeneeded db) k = Some sc"
  by (simp add: onupgradeneeded_def Let_def create_if_absent_keeps)

lemma upgrade_has: "k \<in> {STORE_KV, STORE_CONTACTS, STORE_MESSAGES, STORE_PENDING} \<Longrightarrow> jhas (onupgradeneeded db) k"
  by (auto simp: onupgradeneeded_def Let_def create_if_absent_has)

lemma upgrade_idem: "onupgradeneeded (onupgradeneeded db) = onupgradeneeded db"
  by (simp add: onupgradeneeded_def [of "onupgradeneeded db"] Let_def create_if_absent_def upgrade_has)

subsection \<open>Object stores\<close>

type_synonym 'v obj_store = "(string \<times> 'v) list"

definition store_ok :: "'v obj_store \<Rightarrow> bool" where
  "store_ok st = (sorted (map fst st) \<and> jmap_ok st)"

definition idb_get :: "string \<Rightarrow> 'v obj_store \<Rightarrow> 'v option" where
  "idb_get key st = jget st key"

definition idb_put :: "string \<Rightarrow> 'v \<Rightarrow> 'v obj_store \<Rightarrow> 'v obj_store" where
  "idb_put key v st = insort_key fst (key, v) (jdel key st)"

definition idb_del :: "string \<Rightarrow> 'v obj_store \<Rightarrow> 'v obj_store" where
  "idb_del key st = jdel key st"

definition idb_clearStore :: "'v obj_store \<Rightarrow> 'v obj_store" where
  "idb_clearStore st = []"

definition idb_getAll :: "'v obj_store \<Rightarrow> 'v list" where
  "idb_getAll st = map snd st"

definition idb_getAllByIndex :: "('v \<Rightarrow> string) \<Rightarrow> string \<Rightarrow> 'v obj_store \<Rightarrow> 'v list" where
  \<comment> \<open>records with the same index key come in primary-key order\<close>
  "idb_getAllByIndex index key st = filter (\<lambda>v. index v = key) (map snd st)"

definition txDone :: "string option \<Rightarrow> 's \<Rightarrow> 's \<Rightarrow> string option \<times> 's" where
  \<comment> \<open>the outcome of a write transaction: its error, or its effect\<close>
  "txDone err old new = (case err of None \<Rightarrow> (None, new) | Some e \<Rightarrow> (Some e, old))"

lemma jget_insort: "k \<notin> fst ` set st \<Longrightarrow> jget (insort_key fst (k, v) st) k' = (if k' = k then Some v else jget st k')"
  by (induction st) (auto split: if_splits)

lemma idb_get_put [simp]: "idb_get k' (idb_put k v st) = (if k' = k then Some v else idb_get k' st)"
proof -
  have "k \<notin> set (map fst (jdel k st))" by (simp add: delete_keys del: set_map)
  then have "k \<notin> fst ` set (jdel k st)" by simp
  then show ?thesis by (simp add: idb_get_def idb_put_def jget_insort)
qed

lemma idb_get_del [simp]: "idb_get k' (idb_del k st) = (if k' = k then None else idb_get k' st)"
  by (simp add: idb_get_def idb_del_def)

lemma idb_get_clear [simp]: "idb_get k (idb_clearStore st) = None"
  by (simp add: idb_get_def idb_clearStore_def)

lemma sorted_jdel: "sorted (map fst st) \<Longrightarrow> sorted (map fst (jdel k st))"
  by (simp add: delete_keys removeAll_filter_not_eq sorted_wrt_filter)

lemma store_ok_ops [simp]:
  "store_ok []" "store_ok (idb_clearStore st)" "store_ok st \<Longrightarrow> store_ok (idb_put k v st)"
  "store_ok st \<Longrightarrow> store_ok (idb_del k st)"
proof -
  show "store_ok []" "store_ok (idb_clearStore st)" by (simp_all add: store_ok_def idb_clearStore_def)
  assume ok: "store_ok st"
  have "distinct (map fst (insort_key fst (k, v) (jdel k st)))"
  proof -
    have "distinct (map fst (jdel k st))" "k \<notin> set (map fst (jdel k st))"
      using ok by (simp_all add: store_ok_def jmap_ok_def delete_keys distinct_removeAll del: set_map)
    moreover have "mset (map fst (insort_key fst (k, v) (jdel k st))) = mset (k # map fst (jdel k st))" by simp
    ultimately show ?thesis by (metis distinct.simps(2) mset_eq_imp_distinct_iff)
  qed
  then show "store_ok (idb_put k v st)" using ok
    by (simp add: store_ok_def idb_put_def jmap_ok_def sorted_insort_key sorted_jdel)
  show "store_ok (idb_del k st)" using ok by (simp add: store_ok_def idb_del_def sorted_jdel)
qed

lemma idb_getAll_mem: "store_ok st \<Longrightarrow> v \<in> set (idb_getAll st) \<longleftrightarrow> (\<exists>k. idb_get k st = Some v)"
  using jvals_mem [of st v] by (simp add: store_ok_def idb_getAll_def idb_get_def jvals_def)

text \<open>A store whose records are keyed by a property of theirs.\<close>

definition keyed_by :: "('v \<Rightarrow> string) \<Rightarrow> 'v obj_store \<Rightarrow> bool" where
  "keyed_by path st = (store_ok st \<and> (\<forall>k v. idb_get k st = Some v \<longrightarrow> path v = k))"

lemma keyed_by_mem: "keyed_by path st \<Longrightarrow> v \<in> set (idb_getAll st) \<longleftrightarrow> idb_get (path v) st = Some v"
  by (auto simp: keyed_by_def idb_getAll_mem)

lemma keyed_by_keys: "keyed_by path st \<Longrightarrow> map path (idb_getAll st) = map fst st"
proof -
  assume k: "keyed_by path st"
  have "path v = a" if "(a, v) \<in> set st" for a v
    using k that by (auto simp: keyed_by_def store_ok_def idb_get_def jmap_mem_iff [symmetric])
  then show ?thesis by (auto simp: idb_getAll_def)
qed

lemma keyed_by_distinct: "keyed_by path st \<Longrightarrow> distinct (map path (idb_getAll st))"
  by (simp add: keyed_by_keys) (simp add: keyed_by_def store_ok_def jmap_ok_def)

lemma keyed_by_ops [simp]:
  "keyed_by path []" "keyed_by path (idb_clearStore st)" "keyed_by path st \<Longrightarrow> path v = k \<Longrightarrow> keyed_by path (idb_put k v st)"
  "keyed_by path st \<Longrightarrow> keyed_by path (idb_del k st)"
  by (auto simp: keyed_by_def) (auto simp: idb_get_def)

end
