(* ===== verification/KeyStore.thy ===== *)
theory KeyStore
  imports Identity
begin

text \<open>
  \<open>packages/orpal-core/src/identity/secure-store.ts\<close> and \<open>identity/identity-manager.ts\<close>: where the
  device's private keys live. A key store is a record of operations with the locale \<open>secure_key_store\<close>
  as its contract; the in-memory store and the hardware-backed store over a key slot implement it. The
  secure hardware is third-party: a record of functions, given anew for each call, since its
  availability may change between calls. A thrown error is the left of a sum.
\<close>

record stored_keys =
  sk_signingPrivB64u :: string
  sk_transportPrivB64u :: string
  sk_createdUtc :: string

record secure_envelope =
  sv_v :: rat
  sv_backend :: string
  sv_blob :: string

datatype persisted_keys = Clear stored_keys | Sealed secure_envelope

definition isSecureEnvelope :: "persisted_keys \<Rightarrow> bool" where
  "isSecureEnvelope v = (case v of Sealed _ \<Rightarrow> True | Clear _ \<Rightarrow> False)"

text \<open>The operations of a store: a load may fail; a save may fail, and then leaves what it leaves.\<close>

record ('s, 'v) slot_ops =
  sl_load :: "'s \<Rightarrow> string + 'v option"
  sl_save :: "'v \<Rightarrow> 's \<Rightarrow> string option \<times> 's"
  sl_clear :: "'s \<Rightarrow> string option \<times> 's"

record key_provider =
  kp_backend :: string
  kp_isAvailable :: "string + bool"
  kp_wrap :: "bytes \<Rightarrow> string + bytes"
  kp_unwrap :: "bytes \<Rightarrow> string + bytes"

definition keys_json :: "stored_keys \<Rightarrow> json" where
  "keys_json k = JObj [(''signingPrivB64u'', JStr (sk_signingPrivB64u k)),
     (''transportPrivB64u'', JStr (sk_transportPrivB64u k)), (''createdUtc'', JStr (sk_createdUtc k))]"

definition keys_of_json :: "json \<Rightarrow> stored_keys option" where
  \<comment> \<open>the cast \<open>as StoredKeys\<close>, on values that have the fields\<close>
  "keys_of_json j = (case (jprop j ''signingPrivB64u'', jprop j ''transportPrivB64u'', jprop j ''createdUtc'') of
      (Some (JStr a), Some (JStr b), Some (JStr c)) \<Rightarrow>
        Some \<lparr>sk_signingPrivB64u = a, sk_transportPrivB64u = b, sk_createdUtc = c\<rparr>
    | _ \<Rightarrow> None)"

subsection \<open>The hardware-backed store\<close>

text \<open>The store's state: the slot, and what \<open>onFallback\<close> was told.\<close>

type_synonym 's hw_state = "'s \<times> string list"

definition save_cleartext :: "('s, persisted_keys) slot_ops \<Rightarrow> stored_keys \<Rightarrow> 's hw_state \<Rightarrow> string option \<times> 's hw_state" where
  "save_cleartext slot keys st = (case sl_save slot (Clear keys) (fst st) of (r, s1) \<Rightarrow> (r, (s1, snd st)))"

definition save_sealed ::
  "('s, persisted_keys) slot_ops \<Rightarrow> key_provider \<Rightarrow> stored_keys \<Rightarrow> 's hw_state \<Rightarrow> string option \<times> 's hw_state" where
  \<comment> \<open>the \<open>try\<close> block\<close>
  "save_sealed slot P keys st =
     (case kp_wrap P (utf8 (json_str (keys_json keys))) of
        Inl e \<Rightarrow> (Some e, st)
      | Inr blob \<Rightarrow> (case sl_save slot (Sealed \<lparr>sv_v = 1, sv_backend = kp_backend P, sv_blob = b64uEncode blob\<rparr>) (fst st) of
          (r, s1) \<Rightarrow> (r, (s1, snd st))))"

definition hw_save :: "('s, persisted_keys) slot_ops \<Rightarrow> key_provider option \<Rightarrow> stored_keys \<Rightarrow> 's hw_state \<Rightarrow> string option \<times> 's hw_state" where
  "hw_save slot provider keys st =
     (case provider of
        None \<Rightarrow> save_cleartext slot keys st
      | Some P \<Rightarrow> (case kp_isAvailable P of
          Inl e \<Rightarrow> (Some e, st)
        | Inr False \<Rightarrow> save_cleartext slot keys st
        | Inr True \<Rightarrow> (case save_sealed slot P keys st of
            (None, st1) \<Rightarrow> (None, st1)
          | (Some e, st1) \<Rightarrow> save_cleartext slot keys (fst st1, snd st1 @ [e]))))"

definition resealIfPossible :: "('s, persisted_keys) slot_ops \<Rightarrow> key_provider option \<Rightarrow> stored_keys \<Rightarrow> 's hw_state \<Rightarrow> 's hw_state" where
  "resealIfPossible slot provider keys st =
     (case provider of
        None \<Rightarrow> st
      | Some P \<Rightarrow> (case kp_isAvailable P of
          Inl e \<Rightarrow> (fst st, snd st @ [e])
        | Inr False \<Rightarrow> st
        | Inr True \<Rightarrow> (case hw_save slot provider keys st of
            (None, st1) \<Rightarrow> st1
          | (Some e, st1) \<Rightarrow> (fst st1, snd st1 @ [e]))))"

definition hw_load :: "('s, persisted_keys) slot_ops \<Rightarrow> key_provider option \<Rightarrow> 's hw_state \<Rightarrow> (string + stored_keys option) \<times> 's hw_state" where
  "hw_load slot provider st =
     (case sl_load slot (fst st) of
        Inl e \<Rightarrow> (Inl e, st)
      | Inr None \<Rightarrow> (Inr None, st)
      | Inr (Some (Clear keys)) \<Rightarrow> (Inr (Some keys), resealIfPossible slot provider keys st)
      | Inr (Some (Sealed env)) \<Rightarrow> (case provider of
          None \<Rightarrow> (Inl ''no secure-hardware provider'', st)
        | Some P \<Rightarrow> (case kp_unwrap P (b64uDecode (sv_blob env)) of
            Inl e \<Rightarrow> (Inl e, st)
          | Inr plaintext \<Rightarrow> (case json_parse (fromUtf8 plaintext) of
              None \<Rightarrow> (Inl ''JSON'', st)
            | Some j \<Rightarrow> (case keys_of_json j of
                None \<Rightarrow> (Inl ''keys'', st)
              | Some keys \<Rightarrow> (Inr (Some keys), st))))))"

definition hw_clear :: "('s, persisted_keys) slot_ops \<Rightarrow> 's hw_state \<Rightarrow> string option \<times> 's hw_state" where
  "hw_clear slot st = (case sl_clear slot (fst st) of (r, s1) \<Rightarrow> (r, (s1, snd st)))"

subsection \<open>Loading and creating the identity\<close>

text \<open>
  \<open>IdentityManager\<close> over any key store; a load may change the store (it may seal cleartext keys). The
  fresh random keys and the time are arguments.
\<close>

record 's key_store =
  ks_load :: "'s \<Rightarrow> (string + stored_keys option) \<times> 's"
  ks_save :: "stored_keys \<Rightarrow> 's \<Rightarrow> string option \<times> 's"
  ks_clear :: "'s \<Rightarrow> string option \<times> 's"

definition fromStored :: "crypto \<Rightarrow> stored_keys \<Rightarrow> device_identity" where
  "fromStored C keys = fromPrivateKeys C (b64uDecode (sk_signingPrivB64u keys)) (b64uDecode (sk_transportPrivB64u keys))
     (sk_createdUtc keys)"

definition mintStoredKeys :: "bytes \<Rightarrow> bytes \<Rightarrow> string \<Rightarrow> stored_keys" where
  "mintStoredKeys rndSigning rndTransport createdUtc = \<lparr>sk_signingPrivB64u = b64uEncode rndSigning,
     sk_transportPrivB64u = b64uEncode rndTransport, sk_createdUtc = createdUtc\<rparr>"

definition loadOrCreate ::
  "crypto \<Rightarrow> 's key_store \<Rightarrow> bytes \<Rightarrow> bytes \<Rightarrow> string \<Rightarrow> 's \<Rightarrow> (string + device_identity \<times> bool) \<times> 's" where
  "loadOrCreate C store rs rt now s =
     (case ks_load store s of
        (Inl e, s1) \<Rightarrow> (Inl e, s1)
      | (Inr (Some existing), s1) \<Rightarrow> (Inr (fromStored C existing, False), s1)
      | (Inr None, s1) \<Rightarrow>
          (let stored = mintStoredKeys rs rt now
           in case ks_save store stored s1 of
                (Some e, s2) \<Rightarrow> (Inl e, s2)
              | (None, s2) \<Rightarrow> (Inr (fromStored C stored, True), s2)))"

definition rotate_identity ::
  "crypto \<Rightarrow> 's key_store \<Rightarrow> bytes \<Rightarrow> bytes \<Rightarrow> string \<Rightarrow> 's \<Rightarrow> (string + device_identity) \<times> 's" where
  "rotate_identity C store rs rt now s =
     (case ks_clear store s of
        (Some e, s1) \<Rightarrow> (Inl e, s1)
      | (None, s1) \<Rightarrow>
          (let stored = mintStoredKeys rs rt now
           in case ks_save store stored s1 of
                (Some e, s2) \<Rightarrow> (Inl e, s2)
              | (None, s2) \<Rightarrow> (Inr (fromStored C stored), s2)))"

text \<open>The contract: what was saved is what a later load returns, whatever loads happen in between.\<close>

locale secure_key_store =
  fixes ops :: "'s key_store" and holds :: "stored_keys option \<Rightarrow> 's \<Rightarrow> bool"
  assumes load_holds: "holds k s \<Longrightarrow> fst (ks_load ops s) = Inr k \<and> holds k (snd (ks_load ops s))"
    and save_holds: "holds k s \<Longrightarrow> fst (ks_save ops keys s) = None \<Longrightarrow> holds (Some keys) (snd (ks_save ops keys s))"
    and clear_holds: "holds k s \<Longrightarrow> fst (ks_clear ops s) = None \<Longrightarrow> holds None (snd (ks_clear ops s))"
begin

lemma loadOrCreate_cases:
  assumes "holds k s" "loadOrCreate C ops rs rt now s = (Inr (i, created), s1)"
  shows "created = (k = None) \<and> holds (Some (or_default k (mintStoredKeys rs rt now))) s1
    \<and> i = fromStored C (or_default k (mintStoredKeys rs rt now))"
proof -
  obtain r s0 where l: "ks_load ops s = (r, s0)" by fastforce
  with load_holds [OF assms(1)] have r: "r = Inr k" "holds k s0" by auto
  show ?thesis
  proof (cases k)
    case None
    obtain e s2 where sv: "ks_save ops (mintStoredKeys rs rt now) s0 = (e, s2)" by fastforce
    then have "e = None" "s2 = s1" "i = fromStored C (mintStoredKeys rs rt now)" "created"
      using assms(2) None l r by (auto simp: loadOrCreate_def Let_def split: option.splits)
    then show ?thesis using save_holds [OF r(2), of "mintStoredKeys rs rt now"] sv None by simp
  next
    case (Some x)
    then show ?thesis using assms(2) l r by (auto simp: loadOrCreate_def)
  qed
qed

lemma loadOrCreate_holds:
  assumes "holds (Some keys) s"
  shows "fst (loadOrCreate C ops rs rt now s) = Inr (fromStored C keys, False)"
proof -
  obtain r s2 where l: "ks_load ops s = (r, s2)" by fastforce
  with load_holds [OF assms] have "r = Inr (Some keys)" by simp
  then show ?thesis by (simp add: loadOrCreate_def l)
qed

lemma rotate_replaces:
  assumes "holds k s" "rotate_identity C ops rs rt now s = (Inr i, s1)"
  shows "holds (Some (mintStoredKeys rs rt now)) s1 \<and> i = fromStored C (mintStoredKeys rs rt now)"
proof -
  obtain e0 s0 where c: "ks_clear ops s = (e0, s0)" by fastforce
  obtain e s2 where sv: "ks_save ops (mintStoredKeys rs rt now) s0 = (e, s2)" by fastforce
  have "e0 = None" "e = None" "s2 = s1" "i = fromStored C (mintStoredKeys rs rt now)"
    using assms(2) c sv by (auto simp: rotate_identity_def Let_def split: option.splits)
  then show ?thesis using clear_holds [OF assms(1)] save_holds [of None s0 "mintStoredKeys rs rt now"] c sv by simp
qed

end

subsection \<open>The in-memory store\<close>

definition mk_load :: "stored_keys option \<Rightarrow> (string + stored_keys option) \<times> stored_keys option" where
  "mk_load keys = (Inr keys, keys)"

definition mk_save :: "stored_keys \<Rightarrow> stored_keys option \<Rightarrow> string option \<times> stored_keys option" where
  "mk_save keys old = (None, Some keys)"

definition mk_clear :: "stored_keys option \<Rightarrow> string option \<times> stored_keys option" where
  "mk_clear old = (None, None)"

definition InMemoryKeyStore :: "stored_keys option key_store" where
  "InMemoryKeyStore = \<lparr>ks_load = mk_load, ks_save = mk_save, ks_clear = mk_clear\<rparr>"

interpretation mem_keys: secure_key_store InMemoryKeyStore "\<lambda>k s. s = k"
  by unfold_locales (simp_all add: InMemoryKeyStore_def mk_load_def mk_save_def mk_clear_def)

subsection \<open>The hardware-backed store keeps the contract\<close>

text \<open>A slot that stores what it is given, or fails and keeps what it had.\<close>

locale value_slot =
  fixes slot :: "('s, 'v) slot_ops" and val :: "'s \<Rightarrow> 'v option"
  assumes load_val: "sl_load slot s = Inr (val s)"
    and save_val: "sl_save slot v s = (r, s1) \<Longrightarrow> val s1 = (case r of None \<Rightarrow> Some v | Some _ \<Rightarrow> val s)"
    and clear_val: "sl_clear slot s = (r, s1) \<Longrightarrow> val s1 = (case r of None \<Rightarrow> None | Some _ \<Rightarrow> val s)"

locale key_slot = value_slot slot val
  for slot :: "('s, persisted_keys) slot_ops" and val

definition provider_ok :: "key_provider \<Rightarrow> bool" where
  \<comment> \<open>documented: what the secure element wraps it unwraps\<close>
  "provider_ok P = (\<forall>pt sealed. kp_wrap P pt = Inr sealed \<longrightarrow> kp_unwrap P sealed = Inr pt)"

definition prov_ok :: "key_provider option \<Rightarrow> bool" where
  "prov_ok provider = (case provider of None \<Rightarrow> True | Some P \<Rightarrow> provider_ok P)"

definition hw_holds :: "('s \<Rightarrow> persisted_keys option) \<Rightarrow> key_provider option \<Rightarrow> stored_keys option \<Rightarrow> 's \<Rightarrow> bool" where
  \<comment> \<open>the slot has these keys, in the clear or sealed for the provider\<close>
  "hw_holds val provider k s = (case k of
       None \<Rightarrow> val s = None
     | Some keys \<Rightarrow> val s = Some (Clear keys) \<or> (\<exists>P env. provider = Some P \<and> val s = Some (Sealed env)
         \<and> kp_unwrap P (b64uDecode (sv_blob env)) = Inr (utf8 (json_str (keys_json keys)))))"

definition hw_keeps :: "('s \<Rightarrow> persisted_keys option) \<Rightarrow> key_provider option \<Rightarrow> stored_keys option \<Rightarrow> 's hw_state \<Rightarrow> bool" where
  "hw_keeps val provider k st = (prov_ok provider \<and> hw_holds val provider k (fst st))"

definition HardwareBackedKeyStore :: "('s, persisted_keys) slot_ops \<Rightarrow> key_provider option \<Rightarrow> 's hw_state key_store" where
  "HardwareBackedKeyStore slot provider = \<lparr>ks_load = hw_load slot provider, ks_save = hw_save slot provider, ks_clear = hw_clear slot\<rparr>"

lemma keys_json_round_trip [simp]: "json_parse (json_str (keys_json keys)) = Some (keys_json keys)" "keys_of_json (keys_json keys) = Some keys"
  by (simp_all add: keys_json_def keys_of_json_def)

context key_slot
begin

lemma save_cleartext_holds:
  assumes "save_cleartext slot keys st = (r, st1)"
  shows "r = None \<Longrightarrow> hw_holds val provider (Some keys) (fst st1)" "r \<noteq> None \<Longrightarrow> val (fst st1) = val (fst st)"
proof -
  obtain r0 s0 where sl: "sl_save slot (Clear keys) (fst st) = (r0, s0)" by fastforce
  with assms have "r = r0" "fst st1 = s0" by (auto simp: save_cleartext_def)
  with save_val [OF sl] show "r = None \<Longrightarrow> hw_holds val provider (Some keys) (fst st1)"
    "r \<noteq> None \<Longrightarrow> val (fst st1) = val (fst st)"
    by (auto simp: hw_holds_def)
qed

lemma save_sealed_holds:
  assumes "save_sealed slot P keys st = (r, st1)" "provider_ok P"
  shows "r = None \<Longrightarrow> hw_holds val (Some P) (Some keys) (fst st1)" "r \<noteq> None \<Longrightarrow> val (fst st1) = val (fst st)"
proof -
  show "hw_holds val (Some P) (Some keys) (fst st1)" if r: "r = None"
  proof -
    obtain blob where w: "kp_wrap P (utf8 (json_str (keys_json keys))) = Inr blob"
      using assms(1) r by (cases "kp_wrap P (utf8 (json_str (keys_json keys)))") (auto simp: save_sealed_def)
    let ?env = "\<lparr>sv_v = 1, sv_backend = kp_backend P, sv_blob = b64uEncode blob\<rparr>"
    have "sl_save slot (Sealed ?env) (fst st) = (None, fst st1)"
      using assms(1) r by (auto simp: save_sealed_def w split: prod.splits)
    from save_val [OF this] have "val (fst st1) = Some (Sealed ?env)" by simp
    moreover have "kp_unwrap P blob = Inr (utf8 (json_str (keys_json keys)))" using assms(2) w by (simp add: provider_ok_def)
    ultimately show ?thesis by (simp add: hw_holds_def)
  qed
  show "val (fst st1) = val (fst st)" if "r \<noteq> None"
  proof (cases "kp_wrap P (utf8 (json_str (keys_json keys)))")
    case (Inl e)
    then show ?thesis using assms(1) by (auto simp: save_sealed_def)
  next
    case (Inr blob)
    then have "sl_save slot (Sealed \<lparr>sv_v = 1, sv_backend = kp_backend P, sv_blob = b64uEncode blob\<rparr>) (fst st) = (r, fst st1)"
      using assms(1) by (auto simp: save_sealed_def split: prod.splits)
    from save_val [OF this] that show ?thesis by auto
  qed
qed

lemma hw_save_val:
  assumes "prov_ok provider" "hw_save slot provider keys st = (r, st1)"
  shows "(r = None \<longrightarrow> hw_holds val provider (Some keys) (fst st1)) \<and> (r \<noteq> None \<longrightarrow> val (fst st1) = val (fst st))"
proof (cases "\<exists>P. provider = Some P \<and> kp_isAvailable P = Inr True")
  case True
  then obtain P where P: "provider = Some P" "kp_isAvailable P = Inr True" by blast
  then have ok: "provider_ok P" using assms(1) by (simp add: prov_ok_def)
  obtain r0 st0 where sl: "save_sealed slot P keys st = (r0, st0)" by (cases "save_sealed slot P keys st")
  note h = save_sealed_holds [OF sl ok]
  show ?thesis
  proof (cases r0)
    case None
    then show ?thesis using assms(2) P sl h by (simp add: hw_save_def)
  next
    case (Some e)
    then have "save_cleartext slot keys (fst st0, snd st0 @ [e]) = (r, st1)" using assms(2) P sl by (simp add: hw_save_def)
    from save_cleartext_holds [OF this] h(2) Some show ?thesis by simp
  qed
next
  case False
  have "r \<noteq> None \<and> st1 = st \<or> save_cleartext slot keys st = (r, st1)"
    using False assms(2) by (auto simp: hw_save_def split: option.splits sum.splits bool.splits)
  then show ?thesis using save_cleartext_holds [of keys st r st1] by auto
qed

lemma hw_save_holds:
  assumes "prov_ok provider" "hw_save slot provider keys st = (r, st1)"
  shows "r = None \<Longrightarrow> hw_holds val provider (Some keys) (fst st1)"
    and "r \<noteq> None \<Longrightarrow> hw_holds val provider k (fst st) \<Longrightarrow> hw_holds val provider k (fst st1)"
  using hw_save_val [OF assms] by (auto simp: hw_holds_def split: option.splits)

lemma reseal_holds:
  assumes "prov_ok provider" "hw_holds val provider (Some keys) (fst st)"
  shows "hw_holds val provider (Some keys) (fst (resealIfPossible slot provider keys st))"
proof -
  obtain r st1 where sv: "hw_save slot provider keys st = (r, st1)" by (cases "hw_save slot provider keys st")
  have "hw_holds val provider (Some keys) (fst st1)"
    using hw_save_holds [OF assms(1) sv] assms(2) by (cases r) simp_all
  then show ?thesis using assms(2) sv
    by (cases provider) (auto simp: resealIfPossible_def split: option.split sum.split bool.split)
qed

lemma hw_key_store: "secure_key_store (HardwareBackedKeyStore slot provider) (hw_keeps val provider)"
proof
  fix k :: "stored_keys option" and st :: "'s hw_state" and keys
  assume "hw_keeps val provider k st"
  then have p: "prov_ok provider" and h: "hw_holds val provider k (fst st)" by (simp_all add: hw_keeps_def)
  show "fst (ks_load (HardwareBackedKeyStore slot provider) st) = Inr k
      \<and> hw_keeps val provider k (snd (ks_load (HardwareBackedKeyStore slot provider) st))"
  proof (cases "val (fst st)")
    case None
    then show ?thesis using h p by (auto simp: HardwareBackedKeyStore_def hw_load_def load_val hw_holds_def hw_keeps_def split: option.splits)
  next
    case (Some v)
    show ?thesis
    proof (cases v)
      case (Clear ks)
      then have "k = Some ks" using h Some by (auto simp: hw_holds_def split: option.splits)
      then show ?thesis using h p Some Clear reseal_holds [OF p, of ks st] by (simp add: HardwareBackedKeyStore_def hw_load_def load_val hw_keeps_def)
    next
      case (Sealed env)
      then show ?thesis using h p Some by (auto simp: HardwareBackedKeyStore_def hw_load_def load_val hw_holds_def hw_keeps_def split: option.splits)
    qed
  qed
  show "hw_keeps val provider (Some keys) (snd (ks_save (HardwareBackedKeyStore slot provider) keys st))"
    if "fst (ks_save (HardwareBackedKeyStore slot provider) keys st) = None"
    using that hw_save_holds(1) [OF p prod.collapse [symmetric], of keys st] p by (simp add: HardwareBackedKeyStore_def hw_keeps_def)
  show "hw_keeps val provider None (snd (ks_clear (HardwareBackedKeyStore slot provider) st))"
    if "fst (ks_clear (HardwareBackedKeyStore slot provider) st) = None"
  proof -
    obtain r s1 where c: "sl_clear slot (fst st) = (r, s1)" by fastforce
    then show ?thesis using that clear_val [OF c] p
      by (simp add: HardwareBackedKeyStore_def hw_clear_def hw_holds_def hw_keeps_def)
  qed
qed

end

text \<open>What a slot's operations leave alone, the store over it leaves alone.\<close>

lemma hw_leaves:
  assumes "\<And>v s. f (snd (sl_save slot v s)) = f s" "\<And>s. f (snd (sl_clear slot s)) = f s"
  shows "f (fst (snd (hw_save slot provider keys st))) = f (fst st)"
    and "f (fst (snd (hw_load slot provider st))) = f (fst st)"
    and "f (fst (snd (hw_clear slot st))) = f (fst st)"
proof -
  have c: "f (fst (snd (save_cleartext slot keys st))) = f (fst st)" for keys st
    using assms(1) [of "Clear keys" "fst st"] by (auto simp: save_cleartext_def split: prod.split)
  have se: "f (fst (snd (save_sealed slot P keys st))) = f (fst st)" for P keys st
  proof (cases "kp_wrap P (utf8 (json_str (keys_json keys)))")
    case (Inr blob)
    then show ?thesis
      using assms(1) [of "Sealed \<lparr>sv_v = 1, sv_backend = kp_backend P, sv_blob = b64uEncode blob\<rparr>" "fst st"]
      by (auto simp: save_sealed_def split: prod.split)
  qed (simp add: save_sealed_def)
  have sv: "f (fst (snd (hw_save slot provider keys st))) = f (fst st)" for keys st
  proof (cases "\<exists>P. provider = Some P \<and> kp_isAvailable P = Inr True")
    case True
    then obtain P where P: "provider = Some P" "kp_isAvailable P = Inr True" by blast
    obtain r st1 where "save_sealed slot P keys st = (r, st1)" by (cases "save_sealed slot P keys st")
    with P se [of P keys st] c [of keys "(fst st1, e)" for e] show ?thesis by (cases r) (simp_all add: hw_save_def)
  next
    case False
    then show ?thesis using c [of keys st] by (auto simp: hw_save_def split: option.splits sum.splits bool.splits)
  qed
  then show "f (fst (snd (hw_save slot provider keys st))) = f (fst st)" .
  have "f (fst (resealIfPossible slot provider keys st)) = f (fst st)" for keys
  proof -
    obtain r st1 where "hw_save slot provider keys st = (r, st1)" by (cases "hw_save slot provider keys st")
    with sv [of keys st] show ?thesis
      by (cases r; cases provider) (auto simp: resealIfPossible_def split: sum.split bool.split)
  qed
  then show "f (fst (snd (hw_load slot provider st))) = f (fst st)"
    by (simp add: hw_load_def split: sum.split option.split persisted_keys.split)
  show "f (fst (snd (hw_clear slot st))) = f (fst st)"
    using assms(2) [of "fst st"] by (auto simp: hw_clear_def split: prod.split)
qed

end
