(* ===== verification/TurnCredentials.thy ===== *)
theory TurnCredentials
  imports KeyStore Ice Wire
begin

text \<open>
  \<open>apps/web/src/orpal/turn-credentials.ts\<close>: the credentials of TURN servers, taken out of the settings and kept
  sealed. A server entry is the JSON object of the settings, so that fields the program does not know stay
  in it. What is left in the settings holds no secret, and putting the credentials back gives the servers
  that were taken apart.
\<close>

subsection \<open>Server entries\<close>

definition isTurnScheme :: "string \<Rightarrow> bool" where
  \<comment> \<open>\<open>/^turns?:/i\<close> on the trimmed text\<close>
  "isTurnScheme url = (let u = map lower (trim url) in starts_with ''turn:'' u \<or> starts_with ''turns:'' u)"

definition urlsOf :: "json \<Rightarrow> string list" where
  "urlsOf s = (case jprop s ''urls'' of Some (JArr us) \<Rightarrow> map (\<lambda>u. jstr (Some u)) us | v \<Rightarrow> [jstr v])"

record turn_credential =
  tc_username :: string
  tc_credential :: string

type_synonym turn_credentials = "(string, turn_credential) jmap"

datatype stored_credentials = CredsSealed secure_envelope | CredsClear turn_credentials

definition creds_json :: "turn_credentials \<Rightarrow> json" where
  "creds_json creds = JObj (map (\<lambda>(url, c). (url, JObj [(''username'', JStr (tc_username c)), (''credential'', JStr (tc_credential c))])) creds)"

definition creds_of_json :: "json \<Rightarrow> turn_credentials option" where
  \<comment> \<open>the cast \<open>as TurnCredentials\<close>, on values that have the fields\<close>
  "creds_of_json j = (case j of
       JObj fs \<Rightarrow> those (map (\<lambda>(url, c). case (jprop c ''username'', jprop c ''credential'') of
           (Some (JStr u), Some (JStr p)) \<Rightarrow> Some (url, \<lparr>tc_username = u, tc_credential = p\<rparr>)
         | _ \<Rightarrow> None) fs)
     | _ \<Rightarrow> None)"

subsection \<open>The sealed store\<close>

definition cred_load :: "('s, stored_credentials) slot_ops \<Rightarrow> key_provider option \<Rightarrow> 's \<Rightarrow> string + turn_credentials" where
  "cred_load slot provider s =
     (case sl_load slot s of
        Inl e \<Rightarrow> Inl e
      | Inr None \<Rightarrow> Inr []
      | Inr (Some (CredsClear creds)) \<Rightarrow> Inr creds
      | Inr (Some (CredsSealed env)) \<Rightarrow> (case provider of
          None \<Rightarrow> Inl ''TURN credentials are sealed to secure hardware, but no provider is available on this device''
        | Some P \<Rightarrow> (case kp_unwrap P (b64uDecode (sv_blob env)) of
            Inl e \<Rightarrow> Inl e
          | Inr plaintext \<Rightarrow> (case Option.bind (json_parse (fromUtf8 plaintext)) creds_of_json of
              None \<Rightarrow> Inl ''JSON''
            | Some creds \<Rightarrow> Inr creds))))"

text \<open>The state of a save: the slot, and what \<open>onFallback\<close> was told.\<close>

definition cred_clear_text :: "('s, stored_credentials) slot_ops \<Rightarrow> turn_credentials \<Rightarrow> 's hw_state \<Rightarrow> string option \<times> 's hw_state" where
  "cred_clear_text slot creds st = (case sl_save slot (CredsClear creds) (fst st) of (r, s1) \<Rightarrow> (r, (s1, snd st)))"

definition cred_seal ::
  "('s, stored_credentials) slot_ops \<Rightarrow> key_provider \<Rightarrow> turn_credentials \<Rightarrow> 's hw_state \<Rightarrow> string option \<times> 's hw_state" where
  \<comment> \<open>the \<open>try\<close> block\<close>
  "cred_seal slot P creds st =
     (case kp_wrap P (utf8 (json_str (creds_json creds))) of
        Inl e \<Rightarrow> (Some e, st)
      | Inr blob \<Rightarrow> (case sl_save slot (CredsSealed \<lparr>sv_v = 1, sv_backend = kp_backend P, sv_blob = b64uEncode blob\<rparr>) (fst st) of
          (r, s1) \<Rightarrow> (r, (s1, snd st))))"

definition cred_save ::
  "('s, stored_credentials) slot_ops \<Rightarrow> key_provider option \<Rightarrow> turn_credentials \<Rightarrow> 's hw_state \<Rightarrow> string option \<times> 's hw_state" where
  "cred_save slot provider creds st =
     (case provider of
        None \<Rightarrow> cred_clear_text slot creds st
      | Some P \<Rightarrow> (case kp_isAvailable P of
          Inl e \<Rightarrow> (Some e, st)
        | Inr False \<Rightarrow> cred_clear_text slot creds st
        | Inr True \<Rightarrow> (case cred_seal slot P creds st of
            (None, st1) \<Rightarrow> (None, st1)
          | (Some e, st1) \<Rightarrow> cred_clear_text slot creds (fst st1, snd st1 @ [e]))))"

definition cred_clear :: "('s, stored_credentials) slot_ops \<Rightarrow> 's \<Rightarrow> string option \<times> 's" where
  "cred_clear slot s = sl_clear slot s"

subsection \<open>Taking the secrets out and putting them back\<close>

definition extract_url :: "json \<Rightarrow> string \<Rightarrow> turn_credentials \<Rightarrow> turn_credentials" where
  "extract_url s url creds = (if isTurnScheme url
     then jset url \<lparr>tc_username = jstr (jprop s ''username''), tc_credential = jstr (jprop s ''credential'')\<rparr> creds else creds)"

definition extract_server :: "json \<Rightarrow> turn_credentials \<Rightarrow> turn_credentials" where
  "extract_server s creds = (if jprop s ''username'' = None \<and> jprop s ''credential'' = None then creds
     else fold (extract_url s) (urlsOf s) creds)"

definition extractTurnCredentials :: "json list \<Rightarrow> turn_credentials" where
  "extractTurnCredentials servers = fold extract_server servers []"

definition without_secret :: "json \<Rightarrow> json" where
  "without_secret s = JObj (jdel ''username'' (jdel ''credential'' (obj_fields s)))"

definition stripTurnCredentials :: "json list \<Rightarrow> json list" where
  "stripTurnCredentials = map (\<lambda>s. if \<not> (\<exists>u\<in>set (urlsOf s). isTurnScheme u) then s else without_secret s)"

definition merge_server :: "turn_credentials \<Rightarrow> json \<Rightarrow> json" where
  "merge_server creds s = (case find (\<lambda>url. isTurnScheme url \<and> jhas creds url) (urlsOf s) of
       None \<Rightarrow> s
     | Some url \<Rightarrow> (case jget creds url of
         None \<Rightarrow> s
       | Some c \<Rightarrow> JObj (jset ''credential'' (JStr (tc_credential c)) (jset ''username'' (JStr (tc_username c)) (obj_fields s)))))"

definition mergeTurnCredentials :: "json list \<Rightarrow> turn_credentials \<Rightarrow> json list" where
  "mergeTurnCredentials servers creds = map (merge_server creds) servers"

definition inline_secret :: "json \<Rightarrow> bool" where
  "inline_secret s = ((\<exists>u\<in>set (urlsOf s). isTurnScheme u) \<and> (jprop s ''username'' \<noteq> None \<or> jprop s ''credential'' \<noteq> None))"

definition hasInlineTurnSecret :: "json list \<Rightarrow> bool" where
  "hasInlineTurnSecret servers = (\<exists>s\<in>set servers. inline_secret s)"

definition cred_of :: "json \<Rightarrow> turn_credential" where
  "cred_of s = \<lparr>tc_username = jstr (jprop s ''username''), tc_credential = jstr (jprop s ''credential'')\<rparr>"

subsection \<open>Nothing secret is left, and nothing is lost\<close>

lemma jprop_fields: "jprop (JObj (obj_fields j)) k = jprop j k"
  by (cases j) (auto simp: obj_fields_def jprop_def)

lemma jprop_without: "jprop (without_secret s) k = (if k \<in> {''username'', ''credential''} then None else jprop s k)"
  using jprop_fields [of s k] by (simp add: without_secret_def)

lemma urls_without [simp]: "urlsOf (without_secret s) = urlsOf s"
  by (simp add: urlsOf_def jprop_without)

lemma strip_clean: "\<not> hasInlineTurnSecret (stripTurnCredentials servers)"
  by (auto simp: hasInlineTurnSecret_def stripTurnCredentials_def inline_secret_def jprop_without)

lemma extract_urls:
  "jget (fold (extract_url s) urls creds) url = (if isTurnScheme url \<and> url \<in> set urls then Some (cred_of s) else jget creds url)"
  by (induction urls arbitrary: creds) (auto simp: extract_url_def cred_of_def)

lemma extracted:
  assumes "\<And>s. s \<in> set servers \<Longrightarrow> isTurnScheme url \<Longrightarrow> url \<in> set (urlsOf s) \<Longrightarrow> inline_secret s \<and> cred_of s = c"
  shows "jget (fold extract_server servers creds) url =
    (if isTurnScheme url \<and> (\<exists>s\<in>set servers. url \<in> set (urlsOf s)) then Some c else jget creds url)"
  using assms
proof (induction servers arbitrary: creds)
  case (Cons s servers)
  have "jget (extract_server s creds) url = (if isTurnScheme url \<and> url \<in> set (urlsOf s) then Some c else jget creds url)"
    using Cons.prems [of s] by (auto simp: extract_server_def extract_urls inline_secret_def)
  then show ?case using Cons.IH [of "extract_server s creds"] Cons.prems by auto
qed simp

text \<open>
  Servers whose TURN entries have both a user name and a credential (as the form asks), the same ones
  wherever a URL occurs.
\<close>

definition credentialed :: "json list \<Rightarrow> bool" where
  "credentialed servers = (\<forall>s\<in>set servers. \<forall>u\<in>set (urlsOf s). isTurnScheme u \<longrightarrow>
     (\<exists>n p. jprop s ''username'' = Some (JStr n) \<and> jprop s ''credential'' = Some (JStr p))
     \<and> (\<forall>s'\<in>set servers. u \<in> set (urlsOf s') \<longrightarrow> cred_of s' = cred_of s))"

lemma merge_back:
  assumes c: "credentialed servers" and s: "s \<in> set servers"
  shows "jprop (merge_server (extractTurnCredentials servers) (if \<exists>u\<in>set (urlsOf s). isTurnScheme u then without_secret s else s)) k = jprop s k"
proof (cases "\<exists>u\<in>set (urlsOf s). isTurnScheme u")
  case False
  then have "find (\<lambda>url. isTurnScheme url \<and> jhas (extractTurnCredentials servers) url) (urlsOf s) = None" by (auto simp: find_None_iff)
  then show ?thesis using False by (simp add: merge_server_def)
next
  case True
  have get: "jget (extractTurnCredentials servers) u = Some (cred_of s)" if u: "u \<in> set (urlsOf s)" "isTurnScheme u" for u
  proof -
    have "jget (fold extract_server servers []) u =
        (if isTurnScheme u \<and> (\<exists>s\<in>set servers. u \<in> set (urlsOf s)) then Some (cred_of s) else jget [] u)"
    proof (rule extracted)
      fix s' assume s': "s' \<in> set servers" "isTurnScheme u" "u \<in> set (urlsOf s')"
      have "cred_of s' = cred_of s" using c s u s' unfolding credentialed_def by blast
      moreover have "jprop s' ''username'' \<noteq> None" using c s' unfolding credentialed_def by blast
      ultimately show "inline_secret s' \<and> cred_of s' = cred_of s" using s'(2,3) by (auto simp: inline_secret_def)
    qed
    then show ?thesis using u s by (auto simp: extractTurnCredentials_def)
  qed
  have has: "jhas (extractTurnCredentials servers) u" if "u \<in> set (urlsOf s)" "isTurnScheme u" for u
    using get [OF that] by (simp add: jhas_def)
  obtain u where f: "find (\<lambda>url. isTurnScheme url \<and> jhas (extractTurnCredentials servers) url) (urlsOf s) = Some u"
    using True has find_None_iff [of "\<lambda>url. isTurnScheme url \<and> jhas (extractTurnCredentials servers) url" "urlsOf s"]
    by (metis option.exhaust)
  then have u: "u \<in> set (urlsOf s)" "isTurnScheme u" by (auto simp: find_Some_iff)
  obtain n p where np: "jprop s ''username'' = Some (JStr n)" "jprop s ''credential'' = Some (JStr p)"
    using c s u unfolding credentialed_def by blast
  have m: "merge_server (extractTurnCredentials servers) (without_secret s) = JObj (jset ''credential'' (JStr (tc_credential (cred_of s)))
      (jset ''username'' (JStr (tc_username (cred_of s))) (obj_fields (without_secret s))))"
    by (simp add: merge_server_def f get [OF u])
  have "jget (obj_fields (without_secret s)) k = jprop (without_secret s) k" using jprop_fields [of "without_secret s" k] by simp
  then show ?thesis using True np by (simp add: m jprop_without cred_of_def)
qed

lemma merge_strip:
  assumes "credentialed servers"
  shows "length (mergeTurnCredentials (stripTurnCredentials servers) (extractTurnCredentials servers)) = length servers"
    "i < length servers \<Longrightarrow> jprop (mergeTurnCredentials (stripTurnCredentials servers) (extractTurnCredentials servers) ! i) k = jprop (servers ! i) k"
  using merge_back [OF assms nth_mem, of i k] by (auto simp: mergeTurnCredentials_def stripTurnCredentials_def split: if_splits)

lemma extract_ok: "jmap_ok (extractTurnCredentials servers)"
proof -
  have "jmap_ok creds \<Longrightarrow> jmap_ok (fold (extract_url s) urls creds)" for s urls creds
    by (induction urls arbitrary: creds) (simp_all add: extract_url_def)
  then have "jmap_ok creds \<Longrightarrow> jmap_ok (fold extract_server servers creds)" for creds
    by (induction servers arbitrary: creds) (simp_all add: extract_server_def)
  then show ?thesis by (simp add: extractTurnCredentials_def)
qed

subsection \<open>What is saved is loaded\<close>

lemma creds_round_trip: "creds_of_json (creds_json creds) = Some creds" "jmap_ok creds \<Longrightarrow> wf_json (creds_json creds)"
proof -
  show "creds_of_json (creds_json creds) = Some creds"
    by (induction creds) (auto simp: creds_of_json_def creds_json_def)
  show "jmap_ok creds \<Longrightarrow> wf_json (creds_json creds)" by (auto simp: creds_json_def jmap_ok_def comp_def case_prod_beta)
qed

locale cred_slot = value_slot slot val
  for slot :: "('s, stored_credentials) slot_ops" and val
begin

lemma clear_text_kept:
  assumes "cred_clear_text slot creds st = (None, st1)"
  shows "cred_load slot provider (fst st1) = Inr creds"
proof -
  have "sl_save slot (CredsClear creds) (fst st) = (None, fst st1)" using assms by (auto simp: cred_clear_text_def split: prod.splits)
  from save_val [OF this] show ?thesis by (simp add: cred_load_def load_val)
qed

lemma sealed_kept:
  assumes "cred_seal slot P creds st = (None, st1)" "provider_ok P" "jmap_ok creds"
  shows "cred_load slot (Some P) (fst st1) = Inr creds"
proof -
  obtain blob where w: "kp_wrap P (utf8 (json_str (creds_json creds))) = Inr blob"
    using assms(1) by (auto simp: cred_seal_def split: sum.splits)
  have "sl_save slot (CredsSealed \<lparr>sv_v = 1, sv_backend = kp_backend P, sv_blob = b64uEncode blob\<rparr>) (fst st) = (None, fst st1)"
    using assms(1) w by (auto simp: cred_seal_def split: prod.splits)
  from save_val [OF this] have "val (fst st1) = Some (CredsSealed \<lparr>sv_v = 1, sv_backend = kp_backend P, sv_blob = b64uEncode blob\<rparr>)" by simp
  moreover have "kp_unwrap P blob = Inr (utf8 (json_str (creds_json creds)))" using assms(2) w by (simp add: provider_ok_def)
  ultimately show ?thesis using creds_round_trip [of creds] assms(3) by (simp add: cred_load_def load_val)
qed

lemma creds_kept:
  assumes "prov_ok provider" "jmap_ok creds" "cred_save slot provider creds st = (None, st1)"
  shows "cred_load slot provider (fst st1) = Inr creds"
proof (cases "\<exists>P st2. provider = Some P \<and> kp_isAvailable P = Inr True \<and> cred_seal slot P creds st = (None, st2)")
  case True
  then obtain P where "provider = Some P" "cred_seal slot P creds st = (None, st1)" using assms(3) by (auto simp: cred_save_def)
  then show ?thesis using sealed_kept assms(1,2) by (simp add: prov_ok_def)
next
  case False
  then obtain st2 where "cred_clear_text slot creds st2 = (None, st1)"
    using assms(3) by (auto simp: cred_save_def split: option.splits sum.splits bool.splits prod.splits)
  then show ?thesis by (rule clear_text_kept)
qed

text \<open>
  A save that seals leaves no readable credential in the slot; only a device without secure hardware, or
  one whose sealing failed, has them there in the clear.
\<close>

lemma sealed_at_rest:
  assumes "kp_isAvailable P = Inr True" "cred_save slot (Some P) creds st = (None, st1)" "snd st1 = snd st"
  shows "\<exists>env. val (fst st1) = Some (CredsSealed env)"
proof -
  have "cred_seal slot P creds st = (None, st1)"
    using assms by (auto simp: cred_save_def cred_clear_text_def cred_seal_def split: option.splits sum.splits prod.splits)
  then obtain blob where "sl_save slot (CredsSealed \<lparr>sv_v = 1, sv_backend = kp_backend P, sv_blob = b64uEncode blob\<rparr>) (fst st) = (None, fst st1)"
    by (auto simp: cred_seal_def split: sum.splits prod.splits)
  from save_val [OF this] show ?thesis by simp
qed

end

end
