(* ===== verification/WebStores.thy ===== *)
theory WebStores
  imports Idb ConversationStore PendingQueue KeyStore TurnCredentials
begin

text \<open>
  The storage side of \<open>apps/web/src/orpal/browser-bridge.ts\<close> and its adapters in \<open>bridge-stores.ts\<close>: keys,
  history, send queue and migration state over IndexedDB, settings over localStorage. The adapters keep
  the contracts the core states for its stores: \<open>conversation_store\<close>, \<open>pending_queue_store\<close> and, for the key
  slots under the hardware-backed store, \<open>key_slot\<close>. An update is two transactions, a read and a write; the
  contracts are shown for updates that run without interruption, and the last section shows what an
  interrupted one does.
\<close>

subsection \<open>The database\<close>

text \<open>Values of the store \<open>kv\<close>: keys, a migration's state, TURN credentials, or a flag.\<close>

datatype 'm kv_value = KvKeys persisted_keys | KvMigration 'm | KvTurn stored_credentials | KvFlag bool

record 'm web_db =
  wd_kv :: "'m kv_value obj_store"
  wd_contacts :: "contact obj_store"
  wd_messages :: "stored_message obj_store"
  wd_pending :: "pending_message obj_store"

definition web_db_empty :: "'m web_db" where
  "web_db_empty = \<lparr>wd_kv = [], wd_contacts = [], wd_messages = [], wd_pending = []\<rparr>"

definition kvGet :: "string \<Rightarrow> 'm web_db \<Rightarrow> 'm kv_value option" where
  "kvGet key db = idb_get key (wd_kv db)"

definition kvSet :: "string option \<Rightarrow> string \<Rightarrow> 'm kv_value \<Rightarrow> 'm web_db \<Rightarrow> string option \<times> 'm web_db" where
  "kvSet err key v db = txDone err db (db\<lparr>wd_kv := idb_put key v (wd_kv db)\<rparr>)"

definition kvDelete :: "string option \<Rightarrow> string \<Rightarrow> 'm web_db \<Rightarrow> string option \<times> 'm web_db" where
  "kvDelete err key db = txDone err db (db\<lparr>wd_kv := idb_del key (wd_kv db)\<rparr>)"

subsection \<open>Keys and migration state\<close>

definition KEYS_KV :: string where "KEYS_KV = ''deviceKeys''"

definition PENDING_KEYS_KV :: string where "PENDING_KEYS_KV = ''deviceKeys:pending''"

definition MIGRATION_KV :: string where "MIGRATION_KV = ''migrationState''"

text \<open>
  A slot at a key of the store. \<open>wr\<close> says how a write transaction of a value ends (\<open>None\<close>: of a
  deletion), for a browser that is out of space.
\<close>

type_synonym 'm tx_outcome = "'m kv_value option \<Rightarrow> string option"

definition kv_slot :: "string \<Rightarrow> 'm tx_outcome \<Rightarrow> ('m web_db, persisted_keys) slot_ops" where
  "kv_slot key wr = \<lparr>
     sl_load = (\<lambda>db. Inr (case kvGet key db of Some (KvKeys k) \<Rightarrow> Some k | _ \<Rightarrow> None)),
     sl_save = (\<lambda>v. kvSet (wr (Some (KvKeys v))) key (KvKeys v)),
     sl_clear = kvDelete (wr None) key\<rparr>"

definition IpcKeyBlobStore :: "'m tx_outcome \<Rightarrow> ('m web_db, persisted_keys) slot_ops" where
  "IpcKeyBlobStore = kv_slot KEYS_KV"

definition IpcPendingKeyBlobStore :: "'m tx_outcome \<Rightarrow> ('m web_db, persisted_keys) slot_ops" where
  "IpcPendingKeyBlobStore = kv_slot PENDING_KEYS_KV"

definition kv_keys :: "string \<Rightarrow> 'm web_db \<Rightarrow> persisted_keys option" where
  "kv_keys key db = (case kvGet key db of Some (KvKeys k) \<Rightarrow> Some k | _ \<Rightarrow> None)"

definition migration_load :: "'m web_db \<Rightarrow> 'm option" where
  "migration_load db = (case kvGet MIGRATION_KV db of Some (KvMigration m) \<Rightarrow> Some m | _ \<Rightarrow> None)"

definition migration_save :: "'m tx_outcome \<Rightarrow> 'm \<Rightarrow> 'm web_db \<Rightarrow> string option \<times> 'm web_db" where
  "migration_save wr m = kvSet (wr (Some (KvMigration m))) MIGRATION_KV (KvMigration m)"

definition migration_clear :: "'m tx_outcome \<Rightarrow> 'm web_db \<Rightarrow> string option \<times> 'm web_db" where
  "migration_clear wr = kvDelete (wr None) MIGRATION_KV"

lemma kvGet_kvSet: "kvSet err key v db = (r, db1) \<Longrightarrow>
    kvGet k db1 = (if r = None \<and> k = key then Some v else kvGet k db)"
  by (auto simp: kvSet_def txDone_def kvGet_def split: option.splits)

lemma kvGet_kvDelete: "kvDelete err key db = (r, db1) \<Longrightarrow>
    kvGet k db1 = (if r = None \<and> k = key then None else kvGet k db)"
  by (auto simp: kvDelete_def txDone_def kvGet_def split: option.splits)

interpretation kv_key_slot: key_slot "kv_slot key wr" "kv_keys key" for key wr
proof
  fix s s1 and v r
  show "sl_load (kv_slot key wr) s = Inr (kv_keys key s)" by (simp add: kv_slot_def kv_keys_def)
  show "kv_keys key s1 = (case r of None \<Rightarrow> Some v | Some _ \<Rightarrow> kv_keys key s)" if "sl_save (kv_slot key wr) v s = (r, s1)"
    using that kvGet_kvSet [of _ key "KvKeys v" s r s1 key] by (auto simp: kv_slot_def kv_keys_def split: option.split)
  show "kv_keys key s1 = (case r of None \<Rightarrow> None | Some _ \<Rightarrow> kv_keys key s)" if "sl_clear (kv_slot key wr) s = (r, s1)"
    using that kvGet_kvDelete [of _ key s r s1 key] by (auto simp: kv_slot_def kv_keys_def split: option.split)
qed

text \<open>The slot of the TURN credentials.\<close>

definition TURN_CRED_KV :: string where "TURN_CRED_KV = ''turnCredentials''"

definition turn_slot :: "'m tx_outcome \<Rightarrow> ('m web_db, stored_credentials) slot_ops" where
  "turn_slot wr = \<lparr>
     sl_load = (\<lambda>db. Inr (case kvGet TURN_CRED_KV db of Some (KvTurn v) \<Rightarrow> Some v | _ \<Rightarrow> None)),
     sl_save = (\<lambda>v. kvSet (wr (Some (KvTurn v))) TURN_CRED_KV (KvTurn v)),
     sl_clear = kvDelete (wr None) TURN_CRED_KV\<rparr>"

definition kv_turn :: "'m web_db \<Rightarrow> stored_credentials option" where
  "kv_turn db = (case kvGet TURN_CRED_KV db of Some (KvTurn v) \<Rightarrow> Some v | _ \<Rightarrow> None)"

interpretation web_creds: cred_slot "turn_slot wr" kv_turn for wr
proof
  fix s s1 and v r
  show "sl_load (turn_slot wr) s = Inr (kv_turn s)" by (simp add: turn_slot_def kv_turn_def)
  show "kv_turn s1 = (case r of None \<Rightarrow> Some v | Some _ \<Rightarrow> kv_turn s)" if "sl_save (turn_slot wr) v s = (r, s1)"
    using that kvGet_kvSet [of _ TURN_CRED_KV "KvTurn v" s r s1 TURN_CRED_KV] by (auto simp: turn_slot_def kv_turn_def split: option.split)
  show "kv_turn s1 = (case r of None \<Rightarrow> None | Some _ \<Rightarrow> kv_turn s)" if "sl_clear (turn_slot wr) s = (r, s1)"
    using that kvGet_kvDelete [of _ TURN_CRED_KV s r s1 TURN_CRED_KV] by (auto simp: turn_slot_def kv_turn_def split: option.split)
qed

interpretation web_keys: secure_key_store "HardwareBackedKeyStore (kv_slot key wr) provider" "hw_keeps (kv_keys key) provider"
  for key wr provider
  by (rule kv_key_slot.hw_key_store)

text \<open>
  The device identity: created at the first start, and the same at every later one, whatever the two
  starts' transactions did.
\<close>

lemma identity_persists:
  assumes h: "hw_keeps (kv_keys KEYS_KV) provider k st"
    and first: "loadOrCreate C (HardwareBackedKeyStore (IpcKeyBlobStore wr) provider) rs rt now st = (Inr (i, created), st1)"
  shows "created = (k = None)"
    and "fst (loadOrCreate C (HardwareBackedKeyStore (IpcKeyBlobStore wr') provider) rs' rt' now' st1) = Inr (i, False)"
  using web_keys.loadOrCreate_cases [OF h first [unfolded IpcKeyBlobStore_def]] web_keys.loadOrCreate_holds
  unfolding IpcKeyBlobStore_def by blast+

text \<open>The slots do not touch each other.\<close>

lemma kv_slot_leaves:
  assumes "key' \<noteq> key"
  shows "kvGet key' (snd (sl_save (kv_slot key wr) v db)) = kvGet key' db"
    and "kvGet key' (snd (sl_clear (kv_slot key wr) db)) = kvGet key' db"
  using assms kvGet_kvSet [OF prod.collapse [symmetric], where key = key and db = db and k = key']
    kvGet_kvDelete [OF prod.collapse [symmetric], where key = key and db = db and k = key']
  by (simp_all add: kv_slot_def)

lemma slots_apart [simp]: "KEYS_KV \<noteq> PENDING_KEYS_KV" "PENDING_KEYS_KV \<noteq> KEYS_KV" "KEYS_KV \<noteq> MIGRATION_KV"
  "MIGRATION_KV \<noteq> KEYS_KV" "PENDING_KEYS_KV \<noteq> MIGRATION_KV" "MIGRATION_KV \<noteq> PENDING_KEYS_KV"
  by (simp_all add: KEYS_KV_def PENDING_KEYS_KV_def MIGRATION_KV_def)

subsection \<open>History\<close>

definition st_upsertContact :: "contact \<Rightarrow> 'm web_db \<Rightarrow> 'm web_db" where
  "st_upsertContact c db = db\<lparr>wd_contacts := idb_put (ct_identityKey c) c (wd_contacts db)\<rparr>"

definition st_listContacts :: "'m web_db \<Rightarrow> contact list" where
  "st_listContacts db = idb_getAll (wd_contacts db)"

definition st_getContact :: "string \<Rightarrow> 'm web_db \<Rightarrow> contact option" where
  "st_getContact key db = idb_get key (wd_contacts db)"

definition st_removeContact :: "string \<Rightarrow> 'm web_db \<Rightarrow> 'm web_db" where
  "st_removeContact key db = db\<lparr>wd_contacts := idb_del key (wd_contacts db)\<rparr>"

definition st_appendMessage :: "stored_message \<Rightarrow> 'm web_db \<Rightarrow> 'm web_db" where
  "st_appendMessage m db = db\<lparr>wd_messages := idb_put (sm_id m) m (wd_messages db)\<rparr>"

definition st_getMessage :: "string \<Rightarrow> 'm web_db \<Rightarrow> stored_message option" where
  "st_getMessage i db = idb_get i (wd_messages db)"

definition st_updateMessage_write :: "stored_message option \<Rightarrow> message_patch \<Rightarrow> 'm web_db \<Rightarrow> 'm web_db" where
  \<comment> \<open>the second transaction, with what the first one read\<close>
  "st_updateMessage_write existing patch db =
     (case existing of None \<Rightarrow> db | Some m \<Rightarrow> st_appendMessage (patch_message patch m) db)"

definition st_updateMessage :: "string \<Rightarrow> message_patch \<Rightarrow> 'm web_db \<Rightarrow> 'm web_db" where
  "st_updateMessage i patch db = st_updateMessage_write (st_getMessage i db) patch db"

definition st_listMessages :: "string \<Rightarrow> list_opts \<Rightarrow> 'm web_db \<Rightarrow> stored_message list" where
  "st_listMessages contactKey opts db =
     (let rows = idb_getAllByIndex sm_contactKey contactKey (wd_messages db);
          rows1 = (case lo_before opts of None \<Rightarrow> rows | Some b \<Rightarrow> filter (\<lambda>m. sm_ts m < b) rows);
          rows2 = sort_key (\<lambda>m. - sm_ts m) rows1
      in case lo_limit opts of None \<Rightarrow> rows2 | Some l \<Rightarrow> take l rows2)"

definition st_listAllMessages :: "'m web_db \<Rightarrow> stored_message list" where
  "st_listAllMessages db = idb_getAll (wd_messages db)"

definition st_clear :: "'m web_db \<Rightarrow> 'm web_db" where
  "st_clear db = db\<lparr>wd_contacts := idb_clearStore (wd_contacts db), wd_messages := idb_clearStore (wd_messages db)\<rparr>"

definition IpcConversationStore :: "'m web_db conv_store" where
  "IpcConversationStore = \<lparr>cv_upsertContact = st_upsertContact, cv_listContacts = st_listContacts,
     cv_getContact = st_getContact, cv_removeContact = st_removeContact, cv_appendMessage = st_appendMessage,
     cv_updateMessage = st_updateMessage, cv_getMessage = st_getMessage, cv_listMessages = st_listMessages,
     cv_listAllMessages = st_listAllMessages, cv_clear = st_clear\<rparr>"

lemmas web_conv_defs = IpcConversationStore_def st_upsertContact_def st_listContacts_def st_getContact_def
  st_removeContact_def st_appendMessage_def st_updateMessage_def st_updateMessage_write_def st_getMessage_def
  st_listAllMessages_def st_clear_def

definition web_db_ok :: "'m web_db \<Rightarrow> bool" where
  "web_db_ok db = (keyed_by ct_identityKey (wd_contacts db) \<and> keyed_by sm_id (wd_messages db)
     \<and> keyed_by pm_messageId (wd_pending db))"

text \<open>Both stores page alike: the page is a function of the list of all messages.\<close>

lemma st_listMessages_mem:
  "st_listMessages k lo db = mc_listMessages k lo \<lparr>mc_contacts = [], mc_messages = wd_messages db\<rparr>"
  by (simp add: st_listMessages_def mc_listMessages_def idb_getAllByIndex_def jvals_def)

interpretation web_conv: conversation_store IpcConversationStore web_db_ok
proof
  fix s :: "'m web_db" and k i c m p lo
  assume s: "web_db_ok s"
  then have kc: "keyed_by ct_identityKey (wd_contacts s)" and km: "keyed_by sm_id (wd_messages s)"
    by (simp_all add: web_db_ok_def)
  let ?S = "IpcConversationStore :: 'm web_db conv_store"
  have id: "sm_id n = j" if "idb_get j (wd_messages s) = Some n" for j n using km that by (simp add: keyed_by_def)
  show "cv_getContact ?S k (cv_upsertContact ?S c s) = (if k = ct_identityKey c then Some c else cv_getContact ?S k s)"
    "cv_getContact ?S k (cv_removeContact ?S i s) = (if k = i then None else cv_getContact ?S k s)"
    "cv_getContact ?S k (cv_appendMessage ?S m s) = cv_getContact ?S k s"
    "cv_getContact ?S k (cv_updateMessage ?S i p s) = cv_getContact ?S k s"
    "cv_getMessage ?S k (cv_appendMessage ?S m s) = (if k = sm_id m then Some m else cv_getMessage ?S k s)"
    "cv_getMessage ?S k (cv_updateMessage ?S i p s) =
      (if k = i then map_option (patch_message p) (cv_getMessage ?S k s) else cv_getMessage ?S k s)"
    "cv_getMessage ?S k (cv_upsertContact ?S c s) = cv_getMessage ?S k s"
    "cv_getMessage ?S k (cv_removeContact ?S i s) = cv_getMessage ?S k s"
    "cv_getContact ?S k (cv_clear ?S s) = None" "cv_getMessage ?S k (cv_clear ?S s) = None"
    using id by (auto simp: web_conv_defs split: option.splits)
  show "c \<in> set (cv_listContacts ?S s) \<longleftrightarrow> cv_getContact ?S (ct_identityKey c) s = Some c"
    "m \<in> set (cv_listAllMessages ?S s) \<longleftrightarrow> cv_getMessage ?S (sm_id m) s = Some m"
    using kc km by (simp_all add: web_conv_defs keyed_by_mem)
  show "ct_identityKey c = k" if "cv_getContact ?S k s = Some c" using that kc by (simp add: web_conv_defs keyed_by_def)
  show "sm_id m = k" if "cv_getMessage ?S k s = Some m" using that km by (simp add: web_conv_defs keyed_by_def)
  show "distinct (map sm_id (cv_listAllMessages ?S s))" using km by (simp add: web_conv_defs keyed_by_distinct)
  show "page_of k lo (cv_listAllMessages ?S s) (cv_listMessages ?S k lo s)"
    using mc_listMessages_page [of k lo "\<lparr>mc_contacts = [], mc_messages = wd_messages s\<rparr>"]
    by (simp add: IpcConversationStore_def st_listMessages_mem mc_listAllMessages_def st_listAllMessages_def idb_getAll_def jvals_def)
  show "web_db_ok (cv_upsertContact ?S c s)" "web_db_ok (cv_removeContact ?S i s)" "web_db_ok (cv_appendMessage ?S m s)"
    "web_db_ok (cv_updateMessage ?S i p s)" "web_db_ok (cv_clear ?S s)"
    using s by (auto simp: web_conv_defs web_db_ok_def split: option.splits)
qed

subsection \<open>The send queue\<close>

definition pq_enqueue :: "pending_message \<Rightarrow> 'm web_db \<Rightarrow> 'm web_db" where
  "pq_enqueue msg db = db\<lparr>wd_pending := idb_put (pm_messageId msg) msg (wd_pending db)\<rparr>"

definition pq_get :: "string \<Rightarrow> 'm web_db \<Rightarrow> pending_message option" where
  "pq_get i db = idb_get i (wd_pending db)"

definition pq_update_write :: "pending_message option \<Rightarrow> pending_patch \<Rightarrow> 'm web_db \<Rightarrow> 'm web_db" where
  "pq_update_write existing patch db = (case existing of None \<Rightarrow> db | Some m \<Rightarrow> pq_enqueue (apply_patch patch m) db)"

definition pq_update :: "string \<Rightarrow> pending_patch \<Rightarrow> 'm web_db \<Rightarrow> 'm web_db" where
  "pq_update i patch db = pq_update_write (pq_get i db) patch db"

definition pq_remove :: "string \<Rightarrow> 'm web_db \<Rightarrow> 'm web_db" where
  "pq_remove i db = db\<lparr>wd_pending := idb_del i (wd_pending db)\<rparr>"

definition pq_list :: "'m web_db \<Rightarrow> pending_message list" where
  "pq_list db = idb_getAll (wd_pending db)"

definition pq_clear :: "'m web_db \<Rightarrow> 'm web_db" where
  "pq_clear db = db\<lparr>wd_pending := idb_clearStore (wd_pending db)\<rparr>"

definition IpcPendingQueueStore :: "'m web_db pending_store" where
  "IpcPendingQueueStore = \<lparr>ps_enqueue = pq_enqueue, ps_update = pq_update, ps_remove = pq_remove,
     ps_get = pq_get, ps_list = pq_list, ps_clear = pq_clear\<rparr>"

lemmas web_pending_defs = IpcPendingQueueStore_def pq_enqueue_def pq_get_def pq_update_def pq_update_write_def pq_remove_def
  pq_list_def pq_clear_def

interpretation web_pending: pending_queue_store IpcPendingQueueStore web_db_ok
proof
  fix s :: "'m web_db" and k i m p
  assume s: "web_db_ok s"
  then have kp: "keyed_by pm_messageId (wd_pending s)" by (simp add: web_db_ok_def)
  let ?S = "IpcPendingQueueStore :: 'm web_db pending_store"
  have id: "pm_messageId n = j" if "idb_get j (wd_pending s) = Some n" for j n using kp that by (simp add: keyed_by_def)
  show "ps_get ?S k (ps_enqueue ?S m s) = (if k = pm_messageId m then Some m else ps_get ?S k s)"
    "ps_get ?S k (ps_update ?S i p s) = (if k = i then map_option (apply_patch p) (ps_get ?S k s) else ps_get ?S k s)"
    "ps_get ?S k (ps_remove ?S i s) = (if k = i then None else ps_get ?S k s)" "ps_get ?S k (ps_clear ?S s) = None"
    using id by (auto simp: web_pending_defs split: option.splits)
  show "m \<in> set (ps_list ?S s) \<longleftrightarrow> ps_get ?S (pm_messageId m) s = Some m" using kp by (simp add: web_pending_defs keyed_by_mem)
  show "distinct (map pm_messageId (ps_list ?S s))" using kp by (simp add: web_pending_defs keyed_by_distinct)
  show "pm_messageId m = k" if "ps_get ?S k s = Some m" using that kp by (simp add: web_pending_defs keyed_by_def)
  show "web_db_ok (ps_enqueue ?S m s)" "web_db_ok (ps_update ?S i p s)" "web_db_ok (ps_remove ?S i s)" "web_db_ok (ps_clear ?S s)"
    using s by (auto simp: web_pending_defs web_db_ok_def split: option.splits)
qed

subsection \<open>Settings\<close>

record app_settings =
  as_boards :: json
  as_iceServers :: json
  as_relayOnlyByDefault :: json
  as_pushNotifications :: json
  as_blockedKeys :: json

definition DEFAULT_SETTINGS :: app_settings where
  "DEFAULT_SETTINGS = \<lparr>as_boards = JArr [JStr ''wss://board.roshew.com/''],
     as_iceServers = JArr [JObj [(''urls'', JStr ''stun:stun.l.google.com:19302'')]],
     as_relayOnlyByDefault = JBool False, as_pushNotifications = JBool False, as_blockedKeys = JArr []\<rparr>"

definition js_truthy :: "json \<Rightarrow> bool" where
  "js_truthy j = (case j of JNull \<Rightarrow> False | JBool b \<Rightarrow> b | JNum n \<Rightarrow> n \<noteq> 0 | JStr s \<Rightarrow> s \<noteq> [] | _ \<Rightarrow> True)"

definition has_length :: "json option \<Rightarrow> bool" where
  \<comment> \<open>\<open>v?.length\<close> is truthy\<close>
  "has_length v = (case v of
       Some (JArr xs) \<Rightarrow> xs \<noteq> []
     | Some (JStr s) \<Rightarrow> s \<noteq> []
     | Some (JObj fs) \<Rightarrow> (case jget fs ''length'' of Some l \<Rightarrow> js_truthy l | None \<Rightarrow> False)
     | _ \<Rightarrow> False)"

definition json_or :: "json option \<Rightarrow> json \<Rightarrow> json" where
  "json_or v d = (case v of None \<Rightarrow> d | Some JNull \<Rightarrow> d | Some j \<Rightarrow> j)"

definition loadSettings :: "string option \<Rightarrow> app_settings" where
  "loadSettings raw =
     (if or_default raw [] = [] then DEFAULT_SETTINGS
      else case json_parse (or_default raw []) of
             None \<Rightarrow> DEFAULT_SETTINGS
           | Some JNull \<Rightarrow> DEFAULT_SETTINGS
           | Some parsed \<Rightarrow> \<lparr>
               as_boards = (if has_length (jprop parsed ''boards'') then or_default (jprop parsed ''boards'') JNull
                            else as_boards DEFAULT_SETTINGS),
               as_iceServers = json_or (jprop parsed ''iceServers'') (as_iceServers DEFAULT_SETTINGS),
               as_relayOnlyByDefault = json_or (jprop parsed ''relayOnlyByDefault'') (as_relayOnlyByDefault DEFAULT_SETTINGS),
               as_pushNotifications = json_or (jprop parsed ''pushNotifications'') (as_pushNotifications DEFAULT_SETTINGS),
               as_blockedKeys = json_or (jprop parsed ''blockedKeys'') (as_blockedKeys DEFAULT_SETTINGS)\<rparr>)"

definition settings_json :: "app_settings \<Rightarrow> json" where
  "settings_json s = JObj [(''boards'', as_boards s), (''iceServers'', as_iceServers s),
     (''relayOnlyByDefault'', as_relayOnlyByDefault s), (''pushNotifications'', as_pushNotifications s),
     (''blockedKeys'', as_blockedKeys s)]"

definition settings_set :: "app_settings \<Rightarrow> string option" where
  "settings_set s = Some (json_str (settings_json s))"

definition settings_ok :: "app_settings \<Rightarrow> bool" where
  \<comment> \<open>the typed shape: at least one board, no field missing\<close>
  "settings_ok s = (has_length (Some (as_boards s)) \<and> JNull \<notin> {as_iceServers s, as_relayOnlyByDefault s, as_pushNotifications s, as_blockedKeys s}
     \<and> wf_json (settings_json s))"

lemma json_or_keeps: "JNull \<noteq> j \<Longrightarrow> json_or (Some j) d = j"
  by (cases j) (simp_all add: json_or_def)

text \<open>What was stored is what is loaded.\<close>

lemma settings_kept:
  assumes "settings_ok s"
  shows "loadSettings (settings_set s) = s"
proof -
  have p: "json_parse (json_str (settings_json s)) = Some (settings_json s)" using assms by (simp add: settings_ok_def)
  then have ne: "json_str (settings_json s) \<noteq> []" by (auto simp: json_parse_def)
  show ?thesis using assms p ne
    by (simp add: loadSettings_def settings_set_def settings_ok_def json_or_keeps) (simp add: settings_json_def json_or_keeps)
qed

subsection \<open>An interrupted update\<close>

text \<open>
  \<open>pending.update\<close> reads in one transaction and writes in another. A removal between the two (the
  recipient's acknowledgement) is undone by the write.
\<close>

lemma interrupted_update:
  assumes "pq_get i db = Some m" "web_db_ok db"
  shows "pq_get i (pq_update_write (pq_get i db) p (pq_remove i db)) = Some (apply_patch p m)"
  using assms by (auto simp: web_pending_defs web_db_ok_def keyed_by_def)

end
