(* ===== verification/MigrationManager.thy ===== *)
theory MigrationManager
  imports MigrationCore Sealed KeyStore
begin

text \<open>
  \<open>packages/orpal-core/src/messaging/migration-manager.ts\<close>: the orchestrator of an identity migration, on
  both sides. The migrating device mints new keys, keeps them in a slot of their own, counts
  acknowledgements and promotes the keys at retirement; a contact queues an incoming migration until the
  user accepts it, or checks by two challenges that the sender holds both transport keys. The three stores
  are interfaces over one world \<open>'w\<close>; the locale \<open>migration_stores\<close> says what the manager needs of them.
\<close>

subsection \<open>State\<close>

datatype migration_phase = Notifying | DualValidity | Retiring | Complete

record migration_state =
  mg_phase :: migration_phase
  mg_oldIdentityKey :: string
  mg_newIdentityKey :: string
  mg_migration :: json
  mg_retireAfterUtc :: string
  mg_issuedUtc :: string
  mg_notifiedContacts :: "string list"
  mg_acknowledgedContacts :: "string list"
  mg_newStoredKeys :: "stored_keys option"

record pending_migration =
  pn_contactKey :: string
  pn_contactName :: string
  pn_migration :: json

record challenge_set =
  cs_contactKey :: string
  cs_migration :: json
  cs_oldNonce :: bytes
  cs_newNonce :: bytes
  cs_oldAckPriv :: bytes
  cs_oldAckPub :: bytes
  cs_newAckPriv :: bytes
  cs_newAckPub :: bytes
  cs_oldVerified :: bool
  cs_newVerified :: bool

record outbound_challenge =
  oc_target :: challenge_target
  oc_sealedNonceB64 :: string
  oc_ackPubkeyB64 :: string

record migration_manager =
  mm_registry :: registry
  mm_state :: "migration_state option"
  mm_newIdentity :: "device_identity option"
  mm_pendingIncoming :: "pending_migration list"
  mm_pendingChallenges :: "(string, challenge_set) jmap"

definition MigrationManager :: migration_manager where
  "MigrationManager = \<lparr>mm_registry = [], mm_state = None, mm_newIdentity = None, mm_pendingIncoming = [], mm_pendingChallenges = []\<rparr>"

definition mm_active :: "migration_manager \<Rightarrow> bool" where
  "mm_active mm = (case mm_state mm of None \<Rightarrow> False | Some st \<Rightarrow> mg_phase st \<noteq> Complete)"

definition mm_progress :: "migration_manager \<Rightarrow> (migration_phase \<times> nat \<times> nat \<times> string) option" where
  "mm_progress mm = map_option (\<lambda>st. (mg_phase st, length (mg_notifiedContacts st), length (mg_acknowledgedContacts st),
     mg_retireAfterUtc st)) (mm_state mm)"

definition newIdentityIfActive :: "migration_manager \<Rightarrow> device_identity option" where
  "newIdentityIfActive mm = (if mm_active mm then mm_newIdentity mm else None)"

subsection \<open>The initiator: start, acknowledgements, retirement\<close>

text \<open>An operation that throws returns the error and what it had done by then.\<close>

definition mm_init ::
  "crypto \<Rightarrow> 'w key_store \<Rightarrow> ('w, migration_state) slot_ops \<Rightarrow> migration_manager \<Rightarrow> 'w \<Rightarrow> string option \<times> migration_manager \<times> 'w" where
  "mm_init C pending mstore mm w =
     (case sl_load mstore w of
        Inl e \<Rightarrow> (Some e, mm, w)
      | Inr None \<Rightarrow> (None, mm\<lparr>mm_state := None\<rparr>, w)
      | Inr (Some st) \<Rightarrow>
          (let mm1 = mm\<lparr>mm_state := Some st\<rparr>
           in if mg_phase st = Complete then (None, mm1, w)
              else case ks_load pending w of
                     (Inl e, w1) \<Rightarrow> (Some e, mm1, w1)
                   | (Inr (Some stored), w1) \<Rightarrow> (None, mm1\<lparr>mm_newIdentity := Some (fromStored C stored)\<rparr>, w1)
                   | (Inr None, w1) \<Rightarrow>
                       (case mg_newStoredKeys st of
                          None \<Rightarrow> (None, mm1, w1)
                        | Some legacy \<Rightarrow> (case ks_save pending legacy w1 of
                            (Some e, w2) \<Rightarrow> (Some e, mm1, w2)
                          | (None, w2) \<Rightarrow>
                              (let st1 = st\<lparr>mg_newStoredKeys := None\<rparr>;
                                   mm2 = mm1\<lparr>mm_newIdentity := Some (fromStored C legacy), mm_state := Some st1\<rparr>
                               in case sl_save mstore st1 w2 of (r, w3) \<Rightarrow> (r, mm2, w3))))))"

definition initial_state :: "device_identity \<Rightarrow> device_identity \<Rightarrow> json \<Rightarrow> string \<Rightarrow> string list \<Rightarrow> migration_state" where
  "initial_state current newId migration retireAfterUtc contacts =
     \<lparr>mg_phase = Notifying, mg_oldIdentityKey = identityKeyB64 current, mg_newIdentityKey = identityKeyB64 newId,
      mg_migration = migration, mg_retireAfterUtc = retireAfterUtc, mg_issuedUtc = jstr (jprop migration ''issued_utc''),
      mg_notifiedContacts = contacts, mg_acknowledgedContacts = [], mg_newStoredKeys = None\<rparr>"

definition startMigration ::
  "crypto \<Rightarrow> 'w key_store \<Rightarrow> ('w, migration_state) slot_ops \<Rightarrow> device_identity \<Rightarrow> string list \<Rightarrow> string \<Rightarrow> bytes \<Rightarrow> bytes
    \<Rightarrow> bytes \<Rightarrow> string \<Rightarrow> migration_manager \<Rightarrow> 'w \<Rightarrow> (string + json \<times> device_identity) \<times> migration_manager \<times> 'w" where
  "startMigration C pending mstore current contacts retireAfterUtc rs rt nonce now mm w =
     (if mm_active mm then (Inl ''A migration is already in progress.'', mm, w)
      else
        (let newStoredKeys = mintStoredKeys rs rt now;
             newId = fromStored C newStoredKeys;
             migration = JObj (makeKeyMigration C current newId retireAfterUtc None None (Some now) nonce now)
         in case ks_save pending newStoredKeys w of
              (Some e, w1) \<Rightarrow> (Inl e, mm, w1)
            | (None, w1) \<Rightarrow>
                (let st = initial_state current newId migration retireAfterUtc contacts;
                     mm1 = mm\<lparr>mm_newIdentity := Some newId, mm_state := Some st\<rparr>
                 in case sl_save mstore st w1 of
                      (Some e, w2) \<Rightarrow> (Inl e, mm1, w2)
                    | (None, w2) \<Rightarrow> (Inr (migration, newId), mm1, w2))))"

definition markNotified :: "('w, migration_state) slot_ops \<Rightarrow> migration_manager \<Rightarrow> 'w \<Rightarrow> string option \<times> migration_manager \<times> 'w" where
  "markNotified mstore mm w =
     (case mm_state mm of
        None \<Rightarrow> (None, mm, w)
      | Some st \<Rightarrow>
          if mg_phase st \<noteq> Notifying then (None, mm, w)
          else let st1 = st\<lparr>mg_phase := DualValidity\<rparr>
               in case sl_save mstore st1 w of (r, w1) \<Rightarrow> (r, mm\<lparr>mm_state := Some st1\<rparr>, w1))"

definition handleMigrationAck ::
  "crypto \<Rightarrow> ('w, migration_state) slot_ops \<Rightarrow> json \<Rightarrow> string \<Rightarrow> migration_manager \<Rightarrow> 'w \<Rightarrow> (string + bool) \<times> migration_manager \<times> 'w" where
  "handleMigrationAck C mstore ack fromContactKey mm w =
     (case mm_state mm of
        None \<Rightarrow> (Inr False, mm, w)
      | Some st \<Rightarrow>
          if verifyMigrationAck C ack (Some fromContactKey) \<noteq> Inr () then (Inr False, mm, w)
          else if jprop ack ''old_key'' \<noteq> Some (JStr (mg_oldIdentityKey st)) \<or> jprop ack ''new_key'' \<noteq> Some (JStr (mg_newIdentityKey st))
          then (Inr False, mm, w)
          else if fromContactKey \<in> set (mg_acknowledgedContacts st) then (Inr True, mm, w)
          else let st1 = st\<lparr>mg_acknowledgedContacts := mg_acknowledgedContacts st @ [fromContactKey]\<rparr>
               in case sl_save mstore st1 w of
                    (Some e, w1) \<Rightarrow> (Inl e, mm\<lparr>mm_state := Some st1\<rparr>, w1)
                  | (None, w1) \<Rightarrow> (Inr True, mm\<lparr>mm_state := Some st1\<rparr>, w1))"

definition retire ::
  "'w key_store \<Rightarrow> 'w key_store \<Rightarrow> ('w, migration_state) slot_ops \<Rightarrow> migration_manager \<Rightarrow> 'w \<Rightarrow> string option \<times> migration_manager \<times> 'w" where
  "retire main pending mstore mm w =
     (case mm_state mm of
        None \<Rightarrow> (None, mm, w)
      | Some st \<Rightarrow>
          (case ks_load pending w of
             (Inl e, w1) \<Rightarrow> (Some e, mm, w1)
           | (Inr None, w1) \<Rightarrow> (None, mm, w1)
           | (Inr (Some stored), w1) \<Rightarrow>
               (case ks_clear main w1 of
                  (Some e, w2) \<Rightarrow> (Some e, mm, w2)
                | (None, w2) \<Rightarrow>
                    (case ks_save main stored w2 of
                       (Some e, w3) \<Rightarrow> (Some e, mm, w3)
                     | (None, w3) \<Rightarrow>
                         (case ks_clear pending w3 of
                            (Some e, w4) \<Rightarrow> (Some e, mm, w4)
                          | (None, w4) \<Rightarrow>
                              (let st1 = st\<lparr>mg_phase := Complete\<rparr>; mm1 = mm\<lparr>mm_state := Some st1\<rparr>
                               in case sl_save mstore st1 w4 of
                                    (Some e, w5) \<Rightarrow> (Some e, mm1, w5)
                                  | (None, w5) \<Rightarrow> (case sl_clear mstore w5 of (r, w6) \<Rightarrow> (r, mm1, w6))))))))"

definition isRetirementDue :: "int \<Rightarrow> migration_manager \<Rightarrow> bool" where
  "isRetirementDue nowMs mm =
     (case mm_state mm of
        None \<Rightarrow> False
      | Some st \<Rightarrow> (case date_parse (mg_retireAfterUtc st) of None \<Rightarrow> False | Some ms \<Rightarrow> ms \<le> nowMs))"

subsection \<open>The recipient: queue, accept, decline\<close>

definition handleIncomingMigration :: "crypto \<Rightarrow> json \<Rightarrow> string \<Rightarrow> string \<Rightarrow> migration_manager \<Rightarrow> (string + unit) \<times> migration_manager" where
  "handleIncomingMigration C migration contactKey contactName mm =
     (case verifyKeyMigration C migration of
        Inl e \<Rightarrow> (Inl e, mm)
      | Inr _ \<Rightarrow>
          if jprop migration ''old_key'' \<noteq> Some (JStr contactKey) then (Inl ''migration-sender-mismatch'', mm)
          else if \<exists>p\<in>set (mm_pendingIncoming mm). pn_contactKey p = contactKey
              \<and> jprop (pn_migration p) ''new_key'' = jprop migration ''new_key''
          then (Inr (), mm)
          else (Inr (), mm\<lparr>mm_pendingIncoming := mm_pendingIncoming mm @
              [\<lparr>pn_contactKey = contactKey, pn_contactName = contactName, pn_migration = migration\<rparr>]\<rparr>))"

fun remove_first :: "('a \<Rightarrow> bool) \<Rightarrow> 'a list \<Rightarrow> 'a list" where
  "remove_first P [] = []"
| "remove_first P (x # xs) = (if P x then xs else x # remove_first P xs)"

definition acceptIncomingMigration ::
  "crypto \<Rightarrow> string \<Rightarrow> migration_manager \<Rightarrow> (json \<times> string \<times> string \<times> json) option \<times> migration_manager" where
  \<comment> \<open>the migration and the contact's new identity key, transport key and binding\<close>
  "acceptIncomingMigration C contactKey mm =
     (case find (\<lambda>p. pn_contactKey p = contactKey) (mm_pendingIncoming mm) of
        None \<Rightarrow> (None, mm)
      | Some p \<Rightarrow>
          (let m = pn_migration p; binding = the (jprop m ''new_binding'')
           in (Some (m, jstr (jprop m ''new_key''), jstr (jprop binding ''transport_key''), binding),
               mm\<lparr>mm_pendingIncoming := remove_first (\<lambda>p. pn_contactKey p = contactKey) (mm_pendingIncoming mm),
                  mm_registry := snd (reg_accept C (mm_registry mm) m)\<rparr>)))"

definition declineIncomingMigration :: "string \<Rightarrow> migration_manager \<Rightarrow> migration_manager" where
  "declineIncomingMigration contactKey mm =
     mm\<lparr>mm_pendingIncoming := remove_first (\<lambda>p. pn_contactKey p = contactKey) (mm_pendingIncoming mm)\<rparr>"

definition buildMigrationAck :: "crypto \<Rightarrow> device_identity \<Rightarrow> json \<Rightarrow> bytes \<Rightarrow> string \<Rightarrow> fields" where
  "buildMigrationAck C recipient migration nonce now = makeMigrationAck C recipient migration None (Some now) nonce now"

subsection \<open>Challenges\<close>

text \<open>The random values of one pair of challenges: nonces, acknowledgement keys, ephemeral keys of the boxes.\<close>

record challenge_random =
  cd_oldNonce :: bytes
  cd_newNonce :: bytes
  cd_oldAckPriv :: bytes
  cd_newAckPriv :: bytes
  cd_oldEph :: bytes
  cd_newEph :: bytes

definition createChallenges ::
  "crypto \<Rightarrow> challenge_random \<Rightarrow> string \<Rightarrow> string \<Rightarrow> migration_manager \<Rightarrow> (string + outbound_challenge list option) \<times> migration_manager" where
  "createChallenges C d contactKey oldTransportKeyB64 mm =
     (case find (\<lambda>p. pn_contactKey p = contactKey) (mm_pendingIncoming mm) of
        None \<Rightarrow> (Inr None, mm)
      | Some p \<Rightarrow>
          (let oldAckPub = x_pub C (cd_oldAckPriv d); newAckPub = x_pub C (cd_newAckPriv d);
               oldTransportKey = b64uDecode oldTransportKeyB64;
               newTransportKey = b64uDecode (jstr (jprop (the (jprop (pn_migration p) ''new_binding'')) ''transport_key''))
           in case (seal C (cd_oldEph d) (cd_oldNonce d) oldTransportKey, seal C (cd_newEph d) (cd_newNonce d) newTransportKey) of
                (Some sealedOld, Some sealedNew) \<Rightarrow>
                  (Inr (Some [\<lparr>oc_target = OldKey, oc_sealedNonceB64 = b64uEncode sealedOld, oc_ackPubkeyB64 = b64uEncode oldAckPub\<rparr>,
                              \<lparr>oc_target = NewKey, oc_sealedNonceB64 = b64uEncode sealedNew, oc_ackPubkeyB64 = b64uEncode newAckPub\<rparr>]),
                   mm\<lparr>mm_pendingChallenges := jset contactKey
                      \<lparr>cs_contactKey = contactKey, cs_migration = pn_migration p, cs_oldNonce = cd_oldNonce d, cs_newNonce = cd_newNonce d,
                       cs_oldAckPriv = cd_oldAckPriv d, cs_oldAckPub = oldAckPub, cs_newAckPriv = cd_newAckPriv d, cs_newAckPub = newAckPub,
                       cs_oldVerified = False, cs_newVerified = False\<rparr> (mm_pendingChallenges mm)\<rparr>)
              | _ \<Rightarrow> (Inl ''seal'', mm)))"

definition opens_to_nonce :: "crypto \<Rightarrow> challenge_set \<Rightarrow> challenge_target \<Rightarrow> string \<Rightarrow> bool" where
  "opens_to_nonce C cs target sealedEchoB64 =
     (let ackPriv = (case target of OldKey \<Rightarrow> cs_oldAckPriv cs | NewKey \<Rightarrow> cs_newAckPriv cs);
          ackPub = (case target of OldKey \<Rightarrow> cs_oldAckPub cs | NewKey \<Rightarrow> cs_newAckPub cs);
          expectedNonce = (case target of OldKey \<Rightarrow> cs_oldNonce cs | NewKey \<Rightarrow> cs_newNonce cs)
      in unseal C (b64uDecode sealedEchoB64) ackPriv ackPub = Some expectedNonce)"

definition mark_verified :: "challenge_target \<Rightarrow> challenge_set \<Rightarrow> challenge_set" where
  "mark_verified target cs = (case target of OldKey \<Rightarrow> cs\<lparr>cs_oldVerified := True\<rparr> | NewKey \<Rightarrow> cs\<lparr>cs_newVerified := True\<rparr>)"

text \<open>The result: both verified, valid.\<close>

definition verifyChallengeResponse ::
  "crypto \<Rightarrow> string \<Rightarrow> challenge_target \<Rightarrow> string \<Rightarrow> migration_manager \<Rightarrow> (bool \<times> bool) \<times> migration_manager" where
  "verifyChallengeResponse C contactKey target sealedEchoB64 mm =
     (case jget (mm_pendingChallenges mm) contactKey of
        None \<Rightarrow> ((False, False), mm)
      | Some cs \<Rightarrow>
          if \<not> opens_to_nonce C cs target sealedEchoB64 then ((False, False), mm)
          else
            (let cs1 = mark_verified target cs; bothVerified = (cs_oldVerified cs1 \<and> cs_newVerified cs1)
             in ((bothVerified, True), mm\<lparr>mm_pendingChallenges :=
                   (if bothVerified then jdel contactKey (mm_pendingChallenges mm)
                    else jset contactKey cs1 (mm_pendingChallenges mm))\<rparr>)))"

definition hasPendingChallenge :: "string \<Rightarrow> migration_manager \<Rightarrow> bool" where
  "hasPendingChallenge contactKey mm = jhas (mm_pendingChallenges mm) contactKey"

definition answerChallenge ::
  "crypto \<Rightarrow> bytes \<Rightarrow> device_identity \<Rightarrow> challenge_target \<Rightarrow> string \<Rightarrow> string \<Rightarrow> migration_manager \<Rightarrow> string + string option" where
  "answerChallenge C eph currentIdentity target sealedNonceB64 ackPubkeyB64 mm =
     (case (case target of OldKey \<Rightarrow> Some currentIdentity | NewKey \<Rightarrow> mm_newIdentity mm) of
        None \<Rightarrow> Inr None
      | Some i \<Rightarrow> (case unseal C (b64uDecode sealedNonceB64) (di_transportPriv i) (transportPub i) of
          None \<Rightarrow> Inr None
        | Some nonce \<Rightarrow> (case seal C eph nonce (b64uDecode ackPubkeyB64) of
            None \<Rightarrow> Inl ''seal''
          | Some sealedEcho \<Rightarrow> Inr (Some (b64uEncode sealedEcho)))))"

subsection \<open>What the manager needs of its stores, and what it then keeps\<close>

text \<open>
  Two key stores and a store for the migration's state, over one world, that leave each other alone.
\<close>

locale migration_stores =
  main: secure_key_store main main_holds + pending: secure_key_store pending pending_holds
  for main :: "'w key_store" and main_holds and pending :: "'w key_store" and pending_holds +
  fixes mstore :: "('w, migration_state) slot_ops" and saved :: "'w \<Rightarrow> migration_state option"
  assumes mstore_load: "sl_load mstore w = Inr (saved w)"
    and mstore_save: "saved (snd (sl_save mstore v w)) = (case fst (sl_save mstore v w) of None \<Rightarrow> Some v | Some _ \<Rightarrow> saved w)"
    and mstore_clear: "saved (snd (sl_clear mstore w)) = (case fst (sl_clear mstore w) of None \<Rightarrow> None | Some _ \<Rightarrow> saved w)"
    and main_leaves: "pending_holds k w \<Longrightarrow> pending_holds k (snd (ks_save main keys w))"
      "pending_holds k w \<Longrightarrow> pending_holds k (snd (ks_clear main w))"
    and pending_leaves: "main_holds k w \<Longrightarrow> main_holds k (snd (ks_load pending w))"
      "main_holds k w \<Longrightarrow> main_holds k (snd (ks_save pending keys w))" "main_holds k w \<Longrightarrow> main_holds k (snd (ks_clear pending w))"
    and mstore_leaves: "main_holds k w \<Longrightarrow> main_holds k (snd (sl_save mstore v w))" "main_holds k w \<Longrightarrow> main_holds k (snd (sl_clear mstore w))"
      "pending_holds k w \<Longrightarrow> pending_holds k (snd (sl_save mstore v w))" "pending_holds k w \<Longrightarrow> pending_holds k (snd (sl_clear mstore w))"
    and keys_leave_state: "saved (snd (ks_load pending w)) = saved w" "saved (snd (ks_save main keys w)) = saved w"
      "saved (snd (ks_clear main w)) = saved w"
begin

text \<open>
  Retiring never loses the new keys: whichever step fails, they are in the pending slot or in the main
  one, and when nothing fails they are in the main one, with nothing left of the migration.
\<close>

lemma retire_keeps_keys:
  assumes p: "pending_holds (Some keys) w" and m: "main_holds k w" and st: "mm_state mm \<noteq> None"
    and r: "retire main pending mstore mm w = (r, mm1, w1)"
  shows "pending_holds (Some keys) w1 \<or> main_holds (Some keys) w1"
    and "r = None \<Longrightarrow> main_holds (Some keys) w1 \<and> pending_holds None w1 \<and> saved w1 = None"
proof -
  obtain st where st: "mm_state mm = Some st" using st by blast
  obtain w2 where l: "ks_load pending w = (Inr (Some keys), w2)" and p2: "pending_holds (Some keys) w2"
    using pending.load_holds [OF p] by (cases "ks_load pending w") auto
  have m2: "main_holds k w2" using pending_leaves(1) [OF m] l by simp
  obtain e3 w3 where c: "ks_clear main w2 = (e3, w3)" by fastforce
  have p3: "pending_holds (Some keys) w3" using main_leaves(2) [OF p2] c by simp
  obtain e4 w4 where sv: "ks_save main keys w3 = (e4, w4)" by fastforce
  have p4: "pending_holds (Some keys) w4" using main_leaves(1) [OF p3, of keys] sv by simp
  obtain e5 w5 where pc: "ks_clear pending w4 = (e5, w5)" by fastforce
  let ?st = "st\<lparr>mg_phase := Complete\<rparr>"
  obtain e6 w6 where ms: "sl_save mstore ?st w5 = (e6, w6)" by fastforce
  obtain e7 w7 where mc: "sl_clear mstore w6 = (e7, w7)" by fastforce
  note eqs = retire_def st l c sv pc ms mc
  have "(pending_holds (Some keys) w1 \<or> main_holds (Some keys) w1)
    \<and> (r = None \<longrightarrow> main_holds (Some keys) w1 \<and> pending_holds None w1 \<and> saved w1 = None)"
  proof (cases "e3 = None \<and> e4 = None")
    case False
    then have "w1 = w3 \<and> r \<noteq> None \<or> w1 = w4 \<and> r \<noteq> None" using r by (auto simp: eqs Let_def split: option.splits)
    then show ?thesis using p3 p4 by auto
  next
    case True
    have m3: "main_holds None w3" using main.clear_holds [OF m2] c True by simp
    have m4: "main_holds (Some keys) w4" using main.save_holds [OF m3, of keys] sv True by simp
    have m5: "main_holds (Some keys) w5" using pending_leaves(3) [OF m4] pc by simp
    have m6: "main_holds (Some keys) w6" using mstore_leaves(1) [OF m5, of ?st] ms by simp
    have m7: "main_holds (Some keys) w7" using mstore_leaves(2) [OF m6] mc by simp
    have w1: "w1 \<in> {w5, w6, w7}" "r = None \<Longrightarrow> e5 = None \<and> e6 = None \<and> e7 = None \<and> w1 = w7"
      using r True by (auto simp: eqs Let_def split: option.splits)
    then have any: "main_holds (Some keys) w1" using m5 m6 m7 by blast
    have "pending_holds None w1 \<and> saved w1 = None" if "r = None"
    proof -
      have e: "e5 = None" "e7 = None" "w1 = w7" using w1(2) [OF that] by auto
      have p5: "pending_holds None w5" using pending.clear_holds [OF p4] pc e by simp
      have p6: "pending_holds None w6" using mstore_leaves(3) [OF p5, of ?st] ms by simp
      have "pending_holds None w7" using mstore_leaves(4) [OF p6] mc by simp
      then show ?thesis using e mstore_clear [of w6] mc by simp
    qed
    then show ?thesis using any by blast
  qed
  then show "pending_holds (Some keys) w1 \<or> main_holds (Some keys) w1"
    and "r = None \<Longrightarrow> main_holds (Some keys) w1 \<and> pending_holds None w1 \<and> saved w1 = None"
    by blast+
qed

text \<open>A start leaves the new keys in the pending slot and the main slot as it was.\<close>

lemma start_keeps:
  assumes p: "pending_holds k w" and m: "main_holds k' w"
    and s: "startMigration C pending mstore cur contacts ret rs rt nonce now mm w = (Inr (migration, newId), mm1, w1)"
  shows "pending_holds (Some (mintStoredKeys rs rt now)) w1 \<and> main_holds k' w1 \<and> newId = fromStored C (mintStoredKeys rs rt now)
    \<and> (\<exists>st. saved w1 = Some st \<and> mg_phase st \<noteq> Complete)"
proof -
  let ?keys = "mintStoredKeys rs rt now"
  let ?st = "initial_state cur (fromStored C ?keys)
    (JObj (makeKeyMigration C cur (fromStored C ?keys) ret None None (Some now) nonce now)) ret contacts"
  obtain e2 w2 where sv: "ks_save pending ?keys w = (e2, w2)" by fastforce
  obtain e3 w3 where ms: "sl_save mstore ?st w2 = (e3, w3)" by fastforce
  note start = startMigration_def [of C pending mstore cur contacts ret rs rt nonce now mm w]
  have na: "\<not> mm_active mm" using s by (simp add: start split: if_splits)
  have e2: "e2 = None" using s na by (cases e2) (simp_all add: start sv Let_def)
  have res: "w1 = w3" "newId = fromStored C ?keys" "e3 = None" using s na ms by (cases e3; simp add: start sv e2 Let_def)+
  have "saved w1 = Some ?st" "mg_phase ?st \<noteq> Complete" using mstore_save [of ?st w2] ms res by (simp_all add: initial_state_def)
  have "pending_holds (Some ?keys) w2" using pending.save_holds [OF p, of ?keys] sv e2 by simp
  moreover have "main_holds k' w2" using pending_leaves(2) [OF m, of ?keys] sv by simp
  moreover note \<open>saved w1 = Some ?st\<close> \<open>mg_phase ?st \<noteq> Complete\<close>
  ultimately show ?thesis using mstore_leaves(1) [of k' w2 ?st] mstore_leaves(3) [of "Some ?keys" w2 ?st] ms
    by (simp add: res)
qed

lemma init_total:
  assumes "pending_holds (Some keys) w" "saved w = Some st"
  shows "\<exists>mm1 w1. mm_init C pending mstore mm w = (None, mm1, w1)"
  using pending.load_holds [OF assms(1)] assms(2)
  by (cases "ks_load pending w") (auto simp: mm_init_def mstore_load Let_def)

lemma init_keeps:
  assumes i: "mm_init C pending mstore mm w = (None, mm1, w1)" and k: "pending_holds (Some keys) w" and m: "main_holds k' w"
    and s: "saved w = Some st" "mg_phase st \<noteq> Complete"
  shows "pending_holds (Some keys) w1 \<and> main_holds k' w1 \<and> mm_state mm1 \<noteq> None"
proof -
  obtain w2 where l: "ks_load pending w = (Inr (Some keys), w2)" "pending_holds (Some keys) w2"
    using pending.load_holds [OF k] by (cases "ks_load pending w") auto
  then show ?thesis using i pending_leaves(1) [OF m] s by (auto simp: mm_init_def mstore_load Let_def)
qed

text \<open>What a start stored is what a later launch resumes with.\<close>

lemma start_resumes:
  assumes p: "pending_holds k w"
    and s: "startMigration C pending mstore cur contacts ret rs rt nonce now mm w = (Inr (migration, newId), mm1, w1)"
  shows "\<exists>st w2. mm_init C pending mstore MigrationManager w1 = (None, MigrationManager\<lparr>mm_state := Some st, mm_newIdentity := Some newId\<rparr>, w2)
    \<and> mm_state mm1 = Some st \<and> mg_migration st = migration \<and> mg_newIdentityKey st = identityKeyB64 newId
    \<and> mg_notifiedContacts st = contacts \<and> mg_phase st = Notifying"
proof -
  let ?keys = "mintStoredKeys rs rt now"
  let ?m = "JObj (makeKeyMigration C cur (fromStored C ?keys) ret None None (Some now) nonce now)"
  let ?st = "initial_state cur (fromStored C ?keys) ?m ret contacts"
  obtain e2 w2 where sv: "ks_save pending ?keys w = (e2, w2)" by fastforce
  obtain e3 w3 where ms: "sl_save mstore ?st w2 = (e3, w3)" by fastforce
  note start = startMigration_def [of C pending mstore cur contacts ret rs rt nonce now mm w]
  have na: "\<not> mm_active mm" using s by (simp add: start split: if_splits)
  have e2: "e2 = None" using s na by (cases e2) (simp_all add: start sv Let_def)
  have res: "e3 = None" "migration = ?m" "newId = fromStored C ?keys" "w1 = w3"
    "mm1 = mm\<lparr>mm_newIdentity := Some newId, mm_state := Some ?st\<rparr>"
    using s na ms by (cases e3; simp add: start sv e2 Let_def)+
  have st: "mm_state mm1 = Some ?st" "sl_save mstore ?st w2 = (None, w1)" "mg_migration ?st = migration"
    "mg_newIdentityKey ?st = identityKeyB64 newId" "mg_notifiedContacts ?st = contacts" "mg_phase ?st = Notifying"
    using ms by (simp_all add: res initial_state_def)
  have "pending_holds (Some ?keys) w2" using pending.save_holds [OF p, of ?keys] sv e2 by simp
  then have p1: "pending_holds (Some ?keys) w1" using mstore_leaves(3) [of "Some ?keys" w2 ?st] st(2) by simp
  have "saved w1 = Some ?st" using mstore_save [of ?st w2] st(2) by simp
  moreover obtain w3' where "ks_load pending w1 = (Inr (Some ?keys), w3')"
    using pending.load_holds [OF p1] by (cases "ks_load pending w1") auto
  ultimately have "mm_init C pending mstore MigrationManager w1 =
      (None, MigrationManager\<lparr>mm_state := Some ?st, mm_newIdentity := Some newId\<rparr>, w3')"
    using st(6) by (simp add: mm_init_def mstore_load MigrationManager_def Let_def res(3))
  with st(1,3-6) show ?thesis by blast
qed

end

subsection \<open>The challenges\<close>

lemma verified_iff:
  "verifyChallengeResponse C key t echo mm = ((both, valid), mm1) \<Longrightarrow> valid \<longleftrightarrow>
    (\<exists>cs. jget (mm_pendingChallenges mm) key = Some cs \<and> opens_to_nonce C cs t echo)"
  by (auto simp: verifyChallengeResponse_def Let_def split: option.splits if_splits)

text \<open>A run of responses from one contact; each entry is a target and an echo.\<close>

fun respond_all :: "crypto \<Rightarrow> string \<Rightarrow> (challenge_target \<times> string) list \<Rightarrow> migration_manager \<Rightarrow> bool \<times> migration_manager" where
  \<comment> \<open>stops at the response after which both are verified\<close>
  "respond_all C key [] mm = (False, mm)"
| "respond_all C key ((t, echo) # rs) mm =
     (case verifyChallengeResponse C key t echo mm of
        ((True, _), mm1) \<Rightarrow> (True, mm1)
      | ((False, _), mm1) \<Rightarrow> respond_all C key rs mm1)"

lemma opens_flags [simp]:
  "opens_to_nonce C (cs\<lparr>cs_oldVerified := b\<rparr>) = opens_to_nonce C cs" "opens_to_nonce C (cs\<lparr>cs_newVerified := b\<rparr>) = opens_to_nonce C cs"
  by (simp_all add: fun_eq_iff opens_to_nonce_def split: challenge_target.split)

lemma opens_mark [simp]: "opens_to_nonce C (mark_verified t cs) = opens_to_nonce C cs"
  by (cases t) (simp_all add: mark_verified_def)

lemma respond_all_needs:
  assumes "respond_all C key rs mm = (True, mm1)" "jget (mm_pendingChallenges mm) key = Some cs"
  shows "(cs_oldVerified cs \<or> (\<exists>echo. (OldKey, echo) \<in> set rs \<and> opens_to_nonce C cs OldKey echo))
    \<and> (cs_newVerified cs \<or> (\<exists>echo. (NewKey, echo) \<in> set rs \<and> opens_to_nonce C cs NewKey echo))"
  using assms
proof (induction rs arbitrary: mm cs)
  case (Cons r rs)
  obtain t echo where r: "r = (t, echo)" by fastforce
  show ?case
  proof (cases "opens_to_nonce C cs t echo")
    case False
    then have "verifyChallengeResponse C key t echo mm = ((False, False), mm)"
      using Cons.prems(2) by (simp add: verifyChallengeResponse_def)
    then show ?thesis using Cons.IH [OF _ Cons.prems(2)] Cons.prems(1) r by auto
  next
    case True
    show ?thesis
    proof (cases "cs_oldVerified (mark_verified t cs) \<and> cs_newVerified (mark_verified t cs)")
      case True
      then show ?thesis using \<open>opens_to_nonce C cs t echo\<close> r by (cases t) (auto simp: mark_verified_def)
    next
      case False
      define mm2 where "mm2 = mm\<lparr>mm_pendingChallenges := jset key (mark_verified t cs) (mm_pendingChallenges mm)\<rparr>"
      have "verifyChallengeResponse C key t echo mm = ((False, True), mm2)"
        using Cons.prems(2) \<open>opens_to_nonce C cs t echo\<close> False by (auto simp: verifyChallengeResponse_def Let_def mm2_def)
      then have "respond_all C key rs mm2 = (True, mm1)" using Cons.prems(1) r by simp
      from Cons.IH [OF this, of "mark_verified t cs"] show ?thesis
        using \<open>opens_to_nonce C cs t echo\<close> r by (cases t) (auto simp: mm2_def mark_verified_def)
    qed
  qed
qed simp

text \<open>
  An honest migrating device passes: it holds both transport keys, its answers open at the challenger, and
  the second one completes the pair.
\<close>

lemma honest_answers:
  assumes dh: "dh_ok C" and ae: "aead_ok C"
    and pend: "find (\<lambda>p. pn_contactKey p = key) (mm_pendingIncoming mm) = Some p"
    and old: "oldTk = b64uEncode (x_pub C a)" "di_transportPriv i = a" "transportPub i = x_pub C a"
    and new: "jprop (the (jprop (pn_migration p) ''new_binding'')) ''transport_key'' = Some (JStr (b64uEncode (x_pub C b)))"
      "mm_newIdentity theirs = Some n" "di_transportPriv n = b" "transportPub n = x_pub C b"
    and ch: "createChallenges C d key oldTk mm = (Inr (Some [c1, c2]), mm1)"
  shows "\<exists>e1 e2 mm2 mm3. answerChallenge C eph1 i (oc_target c1) (oc_sealedNonceB64 c1) (oc_ackPubkeyB64 c1) theirs = Inr (Some e1)
    \<and> answerChallenge C eph2 i (oc_target c2) (oc_sealedNonceB64 c2) (oc_ackPubkeyB64 c2) theirs = Inr (Some e2)
    \<and> verifyChallengeResponse C key (oc_target c1) e1 mm1 = ((False, True), mm2)
    \<and> verifyChallengeResponse C key (oc_target c2) e2 mm2 = ((True, True), mm3)"
proof -
  obtain so where so: "seal C (cd_oldEph d) (cd_oldNonce d) (x_pub C a) = Some so" using seal_total [OF dh] by blast
  obtain sn where sn: "seal C (cd_newEph d) (cd_newNonce d) (x_pub C b) = Some sn" using seal_total [OF dh] by blast
  obtain s1 where s1: "seal C eph1 (cd_oldNonce d) (x_pub C (cd_oldAckPriv d)) = Some s1" using seal_total [OF dh] by blast
  obtain s2 where s2: "seal C eph2 (cd_newNonce d) (x_pub C (cd_newAckPriv d)) = Some s2" using seal_total [OF dh] by blast
  note opened = unseal_seal [OF dh ae so] unseal_seal [OF dh ae sn] unseal_seal [OF dh ae s1] unseal_seal [OF dh ae s2]
  define cs where "cs = \<lparr>cs_contactKey = key, cs_migration = pn_migration p, cs_oldNonce = cd_oldNonce d, cs_newNonce = cd_newNonce d,
    cs_oldAckPriv = cd_oldAckPriv d, cs_oldAckPub = x_pub C (cd_oldAckPriv d), cs_newAckPriv = cd_newAckPriv d,
    cs_newAckPub = x_pub C (cd_newAckPriv d), cs_oldVerified = False, cs_newVerified = False\<rparr>"
  have c: "c1 = \<lparr>oc_target = OldKey, oc_sealedNonceB64 = b64uEncode so, oc_ackPubkeyB64 = b64uEncode (x_pub C (cd_oldAckPriv d))\<rparr>"
    "c2 = \<lparr>oc_target = NewKey, oc_sealedNonceB64 = b64uEncode sn, oc_ackPubkeyB64 = b64uEncode (x_pub C (cd_newAckPriv d))\<rparr>"
    "jget (mm_pendingChallenges mm1) key = Some cs"
    using ch by (auto simp: createChallenges_def pend Let_def old(1) new(1) so sn cs_def)
  have a: "answerChallenge C eph1 i (oc_target c1) (oc_sealedNonceB64 c1) (oc_ackPubkeyB64 c1) theirs = Inr (Some (b64uEncode s1))"
    "answerChallenge C eph2 i (oc_target c2) (oc_sealedNonceB64 c2) (oc_ackPubkeyB64 c2) theirs = Inr (Some (b64uEncode s2))"
    by (simp_all add: answerChallenge_def c(1,2) opened old new s1 s2)
  have o: "opens_to_nonce C cs OldKey (b64uEncode s1)" "opens_to_nonce C (mark_verified OldKey cs) NewKey (b64uEncode s2)"
    by (simp_all add: opens_to_nonce_def cs_def opened)
  have "cs_newVerified cs = False" by (simp add: cs_def)
  then show ?thesis using a o c(3)
    by (auto simp: c(1,2) verifyChallengeResponse_def Let_def mark_verified_def)
qed

lemma find_app_None: "find P xs = None \<Longrightarrow> find P (xs @ ys) = find P ys"
  by (induction xs) (auto split: if_splits)

lemma honest_move:
  assumes ok: "dh_ok C" "aead_ok C" "ed_ok C" "identity_ok C i" "identity_ok C n" "identityKeyB64 i \<noteq> identityKeyB64 n"
    and m: "m = JObj (makeKeyMigration C i n ret None None (Some now) nonce now)"
    and fresh: "find (\<lambda>p. pn_contactKey p = identityKeyB64 i) (mm_pendingIncoming mm0) = None"
    and h: "handleIncomingMigration C m (identityKeyB64 i) name mm0 = (r, mm)"
    and theirs: "mm_newIdentity theirs = Some n"
    and ch: "createChallenges C d (identityKeyB64 i) (transportKeyB64 i) mm = (res, mm1)"
  shows "r = Inr () \<and> (\<exists>c1 c2 e1 e2 mm2 mm3. res = Inr (Some [c1, c2])
    \<and> answerChallenge C eph1 i (oc_target c1) (oc_sealedNonceB64 c1) (oc_ackPubkeyB64 c1) theirs = Inr (Some e1)
    \<and> answerChallenge C eph2 i (oc_target c2) (oc_sealedNonceB64 c2) (oc_ackPubkeyB64 c2) theirs = Inr (Some e2)
    \<and> verifyChallengeResponse C (identityKeyB64 i) (oc_target c1) e1 mm1 = ((False, True), mm2)
    \<and> verifyChallengeResponse C (identityKeyB64 i) (oc_target c2) e2 mm2 = ((True, True), mm3))"
proof -
  let ?p = "\<lparr>pn_contactKey = identityKeyB64 i, pn_contactName = name, pn_migration = m\<rparr>"
  have v: "verifyKeyMigration C m = Inr ()" unfolding m by (rule built_migration_verifies [OF ok(3-6)])
  have pub: "transportPub j = x_pub C (di_transportPriv j)" if "identity_ok C j" for j
    using that by (auto simp: identity_ok_def mk_identity_def Let_def)
  have bind: "jprop (di_binding n) ''transport_key'' = Some (JStr (transportKeyB64 n))"
    using ok(5) by (auto simp: identity_ok_def mk_identity_def Let_def binding_body_def transportKeyB64_def)
  have flds: "jprop m ''old_key'' = Some (JStr (identityKeyB64 i))" "jprop m ''new_binding'' = Some (di_binding n)"
    by (simp_all add: m makeKeyMigration_def migration_body_def Let_def)
  have none: "\<not> (\<exists>p\<in>set (mm_pendingIncoming mm0). pn_contactKey p = identityKeyB64 i
      \<and> jprop (pn_migration p) ''new_key'' = jprop m ''new_key'')"
    using fresh by (auto simp: find_None_iff)
  have hi: "r = Inr ()" "mm = mm0\<lparr>mm_pendingIncoming := mm_pendingIncoming mm0 @ [?p]\<rparr>"
    using h none by (auto simp: handleIncomingMigration_def v flds)
  then have f: "find (\<lambda>p. pn_contactKey p = identityKeyB64 i) (mm_pendingIncoming mm) = Some ?p"
    by (simp add: find_app_None [OF fresh])
  obtain so where so: "seal C (cd_oldEph d) (cd_oldNonce d) (transportPub i) = Some so" using seal_total [OF ok(1)] pub [OF ok(4)] by metis
  obtain sn where sn: "seal C (cd_newEph d) (cd_newNonce d) (transportPub n) = Some sn" using seal_total [OF ok(1)] pub [OF ok(5)] by metis
  obtain c1 c2 where c: "res = Inr (Some [c1, c2])"
    using ch by (auto simp: createChallenges_def f flds bind so sn Let_def transportKeyB64_def)
  show ?thesis using honest_answers [OF ok(1,2) f _ refl pub [OF ok(4)] _ theirs refl pub [OF ok(5)] ch [unfolded c], of eph1 eph2]
    by (simp add: hi(1) c flds bind transportKeyB64_def pub [OF ok(4)] pub [OF ok(5)])
qed

text \<open>
  The other side of the coin: while a migration is active, any connected peer gets the contents of any box
  that is sealed to the device's transport key, sealed to a key of its own. The handler does not tell a
  challenge from a message.
\<close>

lemma answers_any_box:
  assumes "dh_ok C" "aead_ok C" "identity_ok C i" "seal C eph secret (transportPub i) = Some box"
  shows "\<exists>echo. answerChallenge C eph' i OldKey (b64uEncode box) (b64uEncode (x_pub C attacker)) mm = Inr (Some echo)
    \<and> unseal C (b64uDecode echo) attacker (x_pub C attacker) = Some secret"
proof -
  have pub: "transportPub i = x_pub C (di_transportPriv i)" using assms(3) by (auto simp: identity_ok_def mk_identity_def Let_def)
  obtain s1 where s1: "seal C eph' secret (x_pub C attacker) = Some s1" using seal_total [OF assms(1)] by blast
  have "unseal C box (di_transportPriv i) (transportPub i) = Some secret"
    using unseal_seal [OF assms(1,2) assms(4) [unfolded pub]] pub by simp
  then show ?thesis using s1 unseal_seal [OF assms(1,2) s1] by (simp add: answerChallenge_def)
qed

end
