(* ===== verification/WebMigration.thy ===== *)
theory WebMigration
  imports WebStores MigrationManager
begin

text \<open>
  The stores that \<open>apps/web/src/orpal/setup.ts\<close> gives the migration manager: the device's keys and the
  pending ones in two hardware-backed slots, and the migration's state, all in one IndexedDB. They keep the
  contract \<open>migration_stores\<close>.
\<close>

type_synonym web_world = "migration_state web_db hw_state"

definition IpcMigrationStore :: "migration_state tx_outcome \<Rightarrow> (web_world, migration_state) slot_ops" where
  "IpcMigrationStore wr = \<lparr>
     sl_load = (\<lambda>st. Inr (migration_load (fst st))),
     sl_save = (\<lambda>m st. case migration_save wr m (fst st) of (r, db) \<Rightarrow> (r, (db, snd st))),
     sl_clear = (\<lambda>st. case migration_clear wr (fst st) of (r, db) \<Rightarrow> (r, (db, snd st)))\<rparr>"

definition web_main :: "migration_state tx_outcome \<Rightarrow> key_provider option \<Rightarrow> web_world key_store" where
  "web_main wr provider = HardwareBackedKeyStore (IpcKeyBlobStore wr) provider"

definition web_pending :: "migration_state tx_outcome \<Rightarrow> key_provider option \<Rightarrow> web_world key_store" where
  "web_pending wr provider = HardwareBackedKeyStore (IpcPendingKeyBlobStore wr) provider"

lemma hw_keeps_cong:
  "kvGet key (fst a) = kvGet key (fst b) \<Longrightarrow> hw_keeps (kv_keys key) provider k a = hw_keeps (kv_keys key) provider k b"
  by (simp add: hw_keeps_def hw_holds_def kv_keys_def split: option.split)

text \<open>A slot's operations leave the other keys of the store alone.\<close>

lemma web_leaves:
  assumes "key' \<noteq> key"
  shows "kvGet key' (fst (snd (ks_load (HardwareBackedKeyStore (kv_slot key wr) provider) st))) = kvGet key' (fst st)"
    and "kvGet key' (fst (snd (ks_save (HardwareBackedKeyStore (kv_slot key wr) provider) keys st))) = kvGet key' (fst st)"
    and "kvGet key' (fst (snd (ks_clear (HardwareBackedKeyStore (kv_slot key wr) provider) st))) = kvGet key' (fst st)"
  using hw_leaves [where f = "kvGet key'" and slot = "kv_slot key wr", OF kv_slot_leaves(1) [OF assms] kv_slot_leaves(2) [OF assms]]
  by (simp_all add: HardwareBackedKeyStore_def)

lemma mstore_leaves_kv:
  assumes "key \<noteq> MIGRATION_KV"
  shows "kvGet key (fst (snd (sl_save (IpcMigrationStore wr) m st))) = kvGet key (fst st)"
    and "kvGet key (fst (snd (sl_clear (IpcMigrationStore wr) st))) = kvGet key (fst st)"
  using assms by (auto simp: IpcMigrationStore_def migration_save_def migration_clear_def split: prod.split
      dest: kvGet_kvSet [where k = key] kvGet_kvDelete [where k = key])

lemma mstore_laws:
  "sl_load (IpcMigrationStore wr) w = Inr (migration_load (fst w))"
  "migration_load (fst (snd (sl_save (IpcMigrationStore wr) m w))) =
    (case fst (sl_save (IpcMigrationStore wr) m w) of None \<Rightarrow> Some m | Some _ \<Rightarrow> migration_load (fst w))"
  "migration_load (fst (snd (sl_clear (IpcMigrationStore wr) w))) =
    (case fst (sl_clear (IpcMigrationStore wr) w) of None \<Rightarrow> None | Some _ \<Rightarrow> migration_load (fst w))"
  by (simp_all add: IpcMigrationStore_def migration_load_def migration_save_def migration_clear_def kvSet_def kvDelete_def
      txDone_def kvGet_def split: option.split)

interpretation web_migration: migration_stores "web_main wr provider" "hw_keeps (kv_keys KEYS_KV) provider"
  "web_pending wr provider" "hw_keeps (kv_keys PENDING_KEYS_KV) provider" "IpcMigrationStore wr" "\<lambda>st. migration_load (fst st)"
  for wr provider
proof -
  have m: "secure_key_store (web_main wr provider) (hw_keeps (kv_keys KEYS_KV) provider)"
    unfolding web_main_def IpcKeyBlobStore_def by (rule web_keys.secure_key_store_axioms)
  have p: "secure_key_store (web_pending wr provider) (hw_keeps (kv_keys PENDING_KEYS_KV) provider)"
    unfolding web_pending_def IpcPendingKeyBlobStore_def by (rule web_keys.secure_key_store_axioms)
  note ml = web_leaves [where key = KEYS_KV and wr = wr, folded IpcKeyBlobStore_def, folded web_main_def]
  note pl = web_leaves [where key = PENDING_KEYS_KV and wr = wr, folded IpcPendingKeyBlobStore_def, folded web_pending_def]
  have load: "migration_load (fst (snd (ks_load (web_pending wr provider) w))) = migration_load (fst w)" for w
    using pl(1) [of MIGRATION_KV] by (simp add: migration_load_def)
  have keep: "migration_load (fst (snd (ks_save (web_main wr provider) keys w))) = migration_load (fst w)"
    "migration_load (fst (snd (ks_clear (web_main wr provider) w))) = migration_load (fst w)" for keys w
    using ml(2,3) [of MIGRATION_KV] by (simp_all add: migration_load_def)
  show "migration_stores (web_main wr provider) (hw_keeps (kv_keys KEYS_KV) provider) (web_pending wr provider)
      (hw_keeps (kv_keys PENDING_KEYS_KV) provider) (IpcMigrationStore wr) (\<lambda>st. migration_load (fst st))"
    by (intro migration_stores.intro migration_stores_axioms.intro m p)
      (simp_all add: load keep mstore_laws hw_keeps_cong [OF ml(1)] hw_keeps_cong [OF ml(2)] hw_keeps_cong [OF ml(3)]
        hw_keeps_cong [OF pl(1)] hw_keeps_cong [OF pl(2)] hw_keeps_cong [OF pl(3)] hw_keeps_cong [OF mstore_leaves_kv(1)]
        hw_keeps_cong [OF mstore_leaves_kv(2)] split: option.split)
qed

text \<open>
  A whole migration over the browser's stores: started, resumed by a later launch, retired. Each stage has
  transactions of its own that may fail.
\<close>

lemma migration_ends:
  assumes keeps: "hw_keeps (kv_keys PENDING_KEYS_KV) provider k w" "hw_keeps (kv_keys KEYS_KV) provider k' w"
    and start: "startMigration C (web_pending wr provider) (IpcMigrationStore wr) cur contacts ret rs rt nonce now mm w
      = (Inr (migration, newId), mm1, w1)"
    and launch: "mm_init C (web_pending wr' provider) (IpcMigrationStore wr') MigrationManager w1 = (None, mm2, w2)"
    and retire: "retire (web_main wr' provider) (web_pending wr' provider) (IpcMigrationStore wr') mm2 w2 = (r, mm3, w3)"
  shows "\<exists>keys. newId = fromStored C keys
    \<and> (hw_keeps (kv_keys PENDING_KEYS_KV) provider (Some keys) w3 \<or> hw_keeps (kv_keys KEYS_KV) provider (Some keys) w3)
    \<and> (r = None \<longrightarrow> migration_load (fst w3) = None
        \<and> fst (loadOrCreate C (web_main wr'' provider) rs' rt' now' w3) = Inr (newId, False))"
proof -
  let ?keys = "mintStoredKeys rs rt now"
  obtain st where s: "hw_keeps (kv_keys PENDING_KEYS_KV) provider (Some ?keys) w1" "hw_keeps (kv_keys KEYS_KV) provider k' w1"
    "newId = fromStored C ?keys" "migration_load (fst w1) = Some st" "mg_phase st \<noteq> Complete"
    using web_migration.start_keeps [OF keeps start] by auto
  have i: "hw_keeps (kv_keys PENDING_KEYS_KV) provider (Some ?keys) w2" "hw_keeps (kv_keys KEYS_KV) provider k' w2" "mm_state mm2 \<noteq> None"
    using web_migration.init_keeps [OF launch s(1,2,4,5)] by auto
  note ends = web_migration.retire_keeps_keys [OF i retire]
  have "fst (loadOrCreate C (web_main wr'' provider) rs' rt' now' w3) = Inr (newId, False)" if "r = None"
    using ends(2) [OF that] web_migration.main.loadOrCreate_holds unfolding s(3) by blast
  then show ?thesis using ends s(3) by blast
qed

end
