(* ===== verification/OrpalClient.thy ===== *)
theory OrpalClient
  imports Session Connections ConversationStore ContactExport Sealed MigrationManager DeliveryWorker FileTransfer
begin

text \<open>
  \<open>packages/orpal-core/src/messaging/orpal-client.ts\<close>: the client that ties the parts together. Its state
  has the stores it works on (over any implementation of their interfaces), the send worker, the routing
  registry, the connection manager, the migration manager and one file receiver per contact; what it sends
  on a channel, announces to a board and tells the user interface is appended to traces. A handler runs to
  completion, except for the calls that wait for a connection: such a call is suspended in the state
  until its promise is settled. Backup and restore are in \<open>ClientBackup\<close>.
\<close>

subsection \<open>State\<close>

datatype broker_state = BConnecting | BOpen | BClosed | BError

record board_entry =
  bd_id :: string
  bd_state :: broker_state
  bd_pushToken :: "string option"

record contact_request =
  rq_contactKey :: string
  rq_card :: string
  rq_name :: "string option"

datatype client_event =
    EvMessage stored_message
  | EvMessageUpdated string stored_message
  | EvTransferProgress string direction progress
  | EvBroker broker_state
  | EvMigrationProgress "(migration_phase \<times> nat \<times> nat \<times> string) option"
  | EvMigrationIncoming pending_migration
  | EvContactRequest contact_request
  | EvError string

text \<open>
  A call that waits for the promise of a connection attempt, with what it needs to go on: the message's id,
  the contact, its transport key, the text and its timestamp. After the send, the call waits for the
  channel's acknowledgement.
\<close>

datatype client_call =
    CallText string string string string rat
  | CallRetry string string string string rat
  | CallAttempt pending_message
  | CallFile string string string file_source
  | CallConnect

datatype sent_call = SentText string | SentAttempt string

record out_transfer =
  ot_fileId :: string
  ot_contactKey :: string
  ot_transportKey :: string
  ot_source :: file_source

record ('s, 'q, 'w, 'k) orpal =
  oc_identity :: device_identity
  oc_store :: 's
  oc_worker :: "'q worker option"
  oc_world :: 'w
  oc_boards :: "board_entry list"
  oc_pushToken :: "string option"
  oc_contacts :: contact_registry
  oc_conns :: cman
  oc_receivers :: "(string, string \<times> 'k freceiver) jmap"
  oc_blockedKeys :: "string list"
  oc_pendingCards :: "(string, contact_request) jmap"
  oc_started :: bool
  oc_brokerState :: broker_state
  oc_migration :: "migration_manager option"
  oc_calls :: "(nat \<times> client_call) list"
  oc_acks :: "sent_call list"
  oc_transfers :: "out_transfer list"
  oc_endpoints :: "(nat \<times> string \<times> bool) list"
  oc_sent :: "(string \<times> app_frame) list"
  oc_intents :: "(string \<times> string) list"
  oc_announced :: "(string \<times> string option) list"
  oc_events :: "client_event list"

text \<open>What the client is given: the primitives, the stores' operations and its options.\<close>

record ('s, 'q, 'w, 'k) client_deps =
  dp_crypto :: crypto
  dp_store :: "'s conv_store"
  dp_queue :: "'q pending_store option"
  dp_backoff :: backoff_config
  dp_migrates :: bool
  dp_main :: "'w key_store"
  dp_pending :: "'w key_store"
  dp_mstore :: "('w, migration_state) slot_ops"
  dp_sink :: "'k sink_ops"
  dp_hash :: "bytes \<Rightarrow> string"
  dp_receiveFiles :: bool
  dp_relayOnlyByDefault :: bool
  dp_fileTransfer :: transfer_opts

text \<open>The clock and the random source, as one call sees them.\<close>

record client_env =
  en_iso :: string
  en_ms :: rat
  en_id :: string
  en_nonce :: bytes
  en_eph :: bytes
  en_challenge :: challenge_random
  en_keys :: "bytes \<times> bytes"
  en_announceThrows :: "string list"

definition client_init :: "device_identity \<Rightarrow> 's \<Rightarrow> 'w \<Rightarrow> string list \<Rightarrow> string option \<Rightarrow> ('s, 'q, 'w, 'k) orpal option" where
  \<comment> \<open>the constructor, which throws without a board\<close>
  "client_init identity store world boards pushToken =
     (if boards = [] then None
      else Some \<lparr>oc_identity = identity, oc_store = store, oc_worker = None, oc_world = world,
        oc_boards = map (\<lambda>i. \<lparr>bd_id = i, bd_state = BConnecting, bd_pushToken = pushToken\<rparr>) boards, oc_pushToken = pushToken,
        oc_contacts = [], oc_conns = cman_init, oc_receivers = [], oc_blockedKeys = [], oc_pendingCards = [],
        oc_started = False, oc_brokerState = BConnecting, oc_migration = None, oc_calls = [], oc_acks = [],
        oc_transfers = [], oc_endpoints = [], oc_sent = [], oc_intents = [], oc_announced = [], oc_events = []\<rparr>)"

definition oc_emit :: "client_event \<Rightarrow> ('s, 'q, 'w, 'k) orpal \<Rightarrow> ('s, 'q, 'w, 'k) orpal" where
  "oc_emit e c = c\<lparr>oc_events := oc_events c @ [e]\<rparr>"

definition identityKey :: "('s, 'q, 'w, 'k) orpal \<Rightarrow> string" where
  "identityKey c = identityKeyB64 (oc_identity c)"

definition send_on :: "string \<Rightarrow> app_frame \<Rightarrow> ('s, 'q, 'w, 'k) orpal \<Rightarrow> ('s, 'q, 'w, 'k) orpal" where
  \<comment> \<open>\<open>conn.channel.send\<close> on the contact's connection\<close>
  "send_on contactKey frame c = c\<lparr>oc_sent := oc_sent c @ [(contactKey, frame)]\<rparr>"

definition send_if_connected :: "string \<Rightarrow> app_frame \<Rightarrow> ('s, 'q, 'w, 'k) orpal \<Rightarrow> ('s, 'q, 'w, 'k) orpal" where
  "send_if_connected contactKey frame c =
     (case getConnection (oc_conns c) contactKey of
        None \<Rightarrow> c
      | Some cn \<Rightarrow> if cn_state cn \<noteq> CConnected then c else send_on contactKey frame c)"

definition sendAwk :: "client_env \<Rightarrow> string \<Rightarrow> string \<Rightarrow> ('s, 'q, 'w, 'k) orpal \<Rightarrow> ('s, 'q, 'w, 'k) orpal" where
  "sendAwk e contactKey messageId c = send_if_connected contactKey (AwkFrame messageId (en_ms e)) c"

subsection \<open>Messages in the store\<close>

definition notify_updated :: "'s conv_store \<Rightarrow> string \<Rightarrow> ('s, 'q, 'w, 'k) orpal \<Rightarrow> ('s, 'q, 'w, 'k) orpal" where
  "notify_updated S i c = (case cv_getMessage S i (oc_store c) of None \<Rightarrow> c | Some m \<Rightarrow> oc_emit (EvMessageUpdated i m) c)"

definition markMessage :: "'s conv_store \<Rightarrow> string \<Rightarrow> message_patch \<Rightarrow> ('s, 'q, 'w, 'k) orpal \<Rightarrow> ('s, 'q, 'w, 'k) orpal" where
  "markMessage S i patch c = notify_updated S i (c\<lparr>oc_store := cv_updateMessage S i patch (oc_store c)\<rparr>)"

record file_patch =
  fp_transferred :: "rat option"
  fp_state :: "transfer_state option"
  fp_sha256 :: "string option"
  fp_path :: "string option"

definition no_file_patch :: file_patch where
  "no_file_patch = \<lparr>fp_transferred = None, fp_state = None, fp_sha256 = None, fp_path = None\<rparr>"

definition patch_file :: "file_patch \<Rightarrow> file_meta \<Rightarrow> file_meta" where
  "patch_file p f = f\<lparr>fm_transferred := or_default (fp_transferred p) (fm_transferred f),
     fm_state := or_default (fp_state p) (fm_state f), fm_sha256 := or_default (fp_sha256 p) (fm_sha256 f),
     fm_path := (case fp_path p of None \<Rightarrow> fm_path f | Some x \<Rightarrow> Some x)\<rparr>"

definition markFile ::
  "'s conv_store \<Rightarrow> string \<Rightarrow> file_patch \<Rightarrow> outbound_state option \<Rightarrow> ('s, 'q, 'w, 'k) orpal \<Rightarrow> ('s, 'q, 'w, 'k) orpal" where
  "markFile S fileId filePatch state c =
     (case cv_getMessage S fileId (oc_store c) of
        None \<Rightarrow> c
      | Some current \<Rightarrow> (case sm_file current of
          None \<Rightarrow> c
        | Some f \<Rightarrow> notify_updated S fileId (c\<lparr>oc_store := cv_updateMessage S fileId
            \<lparr>mp_state = state, mp_text = None, mp_file = Some (patch_file filePatch f)\<rparr> (oc_store c)\<rparr>)))"

definition append_message :: "'s conv_store \<Rightarrow> stored_message \<Rightarrow> ('s, 'q, 'w, 'k) orpal \<Rightarrow> ('s, 'q, 'w, 'k) orpal" where
  "append_message S m c = oc_emit (EvMessage m) (c\<lparr>oc_store := cv_appendMessage S m (oc_store c)\<rparr>)"

subsection \<open>Contacts\<close>

definition registerContact :: "'s conv_store \<Rightarrow> contact \<Rightarrow> ('s, 'q, 'w, 'k) orpal \<Rightarrow> ('s, 'q, 'w, 'k) orpal" where
  "registerContact S contact c = c\<lparr>oc_store := cv_upsertContact S contact (oc_store c),
     oc_contacts := cr_set (ct_identityKey contact) (record_of contact) (oc_contacts c)\<rparr>"

definition ownContactCard :: "string option \<Rightarrow> ('s, 'q, 'w, 'k) orpal \<Rightarrow> string" where
  "ownContactCard name c = serializeContactCard (exportPublic (oc_identity c)) name"

definition addContactFromCard ::
  "('s, 'q, 'w, 'k) client_deps \<Rightarrow> client_env \<Rightarrow> string \<Rightarrow> string option \<Rightarrow> bool option \<Rightarrow> ('s, 'q, 'w, 'k) orpal
    \<Rightarrow> (string + contact) \<times> ('s, 'q, 'w, 'k) orpal" where
  "addContactFromCard d e input displayName relayOnly c =
     (case parseContactCard (dp_crypto d) input of
        Inl reason \<Rightarrow> (Inl reason, c)
      | Inr cd \<Rightarrow>
          if cc_identity_key cd = identityKey c then (Inl ''that-is-your-own-card'', c)
          else let contact = contactFromCard cd (no_opts\<lparr>co_displayName := displayName, co_relayOnly := relayOnly\<rparr>) (en_iso e)
               in (Inr contact, registerContact (dp_store d) contact c))"

definition exportContacts :: "('s, 'q, 'w, 'k) client_deps \<Rightarrow> client_env \<Rightarrow> ('s, 'q, 'w, 'k) orpal \<Rightarrow> string" where
  "exportContacts d e c = serializeContacts (cv_listContacts (dp_store d) (oc_store c)) (Some (en_iso e)) (en_iso e)"

definition importContactsText ::
  "('s, 'q, 'w, 'k) client_deps \<Rightarrow> client_env \<Rightarrow> string \<Rightarrow> collision option \<Rightarrow> ('s, 'q, 'w, 'k) orpal
    \<Rightarrow> import_summary \<times> ('s, 'q, 'w, 'k) orpal" where
  "importContactsText d e input onCollision c =
     (case parseContactsExport input of
        Inl reason \<Rightarrow> (\<lparr>is_imported = 0, is_skipped = 0, is_rejected = [(''(bundle)'', reason)]\<rparr>, c)
      | Inr bundle \<Rightarrow>
          (let existingKeys = map ct_identityKey (cv_listContacts (dp_store d) (oc_store c))
           in case importContacts (dp_crypto d) \<lparr>io_onCollision = onCollision, io_existingKeys = existingKeys,
                    io_ownKey = Some (identityKey c), io_now = Some (en_iso e)\<rparr> (en_iso e) bundle of
                (contacts, summary) \<Rightarrow> (summary, fold (registerContact (dp_store d)) contacts c)))"

definition ensureLoopbackContact ::
  "('s, 'q, 'w, 'k) client_deps \<Rightarrow> client_env \<Rightarrow> string option \<Rightarrow> ('s, 'q, 'w, 'k) orpal \<Rightarrow> (string + contact) \<times> ('s, 'q, 'w, 'k) orpal" where
  "ensureLoopbackContact d e name c =
     (case find ct_isLoopback (cv_listContacts (dp_store d) (oc_store c)) of
        Some existing \<Rightarrow> (Inr existing, c)
      | None \<Rightarrow> (case makeLoopbackContact (dp_crypto d) (exportPublic (oc_identity c)) name (Some (en_iso e)) (en_iso e) of
          Inl reason \<Rightarrow> (Inl reason, c)
        | Inr contact \<Rightarrow> (Inr contact, registerContact (dp_store d) contact c)))"

text \<open>The self-test: is a board reachable, and does what is sealed to the own key open again.\<close>

record self_test =
  lt_ok :: bool
  lt_boardReachable :: bool
  lt_cryptoRoundTrip :: bool
  lt_reason :: "string option"

definition probe_round_trip :: "crypto \<Rightarrow> bytes \<Rightarrow> device_identity \<Rightarrow> string \<Rightarrow> app_frame \<Rightarrow> string + unit" where
  "probe_round_trip C eph i transportKey probe =
     (case sealAppFrame C eph probe transportKey of
        None \<Rightarrow> Inl ''seal''
      | Some sealed \<Rightarrow> (case decodeAppFrame (encodeAppFrame sealed) of
          Some (SealedFrame alg box) \<Rightarrow>
            (case openSealedFrame C alg box (di_transportPriv i) (transportPub i) of
               Some (TextFrame _ t _) \<Rightarrow> if t = tf_text probe then Inr () else Inl ''decrypt-mismatch''
             | _ \<Rightarrow> Inl ''decrypt-mismatch'')
        | _ \<Rightarrow> Inl ''seal-encode-failed''))"

definition runLoopbackSelfTest ::
  "('s, 'q, 'w, 'k) client_deps \<Rightarrow> client_env \<Rightarrow> bytes \<Rightarrow> ('s, 'q, 'w, 'k) orpal \<Rightarrow> (string + self_test) \<times> ('s, 'q, 'w, 'k) orpal" where
  "runLoopbackSelfTest d e rnd c =
     (case ensureLoopbackContact d e None c of
        (Inl reason, c1) \<Rightarrow> (Inl reason, c1)
      | (Inr contact, c1) \<Rightarrow>
          (let boardReachable = (oc_brokerState c1 = BOpen);
               probe = TextFrame (en_id e) (''loopback-'' @ b64uEncode rnd) (en_ms e);
               r = probe_round_trip (dp_crypto d) (en_eph e) (oc_identity c1) (ct_transportKey contact) probe;
               ok = (r = Inr ())
           in (Inr \<lparr>lt_ok = (boardReachable \<and> ok), lt_boardReachable = boardReachable, lt_cryptoRoundTrip = ok,
                 lt_reason = (case r of Inl reason \<Rightarrow> Some reason
                   | Inr _ \<Rightarrow> if boardReachable then None else Some ''board-unreachable'')\<rparr>, c1)))"

definition removeContact :: "'s conv_store \<Rightarrow> string \<Rightarrow> ('s, 'q, 'w, 'k) orpal \<Rightarrow> ('s, 'q, 'w, 'k) orpal" where
  "removeContact S key c = c\<lparr>oc_store := cv_removeContact S key (oc_store c), oc_contacts := cr_remove key (oc_contacts c)\<rparr>"

definition change_contact ::
  "'s conv_store \<Rightarrow> string \<Rightarrow> (contact \<Rightarrow> contact) \<Rightarrow> record_patch \<Rightarrow> ('s, 'q, 'w, 'k) orpal \<Rightarrow> ('s, 'q, 'w, 'k) orpal" where
  \<comment> \<open>the shape the setters share: read, change, write back, patch the registry\<close>
  "change_contact S key f patch c =
     (case cv_getContact S key (oc_store c) of
        None \<Rightarrow> c
      | Some contact \<Rightarrow> c\<lparr>oc_store := cv_upsertContact S (f contact) (oc_store c), oc_contacts := cr_patch key patch (oc_contacts c)\<rparr>)"

definition no_record_patch :: record_patch where
  "no_record_patch = \<lparr>rp_relayOnly = None, rp_transportKey = None, rp_boards = None, rp_autoAcceptMigration = None\<rparr>"

definition setContactBoards ::
  "'s conv_store \<Rightarrow> string \<Rightarrow> string list option \<Rightarrow> string list option \<Rightarrow> ('s, 'q, 'w, 'k) orpal \<Rightarrow> ('s, 'q, 'w, 'k) orpal" where
  "setContactBoards S key preferred fallback c =
     (let p = or_default preferred []; fb = or_default fallback []
      in change_contact S key (\<lambda>x. x\<lparr>ct_preferredBoards := Some p, ct_fallbackBoards := Some fb\<rparr>)
           (no_record_patch\<lparr>rp_boards := Some (p, fb)\<rparr>) c)"

definition setContactRelayOnly :: "'s conv_store \<Rightarrow> string \<Rightarrow> bool \<Rightarrow> ('s, 'q, 'w, 'k) orpal \<Rightarrow> ('s, 'q, 'w, 'k) orpal" where
  "setContactRelayOnly S key relayOnly c =
     change_contact S key (\<lambda>x. x\<lparr>ct_relayOnly := relayOnly\<rparr>) (no_record_patch\<lparr>rp_relayOnly := Some relayOnly\<rparr>) c"

definition setContactDisplayName :: "'s conv_store \<Rightarrow> string \<Rightarrow> string \<Rightarrow> ('s, 'q, 'w, 'k) orpal \<Rightarrow> ('s, 'q, 'w, 'k) orpal" where
  "setContactDisplayName S key displayName c =
     (if trim displayName = [] then c
      else change_contact S key (\<lambda>x. x\<lparr>ct_displayName := trim displayName\<rparr>) no_record_patch c)"

definition setAutoAcceptMigration :: "'s conv_store \<Rightarrow> string \<Rightarrow> bool \<Rightarrow> ('s, 'q, 'w, 'k) orpal \<Rightarrow> ('s, 'q, 'w, 'k) orpal" where
  "setAutoAcceptMigration S key autoAccept c =
     change_contact S key (\<lambda>x. x\<lparr>ct_autoAcceptMigration := Some autoAccept\<rparr>) (no_record_patch\<lparr>rp_autoAcceptMigration := Some autoAccept\<rparr>) c"

definition boardsForContact :: "string \<Rightarrow> ('s, 'q, 'w, 'k) orpal \<Rightarrow> board_entry list" where
  "boardsForContact contactKey c =
     (case boardsOf (oc_contacts c) contactKey of (preferred, fallback) \<Rightarrow>
        if preferred = [] \<and> fallback = [] then oc_boards c
        else List.map_filter (\<lambda>i. find (\<lambda>b. bd_id b = i) (oc_boards c)) (set_of (preferred @ fallback)))"

subsection \<open>Block list and contact requests\<close>

definition block_one :: "string \<Rightarrow> ('s, 'q, 'w, 'k) orpal \<Rightarrow> ('s, 'q, 'w, 'k) orpal" where
  "block_one key c = c\<lparr>oc_conns := dropConnection key (oc_conns c), oc_pendingCards := jdel key (oc_pendingCards c)\<rparr>"

definition setBlockedKeys :: "string list \<Rightarrow> ('s, 'q, 'w, 'k) orpal \<Rightarrow> ('s, 'q, 'w, 'k) orpal" where
  "setBlockedKeys keys c = fold block_one (set_of keys) (c\<lparr>oc_blockedKeys := set_of keys\<rparr>)"

definition isBlocked :: "('s, 'q, 'w, 'k) orpal \<Rightarrow> string \<Rightarrow> bool" where
  "isBlocked c key = (key \<in> set (oc_blockedKeys c))"

definition contactRequests :: "('s, 'q, 'w, 'k) orpal \<Rightarrow> contact_request list" where
  "contactRequests c = jvals (oc_pendingCards c)"

definition dismissContactRequest :: "string \<Rightarrow> ('s, 'q, 'w, 'k) orpal \<Rightarrow> ('s, 'q, 'w, 'k) orpal" where
  "dismissContactRequest key c = c\<lparr>oc_pendingCards := jdel key (oc_pendingCards c)\<rparr>"

definition acceptContactRequest ::
  "('s, 'q, 'w, 'k) client_deps \<Rightarrow> client_env \<Rightarrow> string \<Rightarrow> string option \<Rightarrow> ('s, 'q, 'w, 'k) orpal
    \<Rightarrow> (string + contact) \<times> ('s, 'q, 'w, 'k) orpal" where
  "acceptContactRequest d e key displayName c =
     (case jget (oc_pendingCards c) key of
        None \<Rightarrow> (Inl ''no-pending-request'', c)
      | Some req \<Rightarrow> (case addContactFromCard d e (rq_card req) displayName None c of
          (Inl reason, c1) \<Rightarrow> (Inl reason, c1)
        | (Inr contact, c1) \<Rightarrow> (Inr contact, dismissContactRequest key c1)))"

subsection \<open>Connections\<close>

definition send_intents :: "string \<Rightarrow> ('s, 'q, 'w, 'k) orpal \<Rightarrow> ('s, 'q, 'w, 'k) orpal" where
  "send_intents contactKey c =
     (let boards = boardsForContact contactKey c;
          c1 = (if boards = [] then oc_emit (EvError ''ensureConnection:no-board'') c else c)
      in c1\<lparr>oc_intents := oc_intents c1 @ map (\<lambda>b. (bd_id b, contactKey)) boards\<rparr>)"

definition oc_ensure :: "string \<Rightarrow> ('s, 'q, 'w, 'k) orpal \<Rightarrow> (conn + nat) \<times> ('s, 'q, 'w, 'k) orpal" where
  \<comment> \<open>\<open>ensureConnection\<close>; its callback sends the intents, when an attempt is opened\<close>
  "oc_ensure contactKey c =
     (case ensureConnection contactKey id (oc_conns c) of
        (r, cm) \<Rightarrow>
          (let c1 = c\<lparr>oc_conns := cm\<rparr>
           in (r, if length (cm_promises (oc_conns c)) < length (cm_promises cm) then send_intents contactKey c1 else c1)))"

definition close_endpoint :: "nat option \<Rightarrow> cman \<Rightarrow> cman" where
  "close_endpoint ep cm = cm\<lparr>cm_closed := cm_closed cm @ (case ep of None \<Rightarrow> [] | Some e \<Rightarrow> [e])\<rparr>"

definition observeOutbound :: "string \<Rightarrow> outbound \<Rightarrow> ('s, 'q, 'w, 'k) orpal \<Rightarrow> ('s, 'q, 'w, 'k) orpal" where
  "observeOutbound boardId msg c = (case msg of
       OutMatch matchId role counterparty \<Rightarrow> c\<lparr>oc_conns := recordMatch (mk boardId matchId) counterparty (oc_conns c)\<rparr>
     | _ \<Rightarrow> c)"

definition buildEndpoint ::
  "('s, 'q, 'w, 'k) client_deps \<Rightarrow> string \<Rightarrow> string \<Rightarrow> nat \<Rightarrow> ('s, 'q, 'w, 'k) orpal \<Rightarrow> ('s, 'q, 'w, 'k) orpal" where
  \<comment> \<open>the new endpoint, and whether its transport policy is \<open>relay\<close>\<close>
  "buildEndpoint d boardId matchId ep c =
     (let key = mk boardId matchId;
          relayOnly = ((case counterpartyFor (oc_conns c) key of
              None \<Rightarrow> False | Some k \<Rightarrow> k \<noteq> [] \<and> relayOnlyOf (oc_contacts c) k) \<or> dp_relayOnlyByDefault d)
      in c\<lparr>oc_endpoints := oc_endpoints c @ [(ep, key, relayOnly)], oc_conns := storeEndpoint key ep (oc_conns c)\<rparr>)"

definition handleConnected ::
  "('s, 'q, 'w, 'k) client_deps \<Rightarrow> string \<Rightarrow> string \<Rightarrow> string \<Rightarrow> ('s, 'q, 'w, 'k) orpal \<Rightarrow> ('s, 'q, 'w, 'k) orpal" where
  "handleConnected d boardId matchId contactKey c =
     (let matchKey = mk boardId matchId; cm = oc_conns c; existing = getConnection cm contactKey
      in if isBlocked c contactKey then c\<lparr>oc_conns := close_endpoint (getEndpoint cm matchKey) cm\<rparr>
         else if existing \<noteq> None \<and> cn_matchKey (the existing) \<noteq> matchKey \<and> cn_state (the existing) = CConnected
         then c\<lparr>oc_conns := close_endpoint (getEndpoint cm matchKey) cm\<rparr>
         else
           (let cm1 = (if existing \<noteq> None \<and> cn_matchKey (the existing) \<noteq> matchKey
                   then close_endpoint (cn_endpoint (the existing)) cm else cm);
                cn = \<lparr>cn_contactKey = contactKey, cn_matchKey = matchKey, cn_boardId = boardId,
                      cn_endpoint = getEndpoint cm1 matchKey, cn_state = CConnected\<rparr>;
                c1 = c\<lparr>oc_receivers := (if dp_receiveFiles d then jset matchKey (contactKey, FileReceiver) (oc_receivers c)
                         else jdel matchKey (oc_receivers c)),
                       oc_conns := resolveConnectWaiters contactKey cn
                         (emitState contactKey CConnected (setConnection contactKey cn cm1))\<rparr>;
                c2 = send_on contactKey (HelloFrame (ownContactCard None c1)) c1
            in c2\<lparr>oc_worker := map_option (dw_flush (Some contactKey)) (oc_worker c2)\<rparr>))"

subsection \<open>Sending\<close>

definition seal_text :: "('s, 'q, 'w, 'k) client_deps \<Rightarrow> client_env \<Rightarrow> string \<Rightarrow> string \<Rightarrow> string \<Rightarrow> rat \<Rightarrow> app_frame option" where
  "seal_text d e transportKey i text ts = sealAppFrame (dp_crypto d) (en_eph e) (TextFrame i text ts) transportKey"

definition await_ack :: "sent_call \<Rightarrow> ('s, 'q, 'w, 'k) orpal \<Rightarrow> ('s, 'q, 'w, 'k) orpal" where
  "await_ack a c = c\<lparr>oc_acks := oc_acks c @ [a]\<rparr>"

text \<open>What a call does once it has its connection, or has failed to get one.\<close>

definition call_go ::
  "('s, 'q, 'w, 'k) client_deps \<Rightarrow> client_env \<Rightarrow> bool \<Rightarrow> client_call \<Rightarrow> ('s, 'q, 'w, 'k) orpal \<Rightarrow> ('s, 'q, 'w, 'k) orpal" where
  "call_go d e live call c = (case call of
       CallText i key tk text ts \<Rightarrow>
         if \<not> live then markMessage (dp_store d) i (patch_state OFailed) c
         else (case seal_text d e tk i text ts of
             None \<Rightarrow> c
           | Some f \<Rightarrow> await_ack (SentText i) (send_on key f c))
     | CallRetry i key tk text ts \<Rightarrow>
         if \<not> live then markMessage (dp_store d) i (patch_state OFailed) c
         else (case seal_text d e tk i text ts of
             None \<Rightarrow> markMessage (dp_store d) i (patch_state OFailed) c
           | Some f \<Rightarrow> await_ack (SentText i) (send_on key f c))
     | CallAttempt m \<Rightarrow>
         if \<not> live then c
         else (let c1 = markMessage (dp_store d) (pm_messageId m) (patch_state OSending) c
               in case (case pm_payload m of PendingText text \<Rightarrow>
                     seal_text d e (pm_recipientTransportKey m) (pm_messageId m) text (pm_timestamp m)) of
                    None \<Rightarrow> c1
                  | Some f \<Rightarrow> await_ack (SentAttempt (pm_messageId m)) (send_on (pm_recipientId m) f c1))
     | CallFile fileId key tk src \<Rightarrow>
         if \<not> live then markFile (dp_store d) fileId (no_file_patch\<lparr>fp_state := Some XFailed\<rparr>) (Some OFailed) c
         else c\<lparr>oc_transfers := oc_transfers c @ [\<lparr>ot_fileId = fileId, ot_contactKey = key, ot_transportKey = tk, ot_source = src\<rparr>]\<rparr>
     | CallConnect \<Rightarrow> c)"

definition start_call ::
  "('s, 'q, 'w, 'k) client_deps \<Rightarrow> client_env \<Rightarrow> string \<Rightarrow> client_call \<Rightarrow> ('s, 'q, 'w, 'k) orpal \<Rightarrow> ('s, 'q, 'w, 'k) orpal" where
  "start_call d e key call c =
     (case oc_ensure key c of
        (Inl cn, c1) \<Rightarrow> call_go d e True call c1
      | (Inr p, c1) \<Rightarrow> c1\<lparr>oc_calls := oc_calls c1 @ [(p, call)]\<rparr>)"

definition resume_call ::
  "('s, 'q, 'w, 'k) client_deps \<Rightarrow> client_env \<Rightarrow> nat \<Rightarrow> ('s, 'q, 'w, 'k) orpal \<Rightarrow> ('s, 'q, 'w, 'k) orpal" where
  \<comment> \<open>the call goes on when its promise is settled\<close>
  "resume_call d e n c =
     (if length (oc_calls c) \<le> n then c
      else (case oc_calls c ! n of (p, call) \<Rightarrow>
        (let c1 = c\<lparr>oc_calls := drop_at n (oc_calls c)\<rparr>
         in case cm_promises (oc_conns c) ! p of
              Waiting \<Rightarrow> c
            | Resolved _ \<Rightarrow> call_go d e True call c1
            | Rejected _ \<Rightarrow> call_go d e False call c1)))"

definition channel_settled :: "'s conv_store \<Rightarrow> nat \<Rightarrow> bool \<Rightarrow> ('s, 'q, 'w, 'k) orpal \<Rightarrow> ('s, 'q, 'w, 'k) orpal" where
  \<comment> \<open>the channel acknowledged a send, or gave up\<close>
  "channel_settled S n acked c =
     (if length (oc_acks c) \<le> n then c
      else let c1 = c\<lparr>oc_acks := drop_at n (oc_acks c)\<rparr>
           in case oc_acks c ! n of
                SentText i \<Rightarrow> markMessage S i (patch_state (if acked then ODelivered else OFailed)) c1
              | SentAttempt i \<Rightarrow> if acked then markMessage S i (patch_state ODelivered) c1 else c1)"

definition pinned_key :: "('s, 'q, 'w, 'k) orpal \<Rightarrow> string \<Rightarrow> string option" where
  \<comment> \<open>the transport key of a contact, when it is truthy\<close>
  "pinned_key c key = (case transportKeyOf (oc_contacts c) key of Some tk \<Rightarrow> if tk = [] then None else Some tk | None \<Rightarrow> None)"

definition sendText ::
  "('s, 'q, 'w, 'k) client_deps \<Rightarrow> client_env \<Rightarrow> string \<Rightarrow> string \<Rightarrow> ('s, 'q, 'w, 'k) orpal \<Rightarrow> string \<times> ('s, 'q, 'w, 'k) orpal" where
  "sendText d e contactKey text c =
     (let i = en_id e; ts = en_ms e;
          c1 = append_message (dp_store d) \<lparr>sm_id = i, sm_contactKey = contactKey, sm_direction = DOut, sm_kind = KText, sm_ts = ts,
            sm_text = Some text, sm_file = None, sm_state = (if oc_worker c = None then OSending else OQueued)\<rparr> c
      in (i, case pinned_key c contactKey of
               None \<Rightarrow> oc_emit (EvError ''sendText:seal'') (markMessage (dp_store d) i (patch_state OFailed) c1)
             | Some tk \<Rightarrow> (case oc_worker c1 of
                 Some w \<Rightarrow> c1\<lparr>oc_worker := Some (dw_enqueue (the (dp_queue d)) \<lparr>pm_recipientId = contactKey,
                     pm_recipientTransportKey = tk, pm_messageId = i, pm_timestamp = ts, pm_attemptCount = 0,
                     pm_lastAttemptAt = None, pm_payload = PendingText text\<rparr> w)\<rparr>
               | None \<Rightarrow> start_call d e contactKey (CallText i contactKey tk text ts) c1)))"

definition attemptDelivery ::
  "('s, 'q, 'w, 'k) client_deps \<Rightarrow> client_env \<Rightarrow> pending_message \<Rightarrow> ('s, 'q, 'w, 'k) orpal \<Rightarrow> ('s, 'q, 'w, 'k) orpal" where
  "attemptDelivery d e m c = start_call d e (pm_recipientId m) (CallAttempt m) c"

text \<open>
  A step of the worker: an attempt it begins is a call of the client, and an acknowledged message that it
  removed is marked.
\<close>

definition acked_by :: "'q worker \<Rightarrow> wevent \<Rightarrow> string option" where
  "acked_by w ev = (case ev of
       EvGo n _ \<Rightarrow> if n < length (dw_threads w) then (case dw_threads w ! n of TAcked i (Some _) \<Rightarrow> Some i | _ \<Rightarrow> None) else None
     | _ \<Rightarrow> None)"

definition worker_step ::
  "('s, 'q, 'w, 'k) client_deps \<Rightarrow> client_env \<Rightarrow> wevent \<Rightarrow> ('s, 'q, 'w, 'k) orpal \<Rightarrow> ('s, 'q, 'w, 'k) orpal" where
  "worker_step d e ev c =
     (case (oc_worker c, dp_queue d) of
        (Some w, Some Q) \<Rightarrow>
          (let w1 = dw_step Q (dp_backoff d) w ev;
               c1 = fold (attemptDelivery d e) (drop (length (dw_sends w)) (dw_sends w1)) (c\<lparr>oc_worker := Some w1\<rparr>)
           in case acked_by w ev of None \<Rightarrow> c1 | Some i \<Rightarrow> markMessage (dp_store d) i (patch_state OAcknowledged) c1)
      | _ \<Rightarrow> c)"

definition retryText ::
  "('s, 'q, 'w, 'k) client_deps \<Rightarrow> client_env \<Rightarrow> string \<Rightarrow> string \<Rightarrow> ('s, 'q, 'w, 'k) orpal \<Rightarrow> ('s, 'q, 'w, 'k) orpal" where
  "retryText d e messageId contactKey c =
     (case cv_getMessage (dp_store d) messageId (oc_store c) of
        None \<Rightarrow> c
      | Some m \<Rightarrow>
          if sm_kind m \<noteq> KText \<or> sm_direction m \<noteq> DOut \<or> sm_text m = None then c
          else (case pinned_key c contactKey of
              None \<Rightarrow> oc_emit (EvError ''retryText:seal'') (markMessage (dp_store d) messageId (patch_state OFailed) c)
            | Some tk \<Rightarrow> start_call d e contactKey (CallRetry messageId contactKey tk (the (sm_text m)) (sm_ts m))
                (markMessage (dp_store d) messageId (patch_state OSending) c)))"

definition connect :: "('s, 'q, 'w, 'k) client_deps \<Rightarrow> client_env \<Rightarrow> string \<Rightarrow> ('s, 'q, 'w, 'k) orpal \<Rightarrow> ('s, 'q, 'w, 'k) orpal" where
  "connect d e contactKey c = start_call d e contactKey CallConnect c"

subsection \<open>Files\<close>

definition sendFileTo ::
  "('s, 'q, 'w, 'k) client_deps \<Rightarrow> client_env \<Rightarrow> string \<Rightarrow> file_source \<Rightarrow> ('s, 'q, 'w, 'k) orpal \<Rightarrow> string \<times> ('s, 'q, 'w, 'k) orpal" where
  "sendFileTo d e contactKey source c =
     (let fileId = en_id e; chunkSize = opt_chunkSize (dp_fileTransfer d);
          c1 = append_message (dp_store d) \<lparr>sm_id = fileId, sm_contactKey = contactKey, sm_direction = DOut, sm_kind = KFile,
            sm_ts = en_ms e, sm_text = None, sm_file = Some \<lparr>fm_fileId = fileId, fm_name = fs_name source, fm_size = of_nat (fs_size source),
              fm_mime = fs_mime source, fm_sha256 = [], fm_chunkSize = of_nat chunkSize, fm_chunks = of_nat (chunkCount (fs_size source) chunkSize),
              fm_path = None, fm_state = XTransferring, fm_transferred = 0\<rparr>, sm_state = OSending\<rparr> c
      in (fileId, case pinned_key c contactKey of
            None \<Rightarrow> oc_emit (EvError ''sendFile:seal'')
              (markFile (dp_store d) fileId (no_file_patch\<lparr>fp_state := Some XFailed\<rparr>) (Some OFailed) c1)
          | Some tk \<Rightarrow> start_call d e contactKey (CallFile fileId contactKey tk source) c1))"

definition maybeSealOutbound :: "crypto \<Rightarrow> bytes \<Rightarrow> string \<Rightarrow> app_frame \<Rightarrow> app_frame option" where
  "maybeSealOutbound C eph transportKey frame = (case frame of
       TextFrame _ _ _ \<Rightarrow> sealAppFrame C eph frame transportKey
     | FileOfferFrame _ \<Rightarrow> sealAppFrame C eph frame transportKey
     | _ \<Rightarrow> Some frame)"

definition transfer_frame ::
  "('s, 'q, 'w, 'k) client_deps \<Rightarrow> client_env \<Rightarrow> nat \<Rightarrow> app_frame \<Rightarrow> ('s, 'q, 'w, 'k) orpal \<Rightarrow> ('s, 'q, 'w, 'k) orpal" where
  \<comment> \<open>\<open>sendFrame\<close> of a running transfer\<close>
  "transfer_frame d e n frame c =
     (if length (oc_transfers c) \<le> n then c
      else let t = oc_transfers c ! n
           in case maybeSealOutbound (dp_crypto d) (en_eph e) (ot_transportKey t) frame of
                None \<Rightarrow> c
              | Some f \<Rightarrow> send_on (ot_contactKey t) f c)"

definition transfer_progress :: "'s conv_store \<Rightarrow> nat \<Rightarrow> progress \<Rightarrow> ('s, 'q, 'w, 'k) orpal \<Rightarrow> ('s, 'q, 'w, 'k) orpal" where
  "transfer_progress S n p c =
     (if length (oc_transfers c) \<le> n then c
      else let t = oc_transfers c ! n
           in markFile S (ot_fileId t) (no_file_patch\<lparr>fp_transferred := Some (of_nat (pr_transferred p)), fp_state := Some XTransferring\<rparr>) None
                (oc_emit (EvTransferProgress (ot_contactKey t) DOut p) c))"

definition transfer_settled :: "'s conv_store \<Rightarrow> nat \<Rightarrow> string option \<Rightarrow> ('s, 'q, 'w, 'k) orpal \<Rightarrow> ('s, 'q, 'w, 'k) orpal" where
  \<comment> \<open>the transfer ended with the hash of what was sent, or failed\<close>
  "transfer_settled S n sent c =
     (if length (oc_transfers c) \<le> n then c
      else let t = oc_transfers c ! n; c1 = c\<lparr>oc_transfers := drop_at n (oc_transfers c)\<rparr>
           in case sent of
                Some h \<Rightarrow> markFile S (ot_fileId t) (no_file_patch\<lparr>fp_state := Some XComplete, fp_sha256 := Some h\<rparr>) (Some ODelivered) c1
              | None \<Rightarrow> markFile S (ot_fileId t) (no_file_patch\<lparr>fp_state := Some XFailed\<rparr>) (Some OFailed) (oc_emit (EvError ''sendFile'') c1))"

text \<open>The callbacks of a file receiver, and its steps.\<close>

definition receive_progress :: "'s conv_store \<Rightarrow> progress \<Rightarrow> ('s, 'q, 'w, 'k) orpal \<Rightarrow> ('s, 'q, 'w, 'k) orpal" where
  "receive_progress S p c =
     markFile S (pr_fileId p) (no_file_patch\<lparr>fp_transferred := Some (of_nat (pr_transferred p)), fp_state := Some XTransferring\<rparr>) None c"

definition receive_complete :: "'s conv_store \<Rightarrow> FileTransfer.outcome \<Rightarrow> ('s, 'q, 'w, 'k) orpal \<Rightarrow> ('s, 'q, 'w, 'k) orpal" where
  "receive_complete S out c = (case out of
       Received i _ \<Rightarrow> markFile S i (no_file_patch\<lparr>fp_state := Some XComplete\<rparr>) None c
     | IntegrityFailed i \<Rightarrow> markFile S i (no_file_patch\<lparr>fp_state := Some XIntegrityFailed\<rparr>) None c
     | Aborted i \<Rightarrow> markFile S i (no_file_patch\<lparr>fp_state := Some XFailed\<rparr>) None c)"

definition offered_message :: "string \<Rightarrow> file_offer \<Rightarrow> stored_message" where
  "offered_message contactKey offer =
     \<lparr>sm_id = fo_fileId offer, sm_contactKey = contactKey, sm_direction = DIn, sm_kind = KFile, sm_ts = fo_ts offer, sm_text = None,
      sm_file = Some \<lparr>fm_fileId = fo_fileId offer, fm_name = fo_name offer, fm_size = fo_size offer, fm_mime = fo_mime offer,
        fm_sha256 = fo_sha256 offer, fm_chunkSize = fo_chunkSize offer, fm_chunks = fo_chunks offer, fm_path = None,
        fm_state = XTransferring, fm_transferred = 0\<rparr>, sm_state = ODelivered\<rparr>"

definition receive_offer ::
  "'s conv_store \<Rightarrow> string \<Rightarrow> file_offer \<Rightarrow> ('s, 'q, 'w, 'k) orpal \<Rightarrow> ('s, 'q, 'w, 'k) orpal" where
  \<comment> \<open>the receiver's first progress, then the message \<open>createSink\<close> stores; the store update for the progress is queued behind it\<close>
  "receive_offer S matchKey offer c =
     (case jget (oc_receivers c) matchKey of
        None \<Rightarrow> c
      | Some (key, r) \<Rightarrow>
          if jhas (fr_files r) (fo_fileId offer) then c
          else
            (let r1 = onOffer offer r; new = drop (length (fr_progress r)) (fr_progress r1);
                 c1 = fold (\<lambda>p. oc_emit (EvTransferProgress key DIn p)) new (c\<lparr>oc_receivers := jset matchKey (key, r1) (oc_receivers c)\<rparr>)
             in fold (receive_progress S) new (append_message S (offered_message key offer) c1)))"

definition sink_path :: "'k freceiver \<Rightarrow> 'k revent \<Rightarrow> string option \<Rightarrow> (string \<times> string) option" where
  \<comment> \<open>the file and the path that its new sink reports\<close>
  "sink_path r ev path = (case (ev, path) of
       (EvResume n (Some k), Some p) \<Rightarrow>
         if n < length (fr_threads r) \<and> p \<noteq> [] then (case fr_threads r ! n of
             TCreate i \<Rightarrow> Some (fo_fileId (rf_offer (fr_heap r ! i)), p) | _ \<Rightarrow> None)
         else None
     | _ \<Rightarrow> None)"

definition receiver_step ::
  "('s, 'q, 'w, 'k) client_deps \<Rightarrow> string \<Rightarrow> 'k revent \<Rightarrow> string option \<Rightarrow> ('s, 'q, 'w, 'k) orpal \<Rightarrow> ('s, 'q, 'w, 'k) orpal" where
  "receiver_step d matchKey ev path c =
     (case jget (oc_receivers c) matchKey of
        None \<Rightarrow> c
      | Some (key, r) \<Rightarrow>
          (let r1 = fr_step (dp_sink d) (dp_hash d) r ev;
               c1 = c\<lparr>oc_receivers := jset matchKey (key, r1) (oc_receivers c)\<rparr>;
               c2 = (case sink_path r ev path of None \<Rightarrow> c1 | Some (i, p) \<Rightarrow> markFile (dp_store d) i (no_file_patch\<lparr>fp_path := Some p\<rparr>) None c1);
               c3 = fold (\<lambda>p c. receive_progress (dp_store d) p (oc_emit (EvTransferProgress key DIn p) c))
                 (drop (length (fr_progress r)) (fr_progress r1)) c2
           in fold (receive_complete (dp_store d)) (drop (length (fr_outcomes r)) (fr_outcomes r1)) c3))"

subsection \<open>Boards\<close>

definition announcePresenceOn :: "client_env \<Rightarrow> board_entry \<Rightarrow> ('s, 'q, 'w, 'k) orpal \<Rightarrow> ('s, 'q, 'w, 'k) orpal" where
  "announcePresenceOn e board c =
     (if bd_id board \<in> set (en_announceThrows e) then oc_emit (EvError ''announcePresence'') c
      else c\<lparr>oc_announced := oc_announced c @ [(bd_id board, bd_pushToken board)]\<rparr>)"

definition announceAll :: "client_env \<Rightarrow> ('s, 'q, 'w, 'k) orpal \<Rightarrow> ('s, 'q, 'w, 'k) orpal" where
  "announceAll e c = fold (announcePresenceOn e) (oc_boards c) c"

definition setPushToken :: "client_env \<Rightarrow> string option \<Rightarrow> ('s, 'q, 'w, 'k) orpal \<Rightarrow> ('s, 'q, 'w, 'k) orpal" where
  "setPushToken e token c =
     (if token = oc_pushToken c then c
      else let c1 = c\<lparr>oc_pushToken := token, oc_boards := map (\<lambda>b. b\<lparr>bd_pushToken := token\<rparr>) (oc_boards c)\<rparr>
           in if oc_started c1 then announceAll e c1 else c1)"

definition reannounce :: "client_env \<Rightarrow> ('s, 'q, 'w, 'k) orpal \<Rightarrow> ('s, 'q, 'w, 'k) orpal" where
  "reannounce e c = (if oc_started c then announceAll e c else c)"

definition resolveBoard :: "string option \<Rightarrow> ('s, 'q, 'w, 'k) orpal \<Rightarrow> board_entry option" where
  "resolveBoard boardId c = (case boardId of
       Some i \<Rightarrow> if i \<noteq> [] then find (\<lambda>b. bd_id b = i) (oc_boards c)
         else (case oc_boards c of [b] \<Rightarrow> Some b | _ \<Rightarrow> None)
     | None \<Rightarrow> (case oc_boards c of [b] \<Rightarrow> Some b | _ \<Rightarrow> None))"

fun update_first :: "('a \<Rightarrow> bool) \<Rightarrow> ('a \<Rightarrow> 'a) \<Rightarrow> 'a list \<Rightarrow> 'a list" where
  "update_first P f [] = []"
| "update_first P f (x # xs) = (if P x then f x # xs else x # update_first P f xs)"

definition set_board_state :: "string option \<Rightarrow> broker_state \<Rightarrow> ('s, 'q, 'w, 'k) orpal \<Rightarrow> ('s, 'q, 'w, 'k) orpal" where
  "set_board_state boardId st c =
     (case resolveBoard boardId c of
        None \<Rightarrow> c
      | Some b \<Rightarrow> c\<lparr>oc_boards := update_first (\<lambda>x. bd_id x = bd_id b) (\<lambda>x. x\<lparr>bd_state := st\<rparr>) (oc_boards c)\<rparr>)"

definition recomputeBrokerState :: "('s, 'q, 'w, 'k) orpal \<Rightarrow> ('s, 'q, 'w, 'k) orpal" where
  "recomputeBrokerState c =
     (let states = map bd_state (oc_boards c);
          agg = (if BOpen \<in> set states then BOpen else if BConnecting \<in> set states then BConnecting
            else if BError \<in> set states then BError else BClosed)
      in oc_emit (EvBroker agg) (c\<lparr>oc_brokerState := agg\<rparr>))"

definition onBrokerOpen :: "client_env \<Rightarrow> string option \<Rightarrow> ('s, 'q, 'w, 'k) orpal \<Rightarrow> ('s, 'q, 'w, 'k) orpal" where
  "onBrokerOpen e boardId c =
     (let c1 = recomputeBrokerState (set_board_state boardId BOpen c)
      in if \<not> oc_started c1 then c1
         else
           (let c2 = (case resolveBoard boardId c1 of
                  None \<Rightarrow> c1
                | Some b \<Rightarrow>
                    (let c3 = announcePresenceOn e b c1;
                         wanted = filter (\<lambda>key. contactState (oc_conns c3) key \<noteq> CConnected
                           \<and> bd_id b \<in> set (map bd_id (boardsForContact key c3))) (cm_desired (oc_conns c3))
                     in c3\<lparr>oc_intents := oc_intents c3 @ map (Pair (bd_id b)) wanted\<rparr>))
            in c2\<lparr>oc_worker := map_option (dw_flush None) (oc_worker c2)\<rparr>))"

definition onBrokerClose :: "string option \<Rightarrow> ('s, 'q, 'w, 'k) orpal \<Rightarrow> ('s, 'q, 'w, 'k) orpal" where
  "onBrokerClose boardId c = recomputeBrokerState (set_board_state boardId BClosed c)"

definition onBrokerError :: "string option \<Rightarrow> ('s, 'q, 'w, 'k) orpal \<Rightarrow> ('s, 'q, 'w, 'k) orpal" where
  "onBrokerError boardId c = recomputeBrokerState (set_board_state boardId BError c)"

subsection \<open>Migration\<close>

definition emit_progress :: "migration_manager \<Rightarrow> ('s, 'q, 'w, 'k) orpal \<Rightarrow> ('s, 'q, 'w, 'k) orpal" where
  "emit_progress mm c = (case mm_progress mm of None \<Rightarrow> c | Some p \<Rightarrow> oc_emit (EvMigrationProgress (Some p)) c)"

definition startClientMigration ::
  "('s, 'q, 'w, 'k) client_deps \<Rightarrow> client_env \<Rightarrow> string \<Rightarrow> ('s, 'q, 'w, 'k) orpal \<Rightarrow> string option \<times> ('s, 'q, 'w, 'k) orpal" where
  "startClientMigration d e retireAfterUtc c =
     (case oc_migration c of
        None \<Rightarrow> (Some ''Migration not configured (provide migrationStore + keyStore).'', c)
      | Some mm \<Rightarrow>
          (let keys = map ct_identityKey (cv_listContacts (dp_store d) (oc_store c))
           in case startMigration (dp_crypto d) (dp_pending d) (dp_mstore d) (oc_identity c) keys retireAfterUtc
                  (fst (en_keys e)) (snd (en_keys e)) (en_nonce e) (en_iso e) mm (oc_world c) of
                (Inl err, mm1, w1) \<Rightarrow> (Some err, c\<lparr>oc_migration := Some mm1, oc_world := w1\<rparr>)
              | (Inr (migration, newId), mm1, w1) \<Rightarrow>
                  (let c1 = fold (\<lambda>key. send_if_connected key (KeyMigrationFrame migration)) keys
                         (c\<lparr>oc_migration := Some mm1, oc_world := w1\<rparr>)
                   in case markNotified (dp_mstore d) mm1 w1 of
                        (r, mm2, w2) \<Rightarrow>
                          (let c2 = c1\<lparr>oc_migration := Some mm2, oc_world := w2\<rparr>
                           in (r, if r = None then emit_progress mm2 c2 else c2)))))"

definition acceptMigration ::
  "('s, 'q, 'w, 'k) client_deps \<Rightarrow> client_env \<Rightarrow> string \<Rightarrow> ('s, 'q, 'w, 'k) orpal \<Rightarrow> bool \<times> ('s, 'q, 'w, 'k) orpal" where
  "acceptMigration d e contactKey c =
     (case oc_migration c of
        None \<Rightarrow> (False, c)
      | Some mm \<Rightarrow>
          (case acceptIncomingMigration (dp_crypto d) contactKey mm of
             (None, mm1) \<Rightarrow> (False, c)
           | (Some (migration, newKey, newTransportKey, binding), mm1) \<Rightarrow>
               (let c1 = c\<lparr>oc_migration := Some mm1\<rparr>;
                    c2 = (case cv_getContact (dp_store d) contactKey (oc_store c1) of
                        None \<Rightarrow> c1
                      | Some old \<Rightarrow> if newKey = [] then c1
                          else registerContact (dp_store d)
                            (old\<lparr>ct_identityKey := newKey, ct_transportKey := newTransportKey, ct_binding := binding\<rparr>) c1)
                in (True, send_if_connected contactKey
                      (MigrationAckFrame (JObj (buildMigrationAck (dp_crypto d) (oc_identity c2) migration (en_nonce e) (en_iso e)))) c2))))"

definition declineMigration :: "string \<Rightarrow> ('s, 'q, 'w, 'k) orpal \<Rightarrow> ('s, 'q, 'w, 'k) orpal" where
  "declineMigration contactKey c = c\<lparr>oc_migration := map_option (declineIncomingMigration contactKey) (oc_migration c)\<rparr>"

definition retireMigration :: "('s, 'q, 'w, 'k) client_deps \<Rightarrow> ('s, 'q, 'w, 'k) orpal \<Rightarrow> string option \<times> ('s, 'q, 'w, 'k) orpal" where
  "retireMigration d c =
     (case oc_migration c of
        None \<Rightarrow> (None, c)
      | Some mm \<Rightarrow> (case retire (dp_main d) (dp_pending d) (dp_mstore d) mm (oc_world c) of
          (r, mm1, w1) \<Rightarrow> (let c1 = c\<lparr>oc_migration := Some mm1, oc_world := w1\<rparr> in (r, if r = None then emit_progress mm1 c1 else c1))))"

subsection \<open>Incoming frames\<close>

definition receive_text ::
  "('s, 'q, 'w, 'k) client_deps \<Rightarrow> client_env \<Rightarrow> string \<Rightarrow> string \<Rightarrow> string \<Rightarrow> rat \<Rightarrow> ('s, 'q, 'w, 'k) orpal \<Rightarrow> ('s, 'q, 'w, 'k) orpal" where
  "receive_text d e contactKey i text ts c =
     (let already = (cv_getMessage (dp_store d) i (oc_store c) \<noteq> None);
          c1 = (if already then c else append_message (dp_store d) \<lparr>sm_id = i, sm_contactKey = contactKey, sm_direction = DIn,
            sm_kind = KText, sm_ts = ts, sm_text = Some text, sm_file = None, sm_state = ODelivered\<rparr> c)
      in sendAwk e contactKey i c1)"

definition receive_awk :: "('s, 'q, 'w, 'k) client_deps \<Rightarrow> string \<Rightarrow> ('s, 'q, 'w, 'k) orpal \<Rightarrow> ('s, 'q, 'w, 'k) orpal" where
  \<comment> \<open>with a worker the message is marked when the worker has removed it, in \<open>worker_step\<close>\<close>
  "receive_awk d i c = (case oc_worker c of
       Some w \<Rightarrow> c\<lparr>oc_worker := Some (dw_acknowledge i w)\<rparr>
     | None \<Rightarrow> markMessage (dp_store d) i (patch_state OAcknowledged) c)"

definition receive_hello :: "('s, 'q, 'w, 'k) client_deps \<Rightarrow> string \<Rightarrow> string \<Rightarrow> ('s, 'q, 'w, 'k) orpal \<Rightarrow> ('s, 'q, 'w, 'k) orpal" where
  "receive_hello d contactKey card1 c =
     (case parseContactCard (dp_crypto d) card1 of
        Inl _ \<Rightarrow> c
      | Inr cd \<Rightarrow>
          if cc_identity_key cd \<noteq> contactKey then c
          else if cc_identity_key cd = identityKey c then c
          else if cv_getContact (dp_store d) contactKey (oc_store c) \<noteq> None then c
          else if jhas (oc_pendingCards c) contactKey then c
          else let req = \<lparr>rq_contactKey = contactKey, rq_card = card1, rq_name = cc_name cd\<rparr>
               in oc_emit (EvContactRequest req) (c\<lparr>oc_pendingCards := jset contactKey req (oc_pendingCards c)\<rparr>))"

definition receive_file_offer :: "('s, 'q, 'w, 'k) client_deps \<Rightarrow> string \<Rightarrow> file_offer \<Rightarrow> ('s, 'q, 'w, 'k) orpal \<Rightarrow> ('s, 'q, 'w, 'k) orpal" where
  "receive_file_offer d contactKey offer c =
     (case getConnection (oc_conns c) contactKey of
        None \<Rightarrow> c
      | Some cn \<Rightarrow>
          if \<not> jhas (oc_receivers c) (cn_matchKey cn) \<or> cv_getMessage (dp_store d) (fo_fileId offer) (oc_store c) \<noteq> None then c
          else receive_offer (dp_store d) (cn_matchKey cn) offer c)"

definition on_receiver ::
  "('s, 'q, 'w, 'k) client_deps \<Rightarrow> string \<Rightarrow> 'k revent \<Rightarrow> ('s, 'q, 'w, 'k) orpal \<Rightarrow> ('s, 'q, 'w, 'k) orpal" where
  "on_receiver d contactKey ev c =
     (case getConnection (oc_conns c) contactKey of None \<Rightarrow> c | Some cn \<Rightarrow> receiver_step d (cn_matchKey cn) ev None c)"

definition receive_key_migration ::
  "('s, 'q, 'w, 'k) client_deps \<Rightarrow> client_env \<Rightarrow> string \<Rightarrow> json \<Rightarrow> ('s, 'q, 'w, 'k) orpal \<Rightarrow> ('s, 'q, 'w, 'k) orpal" where
  "receive_key_migration d e contactKey migration c =
     (case oc_migration c of
        None \<Rightarrow> c
      | Some mm \<Rightarrow>
          (let name = (case cv_getContact (dp_store d) contactKey (oc_store c) of None \<Rightarrow> contactKey | Some x \<Rightarrow> ct_displayName x)
           in case handleIncomingMigration (dp_crypto d) migration contactKey name mm of
                (Inl reason, mm1) \<Rightarrow> oc_emit (EvError ''processFrame:key-migration'') c
              | (Inr _, mm1) \<Rightarrow>
                  (let c1 = c\<lparr>oc_migration := Some mm1\<rparr>;
                       prompt = (if mm_pendingIncoming mm1 = [] then c1
                         else oc_emit (EvMigrationIncoming (last (mm_pendingIncoming mm1))) c1);
                       oldTk = pinned_key c1 contactKey
                   in if autoAcceptOf (oc_contacts c1) contactKey \<and> oldTk \<noteq> None
                         \<and> contactState (oc_conns c1) contactKey = CConnected
                      then (case createChallenges (dp_crypto d) (en_challenge e) contactKey (the oldTk) mm1 of
                          (Inl _, _) \<Rightarrow> c1
                        | (Inr None, _) \<Rightarrow> prompt
                        | (Inr (Some challenges), mm2) \<Rightarrow>
                            fold (\<lambda>ch. send_on contactKey (MigrationChallengeFrame (oc_target ch) (oc_sealedNonceB64 ch) (oc_ackPubkeyB64 ch)))
                              challenges (c1\<lparr>oc_migration := Some mm2\<rparr>))
                      else prompt)))"

definition receive_challenge ::
  "('s, 'q, 'w, 'k) client_deps \<Rightarrow> client_env \<Rightarrow> string \<Rightarrow> challenge_target \<Rightarrow> string \<Rightarrow> string
    \<Rightarrow> ('s, 'q, 'w, 'k) orpal \<Rightarrow> ('s, 'q, 'w, 'k) orpal" where
  "receive_challenge d e contactKey target sealed_nonce ack_pubkey c =
     (case oc_migration c of
        None \<Rightarrow> c
      | Some mm \<Rightarrow>
          if \<not> mm_active mm then c
          else (case answerChallenge (dp_crypto d) (en_eph e) (oc_identity c) target sealed_nonce ack_pubkey mm of
              Inl _ \<Rightarrow> c
            | Inr None \<Rightarrow> c
            | Inr (Some echo) \<Rightarrow> if echo = [] then c else send_if_connected contactKey (MigrationChallengeResponseFrame target echo) c))"

definition receive_challenge_response ::
  "('s, 'q, 'w, 'k) client_deps \<Rightarrow> client_env \<Rightarrow> string \<Rightarrow> challenge_target \<Rightarrow> string \<Rightarrow> ('s, 'q, 'w, 'k) orpal \<Rightarrow> ('s, 'q, 'w, 'k) orpal" where
  "receive_challenge_response d e contactKey target sealed_echo c =
     (case oc_migration c of
        None \<Rightarrow> c
      | Some mm \<Rightarrow>
          (case verifyChallengeResponse (dp_crypto d) contactKey target sealed_echo mm of
             ((bothVerified, valid), mm1) \<Rightarrow>
               (let c1 = c\<lparr>oc_migration := Some mm1\<rparr>;
                    c2 = (if valid then c1 else oc_emit (EvError ''processFrame:migration-challenge-response'') c1)
                in if \<not> bothVerified then c2
                   else (case acceptMigration d e contactKey c2 of
                       (accepted, c3) \<Rightarrow>
                         if accepted then oc_emit (EvMigrationProgress (case oc_migration c3 of None \<Rightarrow> None | Some m \<Rightarrow> mm_progress m)) c3
                         else c3))))"

definition receive_migration_ack ::
  "('s, 'q, 'w, 'k) client_deps \<Rightarrow> string \<Rightarrow> json \<Rightarrow> ('s, 'q, 'w, 'k) orpal \<Rightarrow> ('s, 'q, 'w, 'k) orpal" where
  "receive_migration_ack d contactKey ack c =
     (case oc_migration c of
        None \<Rightarrow> c
      | Some mm \<Rightarrow> (case handleMigrationAck (dp_crypto d) (dp_mstore d) ack contactKey mm (oc_world c) of
          (r, mm1, w1) \<Rightarrow> (let c1 = c\<lparr>oc_migration := Some mm1, oc_world := w1\<rparr> in if r = Inr True then emit_progress mm1 c1 else c1)))"

definition processFrame ::
  "('s, 'q, 'w, 'k) client_deps \<Rightarrow> client_env \<Rightarrow> string \<Rightarrow> app_frame \<Rightarrow> ('s, 'q, 'w, 'k) orpal \<Rightarrow> ('s, 'q, 'w, 'k) orpal" where
  "processFrame d e contactKey frame c = (case frame of
       TextFrame i text ts \<Rightarrow> receive_text d e contactKey i text ts c
     | AwkFrame i ts \<Rightarrow> receive_awk d i c
     | HelloFrame card1 \<Rightarrow> receive_hello d contactKey card1 c
     | FileOfferFrame offer \<Rightarrow> receive_file_offer d contactKey offer c
     | FileChunkFrame fileId i data \<Rightarrow> on_receiver d contactKey (EvChunk fileId i data) c
     | FileDoneFrame fileId \<Rightarrow> on_receiver d contactKey (EvDone fileId) c
     | KeyMigrationFrame migration \<Rightarrow> receive_key_migration d e contactKey migration c
     | MigrationChallengeFrame target nonce pub \<Rightarrow> receive_challenge d e contactKey target nonce pub c
     | MigrationChallengeResponseFrame target echo \<Rightarrow> receive_challenge_response d e contactKey target echo c
     | MigrationAckFrame ack \<Rightarrow> receive_migration_ack d contactKey ack c
     | SealedFrame _ _ \<Rightarrow> c)"

definition handleIncomingFrame ::
  "('s, 'q, 'w, 'k) client_deps \<Rightarrow> client_env \<Rightarrow> string \<Rightarrow> string \<Rightarrow> ('s, 'q, 'w, 'k) orpal \<Rightarrow> ('s, 'q, 'w, 'k) orpal" where
  "handleIncomingFrame d e contactKey text c =
     (if isBlocked c contactKey then c
      else (case decodeAppFrame text of
          None \<Rightarrow> c
        | Some (SealedFrame alg box) \<Rightarrow>
            (case openSealedFrame (dp_crypto d) alg box (di_transportPriv (oc_identity c)) (transportPub (oc_identity c)) of
               None \<Rightarrow> oc_emit (EvError ''handleIncomingFrame:unseal'') c
             | Some inner \<Rightarrow> processFrame d e contactKey inner c)
        | Some outer \<Rightarrow> processFrame d e contactKey outer c))"

subsection \<open>Lifecycle\<close>

definition client_start ::
  "('s, 'q, 'w, 'k) client_deps \<Rightarrow> client_env \<Rightarrow> 'q \<Rightarrow> ('s, 'q, 'w, 'k) orpal \<Rightarrow> string option \<times> ('s, 'q, 'w, 'k) orpal" where
  \<comment> \<open>with the send queue as it is found\<close>
  "client_start d e queue c =
     (if oc_started c then (None, c)
      else
        (let c1 = c\<lparr>oc_started := True, oc_contacts := cr_loadAll (cv_listContacts (dp_store d) (oc_store c)) (oc_contacts c)\<rparr>;
             c2 = (if dp_queue d = None then c1 else c1\<lparr>oc_worker := Some (dw_start (DeliveryWorker queue))\<rparr>);
             (r, c3) = (if dp_migrates d
               then (case mm_init (dp_crypto d) (dp_pending d) (dp_mstore d) MigrationManager (oc_world c2) of
                   (r, mm, w1) \<Rightarrow> (r, c2\<lparr>oc_migration := Some mm, oc_world := w1\<rparr>))
               else (None, c2))
         in (r, if r = None then announceAll e c3 else c3)))"

definition client_close :: "('s, 'q, 'w, 'k) orpal \<Rightarrow> ('s, 'q, 'w, 'k) orpal" where
  \<comment> \<open>the stopped worker is dropped\<close>
  "client_close c = c\<lparr>oc_worker := None, oc_conns := closeAll (oc_conns c), oc_started := False\<rparr>"

definition history :: "'s conv_store \<Rightarrow> string \<Rightarrow> list_opts \<Rightarrow> ('s, 'q, 'w, 'k) orpal \<Rightarrow> stored_message list" where
  "history S contactKey opts c = cv_listMessages S contactKey opts (oc_store c)"

definition pendingMetrics :: "('s, 'q, 'w, 'k) client_deps \<Rightarrow> ('s, 'q, 'w, 'k) orpal \<Rightarrow> pending_metrics" where
  "pendingMetrics d c = (case oc_worker c of
       Some w \<Rightarrow> computePendingMetrics (ps_list (the (dp_queue d)) (dw_store w))
     | None \<Rightarrow> computePendingMetrics [])"

end
