(* ===== verification/ClientSafety.thy ===== *)
theory ClientSafety
  imports OrpalClient
begin

text \<open>
  What the client of \<open>OrpalClient\<close> keeps true, whatever its user, its contacts, the boards, the timers and
  the suspended calls do: contacts and routing facts agree and are certified, what it sends is sealed to
  certified keys, blocked peers stay out, requests carry the sender's own card, and no call is left
  waiting. The invariant is proved for any stores that keep the contracts of the two store interfaces.
\<close>

subsection \<open>Steps of the client\<close>

definition transfer_sends :: "('s, 'q, 'w, 'k) client_deps \<Rightarrow> out_transfer \<Rightarrow> app_frame \<Rightarrow> bool" where
  \<comment> \<open>the frames \<open>sendFile\<close> hands to its channel\<close>
  "transfer_sends d t frame = (
     (\<exists>now. frame = FileOfferFrame (offer_of (dp_hash d) (dp_fileTransfer d) (ot_source t) (ot_fileId t) now))
     \<or> (\<exists>i. frame = chunk_frame (dp_fileTransfer d) (ot_source t) (ot_fileId t) i)
     \<or> frame = FileDoneFrame (ot_fileId t))"

inductive oc_step :: "('s, 'q, 'w, 'k) client_deps \<Rightarrow> ('q \<Rightarrow> bool) \<Rightarrow> ('s, 'q, 'w, 'k) orpal \<Rightarrow> ('s, 'q, 'w, 'k) orpal \<Rightarrow> bool"
  for d and queues where
  Started: "queues q \<Longrightarrow> oc_step d queues c (snd (client_start d e q c))"
| ClosedDown: "oc_step d queues c (client_close c)"
| AddCard: "oc_step d queues c (snd (addContactFromCard d e input name relay c))"
| Import: "oc_step d queues c (snd (importContactsText d e input collision c))"
| Loopback: "oc_step d queues c (snd (ensureLoopbackContact d e name c))"
| SelfTest: "oc_step d queues c (snd (runLoopbackSelfTest d e rnd c))"
| Remove: "oc_step d queues c (removeContact (dp_store d) key c)"
| SetBoards: "oc_step d queues c (setContactBoards (dp_store d) key pref fb c)"
| SetRelay: "oc_step d queues c (setContactRelayOnly (dp_store d) key relayOnly c)"
| SetName: "oc_step d queues c (setContactDisplayName (dp_store d) key nm c)"
| SetAuto: "oc_step d queues c (setAutoAcceptMigration (dp_store d) key auto1 c)"
| Block: "oc_step d queues c (setBlockedKeys keys c)"
| Dismiss: "oc_step d queues c (dismissContactRequest key c)"
| AcceptRequest: "oc_step d queues c (snd (acceptContactRequest d e key displayName c))"
| StartMigration: "oc_step d queues c (snd (startClientMigration d e ret c))"
| AcceptMigration: "oc_step d queues c (snd (acceptMigration d e key c))"
| DeclineMigration: "oc_step d queues c (declineMigration key c)"
| RetireMigration: "oc_step d queues c (snd (retireMigration d c))"
| SendText: "oc_step d queues c (snd (sendText d e key text1 c))"
| RetryText: "oc_step d queues c (retryText d e i key c)"
| SendFile: "oc_step d queues c (snd (sendFileTo d e key src c))"
| Connect: "oc_step d queues c (connect d e key c)"
| PushToken: "oc_step d queues c (setPushToken e token c)"
| Reannounce: "oc_step d queues c (reannounce e c)"
| BrokerOpen: "oc_step d queues c (onBrokerOpen e board c)"
| BrokerClose: "oc_step d queues c (onBrokerClose board c)"
| BrokerError: "oc_step d queues c (onBrokerError board c)"
| Outbound: "oc_step d queues c (observeOutbound board1 msg c)"
| Endpoint: "oc_step d queues c (buildEndpoint d board1 mid ep c)"
| EndpointState: "oc_step d queues c (c\<lparr>oc_conns := handleEndpointState mkey st (oc_conns c)\<rparr>)"
| ConnectTimer: "oc_step d queues c (c\<lparr>oc_conns := fireConnectTimer p (oc_conns c)\<rparr>)"
| Connected: "oc_step d queues c (handleConnected d board1 mid key c)"
| Resume: "oc_step d queues c (resume_call d e n c)"
| Settled: "oc_step d queues c (channel_settled (dp_store d) n acked c)"
| Worker: "(\<exists>i. ev = EvTimer i) \<or> (\<exists>n. ev = EvRead n) \<or> (\<exists>n en. ev = EvGo n en) \<Longrightarrow> oc_step d queues c (worker_step d e ev c)"
| TransferFrame: "transfer_sends d (oc_transfers c ! n) frame \<Longrightarrow> oc_step d queues c (transfer_frame d e n frame c)"
| TransferProgress: "oc_step d queues c (transfer_progress (dp_store d) n pr c)"
| TransferSettled: "oc_step d queues c (transfer_settled (dp_store d) n sha c)"
| Receiver: "oc_step d queues c (receiver_step d mkey rv path c)"
| Frame: "oc_step d queues c (handleIncomingFrame d e key text1 c)"

inductive oc_reach ::
  "(('s, 'q, 'w, 'k) client_deps \<Rightarrow> bool) \<Rightarrow> ('q \<Rightarrow> bool) \<Rightarrow> ('s \<Rightarrow> bool) \<Rightarrow> ('s, 'q, 'w, 'k) orpal \<Rightarrow> bool"
  for deps and queues and stores where
  \<comment> \<open>what the dependencies answer may differ from step to step\<close>
  New: "client_init i s w boards token = Some c \<Longrightarrow> stores s \<Longrightarrow> oc_reach deps queues stores c"
| Next: "oc_reach deps queues stores c \<Longrightarrow> deps d \<Longrightarrow> oc_step d queues c c' \<Longrightarrow> oc_reach deps queues stores c'"

subsection \<open>What is kept\<close>

definition pinned :: "crypto \<Rightarrow> string \<Rightarrow> string \<Rightarrow> bool" where
  \<comment> \<open>a binding signed by the identity key certifies the transport key\<close>
  "pinned C key tk = (\<exists>b. verifyBinding C b \<and> wf_json b \<and> jprop b ''identity_key'' = Some (JStr key)
     \<and> jprop b ''transport_key'' = Some (JStr tk))"

lemma pinned_authentic: "signs_only C i R \<Longrightarrow> pinned C (identityKeyB64 i) tk \<Longrightarrow> tk = transportKeyB64 i"
  using binding_authentic unfolding pinned_def by blast

lemma bound_pinned: "contact_bound C x \<Longrightarrow> pinned C (ct_identityKey x) (ct_transportKey x)"
  by (auto simp: contact_bound_def pinned_def)

definition pinned_message :: "crypto \<Rightarrow> pending_message \<Rightarrow> bool" where
  "pinned_message C m = pinned C (pm_recipientId m) (pm_recipientTransportKey m)"

lemma pinned_same: "same_content a m \<Longrightarrow> pinned_message C a \<Longrightarrow> pinned_message C m"
  by (simp add: same_content_def pinned_message_def)

definition frame_ok :: "crypto \<Rightarrow> string \<Rightarrow> app_frame \<Rightarrow> bool" where
  \<comment> \<open>no message leaves unsealed, and a sealed one is sealed to a certified key of the contact\<close>
  "frame_ok C key f = (case f of
       TextFrame _ _ _ \<Rightarrow> False
     | FileOfferFrame _ \<Rightarrow> False
     | SealedFrame _ _ \<Rightarrow> (\<exists>eph inner tk. sealAppFrame C eph inner tk = Some f \<and> pinned C key tk)
     | _ \<Rightarrow> True)"

definition call_ok :: "crypto \<Rightarrow> client_call \<Rightarrow> bool" where
  "call_ok C call = (case call of
       CallText _ key tk _ _ \<Rightarrow> pinned C key tk
     | CallRetry _ key tk _ _ \<Rightarrow> pinned C key tk
     | CallAttempt m \<Rightarrow> pinned_message C m
     | CallFile _ key tk _ \<Rightarrow> pinned C key tk
     | CallConnect \<Rightarrow> True)"

definition request_ok :: "crypto \<Rightarrow> string \<Rightarrow> string \<Rightarrow> contact_request \<Rightarrow> bool" where
  "request_ok C own key rq = (rq_contactKey rq = key \<and> key \<noteq> own
     \<and> (\<exists>cd. parseContactCard C (rq_card rq) = Inr cd \<and> cc_identity_key cd = key))"

definition moves_ok :: "crypto \<Rightarrow> migration_manager \<Rightarrow> bool" where
  "moves_ok C mm = (\<forall>p\<in>set (mm_pendingIncoming mm). verifyKeyMigration C (pn_migration p) = Inr () \<and> wf_json (pn_migration p)
     \<and> jprop (pn_migration p) ''old_key'' = Some (JStr (pn_contactKey p)))"

subsection \<open>The connection manager, as the client uses it\<close>

lemma quiet_id: "Connections.quiet id"
  by (simp add: Connections.quiet_def) (metis append_Nil2 cman.surjective cman.update_convs(9))

lemma ensureConnection_keeps:
  assumes "cm_ok cm" "ensureConnection key id cm = (r, cm')"
  shows "cm_ok cm'" "cm_connections cm' = cm_connections cm" "length (cm_promises cm) \<le> length (cm_promises cm')"
    "r = Inr p \<Longrightarrow> p < length (cm_promises cm')"
proof -
  show "cm_ok cm'" by (rule cm_ok_ensureConnection [OF assms(1) quiet_id assms(2)])
  have old: "p < length (cm_promises cm)" if "jget (cm_pendingConnects cm) key = Some p" for p
  proof -
    note l = assms(1) [unfolded cm_ok_def]
    have "jget (cm_timers cm) p = Some key" using linked_link [OF l] that by blast
    then show ?thesis using linked_timer [OF l, of p] by simp
  qed
  consider (live) cn where "r = Inl cn" "cm' = cm" | (inflight) q where "r = Inr q" "cm' = cm" "jget (cm_pendingConnects cm) key = Some q"
    | (new) q where "r = Inr q" "jget (cm_pendingConnects cm) key = None" "openAttempt key id cm = (q, cm')"
    using assms(2) by (auto simp: ensureConnection_def Let_def split: if_splits option.splits prod.splits)
  then have "cm_connections cm' = cm_connections cm \<and> length (cm_promises cm) \<le> length (cm_promises cm')
      \<and> (\<forall>p. r = Inr p \<longrightarrow> p < length (cm_promises cm'))"
  proof cases
    case new
    note o = openAttempt_eq(1,2,6) [OF assms(1) quiet_id new(2,3)]
    show ?thesis using new(1) by (simp add: o)
  qed (simp_all add: old)
  then show "cm_connections cm' = cm_connections cm" "length (cm_promises cm) \<le> length (cm_promises cm')"
    "r = Inr p \<Longrightarrow> p < length (cm_promises cm')" by blast+
qed

lemma settle_keeps [simp]: "cm_connections (settle p v cm) = cm_connections cm" "length (cm_promises (settle p v cm)) = length (cm_promises cm)"
  by (simp_all add: settle_def)

lemma removeConnectWaiter_others [simp]: "cm_connections (removeConnectWaiter key p cm) = cm_connections cm"
  by (simp add: removeConnectWaiter_def split: option.split)

lemma resolve_keeps [simp]:
  "cm_connections (resolveConnectWaiters key cn cm) = cm_connections cm"
  "length (cm_promises (resolveConnectWaiters key cn cm)) = length (cm_promises cm)"
proof -
  have "cm_connections (fold (call_waiter key cn) ws cm) = cm_connections cm \<and> length (cm_promises (fold (call_waiter key cn) ws cm)) = length (cm_promises cm)"
    for ws cm by (induction ws arbitrary: cm) (simp_all add: call_waiter_def Let_def)
  then show "cm_connections (resolveConnectWaiters key cn cm) = cm_connections cm"
    "length (cm_promises (resolveConnectWaiters key cn cm)) = length (cm_promises cm)"
    by (simp_all add: resolveConnectWaiters_def split: option.split)
qed

lemma fire_keeps [simp]:
  "cm_connections (fireConnectTimer p cm) = cm_connections cm" "length (cm_promises (fireConnectTimer p cm)) = length (cm_promises cm)"
  by (simp_all add: fireConnectTimer_def Let_def emitState_def split: option.split)

lemma endpoint_keeps [simp]:
  "jget (cm_connections (handleEndpointState m st cm)) k = None \<longleftrightarrow> jget (cm_connections cm) k = None"
  "cm_promises (handleEndpointState m st cm) = cm_promises cm"
  by (auto simp: handleEndpointState_def emitState_def split: option.split)

lemma cm_simple_keeps [simp]:
  "cm_ok (close_endpoint ep cm) = cm_ok cm" "cm_connections (close_endpoint ep cm) = cm_connections cm"
  "cm_promises (close_endpoint ep cm) = cm_promises cm"
  "cm_connections (recordMatch m k cm) = cm_connections cm" "cm_promises (recordMatch m k cm) = cm_promises cm"
  "cm_connections (storeEndpoint m e cm) = cm_connections cm" "cm_promises (storeEndpoint m e cm) = cm_promises cm"
  "cm_connections (emitState k st cm) = cm_connections cm" "cm_promises (emitState k st cm) = cm_promises cm"
  "cm_connections (setConnection k cn cm) = jset k cn (cm_connections cm)" "cm_promises (setConnection k cn cm) = cm_promises cm"
  "cm_connections (dropConnection k cm) = jdel k (cm_connections cm)" "cm_promises (dropConnection k cm) = cm_promises cm"
  "cm_connections (closeAll cm) = []" "cm_promises (closeAll cm) = cm_promises cm"
proof -
  show "cm_ok (close_endpoint ep cm) = cm_ok cm"
    by (rule cm_ok_cong) (simp_all add: close_endpoint_def waiters_of_def fun_eq_iff)
  show "cm_connections (dropConnection k cm) = jdel k (cm_connections cm)"
    by (simp add: dropConnection_def jhas_def jdel_absent split: option.split)
qed (simp_all add: close_endpoint_def recordMatch_def storeEndpoint_def emitState_def setConnection_def dropConnection_def closeAll_def
    split: option.split)

locale client_stores =
  store: conversation_store S sok + queue: pending_queue_store Q qok
  for S :: "'s conv_store" and sok :: "'s \<Rightarrow> bool" and Q :: "'q pending_store" and qok :: "'q \<Rightarrow> bool"
begin

definition uses :: "('s, 'q, 'w, 'k) client_deps \<Rightarrow> bool" where
  "uses d = (dp_store d = S \<and> (dp_queue d = None \<or> dp_queue d = Some Q))"

definition pinned_queue :: "crypto \<Rightarrow> 'q \<Rightarrow> bool" where
  "pinned_queue C q = (qok q \<and> (\<forall>m\<in>set (ps_list Q q). pinned_message C m))"

definition pinned_store :: "crypto \<Rightarrow> 's \<Rightarrow> bool" where
  "pinned_store C s = (sok s \<and> (\<forall>x\<in>set (cv_listContacts S s). contact_bound C x))"

definition routing :: "crypto \<Rightarrow> 's \<Rightarrow> contact_registry \<Rightarrow> bool \<Rightarrow> bool" where
  "routing C s reg started = (sok s \<and> (\<forall>k x. cv_getContact S k s = Some x \<longrightarrow> contact_bound C x)
     \<and> (\<forall>k r. jget reg k = Some r \<longrightarrow> (\<exists>x. cv_getContact S k s = Some x \<and> r = record_of x))
     \<and> (started \<longrightarrow> (\<forall>k x. cv_getContact S k s = Some x \<longrightarrow> jget reg k = Some (record_of x))))"

definition worker_ok :: "crypto \<Rightarrow> 'q worker \<Rightarrow> bool" where
  "worker_ok C w = (\<exists>s0. queue.dw_content s0 w \<and> (\<forall>k a. ps_get Q k s0 = Some a \<longrightarrow> pinned_message C a)
     \<and> (\<forall>a\<in>set (dw_enqueued w). pinned_message C a))"

definition sending :: "crypto \<Rightarrow> (string \<times> app_frame) list \<Rightarrow> (nat \<times> client_call) list \<Rightarrow> out_transfer list \<Rightarrow> 'q worker option \<Rightarrow> bool" where
  "sending C sent calls transfers wk = ((\<forall>(k, f)\<in>set sent. frame_ok C k f) \<and> (\<forall>(p, call)\<in>set calls. call_ok C call)
     \<and> (\<forall>t\<in>set transfers. pinned C (ot_contactKey t) (ot_transportKey t)) \<and> (\<forall>w. wk = Some w \<longrightarrow> worker_ok C w))"

definition screening :: "crypto \<Rightarrow> string \<Rightarrow> string list \<Rightarrow> cman \<Rightarrow> (string, contact_request) jmap \<Rightarrow> bool" where
  "screening C own blocked cm cards = ((\<forall>k\<in>set blocked. jget (cm_connections cm) k = None \<and> jget cards k = None)
     \<and> (\<forall>k rq. jget cards k = Some rq \<longrightarrow> request_ok C own k rq))"

definition waiting :: "cman \<Rightarrow> (nat \<times> client_call) list \<Rightarrow> bool" where
  "waiting cm calls = (cm_ok cm \<and> (\<forall>(p, call)\<in>set calls. p < length (cm_promises cm)))"

definition client_ok :: "('s, 'q, 'w, 'k) client_deps \<Rightarrow> ('s, 'q, 'w, 'k) orpal \<Rightarrow> bool" where
  "client_ok d c = (uses d \<and> routing (dp_crypto d) (oc_store c) (oc_contacts c) (oc_started c)
     \<and> sending (dp_crypto d) (oc_sent c) (oc_calls c) (oc_transfers c) (oc_worker c)
     \<and> screening (dp_crypto d) (identityKey c) (oc_blockedKeys c) (oc_conns c) (oc_pendingCards c)
     \<and> waiting (oc_conns c) (oc_calls c) \<and> (oc_worker c \<noteq> None \<longrightarrow> dp_queue d = Some Q)
     \<and> (\<forall>mm. oc_migration c = Some mm \<longrightarrow> moves_ok (dp_crypto d) mm))"

text \<open>Updates that leave all of this alone: messages, events and what is announced.\<close>

definition talks :: "('s, 'q, 'w, 'k) orpal \<Rightarrow> ('s, 'q, 'w, 'k) orpal \<Rightarrow> bool" where
  "talks c c' = (oc_identity c' = oc_identity c \<and> oc_worker c' = oc_worker c \<and> oc_contacts c' = oc_contacts c
     \<and> oc_conns c' = oc_conns c \<and> oc_blockedKeys c' = oc_blockedKeys c \<and> oc_pendingCards c' = oc_pendingCards c
     \<and> oc_started c' = oc_started c \<and> oc_migration c' = oc_migration c \<and> oc_calls c' = oc_calls c
     \<and> oc_transfers c' = oc_transfers c \<and> oc_sent c' = oc_sent c
     \<and> (sok (oc_store c) \<longrightarrow> sok (oc_store c') \<and> (\<forall>k. cv_getContact S k (oc_store c') = cv_getContact S k (oc_store c))))"

lemma talks_ok: "talks c c' \<Longrightarrow> client_ok d c \<Longrightarrow> client_ok d c'"
  by (simp add: talks_def client_ok_def routing_def identityKey_def)

lemma talks_refl [simp]: "talks c c"
  by (simp add: talks_def)

lemma talks_trans: "talks a b \<Longrightarrow> talks b c \<Longrightarrow> talks a c"
  by (simp add: talks_def)

lemma talks_fold: "(\<And>x c. talks c (f x c)) \<Longrightarrow> talks c (fold f xs c)"
  by (induction xs arbitrary: c) (auto intro: talks_trans)

lemma talks_emit [simp]: "talks c (oc_emit ev c)"
  by (simp add: talks_def oc_emit_def)

lemma talks_store: "talks c (c\<lparr>oc_store := cv_appendMessage S m (oc_store c)\<rparr>)" "talks c (c\<lparr>oc_store := cv_updateMessage S i p (oc_store c)\<rparr>)"
  by (simp_all add: talks_def store.gets)

lemma talks_update [simp]: "talks c (notify_updated S i c)" "talks c (markMessage S i p c)" "talks c (markFile S i fp st c)"
  "talks c (append_message S m c)" "talks c (receive_progress S pr c)" "talks c (receive_complete S out c)"
proof -
  have n: "talks c (notify_updated S i c)" for i c by (simp add: notify_updated_def split: option.split)
  then show "talks c (notify_updated S i c)" .
  show "talks c (markMessage S i p c)" unfolding markMessage_def by (rule talks_trans [OF talks_store(2) n])
  show f: "talks c (markFile S i fp st c)" for i fp st c
    unfolding markFile_def by (auto split: option.split intro: talks_trans [OF talks_store(2) n])
  show "talks c (append_message S m c)" unfolding append_message_def by (rule talks_trans [OF talks_store(1) talks_emit])
  show "talks c (receive_progress S pr c)" by (simp add: receive_progress_def f)
  show "talks c (receive_complete S out c)" by (simp add: receive_complete_def f split: outcome.split)
qed

lemmas client_ok_defs = client_ok_def routing_def sending_def screening_def waiting_def

lemma ok_S: "client_ok d c \<Longrightarrow> dp_store d = S"
  by (simp add: client_ok_def uses_def)

text \<open>Contacts.\<close>

lemma ok_register: "client_ok d c \<Longrightarrow> contact_bound (dp_crypto d) x \<Longrightarrow> client_ok d (registerContact S x c)"
  by (auto simp: client_ok_defs registerContact_def cr_set_def store.gets identityKey_def)

lemma ok_registers:
  "client_ok d c \<Longrightarrow> (\<And>x. x \<in> set xs \<Longrightarrow> contact_bound (dp_crypto d) x) \<Longrightarrow> client_ok d (fold (registerContact S) xs c)"
  by (induction xs arbitrary: c) (auto intro: ok_register)

lemma card_contact_bound:
  assumes "parseContactCard C input = Inr cd"
  shows "contact_bound C (contactFromCard cd opts now)" "contact_bound C ((contactFromCard cd opts now)\<lparr>ct_isLoopback := True\<rparr>)"
  using parseContactCard_Inr [OF assms] by (simp_all add: contact_bound_def card_bound_def)

lemma ok_addContact: "client_ok d c \<Longrightarrow> client_ok d (snd (addContactFromCard d e input name relay c))"
proof -
  assume ok: "client_ok d c"
  then show ?thesis
    by (auto simp: addContactFromCard_def ok_S [OF ok] Let_def intro!: ok_register card_contact_bound split: sum.split)
qed

lemma ok_import: "client_ok d c \<Longrightarrow> client_ok d (snd (importContactsText d e input collision c))"
proof -
  assume ok: "client_ok d c"
  have "contact_bound C x" if "importContacts C opts sys bnd = (cs, sm)" "x \<in> set cs" for C opts sys bnd cs sm x
    using importContacts_inv [OF that(1)] that(2) by (auto simp: import_inv_def)
  with ok show ?thesis
    by (auto simp: importContactsText_def ok_S [OF ok] Let_def intro!: ok_registers split: sum.split prod.split)
qed

lemma ok_loopback: "client_ok d c \<Longrightarrow> client_ok d (snd (ensureLoopbackContact d e name c))"
proof -
  assume ok: "client_ok d c"
  have "contact_bound C x" if "makeLoopbackContact C pub nm now sys = Inr x" for C pub nm now sys x
    using that card_contact_bound(2) by (auto simp: makeLoopbackContact_def split: sum.splits)
  then show ?thesis using ok
    by (auto simp: ensureLoopbackContact_def ok_S [OF ok] intro!: ok_register split: sum.split option.split)
qed

lemma ok_selfTest: "client_ok d c \<Longrightarrow> client_ok d (snd (runLoopbackSelfTest d e rnd c))"
  using ok_loopback [of d c e None] by (auto simp: runLoopbackSelfTest_def Let_def split: sum.split prod.split)

lemma ok_remove: "client_ok d c \<Longrightarrow> client_ok d (removeContact S key c)"
  by (auto simp: client_ok_defs removeContact_def cr_remove_def store.gets identityKey_def)

text \<open>A setter keeps the keys and patches the record to match.\<close>

definition relabels :: "(contact \<Rightarrow> contact) \<Rightarrow> record_patch \<Rightarrow> bool" where
  "relabels f patch = (\<forall>x. ct_identityKey (f x) = ct_identityKey x \<and> ct_transportKey (f x) = ct_transportKey x
     \<and> ct_binding (f x) = ct_binding x
     \<and> (\<forall>key reg. jget reg key = Some (record_of x) \<longrightarrow> jget (cr_patch key patch reg) key = Some (record_of (f x))))"

lemma patch_other: "k \<noteq> key \<Longrightarrow> jget (cr_patch key patch reg) k = jget reg k"
  "jget reg key = None \<Longrightarrow> cr_patch key patch reg = reg"
  by (simp_all add: cr_patch_def split: option.split)

lemma ok_change:
  assumes ok: "client_ok d c" and f: "relabels f patch"
  shows "client_ok d (change_contact S key f patch c)"
proof (cases "cv_getContact S key (oc_store c)")
  case (Some x)
  let ?C = "dp_crypto d" let ?s = "cv_upsertContact S (f x) (oc_store c)" let ?r = "cr_patch key patch (oc_contacts c)"
  have R: "routing ?C (oc_store c) (oc_contacts c) (oc_started c)" using ok by (simp add: client_ok_def)
  then have s: "sok (oc_store c)" by (simp add: routing_def)
  have key: "ct_identityKey (f x) = key" using store.getContact_key [OF s Some] f by (simp add: relabels_def)
  have b: "contact_bound ?C (f x)" using R Some f by (simp add: routing_def relabels_def contact_bound_def)
  have g: "cv_getContact S k ?s = (if k = key then Some (f x) else cv_getContact S k (oc_store c))" for k
    using s key by (simp add: store.gets)
  have r: "jget ?r k = (if k = key then map_option (\<lambda>_. record_of (f x)) (jget (oc_contacts c) key) else jget (oc_contacts c) k)" for k
  proof (cases "jget (oc_contacts c) key")
    case None
    then show ?thesis by (auto simp: patch_other)
  next
    case (Some y)
    then have "y = record_of x" using R \<open>cv_getContact S key (oc_store c) = Some x\<close> by (fastforce simp: routing_def)
    then show ?thesis using Some f patch_other(1) by (auto simp: relabels_def)
  qed
  have "routing ?C ?s ?r (oc_started c)" using R b s Some by (auto simp: routing_def g r store.gets)
  then show ?thesis using ok Some by (simp add: client_ok_def change_contact_def identityKey_def)
qed (use ok in \<open>simp add: change_contact_def\<close>)

lemma ok_setters:
  assumes "client_ok d c"
  shows "client_ok d (setContactBoards S key pref fb c)" "client_ok d (setContactRelayOnly S key relay c)"
    "client_ok d (setContactDisplayName S key nm c)" "client_ok d (setAutoAcceptMigration S key auto1 c)"
  using assms
  by (auto simp: setContactBoards_def setContactRelayOnly_def setContactDisplayName_def setAutoAcceptMigration_def Let_def
      intro!: ok_change simp: relabels_def record_of_def cr_patch_def no_record_patch_def)

text \<open>Blocking and requests.\<close>

lemma ok_block: "client_ok d c \<Longrightarrow> client_ok d (setBlockedKeys keys c)"
proof -
  assume ok: "client_ok d c"
  let ?b = "\<lambda>c ks. fold block_one ks c"
  have keeps: "oc_store (?b c ks) = oc_store c \<and> oc_contacts (?b c ks) = oc_contacts c \<and> oc_started (?b c ks) = oc_started c
      \<and> oc_sent (?b c ks) = oc_sent c \<and> oc_calls (?b c ks) = oc_calls c \<and> oc_transfers (?b c ks) = oc_transfers c
      \<and> oc_worker (?b c ks) = oc_worker c \<and> oc_migration (?b c ks) = oc_migration c \<and> oc_identity (?b c ks) = oc_identity c
      \<and> oc_blockedKeys (?b c ks) = oc_blockedKeys c \<and> cm_promises (oc_conns (?b c ks)) = cm_promises (oc_conns c)
      \<and> cm_ok (oc_conns (?b c ks)) = cm_ok (oc_conns c)" for c :: "('s, 'q, 'w, 'k) orpal" and ks
    by (induction ks arbitrary: c) (simp_all add: block_one_def)
  have conns: "jget (cm_connections (oc_conns (?b c ks))) k = (if k \<in> set ks then None else jget (cm_connections (oc_conns c)) k)
      \<and> jget (oc_pendingCards (?b c ks)) k = (if k \<in> set ks then None else jget (oc_pendingCards c) k)"
    for c :: "('s, 'q, 'w, 'k) orpal" and k ks
    by (induction ks arbitrary: c) (simp_all add: block_one_def)
  show ?thesis using ok by (auto simp: setBlockedKeys_def client_ok_defs keeps conns identityKey_def split: if_splits)
qed

lemma ok_dismiss: "client_ok d c \<Longrightarrow> client_ok d (dismissContactRequest key c)"
  by (auto simp: client_ok_defs dismissContactRequest_def identityKey_def)

lemma ok_acceptRequest: "client_ok d c \<Longrightarrow> client_ok d (snd (acceptContactRequest d e key nm c))"
  using ok_addContact [of d c e _ nm None]
  by (auto simp: acceptContactRequest_def split: option.split sum.split prod.split intro!: ok_dismiss) (metis snd_conv)+

text \<open>Sending.\<close>

lemma sealed_ok: "sealAppFrame C eph inner tk = Some f \<Longrightarrow> pinned C key tk \<Longrightarrow> frame_ok C key f"
proof -
  assume a: "sealAppFrame C eph inner tk = Some f" "pinned C key tk"
  then obtain box where "f = SealedFrame SEAL_ALG box" by (auto simp: sealAppFrame_def split: option.splits)
  with a show ?thesis by (auto simp: frame_ok_def)
qed

lemma ok_send: "client_ok d c \<Longrightarrow> frame_ok (dp_crypto d) key f \<Longrightarrow> client_ok d (send_on key f c)"
  by (auto simp: client_ok_defs send_on_def identityKey_def)

lemma ok_send_if: "client_ok d c \<Longrightarrow> frame_ok (dp_crypto d) key f \<Longrightarrow> client_ok d (send_if_connected key f c)"
  by (auto simp: send_if_connected_def intro: ok_send split: option.split)

lemma frame_ok_plain [simp]:
  "frame_ok C key (AwkFrame i ts)" "frame_ok C key (FileChunkFrame i n x)" "frame_ok C key (FileDoneFrame i)" "frame_ok C key (HelloFrame x)"
  "frame_ok C key (KeyMigrationFrame m)" "frame_ok C key (MigrationAckFrame m)" "frame_ok C key (MigrationChallengeFrame t x y)"
  "frame_ok C key (MigrationChallengeResponseFrame t x)"
  by (simp_all add: frame_ok_def)

lemma ok_acks [simp]: "client_ok d (c\<lparr>oc_acks := x\<rparr>) = client_ok d c" "client_ok d (await_ack a c) = client_ok d c"
  by (simp_all add: client_ok_defs await_ack_def identityKey_def)

lemma ok_mark: "client_ok d c \<Longrightarrow> client_ok d (markMessage S i p c)" "client_ok d c \<Longrightarrow> client_ok d (markFile S i fp st c)"
  "client_ok d c \<Longrightarrow> client_ok d (append_message S m c)" "client_ok d c \<Longrightarrow> client_ok d (oc_emit ev c)"
  by (rule talks_ok [rotated], assumption, simp)+

lemma ok_pinned_key: "client_ok d c \<Longrightarrow> pinned_key c key = Some tk \<Longrightarrow> pinned (dp_crypto d) key tk"
proof -
  assume ok: "client_ok d c" and "pinned_key c key = Some tk"
  then obtain r where "jget (oc_contacts c) key = Some r" "tk = cr_transportKey r"
    by (auto simp: pinned_key_def transportKeyOf_def split: option.splits if_splits)
  moreover with ok obtain x where "cv_getContact S key (oc_store c) = Some x" "r = record_of x"
    unfolding client_ok_def routing_def by blast
  moreover have "ct_identityKey x = key" "contact_bound (dp_crypto d) x"
    using ok \<open>cv_getContact S key (oc_store c) = Some x\<close> store.getContact_key by (auto simp: client_ok_defs)
  ultimately show ?thesis using bound_pinned [of "dp_crypto d" x] by (simp add: record_of_def)
qed

lemma talks_intents: "talks c (send_intents key c)"
  by (auto simp: send_intents_def Let_def talks_def oc_emit_def)

lemma ok_ensure:
  assumes "client_ok d c" "oc_ensure key c = (r, c1)"
  shows "client_ok d c1" "r = Inr p \<Longrightarrow> p < length (cm_promises (oc_conns c1))"
proof -
  obtain cm where e: "ensureConnection key id (oc_conns c) = (r, cm)" using assms(2)
    by (auto simp: oc_ensure_def Let_def split: prod.splits)
  have "cm_ok (oc_conns c)" using assms(1) by (simp add: client_ok_defs)
  note k = ensureConnection_keeps [OF this e]
  have ok: "client_ok d (c\<lparr>oc_conns := cm\<rparr>)" using assms(1) k(1-3) by (fastforce simp: client_ok_defs identityKey_def)
  have t: "talks (c\<lparr>oc_conns := cm\<rparr>) c1" using assms(2) talks_intents by (auto simp: oc_ensure_def e Let_def split: if_splits)
  show "client_ok d c1" by (rule talks_ok [OF t ok])
  show "r = Inr p \<Longrightarrow> p < length (cm_promises (oc_conns c1))" using k(4) t by (simp add: talks_def)
qed

lemma ok_transfer: "client_ok d c \<Longrightarrow> pinned (dp_crypto d) (ot_contactKey t) (ot_transportKey t) \<Longrightarrow>
    client_ok d (c\<lparr>oc_transfers := oc_transfers c @ [t]\<rparr>)"
  by (auto simp: client_ok_defs identityKey_def)

lemma ok_go:
  assumes ok: "client_ok d c" and call: "call_ok (dp_crypto d) call"
  shows "client_ok d (call_go d e live call c)"
proof (cases call)
  case (CallAttempt m)
  then show ?thesis using ok call sealed_ok
    by (auto simp: call_go_def call_ok_def ok_S [OF ok] seal_text_def Let_def pinned_message_def intro!: ok_mark ok_send
        split: option.split pending_payload.split)
next
  case (CallFile i key tk src)
  then show ?thesis using ok call by (auto simp: call_go_def call_ok_def ok_S [OF ok] intro!: ok_mark ok_transfer)
qed (use ok call sealed_ok in \<open>auto simp: call_go_def call_ok_def ok_S [OF ok] seal_text_def intro!: ok_mark ok_send split: option.split\<close>)

lemma ok_start_call:
  assumes ok: "client_ok d c" and call: "call_ok (dp_crypto d) call"
  shows "client_ok d (start_call d e key call c)"
proof -
  obtain r c1 where e: "oc_ensure key c = (r, c1)" by fastforce
  note k = ok_ensure [OF ok e]
  show ?thesis
  proof (cases r)
    case (Inl cn)
    then show ?thesis using ok_go [OF k(1) call] by (simp add: start_call_def e)
  next
    case (Inr p)
    then show ?thesis using k(1) k(2) [OF Inr] call by (auto simp: start_call_def e client_ok_defs identityKey_def)
  qed
qed

lemma drop_at_subset: "set (drop_at n xs) \<subseteq> set xs"
  by (auto simp: drop_at_def dest: in_set_takeD in_set_dropD)

lemma ok_resume: "client_ok d c \<Longrightarrow> client_ok d (resume_call d e n c)"
proof (cases "n < length (oc_calls c)")
  case True
  assume ok: "client_ok d c"
  obtain p call where pc: "oc_calls c ! n = (p, call)" by fastforce
  then have "(p, call) \<in> set (oc_calls c)" using True nth_mem by metis
  then have "call_ok (dp_crypto d) call" using ok by (auto simp: client_ok_defs)
  moreover have "client_ok d (c\<lparr>oc_calls := drop_at n (oc_calls c)\<rparr>)"
    using ok drop_at_subset [of n "oc_calls c"] by (auto simp: client_ok_defs identityKey_def)
  ultimately show ?thesis using ok ok_go True pc by (auto simp: resume_call_def Let_def split: Connections.outcome.split)
qed (simp add: resume_call_def)

lemma ok_settled: "client_ok d c \<Longrightarrow> client_ok d (channel_settled S n acked c)"
  by (auto simp: channel_settled_def Let_def intro!: ok_mark split: sent_call.split)

text \<open>The worker.\<close>

lemma dw_enqueued_step: "dw_enqueued (dw_step ops b w ev) = dw_enqueued w @ (case ev of EvEnqueue m \<Rightarrow> [m] | _ \<Rightarrow> [])"
proof -
  have f: "dw_enqueued (fold runAttempt is w) = dw_enqueued w" for "is" and w :: "'a worker"
    by (induction "is" arbitrary: w) (simp_all add: runAttempt_def)
  show ?thesis
  proof (cases ev)
    case (EvGo n e)
    show ?thesis
    proof (cases "n < length (dw_threads w)")
      case True
      then show ?thesis using EvGo
        by (cases "dw_threads w ! n") (auto simp: dw_step_def thread_go_def Let_def f spawn_def runAttempt_def cancelTimer_def
            emitMetrics_def split: option.split)
    qed (simp add: EvGo dw_step_def)
  qed (simp_all add: dw_step_def dw_start_def dw_stop_def dw_enqueue_def dw_flush_def dw_acknowledge_def dw_fire_def spawn_def
      runAttempt_def cancelTimer_def)
qed

lemma worker_ok_step:
  assumes "worker_ok C w" "\<And>m. ev = EvEnqueue m \<Longrightarrow> pinned_message C m"
  shows "worker_ok C (dw_step Q b w ev)"
proof -
  obtain s0 where "queue.dw_content s0 w" "\<forall>k a. ps_get Q k s0 = Some a \<longrightarrow> pinned_message C a" "\<forall>a\<in>set (dw_enqueued w). pinned_message C a"
    using assms(1) unfolding worker_ok_def by blast
  moreover have "\<forall>a\<in>set (dw_enqueued (dw_step Q b w ev)). pinned_message C a"
    using calculation(3) assms(2) by (auto simp: dw_enqueued_step split: wevent.splits)
  ultimately show ?thesis using queue.dw_content_step unfolding worker_ok_def by blast
qed

lemma worker_ok_ops:
  assumes "worker_ok C w"
  shows "worker_ok C (dw_flush r w)" "worker_ok C (dw_acknowledge i w)" "pinned_message C m \<Longrightarrow> worker_ok C (dw_enqueue Q m w)"
    "worker_ok C (dw_start w)"
  using worker_ok_step [OF assms, of "EvFlush r"] worker_ok_step [OF assms, of "EvAcknowledge i"]
    worker_ok_step [OF assms, of "EvEnqueue m"] worker_ok_step [OF assms, of EvStart]
  by (simp_all add: dw_step_def)

lemma worker_sends: "worker_ok C w \<Longrightarrow> m \<in> set (dw_sends w) \<Longrightarrow> pinned_message C m"
  using pinned_same unfolding worker_ok_def queue.dw_content_def Let_def by blast

lemma worker_ok_new: "pinned_queue C q \<Longrightarrow> worker_ok C (DeliveryWorker q)"
proof -
  assume a: "pinned_queue C q"
  then have q: "qok q" by (simp add: pinned_queue_def)
  have "pinned_message C m" if "ps_get Q k q = Some m" for k m
    using a that queue.list_get [OF q, of m] queue.get_id [OF q that] by (auto simp: pinned_queue_def)
  moreover have "dw_enqueued (DeliveryWorker q) = []" by (simp add: DeliveryWorker_def)
  ultimately show ?thesis using queue.dw_content_init [OF q] by (auto simp: worker_ok_def)
qed

lemma ok_worker: "client_ok d c \<Longrightarrow> (\<And>w. x = Some w \<Longrightarrow> dp_queue d = Some Q \<and> worker_ok (dp_crypto d) w) \<Longrightarrow>
    client_ok d (c\<lparr>oc_worker := x\<rparr>)"
  by (auto simp: client_ok_defs identityKey_def)

lemma ok_worker_map:
  assumes "client_ok d c" "\<And>w. worker_ok (dp_crypto d) w \<Longrightarrow> worker_ok (dp_crypto d) (f w)"
  shows "client_ok d (c\<lparr>oc_worker := map_option f (oc_worker c)\<rparr>)"
  by (rule ok_worker [OF assms(1)]) (use assms in \<open>auto simp: client_ok_defs\<close>)

lemma ok_worker_step: "client_ok d c \<Longrightarrow> (\<And>m. ev \<noteq> EvEnqueue m) \<Longrightarrow> client_ok d (worker_step d e ev c)"
proof -
  assume ok: "client_ok d c" and ev: "\<And>m. ev \<noteq> EvEnqueue m"
  show ?thesis
  proof (cases "oc_worker c = None \<or> dp_queue d = None")
    case False
    then obtain w where w: "oc_worker c = Some w" "dp_queue d = Some Q" using ok by (auto simp: client_ok_def uses_def)
    let ?w = "dw_step Q (dp_backoff d) w ev"
    have w1: "worker_ok (dp_crypto d) ?w" using ok w ev by (auto simp: client_ok_defs intro: worker_ok_step)
    have att: "client_ok d (fold (attemptDelivery d e) ms c)" if "client_ok d c" "\<forall>m\<in>set ms. pinned_message (dp_crypto d) m" for ms c
      using that
    proof (induction ms arbitrary: c)
      case (Cons m ms)
      have "client_ok d (attemptDelivery d e m c)"
        unfolding attemptDelivery_def by (rule ok_start_call) (use Cons.prems in \<open>simp_all add: call_ok_def\<close>)
      then show ?case using Cons by simp
    qed simp
    have "client_ok d (fold (attemptDelivery d e) (drop (length (dw_sends w)) (dw_sends ?w)) (c\<lparr>oc_worker := Some ?w\<rparr>))"
      by (intro att ok_worker ok) (use w(2) w1 worker_sends in \<open>auto dest: in_set_dropD\<close>)
    then show ?thesis using ok_mark(1) by (auto simp: worker_step_def w ok_S [OF ok] Let_def split: option.split)
  qed (use ok in \<open>auto simp: worker_step_def split: option.split\<close>)
qed

lemma ok_sendText: "client_ok d c \<Longrightarrow> client_ok d (snd (sendText d e key tx c))"
proof -
  assume ok: "client_ok d c"
  let ?c1 = "append_message S \<lparr>sm_id = en_id e, sm_contactKey = key, sm_direction = DOut, sm_kind = KText, sm_ts = en_ms e,
            sm_text = Some tx, sm_file = None, sm_state = (if oc_worker c = None then OSending else OQueued)\<rparr> c"
  have c1: "client_ok d ?c1" by (rule ok_mark(3) [OF ok])
  show ?thesis
  proof (cases "pinned_key c key")
    case None
    then show ?thesis by (simp add: sendText_def Let_def ok_S [OF ok] ok_mark c1)
  next
    case (Some tk)
    have p: "pinned (dp_crypto d) key tk" by (rule ok_pinned_key [OF ok Some])
    show ?thesis
    proof (cases "oc_worker ?c1")
      case None
      with Some p c1 show ?thesis by (simp add: sendText_def Let_def ok_S [OF ok] ok_start_call call_ok_def)
    next
      case w: (Some w)
      then have "worker_ok (dp_crypto d) w" "dp_queue d = Some Q" using c1 by (simp_all add: client_ok_defs)
      then show ?thesis using Some p c1 w
        by (auto simp: sendText_def Let_def ok_S [OF ok] pinned_message_def intro!: ok_worker worker_ok_ops(3) split del: if_split)
    qed
  qed
qed

lemma ok_retry: "client_ok d c \<Longrightarrow> client_ok d (retryText d e i key c)"
proof -
  assume ok: "client_ok d c"
  have "client_ok d (start_call d e key (CallRetry i key tk tx ts) (markMessage S i p c))" if "pinned_key c key = Some tk" for tk tx ts p
    using ok_pinned_key [OF ok that] by (intro ok_start_call ok_mark ok) (simp add: call_ok_def)
  then show ?thesis using ok by (auto simp: retryText_def ok_S [OF ok] intro!: ok_mark split: option.split)
qed

lemma ok_connect: "client_ok d c \<Longrightarrow> client_ok d (connect d e key c)"
  by (simp add: connect_def ok_start_call call_ok_def)

text \<open>Files.\<close>

lemma ok_sendFile: "client_ok d c \<Longrightarrow> client_ok d (snd (sendFileTo d e key src c))"
proof -
  assume ok: "client_ok d c"
  have "client_ok d (start_call d e key (CallFile i key tk src) (append_message S m c))" if "pinned_key c key = Some tk" for i tk m
    using ok_pinned_key [OF ok that] by (intro ok_start_call ok_mark ok) (simp add: call_ok_def)
  then show ?thesis using ok by (auto simp: sendFileTo_def Let_def ok_S [OF ok] intro!: ok_mark split: option.split)
qed

lemma seal_outbound_ok:
  assumes "transfer_sends d t frame" "maybeSealOutbound C eph tk frame = Some f" "pinned C key tk"
  shows "frame_ok C key f"
  using assms sealed_ok by (auto simp: transfer_sends_def maybeSealOutbound_def chunk_frame_def Let_def)

lemma ok_transfer_frame: "client_ok d c \<Longrightarrow> transfer_sends d (oc_transfers c ! n) frame \<Longrightarrow> client_ok d (transfer_frame d e n frame c)"
proof (cases "n < length (oc_transfers c)")
  case True
  assume ok: "client_ok d c" and f: "transfer_sends d (oc_transfers c ! n) frame"
  have "pinned (dp_crypto d) (ot_contactKey (oc_transfers c ! n)) (ot_transportKey (oc_transfers c ! n))"
    using ok True by (simp add: client_ok_defs)
  then show ?thesis using ok seal_outbound_ok [OF f] by (auto simp: transfer_frame_def Let_def intro!: ok_send split: option.split)
qed (simp add: transfer_frame_def)

lemma ok_transfer_progress: "client_ok d c \<Longrightarrow> client_ok d (transfer_progress S n p c)"
  by (simp add: transfer_progress_def Let_def ok_mark)

lemma ok_transfer_settled: "client_ok d c \<Longrightarrow> client_ok d (transfer_settled S n h c)"
proof -
  assume ok: "client_ok d c"
  have "client_ok d (c\<lparr>oc_transfers := drop_at n (oc_transfers c)\<rparr>)"
    using ok drop_at_subset [of n "oc_transfers c"] by (auto simp: client_ok_defs identityKey_def)
  then show ?thesis using ok by (auto simp: transfer_settled_def Let_def intro!: ok_mark split: option.split)
qed

lemma ok_fold: "client_ok d c \<Longrightarrow> (\<And>x c. client_ok d c \<Longrightarrow> client_ok d (f x c)) \<Longrightarrow> client_ok d (fold f xs c)"
  by (induction xs arbitrary: c) simp_all

lemma ok_fields [simp]:
  "client_ok d (c\<lparr>oc_receivers := x1\<rparr>) = client_ok d c" "client_ok d (c\<lparr>oc_pushToken := x2\<rparr>) = client_ok d c"
  "client_ok d (c\<lparr>oc_boards := x3\<rparr>) = client_ok d c" "client_ok d (c\<lparr>oc_brokerState := x4\<rparr>) = client_ok d c"
  "client_ok d (c\<lparr>oc_announced := x5\<rparr>) = client_ok d c" "client_ok d (c\<lparr>oc_intents := x6\<rparr>) = client_ok d c"
  "client_ok d (c\<lparr>oc_endpoints := x7\<rparr>) = client_ok d c"
  by (simp_all add: client_ok_defs identityKey_def)

lemma ok_receive: "client_ok d c \<Longrightarrow> client_ok d (receive_progress S pr c)" "client_ok d c \<Longrightarrow> client_ok d (receive_complete S out c)"
  by (rule talks_ok [rotated], assumption, simp)+

lemma ok_receiver: "client_ok d c \<Longrightarrow> client_ok d (receiver_step d mkey ev path c)"
proof -
  assume ok: "client_ok d c"
  have path: "client_ok d (case x of None \<Rightarrow> c1 | Some (i, p) \<Rightarrow> markFile S i (f p) None c1)" if "client_ok d c1" for x f c1
    using that by (auto intro: ok_mark split: option.split)
  show ?thesis unfolding receiver_step_def ok_S [OF ok] Let_def
    by (auto split: option.split intro!: ok_fold ok_receive ok_mark path simp: ok)
qed

lemma ok_receive_offer: "client_ok d c \<Longrightarrow> client_ok d (receive_offer S mkey offer c)"
  unfolding receive_offer_def Let_def by (auto split: option.split intro!: ok_fold ok_receive ok_mark)

text \<open>Boards and connections.\<close>

lemma ok_announce: "client_ok d c \<Longrightarrow> client_ok d (announceAll e c)" "client_ok d c \<Longrightarrow> client_ok d (announcePresenceOn e b c)"
  by (auto simp: announceAll_def announcePresenceOn_def intro!: ok_fold ok_mark)

lemma ok_boards:
  assumes "client_ok d c"
  shows "client_ok d (setPushToken e token c)" "client_ok d (reannounce e c)" "client_ok d (set_board_state board st c)"
    "client_ok d (onBrokerClose board c)" "client_ok d (onBrokerError board c)"
  using assms by (auto simp: setPushToken_def reannounce_def set_board_state_def onBrokerClose_def onBrokerError_def
      recomputeBrokerState_def Let_def intro!: ok_announce ok_mark split: option.split)

lemma ok_flush: "client_ok d c \<Longrightarrow> client_ok d (c\<lparr>oc_worker := map_option (dw_flush r) (oc_worker c)\<rparr>)"
  "client_ok d c \<Longrightarrow> client_ok d (c\<lparr>oc_intents := x, oc_worker := map_option (dw_flush r) (oc_worker c)\<rparr>)"
  using ok_worker_map [of d c "dw_flush r"] ok_worker_map [of d "c\<lparr>oc_intents := x\<rparr>" "dw_flush r"] worker_ok_ops(1) by auto

lemma ok_brokerOpen: "client_ok d c \<Longrightarrow> client_ok d (onBrokerOpen e board c)"
proof -
  assume ok: "client_ok d c"
  define c1 where "c1 = recomputeBrokerState (set_board_state board BOpen c)"
  have "client_ok d c1" unfolding c1_def recomputeBrokerState_def Let_def using ok by (auto intro!: ok_mark ok_boards)
  then show ?thesis
    by (auto simp: onBrokerOpen_def Let_def c1_def [symmetric] intro!: ok_flush ok_announce split: option.split)
qed

lemma ok_conns:
  assumes "client_ok d c" "cm_ok cm" "length (cm_promises cm) = length (cm_promises (oc_conns c))"
    and "\<And>k. jget (cm_connections (oc_conns c)) k = None \<Longrightarrow> jget (cm_connections cm) k = None"
  shows "client_ok d (c\<lparr>oc_conns := cm\<rparr>)"
  using assms by (auto simp: client_ok_defs identityKey_def)

lemma ok_conn_steps:
  assumes ok: "client_ok d c"
  shows "client_ok d (c\<lparr>oc_conns := handleEndpointState mkey st (oc_conns c)\<rparr>)" "client_ok d (c\<lparr>oc_conns := fireConnectTimer p (oc_conns c)\<rparr>)"
    "client_ok d (observeOutbound board1 msg c)" "client_ok d (buildEndpoint d board1 mid ep c)"
proof -
  have cm: "cm_ok (oc_conns c)" using ok by (simp add: client_ok_defs)
  show "client_ok d (c\<lparr>oc_conns := handleEndpointState mkey st (oc_conns c)\<rparr>)" "client_ok d (c\<lparr>oc_conns := fireConnectTimer p (oc_conns c)\<rparr>)"
    by (rule ok_conns [OF ok]; simp add: cm cm_ok_fireConnectTimer)+
  show "client_ok d (observeOutbound board1 msg c)"
    using ok by (auto simp: observeOutbound_def cm intro!: ok_conns split: outbound.split)
  have "client_ok d ((c\<lparr>oc_endpoints := x\<rparr>)\<lparr>oc_conns := storeEndpoint k ep (oc_conns c)\<rparr>)" for x k
    by (rule ok_conns) (simp_all add: ok cm)
  then show "client_ok d (buildEndpoint d board1 mid ep c)" by (simp add: buildEndpoint_def Let_def)
qed

lemma ok_connected: "client_ok d c \<Longrightarrow> client_ok d (handleConnected d board1 mid key c)"
proof -
  assume ok: "client_ok d c"
  have cm: "cm_ok (oc_conns c)" using ok by (simp add: client_ok_defs)
  let ?cm = "\<lambda>cm cn. resolveConnectWaiters key cn (emitState key CConnected (setConnection key cn cm))"
  have r: "client_ok d (c\<lparr>oc_receivers := x, oc_conns := ?cm cm1 cn\<rparr>)"
    if "\<not> isBlocked c key" "cm_ok cm1" "cm_connections cm1 = cm_connections (oc_conns c)" "cm_promises cm1 = cm_promises (oc_conns c)" for x cm1 cn
  proof -
    have "screening (dp_crypto d) (identityKey c) (oc_blockedKeys c) (?cm cm1 cn) (oc_pendingCards c)"
      using ok that(1,3) by (auto simp: client_ok_def screening_def isBlocked_def)
    moreover have "waiting (?cm cm1 cn) (oc_calls c)"
      using ok that(2,4) by (simp add: client_ok_def waiting_def cm_ok_resolve)
    ultimately show ?thesis using ok by (simp add: client_ok_def identityKey_def)
  qed
  have "client_ok d (c\<lparr>oc_conns := close_endpoint ep (oc_conns c)\<rparr>)" for ep by (rule ok_conns [OF ok]) (simp_all add: cm)
  moreover have "client_ok d ((send_on key f c1)\<lparr>oc_worker := map_option (dw_flush r) (oc_worker (send_on key f c1))\<rparr>)"
    if "client_ok d c1" "frame_ok (dp_crypto d) key f" for f r c1
    by (intro ok_flush ok_send that)
  ultimately show ?thesis unfolding handleConnected_def Let_def
    by (cases "isBlocked c key") (simp_all add: r cm)
qed

text \<open>Lifecycle.\<close>

lemma ok_close: "client_ok d c \<Longrightarrow> client_ok d (client_close c)"
  by (auto simp: client_ok_defs client_close_def identityKey_def)

lemma find_some: "find P xs = Some x \<Longrightarrow> x \<in> set xs \<and> P x"
  by (induction xs) (auto split: if_splits)

lemma find_listed:
  assumes s: "sok s"
  shows "find (\<lambda>x. ct_identityKey x = k) (rev (cv_listContacts S s)) = cv_getContact S k s"
proof (cases "find (\<lambda>x. ct_identityKey x = k) (rev (cv_listContacts S s))")
  case None
  have "cv_getContact S k s = None"
  proof (rule ccontr)
    assume "cv_getContact S k s \<noteq> None"
    then obtain x where x: "cv_getContact S k s = Some x" by blast
    then have key: "ct_identityKey x = k" by (rule store.getContact_key [OF s])
    then have "x \<in> set (cv_listContacts S s)" using store.listContacts_get [OF s, of x] x by simp
    with None key show False by (auto simp: find_None_iff)
  qed
  with None show ?thesis by simp
next
  case (Some x)
  then have "x \<in> set (cv_listContacts S s)" "ct_identityKey x = k" using find_some [OF Some] by auto
  then have "cv_getContact S k s = Some x" using store.listContacts_get [OF s, of x] by simp
  with Some show ?thesis by simp
qed

lemma routing_loadAll:
  assumes "routing C s reg b"
  shows "routing C s (cr_loadAll (cv_listContacts S s) reg) True"
proof -
  have s: "sok s" using assms by (simp add: routing_def)
  have g: "jget (cr_loadAll (cv_listContacts S s) reg) k = (case cv_getContact S k s of Some x \<Rightarrow> Some (record_of x) | None \<Rightarrow> jget reg k)" for k
    unfolding loadAll_get find_listed [OF s] ..
  have "\<exists>x. cv_getContact S k s = Some x \<and> r = record_of x" if "jget (cr_loadAll (cv_listContacts S s) reg) k = Some r" for k r
  proof (cases "cv_getContact S k s")
    case None
    then show ?thesis using that assms by (simp add: g routing_def) (metis option.distinct(1))
  qed (use that in \<open>simp add: g\<close>)
  then show ?thesis using assms by (auto simp: routing_def g)
qed

text \<open>Migration.\<close>

lemma moves_cong: "mm_pendingIncoming mm1 = mm_pendingIncoming mm \<Longrightarrow> moves_ok C mm1 = moves_ok C mm"
  by (simp add: moves_ok_def)

lemma moves_same:
  "mm_pendingIncoming (fst (snd (mm_init C pending mstore mm w))) = mm_pendingIncoming mm"
  "mm_pendingIncoming (fst (snd (startMigration C pending mstore cur cs ret rs rt nonce now mm w))) = mm_pendingIncoming mm"
  "mm_pendingIncoming (fst (snd (markNotified mstore mm w))) = mm_pendingIncoming mm"
  "mm_pendingIncoming (fst (snd (retire main pending mstore mm w))) = mm_pendingIncoming mm"
  "mm_pendingIncoming (fst (snd (handleMigrationAck C mstore ack key mm w))) = mm_pendingIncoming mm"
  "mm_pendingIncoming (snd (createChallenges C ch key tk mm)) = mm_pendingIncoming mm"
  "mm_pendingIncoming (snd (verifyChallengeResponse C key tgt echo mm)) = mm_pendingIncoming mm"
  by (simp_all add: mm_init_def startMigration_def markNotified_def retire_def handleMigrationAck_def createChallenges_def
      verifyChallengeResponse_def Let_def split: option.split sum.split prod.split)

lemma remove_first_subset: "set (remove_first P xs) \<subseteq> set xs"
  by (induction xs) auto

lemma moves_ops:
  assumes "moves_ok C mm"
  shows "moves_ok C (declineIncomingMigration key mm)" "moves_ok C (snd (acceptIncomingMigration C key mm))"
    "wf_json m \<Longrightarrow> moves_ok C (snd (handleIncomingMigration C m key nm mm))"
  using assms remove_first_subset [of "\<lambda>p. pn_contactKey p = key" "mm_pendingIncoming mm"]
  by (auto simp: moves_ok_def declineIncomingMigration_def acceptIncomingMigration_def handleIncomingMigration_def Let_def
      split: option.split sum.split)

lemma accepted_bound:
  assumes m: "moves_ok C mm" and a: "acceptIncomingMigration C key mm = (Some (m1, nk, tk, b), mm1)"
  shows "verifyBinding C b" "wf_json b" "jprop b ''identity_key'' = Some (JStr nk)" "jprop b ''transport_key'' = Some (JStr tk)"
proof -
  obtain p where f: "find (\<lambda>p. pn_contactKey p = key) (mm_pendingIncoming mm) = Some p"
    and p: "m1 = pn_migration p" "nk = jstr (jprop m1 ''new_key'')" "b = the (jprop m1 ''new_binding'')" "tk = jstr (jprop b ''transport_key'')"
    using a by (auto simp: acceptIncomingMigration_def Let_def split: option.splits)
  have v: "verifyKeyMigration C m1 = Inr ()" "wf_json m1" using m p(1) find_some [OF f] by (auto simp: moves_ok_def)
  obtain n b1 where n: "jprop m1 ''new_key'' = Some (JStr n)" "jprop m1 ''new_binding'' = Some b1" "matches KEY_BINDING_SCHEMA b1"
    "verifyBinding C b1" "jprop b1 ''identity_key'' = Some (JStr n)"
    using verifyKeyMigration_Inr [OF v(1)] by blast
  obtain t where "jprop b1 ''transport_key'' = Some (JStr t)" using binding_schema_strings [OF n(3)] by blast
  then show "verifyBinding C b" "wf_json b" "jprop b ''identity_key'' = Some (JStr nk)" "jprop b ''transport_key'' = Some (JStr tk)"
    using n p(2-4) wf_jprop [OF v(2) n(2)] by simp_all
qed

lemma ok_migration:
  assumes "client_ok d c" "\<And>mm. x = Some mm \<Longrightarrow> moves_ok (dp_crypto d) mm"
  shows "client_ok d (c\<lparr>oc_migration := x\<rparr>)" "client_ok d (c\<lparr>oc_migration := x, oc_world := w\<rparr>)"
  using assms by (simp_all add: client_ok_defs identityKey_def)

lemma ok_moves: "client_ok d c \<Longrightarrow> oc_migration c = Some mm \<Longrightarrow> moves_ok (dp_crypto d) mm"
  by (simp add: client_ok_defs)

lemma ok_emit_progress: "client_ok d c \<Longrightarrow> client_ok d (emit_progress mm c)"
  by (auto simp: emit_progress_def intro!: ok_mark split: option.split)

lemma ok_acceptMigration: "client_ok d c \<Longrightarrow> client_ok d (snd (acceptMigration d e key c))"
proof -
  assume ok: "client_ok d c"
  show ?thesis
  proof (cases "oc_migration c")
    case mm: (Some mm)
    show ?thesis
    proof (cases "acceptIncomingMigration (dp_crypto d) key mm")
      case (Pair r mm1)
      show ?thesis
      proof (cases r)
        case (Some q)
        obtain m nk tk b where q: "q = (m, nk, tk, b)" by (cases q)
        note bnd = accepted_bound [OF ok_moves [OF ok mm] Pair [unfolded Some q]]
        have mv: "moves_ok (dp_crypto d) mm1" using moves_ops(2) [OF ok_moves [OF ok mm], of key] Pair by simp
        have c1: "client_ok d (c\<lparr>oc_migration := Some mm1\<rparr>)" by (rule ok_migration(1) [OF ok]) (simp add: mv)
        have "client_ok d (registerContact S (old\<lparr>ct_identityKey := nk, ct_transportKey := tk, ct_binding := b\<rparr>) (c\<lparr>oc_migration := Some mm1\<rparr>))" for old
          by (rule ok_register [OF c1]) (simp add: contact_bound_def bnd)
        then show ?thesis using c1
          by (auto simp: acceptMigration_def mm Pair Some q Let_def ok_S [OF ok] intro!: ok_send_if split: option.split)
      qed (simp add: acceptMigration_def mm Pair ok)
    qed
  qed (simp add: acceptMigration_def ok)
qed

lemma ok_startMigration: "client_ok d c \<Longrightarrow> client_ok d (snd (startClientMigration d e ret c))"
proof -
  assume ok: "client_ok d c"
  show ?thesis
  proof (cases "oc_migration c")
    case mm: (Some mm)
    let ?start = "startMigration (dp_crypto d) (dp_pending d) (dp_mstore d) (oc_identity c) (map ct_identityKey (cv_listContacts (dp_store d) (oc_store c)))
      ret (fst (en_keys e)) (snd (en_keys e)) (en_nonce e) (en_iso e) mm (oc_world c)"
    obtain r mm1 w1 where s: "?start = (r, mm1, w1)" by (cases ?start)
    obtain r2 mm2 w2 where n: "markNotified (dp_mstore d) mm1 w1 = (r2, mm2, w2)" by (cases "markNotified (dp_mstore d) mm1 w1")
    have mv: "moves_ok (dp_crypto d) mm1" "moves_ok (dp_crypto d) mm2"
      using ok_moves [OF ok mm] moves_cong [OF moves_same(2), of "dp_crypto d"] moves_cong [OF moves_same(3), of "dp_crypto d"] s n
      by (metis fst_conv snd_conv)+
    have "client_ok d (fold (\<lambda>key. send_if_connected key (KeyMigrationFrame m)) keys (c\<lparr>oc_migration := Some mm1, oc_world := w1\<rparr>))" for m keys
      by (intro ok_fold ok_send_if ok_migration(2) ok) (simp_all add: mv)
    then show ?thesis using ok mv
      by (auto simp: startClientMigration_def mm s n Let_def intro!: ok_migration(2) ok_emit_progress split: sum.split)
  qed (simp add: startClientMigration_def ok)
qed

lemma ok_retire: "client_ok d c \<Longrightarrow> client_ok d (snd (retireMigration d c))"
proof -
  assume ok: "client_ok d c"
  show ?thesis
  proof (cases "oc_migration c")
    case mm: (Some mm)
    obtain r mm1 w1 where s: "retire (dp_main d) (dp_pending d) (dp_mstore d) mm (oc_world c) = (r, mm1, w1)"
      by (cases "retire (dp_main d) (dp_pending d) (dp_mstore d) mm (oc_world c)")
    have "moves_ok (dp_crypto d) mm1" using ok_moves [OF ok mm] moves_cong [OF moves_same(4), of "dp_crypto d"] s by (metis fst_conv snd_conv)
    then show ?thesis using ok by (auto simp: retireMigration_def mm s Let_def intro!: ok_migration(2) ok_emit_progress)
  qed (simp add: retireMigration_def ok)
qed

lemma ok_decline: "client_ok d c \<Longrightarrow> client_ok d (declineMigration key c)"
  unfolding declineMigration_def by (rule ok_migration(1)) (auto dest: ok_moves intro: moves_ops(1))

end

end
