(* ===== verification/ClientInvariant.thy ===== *)
theory ClientInvariant
  imports ClientSafety
begin

text \<open>
  The rest of the invariant of \<open>ClientSafety\<close>: the frames that arrive, the start of the client, and the
  invariant of every reachable client; then what it says of a client in use, and its instance for the stores
  that live in memory.
\<close>

lemma decode_migration_wf:
  assumes "decodeAppFrame text = Some (KeyMigrationFrame m)"
  shows "wf_json m"
proof -
  obtain o1 where o1: "json_parse text = Some o1" "decode_fields (jprop o1) (jstr (jprop o1 ''t'')) = Some (KeyMigrationFrame m)"
    using assms by (auto simp: decodeAppFrame_def split: option.splits if_splits)
  then have "jis_obj (jprop o1 ''migration'')" "m = the (jprop o1 ''migration'')"
    by (auto simp: decode_fields_def split: option.splits if_splits)
  then have "jprop o1 ''migration'' = Some m" by (auto simp: jis_obj_def split: option.splits)
  then show ?thesis using wf_jprop json_parse_wf [OF o1(1)] by blast
qed

context client_stores
begin

subsection \<open>Frames\<close>

lemma ok_text: "client_ok d c \<Longrightarrow> client_ok d (receive_text d e key i tx ts c)"
  by (auto simp: receive_text_def sendAwk_def Let_def ok_S intro!: ok_send_if ok_mark(3))

lemma ok_awk: "client_ok d c \<Longrightarrow> client_ok d (receive_awk d i c)"
  using ok_worker_map [of d c "dw_acknowledge i"] worker_ok_ops(2)
  by (auto simp: receive_awk_def ok_S intro!: ok_mark(1) split: option.split)

lemma hello_request_ok:
  "parseContactCard C cd1 = Inr cd \<Longrightarrow> cc_identity_key cd = key \<Longrightarrow> key \<noteq> own \<Longrightarrow>
   request_ok C own key \<lparr>rq_contactKey = key, rq_card = cd1, rq_name = nm\<rparr>"
  by (simp add: request_ok_def)

lemma ok_pending_card:
  assumes "client_ok d c" "\<not> isBlocked c key" "request_ok (dp_crypto d) (identityKey c) key rq"
  shows "client_ok d (c\<lparr>oc_pendingCards := jset key rq (oc_pendingCards c)\<rparr>)"
proof -
  have "screening (dp_crypto d) (identityKey c) (oc_blockedKeys c) (oc_conns c) (jset key rq (oc_pendingCards c))"
    using assms by (auto simp: client_ok_def screening_def isBlocked_def)
  then show ?thesis using assms(1) by (simp add: client_ok_def identityKey_def)
qed

lemma ok_hello: "client_ok d c \<Longrightarrow> \<not> isBlocked c key \<Longrightarrow> client_ok d (receive_hello d key cd c)"
  unfolding receive_hello_def Let_def
  by (auto split: sum.split intro!: ok_mark(4) ok_pending_card hello_request_ok)

lemma ok_file_offer: "client_ok d c \<Longrightarrow> client_ok d (receive_file_offer d key offer c)"
  by (auto simp: receive_file_offer_def ok_S intro!: ok_receive_offer split: option.split)

lemma ok_on_receiver: "client_ok d c \<Longrightarrow> client_ok d (on_receiver d key ev c)"
  by (auto simp: on_receiver_def intro!: ok_receiver split: option.split)

lemma ok_key_migration:
  assumes ok: "client_ok d c" and wf: "wf_json m"
  shows "client_ok d (receive_key_migration d e key m c)"
proof (cases "oc_migration c")
  case mm: (Some mm)
  let ?nm = "case cv_getContact (dp_store d) key (oc_store c) of None \<Rightarrow> key | Some x \<Rightarrow> ct_displayName x"
  obtain r mm1 where h: "handleIncomingMigration (dp_crypto d) m key ?nm mm = (r, mm1)" by fastforce
  have mv: "moves_ok (dp_crypto d) mm1" using moves_ops(3) [OF ok_moves [OF ok mm] wf, of key ?nm] h by simp
  have c1: "client_ok d (c\<lparr>oc_migration := Some mm1\<rparr>)" by (rule ok_migration(1) [OF ok]) (simp add: mv)
  have ch: "client_ok d (fold (\<lambda>ch. send_on key (MigrationChallengeFrame (oc_target ch) (oc_sealedNonceB64 ch) (oc_ackPubkeyB64 ch)))
      chs (c\<lparr>oc_migration := Some mm2\<rparr>))" if "createChallenges (dp_crypto d) x key tk mm1 = (y, mm2)" for x tk y mm2 chs
  proof -
    have "moves_ok (dp_crypto d) mm2" using moves_cong [OF moves_same(6)] mv that by (metis snd_conv)
    then have "client_ok d (c\<lparr>oc_migration := Some mm2\<rparr>)" by (intro ok_migration(1) [OF ok]) simp
    then show ?thesis by (rule ok_fold) (simp add: ok_send)
  qed
  show ?thesis
    by (auto simp: receive_key_migration_def mm h Let_def ok c1 ch ok_mark(4) split: sum.split option.split prod.split)
qed (simp add: receive_key_migration_def ok)

lemma ok_challenge: "client_ok d c \<Longrightarrow> client_ok d (receive_challenge d e key tgt sn pub c)"
  by (auto simp: receive_challenge_def intro!: ok_send_if split: option.split sum.split)

lemma ok_challenge_response: "client_ok d c \<Longrightarrow> client_ok d (receive_challenge_response d e key tgt echo c)"
proof -
  assume ok: "client_ok d c"
  show ?thesis
  proof (cases "oc_migration c")
    case mm: (Some mm)
    obtain both valid mm1 where v: "verifyChallengeResponse (dp_crypto d) key tgt echo mm = ((both, valid), mm1)"
      by (metis prod.collapse)
    have "moves_ok (dp_crypto d) mm1" using moves_cong [OF moves_same(7)] ok_moves [OF ok mm] v by (metis snd_conv)
    then have c1: "client_ok d (c\<lparr>oc_migration := Some mm1\<rparr>)" by (intro ok_migration(1) [OF ok]) simp
    define c2 where "c2 = (if valid then c\<lparr>oc_migration := Some mm1\<rparr>
      else oc_emit (EvError ''processFrame:migration-challenge-response'') (c\<lparr>oc_migration := Some mm1\<rparr>))"
    have c2: "client_ok d c2" using c1 by (simp add: c2_def ok_mark(4))
    obtain a c3 where a: "acceptMigration d e key c2 = (a, c3)" by fastforce
    then have "client_ok d c3" using ok_acceptMigration [OF c2] by (metis snd_conv)
    then show ?thesis using c2
      by (auto simp: receive_challenge_response_def mm v Let_def c2_def [symmetric] a intro!: ok_mark(4))
  qed (simp add: receive_challenge_response_def ok)
qed

lemma ok_migration_ack: "client_ok d c \<Longrightarrow> client_ok d (receive_migration_ack d key ack c)"
proof -
  assume ok: "client_ok d c"
  show ?thesis
  proof (cases "oc_migration c")
    case mm: (Some mm)
    obtain r mm1 w1 where h: "handleMigrationAck (dp_crypto d) (dp_mstore d) ack key mm (oc_world c) = (r, mm1, w1)"
      by (metis prod.collapse)
    have "moves_ok (dp_crypto d) mm1" using moves_cong [OF moves_same(5)] ok_moves [OF ok mm] h by (metis fst_conv snd_conv)
    then have "client_ok d (c\<lparr>oc_migration := Some mm1, oc_world := w1\<rparr>)" by (intro ok_migration(2) [OF ok]) simp
    then show ?thesis by (simp add: receive_migration_ack_def mm h Let_def ok_emit_progress)
  qed (simp add: receive_migration_ack_def ok)
qed

lemma ok_process:
  assumes "client_ok d c" "\<not> isBlocked c key" "\<And>m. frame = KeyMigrationFrame m \<Longrightarrow> wf_json m"
  shows "client_ok d (processFrame d e key frame c)"
  using assms
  by (cases frame) (simp_all add: processFrame_def ok_text ok_awk ok_hello ok_file_offer ok_on_receiver ok_key_migration ok_challenge
    ok_challenge_response ok_migration_ack)

lemma ok_incoming:
  assumes "client_ok d c"
  shows "client_ok d (handleIncomingFrame d e key text c)"
proof (cases "isBlocked c key")
  case False
  have inner: "client_ok d (processFrame d e key f c)" if "openSealedFrame (dp_crypto d) alg box p q = Some f" for alg box p q f
    by (rule ok_process [OF assms False]) (use open_sealable [OF that] in \<open>simp add: sealable_def\<close>)
  have outer: "client_ok d (processFrame d e key f c)" if "decodeAppFrame text = Some f" for f
    by (rule ok_process [OF assms False]) (use that decode_migration_wf in blast)
  show ?thesis unfolding handleIncomingFrame_def
    by (auto simp: assms inner outer ok_mark(4) split: option.split app_frame.split)
qed (simp add: handleIncomingFrame_def assms)

subsection \<open>Start\<close>

lemma ok_start:
  assumes ok: "client_ok d c" and q: "pinned_queue (dp_crypto d) q"
  shows "client_ok d (snd (client_start d e q c))"
proof (cases "oc_started c")
  case False
  define c1 where "c1 = c\<lparr>oc_started := True, oc_contacts := cr_loadAll (cv_listContacts (dp_store d) (oc_store c)) (oc_contacts c)\<rparr>"
  have "client_ok d c1" using ok routing_loadAll by (auto simp: c1_def ok_S [OF ok] client_ok_def identityKey_def)
  moreover define c2 where "c2 = (if dp_queue d = None then c1 else c1\<lparr>oc_worker := Some (dw_start (DeliveryWorker q))\<rparr>)"
  moreover have "dp_queue d = None \<or> dp_queue d = Some Q" using ok by (simp add: client_ok_def uses_def)
  ultimately have c2: "client_ok d c2" using worker_ok_new [OF q] worker_ok_ops(4) by (auto intro!: ok_worker)
  have "moves_ok C MigrationManager" for C by (simp add: moves_ok_def MigrationManager_def)
  then have mv: "moves_ok (dp_crypto d) mm" if "mm_init (dp_crypto d) (dp_pending d) (dp_mstore d) MigrationManager w = (r, mm, w1)" for w r mm w1
    using moves_cong [OF moves_same(1)] that by (metis fst_conv snd_conv)
  show ?thesis using False c2 mv
    by (auto simp: client_start_def Let_def c1_def [symmetric] c2_def [symmetric] intro!: ok_announce ok_migration(2) split: prod.split)
qed (simp add: client_start_def ok)

lemma ok_init:
  assumes "client_init i s w boards token = Some c" "pinned_store (dp_crypto d) s" "uses d"
  shows "client_ok d c"
proof -
  have s: "sok s" using assms(2) by (simp add: pinned_store_def)
  have "contact_bound (dp_crypto d) x" if "cv_getContact S k s = Some x" for k x
    using assms(2) store.getContact_key [OF s that] store.listContacts_get [OF s, of x] that by (auto simp: pinned_store_def)
  with s show ?thesis using assms(1,3)
    by (auto simp: client_init_def client_ok_defs identityKey_def cman_init_def cm_ok_init [unfolded cman_init_def] split: if_splits)
qed

subsection \<open>Every reachable client\<close>

lemma client_ok_step:
  assumes "oc_step d queues c c'" "client_ok d c" "\<And>q. queues q \<Longrightarrow> pinned_queue (dp_crypto d) q"
  shows "client_ok d c'"
  using assms(1)
proof (cases rule: oc_step.cases)
  case (Worker ev e)
  then show ?thesis using assms(2) by (auto intro!: ok_worker_step)
qed (use assms(2,3) in \<open>simp_all add: ok_S ok_start ok_close ok_addContact ok_import ok_loopback ok_selfTest ok_remove ok_setters
  ok_block ok_dismiss ok_acceptRequest ok_startMigration ok_acceptMigration ok_decline ok_retire ok_sendText ok_retry ok_sendFile
  ok_connect ok_boards ok_brokerOpen ok_conn_steps ok_connected ok_resume ok_settled ok_transfer_frame ok_transfer_progress
  ok_transfer_settled ok_receiver ok_incoming\<close>)

lemma client_ok_deps:
  "client_ok d c \<Longrightarrow> uses d2 \<Longrightarrow> dp_crypto d2 = dp_crypto d \<Longrightarrow> dp_queue d2 = dp_queue d \<Longrightarrow> client_ok d2 c"
  by (simp add: client_ok_def)

lemma client_ok_reach:
  assumes "oc_reach deps queues stores c" "deps d"
    and deps: "\<And>d1 d2. deps d1 \<Longrightarrow> deps d2 \<Longrightarrow> uses d1 \<and> dp_crypto d1 = dp_crypto d2 \<and> dp_queue d1 = dp_queue d2"
    and q: "\<And>q. queues q \<Longrightarrow> pinned_queue (dp_crypto d) q" and s: "\<And>s. stores s \<Longrightarrow> pinned_store (dp_crypto d) s"
  shows "client_ok d c"
  using assms(1)
proof induction
  case (New i s w boards token c)
  have "uses d" using deps [OF assms(2) assms(2)] by blast
  then show ?case by (rule ok_init [OF New(1) s [OF New(2)]])
next
  case (Next c d1 c')
  have d: "uses d1" "dp_crypto d1 = dp_crypto d" "dp_queue d1 = dp_queue d" "uses d"
    using deps [OF Next.hyps(2) assms(2)] deps [OF assms(2) assms(2)] by simp_all
  have "client_ok d1 c" by (rule client_ok_deps [OF Next.IH]) (simp_all add: d)
  with Next.hyps(3) have "client_ok d1 c'" by (rule client_ok_step) (simp add: d q)
  then show ?case by (rule client_ok_deps) (simp_all add: d)
qed

text \<open>What the invariant says of a client that is used.\<close>

lemma client_ok_parts:
  assumes "client_ok d c"
  shows "routing (dp_crypto d) (oc_store c) (oc_contacts c) (oc_started c)"
    "sending (dp_crypto d) (oc_sent c) (oc_calls c) (oc_transfers c) (oc_worker c)"
    "screening (dp_crypto d) (identityKey c) (oc_blockedKeys c) (oc_conns c) (oc_pendingCards c)" "waiting (oc_conns c) (oc_calls c)"
  using assms by (simp_all add: client_ok_def)

lemma sent_certified:
  assumes "client_ok d c" "(key, f) \<in> set (oc_sent c)"
  shows "\<not> sealable f" "f = SealedFrame alg box \<Longrightarrow> \<exists>eph inner tk. sealAppFrame (dp_crypto d) eph inner tk = Some f \<and> pinned (dp_crypto d) key tk"
proof -
  have "frame_ok (dp_crypto d) key f" using client_ok_parts(2) [OF assms(1)] assms(2) by (auto simp: sending_def)
  then show "\<not> sealable f" "f = SealedFrame alg box \<Longrightarrow> \<exists>eph inner tk. sealAppFrame (dp_crypto d) eph inner tk = Some f \<and> pinned (dp_crypto d) key tk"
    by (cases f; simp add: frame_ok_def sealable_def)+
qed

lemma blocked_out:
  assumes "client_ok d c" "isBlocked c key"
  shows "getConnection (oc_conns c) key = None" "jget (oc_pendingCards c) key = None"
  using client_ok_parts(3) [OF assms(1)] assms(2) by (simp_all add: screening_def isBlocked_def getConnection_def)

lemma registry_exact:
  assumes "client_ok d c" "oc_started c"
  shows "jget (oc_contacts c) key = map_option record_of (cv_getContact S key (oc_store c))"
proof -
  note R = client_ok_parts(1) [OF assms(1), unfolded routing_def]
  show ?thesis
  proof (cases "cv_getContact S key (oc_store c)")
    case None
    then have "jget (oc_contacts c) key = None" using R by (metis not_None_eq)
    then show ?thesis using None by simp
  next
    case (Some x)
    then show ?thesis using R assms(2) by simp
  qed
qed

lemma stored_contact:
  assumes "client_ok d c" "cv_getContact S key (oc_store c) = Some x"
  shows "ct_identityKey x = key" "contact_bound (dp_crypto d) x"
  using client_ok_parts(1) [OF assms(1)] assms(2) store.getContact_key by (auto simp: routing_def)

lemma request_card:
  assumes "client_ok d c" "jget (oc_pendingCards c) key = Some rq"
  obtains cd where "rq_contactKey rq = key" "key \<noteq> identityKey c" "parseContactCard (dp_crypto d) (rq_card rq) = Inr cd" "cc_identity_key cd = key"
proof -
  have "request_ok (dp_crypto d) (identityKey c) key rq" using client_ok_parts(3) [OF assms(1)] assms(2) by (simp add: screening_def)
  then show thesis using that by (auto simp: request_ok_def)
qed

lemma call_ends:
  assumes "client_ok d c" "n < length (oc_calls c)" "oc_calls c ! n = (p, call)"
  shows "cm_ok (oc_conns c)" "p < length (cm_promises (oc_conns c))"
proof -
  have "(p, call) \<in> set (oc_calls c)" using assms(2,3) nth_mem by metis
  then show "cm_ok (oc_conns c)" "p < length (cm_promises (oc_conns c))"
    using client_ok_parts(4) [OF assms(1)] by (auto simp: waiting_def)
qed

end

interpretation mem_client: client_stores InMemoryConversationStore mem_conv_ok InMemoryPendingQueueStore mem_pending_ok
  by unfold_locales

end
