(* ===== verification/ClientDelivery.thy ===== *)
theory ClientDelivery
  imports ClientInvariant
begin

text \<open>
  A text on its way between two clients: what \<open>sendText\<close> does on a live connection, what
  \<open>handleIncomingFrame\<close> does with the frame at the other end, and with the acknowledgement that comes back.
\<close>

definition text_message :: "direction \<Rightarrow> string \<Rightarrow> string \<Rightarrow> string \<Rightarrow> rat \<Rightarrow> outbound_state \<Rightarrow> stored_message" where
  "text_message dir key i tx ts st = \<lparr>sm_id = i, sm_contactKey = key, sm_direction = dir, sm_kind = KText, sm_ts = ts,
     sm_text = Some tx, sm_file = None, sm_state = st\<rparr>"

lemma text_message_simps [simp]: "sm_id (text_message dir key i tx ts st) = i"
  "patch_message (patch_state st') (text_message dir key i tx ts st) = text_message dir key i tx ts st'"
  by (simp_all add: text_message_def patch_message_def patch_state_def no_patch_def)

definition live :: "('s, 'q, 'w, 'k) orpal \<Rightarrow> string \<Rightarrow> bool" where
  "live c key = (\<exists>cn. getConnection (oc_conns c) key = Some cn \<and> cn_state cn = CConnected)"

lemma live_ensure: "live c key \<Longrightarrow> \<exists>cn. oc_ensure key c = (Inl cn, c)"
  by (auto simp: live_def oc_ensure_def ensureConnection_def getConnection_def Let_def)

lemma live_sends: "live c key \<Longrightarrow> send_if_connected key f c = send_on key f c"
  by (auto simp: live_def send_if_connected_def)

lemma same_after [simp]:
  "oc_conns (notify_updated S i c) = oc_conns c" "oc_sent (notify_updated S i c) = oc_sent c"
  "oc_store (notify_updated S i c) = oc_store c" "oc_worker (notify_updated S i c) = oc_worker c"
  "oc_blockedKeys (notify_updated S i c) = oc_blockedKeys c" "oc_contacts (notify_updated S i c) = oc_contacts c"
  by (simp_all add: notify_updated_def oc_emit_def split: option.split)

lemma same_append [simp]:
  "oc_conns (append_message S m c) = oc_conns c" "oc_sent (append_message S m c) = oc_sent c"
  "oc_store (append_message S m c) = cv_appendMessage S m (oc_store c)" "oc_worker (append_message S m c) = oc_worker c"
  "oc_blockedKeys (append_message S m c) = oc_blockedKeys c" "oc_contacts (append_message S m c) = oc_contacts c"
  by (simp_all add: append_message_def oc_emit_def)

lemma live_cong: "oc_conns c' = oc_conns c \<Longrightarrow> live c' key = live c key"
  by (simp add: live_def)

lemma sealed_text_arrives:
  assumes "\<not> isBlocked c key" "live c key" "decodeAppFrame text = Some (SealedFrame alg box)"
    and "openSealedFrame (dp_crypto d) alg box (di_transportPriv (oc_identity c)) (transportPub (oc_identity c)) = Some (TextFrame i tx ts)"
  shows "handleIncomingFrame d e key text c = send_on key (AwkFrame i (en_ms e))
    (if cv_getMessage (dp_store d) i (oc_store c) \<noteq> None then c
     else append_message (dp_store d) (text_message DIn key i tx ts ODelivered) c)"
proof -
  have "live (append_message S m c) key" for S m using assms(2) live_cong [of "append_message S m c" c key] by simp
  then show ?thesis using assms
    by (simp add: handleIncomingFrame_def processFrame_def receive_text_def sendAwk_def live_sends text_message_def Let_def)
qed

lemma awk_arrives:
  assumes "\<not> isBlocked c key" "oc_worker c = None"
  shows "handleIncomingFrame d e key (encodeAppFrame (AwkFrame i ts)) c = markMessage (dp_store d) i (patch_state OAcknowledged) c"
  using assms decode_encodeAppFrame [of "AwkFrame i ts"]
  by (simp add: handleIncomingFrame_def processFrame_def receive_awk_def app_frame_ok_def)

lemma seal_to_identity:
  assumes "dh_ok C" "aead_ok C" "identity_ok C i" "sealable f"
  obtains box where "sealAppFrame C eph f (transportKeyB64 i) = Some (SealedFrame SEAL_ALG box)"
    "openSealedFrame C SEAL_ALG box (di_transportPriv i) (transportPub i) = Some f"
proof -
  have "transportPub i = x_pub C (di_transportPriv i)" using assms(3) by (auto simp: identity_ok_def mk_identity_def Let_def)
  with open_sealAppFrame [OF assms(1,2,4), of eph "di_transportPriv i"] that show thesis
    by (auto simp: transportKeyB64_def)
qed

text \<open>
  The same through the send queue: the worker takes the message up, reads it and begins the attempt; the
  acknowledgement makes it read the message again and remove it.
\<close>

definition queue_send :: "('s, 'q, 'w, 'k) client_deps \<Rightarrow> client_env \<Rightarrow> env \<Rightarrow> ('s, 'q, 'w, 'k) orpal \<Rightarrow> ('s, 'q, 'w, 'k) orpal" where
  "queue_send d e en c = worker_step d e (EvGo 0 en) (worker_step d e (EvRead 0) (worker_step d e (EvGo 0 en) c))"

definition queue_ack :: "('s, 'q, 'w, 'k) client_deps \<Rightarrow> client_env \<Rightarrow> env \<Rightarrow> ('s, 'q, 'w, 'k) orpal \<Rightarrow> ('s, 'q, 'w, 'k) orpal" where
  "queue_ack d e en c = worker_step d e (EvGo 1 en) (worker_step d e (EvRead 1) c)"

definition queued_text :: "string \<Rightarrow> string \<Rightarrow> string \<Rightarrow> string \<Rightarrow> rat \<Rightarrow> pending_message" where
  "queued_text key tk i tx ts = \<lparr>pm_recipientId = key, pm_recipientTransportKey = tk, pm_messageId = i, pm_timestamp = ts,
     pm_attemptCount = 0, pm_lastAttemptAt = None, pm_payload = PendingText tx\<rparr>"

definition idle :: "'q worker \<Rightarrow> bool" where
  "idle w = (dw_running w \<and> dw_threads w = [] \<and> dw_inflight w = [])"

lemma attempt_live:
  assumes "live c key" "sealAppFrame (dp_crypto d) (en_eph e) (TextFrame i tx ts) tk = Some f"
  shows "attemptDelivery d e (queued_text key tk i tx ts) c =
    await_ack (SentAttempt i) (send_on key f (markMessage (dp_store d) i (patch_state OSending) c))"
proof -
  obtain cn where "oc_ensure key c = (Inl cn, c)" using live_ensure [OF assms(1)] by blast
  then show ?thesis using assms(2)
    by (simp add: attemptDelivery_def start_call_def call_go_def seal_text_def queued_text_def)
qed

lemma sendText_queued:
  assumes "pinned_key c key = Some tk" "oc_worker c = Some w" "dp_queue d = Some Q"
  shows "sendText d e key tx c = (en_id e, (append_message (dp_store d) (text_message DOut key (en_id e) tx (en_ms e) OQueued) c)
    \<lparr>oc_worker := Some (dw_enqueue Q (queued_text key tk (en_id e) tx (en_ms e)) w)\<rparr>)"
  using assms by (simp add: sendText_def text_message_def queued_text_def Let_def)

context pending_queue_store
begin

lemma worker_sends_queued:
  fixes m b en
  assumes "idle w" "ok (dw_store w)"
  defines "w1 \<equiv> dw_enqueue ops m w"
  defines "w2 \<equiv> dw_step ops b w1 (EvGo 0 en)"
  defines "w3 \<equiv> dw_step ops b w2 (EvRead 0)"
  defines "w4 \<equiv> dw_step ops b w3 (EvGo 0 en)"
  shows "dw_threads w1 = [TEnqueued (pm_messageId m)] \<and> dw_threads w2 = [TFetch (pm_messageId m)] \<and> dw_sends w2 = dw_sends w
    \<and> dw_threads w3 = [TFetched (pm_messageId m) (Some m)] \<and> dw_sends w3 = dw_sends w \<and> dw_threads w4 = [TAttempt m]
    \<and> dw_sends w4 = dw_sends w @ [m] \<and> dw_store w4 = ps_enqueue ops m (dw_store w)"
proof -
  note w = assms(1) [unfolded idle_def]
  have 1: "dw_threads w1 = [TEnqueued (pm_messageId m)]" "dw_sends w1 = dw_sends w" "dw_running w1" "dw_inflight w1 = []"
    "dw_store w1 = ps_enqueue ops m (dw_store w)"
    using w by (simp_all add: w1_def dw_enqueue_def)
  have 2: "dw_threads w2 = [TFetch (pm_messageId m)]" "dw_sends w2 = dw_sends w" "dw_store w2 = ps_enqueue ops m (dw_store w)"
    using 1 by (simp_all add: w2_def dw_step_def thread_go_def drop_at_def runAttempt_def)
  have "ps_get ops (pm_messageId m) (dw_store w2) = Some m" using assms(2) 2(3) by (simp add: get_enqueue)
  then have 3: "dw_threads w3 = [TFetched (pm_messageId m) (Some m)]" "dw_sends w3 = dw_sends w" "dw_store w3 = ps_enqueue ops m (dw_store w)"
    using 2 by (simp_all add: w3_def dw_step_def thread_read_def)
  have "dw_threads w4 = [TAttempt m]" "dw_sends w4 = dw_sends w @ [m]" "dw_store w4 = ps_enqueue ops m (dw_store w)"
    using 3 by (simp_all add: w4_def dw_step_def thread_go_def drop_at_def Let_def)
  then show ?thesis using 1 2 3 by simp
qed

lemma worker_drops_acked:
  fixes b en
  assumes "dw_threads w = [t]" "ok (dw_store w)" "ps_get ops i (dw_store w) = Some m"
  defines "w1 \<equiv> dw_acknowledge i w"
  defines "w2 \<equiv> dw_step ops b w1 (EvRead 1)"
  defines "w3 \<equiv> dw_step ops b w2 (EvGo 1 en)"
  shows "dw_threads w1 = [t, TAck i] \<and> dw_threads w2 = [t, TAcked i (Some m)] \<and> dw_sends w2 = dw_sends w
    \<and> dw_sends w3 = dw_sends w \<and> ps_get ops i (dw_store w3) = None"
proof -
  have 1: "dw_threads w1 = [t, TAck i]" "dw_sends w1 = dw_sends w" "dw_store w1 = dw_store w"
    using assms(1) by (simp_all add: w1_def dw_acknowledge_def)
  have 2: "dw_threads w2 = [t, TAcked i (Some m)]" "dw_sends w2 = dw_sends w" "dw_store w2 = dw_store w"
    using 1 assms(3) by (simp_all add: w2_def dw_step_def thread_read_def)
  have "dw_sends w3 = dw_sends w" "ps_get ops i (dw_store w3) = None"
    using 2 assms(2) by (simp_all add: w3_def dw_step_def thread_go_def drop_at_def get_remove)
  then show ?thesis using 1 2 by simp
qed

end

context client_stores
begin

lemma pinned_key_stored:
  assumes "client_ok d c" "oc_started c" "cv_getContact S key (oc_store c) = Some x" "ct_transportKey x \<noteq> []"
  shows "pinned_key c key = Some (ct_transportKey x)"
  using registry_exact [OF assms(1,2), of key] assms(3,4) by (simp add: pinned_key_def transportKeyOf_def record_of_def)

lemma honest_key:
  assumes "client_ok d c" "oc_started c" "cv_getContact S (identityKeyB64 i) (oc_store c) \<noteq> None"
    and "identity_ok (dp_crypto d) i" "signs_only (dp_crypto d) i R" "dh_ok (dp_crypto d)"
  shows "pinned_key c (identityKeyB64 i) = Some (transportKeyB64 i)"
proof -
  obtain x where x: "cv_getContact S (identityKeyB64 i) (oc_store c) = Some x" using assms(3) by blast
  note st = stored_contact [OF assms(1) x]
  have "pinned (dp_crypto d) (identityKeyB64 i) (ct_transportKey x)" using bound_pinned [OF st(2)] st(1) by simp
  then have tk: "ct_transportKey x = transportKeyB64 i" by (rule pinned_authentic [OF assms(5)])
  have "length (transportPub i) = 32" using assms(4,6) by (auto simp: dh_ok_def identity_ok_def mk_identity_def Let_def)
  then have "transportKeyB64 i \<noteq> []" unfolding transportKeyB64_def by (intro b64uEncode_nonempty) auto
  then show ?thesis using pinned_key_stored [OF assms(1,2) x] tk by simp
qed

lemma text_received:
  fixes e e2 :: client_env
  assumes b: "client_ok d c" "live c key" "\<not> isBlocked c key" "cv_getMessage S i (oc_store c) = None"
    and s: "openSealedFrame (dp_crypto d) SEAL_ALG box (di_transportPriv (oc_identity c)) (transportPub (oc_identity c)) = Some (TextFrame i tx ts)"
  defines "c1 \<equiv> handleIncomingFrame d e key (encodeAppFrame (SealedFrame SEAL_ALG box)) c"
  shows "cv_getMessage S i (oc_store c1) = Some (text_message DIn key i tx ts ODelivered)" "oc_sent c1 = oc_sent c @ [(key, AwkFrame i (en_ms e))]"
    "oc_store (handleIncomingFrame d e2 key (encodeAppFrame (SealedFrame SEAL_ALG box)) c1) = oc_store c1"
proof -
  let ?f = "SealedFrame SEAL_ALG box"
  let ?c1 = "send_on key (AwkFrame i (en_ms e)) (append_message S (text_message DIn key i tx ts ODelivered) c)"
  have dec: "decodeAppFrame (encodeAppFrame ?f) = Some ?f" by (rule decode_encodeAppFrame) (simp add: app_frame_ok_def)
  note S = ok_S [OF b(1)]
  have sok: "sok (oc_store c)" using client_ok_parts(1) [OF b(1)] by (simp add: routing_def)
  have c1: "c1 = ?c1" using sealed_text_arrives [OF b(3,2) dec] s b(4) by (simp add: S c1_def)
  have bl: "\<not> isBlocked ?c1 key" "live ?c1 key" "oc_identity ?c1 = oc_identity c"
    using b(2,3) by (simp_all add: isBlocked_def live_def send_on_def append_message_def oc_emit_def)
  show stored: "cv_getMessage S i (oc_store c1) = Some (text_message DIn key i tx ts ODelivered)"
    using sok by (simp add: c1 send_on_def store.gets)
  show "oc_sent c1 = oc_sent c @ [(key, AwkFrame i (en_ms e))]" by (simp add: c1 send_on_def)
  show "oc_store (handleIncomingFrame d e2 key (encodeAppFrame ?f) c1) = oc_store c1"
    using sealed_text_arrives [OF bl(1,2) dec] s stored by (simp add: c1 S bl(3)) (simp add: send_on_def)
qed

lemma worker_step_quiet:
  assumes "oc_worker c = Some w" "dp_queue d = Some q" "dw_sends (dw_step q (dp_backoff d) w ev) = dw_sends w" "acked_by w ev = None"
  shows "worker_step d e ev c = c\<lparr>oc_worker := Some (dw_step q (dp_backoff d) w ev)\<rparr>"
  using assms by (simp add: worker_step_def)

lemma queue_sends:
  fixes key tk i tx ts
  assumes c: "oc_worker c = Some w" "dp_queue d = Some Q" "idle w" "qok (dw_store w)" "live c key"
    and s: "sealAppFrame (dp_crypto d) (en_eph e) (TextFrame i tx ts) tk = Some f"
  defines "m \<equiv> queued_text key tk i tx ts"
  shows "\<exists>w4. queue_send d e en (c\<lparr>oc_worker := Some (dw_enqueue Q m w)\<rparr>) = await_ack (SentAttempt i) (send_on key f
      (markMessage (dp_store d) i (patch_state OSending) (c\<lparr>oc_worker := Some w4\<rparr>)))
    \<and> dw_threads w4 = [TAttempt m] \<and> dw_store w4 = ps_enqueue Q m (dw_store w)"
proof -
  define w1 where "w1 = dw_enqueue Q m w"
  define w2 where "w2 = dw_step Q (dp_backoff d) w1 (EvGo 0 en)"
  define w3 where "w3 = dw_step Q (dp_backoff d) w2 (EvRead 0)"
  define w4 where "w4 = dw_step Q (dp_backoff d) w3 (EvGo 0 en)"
  have w: "dw_threads w1 = [TEnqueued (pm_messageId m)]" "dw_threads w2 = [TFetch (pm_messageId m)]" "dw_sends w2 = dw_sends w"
    "dw_threads w3 = [TFetched (pm_messageId m) (Some m)]" "dw_sends w3 = dw_sends w" "dw_threads w4 = [TAttempt m]"
    "dw_sends w4 = dw_sends w @ [m]" "dw_store w4 = ps_enqueue Q m (dw_store w)"
    using queue.worker_sends_queued [OF c(3,4), where m = m and en = en and b = "dp_backoff d", folded w1_def, folded w2_def, folded w3_def, folded w4_def]
    by simp_all
  have sends1: "dw_sends w1 = dw_sends w" by (simp add: w1_def dw_enqueue_def)
  let ?c = "\<lambda>x. c\<lparr>oc_worker := Some x\<rparr>"
  have 1: "worker_step d e (EvGo 0 en) (?c w1) = ?c w2"
    using worker_step_quiet [of "?c w1" w1 d Q "EvGo 0 en" e] c(2) w(1,3) sends1 by (simp add: w2_def acked_by_def)
  have 2: "worker_step d e (EvRead 0) (?c w2) = ?c w3"
    using worker_step_quiet [of "?c w2" w2 d Q "EvRead 0" e] c(2) w(2,3,5) by (simp add: w3_def acked_by_def)
  have l: "live (?c w4) key" using c(5) by (simp add: live_def)
  have "worker_step d e (EvGo 0 en) (?c w3) = attemptDelivery d e m (?c w4)"
    using c(2) w(4,5,7) by (simp add: worker_step_def w4_def [symmetric] acked_by_def)
  also have "\<dots> = await_ack (SentAttempt i) (send_on key f (markMessage (dp_store d) i (patch_state OSending) (?c w4)))"
    unfolding m_def by (rule attempt_live [OF l s])
  finally show ?thesis using w(6,8) unfolding queue_send_def w1_def [symmetric] 1 2 by blast
qed

lemma queue_acks:
  assumes c: "\<not> isBlocked c key" "oc_worker c = Some w" "dp_queue d = Some Q" "dw_threads w = [t]" "qok (dw_store w)"
    and i: "ps_get Q i (dw_store w) = Some m"
  shows "\<exists>w3. queue_ack d e en (handleIncomingFrame d e key (encodeAppFrame (AwkFrame i ts)) c) =
      markMessage (dp_store d) i (patch_state OAcknowledged) (c\<lparr>oc_worker := Some w3\<rparr>) \<and> ps_get Q i (dw_store w3) = None"
proof -
  define w1 where "w1 = dw_acknowledge i w"
  define w2 where "w2 = dw_step Q (dp_backoff d) w1 (EvRead 1)"
  define w3 where "w3 = dw_step Q (dp_backoff d) w2 (EvGo 1 en)"
  have w: "dw_threads w1 = [t, TAck i]" "dw_threads w2 = [t, TAcked i (Some m)]" "dw_sends w2 = dw_sends w" "dw_sends w3 = dw_sends w"
    "ps_get Q i (dw_store w3) = None"
    using queue.worker_drops_acked [OF c(4,5) i, where en = en and b = "dp_backoff d", folded w1_def, folded w2_def, folded w3_def] by simp_all
  have sends1: "dw_sends w1 = dw_sends w" by (simp add: w1_def dw_acknowledge_def)
  let ?c = "\<lambda>x. c\<lparr>oc_worker := Some x\<rparr>"
  have 0: "handleIncomingFrame d e key (encodeAppFrame (AwkFrame i ts)) c = ?c w1"
    using c(1,2) decode_encodeAppFrame [of "AwkFrame i ts"]
    by (simp add: handleIncomingFrame_def processFrame_def receive_awk_def app_frame_ok_def w1_def)
  have 1: "worker_step d e (EvRead 1) (?c w1) = ?c w2"
    using worker_step_quiet [of "?c w1" w1 d Q "EvRead 1" e] c(3) w(1,3) sends1 by (simp add: w2_def acked_by_def)
  have 2: "worker_step d e (EvGo 1 en) (?c w2) = markMessage (dp_store d) i (patch_state OAcknowledged) (?c w3)"
    using c(3) w(2,3,4) by (simp add: worker_step_def w3_def [unfolded One_nat_def, symmetric] acked_by_def)
  show ?thesis unfolding queue_ack_def 0 1 2 using w(5) by blast
qed

lemma text_sent:
  assumes a: "client_ok d a" "oc_worker a = Some w" "idle w" "live a key" "pinned_key a key = Some tk"
    and s: "sealAppFrame (dp_crypto d) (en_eph e) (TextFrame (en_id e) tx (en_ms e)) tk = Some f"
  shows "\<exists>w4. queue_send d e en (snd (sendText d e key tx a)) = await_ack (SentAttempt (en_id e)) (send_on key f
      (markMessage S (en_id e) (patch_state OSending) ((append_message S (text_message DOut key (en_id e) tx (en_ms e) OQueued) a)\<lparr>oc_worker := Some w4\<rparr>)))
    \<and> dw_threads w4 = [TAttempt (queued_text key tk (en_id e) tx (en_ms e))] \<and> qok (dw_store w4)
    \<and> ps_get Q (en_id e) (dw_store w4) = Some (queued_text key tk (en_id e) tx (en_ms e)) \<and> dp_queue d = Some Q"
proof -
  let ?i = "en_id e" and ?m = "queued_text key tk (en_id e) tx (en_ms e)"
  have q: "dp_queue d = Some Q" "worker_ok (dp_crypto d) w" using a(1,2) client_ok_parts(2) [OF a(1)] by (simp_all add: client_ok_def sending_def)
  then have qw: "qok (dw_store w)" by (auto simp: worker_ok_def queue.dw_content_def Let_def)
  note S = ok_S [OF a(1)]
  let ?a0 = "append_message S (text_message DOut key ?i tx (en_ms e) OQueued) a"
  have l0: "live ?a0 key" "oc_worker ?a0 = Some w" using a(2,4) live_cong [of ?a0 a key] by simp_all
  obtain w4 where w4: "queue_send d e en (?a0\<lparr>oc_worker := Some (dw_enqueue Q ?m w)\<rparr>) = await_ack (SentAttempt ?i) (send_on key f
      (markMessage S ?i (patch_state OSending) (?a0\<lparr>oc_worker := Some w4\<rparr>)))" "dw_threads w4 = [TAttempt ?m]" "dw_store w4 = ps_enqueue Q ?m (dw_store w)"
    using queue_sends [OF l0(2) q(1) a(3) qw l0(1) s, of en] by (auto simp: S)
  have "qok (dw_store w4)" "ps_get Q ?i (dw_store w4) = Some ?m"
    using qw by (simp_all add: w4(3) queue.get_enqueue queue.ok_ops) (simp add: queued_text_def)
  then show ?thesis using sendText_queued [OF a(5,2) q(1)] w4(1,2) q(1) by (auto simp: S)
qed

lemma queued_exchange:
  fixes a b :: "('s, 'q, 'w, 'k) orpal"
  defines "ka \<equiv> identityKey a" and "kb \<equiv> identityKey b"
  assumes a: "client_ok d a" "oc_started a" "oc_worker a = Some w" "idle w" "live a kb" "cv_getContact S kb (oc_store a) \<noteq> None"
    and b: "client_ok d2 b" "live b ka" "cv_getMessage S (en_id e) (oc_store b) = None"
    and honest: "identity_ok (dp_crypto d) (oc_identity b)" "signs_only (dp_crypto d) (oc_identity b) R"
    and C: "dp_crypto d2 = dp_crypto d" "dh_ok (dp_crypto d)" "aead_ok (dp_crypto d)"
  shows "\<exists>f. let a1 = queue_send d e en (snd (sendText d e kb tx a));
      b1 = handleIncomingFrame d2 e2 ka (encodeAppFrame f) b;
      a2 = queue_ack d e3 en3 (handleIncomingFrame d e3 kb (encodeAppFrame (AwkFrame (en_id e) (en_ms e2))) a1)
    in oc_sent a1 = oc_sent a @ [(kb, f)]
     \<and> cv_getMessage S (en_id e) (oc_store b1) = Some (text_message DIn ka (en_id e) tx (en_ms e) ODelivered)
     \<and> oc_sent b1 = oc_sent b @ [(ka, AwkFrame (en_id e) (en_ms e2))]
     \<and> oc_store (handleIncomingFrame d2 e4 ka (encodeAppFrame f) b1) = oc_store b1
     \<and> cv_getMessage S (en_id e) (oc_store a2) = Some (text_message DOut kb (en_id e) tx (en_ms e) OAcknowledged)
     \<and> (\<exists>w2. oc_worker a2 = Some w2 \<and> ps_get Q (en_id e) (dw_store w2) = None)"
proof -
  let ?C = "dp_crypto d" and ?i = "en_id e" and ?bi = "oc_identity b"
  have pk: "pinned_key a kb = Some (transportKeyB64 ?bi)"
    using honest_key [OF a(1,2) _ honest C(2)] a(6) by (simp add: kb_def identityKey_def)
  obtain box where s: "sealAppFrame ?C (en_eph e) (TextFrame ?i tx (en_ms e)) (transportKeyB64 ?bi) = Some (SealedFrame SEAL_ALG box)"
      "openSealedFrame ?C SEAL_ALG box (di_transportPriv ?bi) (transportPub ?bi) = Some (TextFrame ?i tx (en_ms e))"
    by (rule seal_to_identity [OF C(2,3) honest(1), of "TextFrame ?i tx (en_ms e)" "en_eph e"]) (simp add: sealable_def)
  let ?f = "SealedFrame SEAL_ALG box" and ?m = "queued_text kb (transportKeyB64 ?bi) ?i tx (en_ms e)"
  have nb: "\<not> isBlocked a kb" "\<not> isBlocked b ka" using blocked_out(1) [OF a(1), of kb] blocked_out(1) [OF b(1), of ka] a(5) b(2)
    by (auto simp: live_def)
  have sok: "sok (oc_store a)" using client_ok_parts(1) [OF a(1)] by (simp add: routing_def)
  let ?a1 = "\<lambda>w4. await_ack (SentAttempt ?i) (send_on kb ?f (markMessage S ?i (patch_state OSending)
    ((append_message S (text_message DOut kb ?i tx (en_ms e) OQueued) a)\<lparr>oc_worker := Some w4\<rparr>)))"
  obtain w4 where a1: "queue_send d e en (snd (sendText d e kb tx a)) = ?a1 w4" and t: "dw_threads w4 = [TAttempt ?m]" "qok (dw_store w4)"
      "ps_get Q ?i (dw_store w4) = Some ?m" and q: "dp_queue d = Some Q"
    using text_sent [OF a(1,3,4,5) pk s(1), of en] by blast
  have al: "\<not> isBlocked (?a1 w4) kb" "oc_worker (?a1 w4) = Some w4" using nb(1) by (simp_all add: isBlocked_def await_ack_def send_on_def markMessage_def)
  from queue_acks [OF al q t, of e3 en3 "en_ms e2"]
  obtain w6 where w6: "queue_ack d e3 en3 (handleIncomingFrame d e3 kb (encodeAppFrame (AwkFrame ?i (en_ms e2))) (?a1 w4)) =
      markMessage S ?i (patch_state OAcknowledged) ((?a1 w4)\<lparr>oc_worker := Some w6\<rparr>)" "ps_get Q ?i (dw_store w6) = None" 
    by (auto simp: ok_S [OF a(1)])
  note recv = text_received [OF b(1,2) nb(2) b(3), of box tx "en_ms e", unfolded C(1), OF s(2)]
  have "oc_sent (?a1 w4) = oc_sent a @ [(kb, ?f)]" by (simp add: await_ack_def send_on_def markMessage_def)
  moreover have "cv_getMessage S ?i (oc_store (markMessage S ?i (patch_state OAcknowledged) ((?a1 w4)\<lparr>oc_worker := Some w6\<rparr>))) =
      Some (text_message DOut kb ?i tx (en_ms e) OAcknowledged)"
    using sok by (simp add: markMessage_def await_ack_def send_on_def store.gets)
  moreover have "oc_worker (markMessage S ?i (patch_state OAcknowledged) ((?a1 w4)\<lparr>oc_worker := Some w6\<rparr>)) = Some w6" by (simp add: markMessage_def)
  ultimately show ?thesis unfolding a1 Let_def using recv w6 by (intro exI [of _ ?f]) (simp add: a1)
qed

end

end
