(* ===== verification/BrowserClient.thy ===== *)
theory BrowserClient
  imports ClientDelivery WebMigration WebFiles Instances
begin

text \<open>
  The client as \<open>apps/web/src/orpal/setup.ts\<close> builds it: over the stores in IndexedDB. Its reachable states
  inherit the invariant of \<open>ClientSafety\<close>. The last section has two concrete clients that are connected.
\<close>

interpretation web_client: client_stores IpcConversationStore web_db_ok IpcPendingQueueStore web_db_ok
  by unfold_locales

type_synonym web_client_state = "(migration_state web_db, migration_state web_db, web_world, web_files) orpal"
type_synonym web_client_deps = "(migration_state web_db, migration_state web_db, web_world, web_files) client_deps"

definition app_deps :: "crypto \<Rightarrow> key_provider option \<Rightarrow> bool \<Rightarrow> migration_state tx_outcome \<Rightarrow> web_files sink_ops \<Rightarrow> (bytes \<Rightarrow> string)
    \<Rightarrow> web_client_deps" where
  \<comment> \<open>what \<open>createOrpalApp\<close> hands to the client; the outcome of a transaction and the sink of a file vary from call to call\<close>
  "app_deps C provider relayOnlyByDefault wr sink hash = \<lparr>dp_crypto = C, dp_store = IpcConversationStore,
     dp_queue = Some IpcPendingQueueStore, dp_backoff = DEFAULT_BACKOFF, dp_migrates = True, dp_main = web_main wr provider,
     dp_pending = web_pending wr provider, dp_mstore = IpcMigrationStore wr, dp_sink = sink, dp_hash = hash,
     dp_receiveFiles = True, dp_relayOnlyByDefault = relayOnlyByDefault,
     dp_fileTransfer = \<lparr>to_chunkSize = None, to_window = None, to_maxRetries = None, to_retryBackoffMs = None\<rparr>\<rparr>"

definition browser_deps :: "crypto \<Rightarrow> key_provider option \<Rightarrow> bool \<Rightarrow> web_client_deps \<Rightarrow> bool" where
  "browser_deps C provider relay d = (\<exists>wr sink hash. d = app_deps C provider relay wr sink hash)"

definition certified_db :: "crypto \<Rightarrow> migration_state web_db \<Rightarrow> bool" where
  "certified_db C db = (web_db_ok db \<and> (\<forall>x\<in>set (cv_listContacts IpcConversationStore db). contact_bound C x)
     \<and> (\<forall>m\<in>set (ps_list IpcPendingQueueStore db). pinned_message C m))"

text \<open>
  A client of the browser after any sequence of steps, from a database whose contacts and queued messages
  carry certified keys (an empty one, to begin with).
\<close>

definition browser_client :: "crypto \<Rightarrow> key_provider option \<Rightarrow> bool \<Rightarrow> web_client_state \<Rightarrow> bool" where
  "browser_client C provider relay c = oc_reach (browser_deps C provider relay) (certified_db C) (certified_db C) c"

lemma app_deps_sel [simp]:
  "dp_crypto (app_deps C p r wr sink hash) = C" "dp_store (app_deps C p r wr sink hash) = IpcConversationStore"
  "dp_queue (app_deps C p r wr sink hash) = Some IpcPendingQueueStore" "dp_relayOnlyByDefault (app_deps C p r wr sink hash) = r"
  "dp_migrates (app_deps C p r wr sink hash)" "dp_pending (app_deps C p r wr sink hash) = web_pending wr p"
  "dp_main (app_deps C p r wr sink hash) = web_main wr p" "dp_mstore (app_deps C p r wr sink hash) = IpcMigrationStore wr"
  by (simp_all add: app_deps_def)

lemma browser_ok:
  assumes "browser_client C p r c"
  shows "web_client.client_ok (app_deps C p r wr sink hash) c"
proof (rule web_client.client_ok_reach)
  show "oc_reach (browser_deps C p r) (certified_db C) (certified_db C) c" using assms by (simp add: browser_client_def)
  show "browser_deps C p r (app_deps C p r wr sink hash)" by (auto simp: browser_deps_def)
  show "web_client.pinned_queue (dp_crypto (app_deps C p r wr sink hash)) q" if "certified_db C q" for q
    using that by (simp add: certified_db_def web_client.pinned_queue_def)
  show "web_client.pinned_store (dp_crypto (app_deps C p r wr sink hash)) s" if "certified_db C s" for s
    using that by (simp add: certified_db_def web_client.pinned_store_def)
  show "web_client.uses d1 \<and> dp_crypto d1 = dp_crypto d2 \<and> dp_queue d1 = dp_queue d2"
    if "browser_deps C p r d1" "browser_deps C p r d2" for d1 d2
    using that by (auto simp: browser_deps_def web_client.uses_def)
qed

lemma browser_next:
  "browser_client C p r c \<Longrightarrow> oc_step (app_deps C p r wr sink hash) (certified_db C) c c' \<Longrightarrow> browser_client C p r c'"
  unfolding browser_client_def by (rule oc_reach.Next) (auto simp: browser_deps_def)

lemma certified_empty: "certified_db C web_db_empty"
  by (simp add: certified_db_def web_db_ok_def web_db_empty_def web_conv_defs web_pending_defs pq_list_def keyed_by_def store_ok_def
      idb_get_def idb_getAll_def)

subsection \<open>Two clients\<close>

text \<open>Primitives under which Bob's binding verifies, and whose ciphertexts open under their own key only.\<close>

definition talk_crypto :: crypto where
  "talk_crypto = bob_signed\<lparr>xchacha_enc := xchacha_enc keyed_crypto, xchacha_dec := xchacha_dec keyed_crypto\<rparr>"

lemma talk_sel [simp]:
  "ed_pub talk_crypto = ed_pub open_crypto" "ed_sign talk_crypto = ed_sign open_crypto" "ed_verify talk_crypto = ed_verify bob_signed"
  "x_pub talk_crypto = x_pub open_crypto" "x_shared talk_crypto = x_shared open_crypto" "hkdf256 talk_crypto = hkdf256 open_crypto"
  "sha256 talk_crypto = sha256 open_crypto" "xchacha_enc talk_crypto = xchacha_enc keyed_crypto" "xchacha_dec talk_crypto = xchacha_dec keyed_crypto"
  by (simp_all add: talk_crypto_def bob_signed_def signed_crypto_def)

lemma talk_crypto_ok: "dh_ok talk_crypto" "aead_keyed talk_crypto" "hkdf_salted talk_crypto"
proof -
  show "dh_ok talk_crypto" "hkdf_salted talk_crypto"
    using open_crypto_ok(3) hkdf_salted_open(1) unfolding dh_ok_def hkdf_salted_def talk_sel by blast+
  show "aead_keyed talk_crypto" using keyed_crypto_ok(2) unfolding aead_keyed_def talk_sel by blast
qed

lemma talk_same: "verifyBinding talk_crypto = verifyBinding bob_signed" "identity_ok talk_crypto bob"
  "signs_only talk_crypto = signs_only bob_signed" "parseContactCard talk_crypto = parseContactCard bob_signed"
proof -
  show v: "verifyBinding talk_crypto = verifyBinding bob_signed" unfolding fun_eq_iff verifyBinding_def talk_sel by (intro allI refl)
  show "signs_only talk_crypto = signs_only bob_signed" unfolding fun_eq_iff signs_only_def ed_only_signed_def talk_sel by (intro allI refl)
  show "parseContactCard talk_crypto = parseContactCard bob_signed" unfolding fun_eq_iff parseContactCard_def v by (intro allI refl)
  have "mk_identity talk_crypto = mk_identity open_crypto"
    unfolding fun_eq_iff mk_identity_def talk_sel by (intro allI refl)
  then show "identity_ok talk_crypto bob" using alice_bob(2) by (simp add: identity_ok_def)
qed

lemma sealAppFrame_total:
  assumes "dh_ok C" "identity_ok C i"
  shows "\<exists>box. sealAppFrame C eph f (transportKeyB64 i) = Some (SealedFrame SEAL_ALG box)"
proof -
  have "transportPub i = x_pub C (di_transportPriv i)" using assms(2) by (auto simp: identity_ok_def mk_identity_def Let_def)
  then show ?thesis using seal_total [OF assms(1), of eph "utf8 (encodeAppFrame f)" "di_transportPriv i"]
    by (auto simp: sealAppFrame_def transportKeyB64_def)
qed

definition a_client_env :: client_env where
  "a_client_env = \<lparr>en_iso = ''2025-01-01T00:00:00.000Z'', en_ms = 1000, en_id = ''m1'', en_nonce = [9], en_eph = [8],
     en_challenge = \<lparr>cd_oldNonce = [1], cd_newNonce = [2], cd_oldAckPriv = [3], cd_newAckPriv = [4], cd_oldEph = [5], cd_newEph = [6]\<rparr>,
     en_keys = ([7], [8]), en_announceThrows = []\<rparr>"

definition app :: "crypto \<Rightarrow> web_client_deps" where
  "app C = app_deps C None False (\<lambda>_. None) (incoming_sink ''h'') (\<lambda>_. ''hash'')"

definition new_client :: "device_identity \<Rightarrow> web_client_state" where
  "new_client i = the (client_init i web_db_empty (web_db_empty, []) [''board''] None)"

definition bob_card :: string where
  "bob_card = serializeContactCard (exportPublic bob) (Some ''Bob'')"

definition a_read :: env where
  "a_read = \<lparr>ev_dispatched = True, ev_now = 0, ev_random = 0\<rparr>"

text \<open>Alice connects to Bob, starts, lets the worker take up its (empty) queue and adds Bob's card.\<close>

definition alice_live :: "crypto \<Rightarrow> web_client_state" where
  "alice_live C = handleConnected (app C) ''board'' ''m'' (identityKeyB64 bob) (new_client alice)"

definition alice_started :: "crypto \<Rightarrow> web_client_state" where
  "alice_started C = snd (client_start (app C) a_client_env web_db_empty (alice_live C))"

definition alice_resumed :: "crypto \<Rightarrow> web_client_state" where
  "alice_resumed C = worker_step (app C) a_client_env (EvGo 0 a_read) (worker_step (app C) a_client_env (EvRead 0) (alice_started C))"

definition alice_ready :: "crypto \<Rightarrow> web_client_state" where
  "alice_ready C = snd (addContactFromCard (app C) a_client_env bob_card None None (alice_resumed C))"

definition bob_ready :: "crypto \<Rightarrow> web_client_state" where
  "bob_ready C = handleConnected (app C) ''board'' ''m'' (identityKeyB64 alice) (new_client bob)"

lemma new_client_sel [simp]:
  "oc_identity (new_client i) = i" "oc_conns (new_client i) = cman_init" "oc_blockedKeys (new_client i) = []"
  "oc_started (new_client i) = False" "oc_worker (new_client i) = None" "oc_store (new_client i) = web_db_empty"
  "oc_world (new_client i) = (web_db_empty, [])" "oc_contacts (new_client i) = []" "oc_migration (new_client i) = None"
  "oc_sent (new_client i) = []"
  by (simp_all add: new_client_def client_init_def)

lemma app_sel [simp]: "dp_crypto (app C) = C" "dp_store (app C) = IpcConversationStore" "dp_queue (app C) = Some IpcPendingQueueStore"
  "dp_migrates (app C)" "dp_mstore (app C) = IpcMigrationStore (\<lambda>_. None)"
  by (simp_all add: app_def)

lemma browser_new: "browser_client C None False (new_client i)"
proof -
  have "client_init i web_db_empty (web_db_empty, []) [''board''] None = Some (new_client i)"
    by (simp add: new_client_def client_init_def)
  then show ?thesis unfolding browser_client_def by (rule oc_reach.New) (rule certified_empty)
qed

lemma browser_app: "browser_client C None False c \<Longrightarrow> oc_step (app C) (certified_db C) c c' \<Longrightarrow> browser_client C None False c'"
  unfolding app_def by (rule browser_next)

lemma connected_sel:
  assumes "\<not> isBlocked c key" "getConnection (oc_conns c) key = None"
  shows "live (handleConnected d b mid key c) key" "oc_started (handleConnected d b mid key c) = oc_started c"
    "oc_store (handleConnected d b mid key c) = oc_store c" "oc_identity (handleConnected d b mid key c) = oc_identity c"
    "oc_worker (handleConnected d b mid key c) = map_option (dw_flush (Some key)) (oc_worker c)"
    "oc_world (handleConnected d b mid key c) = oc_world c" "oc_blockedKeys (handleConnected d b mid key c) = oc_blockedKeys c"
    "oc_migration (handleConnected d b mid key c) = oc_migration c"
  using assms by (simp_all add: handleConnected_def Let_def live_def getConnection_def send_on_def)

lemma alice_live_sel: "live (alice_live C) (identityKeyB64 bob)" "\<not> oc_started (alice_live C)" "oc_store (alice_live C) = web_db_empty"
  "oc_identity (alice_live C) = alice" "oc_worker (alice_live C) = None" "oc_world (alice_live C) = (web_db_empty, [])"
  using connected_sel [of "new_client alice" "identityKeyB64 bob" "app C" "''board''" "''m''"]
  by (simp_all add: alice_live_def isBlocked_def getConnection_def cman_init_def)

lemma bob_ready_sel: "live (bob_ready C) (identityKeyB64 alice)" "oc_store (bob_ready C) = web_db_empty" "oc_identity (bob_ready C) = bob"
  using connected_sel [of "new_client bob" "identityKeyB64 alice" "app C" "''board''" "''m''"]
  by (simp_all add: bob_ready_def isBlocked_def getConnection_def cman_init_def)

lemma announce_sel [simp]:
  "oc_conns (announceAll e c) = oc_conns c" "oc_store (announceAll e c) = oc_store c" "oc_worker (announceAll e c) = oc_worker c"
  "oc_started (announceAll e c) = oc_started c" "oc_identity (announceAll e c) = oc_identity c"
proof -
  have "oc_conns (fold (announcePresenceOn e) bs c) = oc_conns c \<and> oc_store (fold (announcePresenceOn e) bs c) = oc_store c
      \<and> oc_worker (fold (announcePresenceOn e) bs c) = oc_worker c \<and> oc_started (fold (announcePresenceOn e) bs c) = oc_started c
      \<and> oc_identity (fold (announcePresenceOn e) bs c) = oc_identity c" for bs
    by (induction bs arbitrary: c) (simp_all add: announcePresenceOn_def oc_emit_def)
  then show "oc_conns (announceAll e c) = oc_conns c" "oc_store (announceAll e c) = oc_store c" "oc_worker (announceAll e c) = oc_worker c"
    "oc_started (announceAll e c) = oc_started c" "oc_identity (announceAll e c) = oc_identity c"
    by (simp_all add: announceAll_def)
qed

lemma alice_started_sel:
  "live (alice_started C) (identityKeyB64 bob)" "oc_started (alice_started C)" "oc_store (alice_started C) = web_db_empty"
  "oc_identity (alice_started C) = alice" "oc_worker (alice_started C) = Some (dw_start (DeliveryWorker web_db_empty))"
proof -
  have m: "mm_init C p (IpcMigrationStore wr) MigrationManager (web_db_empty, []) = (None, MigrationManager, (web_db_empty, []))" for p wr
    by (simp add: mm_init_def IpcMigrationStore_def migration_load_def kvGet_def web_db_empty_def idb_get_def MigrationManager_def)
  note l = alice_live_sel [of C]
  show "live (alice_started C) (identityKeyB64 bob)" "oc_started (alice_started C)" "oc_store (alice_started C) = web_db_empty"
    "oc_identity (alice_started C) = alice" "oc_worker (alice_started C) = Some (dw_start (DeliveryWorker web_db_empty))"
    using l by (simp_all add: alice_started_def client_start_def Let_def m live_def)
qed

lemma alice_resumed_eq: "\<exists>w. alice_resumed C = (alice_started C)\<lparr>oc_worker := Some w\<rparr> \<and> idle w"
proof -
  let ?Q = "IpcPendingQueueStore :: migration_state web_db pending_store"
  define w0 where "w0 = dw_start (DeliveryWorker web_db_empty :: migration_state web_db worker)"
  define w1 where "w1 = dw_step ?Q (dp_backoff (app C)) w0 (EvRead 0)"
  define w2 where "w2 = dw_step ?Q (dp_backoff (app C)) w1 (EvGo 0 a_read)"
  have 0: "dw_threads w0 = [TResume]" "dw_running w0" "dw_inflight w0 = []" "dw_sends w0 = []" "dw_store w0 = web_db_empty"
    by (simp_all add: w0_def dw_start_def DeliveryWorker_def)
  have "ps_list ?Q web_db_empty = []" by (simp add: web_pending_defs pq_list_def web_db_empty_def idb_getAll_def)
  then have 1: "dw_threads w1 = [TResumed []]" "dw_running w1" "dw_inflight w1 = []" "dw_sends w1 = []"
    using 0 by (simp_all add: w1_def dw_step_def thread_read_def)
  then have 2: "idle w2" "dw_sends w2 = []" by (simp_all add: w2_def dw_step_def thread_go_def drop_at_def idle_def)
  have s: "oc_worker (alice_started C) = Some w0" using alice_started_sel(5) by (simp add: w0_def)
  have "worker_step (app C) a_client_env (EvRead 0) (alice_started C) = (alice_started C)\<lparr>oc_worker := Some w1\<rparr>"
    using web_client.worker_step_quiet [OF s, of "app C" ?Q "EvRead 0" a_client_env] 0 1 by (simp add: w1_def acked_by_def)
  moreover have "worker_step (app C) a_client_env (EvGo 0 a_read) ((alice_started C)\<lparr>oc_worker := Some w1\<rparr>) = (alice_started C)\<lparr>oc_worker := Some w2\<rparr>"
    using web_client.worker_step_quiet [of "(alice_started C)\<lparr>oc_worker := Some w1\<rparr>" w1 "app C" ?Q "EvGo 0 a_read" a_client_env] 1 2
    by (simp add: w2_def acked_by_def)
  ultimately show ?thesis using 2(1) by (auto simp: alice_resumed_def)
qed

text \<open>A crypto under which Bob's card parses.\<close>

definition knows_bob :: "crypto \<Rightarrow> bool" where
  "knows_bob C = (parseContactCard C bob_card = Inr \<lparr>cc_identity_key = identityKeyB64 bob, cc_transport_key = transportKeyB64 bob,
     cc_binding = di_binding bob, cc_name = Some ''Bob''\<rparr>)"

lemma knows_bob_ok [simp]: "knows_bob bob_signed" "knows_bob talk_crypto"
proof -
  have "identity_ok bob_signed bob" by (simp add: bob_signed_def)
  from parse_card_checks [OF bob_signed_binding this] show "knows_bob bob_signed" "knows_bob talk_crypto"
    by (simp_all add: knows_bob_def talk_same bob_card_def)
qed

lemma alice_ready_sel:
  assumes "knows_bob C"
  shows "live (alice_ready C) (identityKeyB64 bob)" "oc_started (alice_ready C)" "oc_identity (alice_ready C) = alice"
    "\<exists>w. oc_worker (alice_ready C) = Some w \<and> idle w" "cv_getContact IpcConversationStore (identityKeyB64 bob) (oc_store (alice_ready C)) \<noteq> None"
proof -
  obtain w where w: "alice_resumed C = (alice_started C)\<lparr>oc_worker := Some w\<rparr>" "idle w" using alice_resumed_eq by blast
  note s = alice_started_sel [of C]
  have k: "identityKeyB64 bob \<noteq> identityKey (alice_resumed C)" using keys_distinct(1) s(4) by (auto simp: w(1) identityKey_def)
  obtain x where r: "alice_ready C = registerContact IpcConversationStore x (alice_resumed C)" "ct_identityKey x = identityKeyB64 bob"
    using assms k by (auto simp: alice_ready_def addContactFromCard_def knows_bob_def contactFromCard_def Let_def)
  have ok: "web_db_ok (web_db_empty :: migration_state web_db)" using certified_empty by (simp add: certified_db_def)
  show "live (alice_ready C) (identityKeyB64 bob)" "oc_started (alice_ready C)" "oc_identity (alice_ready C) = alice"
    "\<exists>w. oc_worker (alice_ready C) = Some w \<and> idle w"
    using s w(2) by (simp_all add: r(1) registerContact_def w(1) live_def)
  show "cv_getContact IpcConversationStore (identityKeyB64 bob) (oc_store (alice_ready C)) \<noteq> None"
    using s(3) r(2) ok by (simp add: r(1) registerContact_def w(1) web_conv.getContact_upsert)
qed

lemma runs_ok: "browser_client C None False (alice_ready C)" "browser_client C None False (bob_ready C)"
proof -
  note [simp] = certified_empty
  have "browser_client C None False (alice_live C)" unfolding alice_live_def by (rule browser_app [OF browser_new oc_step.Connected])
  then have "browser_client C None False (alice_started C)" unfolding alice_started_def by (rule browser_app) (rule oc_step.Started, simp)
  then have "browser_client C None False (alice_resumed C)" unfolding alice_resumed_def by (intro browser_app [OF _ oc_step.Worker]) auto
  then show "browser_client C None False (alice_ready C)" unfolding alice_ready_def by (rule browser_app) (rule oc_step.AddCard)
  show "browser_client C None False (bob_ready C)" unfolding bob_ready_def by (rule browser_app [OF browser_new oc_step.Connected])
qed

end
