(* ===== verification/DeviceBackup.thy ===== *)
theory DeviceBackup
  imports ContactExport ConversationStore PendingQueue MigrationManager
begin

text \<open>
  \<open>packages/orpal-core/src/backup/device-backup.ts\<close>: the whole device under a password. The payload is
  printed as JSON, encrypted under a key derived from the password, and wrapped in an envelope with the
  public parameters. AES-GCM and PBKDF2 come from a library and are the fields of an argument. The parsed
  payload is JSON that the program casts to its types; \<open>payload_of_json\<close> is that cast, on values that have
  the fields.
\<close>

subsection \<open>The primitives\<close>

record backup_crypto =
  bc_pbkdf2 :: "bytes \<Rightarrow> bytes \<Rightarrow> rat \<Rightarrow> bytes option"
  bc_encrypt :: "bytes \<Rightarrow> bytes \<Rightarrow> bytes \<Rightarrow> bytes"
  bc_decrypt :: "bytes \<Rightarrow> bytes \<Rightarrow> bytes \<Rightarrow> bytes option"

definition gcm_ok :: "backup_crypto \<Rightarrow> bool" where
  \<comment> \<open>documented: what was encrypted decrypts\<close>
  "gcm_ok B = (\<forall>k iv p. bc_decrypt B k iv (bc_encrypt B k iv p) = Some p)"

definition gcm_authentic :: "backup_crypto \<Rightarrow> bool" where
  \<comment> \<open>documented: under another key the tag does not verify\<close>
  "gcm_authentic B = (\<forall>k k' iv p. k \<noteq> k' \<longrightarrow> bc_decrypt B k' iv (bc_encrypt B k iv p) = None)"

subsection \<open>Values as JSON\<close>

text \<open>Enumerations are strings.\<close>

definition enum_of :: "('a \<times> string) list \<Rightarrow> json option \<Rightarrow> 'a option" where
  "enum_of tags v = (case v of Some (JStr s) \<Rightarrow> map_of (map (\<lambda>(a, b). (b, a)) tags) s | _ \<Rightarrow> None)"

definition enum_json :: "('a \<times> string) list \<Rightarrow> 'a \<Rightarrow> json" where
  "enum_json tags a = JStr (or_default (map_of tags a) [])"

definition OUTBOUND_STATES :: "(outbound_state \<times> string) list" where
  "OUTBOUND_STATES = [(OQueued, ''queued''), (OSending, ''sending''), (ODelivered, ''delivered''), (OAcknowledged, ''acknowledged''), (OFailed, ''failed'')]"

definition TRANSFER_STATES :: "(transfer_state \<times> string) list" where
  "TRANSFER_STATES = [(XOffered, ''offered''), (XTransferring, ''transferring''), (XComplete, ''complete''), (XFailed, ''failed''),
     (XIntegrityFailed, ''integrity-failed'')]"

definition DIRECTIONS :: "(direction \<times> string) list" where
  "DIRECTIONS = [(DOut, ''out''), (DIn, ''in'')]"

definition KINDS :: "(message_kind \<times> string) list" where
  "KINDS = [(KText, ''text''), (KFile, ''file'')]"

definition PHASES :: "(migration_phase \<times> string) list" where
  "PHASES = [(Notifying, ''notifying''), (DualValidity, ''dual-validity''), (Retiring, ''retiring''), (Complete, ''complete'')]"

lemma enum_round_trip [simp]:
  "enum_of OUTBOUND_STATES (Some (enum_json OUTBOUND_STATES s1)) = Some s1" "enum_of TRANSFER_STATES (Some (enum_json TRANSFER_STATES s2)) = Some s2"
  "enum_of DIRECTIONS (Some (enum_json DIRECTIONS s3)) = Some s3" "enum_of KINDS (Some (enum_json KINDS s4)) = Some s4"
  "enum_of PHASES (Some (enum_json PHASES s5)) = Some s5"
  unfolding enum_of_def enum_json_def OUTBOUND_STATES_def TRANSFER_STATES_def DIRECTIONS_def KINDS_def PHASES_def
  by ((cases s1; simp), (cases s2; simp), (cases s3; simp), (cases s4; simp), (cases s5; simp))

lemma wf_enum [simp]: "wf_json (enum_json tags a)"
  by (simp add: enum_json_def)

text \<open>Objects with optional fields, and lists.\<close>

lemma jprop_obj_of:
  "distinct (map fst fs) \<Longrightarrow> jprop (obj_of fs) k = (case map_of fs k of Some v \<Rightarrow> v | None \<Rightarrow> None)"
proof (induction fs)
  case Nil
  then show ?case by (simp add: obj_of_def List.map_filter_simps)
next
  case (Cons p fs)
  obtain a v where p: "p = (a, v)" by (cases p)
  have "map_of fs a = None" using Cons.prems p by (simp add: map_of_eq_None_iff)
  then show ?case using Cons p by (cases v) (auto simp: obj_of_def List.map_filter_simps)
qed

lemma wf_obj_of:
  assumes "distinct (map fst fs)" "\<And>k v. (k, Some v) \<in> set fs \<Longrightarrow> wf_json v"
  shows "wf_json (obj_of fs)"
proof -
  have m: "set (map fst (List.map_filter (\<lambda>(k, v). map_option (Pair k) v) fs)) \<subseteq> set (map fst fs)"
    "(k, v) \<in> set (List.map_filter (\<lambda>(k, v). map_option (Pair k) v) fs) \<Longrightarrow> (k, Some v) \<in> set fs" for k v
    by (force simp: List.map_filter_def)+
  have "distinct (map fst (List.map_filter (\<lambda>(k, v). map_option (Pair k) v) fs))" using assms(1)
  proof (induction fs)
    case (Cons p fs)
    then show ?case by (cases p; cases "snd p") (force simp: List.map_filter_simps List.map_filter_def)+
  qed (simp add: List.map_filter_simps)
  then show ?thesis using m(2) assms(2) by (auto simp: obj_of_def)
qed

definition list_of :: "(json \<Rightarrow> 'a option) \<Rightarrow> json option \<Rightarrow> 'a list option" where
  "list_of f v = (case v of Some (JArr xs) \<Rightarrow> those (map f xs) | _ \<Rightarrow> None)"

lemma those_map: "(\<And>x. x \<in> set xs \<Longrightarrow> g (f x) = Some (h x)) \<Longrightarrow> those (map (\<lambda>x. g (f x)) xs) = Some (map h xs)"
  by (induction xs) auto

lemma list_round_trip: "(\<And>x. x \<in> set xs \<Longrightarrow> g (f x) = Some x) \<Longrightarrow> list_of g (Some (JArr (map f xs))) = Some xs"
  using those_map [of xs g f id] by (simp add: list_of_def comp_def)

definition str_of :: "json \<Rightarrow> string option" where
  "str_of j = jopt_str (Some j)"

lemma strs_round_trip [simp]: "list_of str_of (Some (strs_json xs)) = Some xs"
  unfolding strs_json_def by (rule list_round_trip) (simp add: str_of_def)

definition num_of :: "json option \<Rightarrow> rat option" where
  "num_of v = (case v of Some (JNum r) \<Rightarrow> Some r | _ \<Rightarrow> None)"

definition opt_of :: "(json option \<Rightarrow> 'a option) \<Rightarrow> json option \<Rightarrow> 'a option option" where
  \<comment> \<open>an optional field: missing, or a value of its type\<close>
  "opt_of f v = (case v of None \<Rightarrow> Some None | Some j \<Rightarrow> map_option Some (f (Some j)))"

lemma num_of_JNum [simp]: "num_of (Some (JNum r)) = Some r"
  by (simp add: num_of_def)

lemma opt_of_map [simp]: "(\<And>x. f (Some (g x)) = Some x) \<Longrightarrow> opt_of f (map_option g x) = Some x"
  by (cases x) (simp_all add: opt_of_def)

subsection \<open>The records\<close>

definition contact_json :: "contact \<Rightarrow> json" where
  "contact_json c = obj_of
     [(''identityKey'', Some (JStr (ct_identityKey c))), (''transportKey'', Some (JStr (ct_transportKey c))),
      (''binding'', Some (ct_binding c)), (''displayName'', Some (JStr (ct_displayName c))), (''relayOnly'', Some (JBool (ct_relayOnly c))),
      (''preferredBoards'', map_option strs_json (ct_preferredBoards c)), (''fallbackBoards'', map_option strs_json (ct_fallbackBoards c)),
      (''autoAcceptMigration'', map_option JBool (ct_autoAcceptMigration c)), (''addedUtc'', Some (JStr (ct_addedUtc c))),
      (''isLoopback'', if ct_isLoopback c then Some (JBool True) else None)]"

definition contact_of_json :: "json \<Rightarrow> contact option" where
  "contact_of_json j = (case (jopt_str (jprop j ''identityKey''), jopt_str (jprop j ''transportKey''), jprop j ''binding'',
        jopt_str (jprop j ''displayName''), jopt_bool (jprop j ''relayOnly''), opt_of (list_of str_of) (jprop j ''preferredBoards''),
        opt_of (list_of str_of) (jprop j ''fallbackBoards''), opt_of jopt_bool (jprop j ''autoAcceptMigration''), jopt_str (jprop j ''addedUtc'')) of
      (Some i, Some t, Some b, Some n, Some r, Some p, Some f, Some a, Some u) \<Rightarrow>
        Some \<lparr>ct_identityKey = i, ct_transportKey = t, ct_binding = b, ct_displayName = n, ct_relayOnly = r, ct_preferredBoards = p,
          ct_fallbackBoards = f, ct_autoAcceptMigration = a, ct_addedUtc = u, ct_isLoopback = (jprop j ''isLoopback'' = Some (JBool True))\<rparr>
    | _ \<Rightarrow> None)"

definition file_json :: "file_meta \<Rightarrow> json" where
  "file_json f = obj_of
     [(''fileId'', Some (JStr (fm_fileId f))), (''name'', Some (JStr (fm_name f))), (''size'', Some (JNum (fm_size f))),
      (''mime'', Some (JStr (fm_mime f))), (''sha256'', Some (JStr (fm_sha256 f))), (''chunkSize'', Some (JNum (fm_chunkSize f))),
      (''chunks'', Some (JNum (fm_chunks f))), (''path'', map_option JStr (fm_path f)), (''state'', Some (enum_json TRANSFER_STATES (fm_state f))),
      (''transferred'', Some (JNum (fm_transferred f)))]"

definition file_of_json :: "json option \<Rightarrow> file_meta option" where
  "file_of_json v = (case v of None \<Rightarrow> None | Some j \<Rightarrow>
     (case (jopt_str (jprop j ''fileId''), jopt_str (jprop j ''name''), num_of (jprop j ''size''), jopt_str (jprop j ''mime''),
        jopt_str (jprop j ''sha256''), num_of (jprop j ''chunkSize''), num_of (jprop j ''chunks''), opt_of jopt_str (jprop j ''path''),
        enum_of TRANSFER_STATES (jprop j ''state''), num_of (jprop j ''transferred'')) of
      (Some i, Some n, Some s, Some m, Some h, Some cs, Some c, Some p, Some st, Some t) \<Rightarrow>
        Some \<lparr>fm_fileId = i, fm_name = n, fm_size = s, fm_mime = m, fm_sha256 = h, fm_chunkSize = cs, fm_chunks = c, fm_path = p,
          fm_state = st, fm_transferred = t\<rparr>
    | _ \<Rightarrow> None))"

definition message_json :: "stored_message \<Rightarrow> json" where
  "message_json m = obj_of
     [(''id'', Some (JStr (sm_id m))), (''contactKey'', Some (JStr (sm_contactKey m))), (''direction'', Some (enum_json DIRECTIONS (sm_direction m))),
      (''kind'', Some (enum_json KINDS (sm_kind m))), (''ts'', Some (JNum (sm_ts m))), (''text'', map_option JStr (sm_text m)),
      (''file'', map_option file_json (sm_file m)), (''state'', Some (enum_json OUTBOUND_STATES (sm_state m)))]"

definition message_of_json :: "json \<Rightarrow> stored_message option" where
  "message_of_json j = (case (jopt_str (jprop j ''id''), jopt_str (jprop j ''contactKey''), enum_of DIRECTIONS (jprop j ''direction''),
        enum_of KINDS (jprop j ''kind''), num_of (jprop j ''ts''), opt_of jopt_str (jprop j ''text''), opt_of file_of_json (jprop j ''file''),
        enum_of OUTBOUND_STATES (jprop j ''state'')) of
      (Some i, Some k, Some d, Some kd, Some ts, Some t, Some f, Some st) \<Rightarrow>
        Some \<lparr>sm_id = i, sm_contactKey = k, sm_direction = d, sm_kind = kd, sm_ts = ts, sm_text = t, sm_file = f, sm_state = st\<rparr>
    | _ \<Rightarrow> None)"

definition pending_json :: "pending_message \<Rightarrow> json" where
  "pending_json m = JObj
     [(''recipientId'', JStr (pm_recipientId m)), (''recipientTransportKey'', JStr (pm_recipientTransportKey m)),
      (''messageId'', JStr (pm_messageId m)), (''timestamp'', JNum (pm_timestamp m)), (''attemptCount'', JNum (of_nat (pm_attemptCount m))),
      (''lastAttemptAt'', case pm_lastAttemptAt m of None \<Rightarrow> JNull | Some r \<Rightarrow> JNum r),
      (''payload'', case pm_payload m of PendingText t \<Rightarrow> JObj [(''kind'', JStr ''text''), (''text'', JStr t)])]"

definition pending_of_json :: "json \<Rightarrow> pending_message option" where
  "pending_of_json j = (case (jopt_str (jprop j ''recipientId''), jopt_str (jprop j ''recipientTransportKey''), jopt_str (jprop j ''messageId''),
        num_of (jprop j ''timestamp''), num_of (jprop j ''attemptCount''), jprop j ''lastAttemptAt'', jprop j ''payload'') of
      (Some r, Some k, Some i, Some ts, Some n, Some l, Some p) \<Rightarrow>
        (case jopt_str (jprop p ''text'') of
           Some t \<Rightarrow> Some \<lparr>pm_recipientId = r, pm_recipientTransportKey = k, pm_messageId = i, pm_timestamp = ts, pm_attemptCount = nat \<lfloor>n\<rfloor>,
             pm_lastAttemptAt = num_of (Some l), pm_payload = PendingText t\<rparr>
         | None \<Rightarrow> None)
    | _ \<Rightarrow> None)"

definition migration_json :: "migration_state \<Rightarrow> json" where
  "migration_json m = obj_of
     [(''phase'', Some (enum_json PHASES (mg_phase m))), (''oldIdentityKey'', Some (JStr (mg_oldIdentityKey m))),
      (''newIdentityKey'', Some (JStr (mg_newIdentityKey m))), (''migration'', Some (mg_migration m)),
      (''retireAfterUtc'', Some (JStr (mg_retireAfterUtc m))), (''issuedUtc'', Some (JStr (mg_issuedUtc m))),
      (''notifiedContacts'', Some (strs_json (mg_notifiedContacts m))), (''acknowledgedContacts'', Some (strs_json (mg_acknowledgedContacts m))),
      (''newStoredKeys'', map_option keys_json (mg_newStoredKeys m))]"

definition migration_of_json :: "json \<Rightarrow> migration_state option" where
  "migration_of_json j = (case (enum_of PHASES (jprop j ''phase''), jopt_str (jprop j ''oldIdentityKey''), jopt_str (jprop j ''newIdentityKey''),
        jprop j ''migration'', jopt_str (jprop j ''retireAfterUtc''), jopt_str (jprop j ''issuedUtc''),
        list_of str_of (jprop j ''notifiedContacts''), list_of str_of (jprop j ''acknowledgedContacts''),
        opt_of (\<lambda>v. Option.bind v keys_of_json) (jprop j ''newStoredKeys'')) of
      (Some ph, Some ok, Some nk, Some m, Some r, Some i, Some nc, Some ac, Some ks) \<Rightarrow>
        Some \<lparr>mg_phase = ph, mg_oldIdentityKey = ok, mg_newIdentityKey = nk, mg_migration = m, mg_retireAfterUtc = r, mg_issuedUtc = i,
          mg_notifiedContacts = nc, mg_acknowledgedContacts = ac, mg_newStoredKeys = ks\<rparr>
    | _ \<Rightarrow> None)"

lemma contact_round_trip [simp]: "contact_of_json (contact_json c) = Some c"
  by (simp add: contact_of_json_def contact_json_def jprop_obj_of)

lemma file_round_trip [simp]: "file_of_json (Some (file_json f)) = Some f"
  by (simp add: file_of_json_def file_json_def jprop_obj_of)

lemma message_round_trip [simp]: "message_of_json (message_json m) = Some m"
  by (simp add: message_of_json_def message_json_def jprop_obj_of)

lemma pending_round_trip [simp]: "pending_of_json (pending_json m) = Some m"
  by (cases m; cases "pm_lastAttemptAt m"; cases "pm_payload m") (simp_all add: pending_of_json_def pending_json_def num_of_def)

lemma migration_round_trip [simp]: "migration_of_json (migration_json m) = Some m"
  by (simp add: migration_of_json_def migration_json_def jprop_obj_of)

lemma some_map_option: "Some v = map_option g x \<longleftrightarrow> (\<exists>y. x = Some y \<and> v = g y)"
  by (cases x) auto

lemma wf_records [simp]:
  "wf_json (ct_binding c) \<Longrightarrow> wf_json (contact_json c)" "wf_json (file_json f)" "wf_json (message_json m)" "wf_json (pending_json p)"
  "wf_json (mg_migration g) \<Longrightarrow> wf_json (migration_json g)" "wf_json (keys_json k)"
proof -
  show f: "wf_json (file_json f)" for f unfolding file_json_def by (rule wf_obj_of) (auto simp: some_map_option)
  show "wf_json (ct_binding c) \<Longrightarrow> wf_json (contact_json c)" unfolding contact_json_def
    by (rule wf_obj_of) (auto simp: some_map_option split: if_splits)
  show "wf_json (message_json m)" unfolding message_json_def by (rule wf_obj_of) (auto simp: f some_map_option)
  show "wf_json (pending_json p)" by (simp add: pending_json_def split: option.split pending_payload.split)
  show k: "wf_json (keys_json k)" for k by (simp add: keys_json_def)
  show "wf_json (mg_migration g) \<Longrightarrow> wf_json (migration_json g)" unfolding migration_json_def
    by (rule wf_obj_of) (auto simp: k some_map_option)
qed

subsection \<open>The payload\<close>

record backup_payload =
  bp_identity :: stored_keys
  bp_contacts :: "contact list"
  bp_messages :: "(string, stored_message list) jmap"
  bp_pending :: "pending_message list"
  bp_settings :: json
  bp_migrationState :: "migration_state option"
  bp_blockedKeys :: "string list"

definition payload_json :: "backup_payload \<Rightarrow> json" where
  "payload_json p = JObj
     [(''identity'', keys_json (bp_identity p)), (''contacts'', JArr (map contact_json (bp_contacts p))),
      (''messages'', JObj (map (\<lambda>(k, ms). (k, JArr (map message_json ms))) (bp_messages p))),
      (''pending'', JArr (map pending_json (bp_pending p))), (''settings'', bp_settings p),
      (''migrationState'', case bp_migrationState p of None \<Rightarrow> JNull | Some m \<Rightarrow> migration_json m),
      (''blockedKeys'', strs_json (bp_blockedKeys p))]"

definition messages_of_json :: "json option \<Rightarrow> (string, stored_message list) jmap option" where
  "messages_of_json v = (case v of
       Some (JObj fs) \<Rightarrow> those (map (\<lambda>(k, j). map_option (Pair k) (list_of message_of_json (Some j))) fs)
     | _ \<Rightarrow> None)"

definition payload_of_json :: "json \<Rightarrow> backup_payload option" where
  "payload_of_json j = (case (Option.bind (jprop j ''identity'') keys_of_json, list_of contact_of_json (jprop j ''contacts''),
        messages_of_json (jprop j ''messages''), list_of pending_of_json (jprop j ''pending''), jprop j ''settings'',
        (if jprop j ''migrationState'' = Some JNull then Some None else map_option Some (Option.bind (jprop j ''migrationState'') migration_of_json)),
        list_of str_of (jprop j ''blockedKeys'')) of
      (Some i, Some c, Some m, Some p, Some s, Some g, Some b) \<Rightarrow>
        Some \<lparr>bp_identity = i, bp_contacts = c, bp_messages = m, bp_pending = p, bp_settings = s, bp_migrationState = g, bp_blockedKeys = b\<rparr>
    | _ \<Rightarrow> None)"

definition payload_ok :: "backup_payload \<Rightarrow> bool" where
  \<comment> \<open>the JSON it holds is well formed, and a conversation is listed once\<close>
  "payload_ok p = (jmap_ok (bp_messages p) \<and> (\<forall>c\<in>set (bp_contacts p). wf_json (ct_binding c)) \<and> wf_json (bp_settings p)
     \<and> (\<forall>m. bp_migrationState p = Some m \<longrightarrow> wf_json (mg_migration m)))"

lemma payload_round_trip: "payload_of_json (payload_json p) = Some p"
proof -
  have c: "list_of contact_of_json (Some (JArr (map contact_json xs))) = Some xs" for xs by (rule list_round_trip) simp
  have q: "list_of pending_of_json (Some (JArr (map pending_json xs))) = Some xs" for xs by (rule list_round_trip) simp
  have ms: "list_of message_of_json (Some (JArr (map message_json xs))) = Some xs" for xs by (rule list_round_trip) simp
  have m: "messages_of_json (Some (JObj (map (\<lambda>(k, ms). (k, JArr (map message_json ms))) fs))) = Some fs" for fs
    using those_map [of fs "\<lambda>(k, j). map_option (Pair k) (list_of message_of_json (Some j))" "\<lambda>(k, ms). (k, JArr (map message_json ms))" id] ms
    by (auto simp: messages_of_json_def comp_def case_prod_beta)
  have n: "migration_json g \<noteq> JNull" for g by (simp add: migration_json_def obj_of_def)
  show ?thesis by (cases "bp_migrationState p") (simp_all add: payload_of_json_def payload_json_def c q m n opt_of_def)
qed

lemma wf_backup: "payload_ok p \<Longrightarrow> wf_json (payload_json p)"
proof -
  assume ok: "payload_ok p"
  have "wf_json (JObj (map (\<lambda>(k, ms). (k, JArr (map message_json ms))) (bp_messages p)))"
    using ok by (auto simp: payload_ok_def jmap_ok_def comp_def case_prod_beta)
  then show ?thesis using ok by (simp add: payload_json_def payload_ok_def split: option.split del: wf_json.simps(2)) (auto simp: wf_json.simps(2))
qed

subsection \<open>The envelope\<close>

definition BACKUP_KIND :: string where
  "BACKUP_KIND = ''orpal-full-backup''"

definition BACKUP_VERSION :: rat where
  "BACKUP_VERSION = 1"

definition DEFAULT_PBKDF2_ITERATIONS :: rat where
  "DEFAULT_PBKDF2_ITERATIONS = 600000"

definition BACKUP_MIN_PASSWORD_LENGTH :: nat where
  "BACKUP_MIN_PASSWORD_LENGTH = 12"

record device_backup =
  db_exportedUtc :: string
  db_iterations :: rat
  db_salt :: string
  db_iv :: string
  db_sealed :: string

definition envelope_json :: "device_backup \<Rightarrow> json" where
  "envelope_json b = JObj
     [(''v'', JNum BACKUP_VERSION), (''kind'', JStr BACKUP_KIND), (''exportedUtc'', JStr (db_exportedUtc b)),
      (''kdf'', JObj [(''name'', JStr ''PBKDF2''), (''hash'', JStr ''SHA-256''), (''iterations'', JNum (db_iterations b))]),
      (''salt'', JStr (db_salt b)), (''iv'', JStr (db_iv b)), (''sealed'', JStr (db_sealed b))]"

definition deriveKey :: "backup_crypto \<Rightarrow> string \<Rightarrow> bytes \<Rightarrow> rat \<Rightarrow> bytes option" where
  "deriveKey B password salt iterations = bc_pbkdf2 B (utf8 password) salt iterations"

definition sealBackup :: "backup_crypto \<Rightarrow> json \<Rightarrow> string \<Rightarrow> rat option \<Rightarrow> bytes \<Rightarrow> bytes \<Rightarrow> string \<Rightarrow> device_backup option" where
  \<comment> \<open>the random salt and initialisation vector and the time are arguments; \<open>None\<close> is a throw\<close>
  "sealBackup B payload password iterations salt iv now =
     (if password = [] then None
      else let n = or_default iterations DEFAULT_PBKDF2_ITERATIONS
           in case deriveKey B password salt n of
                None \<Rightarrow> None
              | Some key \<Rightarrow> Some \<lparr>db_exportedUtc = now, db_iterations = n, db_salt = b64uEncode salt, db_iv = b64uEncode iv,
                  db_sealed = b64uEncode (bc_encrypt B key iv (utf8 (json_str payload)))\<rparr>)"

definition serializeBackup :: "backup_crypto \<Rightarrow> json \<Rightarrow> string \<Rightarrow> rat option \<Rightarrow> bytes \<Rightarrow> bytes \<Rightarrow> string \<Rightarrow> string option" where
  "serializeBackup B payload password iterations salt iv now =
     map_option (\<lambda>b. json_str (envelope_json b)) (sealBackup B payload password iterations salt iv now)"

definition falsy :: "json option \<Rightarrow> bool" where
  "falsy v = (case v of None \<Rightarrow> True | Some JNull \<Rightarrow> True | Some (JBool b) \<Rightarrow> \<not> b | Some (JNum r) \<Rightarrow> r = 0 | Some (JStr s) \<Rightarrow> s = [] | _ \<Rightarrow> False)"

definition parse_envelope :: "json \<Rightarrow> string + device_backup" where
  "parse_envelope o1 =
     (if \<not> is_obj o1 then Inl ''not-an-object''
      else if jprop o1 ''kind'' \<noteq> Some (JStr BACKUP_KIND) then Inl ''not-a-device-backup''
      else if jprop o1 ''v'' \<noteq> Some (JNum BACKUP_VERSION) then Inl ''unsupported-version''
      else if \<not> jis_str (jprop o1 ''salt'') \<or> \<not> jis_str (jprop o1 ''iv'') \<or> \<not> jis_str (jprop o1 ''sealed'') then Inl ''missing-crypto-fields''
      else let kdf = jprop o1 ''kdf''
           in if falsy kdf \<or> jprop (the kdf) ''name'' \<noteq> Some (JStr ''PBKDF2'') \<or> \<not> jis_num (jprop (the kdf) ''iterations'')
                  \<or> jnum (jprop (the kdf) ''iterations'') \<le> 0
              then Inl ''bad-kdf-params''
              else Inr \<lparr>db_exportedUtc = (if jis_str (jprop o1 ''exportedUtc'') then jstr (jprop o1 ''exportedUtc'') else ''''),
                db_iterations = jnum (jprop (the kdf) ''iterations''), db_salt = jstr (jprop o1 ''salt''), db_iv = jstr (jprop o1 ''iv''),
                db_sealed = jstr (jprop o1 ''sealed'')\<rparr>)"

text \<open>The input is the text of a file, or the parsed envelope.\<close>

definition parseBackupEnvelope :: "string + json \<Rightarrow> string + device_backup" where
  "parseBackupEnvelope input = (case input of
       Inl text \<Rightarrow> (case json_parse text of None \<Rightarrow> Inl ''not-valid-json'' | Some obj \<Rightarrow> parse_envelope obj)
     | Inr obj \<Rightarrow> parse_envelope obj)"

definition jis_arr :: "json option \<Rightarrow> bool" where
  "jis_arr v = (case v of Some (JArr _) \<Rightarrow> True | _ \<Rightarrow> False)"

definition looksLikePayload :: "json \<Rightarrow> bool" where
  "looksLikePayload p = (is_obj p \<and> jis_obj (jprop p ''identity'') \<and> jis_arr (jprop p ''contacts'') \<and> jis_obj (jprop p ''messages'')
     \<and> jis_arr (jprop p ''pending'') \<and> jis_arr (jprop p ''blockedKeys''))"

definition openBackup :: "backup_crypto \<Rightarrow> string + json \<Rightarrow> string \<Rightarrow> string + json" where
  "openBackup B input password =
     (case parseBackupEnvelope input of
        Inl reason \<Rightarrow> Inl reason
      | Inr env \<Rightarrow>
          if password = [] then Inl ''password-required''
          else (case Option.bind (deriveKey B password (b64uDecode (db_salt env)) (db_iterations env))
                    (\<lambda>key. bc_decrypt B key (b64uDecode (db_iv env)) (b64uDecode (db_sealed env))) of
                 None \<Rightarrow> Inl ''bad-password-or-corrupt''
               | Some plaintext \<Rightarrow> (case json_parse (fromUtf8 plaintext) of
                   None \<Rightarrow> Inl ''decrypted-not-json''
                 | Some payload \<Rightarrow> if looksLikePayload payload then Inr payload else Inl ''not-a-backup-payload'')))"

record backup_summary =
  bs_exportedUtc :: string
  bs_identityKey :: "string option"
  bs_contacts :: nat
  bs_messages :: nat
  bs_pending :: nat
  bs_hasMigration :: bool
  bs_blocked :: nat

definition summarizeBackup :: "backup_payload \<Rightarrow> string option \<Rightarrow> backup_summary" where
  "summarizeBackup p identityKey = \<lparr>bs_exportedUtc = '''', bs_identityKey = identityKey, bs_contacts = length (bp_contacts p),
     bs_messages = foldl (\<lambda>n ms. n + length ms) 0 (jvals (bp_messages p)), bs_pending = length (bp_pending p),
     bs_hasMigration = (bp_migrationState p \<noteq> None), bs_blocked = length (bp_blockedKeys p)\<rparr>"

definition validateBackupPassword :: "string \<Rightarrow> string option" where
  \<comment> \<open>for a password in ASCII, where a character is a code unit\<close>
  "validateBackupPassword password = (if length password < BACKUP_MIN_PASSWORD_LENGTH
     then Some (''Use at least '' @ show_nat BACKUP_MIN_PASSWORD_LENGTH @ '' characters. This password is the only thing protecting your private key.'')
     else None)"

subsection \<open>What a backup keeps\<close>

lemma parse_envelope_json: "0 < db_iterations b \<Longrightarrow> parseBackupEnvelope (Inl (json_str (envelope_json b))) = Inr b"
proof -
  assume n: "0 < db_iterations b"
  have "json_parse (json_str (envelope_json b)) = Some (envelope_json b)" by (simp add: envelope_json_def)
  then show ?thesis using n
    by (simp add: parseBackupEnvelope_def parse_envelope_def envelope_json_def is_obj_def falsy_def BACKUP_VERSION_def Let_def)
qed

lemma payload_looks: "looksLikePayload (payload_json p)"
  by (simp add: looksLikePayload_def payload_json_def is_obj_def jis_arr_def strs_json_def keys_json_def)

lemma open_serialized:
  assumes s: "serializeBackup B payload password iterations salt iv now = Some text" and n: "0 < or_default iterations DEFAULT_PBKDF2_ITERATIONS"
  obtains key where "deriveKey B password salt (or_default iterations DEFAULT_PBKDF2_ITERATIONS) = Some key" "password \<noteq> []"
    "\<And>pw. pw \<noteq> [] \<Longrightarrow> openBackup B (Inl text) pw =
      (case Option.bind (deriveKey B pw salt (or_default iterations DEFAULT_PBKDF2_ITERATIONS))
          (\<lambda>k. bc_decrypt B k iv (bc_encrypt B key iv (utf8 (json_str payload)))) of
         None \<Rightarrow> Inl ''bad-password-or-corrupt''
       | Some plaintext \<Rightarrow> (case json_parse (fromUtf8 plaintext) of
           None \<Rightarrow> Inl ''decrypted-not-json''
         | Some p \<Rightarrow> if looksLikePayload p then Inr p else Inl ''not-a-backup-payload''))"
proof -
  let ?n = "or_default iterations DEFAULT_PBKDF2_ITERATIONS"
  obtain b where b: "sealBackup B payload password iterations salt iv now = Some b" "text = json_str (envelope_json b)"
    using s by (auto simp: serializeBackup_def)
  obtain key where k: "password \<noteq> []" "deriveKey B password salt ?n = Some key"
    "b = \<lparr>db_exportedUtc = now, db_iterations = ?n, db_salt = b64uEncode salt, db_iv = b64uEncode iv,
       db_sealed = b64uEncode (bc_encrypt B key iv (utf8 (json_str payload)))\<rparr>"
    using b(1) by (auto simp: sealBackup_def Let_def split: if_splits option.splits)
  have "parseBackupEnvelope (Inl text) = Inr b" using parse_envelope_json [of b] n by (simp add: b(2) k(3))
  then show thesis using k by (intro that [of key]) (auto simp: openBackup_def)
qed

lemma backup_opens:
  assumes "gcm_ok B" "payload_ok p" "serializeBackup B (payload_json p) password iterations salt iv now = Some text"
    and "0 < or_default iterations DEFAULT_PBKDF2_ITERATIONS"
  shows "openBackup B (Inl text) password = Inr (payload_json p)"
  by (rule open_serialized [OF assms(3,4)])
    (use assms(1) wf_backup [OF assms(2)] payload_looks in \<open>simp add: gcm_ok_def\<close>)

lemma backup_sealed:
  assumes "gcm_authentic B" "serializeBackup B payload password iterations salt iv now = Some text" "pw \<noteq> []"
    and "0 < or_default iterations DEFAULT_PBKDF2_ITERATIONS"
    and "deriveKey B pw salt (or_default iterations DEFAULT_PBKDF2_ITERATIONS) \<noteq> deriveKey B password salt (or_default iterations DEFAULT_PBKDF2_ITERATIONS)"
  shows "openBackup B (Inl text) pw = Inl ''bad-password-or-corrupt''"
  by (rule open_serialized [OF assms(2,4)])
    (use assms(1,3,5) in \<open>auto simp: gcm_authentic_def split: Option.bind_splits\<close>)

text \<open>What comes out of a file is well formed, whoever wrote it.\<close>

lemma those_mem: "those (map f xs) = Some ys \<Longrightarrow> y \<in> set ys \<Longrightarrow> \<exists>x\<in>set xs. f x = Some y"
  by (induction xs arbitrary: ys) (auto split: option.splits)

lemma opened_bindings_wf:
  assumes "openBackup B input pw = Inr j" "payload_of_json j = Some p" "c \<in> set (bp_contacts p)"
  shows "wf_json (ct_binding c)"
proof -
  obtain plain where "json_parse plain = Some j" using assms(1)
    by (auto simp: openBackup_def split: sum.splits option.splits if_splits)
  then have wf: "wf_json j" by (rule json_parse_wf)
  obtain cs where cs: "list_of contact_of_json (jprop j ''contacts'') = Some cs" "c \<in> set cs"
    using assms(2,3) by (auto simp: payload_of_json_def split: option.splits)
  obtain xs where xs: "jprop j ''contacts'' = Some (JArr xs)" "those (map contact_of_json xs) = Some cs"
    using cs(1) by (auto simp: list_of_def split: option.splits json.splits)
  obtain x where x: "x \<in> set xs" "contact_of_json x = Some c" using those_mem [OF xs(2) cs(2)] by blast
  have "wf_json x" using wf_jprop [OF wf xs(1)] x(1) by simp
  moreover have "jprop x ''binding'' = Some (ct_binding c)" using x(2) by (auto simp: contact_of_json_def split: option.splits)
  ultimately show ?thesis by (rule wf_jprop)
qed

end
