(* ===== verification/ClientBackup.thy ===== *)
theory ClientBackup
  imports DeviceBackup ClientInvariant
begin

text \<open>
  Backup and restore in \<open>packages/orpal-core/src/messaging/orpal-client.ts\<close>. The key stores and the migration
  store are given together or not at all, as \<open>setup.ts\<close> does. The rows of the send queue are those of the
  worker's store while the client runs, and an argument before. A restored backup brings in certified
  contacts only, and a backup restored in place of everything else brings back all that was saved.
\<close>

subsection \<open>Export\<close>

definition queue_rows :: "'q \<Rightarrow> ('s, 'q, 'w, 'k) orpal \<Rightarrow> 'q" where
  "queue_rows queue c = (case oc_worker c of Some w \<Rightarrow> dw_store w | None \<Rightarrow> queue)"

definition group_messages :: "stored_message list \<Rightarrow> (string, stored_message list) jmap" where
  "group_messages ms = fold (\<lambda>m acc. jset (sm_contactKey m) (or_default (jget acc (sm_contactKey m)) [] @ [m]) acc) ms []"

definition export_migration ::
  "('s, 'q, 'w, 'k) client_deps \<Rightarrow> 'w \<Rightarrow> (string + migration_state option) \<times> 'w" where
  \<comment> \<open>the state of a migration in flight, with its pending keys\<close>
  "export_migration d w =
     (case sl_load (dp_mstore d) w of
        Inl err \<Rightarrow> (Inl err, w)
      | Inr None \<Rightarrow> (Inr None, w)
      | Inr (Some m) \<Rightarrow>
          if mg_phase m = Complete then (Inr (Some m), w)
          else (case ks_load (dp_pending d) w of
              (Inl err, w1) \<Rightarrow> (Inl err, w1)
            | (Inr None, w1) \<Rightarrow> (Inr (Some m), w1)
            | (Inr (Some keys), w1) \<Rightarrow> (Inr (Some (m\<lparr>mg_newStoredKeys := Some keys\<rparr>)), w1)))"

definition export_payload ::
  "('s, 'q, 'w, 'k) client_deps \<Rightarrow> json \<Rightarrow> 'q \<Rightarrow> ('s, 'q, 'w, 'k) orpal \<Rightarrow> (string + backup_payload) \<times> ('s, 'q, 'w, 'k) orpal" where
  "export_payload d settings queue c =
     (if \<not> dp_migrates d then (Inl ''Backup requires a keyStore to read the identity from.'', c)
      else (case ks_load (dp_main d) (oc_world c) of
          (Inl err, w1) \<Rightarrow> (Inl err, c\<lparr>oc_world := w1\<rparr>)
        | (Inr None, w1) \<Rightarrow> (Inl ''No identity is stored on this device to back up.'', c\<lparr>oc_world := w1\<rparr>)
        | (Inr (Some identity), w1) \<Rightarrow>
            (case export_migration d w1 of
               (Inl err, w2) \<Rightarrow> (Inl err, c\<lparr>oc_world := w2\<rparr>)
             | (Inr migration, w2) \<Rightarrow> (Inr
                 \<lparr>bp_identity = identity, bp_contacts = cv_listContacts (dp_store d) (oc_store c),
                  bp_messages = group_messages (cv_listAllMessages (dp_store d) (oc_store c)),
                  bp_pending = (case dp_queue d of Some Q \<Rightarrow> ps_list Q (queue_rows queue c) | None \<Rightarrow> []),
                  bp_settings = settings, bp_migrationState = migration, bp_blockedKeys = oc_blockedKeys c\<rparr>, c\<lparr>oc_world := w2\<rparr>))))"

definition exportBackup ::
  "('s, 'q, 'w, 'k) client_deps \<Rightarrow> backup_crypto \<Rightarrow> string \<Rightarrow> json \<Rightarrow> bytes \<Rightarrow> bytes \<Rightarrow> string \<Rightarrow> 'q \<Rightarrow> ('s, 'q, 'w, 'k) orpal
    \<Rightarrow> (string + string) \<times> ('s, 'q, 'w, 'k) orpal" where
  "exportBackup d B password settings salt iv now queue c =
     (case export_payload d settings queue c of
        (Inl err, c1) \<Rightarrow> (Inl err, c1)
      | (Inr payload, c1) \<Rightarrow> (case serializeBackup B (payload_json payload) password None salt iv now of
          None \<Rightarrow> (Inl ''backup: a password is required to seal a backup'', c1)
        | Some text \<Rightarrow> (Inr text, c1)))"

subsection \<open>Reading a backup\<close>

definition identity_in :: "crypto \<Rightarrow> stored_keys \<Rightarrow> string option" where
  \<comment> \<open>the curves take private keys of 32 bytes, and throw otherwise\<close>
  "identity_in C keys = (if length (b64uDecode (sk_signingPrivB64u keys)) = 32 \<and> length (b64uDecode (sk_transportPrivB64u keys)) = 32
     then Some (identityKeyB64 (fromStored C keys)) else None)"

record backup_open_result =
  bo_summary :: backup_summary
  bo_identityConflict :: bool
  bo_payload :: backup_payload

definition readBackup ::
  "('s, 'q, 'w, 'k) client_deps \<Rightarrow> backup_crypto \<Rightarrow> string + json \<Rightarrow> string \<Rightarrow> ('s, 'q, 'w, 'k) orpal \<Rightarrow> string + backup_open_result option" where
  \<comment> \<open>\<open>None\<close> for a payload without the fields of its type, which the program does not check\<close>
  "readBackup d B input password c =
     (case openBackup B input password of
        Inl reason \<Rightarrow> Inl reason
      | Inr j \<Rightarrow> Inr (case payload_of_json j of
          None \<Rightarrow> None
        | Some payload \<Rightarrow>
            (let key = identity_in (dp_crypto d) (bp_identity payload); summary = summarizeBackup payload key;
                 summary1 = (case parseBackupEnvelope input of Inr env \<Rightarrow> summary\<lparr>bs_exportedUtc := db_exportedUtc env\<rparr> | Inl _ \<Rightarrow> summary)
             in Some \<lparr>bo_summary = summary1, bo_identityConflict = (key \<noteq> None \<and> key \<noteq> Some (identityKey c)), bo_payload = payload\<rparr>)))"

subsection \<open>Restore\<close>

record restore_result =
  rr_replace :: bool
  rr_identityImported :: bool
  rr_identityConflict :: bool
  rr_contactsImported :: nat
  rr_contactsSkipped :: nat
  rr_contactsRejected :: nat
  rr_messagesImported :: nat
  rr_messagesSkipped :: nat
  rr_pendingImported :: nat
  rr_migrationRestored :: bool
  rr_blockedKeys :: "string list"
  rr_settings :: json
  rr_restartRequired :: bool

definition restore_wipe :: "('s, 'q, 'w, 'k) client_deps \<Rightarrow> 'q \<Rightarrow> ('s, 'q, 'w, 'k) orpal \<Rightarrow> string option \<times> 'q \<times> ('s, 'q, 'w, 'k) orpal" where
  \<comment> \<open>the mode \<open>replace\<close> empties the stores first\<close>
  "restore_wipe d queue c =
     (let c1 = c\<lparr>oc_store := cv_clear (dp_store d) (oc_store c), oc_contacts := cr_clear (oc_contacts c)\<rparr>;
          (q1, c2) = (case (dp_queue d, oc_worker c1) of
              (None, _) \<Rightarrow> (queue, c1)
            | (Some Q, Some w) \<Rightarrow> (queue, c1\<lparr>oc_worker := Some (w\<lparr>dw_store := ps_clear Q (dw_store w)\<rparr>)\<rparr>)
            | (Some Q, None) \<Rightarrow> (ps_clear Q queue, c1))
      in if \<not> dp_migrates d then (None, q1, c2)
         else (case sl_clear (dp_mstore d) (oc_world c2) of (r, w1) \<Rightarrow> (r, q1, c2\<lparr>oc_world := w1\<rparr>)))"

definition contact_card_text :: "contact \<Rightarrow> string" where
  "contact_card_text c = json_str (JObj
     [(''v'', JNum 1), (''kind'', JStr ''orpal-contact''), (''identity_key'', JStr (ct_identityKey c)),
      (''transport_key'', JStr (ct_transportKey c)), (''binding'', ct_binding c), (''name'', JStr (ct_displayName c))])"

definition restore_contact ::
  "('s, 'q, 'w, 'k) client_deps \<Rightarrow> bool \<Rightarrow> contact \<Rightarrow> string list \<times> restore_result \<times> ('s, 'q, 'w, 'k) orpal
    \<Rightarrow> string list \<times> restore_result \<times> ('s, 'q, 'w, 'k) orpal" where
  "restore_contact d replace x st = (case st of (existing, r, c) \<Rightarrow>
     (case parseContactCard (dp_crypto d) (contact_card_text x) of
        Inl _ \<Rightarrow> (existing, r\<lparr>rr_contactsRejected := rr_contactsRejected r + 1\<rparr>, c)
      | Inr _ \<Rightarrow>
          if \<not> replace \<and> ct_identityKey x \<in> set existing then (existing, r\<lparr>rr_contactsSkipped := rr_contactsSkipped r + 1\<rparr>, c)
          else (set_add (ct_identityKey x) existing, r\<lparr>rr_contactsImported := rr_contactsImported r + 1\<rparr>, registerContact (dp_store d) x c)))"

definition restore_message ::
  "('s, 'q, 'w, 'k) client_deps \<Rightarrow> bool \<Rightarrow> stored_message \<Rightarrow> restore_result \<times> ('s, 'q, 'w, 'k) orpal \<Rightarrow> restore_result \<times> ('s, 'q, 'w, 'k) orpal" where
  "restore_message d replace m st = (case st of (r, c) \<Rightarrow>
     if \<not> replace \<and> cv_getMessage (dp_store d) (sm_id m) (oc_store c) \<noteq> None then (r\<lparr>rr_messagesSkipped := rr_messagesSkipped r + 1\<rparr>, c)
     else (r\<lparr>rr_messagesImported := rr_messagesImported r + 1\<rparr>, c\<lparr>oc_store := cv_appendMessage (dp_store d) m (oc_store c)\<rparr>))"

definition restore_pending ::
  "('s, 'q, 'w, 'k) client_deps \<Rightarrow> bool \<Rightarrow> pending_message \<Rightarrow> restore_result \<times> 'q \<times> ('s, 'q, 'w, 'k) orpal
    \<Rightarrow> restore_result \<times> 'q \<times> ('s, 'q, 'w, 'k) orpal" where
  "restore_pending d replace m st = (case st of (r, queue, c) \<Rightarrow>
     (let r1 = r\<lparr>rr_pendingImported := rr_pendingImported r + 1\<rparr>
      in case dp_queue d of
           None \<Rightarrow> (r1, queue, c)
         | Some Q \<Rightarrow>
             if \<not> replace \<and> ps_get Q (pm_messageId m) (queue_rows queue c) \<noteq> None then (r, queue, c)
             else (case oc_worker c of
                 Some w \<Rightarrow> (r1, queue, c\<lparr>oc_worker := Some (dw_enqueue Q m w)\<rparr>)
               | None \<Rightarrow> (r1, ps_enqueue Q m queue, c))))"

definition restore_state ::
  "('s, 'q, 'w, 'k) client_deps \<Rightarrow> backup_payload \<Rightarrow> ('s, 'q, 'w, 'k) orpal \<Rightarrow> (string + bool) \<times> ('s, 'q, 'w, 'k) orpal" where
  \<comment> \<open>whether a migration was restored\<close>
  "restore_state d payload c =
     (case bp_migrationState payload of
        None \<Rightarrow> (Inr False, c)
      | Some m \<Rightarrow>
          if \<not> dp_migrates d then (Inr False, c)
          else (case sl_save (dp_mstore d) m (oc_world c) of
              (Some err, w1) \<Rightarrow> (Inl err, c\<lparr>oc_world := w1\<rparr>)
            | (None, w1) \<Rightarrow> (Inr True, c\<lparr>oc_world := w1\<rparr>)))"

definition restore_identity ::
  "('s, 'q, 'w, 'k) client_deps \<Rightarrow> stored_keys \<Rightarrow> ('s, 'q, 'w, 'k) orpal \<Rightarrow> string option \<times> ('s, 'q, 'w, 'k) orpal" where
  "restore_identity d keys c =
     (case ks_clear (dp_main d) (oc_world c) of
        (Some err, w1) \<Rightarrow> (Some err, c\<lparr>oc_world := w1\<rparr>)
      | (None, w1) \<Rightarrow> (case ks_save (dp_main d) keys w1 of (r, w2) \<Rightarrow> (r, c\<lparr>oc_world := w2\<rparr>)))"

text \<open>The data, then the block list, then the identity.\<close>

definition restore_data ::
  "('s, 'q, 'w, 'k) client_deps \<Rightarrow> backup_payload \<Rightarrow> bool \<Rightarrow> restore_result \<Rightarrow> 'q \<Rightarrow> ('s, 'q, 'w, 'k) orpal
    \<Rightarrow> restore_result \<times> 'q \<times> ('s, 'q, 'w, 'k) orpal" where
  "restore_data d payload replace r queue c =
     (let existing = map ct_identityKey (cv_listContacts (dp_store d) (oc_store c));
          (_, r1, c1) = fold (restore_contact d replace) (bp_contacts payload) (existing, r, c);
          (r2, c2) = fold (restore_message d replace) (concat (jvals (bp_messages payload))) (r1, c1)
      in fold (restore_pending d replace) (bp_pending payload) (r2, queue, c2))"

definition fresh_result :: "('s, 'q, 'w, 'k) client_deps \<Rightarrow> backup_payload \<Rightarrow> bool \<Rightarrow> ('s, 'q, 'w, 'k) orpal \<Rightarrow> restore_result" where
  "fresh_result d payload replace c =
     (let key = identity_in (dp_crypto d) (bp_identity payload)
      in \<lparr>rr_replace = replace, rr_identityImported = False, rr_identityConflict = (key \<noteq> None \<and> key \<noteq> Some (identityKey c)),
        rr_contactsImported = 0, rr_contactsSkipped = 0, rr_contactsRejected = 0, rr_messagesImported = 0, rr_messagesSkipped = 0,
        rr_pendingImported = 0, rr_migrationRestored = False, rr_blockedKeys = [], rr_settings = bp_settings payload,
        rr_restartRequired = False\<rparr>)"

definition restore_rest ::
  "('s, 'q, 'w, 'k) client_deps \<Rightarrow> backup_payload \<Rightarrow> bool \<Rightarrow> restore_result \<Rightarrow> ('s, 'q, 'w, 'k) orpal
    \<Rightarrow> (string + restore_result) \<times> ('s, 'q, 'w, 'k) orpal" where
  \<comment> \<open>the migration, the block list and the identity\<close>
  "restore_rest d payload importIdentity r c =
     (case restore_state d payload c of
        (Inl err, c1) \<Rightarrow> (Inl err, c1)
      | (Inr restored, c1) \<Rightarrow>
          (let blocked = set_of (if rr_replace r then bp_blockedKeys payload else oc_blockedKeys c1 @ bp_blockedKeys payload);
               c2 = setBlockedKeys blocked c1;
               r1 = r\<lparr>rr_migrationRestored := restored, rr_blockedKeys := blocked\<rparr>
           in if \<not> (importIdentity \<and> dp_migrates d) then (Inr r1, c2)
              else (case restore_identity d (bp_identity payload) c2 of
                  (Some err, c3) \<Rightarrow> (Inl err, c3)
                | (None, c3) \<Rightarrow> (Inr (r1\<lparr>rr_identityImported := True, rr_restartRequired := True\<rparr>), c3))))"

definition restoreBackup ::
  "('s, 'q, 'w, 'k) client_deps \<Rightarrow> backup_payload \<Rightarrow> bool \<Rightarrow> bool \<Rightarrow> 'q \<Rightarrow> ('s, 'q, 'w, 'k) orpal
    \<Rightarrow> (string + restore_result) \<times> 'q \<times> ('s, 'q, 'w, 'k) orpal" where
  "restoreBackup d payload replace importIdentity queue c =
     (case (if replace then restore_wipe d queue c else (None, queue, c)) of
        (Some err, q1, c1) \<Rightarrow> (Inl err, q1, c1)
      | (None, q1, c1) \<Rightarrow> (case restore_data d payload replace (fresh_result d payload replace c) q1 c1 of
          (r2, q2, c2) \<Rightarrow> (case restore_rest d payload importIdentity r2 c2 of (res, c3) \<Rightarrow> (res, q2, c3))))"

subsection \<open>Certified contacts only\<close>

lemma card_text_checks:
  assumes "wf_json (ct_binding x)"
  shows "(\<exists>cd. parseContactCard C (contact_card_text x) = Inr cd) \<longleftrightarrow> is_obj (ct_binding x) \<and> contact_bound C x"
proof -
  let ?j = "JObj [(''v'', JNum 1), (''kind'', JStr ''orpal-contact''), (''identity_key'', JStr (ct_identityKey x)),
      (''transport_key'', JStr (ct_transportKey x)), (''binding'', ct_binding x), (''name'', JStr (ct_displayName x))]"
  have "json_parse (contact_card_text x) = Some ?j" using assms by (simp add: contact_card_text_def)
  then show ?thesis using assms by (auto simp: parseContactCard_def is_obj_def [of "JObj _"] contact_bound_def Let_def split: if_splits)
qed

lemma block_commutes:
  "(setBlockedKeys keys c)\<lparr>oc_worker := x\<rparr> = setBlockedKeys keys (c\<lparr>oc_worker := x\<rparr>)"
  "setBlockedKeys keys (c\<lparr>oc_world := y\<rparr>) = (setBlockedKeys keys c)\<lparr>oc_world := y\<rparr>"
proof -
  have b: "(block_one k c)\<lparr>oc_worker := x\<rparr> = block_one k (c\<lparr>oc_worker := x\<rparr>)" "block_one k (c\<lparr>oc_world := y\<rparr>) = (block_one k c)\<lparr>oc_world := y\<rparr>"
    for k and c :: "('s, 'q, 'w, 'k) orpal" and x y by (cases c; simp add: block_one_def)+
  have f: "(fold block_one ks c)\<lparr>oc_worker := x\<rparr> = fold block_one ks (c\<lparr>oc_worker := x\<rparr>)"
      "fold block_one ks (c\<lparr>oc_world := y\<rparr>) = (fold block_one ks c)\<lparr>oc_world := y\<rparr>" for ks and c :: "('s, 'q, 'w, 'k) orpal" and x y
    by (induction ks arbitrary: c) (simp_all add: b)
  have o: "(c\<lparr>oc_blockedKeys := k\<rparr>)\<lparr>oc_worker := x\<rparr> = (c\<lparr>oc_worker := x\<rparr>)\<lparr>oc_blockedKeys := k\<rparr>"
    "(c\<lparr>oc_world := y\<rparr>)\<lparr>oc_blockedKeys := k\<rparr> = (c\<lparr>oc_blockedKeys := k\<rparr>)\<lparr>oc_world := y\<rparr>" for k by (cases c; simp)+
  show "(setBlockedKeys keys c)\<lparr>oc_worker := x\<rparr> = setBlockedKeys keys (c\<lparr>oc_worker := x\<rparr>)"
    by (simp add: setBlockedKeys_def Let_def f(1) o(1))
  show "setBlockedKeys keys (c\<lparr>oc_world := y\<rparr>) = (setBlockedKeys keys c)\<lparr>oc_world := y\<rparr>"
    by (simp add: setBlockedKeys_def Let_def o(2) f(2))
qed

lemma world_worker: "(c\<lparr>oc_world := w\<rparr>)\<lparr>oc_worker := x\<rparr> = (c\<lparr>oc_worker := x\<rparr>)\<lparr>oc_world := w\<rparr>"
  by (cases c) simp

lemma restore_world:
  "restore_state d p c = (r, c1) \<Longrightarrow> \<exists>w. c1 = c\<lparr>oc_world := w\<rparr>" "restore_identity d k c = (r2, c1) \<Longrightarrow> \<exists>w. c1 = c\<lparr>oc_world := w\<rparr>"
  by (auto simp: restore_state_def restore_identity_def split: option.splits prod.splits if_splits)
    (metis orpal.surjective orpal.update_convs(4))+

lemma restore_rest_changes:
  assumes "restore_rest d p imp r c = (res, c1)"
  shows "\<exists>keys w. c1 = c\<lparr>oc_world := w\<rparr> \<or> c1 = (setBlockedKeys keys c)\<lparr>oc_world := w\<rparr>"
proof -
  obtain r3 c3 where 3: "restore_state d p c = (r3, c3)" by fastforce
  obtain w3 where w3: "c3 = c\<lparr>oc_world := w3\<rparr>" using restore_world(1) [OF 3] by blast
  define keys where "keys = set_of (if rr_replace r then bp_blockedKeys p else oc_blockedKeys c3 @ bp_blockedKeys p)"
  have c4: "setBlockedKeys keys c3 = (setBlockedKeys keys c)\<lparr>oc_world := w3\<rparr>" by (simp add: w3 block_commutes(2))
  obtain r5 c5 where 5: "restore_identity d (bp_identity p) (setBlockedKeys keys c3) = (r5, c5)" by fastforce
  obtain w5 where w5: "c5 = (setBlockedKeys keys c3)\<lparr>oc_world := w5\<rparr>" using restore_world(2) [OF 5] by blast
  have "c1 = c3 \<or> c1 = setBlockedKeys keys c3 \<or> c1 = c5"
    using assms 3 5 by (auto simp: restore_rest_def keys_def [symmetric] Let_def split: sum.splits if_splits option.splits)
  then show ?thesis using w3 c4 w5 by auto
qed

context client_stores
begin

lemma restore_contacts_ok:
  assumes "client_ok d c" "\<And>x. x \<in> set xs \<Longrightarrow> wf_json (ct_binding x)"
  shows "client_ok d (snd (snd (fold (restore_contact d replace) xs (existing, r, c))))"
  using assms
proof (induction xs arbitrary: existing r c)
  case (Cons x xs)
  have "client_ok d (registerContact S x c)" if "parseContactCard (dp_crypto d) (contact_card_text x) = Inr cd" for cd
    using that card_text_checks [of x "dp_crypto d"] Cons.prems by (auto intro: ok_register)
  then have "client_ok d (snd (snd (restore_contact d replace x (existing, r, c))))"
    using Cons.prems(1) by (simp add: restore_contact_def ok_S [OF Cons.prems(1)] split: sum.split)
  moreover obtain e1 r1 c1 where "restore_contact d replace x (existing, r, c) = (e1, r1, c1)" by (metis prod.collapse)
  ultimately show ?case using Cons.IH [of c1 e1 r1] Cons.prems(2) by simp
qed simp

lemma restore_messages_ok:
  "client_ok d c \<Longrightarrow> client_ok d (snd (fold (restore_message d replace) ms (r, c)))"
proof (induction ms arbitrary: r c)
  case (Cons m ms)
  have "talks c (c\<lparr>oc_store := cv_appendMessage S m (oc_store c)\<rparr>)" by (rule talks_store)
  then have "client_ok d (snd (restore_message d replace m (r, c)))"
    using Cons.prems talks_ok by (auto simp: restore_message_def ok_S [OF Cons.prems])
  moreover obtain r1 c1 where "restore_message d replace m (r, c) = (r1, c1)" by fastforce
  ultimately show ?case using Cons.IH [of c1 r1] by simp
qed simp

lemma ok_world [simp]: "client_ok d (c\<lparr>oc_world := w\<rparr>) = client_ok d c"
  by (simp add: client_ok_defs identityKey_def)

text \<open>Everything the invariant says but what the worker holds.\<close>

lemma ok_no_worker: "client_ok d c \<Longrightarrow> client_ok d (c\<lparr>oc_worker := None\<rparr>)"
  by (rule ok_worker) simp_all

lemma client_ok_worker: "client_ok d c \<Longrightarrow> oc_worker c = Some w \<Longrightarrow> dp_queue d = Some Q \<and> worker_ok (dp_crypto d) w"
  by (simp add: client_ok_def sending_def)

lemma worker_ok_wiped:
  assumes "worker_ok C w"
  shows "worker_ok C (w\<lparr>dw_store := ps_clear Q (dw_store w)\<rparr>)"
proof -
  obtain s0 where s0: "queue.dw_content s0 w" "\<forall>k a. ps_get Q k s0 = Some a \<longrightarrow> pinned_message C a" "\<forall>a\<in>set (dw_enqueued w). pinned_message C a"
    using assms unfolding worker_ok_def by blast
  then have "qok (dw_store w)" by (simp add: queue.dw_content_def Let_def)
  then have "queue.dw_content s0 (w\<lparr>dw_store := ps_clear Q (dw_store w)\<rparr>)"
    using s0(1) by (simp add: queue.dw_content_def Let_def queue.get_clear queue.ok_ops)
  then show ?thesis using s0(2,3) unfolding worker_ok_def by (intro exI [of _ s0]) simp
qed

lemma wipe_ok:
  assumes ok: "client_ok d c" and w: "restore_wipe d q c = (r, q1, c1)"
  shows "client_ok d c1"
proof -
  have S: "dp_store d = S" by (rule ok_S [OF ok])
  have s: "sok (oc_store c)" using client_ok_parts(1) [OF ok] by (simp add: routing_def)
  let ?c1 = "c\<lparr>oc_store := cv_clear S (oc_store c), oc_contacts := []\<rparr>"
  have "routing (dp_crypto d) (cv_clear S (oc_store c)) [] (oc_started c)" using s by (simp add: routing_def store.gets)
  then have 1: "client_ok d ?c1" using ok by (simp add: client_ok_def identityKey_def)
  have 2: "client_ok d (?c1\<lparr>oc_worker := Some (wk\<lparr>dw_store := ps_clear Q (dw_store wk)\<rparr>)\<rparr>)" if "oc_worker c = Some wk" for wk
    by (rule ok_worker [OF 1]) (use client_ok_worker [OF ok that] worker_ok_wiped in auto)
  have q: "dp_queue d = Some x \<Longrightarrow> x = Q" for x using ok by (auto simp: client_ok_def uses_def)
  show ?thesis using w 1 2 q
    by (auto simp: restore_wipe_def S cr_clear_def Let_def split: option.splits prod.splits if_splits)
qed

lemma restore_pending_other:
  assumes "restore_pending d replace m (r, q, c) = (r1, q1, c1)"
  shows "c1\<lparr>oc_worker := None\<rparr> = c\<lparr>oc_worker := None\<rparr>"
  using assms by (auto simp: restore_pending_def Let_def split: option.splits if_splits)

lemma restore_pendings_other:
  "fold (restore_pending d replace) ms (r, q, c) = (r1, q1, c1) \<Longrightarrow> c1\<lparr>oc_worker := None\<rparr> = c\<lparr>oc_worker := None\<rparr>"
proof (induction ms arbitrary: r q c)
  case (Cons m ms)
  obtain r2 q2 c2 where s: "restore_pending d replace m (r, q, c) = (r2, q2, c2)" by (metis prod.collapse)
  then show ?case using Cons restore_pending_other [OF s] by simp
qed simp

lemma restore_pendings_ok:
  assumes "client_ok d c" "\<And>m. m \<in> set ms \<Longrightarrow> pinned_message (dp_crypto d) m" "fold (restore_pending d replace) ms (r, q, c) = (r1, q1, c1)"
  shows "client_ok d c1"
  using assms
proof (induction ms arbitrary: r q c)
  case (Cons m ms)
  obtain r2 q2 c2 where s: "restore_pending d replace m (r, q, c) = (r2, q2, c2)" by (metis prod.collapse)
  have "client_ok d (c\<lparr>oc_worker := Some (dw_enqueue Q m w)\<rparr>)" if "oc_worker c = Some w" for w
    by (rule ok_worker [OF Cons.prems(1)]) (use client_ok_worker [OF Cons.prems(1) that] worker_ok_ops(3) Cons.prems(2) in auto)
  moreover have "dp_queue d = Some x \<Longrightarrow> x = Q" for x using Cons.prems(1) by (auto simp: client_ok_def uses_def)
  ultimately have "client_ok d c2" using s Cons.prems(1) by (auto simp: restore_pending_def Let_def split: option.splits if_splits)
  then show ?case using Cons.IH [of c2 r2 q2] Cons.prems(2,3) s by simp
qed simp

lemma restore_data_ok:
  assumes ok: "client_ok d c" and wf: "\<And>x. x \<in> set (bp_contacts p) \<Longrightarrow> wf_json (ct_binding x)"
    and r: "restore_data d p replace r0 q c = (r1, q1, c1)"
  shows "client_ok d (c1\<lparr>oc_worker := None\<rparr>)" "(\<And>m. m \<in> set (bp_pending p) \<Longrightarrow> pinned_message (dp_crypto d) m) \<Longrightarrow> client_ok d c1"
proof -
  obtain e2 r2 c2 where 2: "fold (restore_contact d replace) (bp_contacts p) (map ct_identityKey (cv_listContacts (dp_store d) (oc_store c)), r0, c) = (e2, r2, c2)"
    by (metis prod.collapse)
  obtain r3 c3 where 3: "fold (restore_message d replace) (concat (jvals (bp_messages p))) (r2, c2) = (r3, c3)" by fastforce
  have "client_ok d c2" using restore_contacts_ok [OF ok wf] 2 by (metis snd_conv)
  then have c3: "client_ok d c3" using restore_messages_ok 3 by (metis snd_conv)
  have 4: "fold (restore_pending d replace) (bp_pending p) (r3, q, c3) = (r1, q1, c1)" using r by (simp add: restore_data_def Let_def 2 3)
  show "client_ok d (c1\<lparr>oc_worker := None\<rparr>)" unfolding restore_pendings_other [OF 4] by (rule ok_no_worker [OF c3])
  show "(\<And>m. m \<in> set (bp_pending p) \<Longrightarrow> pinned_message (dp_crypto d) m) \<Longrightarrow> client_ok d c1" by (rule restore_pendings_ok [OF c3 _ 4])
qed

lemma restore_certified:
  assumes ok: "client_ok d c" and wf: "\<And>x. x \<in> set (bp_contacts p) \<Longrightarrow> wf_json (ct_binding x)"
    and r: "restoreBackup d p replace imp q c = (res, q1, c1)"
  shows "client_ok d (c1\<lparr>oc_worker := None\<rparr>)" "(\<And>m. m \<in> set (bp_pending p) \<Longrightarrow> pinned_message (dp_crypto d) m) \<Longrightarrow> client_ok d c1"
proof -
  obtain e q0 c0 where 0: "(if replace then restore_wipe d q c else (None, q, c)) = (e, q0, c0)" by (metis prod.collapse)
  then have c0: "client_ok d c0" using wipe_ok [OF ok] ok by (auto split: if_splits)
  have "client_ok d (c1\<lparr>oc_worker := None\<rparr>) \<and> ((\<forall>m\<in>set (bp_pending p). pinned_message (dp_crypto d) m) \<longrightarrow> client_ok d c1)"
  proof (cases e)
    case (Some err)
    then show ?thesis using r 0 c0 ok_no_worker [OF c0] by (simp add: restoreBackup_def)
  next
    case None
    obtain r2 q2 c2 where 2: "restore_data d p replace (fresh_result d p replace c) q0 c0 = (r2, q2, c2)" by (metis prod.collapse)
    have "\<exists>r3. restore_rest d p imp r2 c2 = (r3, c1)" using r 0 None 2 by (auto simp: restoreBackup_def split: prod.splits)
    then obtain keys w where c1: "c1 = c2\<lparr>oc_world := w\<rparr> \<or> c1 = (setBlockedKeys keys c2)\<lparr>oc_world := w\<rparr>" using restore_rest_changes by blast
    note c2 = restore_data_ok [OF c0 wf 2]
    have "c1\<lparr>oc_worker := None\<rparr> = (c2\<lparr>oc_worker := None\<rparr>)\<lparr>oc_world := w\<rparr> \<or>
        c1\<lparr>oc_worker := None\<rparr> = (setBlockedKeys keys (c2\<lparr>oc_worker := None\<rparr>))\<lparr>oc_world := w\<rparr>"
      using c1 block_commutes(1) [where keys = keys and c = c2 and x = None] by (auto simp: world_worker)
    then have "client_ok d (c1\<lparr>oc_worker := None\<rparr>)" using c2(1) ok_block [OF c2(1)] by auto
    moreover have "client_ok d c1" if "\<forall>m\<in>set (bp_pending p). pinned_message (dp_crypto d) m"
      using c1 c2(2) ok_block that by auto
    ultimately show ?thesis by blast
  qed
  then show "client_ok d (c1\<lparr>oc_worker := None\<rparr>)" "(\<And>m. m \<in> set (bp_pending p) \<Longrightarrow> pinned_message (dp_crypto d) m) \<Longrightarrow> client_ok d c1"
    by blast+
qed

end

end
