(* ===== verification/BackupRestore.thy ===== *)
theory BackupRestore
  imports ClientBackup
begin

text \<open>
  The journey of a backup in \<open>packages/orpal-core/src/messaging/orpal-client.ts\<close>: what \<open>exportBackup\<close> wrote on one
  device, \<open>readBackup\<close> opens on another, and \<open>restoreBackup\<close> in the mode \<open>replace\<close> puts back: every contact,
  message and queued row, the block list, the migration in flight and the identity.
\<close>

subsection \<open>Putting a listing back\<close>

lemma fold_put:
  assumes law: "\<And>x s k. ok s \<Longrightarrow> get k (put x s) = (if k = key x then Some x else get k s)" "\<And>x s. ok s \<Longrightarrow> ok (put x s)"
    and "ok s" "\<And>x. x \<in> set xs \<Longrightarrow> f (key x) = Some x"
  shows "ok (fold put xs s)" "get k (fold put xs s) = (if k \<in> key ` set xs then f k else get k s)"
  using assms(3,4)
proof (induction xs arbitrary: s)
  case (Cons x xs)
  { case 1 then show ?case using Cons.IH(1) law(2) by simp }
  { case 2
    then have "get k (fold put (x # xs) s) = (if k \<in> key ` set xs then f k else get k (put x s))" using Cons.IH(2) law(2) by simp
    then show ?case using law(1) 2 by auto }
qed simp_all

lemma copied:
  assumes law: "\<And>x s k. ok s \<Longrightarrow> get k (put x s) = (if k = key x then Some x else get k s)" "\<And>x s. ok s \<Longrightarrow> ok (put x s)"
    and "ok s" "\<And>k. get k s = None" "\<And>x. x \<in> set xs \<longleftrightarrow> f (key x) = Some x" "\<And>k x. f k = Some x \<Longrightarrow> key x = k"
  shows "get k (fold put xs s) = f k"
proof -
  have "get k (fold put xs s) = (if k \<in> key ` set xs then f k else get k s)" by (rule fold_put(2) [OF law assms(3)]) (use assms(5) in auto)
  moreover have "f k = None" if "k \<notin> key ` set xs"
  proof (rule ccontr)
    assume "f k \<noteq> None"
    then obtain x where x: "f k = Some x" by blast
    then have "x \<in> set xs" using assms(5) [of x] assms(6) [OF x] by simp
    then show False using that assms(6) [OF x] by blast
  qed
  ultimately show ?thesis using assms(4) by auto
qed

subsection \<open>The conversations in the payload\<close>

lemma group_messages_vals:
  "jmap_ok (group_messages ms)" "set (concat (jvals (group_messages ms))) = set ms"
proof -
  let ?g = "\<lambda>m acc. jset (sm_contactKey m) (or_default (jget acc (sm_contactKey m)) [] @ [m]) acc"
  have mem: "m \<in> set (concat (jvals acc)) \<longleftrightarrow> (\<exists>k xs. jget acc k = Some xs \<and> m \<in> set xs)" if "jmap_ok acc"
    for m :: stored_message and acc :: "(string, stored_message list) jmap"
    using jmap_mem_iff [OF that] by (force simp: jvals_def)
  have step: "set (concat (jvals (?g m acc))) = insert m (set (concat (jvals acc)))" if "jmap_ok acc"
    for m :: stored_message and acc :: "(string, stored_message list) jmap"
  proof -
    have "x \<in> set (concat (jvals (?g m acc))) \<longleftrightarrow> x = m \<or> x \<in> set (concat (jvals acc))" for x
      unfolding mem [OF that] mem [OF jmap_ok_jset [OF that]]
      by (cases "jget acc (sm_contactKey m)"; auto split: if_splits) (metis option.distinct(1), metis option.inject)
    then show ?thesis by auto
  qed
  have "jmap_ok acc \<Longrightarrow> jmap_ok (fold ?g ms acc) \<and> set (concat (jvals (fold ?g ms acc))) = set ms \<union> set (concat (jvals acc))" for acc
  proof (induction ms arbitrary: acc)
    case (Cons m ms)
    show ?case using Cons.IH [OF jmap_ok_jset [OF Cons.prems]] step [OF Cons.prems] by simp
  qed simp
  from this [of "[]"] show "jmap_ok (group_messages ms)" "set (concat (jvals (group_messages ms))) = set ms"
    by (simp_all add: group_messages_def jvals_def)
qed

subsection \<open>The loops of a restore that replaces\<close>

lemma restore_contacts_all:
  assumes "\<And>x. x \<in> set xs \<Longrightarrow> wf_json (ct_binding x) \<and> is_obj (ct_binding x) \<and> contact_bound (dp_crypto d) x"
  shows "\<exists>e r1. fold (restore_contact d True) xs (e0, r, c) = (e, r1, fold (registerContact (dp_store d)) xs c)
    \<and> rr_replace r1 = rr_replace r \<and> rr_settings r1 = rr_settings r \<and> rr_contactsRejected r1 = rr_contactsRejected r"
  using assms
proof (induction xs arbitrary: e0 r c)
  case (Cons x xs)
  obtain cd where "parseContactCard (dp_crypto d) (contact_card_text x) = Inr cd" using card_text_checks [of x "dp_crypto d"] Cons.prems by auto
  then have "restore_contact d True x (e0, r, c) =
      (set_add (ct_identityKey x) e0, r\<lparr>rr_contactsImported := rr_contactsImported r + 1\<rparr>, registerContact (dp_store d) x c)"
    by (simp add: restore_contact_def)
  then show ?case using Cons.IH [of "set_add (ct_identityKey x) e0" "r\<lparr>rr_contactsImported := rr_contactsImported r + 1\<rparr>"] Cons.prems by simp
qed simp

lemma registered_all:
  "oc_store (fold (registerContact S) xs c) = fold (cv_upsertContact S) xs (oc_store c)" "oc_worker (fold (registerContact S) xs c) = oc_worker c"
  "oc_world (fold (registerContact S) xs c) = oc_world c" "oc_blockedKeys (fold (registerContact S) xs c) = oc_blockedKeys c"
  by (induction xs arbitrary: c) (simp_all add: registerContact_def)

lemma restore_messages_all:
  "\<exists>r1. fold (restore_message d True) ms (r, c) = (r1, c\<lparr>oc_store := fold (cv_appendMessage (dp_store d)) ms (oc_store c)\<rparr>)
    \<and> rr_replace r1 = rr_replace r \<and> rr_settings r1 = rr_settings r \<and> rr_contactsRejected r1 = rr_contactsRejected r"
proof (induction ms arbitrary: r c)
  case (Cons m ms)
  show ?case using Cons.IH [of "r\<lparr>rr_messagesImported := rr_messagesImported r + 1\<rparr>" "c\<lparr>oc_store := cv_appendMessage (dp_store d) m (oc_store c)\<rparr>"]
    by (simp add: restore_message_def)
qed simp

lemma same_worker: "\<exists>w. c = c\<lparr>oc_worker := w\<rparr>"
  by (cases c) auto

lemma restore_pendings_all:
  assumes "dp_queue d = Some Q" "fold (restore_pending d True) ms (r, q, c) = (r1, q1, c1)"
  shows "queue_rows q1 c1 = fold (ps_enqueue Q) ms (queue_rows q c)" "\<exists>w. c1 = c\<lparr>oc_worker := w\<rparr>"
    "rr_replace r1 = rr_replace r" "rr_settings r1 = rr_settings r" "rr_contactsRejected r1 = rr_contactsRejected r"
proof -
  have "queue_rows q1 c1 = fold (ps_enqueue Q) ms (queue_rows q c) \<and> (\<exists>w. c1 = c\<lparr>oc_worker := w\<rparr>) \<and> rr_replace r1 = rr_replace r
      \<and> rr_settings r1 = rr_settings r \<and> rr_contactsRejected r1 = rr_contactsRejected r"
    using assms(2)
  proof (induction ms arbitrary: r q c)
    case Nil
    then show ?case using same_worker [of c] by simp
  next
    case (Cons m ms)
    obtain r2 q2 c2 where s: "restore_pending d True m (r, q, c) = (r2, q2, c2)" by (metis prod.collapse)
    have "queue_rows q2 c2 = ps_enqueue Q m (queue_rows q c) \<and> (\<exists>w. c2 = c\<lparr>oc_worker := w\<rparr>) \<and> rr_replace r2 = rr_replace r
        \<and> rr_settings r2 = rr_settings r \<and> rr_contactsRejected r2 = rr_contactsRejected r"
      using s assms(1) same_worker [of c]
      by (auto simp: restore_pending_def Let_def queue_rows_def dw_enqueue_def spawn_def split: option.splits)
    then show ?case using Cons.IH [of r2 q2 c2] Cons.prems s by auto
  qed
  then show "queue_rows q1 c1 = fold (ps_enqueue Q) ms (queue_rows q c)" "\<exists>w. c1 = c\<lparr>oc_worker := w\<rparr>"
    "rr_replace r1 = rr_replace r" "rr_settings r1 = rr_settings r" "rr_contactsRejected r1 = rr_contactsRejected r" by blast+
qed

subsection \<open>The rest of the restore\<close>

lemma block_others:
  "oc_store (setBlockedKeys keys c) = oc_store c" "oc_worker (setBlockedKeys keys c) = oc_worker c" "oc_world (setBlockedKeys keys c) = oc_world c"
  "set (oc_blockedKeys (setBlockedKeys keys c)) = set keys"
proof -
  have "oc_store (fold block_one ks c) = oc_store c \<and> oc_worker (fold block_one ks c) = oc_worker c \<and> oc_world (fold block_one ks c) = oc_world c
      \<and> oc_blockedKeys (fold block_one ks c) = oc_blockedKeys c" for ks and c :: "('a, 'b, 'c, 'd) orpal"
    by (induction ks arbitrary: c) (simp_all add: block_one_def)
  then show "oc_store (setBlockedKeys keys c) = oc_store c" "oc_worker (setBlockedKeys keys c) = oc_worker c"
      "oc_world (setBlockedKeys keys c) = oc_world c" "set (oc_blockedKeys (setBlockedKeys keys c)) = set keys"
    by (simp_all add: setBlockedKeys_def)
qed

lemma restore_rest_done:
  assumes "restore_rest d p imp r c = (Inr res, c1)" "rr_replace r" "dp_migrates d"
  shows "oc_store c1 = oc_store c" "oc_worker c1 = oc_worker c" "set (oc_blockedKeys c1) = set (bp_blockedKeys p)"
    "rr_settings res = rr_settings r" "rr_contactsRejected res = rr_contactsRejected r"
    "case bp_migrationState p of None \<Rightarrow> w2 = oc_world c | Some m \<Rightarrow> sl_save (dp_mstore d) m (oc_world c) = (None, w2) \<Longrightarrow>
      if imp then \<exists>w3. ks_clear (dp_main d) w2 = (None, w3) \<and> ks_save (dp_main d) (bp_identity p) w3 = (None, oc_world c1) else oc_world c1 = w2"
    "\<exists>w2. case bp_migrationState p of None \<Rightarrow> w2 = oc_world c | Some m \<Rightarrow> sl_save (dp_mstore d) m (oc_world c) = (None, w2)"
  using assms
  by (auto simp: restore_rest_def restore_state_def restore_identity_def Let_def block_others
      split: sum.splits option.splits if_splits prod.splits)

lemma wipe_world: "restore_wipe d q c = (r, q1, c1) \<Longrightarrow> dp_migrates d \<Longrightarrow> sl_clear (dp_mstore d) (oc_world c) = (r, oc_world c1)"
  by (auto simp: restore_wipe_def Let_def split: option.splits prod.splits)

text \<open>Only a store that fails can make a restore fail.\<close>

lemma restore_completes:
  assumes "\<And>w. fst (sl_clear (dp_mstore d) w) = None" "\<And>m w. fst (sl_save (dp_mstore d) m w) = None"
    "\<And>w. fst (ks_clear (dp_main d) w) = None" "\<And>w. fst (ks_save (dp_main d) (bp_identity p) w) = None"
  shows "\<exists>res q1 c1. restoreBackup d p replace imp q c = (Inr res, q1, c1)"
proof -
  have "fst (restore_wipe d q c) = None" using assms(1) by (simp add: restore_wipe_def Let_def case_prod_beta)
  then obtain q1 c1 where w: "(if replace then restore_wipe d q c else (None, q, c)) = (None, q1, c1)"
    by (cases replace; cases "restore_wipe d q c") auto
  obtain r2 q2 c2 where dt: "restore_data d p replace (fresh_result d p replace c) q1 c1 = (r2, q2, c2)" by (metis prod.collapse)
  have "\<exists>x. fst (restore_state d p c2) = Inr x" using assms(2) by (auto simp: restore_state_def case_prod_beta split: option.split)
  then obtain x c3 where st: "restore_state d p c2 = (Inr x, c3)" by (metis prod.collapse)
  have "fst (restore_identity d (bp_identity p) c4) = None" for c4
    using assms(3,4) by (simp add: restore_identity_def case_prod_beta)
  then have "\<exists>res. fst (restore_rest d p imp r2 c2) = Inr res"
    using st by (auto simp: restore_rest_def Let_def case_prod_beta split: option.splits)
  then obtain res c5 where "restore_rest d p imp r2 c2 = (Inr res, c5)" by (metis prod.collapse)
  then show ?thesis using w dt by (auto simp: restoreBackup_def)
qed

lemma fold_keeps: "(\<And>x s. f (g x s) = f s) \<Longrightarrow> f (fold g xs s) = f s"
  by (induction xs arbitrary: s) simp_all

lemma data_world:
  assumes "restore_data d p replace r q c = (r1, q1, c1)"
  shows "oc_world c1 = oc_world c \<and> rr_replace r1 = rr_replace r"
proof -
  obtain e2 r2 c2 where 2: "fold (restore_contact d replace) (bp_contacts p) (map ct_identityKey (cv_listContacts (dp_store d) (oc_store c)), r, c) = (e2, r2, c2)"
    by (metis prod.collapse)
  obtain r3 c3 where 3: "fold (restore_message d replace) (concat (jvals (bp_messages p))) (r2, c2) = (r3, c3)" by fastforce
  have 4: "fold (restore_pending d replace) (bp_pending p) (r3, q, c3) = (r1, q1, c1)" using assms by (simp add: restore_data_def Let_def 2 3)
  have "(\<lambda>(e, r, c). (oc_world c, rr_replace r)) (fold (restore_contact d replace) xs st) = (\<lambda>(e, r, c). (oc_world c, rr_replace r)) st" for xs st
    by (rule fold_keeps) (auto simp: restore_contact_def registerContact_def split: sum.splits)
  from this [of "bp_contacts p"] have "oc_world c2 = oc_world c" "rr_replace r2 = rr_replace r" using 2 by (metis (no_types, lifting) case_prod_conv prod.inject)+
  moreover have "(\<lambda>(r, c). (oc_world c, rr_replace r)) (fold (restore_message d replace) xs st) = (\<lambda>(r, c). (oc_world c, rr_replace r)) st" for xs st
    by (rule fold_keeps) (auto simp: restore_message_def)
  from this [of "concat (jvals (bp_messages p))"] have "oc_world c3 = oc_world c2" "rr_replace r3 = rr_replace r2" using 3
    by (metis (no_types, lifting) case_prod_conv prod.inject)+
  moreover have "(\<lambda>(r, q, c). (oc_world c, rr_replace r)) (fold (restore_pending d replace) xs st) = (\<lambda>(r, q, c). (oc_world c, rr_replace r)) st" for xs st
    by (rule fold_keeps) (auto simp: restore_pending_def Let_def split: option.splits)
  from this [of "bp_pending p"] have "oc_world c1 = oc_world c3" "rr_replace r1 = rr_replace r3" using 4 by (metis (no_types, lifting) case_prod_conv prod.inject)+
  ultimately show ?thesis by simp
qed

subsection \<open>The data\<close>

context client_stores
begin

lemma wiped:
  assumes "client_ok d c" "dp_queue d = Some Q" "qok (queue_rows q c)" "restore_wipe d q c = (r, q1, c1)"
  shows "sok (oc_store c1)" "cv_getContact S k (oc_store c1) = None" "cv_getMessage S k (oc_store c1) = None"
    "qok (queue_rows q1 c1)" "ps_get Q k (queue_rows q1 c1) = None"
    "if dp_migrates d then sl_clear (dp_mstore d) (oc_world c) = (r, oc_world c1) else oc_world c1 = oc_world c"
proof -
  have s: "sok (oc_store c)" using client_ok_parts(1) [OF assms(1)] by (simp add: routing_def)
  show "sok (oc_store c1)" "cv_getContact S k (oc_store c1) = None" "cv_getMessage S k (oc_store c1) = None"
    "qok (queue_rows q1 c1)" "ps_get Q k (queue_rows q1 c1) = None"
    "if dp_migrates d then sl_clear (dp_mstore d) (oc_world c) = (r, oc_world c1) else oc_world c1 = oc_world c"
    using assms(2-4) s
    by (auto simp: restore_wipe_def queue_rows_def Let_def ok_S [OF assms(1)] store.gets queue.get_clear queue.ok_ops
        split: option.splits prod.splits if_splits)
qed

lemma exported:
  assumes "client_ok d c" "export_payload d settings q c = (Inr p, c1)"
  shows "bp_contacts p = cv_listContacts S (oc_store c)" "bp_messages p = group_messages (cv_listAllMessages S (oc_store c))"
    "dp_queue d = Some Q \<Longrightarrow> bp_pending p = ps_list Q (queue_rows q c)" "bp_settings p = settings" "bp_blockedKeys p = oc_blockedKeys c"
    "fst (ks_load (dp_main d) (oc_world c)) = Inr (Some (bp_identity p))"
    "fst (export_migration d (snd (ks_load (dp_main d) (oc_world c)))) = Inr (bp_migrationState p)"
  using assms by (auto simp: export_payload_def ok_S split: if_splits prod.splits sum.splits option.splits)

lemma listed_valid:
  assumes "client_ok d c" "x \<in> set (cv_listContacts S (oc_store c))"
  shows "wf_json (ct_binding x) \<and> is_obj (ct_binding x) \<and> contact_bound (dp_crypto d) x"
proof -
  have s: "sok (oc_store c)" using client_ok_parts(1) [OF assms(1)] by (simp add: routing_def)
  then have "contact_bound (dp_crypto d) x" using assms(2) store.listContacts_get stored_contact(2) [OF assms(1)] by blast
  then show ?thesis by (cases "ct_binding x") (auto simp: contact_bound_def is_obj_def jprop_def)
qed

lemma data_restored:
  assumes ok: "client_ok d c" and C: "dp_crypto d2 = dp_crypto d" and S2: "dp_store d2 = S" "dp_queue d2 = Some Q"
    and p: "bp_contacts p = cv_listContacts S (oc_store c)" "bp_messages p = group_messages (cv_listAllMessages S (oc_store c))"
      "bp_pending p = ps_list Q (queue_rows q c)" and q: "qok (queue_rows q c)"
    and empty: "sok (oc_store c2)" "\<And>k. cv_getContact S k (oc_store c2) = None" "\<And>k. cv_getMessage S k (oc_store c2) = None"
      "qok (queue_rows q2 c2)" "\<And>k. ps_get Q k (queue_rows q2 c2) = None"
    and r: "restore_data d2 p True r0 q2 c2 = (r1, q3, c3)"
  shows "cv_getContact S k (oc_store c3) = cv_getContact S k (oc_store c)" "cv_getMessage S k (oc_store c3) = cv_getMessage S k (oc_store c)"
    "ps_get Q k (queue_rows q3 c3) = ps_get Q k (queue_rows q c)" "oc_world c3 = oc_world c2" "rr_replace r1 = rr_replace r0"
    "rr_settings r1 = rr_settings r0" "rr_contactsRejected r1 = rr_contactsRejected r0"
proof -
  let ?xs = "cv_listContacts S (oc_store c)" and ?ms = "concat (jvals (group_messages (cv_listAllMessages S (oc_store c))))"
  have s: "sok (oc_store c)" using client_ok_parts(1) [OF ok] by (simp add: routing_def)
  define ca where "ca = fold (registerContact S) ?xs c2"
  define cb where "cb = ca\<lparr>oc_store := fold (cv_appendMessage S) ?ms (oc_store ca)\<rparr>"
  have "\<And>x. x \<in> set ?xs \<Longrightarrow> wf_json (ct_binding x) \<and> is_obj (ct_binding x) \<and> contact_bound (dp_crypto d2) x"
    using listed_valid [OF ok] C by simp
  from restore_contacts_all [of ?xs d2 "map ct_identityKey (cv_listContacts S (oc_store c2))" r0 c2, OF this]
  obtain e ra where a: "fold (restore_contact d2 True) ?xs (map ct_identityKey (cv_listContacts S (oc_store c2)), r0, c2) = (e, ra, ca)"
    "rr_replace ra = rr_replace r0" "rr_settings ra = rr_settings r0" "rr_contactsRejected ra = rr_contactsRejected r0"
    by (auto simp: ca_def S2)
  from restore_messages_all [of d2 ?ms ra ca] obtain rb where b: "fold (restore_message d2 True) ?ms (ra, ca) = (rb, cb)"
    "rr_replace rb = rr_replace ra" "rr_settings rb = rr_settings ra" "rr_contactsRejected rb = rr_contactsRejected ra"
    by (auto simp: cb_def S2)
  have "fold (restore_pending d2 True) (ps_list Q (queue_rows q c)) (rb, q2, cb) = (r1, q3, c3)"
    using r by (simp add: restore_data_def p S2(1) a(1) b(1) Let_def)
  note d = restore_pendings_all [OF S2(2) this]
  obtain w where c3: "c3 = cb\<lparr>oc_worker := w\<rparr>" using d(2) by blast
  have w: "oc_worker cb = oc_worker c2" "oc_world cb = oc_world c2" by (simp_all add: cb_def ca_def registered_all)
  show "oc_world c3 = oc_world c2" "rr_replace r1 = rr_replace r0" "rr_settings r1 = rr_settings r0" "rr_contactsRejected r1 = rr_contactsRejected r0"
    using w d(3-5) a b by (simp_all add: c3)
  have st: "oc_store c3 = fold (cv_appendMessage S) ?ms (fold (cv_upsertContact S) ?xs (oc_store c2))" by (simp add: c3 cb_def ca_def registered_all)
  let ?s1 = "fold (cv_upsertContact S) ?xs (oc_store c2)"
  have s1: "sok ?s1" by (rule fold_put(1) [where get = "cv_getContact S" and key = ct_identityKey and ok = sok and f = "\<lambda>k. cv_getContact S k (oc_store c)"])
      (use empty(1) s in \<open>auto simp: store.gets store.listContacts_get\<close>)
  have contacts: "cv_getContact S k ?s1 = cv_getContact S k (oc_store c)" for k
    by (rule copied [where key = ct_identityKey and ok = sok and f = "\<lambda>k. cv_getContact S k (oc_store c)"])
      (use empty s in \<open>auto simp: store.gets store.listContacts_get intro: store.getContact_key\<close>)
  have m1: "cv_getMessage S k ?s1 = None" for k
  proof -
    have "sok s' \<Longrightarrow> cv_getMessage S k (fold (cv_upsertContact S) xs s') = cv_getMessage S k s'" for xs s'
      by (induction xs arbitrary: s') (simp_all add: store.gets)
    then show ?thesis using empty(1,3) by simp
  qed
  have c1: "sok s' \<Longrightarrow> cv_getContact S k (fold (cv_appendMessage S) ms s') = cv_getContact S k s'" for ms s' k
    by (induction ms arbitrary: s') (simp_all add: store.gets)
  show "cv_getContact S k (oc_store c3) = cv_getContact S k (oc_store c)" unfolding st using c1 [OF s1] contacts by simp
  show "cv_getMessage S k (oc_store c3) = cv_getMessage S k (oc_store c)" unfolding st
    by (rule copied [where key = sm_id and ok = sok and f = "\<lambda>k. cv_getMessage S k (oc_store c)"])
      (use s1 m1 s in \<open>auto simp: store.gets store.listAll_get group_messages_vals(2) simp del: set_concat intro: store.getMessage_id\<close>)
  have "queue_rows q2 cb = queue_rows q2 c2" by (simp add: queue_rows_def w)
  then show "ps_get Q k (queue_rows q3 c3) = ps_get Q k (queue_rows q c)" unfolding d(1)
    by (intro copied [where key = pm_messageId and ok = qok and f = "\<lambda>k. ps_get Q k (queue_rows q c)"])
      (use empty q in \<open>auto simp: queue.get_enqueue queue.ok_ops queue.list_get intro: queue.get_id\<close>)
qed

lemma backup_restores:
  assumes ok: "client_ok d c" "dp_queue d = Some Q" "qok (queue_rows q c)"
    and ok2: "client_ok d2 c2" "dp_queue d2 = Some Q" "qok (queue_rows q2 c2)" "dp_migrates d2" "dp_crypto d2 = dp_crypto d"
    and e: "export_payload d settings q c = (Inr p, c')"
    and r: "restoreBackup d2 p True imp q2 c2 = (Inr res, q3, c3)"
  shows "cv_getContact S k (oc_store c3) = cv_getContact S k (oc_store c)" "cv_getMessage S k (oc_store c3) = cv_getMessage S k (oc_store c)"
    "ps_get Q k (queue_rows q3 c3) = ps_get Q k (queue_rows q c)" "set (oc_blockedKeys c3) = set (oc_blockedKeys c)"
    "rr_settings res = settings" "rr_contactsRejected res = 0"
proof -
  note p = exported [OF ok(1) e]
  obtain q4 c4 where w: "restore_wipe d2 q2 c2 = (None, q4, c4)"
    using r by (cases "restore_wipe d2 q2 c2") (auto simp: restoreBackup_def split: option.splits)
  obtain r5 q5 c5 where d: "restore_data d2 p True (fresh_result d2 p True c2) q4 c4 = (r5, q5, c5)" by (metis prod.collapse)
  have rest: "restore_rest d2 p imp r5 c5 = (Inr res, c3)" and q: "q3 = q5" using r w d by (auto simp: restoreBackup_def split: prod.splits)
  note wi = wiped [OF ok2(1-3) w]
  note da = data_restored [OF ok(1) ok2(5) ok_S [OF ok2(1)] ok2(2) p(1,2) p(3) [OF ok(2)] ok(3) wi(1-5) d]
  have rep: "rr_replace r5" using da(5) by (simp add: fresh_result_def Let_def)
  note re = restore_rest_done [OF rest rep ok2(4)]
  have rows: "queue_rows q3 c3 = queue_rows q5 c5" using re(2) q by (simp add: queue_rows_def)
  show "cv_getContact S k (oc_store c3) = cv_getContact S k (oc_store c)" "cv_getMessage S k (oc_store c3) = cv_getMessage S k (oc_store c)"
    using da(1,2) re(1) by simp_all
  show "ps_get Q k (queue_rows q3 c3) = ps_get Q k (queue_rows q c)" using da(3) rows by simp
  show "set (oc_blockedKeys c3) = set (oc_blockedKeys c)" using re(3) p(5) by simp
  show "rr_settings res = settings" "rr_contactsRejected res = 0" using re(4,5) da(6,7) p(4) by (simp_all add: fresh_result_def Let_def)
qed

text \<open>A row of the queue is taken over as it is, whatever key it names.\<close>

lemma rows_taken_over:
  assumes ok: "client_ok d c" "dp_queue d = Some Q" "qok (queue_rows q c)" "dp_migrates d"
    and m: "distinct (map pm_messageId (bp_pending p))" "m \<in> set (bp_pending p)"
    and r: "restoreBackup d p True imp q c = (Inr res, q3, c3)"
  shows "ps_get Q (pm_messageId m) (queue_rows q3 c3) = Some m"
proof -
  obtain q4 c4 where w: "restore_wipe d q c = (None, q4, c4)"
    using r by (cases "restore_wipe d q c") (auto simp: restoreBackup_def split: option.splits)
  obtain r5 q5 c5 where dt: "restore_data d p True (fresh_result d p True c) q4 c4 = (r5, q5, c5)" by (metis prod.collapse)
  have rest: "restore_rest d p imp r5 c5 = (Inr res, c3)" and q: "q3 = q5" using r w dt by (auto simp: restoreBackup_def split: prod.splits)
  have "rr_replace r5" using data_world [OF dt] by (simp add: fresh_result_def Let_def)
  from restore_rest_done(2) [OF rest this ok(4)] have rows: "queue_rows q3 c3 = queue_rows q5 c5" by (simp add: queue_rows_def q)
  obtain r6 c6 where 6: "fold (restore_pending d True) (bp_pending p) (r6, q4, c6) = (r5, q5, c5)" "oc_worker c6 = oc_worker c4"
  proof -
    obtain e2 r2 c2 where 2: "fold (restore_contact d True) (bp_contacts p) (map ct_identityKey (cv_listContacts (dp_store d) (oc_store c4)), fresh_result d p True c, c4) = (e2, r2, c2)"
      by (metis prod.collapse)
    obtain r3 c3' where 3: "fold (restore_message d True) (concat (jvals (bp_messages p))) (r2, c2) = (r3, c3')" by fastforce
    have "(\<lambda>(e, r, c). oc_worker c) (fold (restore_contact d True) xs st) = (\<lambda>(e, r, c). oc_worker c) st" for xs st
      by (rule fold_keeps) (auto simp: restore_contact_def registerContact_def split: sum.splits)
    from this [of "bp_contacts p"] have "oc_worker c2 = oc_worker c4" using 2 by (metis (no_types, lifting) case_prod_conv)
    moreover have "(\<lambda>(r, c). oc_worker c) (fold (restore_message d True) xs st) = (\<lambda>(r, c). oc_worker c) st" for xs st
      by (rule fold_keeps) (auto simp: restore_message_def)
    from this [of "concat (jvals (bp_messages p))"] have "oc_worker c3' = oc_worker c2" using 3 by (metis (no_types, lifting) case_prod_conv)
    ultimately show thesis using dt by (intro that [of r3 c3']) (simp_all add: restore_data_def Let_def 2 3)
  qed
  note st = restore_pendings_all(1) [OF ok(2) 6(1)]
  have "queue_rows q4 c6 = queue_rows q4 c4" by (simp add: queue_rows_def 6(2))
  then have e: "qok (queue_rows q4 c6)" using wiped(4) [OF ok(1-3) w] by simp
  have "ps_get Q (pm_messageId m) (fold (ps_enqueue Q) (bp_pending p) (queue_rows q4 c6)) =
      (if pm_messageId m \<in> pm_messageId ` set (bp_pending p) then map_of (map (\<lambda>m. (pm_messageId m, m)) (bp_pending p)) (pm_messageId m)
       else ps_get Q (pm_messageId m) (queue_rows q4 c6))"
    by (rule fold_put(2) [where ok = qok]) (use e m(1) in \<open>auto simp: queue.get_enqueue queue.ok_ops comp_def\<close>)
  also have "\<dots> = Some m" using m by (auto simp: comp_def)
  finally show ?thesis by (simp add: rows st)
qed

text \<open>The text in between: sealed under a password, it opens under the same one only.\<close>

lemma exported_ok:
  assumes "client_ok d c" "export_payload d settings q c = (Inr p, c')" "wf_json settings"
    and "\<And>m. bp_migrationState p = Some m \<Longrightarrow> wf_json (mg_migration m)"
  shows "payload_ok p"
  using assms(3,4) exported [OF assms(1,2)] listed_valid [OF assms(1)] group_messages_vals(1) by (simp add: payload_ok_def)

lemma text_opens:
  assumes ok: "client_ok d c" "wf_json settings" "gcm_ok B" "dp_migrates d"
    and wf: "\<And>m. fst (export_migration d (snd (ks_load (dp_main d) (oc_world c)))) = Inr (Some m) \<Longrightarrow> wf_json (mg_migration m)"
    and e: "exportBackup d B pw settings salt iv now q c = (Inr text, c')"
  obtains p where "export_payload d settings q c = (Inr p, c')" "openBackup B (Inl text) pw = Inr (payload_json p)"
    "readBackup d2 B (Inl text) pw c2 = Inr (Some
      (let key = identity_in (dp_crypto d2) (bp_identity p)
       in \<lparr>bo_summary = (summarizeBackup p key)\<lparr>bs_exportedUtc := now\<rparr>,
         bo_identityConflict = (key \<noteq> None \<and> key \<noteq> Some (identityKey c2)), bo_payload = p\<rparr>))"
proof -
  obtain p where p: "export_payload d settings q c = (Inr p, c')" and t: "serializeBackup B (payload_json p) pw None salt iv now = Some text"
    using e by (auto simp: exportBackup_def split: prod.splits sum.splits option.splits)
  have "payload_ok p" by (rule exported_ok [OF ok(1) p ok(2)]) (use wf exported(7) [OF ok(1) p] in auto)
  have n: "0 < or_default None DEFAULT_PBKDF2_ITERATIONS" by (simp add: DEFAULT_PBKDF2_ITERATIONS_def)
  have o: "openBackup B (Inl text) pw = Inr (payload_json p)" by (rule backup_opens [OF ok(3) \<open>payload_ok p\<close> t n])
  obtain b where b: "sealBackup B (payload_json p) pw None salt iv now = Some b" "text = json_str (envelope_json b)"
    using t by (auto simp: serializeBackup_def)
  have "db_exportedUtc b = now" "0 < db_iterations b" using b(1) n by (auto simp: sealBackup_def Let_def split: if_splits option.splits)
  then have "\<exists>b. parseBackupEnvelope (Inl text) = Inr b \<and> db_exportedUtc b = now" using parse_envelope_json [of b] b(2) by auto
  then show thesis using p o by (intro that [of p]) (auto simp: readBackup_def payload_round_trip Let_def)
qed

end

context migration_stores
begin

lemma restored_world:
  assumes d: "dp_main d = main" "dp_mstore d = mstore" "dp_migrates d" and h: "main_holds k (oc_world c)"
    and r: "restoreBackup d p True True q c = (Inr res, q3, c3)"
  shows "main_holds (Some (bp_identity p)) (oc_world c3)" "saved (oc_world c3) = bp_migrationState p"
proof -
  obtain q4 c4 where w: "restore_wipe d q c = (None, q4, c4)"
    using r by (cases "restore_wipe d q c") (auto simp: restoreBackup_def split: option.splits)
  obtain r5 q5 c5 where dt: "restore_data d p True (fresh_result d p True c) q4 c4 = (r5, q5, c5)" by (metis prod.collapse)
  have rest: "restore_rest d p True r5 c5 = (Inr res, c3)" using r w dt by (auto simp: restoreBackup_def split: prod.splits)
  have cl: "sl_clear mstore (oc_world c) = (None, oc_world c4)" using wipe_world [OF w d(3)] d(2) by simp
  have 5: "oc_world c5 = oc_world c4" "rr_replace r5" using data_world [OF dt] by (simp_all add: fresh_result_def Let_def)
  note re = restore_rest_done [OF rest 5(2) d(3)]
  obtain w2 where w2: "case bp_migrationState p of None \<Rightarrow> w2 = oc_world c5 | Some m \<Rightarrow> sl_save (dp_mstore d) m (oc_world c5) = (None, w2)"
    using re(7) by blast
  obtain w3 where w3: "ks_clear main w2 = (None, w3)" "ks_save main (bp_identity p) w3 = (None, oc_world c3)" using re(6) [OF w2] d by auto
  have 4: "main_holds k (oc_world c4)" "saved (oc_world c4) = None" using mstore_leaves(2) [OF h] mstore_clear [of "oc_world c"] cl by simp_all
  then have 2: "main_holds k w2" "saved w2 = bp_migrationState p"
    using w2 d(2) 5(1) mstore_leaves(1) [OF 4(1)] mstore_save [where w = "oc_world c4"] by (auto split: option.splits) (metis fst_conv option.simps(4) snd_conv)+
  have 3: "main_holds None w3" "saved w3 = saved w2" using main.clear_holds [OF 2(1)] keys_leave_state(3) [of w2] w3(1) by simp_all
  show "main_holds (Some (bp_identity p)) (oc_world c3)" "saved (oc_world c3) = bp_migrationState p"
    using main.save_holds [OF 3(1), of "bp_identity p"] keys_leave_state(2) [of "bp_identity p" w3] w3(2) 3(2) 2(2) by simp_all
qed

end

end
