(* ===== verification/BrowserBackup.thy ===== *)
theory BrowserBackup
  imports BackupRestore BrowserClient
begin

text \<open>
  A backup moved from one browser to another: the stores of both are those of
  \<open>apps/web/src/orpal/browser-bridge.ts\<close>, the clients those of \<open>apps/web/src/orpal/setup.ts\<close>. The last section
  has a concrete move.
\<close>

subsection \<open>The move\<close>

text \<open>The lemmas on backups, on the browser's stores.\<close>

lemmas web_moves_text_opens = client_stores.text_opens [OF web_client.client_stores_axioms]
lemmas web_moves_exported = client_stores.exported [OF web_client.client_stores_axioms]
lemmas web_moves_backup_restores = client_stores.backup_restores [OF web_client.client_stores_axioms]
lemmas web_moves_certified = client_stores.restore_certified [OF web_client.client_stores_axioms]
lemmas web_moves_rows = client_stores.rows_taken_over [OF web_client.client_stores_axioms]
lemmas web_restored_world = migration_stores.restored_world [OF web_migration.migration_stores_axioms]

definition migration_wf :: "web_world \<Rightarrow> bool" where
  \<comment> \<open>the record of a migration that is saved is JSON whose objects have no key twice\<close>
  "migration_wf w = (case migration_load (fst w) of None \<Rightarrow> True | Some m \<Rightarrow> wf_json (mg_migration m))"

lemma exported_migration_wf:
  assumes "migration_wf w" "fst (export_migration (app_deps C pr rl wr sink hash) (snd (ks_load (web_main wr pr) w))) = Inr (Some m)"
  shows "wf_json (mg_migration m)"
proof -
  have "kvGet MIGRATION_KV (fst (snd (ks_load (web_main wr pr) w))) = kvGet MIGRATION_KV (fst w)"
    unfolding web_main_def IpcKeyBlobStore_def by (rule web_leaves(1)) simp
  then have "migration_load (fst (snd (ks_load (web_main wr pr) w))) = migration_load (fst w)" by (simp add: migration_load_def)
  then show ?thesis using assms
    by (auto simp: export_migration_def migration_wf_def mstore_laws split: option.splits if_splits prod.splits sum.splits)
qed

lemma move_opens:
  assumes "browser_client C pr rl c" "wf_json settings" "gcm_ok B" "migration_wf (oc_world c)"
    and "exportBackup (app_deps C pr rl wr sink hash) B pw settings salt iv now rows c = (Inr text, c')"
  obtains p where "export_payload (app_deps C pr rl wr sink hash) settings rows c = (Inr p, c')" "openBackup B (Inl text) pw = Inr (payload_json p)"
    "\<And>d2 c2. readBackup d2 B (Inl text) pw c2 = Inr (Some
      (let key = identity_in (dp_crypto d2) (bp_identity p)
       in \<lparr>bo_summary = (summarizeBackup p key)\<lparr>bs_exportedUtc := now\<rparr>,
         bo_identityConflict = (key \<noteq> None \<and> key \<noteq> Some (identityKey (c2 :: web_client_state))), bo_payload = p\<rparr>))"
proof -
  note ok = browser_ok [OF assms(1), of wr sink hash]
  obtain p where p: "export_payload (app_deps C pr rl wr sink hash) settings rows c = (Inr p, c')" "openBackup B (Inl text) pw = Inr (payload_json p)"
    by (rule web_moves_text_opens [OF ok assms(2,3) _ _ assms(5)]) (use exported_migration_wf [OF assms(4)] in auto)
  show thesis
    by (rule that [OF p])
      (rule web_moves_text_opens [OF ok assms(2,3) _ _ assms(5)], use exported_migration_wf [OF assms(4)] p in auto)
qed

lemma move_payload:
  assumes "browser_client C pr rl c" "wf_json settings" "gcm_ok B" "migration_wf (oc_world c)"
    and "exportBackup (app_deps C pr rl wr sink hash) B pw settings salt iv now rows c = (Inr text, c')"
    and "readBackup d2 B (Inl text) pw (c2 :: web_client_state) = Inr (Some rb)"
  shows "export_payload (app_deps C pr rl wr sink hash) settings rows c = (Inr (bo_payload rb), c')"
  by (rule move_opens [OF assms(1-5)]) (use assms(6) in \<open>auto simp: Let_def\<close>)

lemma moved:
  assumes c: "browser_client C pr rl c" "web_db_ok (queue_rows rows c)" "hw_keeps (kv_keys KEYS_KV) pr (Some keys) (oc_world c)"
    and c2: "browser_client C pr2 rl2 c2" "web_db_ok (queue_rows rows2 c2)" "hw_keeps (kv_keys KEYS_KV) pr2 k2 (oc_world c2)"
    and e: "export_payload (app_deps C pr rl wr sink hash) settings rows c = (Inr p, c')"
    and r: "restoreBackup (app_deps C pr2 rl2 wr2 sink2 hash2) p True True rows2 c2 = (Inr res, rows3, c3)"
  shows "cv_getContact IpcConversationStore i (oc_store c3) = cv_getContact IpcConversationStore i (oc_store c)"
    "cv_getMessage IpcConversationStore i (oc_store c3) = cv_getMessage IpcConversationStore i (oc_store c)"
    "ps_get IpcPendingQueueStore i (queue_rows rows3 c3) = ps_get IpcPendingQueueStore i (queue_rows rows c)"
    "set (oc_blockedKeys c3) = set (oc_blockedKeys c)" "rr_settings res = settings" "rr_contactsRejected res = 0"
    "fst (loadOrCreate C (web_main wr3 pr2) rs rt now (oc_world c3)) = Inr (fromStored C keys, False)"
    "migration_load (fst (oc_world c3)) = bp_migrationState p"
proof -
  note ok = browser_ok [OF c(1), of wr sink hash] and ok2 = browser_ok [OF c2(1), of wr2 sink2 hash2]
  note b = web_moves_backup_restores [OF ok app_deps_sel(3) c(2) ok2 app_deps_sel(3) c2(2) app_deps_sel(5) _ e r, simplified]
  show "cv_getContact IpcConversationStore i (oc_store c3) = cv_getContact IpcConversationStore i (oc_store c)"
    "cv_getMessage IpcConversationStore i (oc_store c3) = cv_getMessage IpcConversationStore i (oc_store c)"
    "ps_get IpcPendingQueueStore i (queue_rows rows3 c3) = ps_get IpcPendingQueueStore i (queue_rows rows c)"
    "set (oc_blockedKeys c3) = set (oc_blockedKeys c)" "rr_settings res = settings" "rr_contactsRejected res = 0"
    using b by simp_all
  have "fst (ks_load (web_main wr pr) (oc_world c)) = Inr (Some (bp_identity p))" using web_moves_exported(6) [OF ok e] by simp
  then have k: "bp_identity p = keys" using web_migration.main.load_holds [OF c(3), of wr] by simp
  have w: "hw_keeps (kv_keys KEYS_KV) pr2 (Some keys) (oc_world c3)" "migration_load (fst (oc_world c3)) = bp_migrationState p"
    using web_restored_world [OF app_deps_sel(7,8,5) c2(3) r] by (simp_all add: k)
  show "fst (loadOrCreate C (web_main wr3 pr2) rs rt now (oc_world c3)) = Inr (fromStored C keys, False)"
    using web_migration.main.loadOrCreate_holds [OF w(1)] by blast
  show "migration_load (fst (oc_world c3)) = bp_migrationState p" by (rule w(2))
qed

subsection \<open>Primitives for a concrete backup\<close>

text \<open>A key is the password and the salt, and a ciphertext opens under its own key only.\<close>

definition vault :: backup_crypto where
  "vault = \<lparr>bc_pbkdf2 = (\<lambda>pw salt n. Some (frame_key pw @ salt)), bc_encrypt = (\<lambda>k iv p. frame_key k @ p),
     bc_decrypt = (\<lambda>k iv c. if take (length (frame_key k)) c = frame_key k then Some (drop (length (frame_key k)) c) else None)\<rparr>"

lemma vault_ok: "gcm_ok vault" "gcm_authentic vault"
  using keyed_crypto_ok(2) by (simp_all add: gcm_ok_def gcm_authentic_def vault_def aead_keyed_def keyed_crypto_def)

subsection \<open>A concrete device\<close>

text \<open>Alice's browser holds her keys and Bob's card.\<close>

definition alice_keys :: stored_keys where
  "alice_keys = mintStoredKeys [1] [1] ''2024-01-01T00:00:00.000Z''"

definition alice_world :: web_world where
  "alice_world = snd (ks_save (web_main (\<lambda>_. None) None) alice_keys (web_db_empty, []))"

definition alice_home :: "crypto \<Rightarrow> web_client_state" where
  "alice_home C = snd (addContactFromCard (app C) a_client_env bob_card None None
     (the (client_init alice web_db_empty alice_world [''board''] None)))"

lemma web_writes [simp]:
  "fst (ks_save (web_main (\<lambda>_. None) None) keys w) = None" "fst (ks_clear (web_main (\<lambda>_. None) None) w) = None"
  "fst (sl_save (IpcMigrationStore (\<lambda>_. None)) m w) = None" "fst (sl_clear (IpcMigrationStore (\<lambda>_. None)) w) = None"
  by (simp_all add: web_main_def HardwareBackedKeyStore_def hw_save_def hw_clear_def save_cleartext_def IpcKeyBlobStore_def kv_slot_def
      IpcMigrationStore_def migration_save_def migration_clear_def kvSet_def kvDelete_def txDone_def case_prod_beta)

lemma fresh_world: "hw_keeps (kv_keys key) None None (web_db_empty, [])" "migration_load (web_db_empty :: migration_state web_db) = None"
  by (simp_all add: hw_keeps_def hw_holds_def prov_ok_def kv_keys_def migration_load_def kvGet_def web_db_empty_def idb_get_def)

lemma alice_world_sel: "hw_keeps (kv_keys KEYS_KV) None (Some alice_keys) alice_world" "migration_load (fst alice_world) = None"
  using web_migration.main.save_holds [OF fresh_world(1), of "\<lambda>_. None" alice_keys]
    web_migration.keys_leave_state(2) [of "\<lambda>_. None" None alice_keys "(web_db_empty, [])"] fresh_world(2)
  by (simp_all add: alice_world_def)

lemma alice_home_sel:
  assumes "knows_bob C"
  shows "browser_client C None False (alice_home C)" "oc_world (alice_home C) = alice_world" "oc_worker (alice_home C) = None"
    "cv_getContact IpcConversationStore (identityKeyB64 bob) (oc_store (alice_home C)) \<noteq> None"
proof -
  let ?c = "the (client_init alice web_db_empty alice_world [''board''] None) :: web_client_state"
  have i: "client_init alice web_db_empty alice_world [''board''] None = Some ?c" by (simp add: client_init_def)
  have "browser_client C None False ?c" unfolding browser_client_def by (rule oc_reach.New [OF i]) (rule certified_empty)
  then show "browser_client C None False (alice_home C)" unfolding alice_home_def by (rule browser_app) (rule oc_step.AddCard)
  have s: "oc_identity ?c = alice" "oc_world ?c = alice_world" "oc_worker ?c = None" "oc_store ?c = web_db_empty" by (simp_all add: client_init_def)
  have k: "identityKeyB64 bob \<noteq> identityKey ?c" using keys_distinct(1) s(1) by (auto simp: identityKey_def)
  obtain x where r: "alice_home C = registerContact IpcConversationStore x ?c" "ct_identityKey x = identityKeyB64 bob"
    using assms k by (auto simp: alice_home_def addContactFromCard_def knows_bob_def contactFromCard_def Let_def)
  have ok: "web_db_ok (web_db_empty :: migration_state web_db)" using certified_empty by (simp add: certified_db_def)
  show "oc_world (alice_home C) = alice_world" "oc_worker (alice_home C) = None"
    "cv_getContact IpcConversationStore (identityKeyB64 bob) (oc_store (alice_home C)) \<noteq> None"
    using s r(2) ok by (simp_all add: r(1) registerContact_def web_conv.getContact_upsert)
qed

lemma alice_exports:
  assumes "knows_bob C" "pw \<noteq> []"
  shows "\<exists>text c'. exportBackup (app C) vault pw settings salt iv now web_db_empty (alice_home C) = (Inr text, c')"
proof -
  have "fst (ks_load (web_main (\<lambda>_. None) None) alice_world) = Inr (Some alice_keys)"
    using web_migration.main.load_holds [OF alice_world_sel(1)] by simp
  then obtain w where w: "ks_load (web_main (\<lambda>_. None) None) alice_world = (Inr (Some alice_keys), w)" by (metis prod.collapse)
  have "migration_load (fst w) = migration_load (fst alice_world)"
    using web_leaves(1) [of MIGRATION_KV KEYS_KV "\<lambda>_. None" None alice_world] w
    by (simp add: web_main_def IpcKeyBlobStore_def migration_load_def)
  then have "export_migration (app C) w = (Inr None, w)" using alice_world_sel(2) by (simp add: export_migration_def mstore_laws(1))
  then obtain p c' where p: "export_payload (app C) settings web_db_empty (alice_home C) = (Inr p, c')"
    using w by (auto simp: export_payload_def alice_home_sel(2) [OF assms(1)] app_def)
  have "\<exists>text. serializeBackup vault (payload_json p) pw None salt iv now = Some text"
    using assms(2) by (simp add: serializeBackup_def sealBackup_def deriveKey_def vault_def Let_def)
  then show ?thesis using p by (auto simp: exportBackup_def)
qed

lemma app_restores: "\<exists>res q1 c1. restoreBackup (app C) p replace imp q c = (Inr res, q1, c1)"
  by (rule restore_completes) (simp_all add: app_def)

end
