(* ===== verification/IceConfig.thy ===== *)
theory IceConfig
  imports TurnCredentials
begin

text \<open>
  \<open>apps/web/src/orpal/ice-config.ts\<close>: the ICE servers of the settings as a form, as text, and under test. A form
  keeps every server it can show, with the exceptions that \<open>form_keeps\<close> names, and what a valid form yields
  is accepted by the text editor too.
\<close>

subsection \<open>Schemes\<close>

definition isStunScheme :: "string \<Rightarrow> bool" where
  \<comment> \<open>\<open>/^stuns?:/i\<close> on the trimmed text\<close>
  "isStunScheme url = (let u = map lower (trim url) in starts_with ''stun:'' u \<or> starts_with ''stuns:'' u)"

definition is_letter :: "char \<Rightarrow> bool" where
  "is_letter c = (let n = (of_char (lower c) :: nat) in 97 \<le> n \<and> n \<le> 122)"

definition hasScheme :: "string \<Rightarrow> bool" where
  \<comment> \<open>\<open>/^[a-z]+:/i\<close> on the trimmed text\<close>
  "hasScheme url = (let u = trim url in takeWhile is_letter u \<noteq> [] \<and> starts_with '':'' (dropWhile is_letter u))"

subsection \<open>The form\<close>

record turn_entry =
  te_url :: string
  te_username :: string
  te_credential :: string

record ice_form =
  if_stunUrl :: string
  if_turns :: "turn_entry list"

definition many_urls :: "json \<Rightarrow> bool" where
  "many_urls s = (case jprop s ''urls'' of Some (JArr _) \<Rightarrow> True | _ \<Rightarrow> False)"

fun simple_from :: "nat \<Rightarrow> json list \<Rightarrow> bool" where
  "simple_from stunCount [] = (stunCount \<le> 1)"
| "simple_from stunCount (s # rest) =
     (if many_urls s then False
      else if isStunScheme (jstr (jprop s ''urls'')) then simple_from (stunCount + 1) rest
      else if \<not> isTurnScheme (jstr (jprop s ''urls'')) then False
      else simple_from stunCount rest)"

definition isSimpleConfig :: "json list \<Rightarrow> bool" where
  "isSimpleConfig servers = simple_from 0 servers"

definition form_url :: "json \<Rightarrow> string \<Rightarrow> ice_form \<Rightarrow> ice_form" where
  "form_url s url f =
     (if isTurnScheme url
      then f\<lparr>if_turns := if_turns f @ [\<lparr>te_url = url, te_username = jstr (jprop s ''username''), te_credential = jstr (jprop s ''credential'')\<rparr>]\<rparr>
      else if isStunScheme url \<and> if_stunUrl f = [] then f\<lparr>if_stunUrl := url\<rparr>
      else f)"

definition iceServersToForm :: "json list \<Rightarrow> ice_form" where
  "iceServersToForm servers = fold (\<lambda>s. fold (form_url s) (urlsOf s)) servers \<lparr>if_stunUrl = [], if_turns = []\<rparr>"

definition stun_server :: "string \<Rightarrow> json" where
  "stun_server url = JObj [(''urls'', JStr url)]"

definition turn_server :: "turn_entry \<Rightarrow> json" where
  "turn_server t = JObj [(''urls'', JStr (trim (te_url t))), (''username'', JStr (te_username t)), (''credential'', JStr (te_credential t))]"

definition formToIceServers :: "ice_form \<Rightarrow> json list" where
  "formToIceServers f =
     (if trim (if_stunUrl f) \<noteq> [] then [stun_server (trim (if_stunUrl f))] else [])
     @ map turn_server (filter (\<lambda>t. trim (te_url t) \<noteq> []) (if_turns f))"

text \<open>The quotation marks of the messages are two characters outside ASCII, in UTF-8.\<close>

definition quoted :: "string \<Rightarrow> string" where
  "quoted s = [CHR 0xE2, CHR 0x80, CHR 0x9C] @ s @ [CHR 0xE2, CHR 0x80, CHR 0x9D]"

definition turn_errors :: "nat \<Rightarrow> nat \<times> turn_entry \<Rightarrow> string list" where
  "turn_errors n p = (case p of (i, t) \<Rightarrow>
     (let url = trim (te_url t); label = (if 1 < n then '' #'' @ show_nat (i + 1) else [])
      in if url = [] then []
         else (if \<not> isTurnScheme url then [''TURN server'' @ label @ '' URL must start with '' @ quoted ''turn:'' @ '' (or '' @ quoted ''turns:'' @ '').''] else [])
           @ (if trim (te_username t) = [] \<or> trim (te_credential t) = []
              then [''TURN server'' @ label @ '' needs both a username and a credential.''] else [])))"

definition validateForm :: "ice_form \<Rightarrow> string list" where
  "validateForm f =
     (if trim (if_stunUrl f) \<noteq> [] \<and> \<not> isStunScheme (if_stunUrl f)
      then [''STUN URL must start with '' @ quoted ''stun:'' @ '' (or '' @ quoted ''stuns:'' @ ''), e.g. stun:stun.l.google.com:19302.''] else [])
     @ concat (map (turn_errors (length (if_turns f))) (enumerate 0 (if_turns f)))"

subsection \<open>The text editor\<close>

definition bad_url :: "json \<Rightarrow> bool" where
  "bad_url u = (case u of JStr s \<Rightarrow> \<not> hasScheme s | _ \<Rightarrow> True)"

definition entry_error :: "nat \<Rightarrow> json \<Rightarrow> string option" where
  "entry_error i s =
     (case (if is_obj s then jprop s ''urls'' else None) of
        None \<Rightarrow> Some (''Entry #'' @ show_nat (i + 1) @ '' is missing a \"urls\" field.'')
      | Some u \<Rightarrow>
          if (\<exists>x\<in>set (case u of JArr us \<Rightarrow> us | _ \<Rightarrow> [u]). bad_url x)
          then Some (''Entry #'' @ show_nat (i + 1) @ '' has a URL with no scheme (expected stun:/turn:/stuns:/turns:).'') else None)"

fun first_error :: "nat \<Rightarrow> json list \<Rightarrow> string option" where
  "first_error i [] = None"
| "first_error i (s # rest) = (case entry_error i s of Some e \<Rightarrow> Some e | None \<Rightarrow> first_error (i + 1) rest)"

definition parseIceJson :: "string \<Rightarrow> string \<Rightarrow> string + json list" where
  \<comment> \<open>\<open>why\<close> is the message of the parser\<close>
  "parseIceJson why text =
     (case json_parse text of
        None \<Rightarrow> Inl (''Not valid JSON: '' @ why)
      | Some (JArr parsed) \<Rightarrow> (case first_error 0 parsed of Some e \<Rightarrow> Inl e | None \<Rightarrow> Inr parsed)
      | Some _ \<Rightarrow> Inl (''ICE servers must be a JSON array of { urls, '' @ [CHR 0xE2, CHR 0x80, CHR 0xA6] @ '' } objects.''))"

subsection \<open>Testing a connection\<close>

definition configHasTurn :: "json list \<Rightarrow> bool" where
  "configHasTurn servers = (\<exists>s\<in>set servers. \<exists>u\<in>set (urlsOf s). isTurnScheme u)"

record ice_test =
  it_srflx :: bool
  it_relay :: bool
  it_host :: bool
  it_candidateCount :: nat
  it_errors :: "string list"

text \<open>What the browser reports while it gathers, and the timer that ends the wait.\<close>

datatype gather_event = GatherComplete | Candidate "string option" | GatherEnd
  | CandidateError nat "string option" string | GatherTimeout

definition no_test :: ice_test where
  "no_test = \<lparr>it_srflx = False, it_relay = False, it_host = False, it_candidateCount = 0, it_errors = []\<rparr>"

definition gather :: "gather_event \<Rightarrow> ice_test \<Rightarrow> ice_test" where
  "gather ev r = (case ev of
       Candidate t \<Rightarrow>
         (let r1 = r\<lparr>it_candidateCount := it_candidateCount r + 1\<rparr>
          in if t = Some ''srflx'' then r1\<lparr>it_srflx := True\<rparr>
             else if t = Some ''relay'' then r1\<lparr>it_relay := True\<rparr>
             else if t = Some ''host'' then r1\<lparr>it_host := True\<rparr>
             else r1)
     | CandidateError code message url \<Rightarrow>
         if code \<noteq> 0 \<and> code \<noteq> 600
         then r\<lparr>it_errors := it_errors r @ [show_nat code @ '' '' @ or_default message ''ICE error'' @ (if url \<noteq> [] then '' ('' @ url @ '')'' else [])]\<rparr>
         else r
     | _ \<Rightarrow> r)"

definition ends_gathering :: "gather_event \<Rightarrow> bool" where
  "ends_gathering ev = (ev \<in> {GatherComplete, GatherTimeout})"

definition testIceServers :: "bool \<Rightarrow> gather_event list \<Rightarrow> ice_test" where
  "testIceServers hasWebRTC events =
     (if \<not> hasWebRTC then no_test\<lparr>it_errors := [''WebRTC is not available in this browser.'']\<rparr>
      else fold gather (takeWhile (\<lambda>ev. \<not> ends_gathering ev) events) no_test)"

subsection \<open>Trimming and schemes\<close>

lemma dropWhile_rev:
  assumes "dropWhile P a = a"
  shows "dropWhile P (rev (dropWhile P (rev a))) = rev (dropWhile P (rev a))"
proof -
  let ?b = "rev (dropWhile P (rev a))"
  have a: "a = ?b @ rev (takeWhile P (rev a))" by (metis rev_append rev_rev_ident takeWhile_dropWhile_id)
  have "\<not> P (hd ?b)" if "?b \<noteq> []"
  proof -
    have "hd a = hd ?b" using that a by (metis hd_append2)
    moreover have "a \<noteq> []" using that by auto
    ultimately show ?thesis using assms by (metis dropWhile_eq_self_iff)
  qed
  then show ?thesis unfolding dropWhile_eq_self_iff by blast
qed

lemma trim_trim [simp]: "trim (trim s) = trim s"
proof -
  have "dropWhile is_space (trim s) = trim s" unfolding trim_def by (rule dropWhile_rev) simp
  then show ?thesis by (simp add: trim_def)
qed

lemma lower_colon: "lower c = CHR '':'' \<Longrightarrow> c = CHR '':''"
proof -
  assume a: "lower c = CHR '':''"
  have "\<not> (65 \<le> (of_char c :: nat) \<and> of_char c \<le> (90 :: nat))"
  proof
    assume r: "65 \<le> (of_char c :: nat) \<and> of_char c \<le> (90 :: nat)"
    then have "(of_char (lower c) :: nat) = of_char c + 32" by (simp add: lower_def Let_def)
    then show False using r a by simp
  qed
  then show "c = CHR '':''" using a by (auto simp: lower_def Let_def split: if_splits)
qed

lemma is_letter_lower: "is_letter (lower c) \<Longrightarrow> is_letter c"
  by (simp add: is_letter_def Let_def lower_def split: if_splits)

lemma scheme_letters:
  assumes "starts_with (w @ '':'') (map lower u)" "\<forall>c\<in>set w. is_letter c" "w \<noteq> []"
  shows "takeWhile is_letter u \<noteq> [] \<and> starts_with '':'' (dropWhile is_letter u)"
proof -
  have "starts_with (w @ '':'') (map lower u) \<Longrightarrow> \<forall>c\<in>set w. is_letter c \<Longrightarrow> starts_with '':'' (dropWhile is_letter u)" for w
  proof (induction w arbitrary: u)
    case Nil
    then obtain c r where u: "u = c # r" "lower c = CHR '':''" by (cases u) (auto simp: starts_with_def)
    then have c: "c = CHR '':''" by (simp add: lower_colon)
    show ?case by (simp add: u(1) c is_letter_def lower_def Let_def starts_with_def)
  next
    case (Cons a w)
    then obtain c r where u: "u = c # r" "lower c = a" "starts_with (w @ '':'') (map lower r)" by (cases u) (auto simp: starts_with_def)
    then have "is_letter c" using Cons.prems(2) is_letter_lower by simp
    then show ?case using Cons.IH [OF u(3)] Cons.prems(2) u(1) by simp
  qed
  moreover have "takeWhile is_letter u \<noteq> []"
  proof -
    obtain a w' where w: "w = a # w'" using assms(3) by (cases w) auto
    then obtain c r where "u = c # r" "lower c = a" using assms(1) by (cases u) (auto simp: starts_with_def)
    then show ?thesis using assms(2) w is_letter_lower by simp
  qed
  ultimately show ?thesis using assms(1,2) by blast
qed

lemma letters: "\<forall>c\<in>set ''turn''. is_letter c" "\<forall>c\<in>set ''turns''. is_letter c" "\<forall>c\<in>set ''stun''. is_letter c" "\<forall>c\<in>set ''stuns''. is_letter c"
  by (simp_all add: is_letter_def lower_def Let_def)

lemma schemed: "isStunScheme url \<or> isTurnScheme url \<Longrightarrow> hasScheme (trim url)"
  using scheme_letters [OF _ letters(1), of "trim url"] scheme_letters [OF _ letters(2), of "trim url"]
    scheme_letters [OF _ letters(3), of "trim url"] scheme_letters [OF _ letters(4), of "trim url"]
  by (auto simp: isStunScheme_def isTurnScheme_def hasScheme_def Let_def)

lemma not_both: "isStunScheme url \<Longrightarrow> \<not> isTurnScheme url"
  by (cases "map lower (trim url)") (auto simp: isStunScheme_def isTurnScheme_def Let_def starts_with_def)

lemma trimmed_scheme [simp]: "isTurnScheme (trim url) = isTurnScheme url" "isStunScheme (trim url) = isStunScheme url"
  by (simp_all add: isTurnScheme_def isStunScheme_def)

subsection \<open>What the form keeps\<close>

lemma server_props [simp]: "urlsOf (stun_server u) = [u]" "urlsOf (turn_server t) = [trim (te_url t)]"
  "jprop (stun_server u) ''urls'' = Some (JStr u)" "jprop (turn_server t) ''urls'' = Some (JStr (trim (te_url t)))"
  "jprop (turn_server t) ''username'' = Some (JStr (te_username t))" "jprop (turn_server t) ''credential'' = Some (JStr (te_credential t))"
  by (simp_all add: urlsOf_def stun_server_def turn_server_def)

definition plain_server :: "json \<Rightarrow> bool" where
  \<comment> \<open>a STUN server without credentials, or a TURN server with them\<close>
  "plain_server s = ((\<exists>u. s = stun_server u \<and> isStunScheme u \<and> trim u = u) \<or> (\<exists>t. s = turn_server t \<and> isTurnScheme (te_url t)))"

definition has_stun :: "json \<Rightarrow> bool" where
  "has_stun s = isStunScheme (jstr (jprop s ''urls''))"

lemma scheme_nonempty: "isStunScheme u \<Longrightarrow> trim u \<noteq> []" "isTurnScheme u \<Longrightarrow> trim u \<noteq> []"
  by (auto simp: isStunScheme_def isTurnScheme_def Let_def starts_with_def)

definition turn_of :: "json \<Rightarrow> turn_entry" where
  "turn_of s = \<lparr>te_url = jstr (jprop s ''urls''), te_username = jstr (jprop s ''username''), te_credential = jstr (jprop s ''credential'')\<rparr>"

lemma plain_cases:
  assumes "plain_server s"
  obtains (stun) u where "s = stun_server u" "isStunScheme u" "trim u = u" "u \<noteq> []" "has_stun s" "\<not> isTurnScheme u"
    | (turn) "turn_server (turn_of s) = s" "\<not> has_stun s" "urlsOf s = [te_url (turn_of s)]" "isTurnScheme (te_url (turn_of s))"
      "\<not> isStunScheme (te_url (turn_of s))"
proof -
  consider (a) u where "s = stun_server u" "isStunScheme u" "trim u = u" | (b) t where "s = turn_server t" "isTurnScheme (te_url t)"
    using assms unfolding plain_server_def by blast
  then show thesis
  proof cases
    case a
    then show thesis using stun [of u] scheme_nonempty(1) [of u] not_both [of u] by (auto simp: has_stun_def)
  next
    case b
    then show thesis using turn not_both [of "te_url t"] by (auto simp: has_stun_def turn_of_def turn_server_def urlsOf_def)
  qed
qed

lemma simple_count: "simple_from n servers \<Longrightarrow> n + length (filter has_stun servers) \<le> 1"
  by (induction n servers rule: simple_from.induct) (auto simp: has_stun_def split: if_splits)

lemma form_of_plain:
  assumes "\<forall>s\<in>set servers. plain_server s" "(if if_stunUrl f = [] then 0 else 1) + length (filter has_stun servers) \<le> (1 :: nat)"
  shows "fold (\<lambda>s. fold (form_url s) (urlsOf s)) servers f =
    \<lparr>if_stunUrl = (case filter has_stun servers of [] \<Rightarrow> if_stunUrl f | s # _ \<Rightarrow> jstr (jprop s ''urls'')),
      if_turns = if_turns f @ map turn_of (filter (\<lambda>s. \<not> has_stun s) servers)\<rparr>"
  using assms
proof (induction servers arbitrary: f)
  case (Cons s servers)
  have "plain_server s" using Cons.prems(1) by simp
  then show ?case
  proof (cases rule: plain_cases)
    case (stun u)
    then have f: "if_stunUrl f = []" "filter has_stun servers = []" using Cons.prems(2) by (auto split: if_splits)
    have "fold (form_url s) (urlsOf s) f = f\<lparr>if_stunUrl := u\<rparr>" using stun f by (simp add: form_url_def)
    then show ?thesis using Cons.IH [of "f\<lparr>if_stunUrl := u\<rparr>"] Cons.prems(1) stun f by (simp cong: list.case_cong)
  next
    case turn
    have "fold (form_url s) (urlsOf s) f = f\<lparr>if_turns := if_turns f @ [turn_of s]\<rparr>" using turn by (simp add: form_url_def turn_of_def)
    then show ?thesis using Cons.IH [of "f\<lparr>if_turns := if_turns f @ [turn_of s]\<rparr>"] Cons.prems turn by (simp cong: list.case_cong)
  qed
qed simp

text \<open>A simple configuration of plain servers comes back from the form, its STUN server first.\<close>

lemma form_keeps:
  assumes "\<forall>s\<in>set servers. plain_server s" "isSimpleConfig servers"
  shows "formToIceServers (iceServersToForm servers) = filter has_stun servers @ filter (\<lambda>s. \<not> has_stun s) servers"
proof -
  let ?f = "iceServersToForm servers"
  have c: "length (filter has_stun servers) \<le> 1" using simple_count [of 0 servers] assms(2) by (simp add: isSimpleConfig_def)
  have f: "?f = \<lparr>if_stunUrl = (case filter has_stun servers of [] \<Rightarrow> [] | s # _ \<Rightarrow> jstr (jprop s ''urls'')),
      if_turns = map turn_of (filter (\<lambda>s. \<not> has_stun s) servers)\<rparr>"
    unfolding iceServersToForm_def using form_of_plain [OF assms(1), of "\<lparr>if_stunUrl = [], if_turns = []\<rparr>"] c by (simp cong: list.case_cong)
  have t: "turn_server (turn_of s) = s \<and> trim (te_url (turn_of s)) \<noteq> []" if "s \<in> set servers" "\<not> has_stun s" for s
    using assms(1) that scheme_nonempty(2) by (metis plain_cases)
  have a: "filter (\<lambda>t. trim (te_url t) \<noteq> []) (map turn_of (filter (\<lambda>s. \<not> has_stun s) servers)) = map turn_of (filter (\<lambda>s. \<not> has_stun s) servers)"
    using t by (auto simp: filter_id_conv)
  have b: "map (turn_server \<circ> turn_of) (filter (\<lambda>s. \<not> has_stun s) servers) = filter (\<lambda>s. \<not> has_stun s) servers"
    using t by (auto intro: map_idI)
  have cc: "(let u = if_stunUrl ?f in if trim u \<noteq> [] then [stun_server (trim u)] else []) = filter has_stun servers"
  proof (cases "filter has_stun servers")
    case Nil
    then show ?thesis by (simp add: f trim_def)
  next
    case (Cons s r)
    then have s: "s \<in> set servers" "has_stun s" "r = []" using c filter_eq_ConsD [OF Cons] by (auto simp: Cons)
    then obtain u where "s = stun_server u" "trim u = u" "u \<noteq> []" using assms(1) by (metis plain_cases)
    then show ?thesis using Cons s(3) by (simp add: f)
  qed
  have form: "formToIceServers ?f = (let u = if_stunUrl ?f in if trim u \<noteq> [] then [stun_server (trim u)] else [])
      @ map turn_server (filter (\<lambda>t. trim (te_url t) \<noteq> []) (if_turns ?f))"
    by (simp only: formToIceServers_def Let_def)
  have "if_turns ?f = map turn_of (filter (\<lambda>s. \<not> has_stun s) servers)" by (simp add: f)
  then show ?thesis using b unfolding form cc by (simp only: a map_map)
qed

text \<open>A form without errors yields servers that the text editor accepts.\<close>

lemma first_error_None: "(\<And>s. s \<in> set xs \<Longrightarrow> \<forall>i. entry_error i s = None) \<Longrightarrow> first_error i xs = None"
  by (induction xs arbitrary: i) auto

lemma valid_form_accepted:
  assumes "validateForm f = []"
  shows "parseIceJson why (json_str (JArr (formToIceServers f))) = Inr (formToIceServers f)"
proof -
  have st: "trim (if_stunUrl f) \<noteq> [] \<Longrightarrow> isStunScheme (if_stunUrl f)" using assms by (auto simp: validateForm_def split: if_splits)
  have tu: "isTurnScheme (te_url t)" if t: "t \<in> set (if_turns f)" "trim (te_url t) \<noteq> []" for t
  proof -
    obtain i where i: "i < length (if_turns f)" "if_turns f ! i = t" using t(1) by (auto simp: in_set_conv_nth)
    then have "(i, t) \<in> set (enumerate 0 (if_turns f))" by (auto simp: in_set_enumerate_eq)
    then have "turn_errors (length (if_turns f)) (i, t) = []" using assms by (auto simp: validateForm_def)
    then show ?thesis using t(2) by (auto simp: turn_errors_def Let_def split: if_splits)
  qed
  have e: "entry_error i s = None" if "s \<in> set (formToIceServers f)" for i s
  proof -
    have "\<exists>u. jprop s ''urls'' = Some (JStr u) \<and> hasScheme u \<and> is_obj s"
      using that st tu schemed by (auto simp: formToIceServers_def stun_server_def turn_server_def is_obj_def split: if_splits)
    then show ?thesis by (auto simp: entry_error_def bad_url_def)
  qed
  have "wf_json (JArr (formToIceServers f))" by (auto simp: formToIceServers_def stun_server_def turn_server_def)
  then have "json_parse (json_str (JArr (formToIceServers f))) = Some (JArr (formToIceServers f))" by simp
  then show ?thesis using first_error_None [of "formToIceServers f" 0] e by (simp add: parseIceJson_def)
qed

text \<open>Credentials of a STUN server are not shown in the form, and saving it drops them.\<close>

lemma stun_credentials_dropped:
  "isSimpleConfig [JObj [(''urls'', JStr ''stun:a''), (''username'', JStr ''me'')]]"
  "formToIceServers (iceServersToForm [JObj [(''urls'', JStr ''stun:a''), (''username'', JStr ''me'')]]) = [stun_server ''stun:a'']"
  by code_simp+

end
