(* ===== verification/Broker.thy ===== *)
theory Broker
  imports Json
begin

text \<open>
  \<open>packages/orpal-core/src/broker/browser-broker.ts\<close>: the connection to a board over the browser's WebSocket.
  Messages wait while no socket is open, and a lost socket is replaced after a growing delay. The socket and
  the timer are the browser's: what they do is an event, and the constructor of a socket may throw. A
  connection never has a socket and a timer at once, and it sends what it was given, in order, once.
\<close>

subsection \<open>State\<close>

record broker_options =
  bo_reconnect :: "bool option"
  bo_reconnectInitialMs :: "rat option"
  bo_reconnectMaxMs :: "rat option"
  bo_maxReconnectAttempts :: "nat option"

datatype ready_state = WsConnecting | WsOpen | WsClosing

text \<open>What the hooks of the options are told.\<close>

datatype broker_hook = HookOpen | HookClose nat string bool | HookError | HookMalformed string

record board_conn =
  bc_ws :: "ready_state option"
  bc_waiting :: "json list"
  bc_closedByCaller :: bool
  bc_reconnectAttempts :: nat
  bc_reconnectTimer :: "rat option"
  bc_reconnectEnabled :: bool
  bc_initialMs :: rat
  bc_maxMs :: rat
  bc_maxAttempts :: "nat option"
  bc_wire :: "string list"
  bc_closes :: "nat list"
  bc_delays :: "rat list"
  bc_received :: "json list"
  bc_hooks :: "broker_hook list"

definition NORMAL_CLOSURE :: nat where "NORMAL_CLOSURE = 1000"

definition attempts_left :: "board_conn \<Rightarrow> bool" where
  \<comment> \<open>no maximum is infinity\<close>
  "attempts_left c = (case bc_maxAttempts c of None \<Rightarrow> True | Some n \<Rightarrow> bc_reconnectAttempts c < n)"

subsection \<open>Operations\<close>

definition scheduleReconnect :: "board_conn \<Rightarrow> board_conn" where
  "scheduleReconnect c =
     (if bc_closedByCaller c \<or> \<not> bc_reconnectEnabled c then c
      else if \<not> attempts_left c then c
      else let delay = min (bc_maxMs c) (bc_initialMs c * 2 ^ bc_reconnectAttempts c)
           in c\<lparr>bc_reconnectAttempts := bc_reconnectAttempts c + 1, bc_reconnectTimer := Some delay, bc_delays := bc_delays c @ [delay]\<rparr>)"

definition bk_hook :: "broker_hook \<Rightarrow> board_conn \<Rightarrow> board_conn" where
  "bk_hook h c = c\<lparr>bc_hooks := bc_hooks c @ [h]\<rparr>"

definition bk_open :: "bool \<Rightarrow> board_conn \<Rightarrow> board_conn" where
  \<comment> \<open>\<open>throws\<close>: the constructor of the socket throws\<close>
  "bk_open throws c = (if throws then scheduleReconnect (bk_hook HookError c) else c\<lparr>bc_ws := Some WsConnecting\<rparr>)"

definition bk_connect :: "broker_options \<Rightarrow> bool \<Rightarrow> board_conn" where
  "bk_connect opts throws = bk_open throws
     \<lparr>bc_ws = None, bc_waiting = [], bc_closedByCaller = False, bc_reconnectAttempts = 0, bc_reconnectTimer = None,
      bc_reconnectEnabled = or_default (bo_reconnect opts) True, bc_initialMs = or_default (bo_reconnectInitialMs opts) 500,
      bc_maxMs = or_default (bo_reconnectMaxMs opts) 10000, bc_maxAttempts = bo_maxReconnectAttempts opts,
      bc_wire = [], bc_closes = [], bc_delays = [], bc_received = [], bc_hooks = []\<rparr>"

definition bk_send :: "json \<Rightarrow> board_conn \<Rightarrow> board_conn" where
  "bk_send msg c =
     (if bc_closedByCaller c then c
      else if bc_ws c = Some WsOpen then c\<lparr>bc_wire := bc_wire c @ [json_str msg]\<rparr>
      else c\<lparr>bc_waiting := bc_waiting c @ [msg]\<rparr>)"

definition bk_close :: "board_conn \<Rightarrow> board_conn" where
  \<comment> \<open>closing the socket makes it closing, until its event\<close>
  "bk_close c = c\<lparr>bc_closedByCaller := True, bc_reconnectTimer := None, bc_waiting := [],
     bc_ws := map_option (\<lambda>_. WsClosing) (bc_ws c), bc_closes := bc_closes c @ (case bc_ws c of None \<Rightarrow> [] | Some _ \<Rightarrow> [NORMAL_CLOSURE])\<rparr>"

definition bk_flush :: "board_conn \<Rightarrow> board_conn" where
  "bk_flush c = (if bc_ws c \<noteq> Some WsOpen then c else c\<lparr>bc_wire := bc_wire c @ map json_str (bc_waiting c), bc_waiting := []\<rparr>)"

text \<open>The listeners of the socket, and the timer.\<close>

definition on_open :: "board_conn \<Rightarrow> board_conn" where
  "on_open c = bk_hook HookOpen (bk_flush (c\<lparr>bc_ws := Some WsOpen, bc_reconnectAttempts := 0\<rparr>))"

definition on_message :: "string \<Rightarrow> board_conn \<Rightarrow> board_conn" where
  "on_message raw c = (case json_parse raw of
       None \<Rightarrow> bk_hook (HookMalformed raw) c
     | Some msg \<Rightarrow> c\<lparr>bc_received := bc_received c @ [msg]\<rparr>)"

definition on_error :: "board_conn \<Rightarrow> board_conn" where
  "on_error c = bk_hook HookError c"

definition on_close :: "nat \<Rightarrow> string \<Rightarrow> board_conn \<Rightarrow> board_conn" where
  "on_close code reason c =
     (let c1 = c\<lparr>bc_ws := None\<rparr>;
          willReconnect = (\<not> bc_closedByCaller c1 \<and> bc_reconnectEnabled c1 \<and> attempts_left c1);
          c2 = bk_hook (HookClose code reason willReconnect) c1
      in if willReconnect then scheduleReconnect c2 else c2)"

definition on_timer :: "bool \<Rightarrow> board_conn \<Rightarrow> board_conn" where
  "on_timer throws c =
     (let c1 = c\<lparr>bc_reconnectTimer := None\<rparr> in if \<not> bc_closedByCaller c1 then bk_open throws c1 else c1)"

subsection \<open>Steps\<close>

text \<open>
  An open event comes to a connecting socket, messages to an open one; a socket may be closing before its
  close event. The list is what the caller has sent so far.
\<close>

inductive bk_step :: "board_conn \<times> json list \<Rightarrow> board_conn \<times> json list \<Rightarrow> bool" where
  Send: "bk_step (c, sent) (bk_send m c, if bc_closedByCaller c then sent else sent @ [m])"
| CallerCloses: "bk_step (c, sent) (bk_close c, sent)"
| Opens: "bc_ws c = Some WsConnecting \<Longrightarrow> bk_step (c, sent) (on_open c, sent)"
| Receives: "bc_ws c = Some WsOpen \<Longrightarrow> bk_step (c, sent) (on_message raw c, sent)"
| Errs: "bc_ws c \<noteq> None \<Longrightarrow> bk_step (c, sent) (on_error c, sent)"
| Closing: "bc_ws c \<noteq> None \<Longrightarrow> bk_step (c, sent) (c\<lparr>bc_ws := Some WsClosing\<rparr>, sent)"
| Closes: "bc_ws c \<noteq> None \<Longrightarrow> bk_step (c, sent) (on_close code reason c, sent)"
| Fires: "bc_reconnectTimer c \<noteq> None \<Longrightarrow> bk_step (c, sent) (on_timer throws c, sent)"

inductive bk_reach :: "broker_options \<Rightarrow> board_conn \<times> json list \<Rightarrow> bool" for opts where
  Connect: "bk_reach opts (bk_connect opts throws, [])"
| Step: "bk_reach opts s \<Longrightarrow> bk_step s s' \<Longrightarrow> bk_reach opts s'"

subsection \<open>The invariant\<close>

definition fifo :: "board_conn \<Rightarrow> json list \<Rightarrow> bool" where
  \<comment> \<open>everything is on the wire or waits, in order; closing drops what waits\<close>
  "fifo c sent = (if bc_closedByCaller c then bc_waiting c = [] \<and> (\<exists>n. bc_wire c = map json_str (take n sent))
     else bc_wire c @ map json_str (bc_waiting c) = map json_str sent)"

definition one_path :: "board_conn \<Rightarrow> bool" where
  \<comment> \<open>a socket or a timer, never both, and neither only at the end\<close>
  "one_path c = ((bc_ws c = None \<or> bc_reconnectTimer c = None) \<and> (bc_closedByCaller c \<longrightarrow> bc_reconnectTimer c = None)
     \<and> (bc_ws c = Some WsOpen \<longrightarrow> bc_waiting c = [])
     \<and> (bc_ws c = None \<and> bc_reconnectTimer c = None \<longrightarrow> bc_closedByCaller c \<or> \<not> bc_reconnectEnabled c \<or> \<not> attempts_left c))"

definition paced :: "broker_options \<Rightarrow> board_conn \<Rightarrow> bool" where
  "paced opts c = (bc_reconnectEnabled c = or_default (bo_reconnect opts) True \<and> bc_initialMs c = or_default (bo_reconnectInitialMs opts) 500
     \<and> bc_maxMs c = or_default (bo_reconnectMaxMs opts) 10000 \<and> bc_maxAttempts c = bo_maxReconnectAttempts opts
     \<and> (\<forall>n. bc_maxAttempts c = Some n \<longrightarrow> bc_reconnectAttempts c \<le> n)
     \<and> (\<forall>d\<in>set (bc_delays c). \<exists>k. d = min (bc_maxMs c) (bc_initialMs c * 2 ^ k)) \<and> (\<forall>d. bc_reconnectTimer c = Some d \<longrightarrow> d \<in> set (bc_delays c)))"

definition bk_ok :: "broker_options \<Rightarrow> board_conn \<Rightarrow> json list \<Rightarrow> bool" where
  "bk_ok opts c sent = (fifo c sent \<and> one_path c \<and> paced opts c)"

lemma attempts_left_sel [simp]:
  "attempts_left (c\<lparr>bc_ws := w\<rparr>) = attempts_left c" "attempts_left (c\<lparr>bc_waiting := q\<rparr>) = attempts_left c"
  "attempts_left (c\<lparr>bc_closedByCaller := b\<rparr>) = attempts_left c" "attempts_left (c\<lparr>bc_reconnectTimer := t\<rparr>) = attempts_left c"
  "attempts_left (c\<lparr>bc_wire := f\<rparr>) = attempts_left c" "attempts_left (c\<lparr>bc_received := r\<rparr>) = attempts_left c"
  "attempts_left (c\<lparr>bc_hooks := h\<rparr>) = attempts_left c" "attempts_left (c\<lparr>bc_closes := x\<rparr>) = attempts_left c"
  by (simp_all add: attempts_left_def cong: option.case_cong)

lemma paced_sel [simp]:
  "paced opts (c\<lparr>bc_ws := w\<rparr>) = paced opts c" "paced opts (c\<lparr>bc_waiting := q\<rparr>) = paced opts c"
  "paced opts (c\<lparr>bc_closedByCaller := b\<rparr>) = paced opts c" "paced opts (c\<lparr>bc_wire := f\<rparr>) = paced opts c"
  "paced opts (c\<lparr>bc_received := r\<rparr>) = paced opts c" "paced opts (c\<lparr>bc_hooks := h\<rparr>) = paced opts c"
  "paced opts (c\<lparr>bc_closes := x\<rparr>) = paced opts c" "paced opts c \<Longrightarrow> paced opts (c\<lparr>bc_reconnectTimer := None\<rparr>)"
  "paced opts c \<Longrightarrow> paced opts (c\<lparr>bc_reconnectAttempts := 0\<rparr>)"
  by (auto simp: paced_def)

lemma received_sel [simp]: "fifo (c\<lparr>bc_received := r\<rparr>) sent = fifo c sent" "one_path (c\<lparr>bc_received := r\<rparr>) = one_path c"
  by (simp_all add: fifo_def one_path_def)

lemma bk_hook_sel [simp]:
  "fifo (bk_hook h c) sent = fifo c sent" "one_path (bk_hook h c) = one_path c" "paced opts (bk_hook h c) = paced opts c"
  "bc_closedByCaller (bk_hook h c) = bc_closedByCaller c" "bc_reconnectEnabled (bk_hook h c) = bc_reconnectEnabled c"
  "attempts_left (bk_hook h c) = attempts_left c" "bc_ws (bk_hook h c) = bc_ws c" "bc_reconnectTimer (bk_hook h c) = bc_reconnectTimer c"
  by (simp_all add: bk_hook_def fifo_def one_path_def paced_def)

lemma schedule_fifo [simp]: "fifo (scheduleReconnect c) sent = fifo c sent"
  by (simp add: scheduleReconnect_def fifo_def Let_def)

lemma schedule_paced: "paced opts c \<Longrightarrow> paced opts (scheduleReconnect c)"
  by (auto simp: scheduleReconnect_def paced_def attempts_left_def Let_def split: option.splits)

lemma schedule_path:
  assumes "bc_ws c = None" "bc_closedByCaller c \<Longrightarrow> bc_reconnectTimer c = None"
  shows "one_path (scheduleReconnect c)"
  using assms by (auto simp: scheduleReconnect_def one_path_def Let_def attempts_left_def)

lemma bk_connect_ok: "bk_ok opts (bk_connect opts throws) []"
proof -
  let ?c = "\<lparr>bc_ws = None, bc_waiting = [], bc_closedByCaller = False, bc_reconnectAttempts = 0, bc_reconnectTimer = None,
      bc_reconnectEnabled = or_default (bo_reconnect opts) True, bc_initialMs = or_default (bo_reconnectInitialMs opts) 500,
      bc_maxMs = or_default (bo_reconnectMaxMs opts) 10000, bc_maxAttempts = bo_maxReconnectAttempts opts,
      bc_wire = [], bc_closes = [], bc_delays = [], bc_received = [], bc_hooks = []\<rparr>"
  have p: "paced opts ?c" "fifo ?c []" by (simp_all add: paced_def fifo_def)
  then show ?thesis
    by (cases throws) (auto simp: bk_ok_def bk_connect_def bk_open_def schedule_paced schedule_path,
      auto simp: fifo_def one_path_def paced_def)
qed

lemma bk_open_ok:
  assumes "bk_ok opts (c\<lparr>bc_reconnectTimer := x\<rparr>) sent" "bc_ws c = None" "\<not> bc_closedByCaller c" "bc_reconnectTimer c = None"
  shows "bk_ok opts (bk_open throws c) sent"
proof -
  have k: "fifo c sent" "paced opts c" using assms(1,4) by (auto simp: bk_ok_def fifo_def paced_def)
  show ?thesis
  proof (cases throws)
    case True
    then show ?thesis using k assms(2,4) by (simp add: bk_ok_def bk_open_def schedule_paced schedule_path)
  next
    case False
    then show ?thesis using k assms(2-4) by (auto simp: bk_ok_def bk_open_def fifo_def one_path_def paced_def)
  qed
qed

lemma bk_ok_step:
  assumes "bk_step s s'" "bk_ok opts (fst s) (snd s)"
  shows "bk_ok opts (fst s') (snd s')"
  using assms
proof (induction rule: bk_step.induct)
  case (Send c sent m)
  then have ok: "fifo c sent" "one_path c" "paced opts c" by (simp_all add: bk_ok_def)
  have "fifo (bk_send m c) (if bc_closedByCaller c then sent else sent @ [m])"
    using ok(1,2) by (auto simp: bk_send_def fifo_def one_path_def)
  moreover have "one_path (bk_send m c)" using ok(2) by (auto simp: bk_send_def one_path_def)
  moreover have "paced opts (bk_send m c)" using ok(3) by (simp add: bk_send_def)
  ultimately show ?case by (simp add: bk_ok_def)
next
  case (CallerCloses c sent)
  have "\<exists>n. bc_wire c = map json_str (take n sent)"
  proof (cases "bc_closedByCaller c")
    case False
    then have "bc_wire c @ map json_str (bc_waiting c) = map json_str sent" using CallerCloses by (simp add: bk_ok_def fifo_def)
    then have "bc_wire c = take (length (bc_wire c)) (map json_str sent)" by (metis append_eq_conv_conj)
    then show ?thesis by (metis take_map)
  qed (use CallerCloses in \<open>simp add: bk_ok_def fifo_def\<close>)
  then have "fifo (bk_close c) sent" by (simp add: bk_close_def fifo_def)
  moreover have "one_path (bk_close c)" using CallerCloses by (cases "bc_ws c") (simp_all add: bk_ok_def one_path_def bk_close_def)
  moreover have "paced opts (bk_close c)" using CallerCloses by (simp add: bk_ok_def bk_close_def)
  ultimately show ?case by (simp add: bk_ok_def)
next
  case (Opens c sent)
  let ?c = "c\<lparr>bc_ws := Some WsOpen, bc_reconnectAttempts := 0, bc_wire := bc_wire c @ map json_str (bc_waiting c), bc_waiting := []\<rparr>"
  have ok: "fifo c sent" "one_path c" "paced opts c" using Opens by (simp_all add: bk_ok_def)
  have "fifo ?c sent" using ok(1) by (simp add: fifo_def)
  moreover have "one_path ?c" using ok(2) Opens(1) by (simp add: one_path_def)
  moreover have "paced opts ?c" using ok(3) by (simp only: paced_sel)
  ultimately show ?case by (simp add: bk_ok_def on_open_def bk_flush_def)
next
  case (Receives c sent raw)
  then have "fifo (on_message raw c) sent" "one_path (on_message raw c)" "paced opts (on_message raw c)"
    by (simp_all add: bk_ok_def on_message_def split: option.split)
  then show ?case by (simp add: bk_ok_def)
next
  case (Errs c sent)
  then show ?case by (simp add: bk_ok_def on_error_def)
next
  case (Closing c sent)
  then have "fifo c sent" "one_path c" "paced opts c" by (simp_all add: bk_ok_def)
  then have "fifo (c\<lparr>bc_ws := Some WsClosing\<rparr>) sent" "one_path (c\<lparr>bc_ws := Some WsClosing\<rparr>)" "paced opts (c\<lparr>bc_ws := Some WsClosing\<rparr>)"
    using Closing(1) by (simp_all add: fifo_def one_path_def)
  then show ?case by (simp add: bk_ok_def)
next
  case (Closes c sent code reason)
  let ?c1 = "c\<lparr>bc_ws := None\<rparr>"
  have "fifo c sent" "one_path c" "paced opts c" using Closes by (simp_all add: bk_ok_def)
  then have k: "fifo ?c1 sent" "paced opts ?c1" "bc_reconnectTimer c = None"
    using Closes(1) by (simp_all add: fifo_def one_path_def)
  have "one_path ?c1" if "\<not> (\<not> bc_closedByCaller c \<and> bc_reconnectEnabled c \<and> attempts_left ?c1)"
    using that k(3) by (auto simp: one_path_def)
  then show ?case using k by (auto simp: bk_ok_def on_close_def Let_def schedule_paced schedule_path)
next
  case (Fires c sent throws)
  then have w: "bc_ws c = None" "\<not> bc_closedByCaller c" by (auto simp: bk_ok_def one_path_def)
  have "bk_ok opts (bk_open throws (c\<lparr>bc_reconnectTimer := None\<rparr>)) sent"
    by (rule bk_open_ok [where x = "bc_reconnectTimer c"]) (use Fires w in simp_all)
  then show ?case using w by (simp add: on_timer_def)
qed

lemma bk_ok_reach: "bk_reach opts s \<Longrightarrow> bk_ok opts (fst s) (snd s)"
  by (induction rule: bk_reach.induct) (use bk_connect_ok bk_ok_step in auto)

end
