(* ===== verification/AppLaunch.thy ===== *)
theory AppLaunch
  imports BrowserBackup TurnCredentials
begin

text \<open>
  \<open>apps/web/src/orpal/setup.ts\<close>: what the web app does when it starts. It loads the settings and the identity,
  moves TURN secrets that are still in the settings to their own slot, builds the client over the stores of
  IndexedDB, hands it the block list and starts it. The secrets that are kept apart are in the settings
  that the app works with, and not in those that are stored.
\<close>

subsection \<open>Settings as the code uses them\<close>

definition servers_of :: "app_settings \<Rightarrow> json list option" where
  \<comment> \<open>the methods of arrays are missing on everything else\<close>
  "servers_of s = (case as_iceServers s of JArr servers \<Rightarrow> Some servers | _ \<Rightarrow> None)"

definition strings_of :: "json \<Rightarrow> string list" where
  "strings_of j = (case j of JArr xs \<Rightarrow> map (\<lambda>x. jstr (Some x)) xs | _ \<Rightarrow> [])"

definition with_servers :: "json list \<Rightarrow> app_settings \<Rightarrow> app_settings" where
  "with_servers servers s = s\<lparr>as_iceServers := JArr servers\<rparr>"

definition spread_creds :: "turn_credentials \<Rightarrow> turn_credentials \<Rightarrow> turn_credentials" where
  \<comment> \<open>\<open>{ ...a, ...b }\<close>\<close>
  "spread_creds a b = fold (\<lambda>(url, c). jset url c) b a"

definition secret_free :: "app_settings \<Rightarrow> bool" where
  "secret_free s = (case servers_of s of None \<Rightarrow> True | Some servers \<Rightarrow> \<not> hasInlineTurnSecret servers)"

definition board_urls :: "app_settings \<Rightarrow> string list" where
  "board_urls s = strings_of (if has_length (Some (as_boards s)) then as_boards s else as_boards DEFAULT_SETTINGS)"

subsection \<open>Starting\<close>

datatype key_protection = Hardware | Cleartext

record orpal_app =
  ap_orpal :: web_client_state
  ap_createdIdentity :: bool
  ap_settings :: app_settings
  ap_keyProtection :: key_protection

definition protection_at_rest :: "migration_state tx_outcome \<Rightarrow> web_world \<Rightarrow> key_protection" where
  "protection_at_rest wr w = (case sl_load (IpcKeyBlobStore wr) (fst w) of
       Inr (Some v) \<Rightarrow> if isSecureEnvelope v then Hardware else Cleartext
     | _ \<Rightarrow> Cleartext)"

definition adopt_credentials ::
  "migration_state tx_outcome \<Rightarrow> key_provider option \<Rightarrow> app_settings \<Rightarrow> string option \<Rightarrow> web_world
    \<Rightarrow> (string + app_settings) \<times> string option \<times> web_world" where
  \<comment> \<open>the settings with the credentials merged in, and what is stored\<close>
  "adopt_credentials wr provider settings stored w =
     (case cred_load (turn_slot wr) provider (fst w) of
        Inl e \<Rightarrow> (Inl e, stored, w)
      | Inr creds \<Rightarrow>
          (case servers_of settings of
             None \<Rightarrow> (Inl ''TypeError'', stored, w)
           | Some servers \<Rightarrow>
               if \<not> hasInlineTurnSecret servers then (Inr (with_servers (mergeTurnCredentials servers creds) settings), stored, w)
               else (let creds1 = spread_creds (extractTurnCredentials servers) creds; stripped = stripTurnCredentials servers
                     in case cred_save (turn_slot wr) provider creds1 w of
                          (Some e, w1) \<Rightarrow> (Inl e, stored, w1)
                        | (None, w1) \<Rightarrow>
                            (Inr (with_servers (mergeTurnCredentials stripped creds1) settings), settings_set (with_servers stripped settings), w1))))"

definition createOrpalApp ::
  "crypto \<Rightarrow> migration_state tx_outcome \<Rightarrow> key_provider option \<Rightarrow> web_files sink_ops \<Rightarrow> (bytes \<Rightarrow> string) \<Rightarrow> client_env
    \<Rightarrow> migration_state web_db \<Rightarrow> migration_state web_db \<Rightarrow> string option \<Rightarrow> web_world
    \<Rightarrow> (string + orpal_app) \<times> string option \<times> web_world" where
  \<comment> \<open>over the conversations and the send queue as they are found\<close>
  "createOrpalApp C wr provider sink hash e store queue stored w =
     (let settings = loadSettings stored in
      case loadOrCreate C (web_main wr provider) (fst (en_keys e)) (snd (en_keys e)) (en_iso e) w of
        (Inl err, w1) \<Rightarrow> (Inl err, stored, w1)
      | (Inr (identity, created), w1) \<Rightarrow>
          (case adopt_credentials wr provider settings stored w1 of
             (Inl err, stored1, w2) \<Rightarrow> (Inl err, stored1, w2)
           | (Inr merged, stored1, w2) \<Rightarrow>
               (case client_init identity store w2 (board_urls settings) None of
                  None \<Rightarrow> (Inl ''OrpalClient: at least one board is required'', stored1, w2)
                | Some c0 \<Rightarrow>
                    (case client_start (app_deps C provider (js_truthy (as_relayOnlyByDefault settings)) wr sink hash) e queue
                        (setBlockedKeys (strings_of (as_blockedKeys merged)) c0) of
                       (Some err, c1) \<Rightarrow> (Inl err, stored1, oc_world c1)
                     | (None, c1) \<Rightarrow>
                         (Inr \<lparr>ap_orpal = c1, ap_createdIdentity = created, ap_settings = merged,
                            ap_keyProtection = protection_at_rest wr w1\<rparr>, stored1, oc_world c1)))))"

subsection \<open>What is stored reads back\<close>

definition settings_wf :: "app_settings \<Rightarrow> bool" where
  "settings_wf s = wf_json (settings_json s)"

lemma settings_reload:
  assumes "settings_wf s"
  shows "loadSettings (settings_set s) = \<lparr>
      as_boards = (if has_length (Some (as_boards s)) then as_boards s else as_boards DEFAULT_SETTINGS),
      as_iceServers = json_or (Some (as_iceServers s)) (as_iceServers DEFAULT_SETTINGS),
      as_relayOnlyByDefault = json_or (Some (as_relayOnlyByDefault s)) (as_relayOnlyByDefault DEFAULT_SETTINGS),
      as_pushNotifications = json_or (Some (as_pushNotifications s)) (as_pushNotifications DEFAULT_SETTINGS),
      as_blockedKeys = json_or (Some (as_blockedKeys s)) (as_blockedKeys DEFAULT_SETTINGS)\<rparr>"
proof -
  have p: "json_parse (json_str (settings_json s)) = Some (settings_json s)" using assms by (simp add: settings_wf_def)
  then have ne: "json_str (settings_json s) \<noteq> []" by (auto simp: json_parse_def)
  show ?thesis using p ne by (simp add: loadSettings_def settings_set_def) (simp add: settings_json_def)
qed

lemma json_or_arr [simp]: "json_or (Some (JArr xs)) d = JArr xs"
  by (simp add: json_or_def)

lemma reload_servers:
  assumes "settings_wf s" "servers_of s = Some servers"
  shows "servers_of (loadSettings (settings_set s)) = Some servers"
  using assms by (auto simp: settings_reload servers_of_def split: json.splits)

lemma with_servers_sel [simp]:
  "servers_of (with_servers xs s) = Some xs" "as_blockedKeys (with_servers xs s) = as_blockedKeys s" "as_boards (with_servers xs s) = as_boards s"
  "as_relayOnlyByDefault (with_servers xs s) = as_relayOnlyByDefault s" "as_pushNotifications (with_servers xs s) = as_pushNotifications s"
  by (simp_all add: with_servers_def servers_of_def)

lemma settings_wf_fields:
  "settings_wf s \<longleftrightarrow> wf_json (as_boards s) \<and> wf_json (as_iceServers s) \<and> wf_json (as_relayOnlyByDefault s)
     \<and> wf_json (as_pushNotifications s) \<and> wf_json (as_blockedKeys s)"
  by (simp add: settings_wf_def settings_json_def)

lemma settings_wf_servers: "settings_wf s \<Longrightarrow> servers_of s = Some servers \<Longrightarrow> \<forall>x\<in>set servers. wf_json x"
  by (auto simp: settings_wf_fields servers_of_def split: json.splits)

lemma with_servers_wf: "settings_wf s \<Longrightarrow> \<forall>x\<in>set servers. wf_json x \<Longrightarrow> settings_wf (with_servers servers s)"
  by (simp add: settings_wf_fields with_servers_def)

lemma wf_obj_fields: "wf_json j \<Longrightarrow> wf_json (JObj (obj_fields j))"
  by (cases j) (simp_all add: obj_fields_def)

lemma wf_jdel: "wf_json (JObj fs) \<Longrightarrow> wf_json (JObj (jdel k fs))"
  by (auto simp: AList.delete_eq distinct_map_filter)

lemma strip_wf: "\<forall>x\<in>set servers. wf_json x \<Longrightarrow> \<forall>x\<in>set (stripTurnCredentials servers). wf_json x"
  by (auto simp: stripTurnCredentials_def without_secret_def intro!: wf_jdel wf_obj_fields simp del: wf_json.simps)

lemma load_wf: "settings_wf (loadSettings stored)"
proof -
  have d: "settings_wf DEFAULT_SETTINGS" by (simp add: settings_wf_fields DEFAULT_SETTINGS_def)
  consider "loadSettings stored = DEFAULT_SETTINGS"
    | p where "json_parse (or_default stored []) = Some p" "p \<noteq> JNull" "or_default stored [] \<noteq> []"
  proof (cases "or_default stored [] = [] \<or> json_parse (or_default stored []) \<in> {None, Some JNull}")
    case True
    then have "loadSettings stored = DEFAULT_SETTINGS" by (auto simp: loadSettings_def)
    then show thesis using that(1) by blast
  next
    case False
    then show thesis using that(2) by (cases "json_parse (or_default stored [])") auto
  qed
  then show ?thesis
  proof cases
    case 2
    have f: "wf_json x" if "jprop p k = Some x" for k x
      using json_parse_wf [OF 2(1)] that by (cases p) (auto simp: jprop_def dest!: map_of_SomeD)
    have o: "wf_json (json_or (jprop p k) v)" if "wf_json v" for k v
      using f [of k] that by (auto simp: json_or_def split: option.split json.split)
    have "wf_json (or_default (jprop p k) JNull)" for k using f [of k] by (cases "jprop p k") (simp_all add: or_default_def)
    then show ?thesis using 2 d o by (cases p) (simp_all add: loadSettings_def settings_wf_fields)
  qed (simp add: d)
qed

lemma merge_wf: "\<forall>x\<in>set servers. wf_json x \<Longrightarrow> \<forall>x\<in>set (mergeTurnCredentials servers creds). wf_json x"
  by (auto simp: mergeTurnCredentials_def merge_server_def intro!: wf_jset_members wf_obj_fields simp del: wf_json.simps(2) split: option.split)

subsection \<open>What a start gives\<close>

lemma adopted:
  assumes "adopt_credentials wr provider (loadSettings stored) stored w = (r, stored1, w1)"
  shows "stored1 = stored \<or> secret_free (loadSettings stored1)"
    and "r = Inr m \<Longrightarrow> secret_free (loadSettings stored1) \<and> settings_wf m \<and> (\<exists>xs. servers_of m = Some xs)
      \<and> as_blockedKeys m = as_blockedKeys (loadSettings stored) \<and> as_boards m = as_boards (loadSettings stored)"
proof -
  let ?s = "loadSettings stored"
  have "(stored1 = stored \<or> secret_free (loadSettings stored1)) \<and> (r = Inr m \<longrightarrow> secret_free (loadSettings stored1) \<and> settings_wf m
      \<and> (\<exists>xs. servers_of m = Some xs) \<and> as_blockedKeys m = as_blockedKeys ?s \<and> as_boards m = as_boards ?s)"
  proof (cases "cred_load (turn_slot wr) provider (fst w)")
    case (Inl e)
    then show ?thesis using assms by (auto simp: adopt_credentials_def)
  next
    case creds: (Inr creds)
    show ?thesis
    proof (cases "servers_of ?s")
      case None
      then show ?thesis using assms creds by (auto simp: adopt_credentials_def)
    next
      case (Some servers)
      have wf: "\<forall>x\<in>set servers. wf_json x" by (rule settings_wf_servers [OF load_wf Some])
      show ?thesis
      proof (cases "hasInlineTurnSecret servers")
        case False
        then show ?thesis using assms creds Some with_servers_wf [OF load_wf merge_wf [OF wf]]
          by (auto simp: adopt_credentials_def secret_free_def)
      next
        case True
        let ?t = "stripTurnCredentials servers"
        obtain res w2 where sv: "cred_save (turn_slot wr) provider (spread_creds (extractTurnCredentials servers) creds) w = (res, w2)" by (metis prod.collapse)
        have "secret_free (loadSettings (settings_set (with_servers ?t ?s)))"
          using reload_servers [OF with_servers_wf [OF load_wf strip_wf [OF wf]] with_servers_sel(1)] strip_clean by (simp add: secret_free_def)
        then show ?thesis using assms creds Some True sv with_servers_wf [OF load_wf merge_wf [OF strip_wf [OF wf]]]
          by (cases res) (auto simp: adopt_credentials_def Let_def)
      qed
    qed
  qed
  then show "stored1 = stored \<or> secret_free (loadSettings stored1)"
    "r = Inr m \<Longrightarrow> secret_free (loadSettings stored1) \<and> settings_wf m \<and> (\<exists>xs. servers_of m = Some xs)
      \<and> as_blockedKeys m = as_blockedKeys ?s \<and> as_boards m = as_boards ?s"
    by blast+
qed

lemma announce_blocked [simp]: "oc_blockedKeys (announceAll e c) = oc_blockedKeys c" "oc_store (announceAll e c) = oc_store c"
  "oc_started (announceAll e c) = oc_started c" "oc_world (announceAll e c) = oc_world c"
proof -
  have "oc_blockedKeys (fold (announcePresenceOn e) bs c) = oc_blockedKeys c \<and> oc_store (fold (announcePresenceOn e) bs c) = oc_store c
      \<and> oc_started (fold (announcePresenceOn e) bs c) = oc_started c \<and> oc_world (fold (announcePresenceOn e) bs c) = oc_world c" for bs
    by (induction bs arbitrary: c) (simp_all add: announcePresenceOn_def oc_emit_def)
  then show "oc_blockedKeys (announceAll e c) = oc_blockedKeys c" "oc_store (announceAll e c) = oc_store c"
    "oc_started (announceAll e c) = oc_started c" "oc_world (announceAll e c) = oc_world c" by (simp_all add: announceAll_def)
qed

lemma launch_start_keeps: "client_start d e q c = (r, c1) \<Longrightarrow> oc_blockedKeys c1 = oc_blockedKeys c \<and> oc_store c1 = oc_store c \<and> oc_started c1"
  by (auto simp: client_start_def Let_def split: if_splits prod.splits)

lemma block_keeps [simp]:
  fixes c :: "('s, 'q, 'w, 'k) orpal"
  shows "oc_blockedKeys (setBlockedKeys keys c) = set_of keys" "oc_store (setBlockedKeys keys c) = oc_store c"
  "oc_world (setBlockedKeys keys c) = oc_world c" "oc_events (setBlockedKeys keys c) = oc_events c"
proof -
  have "oc_blockedKeys (fold block_one ks c) = oc_blockedKeys c \<and> oc_store (fold block_one ks c) = oc_store c
      \<and> oc_world (fold block_one ks c) = oc_world c \<and> oc_events (fold block_one ks c) = oc_events c" for ks and c :: "('s, 'q, 'w, 'k) orpal"
    by (induction ks arbitrary: c) (simp_all add: block_one_def)
  then show "oc_blockedKeys (setBlockedKeys keys c) = set_of keys" "oc_store (setBlockedKeys keys c) = oc_store c"
    "oc_world (setBlockedKeys keys c) = oc_world c" "oc_events (setBlockedKeys keys c) = oc_events c" by (simp_all add: setBlockedKeys_def)
qed

text \<open>A start stores no secret, and the block list is in force before the client is started.\<close>

lemma launched:
  assumes "createOrpalApp C wr provider sink hash e store queue stored w = (Inr app1, stored1, w1)"
  shows "secret_free (loadSettings stored1)" "settings_wf (ap_settings app1)" "\<exists>xs. servers_of (ap_settings app1) = Some xs"
    "as_blockedKeys (ap_settings app1) = as_blockedKeys (loadSettings stored)"
    "oc_blockedKeys (ap_orpal app1) = set_of (strings_of (as_blockedKeys (loadSettings stored)))"
    "oc_store (ap_orpal app1) = store" "oc_started (ap_orpal app1)" "oc_world (ap_orpal app1) = w1"
proof -
  let ?s = "loadSettings stored"
  obtain i created w2 where l: "loadOrCreate C (web_main wr provider) (fst (en_keys e)) (snd (en_keys e)) (en_iso e) w = (Inr (i, created), w2)"
  proof -
    obtain r w2 where l: "loadOrCreate C (web_main wr provider) (fst (en_keys e)) (snd (en_keys e)) (en_iso e) w = (r, w2)" by (metis prod.collapse)
    then show thesis using assms that by (cases r) (auto simp: createOrpalApp_def)
  qed
  obtain m w3 where a: "adopt_credentials wr provider ?s stored w2 = (Inr m, stored1, w3)"
  proof -
    obtain r st w3 where a: "adopt_credentials wr provider ?s stored w2 = (r, st, w3)" by (metis prod.collapse)
    then show thesis using assms l that by (cases r) (auto simp: createOrpalApp_def Let_def split: option.splits prod.splits)
  qed
  obtain c0 :: web_client_state where c0: "client_init i store w3 (board_urls ?s) None = Some c0"
    using assms l a by (auto simp: createOrpalApp_def Let_def split: option.splits)
  obtain c1 where c1: "client_start (app_deps C provider (js_truthy (as_relayOnlyByDefault ?s)) wr sink hash) e queue
      (setBlockedKeys (strings_of (as_blockedKeys m)) c0) = (None, c1)"
      "app1 = \<lparr>ap_orpal = c1, ap_createdIdentity = created, ap_settings = m, ap_keyProtection = protection_at_rest wr w2\<rparr>" "w1 = oc_world c1"
    using assms l a c0 by (auto simp: createOrpalApp_def Let_def split: option.splits prod.splits)
  have "oc_store c0 = store" using c0 by (auto simp: client_init_def split: if_splits)
  then show "secret_free (loadSettings stored1)" "settings_wf (ap_settings app1)" "\<exists>xs. servers_of (ap_settings app1) = Some xs"
    "as_blockedKeys (ap_settings app1) = as_blockedKeys (loadSettings stored)"
    "oc_blockedKeys (ap_orpal app1) = set_of (strings_of (as_blockedKeys (loadSettings stored)))"
    "oc_store (ap_orpal app1) = store" "oc_started (ap_orpal app1)" "oc_world (ap_orpal app1) = w1"
    using adopted(2) [OF a refl] launch_start_keeps [OF c1(1)] c1(2,3) by auto
qed

end
