(* ===== verification/AppShell.thy ===== *)
theory AppShell
  imports AppLaunch
begin

text \<open>
  \<open>apps/web/src/state/orpal-context.tsx\<close>: the state behind the user interface, from the moment its start has
  succeeded. It holds the client, the settings, and what is shown: contacts, message lists, unread counts,
  requests. The client's events arrive through the subscriptions, in the order of their emission. A state
  update of React is applied where it is made; what the browser answers (a picked file, a push token) is an
  argument.
\<close>

subsection \<open>State\<close>

record shell =
  sh_orpal :: web_client_state
  sh_rows :: "migration_state web_db"
  sh_files :: web_files
  sh_stored :: "string option"
  sh_settings :: app_settings
  sh_settingsNeedRestart :: bool
  sh_contacts :: "contact list"
  sh_selected :: "string option"
  sh_selectedRef :: "string option"
  sh_messages :: "(string, stored_message list) jmap"
  sh_connections :: "(string, contact_state) jmap"
  sh_brokerState :: broker_state
  sh_pendingMetrics :: pending_metrics
  sh_keyProtection :: key_protection
  sh_requests :: "contact_request list"
  sh_unread :: "(string, nat) jmap"
  sh_lastRead :: "(string, rat) jmap"
  sh_signalActivity :: nat
  sh_progress :: "(migration_phase \<times> nat \<times> nat \<times> string) option"
  sh_incoming :: "pending_migration list"
  sh_backupPayload :: "backup_payload option"
  sh_pushEnabled :: bool

record conversation =
  cn_key :: string
  cn_name :: string
  cn_relayOnly :: bool
  cn_known :: bool
  cn_isLoopback :: bool

definition EMPTY_SETTINGS :: app_settings where
  "EMPTY_SETTINGS = \<lparr>as_boards = JArr [], as_iceServers = JArr [], as_relayOnlyByDefault = JBool False,
     as_pushNotifications = JBool False, as_blockedKeys = JArr []\<rparr>"

definition LOOPBACK_SEEDED_KV :: string where "LOOPBACK_SEEDED_KV = ''loopbackSeeded''"

subsection \<open>What the client tells\<close>

definition put_message :: "stored_message \<Rightarrow> stored_message list \<Rightarrow> stored_message list" where
  \<comment> \<open>in place, or at the end; then a stable sort\<close>
  "put_message m list = sort_key sm_ts
     (if \<exists>x\<in>set list. sm_id x = sm_id m then map (\<lambda>x. if sm_id x = sm_id m then m else x) list else list @ [m])"

definition upsertMessage :: "stored_message \<Rightarrow> shell \<Rightarrow> shell" where
  "upsertMessage m sh =
     (let key = sm_contactKey m;
          sh1 = sh\<lparr>sh_messages := jset key (put_message m (or_default (jget (sh_messages sh) key) [])) (sh_messages sh)\<rparr>
      in if sm_direction m = DIn \<and> Some key \<noteq> sh_selectedRef sh \<and> or_default (jget (sh_lastRead sh) key) 0 < sm_ts m
         then sh1\<lparr>sh_unread := jset key (or_default (jget (sh_unread sh) key) 0 + 1) (sh_unread sh)\<rparr>
         else sh1)"

definition on_event :: "client_event \<Rightarrow> shell \<Rightarrow> shell" where
  \<comment> \<open>the subscriptions; there is none for the progress of a transfer, and an error is logged\<close>
  "on_event ev sh = (case ev of
       EvMessage m \<Rightarrow> (upsertMessage m sh)\<lparr>sh_signalActivity := sh_signalActivity sh + 1\<rparr>
     | EvMessageUpdated i m \<Rightarrow> upsertMessage m sh
     | EvBroker st \<Rightarrow> sh\<lparr>sh_brokerState := st\<rparr>
     | EvContactRequest req \<Rightarrow>
         if \<exists>r\<in>set (sh_requests sh). rq_contactKey r = rq_contactKey req then sh
         else sh\<lparr>sh_requests := sh_requests sh @ [req]\<rparr>
     | EvMigrationProgress p \<Rightarrow> sh\<lparr>sh_progress := p\<rparr>
     | EvMigrationIncoming p \<Rightarrow> sh\<lparr>sh_incoming := (case oc_migration (sh_orpal sh) of None \<Rightarrow> [] | Some mm \<Rightarrow> mm_pendingIncoming mm)\<rparr>
     | EvTransferProgress key dir p \<Rightarrow> sh
     | EvError context \<Rightarrow> sh)"

definition on_connection :: "string \<times> contact_state \<Rightarrow> shell \<Rightarrow> shell" where
  "on_connection p sh = sh\<lparr>sh_connections := jset (fst p) (snd p) (sh_connections sh)\<rparr>"

definition on_pending :: "pending_metrics \<Rightarrow> shell \<Rightarrow> shell" where
  "on_pending m sh = sh\<lparr>sh_pendingMetrics := m\<rparr>"

definition new_metrics :: "web_client_state \<Rightarrow> web_client_state \<Rightarrow> pending_metrics list" where
  "new_metrics c c' = (case oc_worker c' of
       None \<Rightarrow> []
     | Some w' \<Rightarrow> drop (case oc_worker c of None \<Rightarrow> 0 | Some w \<Rightarrow> length (dw_metrics w)) (dw_metrics w'))"

definition on_key_seal :: "nat \<Rightarrow> shell \<Rightarrow> shell" where
  \<comment> \<open>\<open>onKeySealFallback\<close>, when a key store had to fall back\<close>
  "on_key_seal n sh = (if n < length (snd (oc_world (sh_orpal sh))) then sh\<lparr>sh_keyProtection := Cleartext\<rparr> else sh)"

definition sync :: "web_client_state \<Rightarrow> shell \<Rightarrow> shell" where
  \<comment> \<open>the client has moved to \<open>c'\<close>: its events since then reach the subscriptions\<close>
  "sync c' sh =
     (let c = sh_orpal sh;
          sh1 = fold on_event (drop (length (oc_events c)) (oc_events c')) (sh\<lparr>sh_orpal := c'\<rparr>);
          sh2 = fold on_connection (drop (length (cm_states (oc_conns c))) (cm_states (oc_conns c'))) sh1;
          sh3 = fold on_pending (new_metrics c c') sh2
      in on_key_seal (length (snd (oc_world c))) sh3)"

subsection \<open>The first render\<close>

definition refreshContacts :: "web_client_deps \<Rightarrow> shell \<Rightarrow> shell" where
  "refreshContacts d sh = sh\<lparr>sh_contacts := cv_listContacts (dp_store d) (oc_store (sh_orpal sh))\<rparr>"

definition seed_loopback ::
  "web_client_deps \<Rightarrow> migration_state tx_outcome \<Rightarrow> client_env \<Rightarrow> web_client_state \<Rightarrow> string option \<times> web_client_state" where
  "seed_loopback d wr e c =
     (if kvGet LOOPBACK_SEEDED_KV (fst (oc_world c)) = Some (KvFlag True) \<or> cv_listContacts (dp_store d) (oc_store c) \<noteq> [] then (None, c)
      else (case ensureLoopbackContact d e None c of
          (Inl err, c1) \<Rightarrow> (Some err, c1)
        | (Inr _, c1) \<Rightarrow> (case kvSet (wr (Some (KvFlag True))) LOOPBACK_SEEDED_KV (KvFlag True) (fst (oc_world c1)) of
            (r, db) \<Rightarrow> (r, c1\<lparr>oc_world := (db, snd (oc_world c1))\<rparr>))))"

definition provider_start ::
  "web_client_deps \<Rightarrow> migration_state tx_outcome \<Rightarrow> client_env \<Rightarrow> orpal_app \<Rightarrow> migration_state web_db \<Rightarrow> web_files \<Rightarrow> string option
    \<Rightarrow> (string, rat) jmap \<Rightarrow> (string + string) option \<Rightarrow> string + shell" where
  \<comment> \<open>the effect of \<open>OrpalProvider\<close>; \<open>token\<close> is what a push registration gives, where push is supported\<close>
  "provider_start d wr e app1 rows files stored lastRead token =
     (case seed_loopback d wr e (ap_orpal app1) of
        (Some err, c) \<Rightarrow> Inl err
      | (None, c) \<Rightarrow>
          (let sh = \<lparr>sh_orpal = c, sh_rows = rows, sh_files = files, sh_stored = stored, sh_settings = ap_settings app1,
                 sh_settingsNeedRestart = False, sh_contacts = cv_listContacts (dp_store d) (oc_store c), sh_selected = None,
                 sh_selectedRef = None, sh_messages = [], sh_connections = [], sh_brokerState = oc_brokerState c,
                 sh_pendingMetrics = pendingMetrics d c, sh_keyProtection = ap_keyProtection app1, sh_requests = contactRequests c,
                 sh_unread = [], sh_lastRead = lastRead, sh_signalActivity = 0,
                 sh_progress = (case oc_migration c of None \<Rightarrow> None | Some mm \<Rightarrow> mm_progress mm), sh_incoming = [],
                 sh_backupPayload = None, sh_pushEnabled = False\<rparr>
           in Inr (if as_pushNotifications (ap_settings app1) = JBool True
              then (case token of
                  Some (Inr t) \<Rightarrow> (sync (setPushToken e (Some t) c) sh)\<lparr>sh_pushEnabled := True\<rparr>
                | _ \<Rightarrow> sh)
              else sh)))"

subsection \<open>Conversations and messages\<close>

definition select_conversation :: "rat \<Rightarrow> string option \<Rightarrow> shell \<Rightarrow> shell" where
  "select_conversation now key sh =
     (let sh1 = sh\<lparr>sh_selected := key, sh_selectedRef := key\<rparr>
      in case key of
           None \<Rightarrow> sh1
         | Some k \<Rightarrow> if k = [] then sh1
             else sh1\<lparr>sh_lastRead := jset k now (sh_lastRead sh), sh_unread := jdel k (sh_unread sh)\<rparr>)"

definition load_history :: "web_client_deps \<Rightarrow> client_env \<Rightarrow> string \<Rightarrow> shell \<Rightarrow> shell" where
  \<comment> \<open>the rest of \<open>select\<close>, after its first \<open>await\<close>\<close>
  "load_history d e key sh =
     (let hist = history (dp_store d) key \<lparr>lo_limit = Some 500, lo_before = None\<rparr> (sh_orpal sh);
          sh1 = sh\<lparr>sh_messages := jset key (rev hist) (sh_messages sh)\<rparr>
      in sync (connect d e key (sh_orpal sh1)) sh1)"

definition shell_sendText :: "web_client_deps \<Rightarrow> client_env \<Rightarrow> string \<Rightarrow> shell \<Rightarrow> shell" where
  "shell_sendText d e text sh = (case sh_selected sh of
       None \<Rightarrow> sh
     | Some key \<Rightarrow> if key = [] \<or> trim text = [] then sh else sync (snd (sendText d e key text (sh_orpal sh))) sh)"

definition shell_sendFile :: "web_client_deps \<Rightarrow> client_env \<Rightarrow> (string \<times> string) option \<Rightarrow> shell \<Rightarrow> shell" where
  \<comment> \<open>\<open>pick\<close>: the path and the type of the picked file\<close>
  "shell_sendFile d e pick sh = (case (sh_selected sh, pick) of
       (Some key, Some (path, mime)) \<Rightarrow>
         if key = [] then sh
         else (case makeFileSource path (sh_files sh) of
             None \<Rightarrow> sh
           | Some source \<Rightarrow> (case sendFileTo d e key source (sh_orpal sh) of (fileId, c) \<Rightarrow>
               (let sh1 = sync c sh
                in if starts_with ''image/'' mime then sh1\<lparr>sh_files := retainOutgoingImage fileId path mime (sh_files sh1)\<rparr> else sh1)))
     | _ \<Rightarrow> sh)"

definition shell_retry :: "web_client_deps \<Rightarrow> client_env \<Rightarrow> string \<Rightarrow> shell \<Rightarrow> shell" where
  "shell_retry d e messageId sh = (case sh_selected sh of
       None \<Rightarrow> sh
     | Some key \<Rightarrow> if key = [] then sh else sync (retryText d e messageId key (sh_orpal sh)) sh)"

definition shell_connect :: "web_client_deps \<Rightarrow> client_env \<Rightarrow> string \<Rightarrow> shell \<Rightarrow> shell" where
  "shell_connect d e key sh = sync (connect d e key (sh_orpal sh)) sh"

subsection \<open>Contacts\<close>

definition refreshed :: "web_client_deps \<Rightarrow> (string + 'a) \<times> web_client_state \<Rightarrow> shell \<Rightarrow> string option \<times> shell" where
  \<comment> \<open>the views follow when the client's call succeeded\<close>
  "refreshed d rc sh = (case rc of
       (Inl reason, c) \<Rightarrow> (Some reason, sync c sh)
     | (Inr _, c) \<Rightarrow> (None, refreshContacts d (sync c sh)))"

definition addContact ::
  "web_client_deps \<Rightarrow> client_env \<Rightarrow> string \<Rightarrow> string option \<Rightarrow> bool option \<Rightarrow> shell \<Rightarrow> string option \<times> shell" where
  "addContact d e cardText name relayOnly sh = refreshed d (addContactFromCard d e cardText name relayOnly (sh_orpal sh)) sh"

definition shell_removeContact :: "web_client_deps \<Rightarrow> string \<Rightarrow> shell \<Rightarrow> shell" where
  "shell_removeContact d key sh =
     (let sh1 = sync (removeContact (dp_store d) key (sh_orpal sh)) sh;
          sh2 = (if sh_selected sh1 = Some key then sh1\<lparr>sh_selected := None\<rparr> else sh1)
      in refreshContacts d sh2)"

definition renameContact :: "web_client_deps \<Rightarrow> string \<Rightarrow> string \<Rightarrow> shell \<Rightarrow> shell" where
  "renameContact d key name sh = (if trim name = [] then sh
     else refreshContacts d (sync (setContactDisplayName (dp_store d) key name (sh_orpal sh)) sh))"

definition setRelayOnly :: "web_client_deps \<Rightarrow> string \<Rightarrow> bool \<Rightarrow> shell \<Rightarrow> shell" where
  "setRelayOnly d key value sh = refreshContacts d (sync (setContactRelayOnly (dp_store d) key value (sh_orpal sh)) sh)"

definition shell_setAutoAccept :: "web_client_deps \<Rightarrow> string \<Rightarrow> bool \<Rightarrow> shell \<Rightarrow> shell" where
  "shell_setAutoAccept d key value sh = refreshContacts d (sync (setAutoAcceptMigration (dp_store d) key value (sh_orpal sh)) sh)"

definition shell_setContactBoards :: "web_client_deps \<Rightarrow> client_env \<Rightarrow> string \<Rightarrow> string list \<Rightarrow> shell \<Rightarrow> shell" where
  "shell_setContactBoards d e key preferred sh =
     (let sh1 = refreshContacts d (sync (setContactBoards (dp_store d) key (Some preferred) None (sh_orpal sh)) sh)
      in sync (connect d e key (sh_orpal sh1)) sh1)"

definition without_request :: "string \<Rightarrow> shell \<Rightarrow> shell" where
  "without_request key sh = sh\<lparr>sh_requests := filter (\<lambda>r. rq_contactKey r \<noteq> key) (sh_requests sh)\<rparr>"

definition shell_acceptRequest :: "web_client_deps \<Rightarrow> client_env \<Rightarrow> string \<Rightarrow> string option \<Rightarrow> shell \<Rightarrow> string option \<times> shell" where
  "shell_acceptRequest d e key name sh = (case refreshed d (acceptContactRequest d e key name (sh_orpal sh)) sh of
       (None, sh1) \<Rightarrow> (None, without_request key sh1)
     | (Some reason, sh1) \<Rightarrow> (Some reason, sh1))"

definition shell_dismissRequest :: "string \<Rightarrow> shell \<Rightarrow> shell" where
  "shell_dismissRequest key sh = without_request key (sync (dismissContactRequest key (sh_orpal sh)) sh)"

definition shell_exportContacts :: "web_client_deps \<Rightarrow> client_env \<Rightarrow> shell \<Rightarrow> shell" where
  "shell_exportContacts d e sh = sh\<lparr>sh_files := saveText (''orpal-contacts-'' @ take 10 (en_iso e) @ ''.json'')
     (exportContacts d e (sh_orpal sh)) (sh_files sh)\<rparr>"

definition shell_importContacts ::
  "web_client_deps \<Rightarrow> client_env \<Rightarrow> string option \<Rightarrow> collision \<Rightarrow> shell \<Rightarrow> import_summary option \<times> shell" where
  "shell_importContacts d e text onCollision sh = (case text of
       None \<Rightarrow> (None, sh)
     | Some t \<Rightarrow> (case importContactsText d e t (Some onCollision) (sh_orpal sh) of
         (summary, c) \<Rightarrow> (Some summary, refreshContacts d (sync c sh))))"

definition createTestContact :: "web_client_deps \<Rightarrow> client_env \<Rightarrow> shell \<Rightarrow> string option \<times> shell" where
  "createTestContact d e sh = refreshed d (ensureLoopbackContact d e None (sh_orpal sh)) sh"

definition runSelfTest :: "web_client_deps \<Rightarrow> client_env \<Rightarrow> bytes \<Rightarrow> shell \<Rightarrow> (string + self_test) \<times> shell" where
  "runSelfTest d e rnd sh = (case runLoopbackSelfTest d e rnd (sh_orpal sh) of
       (Inl err, c) \<Rightarrow> (Inl err, sync c sh)
     | (Inr result, c) \<Rightarrow> (Inr result, refreshContacts d (sync c sh)))"

subsection \<open>Settings\<close>

definition store_settings :: "app_settings \<Rightarrow> shell \<Rightarrow> string option \<times> shell" where
  \<comment> \<open>only URLs reach the storage\<close>
  "store_settings next1 sh = (case servers_of next1 of
       None \<Rightarrow> (Some ''TypeError'', sh)
     | Some servers \<Rightarrow> (None, sh\<lparr>sh_stored := settings_set (with_servers (stripTurnCredentials servers) next1)\<rparr>))"

definition persistSettings :: "app_settings \<Rightarrow> shell \<Rightarrow> string option \<times> shell" where
  "persistSettings next1 sh = store_settings next1 (sh\<lparr>sh_settings := next1\<rparr>)"

definition save_secrets ::
  "migration_state tx_outcome \<Rightarrow> key_provider option \<Rightarrow> app_settings \<Rightarrow> shell \<Rightarrow> string option \<times> shell" where
  \<comment> \<open>\<open>store.save(extractTurnCredentials(s.iceServers))\<close>\<close>
  "save_secrets wr provider s sh = (case servers_of s of
       None \<Rightarrow> (Some ''TypeError'', sh)
     | Some servers \<Rightarrow> (case cred_save (turn_slot wr) provider (extractTurnCredentials servers) (oc_world (sh_orpal sh)) of
         (r, w) \<Rightarrow> (r, sh\<lparr>sh_orpal := (sh_orpal sh)\<lparr>oc_world := w\<rparr>\<rparr>)))"

definition saveSettings ::
  "migration_state tx_outcome \<Rightarrow> key_provider option \<Rightarrow> app_settings \<Rightarrow> shell \<Rightarrow> string option \<times> shell" where
  "saveSettings wr provider s sh = (case save_secrets wr provider s sh of
       (Some err, sh1) \<Rightarrow> (Some err, sh1)
     | (None, sh1) \<Rightarrow> (case store_settings s sh1 of
         (Some err, sh2) \<Rightarrow> (Some err, sh2)
       | (None, sh2) \<Rightarrow> (None, sh2\<lparr>sh_settings := s, sh_settingsNeedRestart := True\<rparr>)))"

definition with_blocked :: "string list \<Rightarrow> app_settings \<Rightarrow> app_settings" where
  "with_blocked keys s = s\<lparr>as_blockedKeys := JArr (map JStr keys)\<rparr>"

definition blockContact :: "string \<Rightarrow> shell \<Rightarrow> string option \<times> shell" where
  "blockContact key sh =
     (let blockedKeys = set_of (strings_of (as_blockedKeys (sh_settings sh)) @ [key]);
          sh1 = sync (setBlockedKeys blockedKeys (sh_orpal sh)) sh;
          sh2 = sync (dismissContactRequest key (sh_orpal sh1)) sh1
      in case persistSettings (with_blocked blockedKeys (sh_settings sh)) sh2 of
           (Some err, sh3) \<Rightarrow> (Some err, sh3)
         | (None, sh3) \<Rightarrow> (let sh4 = (without_request key sh3)\<lparr>sh_messages := jdel key (sh_messages sh3)\<rparr>
             in (None, if sh_selected sh4 = Some key then sh4\<lparr>sh_selected := None\<rparr> else sh4)))"

definition unblockContact :: "string \<Rightarrow> shell \<Rightarrow> string option \<times> shell" where
  "unblockContact key sh =
     (let blockedKeys = filter (\<lambda>k. k \<noteq> key) (strings_of (as_blockedKeys (sh_settings sh)))
      in persistSettings (with_blocked blockedKeys (sh_settings sh)) (sync (setBlockedKeys blockedKeys (sh_orpal sh)) sh))"

definition setPushEnabled :: "client_env \<Rightarrow> bool \<Rightarrow> string + string \<Rightarrow> shell \<Rightarrow> string option \<times> shell" where
  \<comment> \<open>\<open>token\<close>: what \<open>enablePush\<close> gives\<close>
  "setPushEnabled e on token sh =
     (case (if on then map_sum id Some token else Inr None) of
        Inl err \<Rightarrow> (Some err, sh)
      | Inr t \<Rightarrow>
          (let sh1 = (sync (setPushToken e t (sh_orpal sh)) sh)\<lparr>sh_pushEnabled := on\<rparr>
           in persistSettings ((sh_settings sh1)\<lparr>as_pushNotifications := JBool on\<rparr>) sh1))"

subsection \<open>Device backup\<close>

definition shell_exportBackup ::
  "web_client_deps \<Rightarrow> backup_crypto \<Rightarrow> string \<Rightarrow> bytes \<Rightarrow> bytes \<Rightarrow> client_env \<Rightarrow> shell \<Rightarrow> string option \<times> shell" where
  \<comment> \<open>the settings in memory have the TURN secrets; the file is sealed\<close>
  "shell_exportBackup d B password salt iv e sh =
     (case exportBackup d B password (settings_json (sh_settings sh)) salt iv (en_iso e) (sh_rows sh) (sh_orpal sh) of
        (Inl err, c) \<Rightarrow> (Some err, sync c sh)
      | (Inr json, c) \<Rightarrow> (let sh1 = sync c sh
          in (None, sh1\<lparr>sh_files := saveText (''orpal-backup-'' @ take 10 (en_iso e) @ ''.json'') json (sh_files sh1)\<rparr>)))"

definition previewBackup ::
  "web_client_deps \<Rightarrow> backup_crypto \<Rightarrow> string option \<Rightarrow> string \<Rightarrow> shell \<Rightarrow> (string + backup_summary \<times> bool) \<times> shell" where
  "previewBackup d B text password sh = (case text of
       None \<Rightarrow> (Inl ''cancelled'', sh)
     | Some t \<Rightarrow> (case readBackup d B (Inl t) password (sh_orpal sh) of
         Inl reason \<Rightarrow> (Inl reason, sh)
       | Inr None \<Rightarrow> (Inl ''TypeError'', sh)
       | Inr (Some opened) \<Rightarrow> (Inr (bo_summary opened, bo_identityConflict opened), sh\<lparr>sh_backupPayload := Some (bo_payload opened)\<rparr>)))"

definition cancelBackupPreview :: "shell \<Rightarrow> shell" where
  "cancelBackupPreview sh = sh\<lparr>sh_backupPayload := None\<rparr>"

definition spread_settings :: "json \<Rightarrow> string list \<Rightarrow> app_settings" where
  \<comment> \<open>\<open>{ ...EMPTY_SETTINGS, ...settings, blockedKeys }\<close>, as far as \<open>AppSettings\<close> goes\<close>
  "spread_settings j blocked = with_blocked blocked
     \<lparr>as_boards = or_default (jprop j ''boards'') (as_boards EMPTY_SETTINGS),
      as_iceServers = or_default (jprop j ''iceServers'') (as_iceServers EMPTY_SETTINGS),
      as_relayOnlyByDefault = or_default (jprop j ''relayOnlyByDefault'') (as_relayOnlyByDefault EMPTY_SETTINGS),
      as_pushNotifications = or_default (jprop j ''pushNotifications'') (as_pushNotifications EMPTY_SETTINGS),
      as_blockedKeys = as_blockedKeys EMPTY_SETTINGS\<rparr>"

definition shell_restoreBackup ::
  "web_client_deps \<Rightarrow> migration_state tx_outcome \<Rightarrow> key_provider option \<Rightarrow> bool \<Rightarrow> shell \<Rightarrow> (string + restore_result) \<times> shell" where
  "shell_restoreBackup d wr provider replace sh =
     (case sh_backupPayload sh of
        None \<Rightarrow> (Inl ''No backup is staged for restore.'', sh)
      | Some payload \<Rightarrow>
          (case restoreBackup d payload replace True (sh_rows sh) (sh_orpal sh) of
             (Inl err, rows, c) \<Rightarrow> (Inl err, (sync c sh)\<lparr>sh_rows := rows\<rparr>)
           | (Inr result, rows, c) \<Rightarrow>
               (let sh1 = (sync c sh)\<lparr>sh_rows := rows, sh_backupPayload := None\<rparr>;
                    restored = spread_settings (rr_settings result) (rr_blockedKeys result)
                in case save_secrets wr provider restored sh1 of
                     (Some err, sh2) \<Rightarrow> (Inl err, sh2)
                   | (None, sh2) \<Rightarrow> (case store_settings restored sh2 of
                       (Some err, sh3) \<Rightarrow> (Inl err, sh3)
                     | (None, sh3) \<Rightarrow>
                         (let sh4 = refreshContacts d (sh3\<lparr>sh_settings := restored, sh_settingsNeedRestart := True\<rparr>)
                          in (Inr result, sh4\<lparr>sh_messages := [], sh_selected := None, sh_pendingMetrics := pendingMetrics d (sh_orpal sh4)\<rparr>))))))"

subsection \<open>Key migration\<close>

definition show_progress :: "shell \<Rightarrow> shell" where
  "show_progress sh = sh\<lparr>sh_progress := (case oc_migration (sh_orpal sh) of None \<Rightarrow> None | Some mm \<Rightarrow> mm_progress mm)\<rparr>"

definition show_incoming :: "shell \<Rightarrow> shell" where
  "show_incoming sh = sh\<lparr>sh_incoming := (case oc_migration (sh_orpal sh) of None \<Rightarrow> [] | Some mm \<Rightarrow> mm_pendingIncoming mm)\<rparr>"

definition shell_startMigration :: "web_client_deps \<Rightarrow> client_env \<Rightarrow> string \<Rightarrow> shell \<Rightarrow> string option \<times> shell" where
  "shell_startMigration d e retireAfterUtc sh = (case startClientMigration d e retireAfterUtc (sh_orpal sh) of
       (None, c) \<Rightarrow> (None, show_progress (sync c sh))
     | (Some err, c) \<Rightarrow> (Some err, sync c sh))"

definition shell_retireMigration :: "web_client_deps \<Rightarrow> shell \<Rightarrow> string option \<times> shell" where
  "shell_retireMigration d sh = (case retireMigration d (sh_orpal sh) of
       (None, c) \<Rightarrow> (None, show_progress (sync c sh))
     | (Some err, c) \<Rightarrow> (Some err, sync c sh))"

definition shell_acceptMigration :: "web_client_deps \<Rightarrow> client_env \<Rightarrow> string \<Rightarrow> shell \<Rightarrow> bool \<times> shell" where
  "shell_acceptMigration d e contactKey sh = (case acceptMigration d e contactKey (sh_orpal sh) of
       (accepted, c) \<Rightarrow> (accepted, refreshContacts d (show_incoming (sync c sh))))"

definition shell_declineMigration :: "string \<Rightarrow> shell \<Rightarrow> shell" where
  "shell_declineMigration contactKey sh = show_incoming (sync (declineMigration contactKey (sh_orpal sh)) sh)"

subsection \<open>What is shown\<close>

definition blocked_in :: "app_settings \<Rightarrow> string list" where
  "blocked_in s = strings_of (as_blockedKeys s)"

definition of_contact :: "contact \<Rightarrow> conversation" where
  "of_contact c = \<lparr>cn_key = ct_identityKey c, cn_name = ct_displayName c, cn_relayOnly = ct_relayOnly c, cn_known = True,
     cn_isLoopback = ct_isLoopback c\<rparr>"

definition of_unknown :: "string \<Rightarrow> conversation" where
  "of_unknown key = \<lparr>cn_key = key, cn_name = ''Unknown ('' @ shortKey key @ '')'', cn_relayOnly = False, cn_known = False, cn_isLoopback = False\<rparr>"

definition conversations_by_key :: "shell \<Rightarrow> (string, conversation) jmap" where
  "conversations_by_key sh =
     (let blocked = blocked_in (sh_settings sh);
          byKey = fold (\<lambda>c m. if ct_identityKey c \<in> set blocked then m else jset (ct_identityKey c) (of_contact c) m) (sh_contacts sh) []
      in fold (\<lambda>key m. if key \<in> set blocked \<or> jhas m key then m else jset key (of_unknown key) m) (jkeys (sh_messages sh)) byKey)"

fun insert_sorted :: "('a \<Rightarrow> 'a \<Rightarrow> bool) \<Rightarrow> 'a \<Rightarrow> 'a list \<Rightarrow> 'a list" where
  "insert_sorted le x [] = [x]"
| "insert_sorted le x (y # ys) = (if le x y then x # y # ys else y # insert_sorted le x ys)"

definition stable_sort :: "('a \<Rightarrow> 'a \<Rightarrow> bool) \<Rightarrow> 'a list \<Rightarrow> 'a list" where
  "stable_sort le xs = foldr (insert_sorted le) xs []"

definition conversation_le :: "(string \<Rightarrow> string \<Rightarrow> bool) \<Rightarrow> conversation \<Rightarrow> conversation \<Rightarrow> bool" where
  \<comment> \<open>\<open>le\<close>: \<open>localeCompare\<close> is not positive\<close>
  "conversation_le le a b = (if cn_isLoopback a \<noteq> cn_isLoopback b then \<not> cn_isLoopback a else le (cn_name a) (cn_name b))"

definition conversations :: "(string \<Rightarrow> string \<Rightarrow> bool) \<Rightarrow> shell \<Rightarrow> conversation list" where
  "conversations le sh = stable_sort (conversation_le le) (jvals (conversations_by_key sh))"

definition shown_messages :: "shell \<Rightarrow> stored_message list" where
  "shown_messages sh = (case sh_selected sh of
       None \<Rightarrow> []
     | Some key \<Rightarrow> if key = [] then [] else or_default (jget (sh_messages sh) key) [])"

definition connectionOf :: "string \<Rightarrow> shell \<Rightarrow> contact_state" where
  "connectionOf key sh = or_default (jget (sh_connections sh) key) CUnknown"

definition totalUnread :: "shell \<Rightarrow> nat" where
  "totalUnread sh = sum_list (jvals (sh_unread sh))"

end
