(* ===== verification/AppViews.thy ===== *)
theory AppViews
  imports AppShell
begin

text \<open>
  What the state behind the user interface keeps, in every reachable state: message lists in order and
  without duplicates, no unread count for the conversation that was opened last, one request per sender,
  and no TURN secret in the stored settings.
\<close>

subsection \<open>Steps\<close>

text \<open>
  Whatever the client does on its own is a step; its state is arbitrary here, but where a history is read,
  the store must be well formed, as that of a reachable client is.
\<close>

inductive shell_step :: "shell \<Rightarrow> shell \<Rightarrow> bool" where
  Client: "shell_step sh (sync c' sh)"
| Select: "shell_step sh (select_conversation now key sh)"
| History: "dp_store d = IpcConversationStore \<Longrightarrow> web_db_ok (oc_store (sh_orpal sh)) \<Longrightarrow> shell_step sh (load_history d e k sh)"
| SendText: "shell_step sh (shell_sendText d e tx sh)"
| SendFile: "shell_step sh (shell_sendFile d e pick sh)"
| Retry: "shell_step sh (shell_retry d e i sh)"
| Connect: "shell_step sh (shell_connect d e k sh)"
| AddContact: "shell_step sh (snd (addContact d e tx nm relay sh))"
| RemoveContact: "shell_step sh (shell_removeContact d k sh)"
| Rename: "shell_step sh (renameContact d k tx sh)"
| RelayOnly: "shell_step sh (setRelayOnly d k b sh)"
| AutoAccept: "shell_step sh (shell_setAutoAccept d k b sh)"
| Boards: "shell_step sh (shell_setContactBoards d e k bs sh)"
| AcceptRequest: "shell_step sh (snd (shell_acceptRequest d e k nm sh))"
| DismissRequest: "shell_step sh (shell_dismissRequest k sh)"
| ExportContacts: "shell_step sh (shell_exportContacts d e sh)"
| ImportContacts: "shell_step sh (snd (shell_importContacts d e input col sh))"
| TestContact: "shell_step sh (snd (createTestContact d e sh))"
| SelfTest: "shell_step sh (snd (runSelfTest d e rnd sh))"
| Save: "settings_wf s \<Longrightarrow> shell_step sh (snd (saveSettings wr provider s sh))"
| Block: "shell_step sh (snd (blockContact k sh))"
| Unblock: "shell_step sh (snd (unblockContact k sh))"
| Push: "shell_step sh (snd (setPushEnabled e b token sh))"
| ExportBackup: "shell_step sh (snd (shell_exportBackup d B pw salt iv e sh))"
| Preview: "shell_step sh (snd (previewBackup d B input pw sh))"
| Cancel: "shell_step sh (cancelBackupPreview sh)"
| Restore: "shell_step sh (snd (shell_restoreBackup d wr provider b sh))"
| StartMigration: "shell_step sh (snd (shell_startMigration d e tx sh))"
| RetireMigration: "shell_step sh (snd (shell_retireMigration d sh))"
| AcceptMigration: "shell_step sh (snd (shell_acceptMigration d e k sh))"
| DeclineMigration: "shell_step sh (shell_declineMigration k sh)"

inductive shell_reach :: "shell \<Rightarrow> bool" where
  Start: "createOrpalApp C wr provider sink hash e store queue stored0 w = (Inr app1, stored, w1) \<Longrightarrow>
     provider_start d wr2 e2 app1 rows files stored lastRead token = Inr sh \<Longrightarrow> shell_reach sh"
| Next: "shell_reach sh \<Longrightarrow> shell_step sh sh' \<Longrightarrow> shell_reach sh'"

subsection \<open>The invariant\<close>

definition list_ok :: "string \<Rightarrow> stored_message list \<Rightarrow> bool" where
  "list_ok key list = (distinct (map sm_id list) \<and> sorted (map sm_ts list) \<and> (\<forall>m\<in>set list. sm_contactKey m = key))"

definition views_ok :: "shell \<Rightarrow> bool" where
  "views_ok sh = ((\<forall>key list. jget (sh_messages sh) key = Some list \<longrightarrow> list_ok key list)
     \<and> (\<forall>key. sh_selectedRef sh = Some key \<and> key \<noteq> [] \<longrightarrow> jget (sh_unread sh) key = None)
     \<and> distinct (map rq_contactKey (sh_requests sh)))"

definition settings_kept_ok :: "shell \<Rightarrow> bool" where
  "settings_kept_ok sh = (settings_wf (sh_settings sh) \<and> servers_of (sh_settings sh) \<noteq> None \<and> secret_free (loadSettings (sh_stored sh))
     \<and> (\<forall>p. sh_backupPayload sh = Some p \<longrightarrow> wf_json (bp_settings p)))"

definition shell_ok :: "shell \<Rightarrow> bool" where
  "shell_ok sh = (views_ok sh \<and> settings_kept_ok sh)"

subsection \<open>Events\<close>

lemma put_message_ok:
  assumes "list_ok key list" "sm_contactKey m = key"
  shows "list_ok key (put_message m list)"
proof -
  have i: "map sm_id (map (\<lambda>x. if sm_id x = sm_id m then m else x) list) = map sm_id list" by (induction list) auto
  have "distinct (map sm_id (put_message m list))"
  proof -
    have d: "distinct (map sm_id (sort_key sm_ts xs)) = distinct (map sm_id xs)" for xs :: "stored_message list"
      by (metis distinct_map distinct_sort set_sort)
    show ?thesis using assms(1) i unfolding put_message_def d by (auto simp: list_ok_def simp del: map_map)
  qed
  moreover have "sorted (map sm_ts (put_message m list))" by (simp add: put_message_def)
  moreover have "\<forall>x\<in>set (put_message m list). sm_contactKey x = key" using assms by (auto simp: put_message_def list_ok_def)
  ultimately show ?thesis by (simp add: list_ok_def)
qed

lemma list_ok_Nil [simp]: "list_ok key []"
  by (simp add: list_ok_def)

lemma upsert_ok: "shell_ok sh \<Longrightarrow> shell_ok (upsertMessage m sh)"
  using put_message_ok [of "sm_contactKey m" "or_default (jget (sh_messages sh) (sm_contactKey m)) []" m]
  by (cases "jget (sh_messages sh) (sm_contactKey m)")
    (auto simp: shell_ok_def views_ok_def settings_kept_ok_def upsertMessage_def Let_def or_default_def)

lemma fields_ok [simp]:
  "shell_ok (sh\<lparr>sh_orpal := a\<rparr>) = shell_ok sh" "shell_ok (sh\<lparr>sh_rows := b\<rparr>) = shell_ok sh" "shell_ok (sh\<lparr>sh_files := c\<rparr>) = shell_ok sh"
  "shell_ok (sh\<lparr>sh_settingsNeedRestart := f\<rparr>) = shell_ok sh" "shell_ok (sh\<lparr>sh_contacts := g\<rparr>) = shell_ok sh"
  "shell_ok (sh\<lparr>sh_selected := h\<rparr>) = shell_ok sh" "shell_ok (sh\<lparr>sh_connections := i\<rparr>) = shell_ok sh"
  "shell_ok (sh\<lparr>sh_brokerState := j\<rparr>) = shell_ok sh" "shell_ok (sh\<lparr>sh_pendingMetrics := k\<rparr>) = shell_ok sh"
  "shell_ok (sh\<lparr>sh_keyProtection := l\<rparr>) = shell_ok sh" "shell_ok (sh\<lparr>sh_signalActivity := n\<rparr>) = shell_ok sh"
  "shell_ok (sh\<lparr>sh_progress := o1\<rparr>) = shell_ok sh" "shell_ok (sh\<lparr>sh_incoming := p\<rparr>) = shell_ok sh"
  "shell_ok (sh\<lparr>sh_pushEnabled := q\<rparr>) = shell_ok sh"
  by (simp_all add: shell_ok_def views_ok_def settings_kept_ok_def)

lemma event_ok: "shell_ok sh \<Longrightarrow> shell_ok (on_event ev sh)"
  by (cases ev) (auto simp: on_event_def upsert_ok, auto simp: shell_ok_def views_ok_def settings_kept_ok_def)

lemma fold_ok: "shell_ok sh \<Longrightarrow> (\<And>x sh. shell_ok sh \<Longrightarrow> shell_ok (f x sh)) \<Longrightarrow> shell_ok (fold f xs sh)"
  by (induction xs arbitrary: sh) simp_all

lemma sync_ok: "shell_ok sh \<Longrightarrow> shell_ok (sync c' sh)"
  by (auto simp: sync_def Let_def on_key_seal_def on_pending_def on_connection_def intro!: fold_ok event_ok)

subsection \<open>Histories\<close>

lemma history_page_ok:
  assumes "web_db_ok (oc_store c)" "dp_store d = IpcConversationStore"
  shows "list_ok key (rev (history (dp_store d) key lo c))"
proof -
  let ?page = "cv_listMessages IpcConversationStore key lo (oc_store c)" and ?rows = "cv_listAllMessages IpcConversationStore (oc_store c)"
  obtain older where o: "mset (?page @ older) = mset (filter (\<lambda>m. sm_contactKey m = key
        \<and> (case lo_before lo of None \<Rightarrow> True | Some b \<Rightarrow> sm_ts m < b)) ?rows)" "sorted_wrt (\<lambda>m n. sm_ts n \<le> sm_ts m) (?page @ older)"
    using web_conv.listMessages_page [OF assms(1), of key lo] unfolding page_of_def by blast
  have "distinct (map sm_id (filter P ?rows))" for P by (rule distinct_map_filter [OF web_conv.listAll_distinct [OF assms(1)]])
  moreover have "mset (map sm_id (?page @ older)) = mset (map sm_id (filter (\<lambda>m. sm_contactKey m = key
        \<and> (case lo_before lo of None \<Rightarrow> True | Some b \<Rightarrow> sm_ts m < b)) ?rows))"
    by (simp only: mset_map o(1))
  ultimately have "distinct (map sm_id (?page @ older))" using mset_eq_imp_distinct_iff by blast
  then have "distinct (map sm_id ?page)" by simp
  moreover have "sorted (map sm_ts (rev ?page))" using o(2) by (simp add: sorted_wrt_append sorted_wrt_rev sorted_map)
  moreover have "\<forall>m\<in>set ?page. sm_contactKey m = key" using web_conv.listMessages_mem [OF assms(1)] by blast
  ultimately show ?thesis by (simp add: list_ok_def history_def assms(2) flip: rev_map)
qed

lemma load_history_ok:
  assumes "shell_ok sh" "web_db_ok (oc_store (sh_orpal sh))" "dp_store d = IpcConversationStore"
  shows "shell_ok (load_history d e key sh)"
proof -
  let ?sh = "sh\<lparr>sh_messages := jset key (rev (history (dp_store d) key \<lparr>lo_limit = Some 500, lo_before = None\<rparr> (sh_orpal sh))) (sh_messages sh)\<rparr>"
  have "shell_ok ?sh" using assms(1) history_page_ok [OF assms(2,3)] by (auto simp: shell_ok_def views_ok_def settings_kept_ok_def)
  then show ?thesis by (simp add: load_history_def Let_def sync_ok)
qed

lemma select_ok: "shell_ok sh \<Longrightarrow> shell_ok (select_conversation now key sh)"
  by (auto simp: select_conversation_def Let_def shell_ok_def views_ok_def settings_kept_ok_def split: option.split)

subsection \<open>Settings\<close>

lemma store_clean:
  assumes "settings_wf s" "servers_of s = Some servers"
  shows "secret_free (loadSettings (settings_set (with_servers (stripTurnCredentials servers) s)))"
  using reload_servers [OF with_servers_wf [OF assms(1) strip_wf [OF settings_wf_servers [OF assms]]] with_servers_sel(1)] strip_clean
  by (simp add: secret_free_def)

lemma store_ok: "shell_ok sh \<Longrightarrow> settings_wf s \<Longrightarrow> shell_ok (snd (store_settings s sh))"
  by (auto simp: store_settings_def shell_ok_def views_ok_def settings_kept_ok_def store_clean split: option.split)

lemma set_settings_ok: "shell_ok sh \<Longrightarrow> settings_wf s \<Longrightarrow> servers_of s \<noteq> None \<Longrightarrow> shell_ok (sh\<lparr>sh_settings := s\<rparr>)"
  by (simp add: shell_ok_def views_ok_def settings_kept_ok_def)

lemma persist_ok: "shell_ok sh \<Longrightarrow> settings_wf s \<Longrightarrow> servers_of s \<noteq> None \<Longrightarrow> shell_ok (snd (persistSettings s sh))"
  by (simp add: persistSettings_def store_ok set_settings_ok)

lemma secrets_ok: "shell_ok sh \<Longrightarrow> shell_ok (snd (save_secrets wr provider s sh))"
  by (auto simp: save_secrets_def split: option.split prod.split)

lemma store_None: "store_settings s sh = (None, sh') \<Longrightarrow> servers_of s \<noteq> None"
  by (auto simp: store_settings_def split: option.splits)

lemma save_ok: "shell_ok sh \<Longrightarrow> settings_wf s \<Longrightarrow> shell_ok (snd (saveSettings wr provider s sh))"
proof -
  assume a: "shell_ok sh" "settings_wf s"
  obtain r sh1 where 1: "save_secrets wr provider s sh = (r, sh1)" by fastforce
  obtain q sh2 where 2: "store_settings s sh1 = (q, sh2)" by fastforce
  have k: "shell_ok sh1" using secrets_ok [OF a(1), of wr provider s] 1 by simp
  then have "shell_ok sh2" using store_ok [OF _ a(2), of sh1] 2 by simp
  then show ?thesis using k a(2) 1 2 store_None [of s sh1 sh2]
    by (cases r; cases q) (simp_all add: saveSettings_def set_settings_ok)
qed

lemma with_blocked_ok [simp]: "servers_of (with_blocked ks s) = servers_of s" "settings_wf s \<Longrightarrow> settings_wf (with_blocked ks s)"
  "strings_of (as_blockedKeys (with_blocked ks s)) = ks"
  by (auto simp: with_blocked_def servers_of_def settings_wf_fields strings_of_def comp_def)

lemma current_settings: "shell_ok sh \<Longrightarrow> settings_wf (sh_settings sh) \<and> servers_of (sh_settings sh) \<noteq> None"
  by (simp add: shell_ok_def settings_kept_ok_def)

lemma event_settings [simp]: "sh_settings (on_event ev sh) = sh_settings sh" "sh_stored (on_event ev sh) = sh_stored sh"
  "sh_orpal (on_event ev sh) = sh_orpal sh" "sh_selectedRef (on_event ev sh) = sh_selectedRef sh" "sh_selected (on_event ev sh) = sh_selected sh"
  "sh_backupPayload (on_event ev sh) = sh_backupPayload sh" "sh_rows (on_event ev sh) = sh_rows sh"
  by (simp_all add: on_event_def upsertMessage_def Let_def split: client_event.split)

lemma sync_sel [simp]: "sh_settings (sync c sh) = sh_settings sh" "sh_stored (sync c sh) = sh_stored sh" "sh_orpal (sync c sh) = c"
  "sh_selectedRef (sync c sh) = sh_selectedRef sh" "sh_selected (sync c sh) = sh_selected sh" "sh_backupPayload (sync c sh) = sh_backupPayload sh"
proof -
  have e: "sh_settings (fold on_event evs s) = sh_settings s \<and> sh_stored (fold on_event evs s) = sh_stored s
      \<and> sh_orpal (fold on_event evs s) = sh_orpal s \<and> sh_selectedRef (fold on_event evs s) = sh_selectedRef s
      \<and> sh_selected (fold on_event evs s) = sh_selected s \<and> sh_backupPayload (fold on_event evs s) = sh_backupPayload s" for evs s
    by (induction evs arbitrary: s) simp_all
  have n: "sh_settings (fold on_connection xs s) = sh_settings s \<and> sh_stored (fold on_connection xs s) = sh_stored s
      \<and> sh_orpal (fold on_connection xs s) = sh_orpal s \<and> sh_selectedRef (fold on_connection xs s) = sh_selectedRef s
      \<and> sh_selected (fold on_connection xs s) = sh_selected s \<and> sh_backupPayload (fold on_connection xs s) = sh_backupPayload s" for xs s
    by (induction xs arbitrary: s) (simp_all add: on_connection_def)
  have m: "sh_settings (fold on_pending xs s) = sh_settings s \<and> sh_stored (fold on_pending xs s) = sh_stored s
      \<and> sh_orpal (fold on_pending xs s) = sh_orpal s \<and> sh_selectedRef (fold on_pending xs s) = sh_selectedRef s
      \<and> sh_selected (fold on_pending xs s) = sh_selected s \<and> sh_backupPayload (fold on_pending xs s) = sh_backupPayload s" for xs s
    by (induction xs arbitrary: s) (simp_all add: on_pending_def)
  show "sh_settings (sync c sh) = sh_settings sh" "sh_stored (sync c sh) = sh_stored sh" "sh_orpal (sync c sh) = c"
    "sh_selectedRef (sync c sh) = sh_selectedRef sh" "sh_selected (sync c sh) = sh_selected sh" "sh_backupPayload (sync c sh) = sh_backupPayload sh"
    by (simp_all add: sync_def Let_def on_key_seal_def e n m)
qed

lemma without_request_ok: "shell_ok sh \<Longrightarrow> shell_ok (without_request key sh)"
  by (auto simp: without_request_def shell_ok_def views_ok_def settings_kept_ok_def intro: distinct_map_filter)

lemma drop_messages_ok: "shell_ok sh \<Longrightarrow> shell_ok (sh\<lparr>sh_messages := jdel key (sh_messages sh)\<rparr>)"
  by (auto simp: shell_ok_def views_ok_def settings_kept_ok_def)

definition now_blocked :: "string \<Rightarrow> shell \<Rightarrow> string list" where
  "now_blocked key sh = set_of (strings_of (as_blockedKeys (sh_settings sh)) @ [key])"

definition block_persist :: "string \<Rightarrow> shell \<Rightarrow> string option \<times> shell" where
  "block_persist key sh = persistSettings (with_blocked (now_blocked key sh) (sh_settings sh))
     (sync (dismissContactRequest key (setBlockedKeys (now_blocked key sh) (sh_orpal sh))) (sync (setBlockedKeys (now_blocked key sh) (sh_orpal sh)) sh))"

lemma block_unfold: "blockContact key sh = (case block_persist key sh of
     (Some err, sh3) \<Rightarrow> (Some err, sh3)
   | (None, sh3) \<Rightarrow> (let sh4 = (without_request key sh3)\<lparr>sh_messages := jdel key (sh_messages sh3)\<rparr>
       in (None, if sh_selected sh4 = Some key then sh4\<lparr>sh_selected := None\<rparr> else sh4)))"
  by (simp add: blockContact_def block_persist_def now_blocked_def Let_def)

lemma block_ok: "shell_ok sh \<Longrightarrow> shell_ok (snd (blockContact key sh))"
proof -
  assume a: "shell_ok sh"
  obtain r sh3 where p: "block_persist key sh = (r, sh3)" by fastforce
  have "shell_ok (snd (block_persist key sh))"
    unfolding block_persist_def using a current_settings [OF a] by (intro persist_ok) (simp_all add: sync_ok)
  then have k: "shell_ok sh3" using p by simp
  have "shell_ok ((without_request key sh3)\<lparr>sh_messages := jdel key (sh_messages sh3)\<rparr>)"
    using drop_messages_ok [OF without_request_ok [OF k, of key], of key] by (simp add: without_request_def)
  then show ?thesis using k by (cases r) (simp_all add: block_unfold p Let_def)
qed

lemma unblock_ok: "shell_ok sh \<Longrightarrow> shell_ok (snd (unblockContact key sh))"
  using current_settings [of sh] by (simp add: unblockContact_def Let_def persist_ok sync_ok)

lemma push_ok: "shell_ok sh \<Longrightarrow> shell_ok (snd (setPushEnabled e on token sh))"
  using current_settings [of sh]
  by (auto simp: setPushEnabled_def Let_def settings_wf_fields servers_of_def sync_ok intro!: persist_ok split: sum.split)

subsection \<open>Backups\<close>

lemma opened_settings_wf:
  assumes "readBackup d B input pw c = Inr (Some opened)"
  shows "wf_json (bp_settings (bo_payload opened))"
proof -
  obtain j p where j: "openBackup B input pw = Inr j" "payload_of_json j = Some p" "bo_payload opened = p"
    using assms by (auto simp: readBackup_def Let_def split: sum.splits option.splits)
  obtain plain where "json_parse plain = Some j" using j(1)
    by (auto simp: openBackup_def split: sum.splits option.splits if_splits)
  then have "wf_json j" by (rule json_parse_wf)
  moreover have "jprop j ''settings'' = Some (bp_settings p)" using j(2) by (auto simp: payload_of_json_def split: option.splits)
  ultimately show ?thesis using j(3) wf_jprop by blast
qed

lemma restored_settings:
  assumes "restoreBackup d p replace imp q c = (Inr r, q1, c1)"
  shows "rr_settings r = bp_settings p"
proof -
  have c: "rr_settings (fst (snd (fold (restore_contact d replace) xs st))) = rr_settings (fst (snd st))" for xs and st :: "string list \<times> restore_result \<times> ('s, 'q, 'w, 'k) orpal" and d
    by (induction xs arbitrary: st) (auto simp: restore_contact_def split: sum.split prod.splits)
  have m: "rr_settings (fst (fold (restore_message d replace) xs st)) = rr_settings (fst st)" for xs and st :: "restore_result \<times> ('s, 'q, 'w, 'k) orpal" and d
    by (induction xs arbitrary: st) (auto simp: restore_message_def split: prod.splits)
  have n: "rr_settings (fst (fold (restore_pending d replace) xs st)) = rr_settings (fst st)" for xs and st :: "restore_result \<times> 'q \<times> ('s, 'q, 'w, 'k) orpal" and d
    by (induction xs arbitrary: st) (auto simp: restore_pending_def Let_def split: prod.splits option.split)
  have t: "rr_settings (fst (restore_data d p replace r0 q0 c0)) = rr_settings r0" for r0 q0 and c0 :: "('s, 'q, 'w, 'k) orpal" and d
    using c [of d "bp_contacts p"] m [of d] n [of d] by (simp add: restore_data_def Let_def case_prod_beta)
  have f: "rr_settings (fresh_result d p replace c) = bp_settings p" by (simp add: fresh_result_def Let_def)
  have e: "rr_settings r3 = rr_settings r2" if "restore_rest d p imp r2 c2 = (Inr r3, c3)" for r2 r3 c2 c3 d
    using that by (auto simp: restore_rest_def Let_def split: sum.splits option.splits if_splits prod.splits)
  obtain x q2 c2 where w: "(if replace then restore_wipe d q c else (None, q, c)) = (x, q2, c2)" by (metis prod.collapse)
  obtain r2 q3 c3 where dt: "restore_data d p replace (fresh_result d p replace c) q2 c2 = (r2, q3, c3)" by (metis prod.collapse)
  obtain y c4 where rs: "restore_rest d p imp r2 c3 = (y, c4)" by fastforce
  have "x = None" "y = Inr r" using assms w dt rs by (auto simp: restoreBackup_def split: option.splits)
  then show ?thesis using e [OF rs [unfolded \<open>y = Inr r\<close>]] t [of d "fresh_result d p replace c" q2 c2] f by (simp add: dt)
qed

lemma spread_wf: "wf_json j \<Longrightarrow> settings_wf (spread_settings j keys)"
proof -
  assume j: "wf_json j"
  have "wf_json (or_default (jprop j k) v)" if "wf_json v" for k v
    using wf_jprop [OF j, of k] that by (cases "jprop j k") (simp_all add: or_default_def)
  then show ?thesis by (simp add: spread_settings_def with_blocked_def settings_wf_fields EMPTY_SETTINGS_def)
qed

lemma drop_payload_ok: "shell_ok sh \<Longrightarrow> shell_ok (sh\<lparr>sh_backupPayload := None\<rparr>)"
  by (simp add: shell_ok_def views_ok_def settings_kept_ok_def)

lemma clear_views_ok: "shell_ok sh \<Longrightarrow> shell_ok (sh\<lparr>sh_messages := []\<rparr>)"
  by (simp add: shell_ok_def views_ok_def settings_kept_ok_def)

lemma refresh_ok [simp]: "shell_ok (refreshContacts d sh) = shell_ok sh"
  by (simp add: refreshContacts_def)

lemma preview_ok: "shell_ok sh \<Longrightarrow> shell_ok (snd (previewBackup d B text pw sh))"
  using opened_settings_wf [of d B _ pw "sh_orpal sh"]
  by (auto simp: previewBackup_def shell_ok_def views_ok_def settings_kept_ok_def split: option.split sum.split)

definition restore_commit ::
  "web_client_deps \<Rightarrow> migration_state tx_outcome \<Rightarrow> key_provider option \<Rightarrow> restore_result \<Rightarrow> shell \<Rightarrow> (string + restore_result) \<times> shell" where
  \<comment> \<open>what follows the client's restore\<close>
  "restore_commit d wr provider result sh1 =
     (let restored = spread_settings (rr_settings result) (rr_blockedKeys result) in
      case save_secrets wr provider restored sh1 of
        (Some err, sh2) \<Rightarrow> (Inl err, sh2)
      | (None, sh2) \<Rightarrow> (case store_settings restored sh2 of
          (Some err, sh3) \<Rightarrow> (Inl err, sh3)
        | (None, sh3) \<Rightarrow>
            (let sh4 = refreshContacts d (sh3\<lparr>sh_settings := restored, sh_settingsNeedRestart := True\<rparr>)
             in (Inr result, sh4\<lparr>sh_messages := [], sh_selected := None, sh_pendingMetrics := pendingMetrics d (sh_orpal sh4)\<rparr>))))"

lemma restore_unfold: "shell_restoreBackup d wr provider replace sh =
     (case sh_backupPayload sh of
        None \<Rightarrow> (Inl ''No backup is staged for restore.'', sh)
      | Some payload \<Rightarrow>
          (case restoreBackup d payload replace True (sh_rows sh) (sh_orpal sh) of
             (Inl err, rows, c) \<Rightarrow> (Inl err, (sync c sh)\<lparr>sh_rows := rows\<rparr>)
           | (Inr result, rows, c) \<Rightarrow> restore_commit d wr provider result ((sync c sh)\<lparr>sh_rows := rows, sh_backupPayload := None\<rparr>)))"
  unfolding shell_restoreBackup_def restore_commit_def Let_def by (rule refl)

lemma commit_ok:
  assumes "shell_ok sh1" "wf_json (rr_settings result)"
  shows "shell_ok (snd (restore_commit d wr provider result sh1))"
proof -
  let ?s = "spread_settings (rr_settings result) (rr_blockedKeys result)"
  obtain r sh2 where 2: "save_secrets wr provider ?s sh1 = (r, sh2)" by fastforce
  obtain q sh3 where 3: "store_settings ?s sh2 = (q, sh3)" by fastforce
  have k2: "shell_ok sh2" using secrets_ok [OF assms(1), of wr provider ?s] 2 by simp
  have k3: "shell_ok sh3" using store_ok [OF k2 spread_wf [OF assms(2)]] 3 by (metis snd_conv)
  show ?thesis
  proof (cases "r = None \<and> q = None")
    case True
    have "shell_ok (sh3\<lparr>sh_settings := ?s\<rparr>)" using set_settings_ok [OF k3 spread_wf [OF assms(2)]] store_None 3 True by blast
    then have "shell_ok (refreshContacts d (sh3\<lparr>sh_settings := ?s, sh_settingsNeedRestart := True\<rparr>))" by simp
    from clear_views_ok [OF this] show ?thesis using True 2 3 by (simp add: restore_commit_def Let_def)
  next
    case False
    then show ?thesis using k2 k3 2 3 by (cases r; cases q) (simp_all add: restore_commit_def Let_def)
  qed
qed

lemma restore_ok: "shell_ok sh \<Longrightarrow> shell_ok (snd (shell_restoreBackup d wr provider replace sh))"
proof (cases "sh_backupPayload sh")
  case (Some p)
  assume a: "shell_ok sh"
  then have wf: "wf_json (bp_settings p)" using Some by (simp add: shell_ok_def settings_kept_ok_def)
  obtain res rows c where r: "restoreBackup d p replace True (sh_rows sh) (sh_orpal sh) = (res, rows, c)" by (metis prod.collapse)
  show ?thesis
  proof (cases res)
    case (Inl e)
    then show ?thesis using a Some r by (simp add: restore_unfold sync_ok)
  next
    case (Inr result)
    have "shell_ok ((sync c sh)\<lparr>sh_rows := rows, sh_backupPayload := None\<rparr>)" using drop_payload_ok [of "(sync c sh)\<lparr>sh_rows := rows\<rparr>"] a by (simp add: sync_ok)
    from commit_ok [OF this, of result d wr provider] show ?thesis
      using Some r Inr restored_settings [of d p replace True "sh_rows sh" "sh_orpal sh" result rows c] wf by (simp add: restore_unfold)
  qed
qed (simp add: restore_unfold)

subsection \<open>The other operations\<close>

lemma refreshed_ok: "shell_ok sh \<Longrightarrow> shell_ok (snd (refreshed d rc sh))"
  by (auto simp: refreshed_def sync_ok split: prod.split sum.split)

lemma plain_ok:
  assumes "shell_ok sh"
  shows "shell_ok (shell_sendText d e tx sh)" "shell_ok (shell_sendFile d e pick sh)" "shell_ok (shell_retry d e i sh)"
    "shell_ok (shell_connect d e k sh)" "shell_ok (snd (addContact d e tx nm relay sh))" "shell_ok (shell_removeContact d k sh)"
    "shell_ok (renameContact d k tx sh)" "shell_ok (setRelayOnly d k b sh)" "shell_ok (shell_setAutoAccept d k b sh)"
    "shell_ok (shell_setContactBoards d e k bs sh)" "shell_ok (shell_dismissRequest k sh)" "shell_ok (shell_exportContacts d e sh)"
    "shell_ok (snd (shell_importContacts d e input col sh))" "shell_ok (snd (createTestContact d e sh))" "shell_ok (snd (runSelfTest d e rnd sh))"
    "shell_ok (snd (shell_exportBackup d B pw salt iv e sh))" "shell_ok (cancelBackupPreview sh)"
    "shell_ok (snd (shell_startMigration d e tx sh))" "shell_ok (snd (shell_retireMigration d sh))"
    "shell_ok (snd (shell_acceptMigration d e k sh))" "shell_ok (shell_declineMigration k sh)"
proof -
  note s = sync_ok [OF assms]
  show "shell_ok (shell_sendText d e tx sh)" "shell_ok (shell_retry d e i sh)" "shell_ok (shell_connect d e k sh)"
    using s assms by (auto simp: shell_sendText_def shell_retry_def shell_connect_def split: option.split)
  show "shell_ok (shell_sendFile d e pick sh)"
    using s assms by (auto simp: shell_sendFile_def Let_def split: option.split prod.split)
  show "shell_ok (snd (addContact d e tx nm relay sh))" "shell_ok (snd (createTestContact d e sh))"
    using refreshed_ok [OF assms] by (simp_all add: addContact_def createTestContact_def)
  show "shell_ok (shell_removeContact d k sh)" "shell_ok (renameContact d k tx sh)" "shell_ok (setRelayOnly d k b sh)" "shell_ok (shell_setAutoAccept d k b sh)"
    using s assms by (simp_all add: shell_removeContact_def renameContact_def setRelayOnly_def shell_setAutoAccept_def Let_def)
  show "shell_ok (shell_setContactBoards d e k bs sh)" by (simp add: shell_setContactBoards_def Let_def s sync_ok)
  show "shell_ok (shell_dismissRequest k sh)" by (simp add: shell_dismissRequest_def without_request_ok s)
  show "shell_ok (shell_exportContacts d e sh)" "shell_ok (cancelBackupPreview sh)"
    using assms by (simp_all add: shell_exportContacts_def cancelBackupPreview_def drop_payload_ok)
  show "shell_ok (snd (shell_importContacts d e input col sh))" "shell_ok (snd (runSelfTest d e rnd sh))"
    using s assms by (auto simp: shell_importContacts_def runSelfTest_def split: option.split prod.split sum.split)
  show "shell_ok (snd (shell_exportBackup d B pw salt iv e sh))"
    using s by (auto simp: shell_exportBackup_def Let_def split: prod.split sum.split)
  show "shell_ok (snd (shell_startMigration d e tx sh))" "shell_ok (snd (shell_retireMigration d sh))"
    "shell_ok (snd (shell_acceptMigration d e k sh))" "shell_ok (shell_declineMigration k sh)"
    using s by (auto simp: shell_startMigration_def shell_retireMigration_def shell_acceptMigration_def shell_declineMigration_def
      show_progress_def show_incoming_def split: prod.split option.split)
qed

lemma accept_request_ok: "shell_ok sh \<Longrightarrow> shell_ok (snd (shell_acceptRequest d e k nm sh))"
  using refreshed_ok [of sh d "acceptContactRequest d e k nm (sh_orpal sh)"]
  by (auto simp: shell_acceptRequest_def without_request_ok split: prod.splits option.split)

subsection \<open>Every reachable state\<close>

lemma shell_ok_step: "shell_step sh sh' \<Longrightarrow> shell_ok sh \<Longrightarrow> shell_ok sh'"
  by (induction rule: shell_step.induct)
    (simp_all add: sync_ok select_ok load_history_ok plain_ok accept_request_ok save_ok block_ok unblock_ok push_ok preview_ok restore_ok)

lemma started_requests: "client_init i s w boards token = Some c0 \<Longrightarrow> client_start d e q (setBlockedKeys keys c0) = (r, c1) \<Longrightarrow> oc_pendingCards c1 = []"
proof -
  have b: "oc_pendingCards c = [] \<Longrightarrow> oc_pendingCards (fold block_one ks c) = []" for ks and c :: "('s, 'q, 'w, 'k) orpal"
    by (induction ks arbitrary: c) (simp_all add: block_one_def)
  have a: "oc_pendingCards (fold (announcePresenceOn e) bs c) = oc_pendingCards c" for bs e and c :: "('s, 'q, 'w, 'k) orpal"
    by (induction bs arbitrary: c) (simp_all add: announcePresenceOn_def oc_emit_def)
  assume "client_init i s w boards token = Some c0" "client_start d e q (setBlockedKeys keys c0) = (r, c1)"
  then show ?thesis using b [of "c0\<lparr>oc_blockedKeys := set_of keys\<rparr>" "set_of keys"]
    by (auto simp: client_init_def client_start_def setBlockedKeys_def Let_def announceAll_def a split: if_splits prod.splits)
qed

lemma launched_requests:
  assumes "createOrpalApp C wr provider sink hash e store queue stored w = (Inr app1, stored1, w1)"
  shows "contactRequests (ap_orpal app1) = []"
proof -
  obtain i w3 blocked d and c0 :: web_client_state where c: "client_init i store w3 (board_urls (loadSettings stored)) None = Some c0"
    "client_start d e queue (setBlockedKeys blocked c0) = (None, ap_orpal app1)"
    using assms by (auto simp: createOrpalApp_def Let_def split: sum.splits prod.splits option.splits)
  from started_requests [OF this] show ?thesis by (simp add: contactRequests_def jvals_def)
qed

lemma seeded_requests: "seed_loopback d wr e c = (r, c1) \<Longrightarrow> contactRequests c1 = contactRequests c"
proof -
  assume a: "seed_loopback d wr e c = (r, c1)"
  have "oc_pendingCards (snd (ensureLoopbackContact d e None c)) = oc_pendingCards c"
    by (auto simp: ensureLoopbackContact_def registerContact_def Let_def split: option.split sum.split)
  then show ?thesis using a by (auto simp: seed_loopback_def contactRequests_def split: if_splits prod.splits sum.splits)
qed

lemma provider_start_ok:
  assumes "createOrpalApp C wr provider sink hash e store queue stored0 w = (Inr app1, stored, w1)"
    and "provider_start d wr2 e2 app1 rows files stored lastRead token = Inr sh"
  shows "shell_ok sh"
proof -
  obtain r c where sd: "seed_loopback d wr2 e2 (ap_orpal app1) = (r, c)" by fastforce
  define sh0 where "sh0 = \<lparr>sh_orpal = c, sh_rows = rows, sh_files = files, sh_stored = stored, sh_settings = ap_settings app1,
                 sh_settingsNeedRestart = False, sh_contacts = cv_listContacts (dp_store d) (oc_store c), sh_selected = None,
                 sh_selectedRef = None, sh_messages = [], sh_connections = [], sh_brokerState = oc_brokerState c,
                 sh_pendingMetrics = pendingMetrics d c, sh_keyProtection = ap_keyProtection app1, sh_requests = contactRequests c,
                 sh_unread = [], sh_lastRead = lastRead, sh_signalActivity = 0,
                 sh_progress = (case oc_migration c of None \<Rightarrow> None | Some mm \<Rightarrow> mm_progress mm), sh_incoming = [],
                 sh_backupPayload = None, sh_pushEnabled = False\<rparr>"
  have "contactRequests c = []" using seeded_requests [OF sd] launched_requests [OF assms(1)] by simp
  then have ok: "shell_ok sh0" using launched(1-3) [OF assms(1)] by (auto simp: sh0_def shell_ok_def views_ok_def settings_kept_ok_def)
  have "sh = sh0 \<or> (\<exists>c' on. sh = (sync c' sh0)\<lparr>sh_pushEnabled := on\<rparr>)"
    using assms(2) sd unfolding provider_start_def sh0_def
    by (auto simp: Let_def split: option.splits sum.splits if_splits)
  then show ?thesis using ok by (auto simp: sync_ok)
qed

lemma shell_ok_reach: "shell_reach sh \<Longrightarrow> shell_ok sh"
  by (induction rule: shell_reach.induct) (auto intro: provider_start_ok shell_ok_step)

subsection \<open>Conversations\<close>

lemma insert_sorted_set [simp]: "mset (insert_sorted le x ys) = add_mset x (mset ys)"
  by (induction ys) simp_all

lemma stable_sort_mset [simp]: "mset (stable_sort le xs) = mset xs"
  by (induction xs) (simp_all add: stable_sort_def)

lemma insert_sorted_sorted:
  assumes "\<And>a b. le a b \<or> le b a" "\<And>a b c. le a b \<Longrightarrow> le b c \<Longrightarrow> le a c" "sorted_wrt le ys"
  shows "sorted_wrt le (insert_sorted le x ys)"
  using assms(3)
proof (induction ys)
  case (Cons y ys)
  have s: "set (insert_sorted le x zs) = insert x (set zs)" for zs by (induction zs) auto
  show ?case using Cons assms(1) [of x y] assms(2) [of x y] by (auto simp: s)
qed simp

lemma stable_sort_sorted:
  assumes "\<And>a b. le a b \<or> le b a" "\<And>a b c. le a b \<Longrightarrow> le b c \<Longrightarrow> le a c"
  shows "sorted_wrt le (stable_sort le xs)"
  by (induction xs) (simp_all add: stable_sort_def insert_sorted_sorted [OF assms])

text \<open>A comparison of names that is total and transitive.\<close>

definition collates :: "(string \<Rightarrow> string \<Rightarrow> bool) \<Rightarrow> bool" where
  "collates le = ((\<forall>a b. le a b \<or> le b a) \<and> (\<forall>a b c. le a b \<longrightarrow> le b c \<longrightarrow> le a c))"

lemma conversations_sorted: "collates le \<Longrightarrow> sorted_wrt (conversation_le le) (conversations le sh)"
  unfolding conversations_def by (rule stable_sort_sorted) (auto simp: conversation_le_def collates_def split: if_splits)

definition conv_keys_ok :: "string list \<Rightarrow> (string, conversation) jmap \<Rightarrow> bool" where
  "conv_keys_ok blocked m = (jmap_ok m \<and> (\<forall>k v. jget m k = Some v \<longrightarrow> cn_key v = k \<and> k \<notin> set blocked))"

lemma conv_keys_put: "conv_keys_ok blocked m \<Longrightarrow> k \<notin> set blocked \<Longrightarrow> cn_key v = k \<Longrightarrow> conv_keys_ok blocked (jset k v m)"
  by (simp add: conv_keys_ok_def)

lemma conversations_by_key_ok:
  "conv_keys_ok (blocked_in (sh_settings sh)) (conversations_by_key sh)"
  "jget (conversations_by_key sh) k = None \<longleftrightarrow> k \<in> set (blocked_in (sh_settings sh))
    \<or> (k \<notin> ct_identityKey ` set (sh_contacts sh) \<and> \<not> jhas (sh_messages sh) k)"
proof -
  let ?b = "blocked_in (sh_settings sh)"
  let ?f = "\<lambda>c m. if ct_identityKey c \<in> set ?b then m else jset (ct_identityKey c) (of_contact c) m"
  let ?g = "\<lambda>key m. if key \<in> set ?b \<or> jhas m key then m else jset key (of_unknown key) m"
  have f: "conv_keys_ok ?b m \<Longrightarrow> conv_keys_ok ?b (fold ?f cs m)" for cs m
  proof (induction cs arbitrary: m)
    case (Cons c cs)
    show ?case using Cons.IH [of "?f c m"] Cons.prems by (simp add: conv_keys_put of_contact_def)
  qed simp
  have g: "conv_keys_ok ?b m \<Longrightarrow> conv_keys_ok ?b (fold ?g ks m)" for ks m
  proof (induction ks arbitrary: m)
    case (Cons k ks)
    show ?case using Cons.IH [of "?g k m"] Cons.prems by (simp add: conv_keys_put of_unknown_def)
  qed simp
  have f2: "jget (fold ?f cs m) k = None \<longleftrightarrow> jget m k = None \<and> (k \<in> set ?b \<or> k \<notin> ct_identityKey ` set cs)" for cs m
    by (induction cs arbitrary: m) auto
  have g2: "jget (fold ?g ks m) k = None \<longleftrightarrow> jget m k = None \<and> (k \<in> set ?b \<or> k \<notin> set ks)" for ks m
    by (induction ks arbitrary: m) (auto simp: jhas_def)
  have "conv_keys_ok ?b []" by (simp add: conv_keys_ok_def)
  from g [OF f [OF this]] show "conv_keys_ok ?b (conversations_by_key sh)" by (simp add: conversations_by_key_def Let_def)
  have m: "k \<in> set (jkeys (sh_messages sh)) \<longleftrightarrow> jhas (sh_messages sh) k"
    using map_of_eq_None_iff [of "sh_messages sh" k] by (auto simp: jkeys_def jhas_def)
  show "jget (conversations_by_key sh) k = None \<longleftrightarrow> k \<in> set ?b \<or> (k \<notin> ct_identityKey ` set (sh_contacts sh) \<and> \<not> jhas (sh_messages sh) k)"
    using m by (auto simp: conversations_by_key_def Let_def g2 f2)
qed

lemma conversations_keys:
  "distinct (map cn_key (conversations le sh))"
  "key \<in> cn_key ` set (conversations le sh) \<longleftrightarrow> key \<notin> set (blocked_in (sh_settings sh))
    \<and> (key \<in> ct_identityKey ` set (sh_contacts sh) \<or> jhas (sh_messages sh) key)"
proof -
  let ?m = "conversations_by_key sh"
  have k: "conv_keys_ok (blocked_in (sh_settings sh)) ?m" by (rule conversations_by_key_ok)
  then have j: "jmap_ok ?m" by (simp add: conv_keys_ok_def)
  have e: "map cn_key (jvals ?m) = map fst ?m"
    using k j by (auto simp: jvals_def conv_keys_ok_def jmap_mem_iff)
  have ms: "mset (map cn_key (conversations le sh)) = mset (map fst ?m)"
    by (simp only: mset_map conversations_def stable_sort_mset e [THEN arg_cong [where f = mset], unfolded mset_map])
  then have "distinct (map cn_key (conversations le sh)) = distinct (map fst ?m)" by (rule mset_eq_imp_distinct_iff)
  then show "distinct (map cn_key (conversations le sh))" using j unfolding jmap_ok_def by blast
  have kf: "key \<in> fst ` set ?m \<longleftrightarrow> jget ?m key \<noteq> None" by (simp add: map_of_eq_None_iff)
  have "cn_key ` set (conversations le sh) = fst ` set ?m" using mset_eq_setD [OF ms] by (simp only: set_map)
  then show "key \<in> cn_key ` set (conversations le sh) \<longleftrightarrow> key \<notin> set (blocked_in (sh_settings sh))
    \<and> (key \<in> ct_identityKey ` set (sh_contacts sh) \<or> jhas (sh_messages sh) key)"
    using conversations_by_key_ok(2) [of sh key] kf by blast
qed

subsection \<open>Blocking\<close>

lemma persist_sel: "persistSettings s sh = (r, sh') \<Longrightarrow> sh_orpal sh' = sh_orpal sh \<and> sh_settings sh' = s \<and> sh_requests sh' = sh_requests sh
    \<and> sh_messages sh' = sh_messages sh \<and> sh_selectedRef sh' = sh_selectedRef sh"
  by (auto simp: persistSettings_def store_settings_def split: option.splits)

lemma persist_stored: "persistSettings s sh = (None, sh') \<Longrightarrow> settings_wf s \<Longrightarrow>
    as_blockedKeys (loadSettings (sh_stored sh')) = json_or (Some (as_blockedKeys s)) (as_blockedKeys DEFAULT_SETTINGS)"
proof -
  assume a: "persistSettings s sh = (None, sh')" "settings_wf s"
  then obtain servers where sv: "servers_of s = Some servers" "sh_stored sh' = settings_set (with_servers (stripTurnCredentials servers) s)"
    by (auto simp: persistSettings_def store_settings_def split: option.splits)
  have "settings_wf (with_servers (stripTurnCredentials servers) s)"
    by (rule with_servers_wf [OF a(2) strip_wf [OF settings_wf_servers [OF a(2) sv(1)]]])
  then show ?thesis by (simp add: sv(2) settings_reload)
qed

lemma dismiss_keeps [simp]: "oc_blockedKeys (dismissContactRequest key c) = oc_blockedKeys c"
  by (simp add: dismissContactRequest_def)

lemma blocked_now:
  assumes "blockContact key sh = (None, sh')" "shell_ok sh"
  shows "isBlocked (sh_orpal sh') key" "key \<in> set (blocked_in (sh_settings sh'))" "key \<notin> rq_contactKey ` set (sh_requests sh')"
    "jget (sh_messages sh') key = None" "key \<in> set (strings_of (as_blockedKeys (loadSettings (sh_stored sh'))))"
proof -
  obtain sh3 where p: "block_persist key sh = (None, sh3)" "sh' = (without_request key sh3)\<lparr>sh_messages := jdel key (sh_messages sh3)\<rparr>
      \<or> sh' = (without_request key sh3)\<lparr>sh_messages := jdel key (sh_messages sh3), sh_selected := None\<rparr>"
    using assms(1) by (auto simp: block_unfold Let_def split: prod.splits option.splits if_splits)
  have k: "key \<in> set (now_blocked key sh)" by (simp add: now_blocked_def)
  note q = persist_sel [OF p(1) [unfolded block_persist_def]]
  have st: "as_blockedKeys (loadSettings (sh_stored sh3)) = JArr (map JStr (now_blocked key sh))"
    using persist_stored [OF p(1) [unfolded block_persist_def]] current_settings [OF assms(2)]
    by (simp only: with_blocked_ok(2)) (simp add: with_blocked_def)
  show "isBlocked (sh_orpal sh') key" using p(2) q k by (auto simp: isBlocked_def without_request_def)
  show "key \<in> set (blocked_in (sh_settings sh'))" using p(2) q k by (auto simp: blocked_in_def without_request_def)
  show "key \<notin> rq_contactKey ` set (sh_requests sh')" using p(2) by (auto simp: without_request_def)
  show "jget (sh_messages sh') key = None" using p(2) by (auto simp: without_request_def)
  show "key \<in> set (strings_of (as_blockedKeys (loadSettings (sh_stored sh'))))"
    using p(2) st k by (auto simp: without_request_def strings_of_def image_image)
qed

subsection \<open>Settings across a restart\<close>

lemma identity_leaves:
  assumes n: "key \<noteq> KEYS_KV"
  shows "kvGet key (fst (snd (loadOrCreate C (web_main wr provider) rs rt now w))) = kvGet key (fst w)"
proof -
  note l = web_leaves [OF n, where wr = wr and provider = provider, folded IpcKeyBlobStore_def, folded web_main_def]
  obtain r w1 where ld: "ks_load (web_main wr provider) w = (r, w1)" by (metis prod.collapse)
  have 1: "kvGet key (fst w1) = kvGet key (fst w)" using l(1) [of w] ld by simp
  obtain q w2 where sv: "ks_save (web_main wr provider) (mintStoredKeys rs rt now) w1 = (q, w2)" by (metis prod.collapse)
  have 2: "kvGet key (fst w2) = kvGet key (fst w1)" using l(2) [of "mintStoredKeys rs rt now" w1] sv by simp
  show ?thesis using ld sv 1 2 by (auto simp: loadOrCreate_def Let_def split: sum.split option.split)
qed

lemma own_keys: "TURN_CRED_KV \<noteq> KEYS_KV" "MIGRATION_KV \<noteq> KEYS_KV"
  by (simp_all add: TURN_CRED_KV_def KEYS_KV_def MIGRATION_KV_def)

lemma relaunched:
  assumes "createOrpalApp C wr provider sink hash e store queue (settings_set s) w = (Inr app1, stored1, w1)"
    and "settings_ok s" "servers_of s = Some servers" "\<not> hasInlineTurnSecret servers"
    and "cred_load (turn_slot wr) provider (fst w) = Inr creds"
  shows "ap_settings app1 = with_servers (mergeTurnCredentials servers creds) s" "stored1 = settings_set s"
proof -
  have ls: "loadSettings (settings_set s) = s" by (rule settings_kept [OF assms(2)])
  obtain i created w2 where l: "loadOrCreate C (web_main wr provider) (fst (en_keys e)) (snd (en_keys e)) (en_iso e) w = (Inr (i, created), w2)"
  proof -
    obtain r w2 where l: "loadOrCreate C (web_main wr provider) (fst (en_keys e)) (snd (en_keys e)) (en_iso e) w = (r, w2)" by (metis prod.collapse)
    then show thesis using assms(1) that by (cases r) (auto simp: createOrpalApp_def)
  qed
  have "kvGet TURN_CRED_KV (fst w2) = kvGet TURN_CRED_KV (fst w)"
    using identity_leaves [OF own_keys(1), of C wr provider "fst (en_keys e)" "snd (en_keys e)" "en_iso e" w] l by simp
  then have "cred_load (turn_slot wr) provider (fst w2) = Inr creds" using assms(5) by (simp add: cred_load_def turn_slot_def)
  then have a: "adopt_credentials wr provider s (settings_set s) w2 = (Inr (with_servers (mergeTurnCredentials servers creds) s), settings_set s, w2)"
    using assms(3,4) by (simp add: adopt_credentials_def)
  show "ap_settings app1 = with_servers (mergeTurnCredentials servers creds) s" "stored1 = settings_set s"
    using assms(1) l a by (auto simp: createOrpalApp_def Let_def ls split: option.splits prod.splits)
qed

lemma stripped_ok: "settings_ok s \<Longrightarrow> servers_of s = Some servers \<Longrightarrow> settings_ok (with_servers (stripTurnCredentials servers) s)"
  using strip_wf [OF settings_wf_servers [of s servers]] with_servers_wf [of s "stripTurnCredentials servers"]
  by (auto simp: settings_ok_def settings_wf_def) (auto simp: with_servers_def)

lemma settings_restart:
  assumes "saveSettings wr provider s sh = (None, sh')" "settings_ok s" "servers_of s = Some servers" "credentialed servers" "prov_ok provider"
    and "createOrpalApp C wr2 provider sink hash e store queue (sh_stored sh') (oc_world (sh_orpal sh')) = (Inr app1, stored1, w1)"
  shows "\<exists>ms. ap_settings app1 = with_servers ms s \<and> length ms = length servers \<and> (i < length servers \<longrightarrow> jprop (ms ! i) k = jprop (servers ! i) k)"
    "secret_free (loadSettings stored1)"
proof -
  obtain w where cs: "cred_save (turn_slot wr) provider (extractTurnCredentials servers) (oc_world (sh_orpal sh)) = (None, w)"
    "oc_world (sh_orpal sh') = w" "sh_stored sh' = settings_set (with_servers (stripTurnCredentials servers) s)"
    using assms(1,3) by (auto simp: saveSettings_def save_secrets_def store_settings_def split: prod.splits option.splits)
  have "cred_load (turn_slot wr) provider (fst w) = Inr (extractTurnCredentials servers)"
    by (rule web_creds.creds_kept [OF assms(5) extract_ok cs(1)])
  then have "cred_load (turn_slot wr2) provider (fst w) = Inr (extractTurnCredentials servers)" by (simp add: cred_load_def turn_slot_def)
  from relaunched [OF assms(6) [unfolded cs] stripped_ok [OF assms(2,3)] with_servers_sel(1) strip_clean this] cs(3)
  have "ap_settings app1 = with_servers (mergeTurnCredentials (stripTurnCredentials servers) (extractTurnCredentials servers)) s"
    by (simp add: with_servers_def)
  then show "\<exists>ms. ap_settings app1 = with_servers ms s \<and> length ms = length servers \<and> (i < length servers \<longrightarrow> jprop (ms ! i) k = jprop (servers ! i) k)"
    using merge_strip [OF assms(4)] by blast
  show "secret_free (loadSettings stored1)" by (rule launched(1) [OF assms(6)])
qed

subsection \<open>Where the unread count is off\<close>

text \<open>
  A conversation that was removed or blocked while it was open counts as open: nothing of its peer is
  unread until another one is selected. An update of a stored message counts as another message.
\<close>

lemma select_ref [simp]: "sh_selectedRef (select_conversation now key sh) = key" "sh_selected (select_conversation now key sh) = key"
  by (simp_all add: select_conversation_def Let_def split: option.split)

lemma removed_not_unread:
  assumes "sh1 = shell_removeContact d key (select_conversation now (Some key) sh)" "sm_contactKey m = key"
  shows "sh_selected sh1 = None" "sh_unread (upsertMessage m sh1) = sh_unread sh1"
  using assms by (simp_all add: shell_removeContact_def Let_def refreshContacts_def upsertMessage_def)

lemma update_counts_again:
  assumes "sm_direction m = DIn" "sh_selectedRef sh \<noteq> Some (sm_contactKey m)" "or_default (jget (sh_lastRead sh) (sm_contactKey m)) 0 < sm_ts m"
    "jget (sh_unread sh) (sm_contactKey m) = None"
  shows "jget (sh_unread (on_event (EvMessageUpdated i m) (on_event (EvMessage m) sh))) (sm_contactKey m) = Some 2"
  using assms by (simp add: on_event_def upsertMessage_def Let_def or_default_def)

subsection \<open>A first start\<close>

lemma fresh_identity:
  assumes "kvGet KEYS_KV db = None"
  shows "\<exists>i w. loadOrCreate C (web_main (\<lambda>_. None) None) rs rt now (db, []) = (Inr (i, True), w)"
  using assms by (simp add: loadOrCreate_def web_main_def HardwareBackedKeyStore_def hw_load_def hw_save_def IpcKeyBlobStore_def kv_slot_def
     Let_def save_cleartext_def kvSet_def txDone_def split: prod.split)

lemma block_started [simp]:
  fixes c :: "('s, 'q, 'w, 'k) orpal"
  shows "oc_started (setBlockedKeys keys c) = oc_started c"
proof -
  have "oc_started (fold block_one ks c) = oc_started c" for ks and c :: "('s, 'q, 'w, 'k) orpal"
    by (induction ks arbitrary: c) (simp_all add: block_one_def)
  then show ?thesis by (simp add: setBlockedKeys_def)
qed

lemma fresh_launch:
  assumes "servers_of (loadSettings stored) = Some servers" "\<not> hasInlineTurnSecret servers" "board_urls (loadSettings stored) \<noteq> []"
    and "kvGet KEYS_KV db = None" "migration_load db = None" "cred_load (turn_slot (\<lambda>_. None)) None db = Inr creds"
  shows "\<exists>app1 w1. createOrpalApp C (\<lambda>_. None) None sink hash e store queue stored (db, []) = (Inr app1, stored, w1)
    \<and> ap_settings app1 = with_servers (mergeTurnCredentials servers creds) (loadSettings stored)"
proof -
  let ?s = "loadSettings stored"
  obtain i w where l: "loadOrCreate C (web_main (\<lambda>_. None) None) (fst (en_keys e)) (snd (en_keys e)) (en_iso e) (db, []) = (Inr (i, True), w)"
    using fresh_identity [OF assms(4)] by blast
  note k = identity_leaves [where C = C and wr = "\<lambda>_. None" and provider = None and rs = "fst (en_keys e)" and rt = "snd (en_keys e)"
      and now = "en_iso e" and w = "(db, [])", unfolded l snd_conv fst_conv]
  have t: "cred_load (turn_slot (\<lambda>_. None)) None (fst w) = Inr creds" "migration_load (fst w) = None"
    using k [OF own_keys(1)] k [OF own_keys(2)] assms(5,6) by (simp_all add: migration_load_def cred_load_def turn_slot_def)
  have a: "adopt_credentials (\<lambda>_. None) None ?s stored w = (Inr (with_servers (mergeTurnCredentials servers creds) ?s), stored, w)"
    using t(1) assms(1,2) by (simp add: adopt_credentials_def)
  obtain c0 :: web_client_state where c: "client_init i store w (board_urls ?s) None = Some c0" "oc_world c0 = w" "\<not> oc_started c0"
    using assms(3) by (simp add: client_init_def)
  define ks where "ks = strings_of (as_blockedKeys ?s)"
  let ?d = "app_deps C None (js_truthy (as_relayOnlyByDefault ?s)) (\<lambda>_. None) sink hash"
  obtain r c1 where s: "client_start ?d e queue (setBlockedKeys ks c0) = (r, c1)" by fastforce
  have "r = None" using s c(2,3) t(2) by (auto simp: client_start_def Let_def mm_init_def mstore_laws split: prod.splits)
  then show ?thesis using l a c s by (auto simp: createOrpalApp_def Let_def ks_def)
qed

lemma empty_world: "kvGet KEYS_KV (web_db_empty :: migration_state web_db) = None" "migration_load (web_db_empty :: migration_state web_db) = None"
  "cred_load (turn_slot (\<lambda>_. None)) None (web_db_empty :: migration_state web_db) = Inr []"
  by (simp_all add: kvGet_def web_db_empty_def idb_get_def migration_load_def cred_load_def turn_slot_def)

definition bobs_entry :: contact where
  "bobs_entry = \<lparr>ct_identityKey = ''bob'', ct_transportKey = ''bt'', ct_binding = JNull, ct_displayName = ''Bob'', ct_relayOnly = False,
     ct_preferredBoards = None, ct_fallbackBoards = None, ct_autoAcceptMigration = None, ct_addedUtc = ''2025'', ct_isLoopback = False\<rparr>"

definition with_bob :: "migration_state web_db" where
  "with_bob = cv_upsertContact IpcConversationStore bobs_entry web_db_empty"

text \<open>A first start over a store with one contact.\<close>

lemma fresh_shell:
  assumes "servers_of (loadSettings stored) = Some servers" "\<not> hasInlineTurnSecret servers" "board_urls (loadSettings stored) \<noteq> []"
    "as_pushNotifications (loadSettings stored) \<noteq> JBool True"
  obtains sh where "shell_reach sh" "sh_messages sh = []" "sh_selectedRef sh = None" "sh_unread sh = []" "sh_lastRead sh = []" "sh_stored sh = stored"
    "sh_settings sh = with_servers (mergeTurnCredentials servers []) (loadSettings stored)" "sh_contacts sh = [bobs_entry]"
proof -
  obtain app1 w1 where a: "createOrpalApp talk_crypto (\<lambda>_. None) None (incoming_sink ''h'') (\<lambda>_. ''hash'') a_client_env with_bob web_db_empty stored
      (web_db_empty, []) = (Inr app1, stored, w1)" "ap_settings app1 = with_servers (mergeTurnCredentials servers []) (loadSettings stored)"
    using fresh_launch [OF assms(1-3) empty_world] by blast
  let ?d = "app talk_crypto"
  have b: "cv_listContacts (dp_store ?d) with_bob = [bobs_entry]"
    by (simp add: app_def with_bob_def web_conv_defs web_db_empty_def idb_getAll_def idb_put_def)
  have s: "oc_store (ap_orpal app1) = with_bob" by (rule launched(6) [OF a(1)])
  obtain sh where sh: "provider_start ?d (\<lambda>_. None) a_client_env app1 web_db_empty web_files_init stored [] None = Inr sh"
    "sh_messages sh = []" "sh_selectedRef sh = None" "sh_unread sh = []" "sh_lastRead sh = []" "sh_stored sh = stored"
    "sh_settings sh = ap_settings app1" "sh_contacts sh = [bobs_entry]"
    using b s by (simp add: provider_start_def seed_loopback_def Let_def)
  show thesis by (rule that [OF shell_reach.Start [OF a(1) sh(1)] sh(2-6) _ sh(8)]) (simp add: sh(7) a(2))
qed

end
