(* ===== verification/WebAuthn.thy ===== *)
theory WebAuthn
  imports KeyStore DeviceBackup
begin

text \<open>
  \<open>apps/web/src/orpal/webauthn-keystore.ts\<close>: the key provider over the platform's authenticator. A secret that the
  authenticator derives for a salt is the AES key that seals the device's keys; the sealed bytes carry the
  salt and the IV. The authenticator and AES-GCM are parameters. What one device sealed it opens again, from
  its first use on, and it satisfies the contract of a provider; no other authenticator opens it.
\<close>

subsection \<open>The authenticator\<close>

record authenticator =
  au_window :: bool
  au_publicKeyCredential :: bool
  au_credentials :: bool
  au_secureContext :: bool
  au_platform :: "string + bool"
  au_create :: "string + bytes option"
  au_get :: "bytes \<Rightarrow> bytes \<Rightarrow> string + bytes option option"
  au_storageFull :: bool

text \<open>
  \<open>au_create\<close>: a new credential's id, or \<open>null\<close>. \<open>au_get\<close>: an assertion of a credential with a salt, or \<open>null\<close>,
  and in it the result of the PRF extension, if there is one.
\<close>

definition BACKEND :: string where "BACKEND = ''webauthn-prf''"

definition ENVELOPE_VERSION :: "8 word" where "ENVELOPE_VERSION = 1"

definition SALT_LEN :: nat where "SALT_LEN = 32"

definition IV_LEN :: nat where "IV_LEN = 12"

text \<open>
  The browser's \<open>atob\<close>: spaces go, then up to two \<open>=\<close> of a text whose length is a multiple of four; what is left
  throws when it has a character outside the alphabet or a length that no bytes have.
\<close>

definition is_b64_space :: "char \<Rightarrow> bool" where
  "is_b64_space c = (c \<in> {CHR '' '', CHR 0x09, CHR 0x0A, CHR 0x0C, CHR 0x0D})"

definition strip_padding :: "string \<Rightarrow> string" where
  "strip_padding t =
     (if length t mod 4 = 0 \<and> t \<noteq> [] \<and> last t = CHR ''=''
      then (if last (butlast t) = CHR ''='' then butlast (butlast t) else butlast t) else t)"

definition atob :: "string \<Rightarrow> bytes option" where
  "atob s = (let t = strip_padding (filter (\<lambda>c. \<not> is_b64_space c) s)
     in if length t mod 4 = 1 \<or> (\<exists>c\<in>set t. char_sextet c = None \<or> c \<in> {CHR ''-'', CHR ''_''}) then None else Some (b64uDecode t))"

definition std_char :: "char \<Rightarrow> char" where
  \<comment> \<open>\<open>replace(/-/g, "+").replace(/_/g, "/")\<close>\<close>
  "std_char c = (if c = CHR ''-'' then CHR ''+'' else if c = CHR ''_'' then CHR ''/'' else c)"

definition b64uToBytes :: "string \<Rightarrow> string + bytes" where
  "b64uToBytes s = (case atob (map std_char s @ replicate ((length s + 3) div 4 * 4 - length s) (CHR ''='')) of
      None \<Rightarrow> Inl ''InvalidCharacterError'' | Some out \<Rightarrow> Inr out)"

definition bytesToB64u :: "bytes \<Rightarrow> string" where
  "bytesToB64u bytes = b64uEncode bytes"

definition deriveAesKey :: "bytes \<Rightarrow> string + bytes" where
  \<comment> \<open>a raw AES key has 128, 192 or 256 bits\<close>
  "deriveAesKey secret = (if length secret \<in> {16, 24, 32} then Inr secret else Inl ''DataError'')"

text \<open>The state is the text that \<open>localStorage\<close> has for the credential's id.\<close>

definition ensureCredentialId :: "authenticator \<Rightarrow> string option \<Rightarrow> (string + bytes) \<times> string option" where
  "ensureCredentialId A cached =
     (if or_default cached [] \<noteq> [] then (b64uToBytes (or_default cached []), cached)
      else (case au_create A of
          Inl err \<Rightarrow> (Inl err, cached)
        | Inr None \<Rightarrow> (Inl ''WebAuthn credential creation returned null'', cached)
        | Inr (Some rawId) \<Rightarrow> if au_storageFull A then (Inl ''QuotaExceededError'', cached) else (Inr rawId, Some (bytesToB64u rawId))))"

definition evaluatePrf :: "authenticator \<Rightarrow> bytes \<Rightarrow> bytes \<Rightarrow> string + bytes" where
  "evaluatePrf A credentialId salt =
     (case au_get A credentialId salt of
        Inl err \<Rightarrow> Inl err
      | Inr None \<Rightarrow> Inl ''WebAuthn assertion returned null''
      | Inr (Some None) \<Rightarrow> Inl ''authenticator did not return a PRF result (extension unsupported)''
      | Inr (Some (Some secret)) \<Rightarrow> Inr secret)"

subsection \<open>The provider\<close>

definition wa_isAvailable :: "authenticator \<Rightarrow> bool" where
  \<comment> \<open>never throws\<close>
  "wa_isAvailable A = (au_window A \<and> au_publicKeyCredential A \<and> au_credentials A \<and> au_secureContext A \<and> au_platform A = Inr True)"

definition wa_wrap :: "authenticator \<Rightarrow> backup_crypto \<Rightarrow> bytes \<Rightarrow> bytes \<Rightarrow> bytes \<Rightarrow> string option \<Rightarrow> (string + bytes) \<times> string option" where
  \<comment> \<open>with the random salt and IV\<close>
  "wa_wrap A B salt iv plaintext cached =
     (case ensureCredentialId A cached of
        (Inl err, cached1) \<Rightarrow> (Inl err, cached1)
      | (Inr credentialId, cached1) \<Rightarrow> (case evaluatePrf A credentialId salt of
          Inl err \<Rightarrow> (Inl err, cached1)
        | Inr secret \<Rightarrow> (case deriveAesKey secret of
            Inl err \<Rightarrow> (Inl err, cached1)
          | Inr key \<Rightarrow> (Inr ([ENVELOPE_VERSION, of_nat SALT_LEN] @ salt @ iv @ bc_encrypt B key iv plaintext), cached1))))"

definition byte_at :: "bytes \<Rightarrow> nat \<Rightarrow> nat option" where
  "byte_at bs i = (if i < length bs then Some (unat (bs ! i)) else None)"

definition wa_unwrap :: "authenticator \<Rightarrow> backup_crypto \<Rightarrow> bytes \<Rightarrow> string option \<Rightarrow> string + bytes" where
  "wa_unwrap A B sealed cached =
     (if byte_at sealed 0 \<noteq> Some (unat ENVELOPE_VERSION)
      then Inl (''unsupported sealed-key version '' @ (case byte_at sealed 0 of None \<Rightarrow> ''undefined'' | Some v \<Rightarrow> show_nat v))
      else (let saltLen = or_default (byte_at sealed 1) 0;
                salt = take saltLen (drop 2 sealed);
                iv = take IV_LEN (drop (2 + saltLen) sealed);
                \<comment> \<open>without a length byte the offset is NaN, which \<open>subarray\<close> reads as 0\<close>
                ciphertext = (if byte_at sealed 1 = None then sealed else drop (2 + saltLen + IV_LEN) sealed)
            in if or_default cached [] = [] then Inl ''no WebAuthn credential id on this device to unseal keys''
               else (case b64uToBytes (or_default cached []) of
                   Inl err \<Rightarrow> Inl err
                 | Inr credentialId \<Rightarrow> (case evaluatePrf A credentialId salt of
                     Inl err \<Rightarrow> Inl err
                   | Inr secret \<Rightarrow> (case deriveAesKey secret of
                       Inl err \<Rightarrow> Inl err
                     | Inr key \<Rightarrow> (case bc_decrypt B key iv ciphertext of
                         None \<Rightarrow> Inl ''OperationError''
                       | Some plaintext \<Rightarrow> Inr plaintext))))))"

text \<open>The provider the key stores work with, once a credential exists: the salt and the IV are those of one call.\<close>

definition WebAuthnKeyProvider :: "authenticator \<Rightarrow> backup_crypto \<Rightarrow> bytes \<Rightarrow> bytes \<Rightarrow> string \<Rightarrow> key_provider" where
  "WebAuthnKeyProvider A B salt iv credential = \<lparr>kp_backend = BACKEND, kp_isAvailable = Inr (wa_isAvailable A),
     kp_wrap = (\<lambda>plaintext. fst (wa_wrap A B salt iv plaintext (Some credential))), kp_unwrap = (\<lambda>sealed. wa_unwrap A B sealed (Some credential))\<rparr>"

definition createHardwareKeyProvider :: "authenticator \<Rightarrow> backup_crypto \<Rightarrow> bytes \<Rightarrow> bytes \<Rightarrow> string \<Rightarrow> key_provider option" where
  "createHardwareKeyProvider A B salt iv credential = (if wa_isAvailable A then Some (WebAuthnKeyProvider A B salt iv credential) else None)"

subsection \<open>What was sealed opens\<close>

lemma b64u_chars: "\<forall>c\<in>set (b64uEncode bs). char_sextet c \<noteq> None"
proof -
  have "\<forall>y\<in>set (enc_sextets (map unat bs)). y < 64" by (rule enc_sextets_bound) (rule unat_byte_bound)
  then show ?thesis by (auto simp: b64uEncode_def char_sextet_sextet_char)
qed

lemma enc_sextets_length: "length (enc_sextets xs) mod 4 \<noteq> 1"
  by (induction xs rule: enc_sextets.induct) simp_all

lemma std_facts:
  assumes "char_sextet c \<noteq> None"
  shows "char_sextet (std_char c) = char_sextet c" "std_char c \<noteq> CHR ''-''" "std_char c \<noteq> CHR ''_''" "\<not> is_b64_space (std_char c)" "std_char c \<noteq> CHR ''=''"
  using assms by (auto simp: std_char_def char_sextet_def is_b64_space_def split: if_splits)

lemma std_decode: "\<forall>c\<in>set s. char_sextet c \<noteq> None \<Longrightarrow> b64uDecode (map std_char s) = b64uDecode s"
proof -
  assume "\<forall>c\<in>set s. char_sextet c \<noteq> None"
  then have "List.map_filter char_sextet (map std_char s) = List.map_filter char_sextet s"
    by (induction s) (auto simp: List.map_filter_simps std_facts)
  then show ?thesis by (simp add: b64uDecode_def)
qed

lemma strip_padded:
  assumes "\<forall>c\<in>set t. c \<noteq> CHR ''=''" "length t mod 4 \<noteq> 1" "n = (4 - length t mod 4) mod 4"
  shows "strip_padding (t @ replicate n (CHR ''='')) = t"
proof -
  have "length t mod 4 = 0 \<or> length t mod 4 = 2 \<or> length t mod 4 = 3" using assms(2) by presburger
  then show ?thesis
  proof (elim disjE)
    assume z: "length t mod 4 = 0"
    then have "n = 0" by (simp add: assms(3))
    moreover have "\<not> (t \<noteq> [] \<and> last t = CHR ''='')" using assms(1) last_in_set by blast
    ultimately show ?thesis by (auto simp: strip_padding_def)
  next
    assume z: "length t mod 4 = 2"
    then have "(length t + 2) mod 4 = 0" "n = 2" by (simp_all add: assms(3)) presburger
    then show ?thesis by (simp add: strip_padding_def numeral_2_eq_2 butlast_append)
  next
    assume z: "length t mod 4 = 3"
    then have "(length t + 1) mod 4 = 0" "n = 1" "t \<noteq> []" by (simp_all add: assms(3)) (presburger, force)
    moreover have "last t \<noteq> CHR ''=''" using assms(1) last_in_set calculation(3) by blast
    ultimately show ?thesis by (simp add: strip_padding_def butlast_append)
  qed
qed

lemma atob_padded:
  assumes "\<forall>c\<in>set s. char_sextet c \<noteq> None" "length s mod 4 \<noteq> 1" "n = (4 - length s mod 4) mod 4"
  shows "atob (map std_char s @ replicate n (CHR ''='')) = Some (b64uDecode s)"
proof -
  have f: "filter (\<lambda>c. \<not> is_b64_space c) (map std_char s @ replicate n (CHR ''='')) = map std_char s @ replicate n (CHR ''='')"
    using assms(1) std_facts(4) by (auto intro!: filter_True simp: is_b64_space_def)
  have t: "strip_padding (map std_char s @ replicate n (CHR ''='')) = map std_char s"
    by (rule strip_padded) (use assms std_facts(5) in auto)
  have "\<not> (\<exists>c\<in>set (map std_char s). char_sextet c = None \<or> c \<in> {CHR ''-'', CHR ''_''})" using assms(1) by (auto simp: std_facts)
  then show ?thesis using assms(2) unfolding atob_def f t Let_def std_decode [OF assms(1)] by simp
qed

lemma pad_count: "(n + 3) div 4 * 4 - n = (4 - n mod 4) mod (4 :: nat)"
proof -
  obtain q r where n: "n = r + 4 * q" "r < 4" by (metis add.commute div_mult_mod_eq mod_less_divisor mult.commute zero_less_numeral)
  have "(r + 4 * q + 3) div 4 = (r + 3) div 4 + q" by simp
  moreover have "r = 0 \<or> r = 1 \<or> r = 2 \<or> r = 3" using n(2) by linarith
  ultimately show ?thesis unfolding n(1) by auto
qed

lemma b64u_back [simp]: "b64uToBytes (bytesToB64u bs) = Inr bs"
proof -
  have "length (b64uEncode bs) mod 4 \<noteq> 1" using enc_sextets_length by (simp add: b64uEncode_def)
  note atob_padded [OF b64u_chars this pad_count [of "length (b64uEncode bs)"]]
  then show ?thesis by (simp add: b64uToBytes_def bytesToB64u_def)
qed

text \<open>A credential's id has at least one byte (WebAuthn: 16 or more).\<close>

definition authenticator_ok :: "authenticator \<Rightarrow> bool" where
  "authenticator_ok A = (au_create A \<noteq> Inr (Some []))"

lemma credential_cached:
  assumes "ensureCredentialId A cached = (Inr credentialId, cached1)" "authenticator_ok A"
  shows "or_default cached1 [] \<noteq> []" "b64uToBytes (or_default cached1 []) = Inr credentialId"
proof -
  have e: "bytesToB64u rawId \<noteq> []" if "rawId \<noteq> []" for rawId
  proof
    assume "bytesToB64u rawId = []"
    then have "b64uEncode rawId = b64uEncode []" by (simp add: bytesToB64u_def b64uEncode_def)
    then show False using that by simp
  qed
  show "or_default cached1 [] \<noteq> []" "b64uToBytes (or_default cached1 []) = Inr credentialId"
    using assms b64u_back [of credentialId] e [of credentialId]
    by (auto simp: ensureCredentialId_def authenticator_ok_def or_default_def split: if_splits sum.splits option.splits)
qed

lemma sealed_parts:
  assumes "length salt = SALT_LEN" "length iv = IV_LEN" "sealed = [ENVELOPE_VERSION, of_nat SALT_LEN] @ salt @ iv @ ct"
  shows "byte_at sealed 0 = Some (unat ENVELOPE_VERSION)" "or_default (byte_at sealed 1) 0 = SALT_LEN" "(byte_at sealed 1 = None) = False"
    "take SALT_LEN (drop 2 sealed) = salt" "take IV_LEN (drop (2 + SALT_LEN) sealed) = iv" "drop (2 + SALT_LEN + IV_LEN) sealed = ct"
  using assms by (simp_all add: byte_at_def SALT_LEN_def IV_LEN_def)

lemma wrapped:
  assumes "wa_wrap A B salt iv plaintext cached = (Inr sealed, cached1)"
  obtains credentialId secret where "ensureCredentialId A cached = (Inr credentialId, cached1)" "evaluatePrf A credentialId salt = Inr secret"
    "deriveAesKey secret = Inr secret" "sealed = [ENVELOPE_VERSION, of_nat SALT_LEN] @ salt @ iv @ bc_encrypt B secret iv plaintext"
proof -
  obtain r c1 where e: "ensureCredentialId A cached = (r, c1)" by fastforce
  then obtain credentialId where r: "r = Inr credentialId" using assms by (cases r) (simp_all add: wa_wrap_def)
  then obtain secret where p: "evaluatePrf A credentialId salt = Inr secret" using assms e by (cases "evaluatePrf A credentialId salt") (simp_all add: wa_wrap_def)
  then have "deriveAesKey secret = Inr secret" using assms e r by (auto simp: wa_wrap_def deriveAesKey_def split: if_splits)
  then show thesis using assms e r p that by (simp add: wa_wrap_def)
qed

lemma seal_opens:
  assumes "gcm_ok B" "length salt = SALT_LEN" "length iv = IV_LEN" "authenticator_ok A"
    and "wa_wrap A B salt iv plaintext cached = (Inr sealed, cached1)"
  shows "wa_unwrap A B sealed cached1 = Inr plaintext"
proof -
  obtain credentialId secret where w: "ensureCredentialId A cached = (Inr credentialId, cached1)" "evaluatePrf A credentialId salt = Inr secret"
    "deriveAesKey secret = Inr secret" "sealed = [ENVELOPE_VERSION, of_nat SALT_LEN] @ salt @ iv @ bc_encrypt B secret iv plaintext"
    using wrapped [OF assms(5)] by blast
  note c = credential_cached [OF w(1) assms(4)]
  note p = sealed_parts [OF assms(2,3) w(4)]
  have "bc_decrypt B secret iv (bc_encrypt B secret iv plaintext) = Some plaintext" using assms(1) by (simp add: gcm_ok_def)
  then show ?thesis unfolding wa_unwrap_def Let_def p using c w(2,3) by simp
qed

lemma cached_kept: "or_default cached [] \<noteq> [] \<Longrightarrow> snd (wa_wrap A B salt iv plaintext cached) = cached"
  by (simp add: wa_wrap_def ensureCredentialId_def split: sum.split)

lemma provider_contract:
  assumes "gcm_ok B" "length salt = SALT_LEN" "length iv = IV_LEN" "credential \<noteq> []"
  shows "provider_ok (WebAuthnKeyProvider A B salt iv credential)"
proof -
  have "wa_unwrap A B sealed (Some credential) = Inr pt" if r: "fst (wa_wrap A B salt iv pt (Some credential)) = Inr sealed" for pt sealed
  proof -
    have "snd (wa_wrap A B salt iv pt (Some credential)) = Some credential" by (rule cached_kept) (simp add: or_default_def assms(4))
    then have w: "wa_wrap A B salt iv pt (Some credential) = (Inr sealed, Some credential)" using r by (metis prod.collapse)
    obtain credentialId secret where k: "ensureCredentialId A (Some credential) = (Inr credentialId, Some credential)" "evaluatePrf A credentialId salt = Inr secret"
      "deriveAesKey secret = Inr secret" "sealed = [ENVELOPE_VERSION, of_nat SALT_LEN] @ salt @ iv @ bc_encrypt B secret iv pt"
      using wrapped [OF w] by blast
    have c: "b64uToBytes credential = Inr credentialId" using k(1) assms(4) by (simp add: ensureCredentialId_def or_default_def)
    have "bc_decrypt B secret iv (bc_encrypt B secret iv pt) = Some pt" using assms(1) by (simp add: gcm_ok_def)
    then show ?thesis unfolding wa_unwrap_def Let_def sealed_parts [OF assms(2,3) k(4)] using c k(2,3) assms(4) by (simp add: or_default_def)
  qed
  then show ?thesis by (simp add: provider_ok_def WebAuthnKeyProvider_def)
qed

text \<open>An authenticator that derives another secret for the salt does not open the envelope.\<close>

lemma other_device_fails:
  assumes "gcm_authentic B" "length salt = SALT_LEN" "length iv = IV_LEN" "wa_wrap A B salt iv plaintext cached = (Inr sealed, cached1)"
    "\<And>id1 id2 secret. evaluatePrf A id1 salt = Inr secret \<Longrightarrow> evaluatePrf A2 id2 salt \<noteq> Inr secret"
  shows "\<exists>err. wa_unwrap A2 B sealed cached2 = Inl err"
proof -
  obtain credentialId secret where w: "evaluatePrf A credentialId salt = Inr secret"
    "sealed = [ENVELOPE_VERSION, of_nat SALT_LEN] @ salt @ iv @ bc_encrypt B secret iv plaintext" using wrapped [OF assms(4)] by metis
  have n: "bc_decrypt B secret2 iv (bc_encrypt B secret iv plaintext) = None" if "evaluatePrf A2 id2 salt = Inr secret2" for id2 secret2
    using assms(1) assms(5) [OF w(1), of id2] that by (auto simp: gcm_authentic_def)
  show ?thesis unfolding wa_unwrap_def Let_def sealed_parts [OF assms(2,3) w(2)] using n
    by (auto simp: deriveAesKey_def split: sum.split)
qed

end
