(* ===== verification/WebPlatform.thy ===== *)
theory WebPlatform
  imports AppViews WebAuthn
begin

text \<open>
  \<open>apps/web/src/orpal/push.ts\<close> and \<open>apps/web/src/orpal/skins.ts\<close>: the registration for wake notifications and the
  choice of a skin. What the browser answers is a record; the subscription in effect and the local storage are
  state. With the switch of the user interface (\<open>setPushEnabled\<close>) a registration that fails changes nothing, and
  one that succeeds makes every board advertise the subscription that is in effect.
\<close>

subsection \<open>Push registration\<close>

record push_platform =
  pu_navigator :: bool
  pu_serviceWorker :: bool
  pu_window :: bool
  pu_pushManager :: bool
  pu_notification :: bool
  pu_vapid :: "string option"
  pu_permission :: "string + string"
  pu_ready :: "string option"
  pu_lookup :: "string option"
  pu_subscribe :: "bytes \<Rightarrow> string + json"
  pu_unsubscribe :: "string option"
  pu_subscription :: "json option"

text \<open>
  \<open>pu_permission\<close>: the answer of \<open>requestPermission\<close>. \<open>pu_ready\<close>, \<open>pu_lookup\<close> and \<open>pu_unsubscribe\<close>: the error with
  which the promise of that call rejects, if it does. \<open>pu_subscription\<close> is the state: what \<open>toJSON\<close> gives of the
  subscription in effect.
\<close>

datatype push_code = Unsupported | Unconfigured | Denied | PushFailed

datatype push_error = PushSetupError string push_code | OtherError string

definition pushSupported :: "push_platform \<Rightarrow> bool" where
  "pushSupported P = (pu_navigator P \<and> pu_serviceWorker P \<and> pu_window P \<and> pu_pushManager P \<and> pu_notification P)"

definition pushConfigured :: "push_platform \<Rightarrow> bool" where
  "pushConfigured P = (or_default (pu_vapid P) [] \<noteq> [])"

definition urlBase64ToUint8Array :: "string \<Rightarrow> bytes option" where
  "urlBase64ToUint8Array base64 = atob (map std_char (base64 @ replicate ((4 - length base64 mod 4) mod 4) (CHR ''='')))"

definition subscriptionToToken :: "json \<Rightarrow> string" where
  "subscriptionToToken sub = json_str sub"

definition push_failed :: "string \<Rightarrow> push_error" where
  "push_failed err = PushSetupError (''Could not subscribe to push: '' @ err) PushFailed"

definition subscribe_push :: "push_platform \<Rightarrow> (push_error + string) \<times> push_platform" where
  \<comment> \<open>the \<open>try\<close> of \<open>enablePush\<close>\<close>
  "subscribe_push P = (case pu_ready P of
      Some err \<Rightarrow> (Inl (push_failed err), P)
    | None \<Rightarrow> (case pu_lookup P of
        Some err \<Rightarrow> (Inl (push_failed err), P)
      | None \<Rightarrow> (case pu_subscription P of
          Some existing \<Rightarrow> (Inr (subscriptionToToken existing), P)
        | None \<Rightarrow> (case urlBase64ToUint8Array (or_default (pu_vapid P) []) of
            None \<Rightarrow> (Inl (push_failed ''InvalidCharacterError''), P)
          | Some key \<Rightarrow> (case pu_subscribe P key of
              Inl err \<Rightarrow> (Inl (push_failed err), P)
            | Inr sub \<Rightarrow> (Inr (subscriptionToToken sub), P\<lparr>pu_subscription := Some sub\<rparr>))))))"

definition enablePush :: "push_platform \<Rightarrow> (push_error + string) \<times> push_platform" where
  \<comment> \<open>\<open>requestPermission\<close> is called outside of the \<open>try\<close>\<close>
  "enablePush P =
     (if \<not> pushSupported P then (Inl (PushSetupError ''Push notifications aren't supported on this device.'' Unsupported), P)
      else if \<not> pushConfigured P
      then (Inl (PushSetupError ''Push notifications need a VAPID key (VITE_ORP_VAPID_PUBLIC_KEY) matching your board's Web Push config.'' Unconfigured), P)
      else (case pu_permission P of
          Inl err \<Rightarrow> (Inl (OtherError err), P)
        | Inr permission \<Rightarrow> if permission \<noteq> ''granted'' then (Inl (PushSetupError ''Notification permission was not granted.'' Denied), P)
            else subscribe_push P))"

definition disablePush :: "push_platform \<Rightarrow> push_platform" where
  \<comment> \<open>errors are caught\<close>
  "disablePush P =
     (if pushSupported P \<and> pu_ready P = None \<and> pu_lookup P = None \<and> pu_unsubscribe P = None then P\<lparr>pu_subscription := None\<rparr> else P)"

fun push_message :: "push_error \<Rightarrow> string" where
  "push_message (PushSetupError m code) = m"
| "push_message (OtherError m) = m"

definition toggle_push :: "client_env \<Rightarrow> bool \<Rightarrow> push_platform \<Rightarrow> shell \<Rightarrow> (string option \<times> shell) \<times> push_platform" where
  \<comment> \<open>\<open>setPushEnabled\<close> of the user interface with the calls it makes of this module\<close>
  "toggle_push e on P sh =
     (if on then (case enablePush P of (r, P1) \<Rightarrow> (setPushEnabled e True (map_sum push_message id r) sh, P1))
      else (setPushEnabled e False (Inr []) sh, disablePush P))"

lemma enabled:
  assumes "enablePush P = (Inr token, P1)"
  shows "pushSupported P" "pushConfigured P" "pu_permission P = Inr ''granted''"
    and "\<exists>sub. pu_subscription P1 = Some sub \<and> token = json_str sub \<and> (\<forall>existing. pu_subscription P = Some existing \<longrightarrow> sub = existing)"
proof -
  show s: "pushSupported P" "pushConfigured P" and p: "pu_permission P = Inr ''granted''"
    using assms by (auto simp: enablePush_def split: if_splits sum.splits)
  then have "subscribe_push P = (Inr token, P1)" using assms by (simp add: enablePush_def)
  then show "\<exists>sub. pu_subscription P1 = Some sub \<and> token = json_str sub \<and> (\<forall>existing. pu_subscription P = Some existing \<longrightarrow> sub = existing)"
    by (auto simp: subscribe_push_def subscriptionToToken_def split: option.splits sum.splits)
qed

lemma enable_failed: "enablePush P = (Inl err, P1) \<Longrightarrow> P1 = P"
  by (auto simp: enablePush_def subscribe_push_def split: if_splits option.splits sum.splits)

lemma enable_twice:
  assumes "enablePush P = (Inr token, P1)"
  shows "enablePush P1 = (Inr token, P1)"
proof -
  note e = enabled [OF assms]
  have s: "subscribe_push P = (Inr token, P1)" using assms e(1-3) by (simp add: enablePush_def)
  then obtain sub where sub: "P1 = P\<lparr>pu_subscription := Some sub\<rparr>" "token = json_str sub" "pu_ready P = None" "pu_lookup P = None"
    by (cases P) (auto simp: subscribe_push_def subscriptionToToken_def split: option.splits sum.splits)
  show ?thesis using e(1-3) sub by (simp add: enablePush_def subscribe_push_def pushSupported_def pushConfigured_def subscriptionToToken_def)
qed

lemma disable_idempotent: "disablePush (disablePush P) = disablePush P"
  by (simp add: disablePush_def)

text \<open>The client's tokens.\<close>

definition tokens_agree :: "web_client_state \<Rightarrow> bool" where
  "tokens_agree c = (\<forall>b\<in>set (oc_boards c). bd_pushToken b = oc_pushToken c)"

lemma announce_tokens: "oc_boards (announceAll e c) = oc_boards c" "oc_pushToken (announceAll e c) = oc_pushToken c"
proof -
  have "oc_boards (fold (announcePresenceOn e) bs c) = oc_boards c \<and> oc_pushToken (fold (announcePresenceOn e) bs c) = oc_pushToken c" for bs
    by (induction bs arbitrary: c) (simp_all add: announcePresenceOn_def oc_emit_def)
  then show "oc_boards (announceAll e c) = oc_boards c" "oc_pushToken (announceAll e c) = oc_pushToken c" by (simp_all add: announceAll_def)
qed

lemma token_set:
  "oc_pushToken (setPushToken e token c) = token"
  "tokens_agree c \<Longrightarrow> tokens_agree (setPushToken e token c)"
  by (auto simp: setPushToken_def tokens_agree_def Let_def announce_tokens)

lemma switched:
  assumes "setPushEnabled e on token sh = (None, sh')"
  shows "sh_pushEnabled sh' = on" "as_pushNotifications (sh_settings sh') = JBool on"
    "on \<Longrightarrow> \<exists>t. token = Inr t \<and> sh_orpal sh' = setPushToken e (Some t) (sh_orpal sh)"
    "\<not> on \<Longrightarrow> sh_orpal sh' = setPushToken e None (sh_orpal sh)"
  using assms by (cases token; auto simp: setPushEnabled_def persistSettings_def store_settings_def Let_def split: if_splits sum.splits option.splits)+

lemma push_switch:
  assumes "toggle_push e on P sh = ((r, sh'), P1)" "tokens_agree (sh_orpal sh)"
  shows "(case enablePush P of (Inl err, _) \<Rightarrow> on \<longrightarrow> r = Some (push_message err) \<and> sh' = sh \<and> P1 = P | _ \<Rightarrow> True)
    \<and> (r = None \<longrightarrow> tokens_agree (sh_orpal sh') \<and> sh_pushEnabled sh' = on \<and> as_pushNotifications (sh_settings sh') = JBool on
        \<and> oc_pushToken (sh_orpal sh') = (if on then map_option json_str (pu_subscription P1) else None)
        \<and> (on \<longrightarrow> pushSupported P \<and> pushConfigured P \<and> pu_permission P = Inr ''granted'' \<and> pu_subscription P1 \<noteq> None))"
proof (cases on)
  case False
  then show ?thesis using assms switched(1,2,4) [of e False "Inr []" sh sh'] token_set
    by (auto simp: toggle_push_def split: prod.splits sum.splits)
next
  case True
  obtain q P2 where q: "enablePush P = (q, P2)" by fastforce
  then have t: "setPushEnabled e True (map_sum push_message id q) sh = (r, sh')" "P2 = P1" using assms(1) True by (simp_all add: toggle_push_def)
  show ?thesis
  proof (cases q)
    case (Inl err)
    then show ?thesis using q t enable_failed [of P err P2] True by (auto simp: setPushEnabled_def)
  next
    case (Inr token)
    note e = enabled [OF q [unfolded Inr t(2)]]
    have "r = None \<Longrightarrow> sh_orpal sh' = setPushToken e (Some token) (sh_orpal sh) \<and> sh_pushEnabled sh' \<and> as_pushNotifications (sh_settings sh') = JBool True"
      using switched(1-3) [of e True "map_sum push_message id q" sh sh'] t(1) Inr by auto
    then show ?thesis using e q Inr True token_set assms(2) by auto
  qed
qed

subsection \<open>Skins\<close>

record skin =
  sn_id :: string
  sn_name :: string
  sn_blurb :: string
  sn_swatch :: "string \<times> string \<times> string"

definition em_dash :: string where
  \<comment> \<open>its bytes in UTF-8\<close>
  "em_dash = [CHR 0xE2, CHR 0x80, CHR 0x94]"

definition SKINS :: "skin list" where
  "SKINS = [
     \<lparr>sn_id = ''steel'', sn_name = ''Steel Blue'', sn_blurb = ''The classic ORP cobalt '' @ em_dash @ '' gunmetal bevels and a blue LCD.'',
       sn_swatch = (''#131722'', ''#283044'', ''#4fa0ff'')\<rparr>,
     \<lparr>sn_id = ''amber'', sn_name = ''Amber CRT'', sn_blurb = ''Warm amber phosphor glowing on a dark vintage terminal.'',
       sn_swatch = (''#0d0a04'', ''#332a1c'', ''#ffb347'')\<rparr>,
     \<lparr>sn_id = ''night'', sn_name = ''Night'', sn_blurb = ''OLED black with a cool cyan readout '' @ em_dash @ '' easy on the eyes.'',
       sn_swatch = (''#000000'', ''#0c0c0c'', ''#5ad6ff'')\<rparr>,
     \<lparr>sn_id = ''phosphor'', sn_name = ''Green Phosphor'', sn_blurb = ''Monochrome green terminal, straight off an old CRT.'',
       sn_swatch = (''#010a05'', ''#0f2417'', ''#33ff66'')\<rparr>,
     \<lparr>sn_id = ''synthwave'', sn_name = ''Magenta Synthwave'', sn_blurb = ''Neon magenta on deep violet '' @ em_dash @ '' after-dark arcade glow.'',
       sn_swatch = (''#0d0418'', ''#2a1840'', ''#ff6ec7'')\<rparr>,
     \<lparr>sn_id = ''grey'', sn_name = ''Classic Grey'', sn_blurb = ''Win95 chrome '' @ em_dash @ '' light grey bevels, navy titlebars.'',
       sn_swatch = (''#0a5a5a'', ''#c0c0c0'', ''#2bd957'')\<rparr>
   ]"

definition DEFAULT_SKIN :: string where "DEFAULT_SKIN = ''steel''"

definition isSkinId :: "json option \<Rightarrow> bool" where
  "isSkinId v = (case v of Some (JStr s) \<Rightarrow> list_ex (\<lambda>k. sn_id k = s) SKINS | _ \<Rightarrow> False)"

record local_storage =
  ls_disabled :: bool
  ls_full :: bool
  ls_skin :: "string option"

definition loadSkin :: "local_storage \<Rightarrow> string" where
  "loadSkin ls = (if ls_disabled ls then DEFAULT_SKIN
     else (case ls_skin ls of
         None \<Rightarrow> DEFAULT_SKIN
       | Some raw \<Rightarrow> if isSkinId (Some (JStr raw)) then raw else DEFAULT_SKIN))"

definition persistSkin :: "string \<Rightarrow> local_storage \<Rightarrow> local_storage" where
  "persistSkin i ls = (if ls_disabled ls \<or> ls_full ls then ls else ls\<lparr>ls_skin := Some i\<rparr>)"

record look =
  lk_skin :: string
  lk_document :: string
  lk_storage :: local_storage

definition applySkin :: "string \<Rightarrow> look \<Rightarrow> look" where
  "applySkin i lk = lk\<lparr>lk_document := i\<rparr>"

definition setSkin :: "string \<Rightarrow> look \<Rightarrow> look" where
  "setSkin i lk = (let lk1 = applySkin i (lk\<lparr>lk_skin := i\<rparr>) in lk1\<lparr>lk_storage := persistSkin i (lk_storage lk1)\<rparr>)"

definition boot_look :: "local_storage \<Rightarrow> look" where
  \<comment> \<open>the skin is applied before the first render; the provider's state starts with it\<close>
  "boot_look ls = applySkin (loadSkin ls) \<lparr>lk_skin = loadSkin ls, lk_document = [], lk_storage = ls\<rparr>"

lemma skin_known: "isSkinId (Some (JStr (loadSkin ls)))"
  by (simp add: loadSkin_def isSkinId_def DEFAULT_SKIN_def SKINS_def split: option.split)

lemma skin_restart:
  assumes "isSkinId (Some (JStr i))" "\<not> ls_disabled (lk_storage lk)" "\<not> ls_full (lk_storage lk)"
  shows "lk_document (boot_look (lk_storage (setSkin i lk))) = i" "lk_skin (boot_look (lk_storage (setSkin i lk))) = i"
  using assms by (simp_all add: boot_look_def setSkin_def applySkin_def persistSkin_def loadSkin_def)

end
