(* ===== verification/BrowserRtc.thy ===== *)
theory BrowserRtc
  imports Session Connections
begin

text \<open>
  \<open>packages/orpal-core/src/rtc/browser-webrtc.ts\<close>: the endpoint over the browser's \<open>RTCPeerConnection\<close>. The
  connection's methods answer with arguments of the operations and are recorded as calls; its events and
  the timers are steps. The promise of the data channel settles once, a channel is the endpoint's own or,
  for a responder, the peer's, and a description carries every candidate gathered for it, unfiltered.
\<close>

subsection \<open>The endpoint\<close>

datatype channel_promise = Unopened | Opened | Broken string

datatype message_data = MText string | MBuffer bytes | MView bytes nat nat | MOther

datatype pc_call =
    PcCreateChannel string nat
  | PcSetLocal string
  | PcSetRemote string string
  | PcAddCandidate string
  | PcSend nat bytes
  | PcCloseChannel nat
  | PcClose

record rtc_options =
  ro_iceServers :: "json list option"
  ro_iceTransportPolicy :: "string option"
  ro_iceGatheringTimeoutMs :: "nat option"
  ro_watched :: bool
  ro_dataChannelLabel :: "string option"

record endpoint =
  be_role :: role
  be_options :: rtc_options
  be_config :: "json list \<times> string"
  be_channel :: "nat option"
  be_wired :: "nat list"
  be_promise :: channel_promise
  be_dataCb :: "nat option"
  be_received :: "(nat \<times> bytes) list"
  be_arrays :: "string list list"
  be_gathered :: nat
  be_waits :: "bool list"
  be_timers :: "(nat, nat) jmap"
  be_onicecandidate :: "nat option"
  be_closed :: bool
  be_states :: "string list"
  be_calls :: "pc_call list"

text \<open>
  \<open>be_wired\<close>: the channels that have the handlers of \<open>wireChannel\<close>. \<open>be_arrays\<close> is the heap of the arrays of
  candidates, since a description shares its array with the endpoint; \<open>be_gathered\<close> is the current one. \<open>be_waits\<close>
  are the promises of \<open>waitForGatheringComplete\<close>, and whether each is resolved; \<open>be_onicecandidate\<close> names the one
  that the connection's handlers belong to.
\<close>

definition BrowserWebRTCEndpoint :: "role \<Rightarrow> rtc_options \<Rightarrow> endpoint" where
  "BrowserWebRTCEndpoint role options =
     \<lparr>be_role = role, be_options = options,
      be_config = (or_default (ro_iceServers options) [], or_default (ro_iceTransportPolicy options) ''all''),
      be_channel = None, be_wired = [], be_promise = Unopened, be_dataCb = None, be_received = [], be_arrays = [[]], be_gathered = 0,
      be_waits = [], be_timers = [], be_onicecandidate = None, be_closed = False, be_states = [], be_calls = []\<rparr>"

definition pc_call :: "pc_call \<Rightarrow> endpoint \<Rightarrow> endpoint" where
  "pc_call x ep = ep\<lparr>be_calls := be_calls ep @ [x]\<rparr>"

definition onConnectionStateChange :: "string \<Rightarrow> endpoint \<Rightarrow> endpoint" where
  "onConnectionStateChange state ep = (if ro_watched (be_options ep) then ep\<lparr>be_states := be_states ep @ [state]\<rparr> else ep)"

definition resolveChannelOpen :: "endpoint \<Rightarrow> endpoint" where
  "resolveChannelOpen ep = (if be_promise ep = Unopened then ep\<lparr>be_promise := Opened\<rparr> else ep)"

definition rejectChannelOpen :: "string \<Rightarrow> endpoint \<Rightarrow> endpoint" where
  "rejectChannelOpen err ep = (if be_promise ep = Unopened then ep\<lparr>be_promise := Broken err\<rparr> else ep)"

definition wireChannel :: "nat \<Rightarrow> bool \<Rightarrow> endpoint \<Rightarrow> endpoint" where
  \<comment> \<open>and whether the channel is open already\<close>
  "wireChannel channel isOpen ep =
     (let ep1 = ep\<lparr>be_channel := Some channel, be_wired := set_add channel (be_wired ep)\<rparr>
      in if isOpen then resolveChannelOpen ep1 else ep1)"

subsection \<open>Events of the connection and of a channel\<close>

definition ondatachannel :: "nat \<Rightarrow> bool \<Rightarrow> endpoint \<Rightarrow> endpoint" where
  "ondatachannel channel isOpen ep = (if be_role ep = Responder then wireChannel channel isOpen ep else ep)"

definition onconnectionstatechange :: "string \<Rightarrow> endpoint \<Rightarrow> endpoint" where
  "onconnectionstatechange connectionState ep =
     (let ep1 = onConnectionStateChange connectionState ep
      in if connectionState = ''failed'' then rejectChannelOpen ''BrowserWebRTC: connection failed'' ep1 else ep1)"

definition channel_onopen :: "nat \<Rightarrow> endpoint \<Rightarrow> endpoint" where
  "channel_onopen channel ep = (if channel \<in> set (be_wired ep) then resolveChannelOpen ep else ep)"

definition channel_onclose :: "nat \<Rightarrow> endpoint \<Rightarrow> endpoint" where
  "channel_onclose channel ep =
     (if channel \<in> set (be_wired ep) then onConnectionStateChange (if be_closed ep then ''closed'' else ''disconnected'') ep else ep)"

definition channel_onerror :: "nat \<Rightarrow> endpoint \<Rightarrow> endpoint" where
  "channel_onerror channel ep = (if channel \<in> set (be_wired ep) then onConnectionStateChange ''failed'' ep else ep)"

fun message_bytes :: "message_data \<Rightarrow> bytes option" where
  "message_bytes (MText s) = Some (utf8 s)"
| "message_bytes (MBuffer b) = Some b"
| "message_bytes (MView b byteOffset byteLength) = Some (take byteLength (drop byteOffset b))"
| "message_bytes MOther = None"

definition channel_onmessage :: "nat \<Rightarrow> message_data \<Rightarrow> endpoint \<Rightarrow> endpoint" where
  "channel_onmessage channel data ep =
     (if channel \<in> set (be_wired ep)
      then (case (message_bytes data, be_dataCb ep) of
          (Some bytes, Some cb) \<Rightarrow> ep\<lparr>be_received := be_received ep @ [(cb, bytes)]\<rparr>
        | _ \<Rightarrow> ep)
      else ep)"

subsection \<open>Gathering\<close>

definition gather_finish :: "nat \<Rightarrow> endpoint \<Rightarrow> endpoint" where
  "gather_finish i ep = (if i < length (be_waits ep) \<and> \<not> be_waits ep ! i
     then ep\<lparr>be_waits := (be_waits ep)[i := True], be_timers := jdel i (be_timers ep)\<rparr> else ep)"

definition waitForGatheringComplete :: "bool \<Rightarrow> endpoint \<Rightarrow> endpoint" where
  \<comment> \<open>whether \<open>iceGatheringState\<close> is \<open>complete\<close>; the timer has its delay\<close>
  "waitForGatheringComplete isComplete ep =
     (if isComplete then ep\<lparr>be_waits := be_waits ep @ [True]\<rparr>
      else (let i = length (be_waits ep)
        in ep\<lparr>be_waits := be_waits ep @ [False], be_timers := jset i (or_default (ro_iceGatheringTimeoutMs (be_options ep)) 4000) (be_timers ep),
              be_onicecandidate := Some i\<rparr>))"

definition onicecandidate :: "string option \<Rightarrow> endpoint \<Rightarrow> endpoint" where
  "onicecandidate candidate ep = (case be_onicecandidate ep of
       None \<Rightarrow> ep
     | Some i \<Rightarrow> if or_default candidate [] \<noteq> []
         then ep\<lparr>be_arrays := (be_arrays ep)[be_gathered ep := be_arrays ep ! be_gathered ep @ [or_default candidate []]]\<rparr>
         else gather_finish i ep)"

definition onicegatheringstatechange :: "bool \<Rightarrow> endpoint \<Rightarrow> endpoint" where
  "onicegatheringstatechange isComplete ep = (case be_onicecandidate ep of
       None \<Rightarrow> ep | Some i \<Rightarrow> if isComplete then gather_finish i ep else ep)"

definition gather_timer :: "nat \<Rightarrow> endpoint \<Rightarrow> endpoint" where
  "gather_timer i ep = (if jget (be_timers ep) i = None then ep else gather_finish i ep)"

subsection \<open>Operations\<close>

definition createLocalDescription ::
  "bool \<Rightarrow> string + nat \<times> bool \<Rightarrow> string option \<Rightarrow> bool \<Rightarrow> endpoint \<Rightarrow> (string + nat) \<times> endpoint" where
  \<comment> \<open>up to the wait, which it names: \<open>offer\<close>, what \<open>createDataChannel\<close> gives, and the error of creating and setting\<close>
  "createLocalDescription offer created failed isComplete ep =
     (let ep1 = ep\<lparr>be_arrays := be_arrays ep @ [[]], be_gathered := length (be_arrays ep)\<rparr>
      in case (if offer then map_sum id Some created else Inr None) of
           Inl err \<Rightarrow> (Inl err, ep1)
         | Inr ch \<Rightarrow>
             (let ep2 = (case ch of None \<Rightarrow> ep1
                    | Some (channel, isOpen) \<Rightarrow>
                        wireChannel channel isOpen (pc_call (PcCreateChannel (or_default (ro_dataChannelLabel (be_options ep)) ''orpal'') channel) ep1))
              in case failed of
                   Some err \<Rightarrow> (Inl err, ep2)
                 | None \<Rightarrow> (Inr (length (be_waits ep2)),
                     waitForGatheringComplete isComplete (pc_call (PcSetLocal (if offer then ''offer'' else ''answer'')) ep2))))"

definition local_description :: "string option \<Rightarrow> endpoint \<Rightarrow> string + string \<times> nat" where
  \<comment> \<open>the rest of \<open>createLocalDescription\<close>, when the wait is over; the candidates are the current array\<close>
  "local_description localSdp ep = (case localSdp of
       None \<Rightarrow> Inl ''BrowserWebRTC: no localDescription after setLocalDescription''
     | Some sdp \<Rightarrow> Inr (sdp, be_gathered ep))"

definition addIceCandidate :: "string \<Rightarrow> endpoint \<Rightarrow> endpoint" where
  \<comment> \<open>whether it throws makes no difference\<close>
  "addIceCandidate c ep = (if c = [] then ep else pc_call (PcAddCandidate c) ep)"

definition applyRemoteDescription :: "string option \<Rightarrow> string \<Rightarrow> string list \<Rightarrow> endpoint \<Rightarrow> string option \<times> endpoint" where
  \<comment> \<open>the error of \<open>setRemoteDescription\<close>\<close>
  "applyRemoteDescription failed sdp candidates ep =
     (let ep1 = pc_call (PcSetRemote (if be_role ep = Initiator then ''answer'' else ''offer'') sdp) ep
      in case failed of Some err \<Rightarrow> (Some err, ep1) | None \<Rightarrow> (None, fold addIceCandidate candidates ep1))"

definition connectDataChannel :: "endpoint \<Rightarrow> channel_promise" where
  "connectDataChannel ep = be_promise ep"

definition ep_onData :: "nat \<Rightarrow> endpoint \<Rightarrow> endpoint" where
  "ep_onData cb ep = ep\<lparr>be_dataCb := Some cb\<rparr>"

definition sendData :: "string option \<Rightarrow> bytes \<Rightarrow> endpoint \<Rightarrow> string option \<times> endpoint" where
  \<comment> \<open>the error that \<open>send\<close> throws\<close>
  "sendData threw bytes ep = (case be_channel ep of
       None \<Rightarrow> (Some ''BrowserWebRTC: sendData before the data channel exists'', ep)
     | Some channel \<Rightarrow> (threw, if threw = None then pc_call (PcSend channel bytes) ep else ep))"

definition bufferedAmount :: "(nat \<Rightarrow> nat) \<Rightarrow> endpoint \<Rightarrow> nat" where
  "bufferedAmount amount ep = (case be_channel ep of None \<Rightarrow> 0 | Some channel \<Rightarrow> amount channel)"

definition ep_close :: "endpoint \<Rightarrow> endpoint" where
  "ep_close ep = (let ep1 = ep\<lparr>be_closed := True\<rparr>
     in pc_call PcClose (case be_channel ep1 of None \<Rightarrow> ep1 | Some channel \<Rightarrow> pc_call (PcCloseChannel channel) ep1))"

subsection \<open>What an endpoint goes through\<close>

inductive ep_step :: "endpoint \<Rightarrow> endpoint \<Rightarrow> bool" where
  "ep_step ep (ondatachannel ch isOpen ep)"
| "ep_step ep (onconnectionstatechange st ep)"
| "ep_step ep (channel_onopen ch ep)"
| "ep_step ep (channel_onclose ch ep)"
| "ep_step ep (channel_onerror ch ep)"
| "ep_step ep (channel_onmessage ch data ep)"
| "ep_step ep (onicecandidate cand ep)"
| "ep_step ep (onicegatheringstatechange isComplete ep)"
| "ep_step ep (gather_timer i ep)"
| "ep_step ep (snd (createLocalDescription offer created failed isComplete ep))"
| "ep_step ep (snd (applyRemoteDescription failed sdp candidates ep))"
| "ep_step ep (ep_onData cb ep)"
| "ep_step ep (snd (sendData threw bytes ep))"
| "ep_step ep (ep_close ep)"

inductive ep_steps :: "endpoint \<Rightarrow> endpoint \<Rightarrow> bool" where
  Refl: "ep_steps ep ep"
| Step: "ep_steps ep ep1 \<Longrightarrow> ep_step ep1 ep2 \<Longrightarrow> ep_steps ep ep2"

lemmas ep_events = ondatachannel_def onconnectionstatechange_def channel_onopen_def channel_onclose_def channel_onerror_def
  channel_onmessage_def onicecandidate_def onicegatheringstatechange_def gather_timer_def gather_finish_def wireChannel_def
  resolveChannelOpen_def rejectChannelOpen_def onConnectionStateChange_def pc_call_def Let_def

lemmas ep_operations = createLocalDescription_def waitForGatheringComplete_def applyRemoteDescription_def ep_onData_def sendData_def ep_close_def

lemma added [simp]:
  "fold addIceCandidate cs ep = ep\<lparr>be_calls := be_calls ep @ map PcAddCandidate (filter (\<lambda>c. c \<noteq> []) cs)\<rparr>"
  by (induction cs arbitrary: ep) (simp_all add: addIceCandidate_def pc_call_def)

subsection \<open>Invariants\<close>

definition endpoint_ok :: "endpoint \<Rightarrow> bool" where
  "endpoint_ok ep = (be_gathered ep < length (be_arrays ep)
     \<and> (\<forall>ch. be_channel ep = Some ch \<longrightarrow> ch \<in> set (be_wired ep))
     \<and> (be_wired ep \<noteq> [] \<longrightarrow> be_channel ep \<noteq> None)
     \<and> (be_promise ep = Opened \<longrightarrow> be_channel ep \<noteq> None)
     \<and> (be_role ep = Initiator \<longrightarrow> (\<forall>ch\<in>set (be_wired ep). \<exists>label. PcCreateChannel label ch \<in> set (be_calls ep)))
     \<and> (\<forall>ch bytes. PcSend ch bytes \<in> set (be_calls ep) \<longrightarrow> ch \<in> set (be_wired ep))
     \<and> (\<forall>i. i < length (be_waits ep) \<longrightarrow> (be_waits ep ! i \<longleftrightarrow> jget (be_timers ep) i = None))
     \<and> (\<forall>i. jget (be_timers ep) i \<noteq> None \<longrightarrow> i < length (be_waits ep)))"

lemma endpoint_ok_new: "endpoint_ok (BrowserWebRTCEndpoint role options)"
  by (simp add: endpoint_ok_def BrowserWebRTCEndpoint_def)

lemma finish_ok: "endpoint_ok ep \<Longrightarrow> endpoint_ok (gather_finish i ep)"
  by (auto simp: endpoint_ok_def gather_finish_def nth_list_update)

lemma wire_ok: "endpoint_ok ep \<Longrightarrow> be_role ep = Initiator \<longrightarrow> (\<exists>label. PcCreateChannel label ch \<in> set (be_calls ep)) \<Longrightarrow> endpoint_ok (wireChannel ch isOpen ep)"
  by (auto simp: endpoint_ok_def wireChannel_def resolveChannelOpen_def Let_def set_add_def)

lemma call_ok: "endpoint_ok ep \<Longrightarrow> (\<And>ch bytes. x = PcSend ch bytes \<Longrightarrow> ch \<in> set (be_wired ep)) \<Longrightarrow> endpoint_ok (pc_call x ep)"
  by (auto simp: endpoint_ok_def pc_call_def)

lemma wait_ok: "endpoint_ok ep \<Longrightarrow> endpoint_ok (waitForGatheringComplete isComplete ep)"
  by (auto simp: endpoint_ok_def waitForGatheringComplete_def Let_def nth_append less_Suc_eq)

lemma tell_ok [simp]: "endpoint_ok (onConnectionStateChange st ep) = endpoint_ok ep"
  by (simp add: endpoint_ok_def onConnectionStateChange_def)

lemma closed_ok [simp]: "endpoint_ok (ep\<lparr>be_closed := True\<rparr>) = endpoint_ok ep" "endpoint_ok (ep\<lparr>be_dataCb := cb\<rparr>) = endpoint_ok ep"
  by (simp_all add: endpoint_ok_def)

lemma remote_ok: "endpoint_ok ep \<Longrightarrow> endpoint_ok (ep\<lparr>be_calls := be_calls ep @ PcSetRemote ty sdp # map PcAddCandidate cs\<rparr>)"
  by (auto simp: endpoint_ok_def)

lemma create_ok:
  assumes "endpoint_ok ep"
  shows "endpoint_ok (snd (createLocalDescription offer created failed isComplete ep))"
proof -
  let ?ep1 = "ep\<lparr>be_arrays := be_arrays ep @ [[]], be_gathered := length (be_arrays ep)\<rparr>"
  have 1: "endpoint_ok ?ep1" using assms by (simp add: endpoint_ok_def)
  have 2: "endpoint_ok (wireChannel ch isOpen (pc_call (PcCreateChannel l ch) ?ep1))" for ch isOpen l
    by (rule wire_ok [OF call_ok [OF 1]]) (auto simp: pc_call_def)
  show ?thesis using 1 2
    by (auto simp: createLocalDescription_def Let_def intro!: wait_ok call_ok split: sum.splits option.splits prod.splits if_splits)
qed

lemma endpoint_ok_step: "ep_step ep ep' \<Longrightarrow> endpoint_ok ep \<Longrightarrow> endpoint_ok ep'"
proof (induction rule: ep_step.induct)
  case (1 ep ch isOpen) then show ?case by (simp add: ondatachannel_def wire_ok)
next
  case (2 ep st) then show ?case by (auto simp: onconnectionstatechange_def rejectChannelOpen_def Let_def endpoint_ok_def onConnectionStateChange_def)
next
  case (3 ep ch) then show ?case by (auto simp: channel_onopen_def resolveChannelOpen_def endpoint_ok_def)
next
  case (4 ep ch) then show ?case by (simp add: channel_onclose_def)
next
  case (5 ep ch) then show ?case by (simp add: channel_onerror_def)
next
  case (6 ep ch data) then show ?case by (auto simp: channel_onmessage_def endpoint_ok_def split: option.split)
next
  case (7 ep cand) then show ?case by (auto simp: onicecandidate_def finish_ok split: option.split) (simp add: endpoint_ok_def)
next
  case (8 ep isComplete) then show ?case by (simp add: onicegatheringstatechange_def finish_ok split: option.split)
next
  case (9 ep i) then show ?case by (simp add: gather_timer_def finish_ok)
next
  case (10 ep offer created failed isComplete) then show ?case by (rule create_ok)
next
  case (11 ep failed sdp candidates) then show ?case
    using remote_ok [of ep _ sdp] remote_ok [of ep _ sdp "[]"] by (simp add: applyRemoteDescription_def pc_call_def Let_def split: option.split)
next
  case (12 ep cb) then show ?case by (simp add: ep_onData_def)
next
  case (13 ep threw bytes) then show ?case by (auto simp: sendData_def intro!: call_ok split: option.split) (simp add: endpoint_ok_def)
next
  case (14 ep) then show ?case by (auto simp: ep_close_def Let_def intro!: call_ok split: option.split)
qed

lemma endpoint_ok_reach:
  assumes "ep_steps (BrowserWebRTCEndpoint role options) ep"
  shows "endpoint_ok ep"
  using assms by (induction "BrowserWebRTCEndpoint role options" ep rule: ep_steps.induct) (auto simp: endpoint_ok_new intro: endpoint_ok_step)

lemma role_kept: "ep_steps ep ep' \<Longrightarrow> be_role ep' = be_role ep"
proof (induction rule: ep_steps.induct)
  case (Step ep ep1 ep2)
  have "be_role ep2 = be_role ep1" using Step.hyps(2)
    by (induction rule: ep_step.induct) (simp_all add: ep_events ep_operations split: option.split sum.split prod.split)
  then show ?case using Step.IH by simp
qed simp

subsection \<open>The promise settles once\<close>

lemma promise_kept [simp]:
  "be_promise (onConnectionStateChange st ep) = be_promise ep" "be_promise (gather_finish i ep) = be_promise ep"
  "be_promise (pc_call x ep) = be_promise ep" "be_promise (waitForGatheringComplete isComplete ep) = be_promise ep"
  by (simp_all add: onConnectionStateChange_def gather_finish_def pc_call_def waitForGatheringComplete_def Let_def)

lemma promise_settled [simp]: "be_promise ep \<noteq> Unopened \<Longrightarrow> be_promise (resolveChannelOpen ep) = be_promise ep"
  "be_promise ep \<noteq> Unopened \<Longrightarrow> be_promise (rejectChannelOpen err ep) = be_promise ep"
  "be_promise ep \<noteq> Unopened \<Longrightarrow> be_promise (wireChannel ch isOpen ep) = be_promise ep"
  by (simp_all add: resolveChannelOpen_def rejectChannelOpen_def wireChannel_def Let_def)

lemma settled_step: "ep_step ep ep' \<Longrightarrow> be_promise ep \<noteq> Unopened \<Longrightarrow> be_promise ep' = be_promise ep"
  by (induction rule: ep_step.induct)
    (auto simp: ondatachannel_def onconnectionstatechange_def channel_onopen_def channel_onclose_def channel_onerror_def channel_onmessage_def
      onicecandidate_def onicegatheringstatechange_def gather_timer_def createLocalDescription_def applyRemoteDescription_def ep_onData_def
      sendData_def ep_close_def Let_def split: option.split sum.split prod.split)

lemma settled_steps: "ep_steps ep ep' \<Longrightarrow> be_promise ep \<noteq> Unopened \<Longrightarrow> be_promise ep' = be_promise ep"
  by (induction rule: ep_steps.induct) (auto simp: settled_step)

subsection \<open>Candidates are gathered as they are\<close>

lemma created:
  assumes "createLocalDescription offer c failed False ep = (Inr i, ep1)"
  shows "be_arrays ep1 = be_arrays ep @ [[]]" "be_gathered ep1 = length (be_arrays ep)" "be_onicecandidate ep1 = Some i"
    "i < length (be_waits ep1)" "\<not> be_waits ep1 ! i" "jget (be_timers ep1) i = Some (or_default (ro_iceGatheringTimeoutMs (be_options ep)) 4000)"
  using assms by (auto simp: createLocalDescription_def waitForGatheringComplete_def pc_call_def wireChannel_def resolveChannelOpen_def Let_def
      split: sum.splits option.splits prod.splits if_splits)

lemma gather:
  assumes "be_onicecandidate ep = Some i" "be_gathered ep < length (be_arrays ep)" "[] \<notin> set cs"
  shows "fold (\<lambda>c. onicecandidate (Some c)) cs ep = ep\<lparr>be_arrays := (be_arrays ep)[be_gathered ep := be_arrays ep ! be_gathered ep @ cs]\<rparr>"
  using assms
proof (induction cs arbitrary: ep)
  case (Cons c cs)
  let ?ep = "onicecandidate (Some c) ep"
  have e: "?ep = ep\<lparr>be_arrays := (be_arrays ep)[be_gathered ep := be_arrays ep ! be_gathered ep @ [c]]\<rparr>"
    using Cons.prems by (auto simp: onicecandidate_def or_default_def)
  have "fold (\<lambda>c. onicecandidate (Some c)) cs ?ep = ?ep\<lparr>be_arrays := (be_arrays ?ep)[be_gathered ?ep := be_arrays ?ep ! be_gathered ?ep @ cs]\<rparr>"
    by (rule Cons.IH) (use Cons.prems in \<open>simp_all add: e\<close>)
  then show ?case using Cons.prems by (simp add: e)
qed simp

lemma gathered:
  assumes "createLocalDescription offer c failed False ep = (Inr i, ep1)" "[] \<notin> set cs" "ep2 = fold (\<lambda>c. onicecandidate (Some c)) cs ep1"
    and "ep3 = onicecandidate None ep2 \<or> ep3 = onicegatheringstatechange True ep2 \<or> ep3 = gather_timer i ep2"
  shows "\<not> be_waits ep2 ! i" "be_waits ep3 ! i" "\<exists>g. local_description (Some sdp) ep3 = Inr (sdp, g) \<and> be_arrays ep3 ! g = cs"
    "\<lbrakk>be_waits ep1 ! j; j < length (be_waits ep1)\<rbrakk> \<Longrightarrow> be_waits ep3 ! j"
proof -
  note c = created [OF assms(1)]
  have e: "ep2 = ep1\<lparr>be_arrays := (be_arrays ep1)[be_gathered ep1 := cs]\<rparr>"
    unfolding assms(3) by (subst gather [OF c(3) _ assms(2)]) (simp_all add: c)
  have f: "ep3 = gather_finish i ep2" using assms(4) c
    by (elim disjE) (simp_all add: onicecandidate_def onicegatheringstatechange_def gather_timer_def or_default_def e)
  show "\<not> be_waits ep2 ! i" using c(5) by (simp add: e)
  show "be_waits ep3 ! i" "\<exists>g. local_description (Some sdp) ep3 = Inr (sdp, g) \<and> be_arrays ep3 ! g = cs"
    using c by (simp_all add: f e gather_finish_def local_description_def)
  show "\<lbrakk>be_waits ep1 ! j; j < length (be_waits ep1)\<rbrakk> \<Longrightarrow> be_waits ep3 ! j" using c by (auto simp: f e gather_finish_def nth_list_update)
qed

text \<open>A candidate that comes after the wait is over still changes the array that the description has.\<close>

lemma late_candidate:
  assumes "be_onicecandidate ep = Some i" "be_gathered ep < length (be_arrays ep)" "c \<noteq> []" "local_description (Some sdp) ep = Inr (sdp, g)"
  shows "be_arrays (onicecandidate (Some c) ep) ! g = be_arrays ep ! g @ [c]"
  using assms by (auto simp: onicecandidate_def local_description_def or_default_def)

subsection \<open>What the other operations do\<close>

lemma remote_applied:
  assumes "applyRemoteDescription None sdp cs ep = (r, ep1)"
  shows "r = None" "be_calls ep1 = be_calls ep @ PcSetRemote (if be_role ep = Initiator then ''answer'' else ''offer'') sdp # map PcAddCandidate (filter (\<lambda>c. c \<noteq> []) cs)"
  using assms by (auto simp: applyRemoteDescription_def pc_call_def Let_def)

lemma intended_close:
  assumes "be_channel ep = Some ch" "endpoint_ok ep"
  shows "channel_onclose ch (ep_close ep) = onConnectionStateChange ''closed'' (ep_close ep)"
    "\<not> be_closed ep \<Longrightarrow> channel_onclose ch ep = onConnectionStateChange ''disconnected'' ep"
  using assms by (auto simp: channel_onclose_def ep_close_def pc_call_def Let_def endpoint_ok_def)

text \<open>Either way the connection manager learns of it, and takes the contact to be down.\<close>

lemma channel_lost:
  assumes "be_channel ep = Some ch" "endpoint_ok ep" "ro_watched (be_options ep)"
    and "jget (cm_matchToCounterparty cm) matchKey = Some key" "key \<noteq> []" "jget (cm_connections cm) key = Some cn" "cn_matchKey cn = matchKey"
  shows "\<exists>st. be_states (channel_onclose ch ep) = be_states ep @ [st]
    \<and> jget (cm_connections (handleEndpointState matchKey st cm)) key = Some (cn\<lparr>cn_state := CDown\<rparr>)"
proof -
  have "ch \<in> set (be_wired ep)" using assms(1,2) by (simp add: endpoint_ok_def)
  then show ?thesis using assms(3-7)
    by (simp add: channel_onclose_def onConnectionStateChange_def handleEndpointState_def emitState_def)
qed

end
