(* ===== verification/MockRtc.thy ===== *)
theory MockRtc
  imports Ice Encoding
begin

text \<open>
  \<open>orp-ref/client/webrtc.ts\<close>: the in-memory WebRTC transport. Its descriptions have the kinds of candidate that a
  browser gathers, the raw address of the host among them, and what the ICE filter lets through of them is
  computed here. The fabric carries bytes between the endpoints of one match.
\<close>

subsection \<open>Profiles and candidates\<close>

datatype transport_policy = PolicyAll | PolicyRelay

record mock_profile =
  mp_hostIp :: string
  mp_mdnsName :: string
  mp_srflxIp :: string
  mp_relayIp :: string

definition DEFAULT_PROFILE :: mock_profile where
  "DEFAULT_PROFILE = \<lparr>mp_hostIp = ''192.168.1.37'', mp_mdnsName = ''a1b2c3d4-1111-4222-8333-444455556666.local'',
     mp_srflxIp = ''203.0.113.45'', mp_relayIp = ''198.51.100.10''\<rparr>"

definition gatherCandidates :: "transport_policy \<Rightarrow> mock_profile \<Rightarrow> string list" where
  "gatherCandidates policy p =
     (if policy = PolicyRelay
      then [''candidate:4 1 udp 41885439 '' @ mp_relayIp p @ '' 60000 typ relay raddr 0.0.0.0 rport 0'']
      else [''candidate:1 1 udp 2122260223 '' @ mp_hostIp p @ '' 51820 typ host'',
        ''candidate:2 1 udp 2122194687 '' @ mp_mdnsName p @ '' 51821 typ host'',
        ''candidate:3 1 udp 1686052607 '' @ mp_srflxIp p @ '' 51822 typ srflx raddr '' @ mp_hostIp p @ '' rport 51820'',
        ''candidate:4 1 udp 41885439 '' @ mp_relayIp p @ '' 60000 typ relay raddr '' @ mp_srflxIp p @ '' rport 51822''])"

definition upper_hex :: "nat \<Rightarrow> char" where
  "upper_hex n = (if n < 10 then char_of (48 + n) else char_of (55 + n))"

definition fakeFingerprint :: "bytes \<Rightarrow> string" where
  \<comment> \<open>of 32 random bytes\<close>
  "fakeFingerprint bytes = join '':'' (map (\<lambda>b. [upper_hex (unat b div 16), upper_hex (unat b mod 16)]) bytes)"

definition CRLF :: string where "CRLF = [CHR 0x0D, CHR 0x0A]"

subsection \<open>Endpoints and the fabric\<close>

text \<open>The endpoints are a heap, and an endpoint is its index. \<open>mn_got\<close> records each call of a data callback.\<close>

record mock_rtc =
  mw_matchId :: string
  mw_policy :: transport_policy
  mw_profile :: mock_profile
  mw_dataCb :: "nat option"
  mw_connected :: bool

record mock_network =
  mn_heap :: "mock_rtc list"
  mn_endpoints :: "(string, nat list) jmap"
  mn_got :: "(nat \<times> nat \<times> bytes) list"

definition MockWebRTC :: "string \<Rightarrow> transport_policy option \<Rightarrow> mock_profile option \<Rightarrow> mock_network \<Rightarrow> nat \<times> mock_network" where
  "MockWebRTC matchId policy profile n =
     (length (mn_heap n), n\<lparr>mn_heap := mn_heap n @ [\<lparr>mw_matchId = matchId, mw_policy = or_default policy PolicyAll,
        mw_profile = or_default profile DEFAULT_PROFILE, mw_dataCb = None, mw_connected = False\<rparr>]\<rparr>)"

definition mn_register :: "string \<Rightarrow> nat \<Rightarrow> mock_network \<Rightarrow> mock_network" where
  "mn_register matchId ep n = n\<lparr>mn_endpoints := jset matchId (or_default (jget (mn_endpoints n) matchId) [] @ [ep]) (mn_endpoints n)\<rparr>"

definition mn_receive :: "bytes \<Rightarrow> nat \<Rightarrow> mock_network \<Rightarrow> mock_network" where
  "mn_receive bytes ep n = (case mw_dataCb (mn_heap n ! ep) of
       None \<Rightarrow> n | Some cb \<Rightarrow> n\<lparr>mn_got := mn_got n @ [(ep, cb, bytes)]\<rparr>)"

definition mn_deliver :: "string \<Rightarrow> nat \<Rightarrow> bytes \<Rightarrow> mock_network \<Rightarrow> mock_network" where
  "mn_deliver matchId from1 bytes n =
     fold (\<lambda>ep n. if ep \<noteq> from1 then mn_receive bytes ep n else n) (or_default (jget (mn_endpoints n) matchId) []) n"

definition mock_createLocalDescription :: "bool \<Rightarrow> bytes \<Rightarrow> bytes \<Rightarrow> bytes \<Rightarrow> bytes \<Rightarrow> mock_rtc \<Rightarrow> string \<times> string list" where
  \<comment> \<open>with the random bytes of the user fragment, the password, the session and the fingerprint\<close>
  "mock_createLocalDescription offer ufrag pwd session fp ep =
     (join CRLF [''v=0'', ''o=- '' @ b64uEncode session @ '' 2 IN IP4 127.0.0.1'', ''s=-'', ''t=0 0'', ''a=group:BUNDLE 0'',
        ''m=application 51820 UDP/DTLS/SCTP webrtc-datachannel'', ''c=IN IP4 0.0.0.0'', ''a=ice-ufrag:'' @ b64uEncode ufrag,
        ''a=ice-pwd:'' @ b64uEncode pwd, ''a=fingerprint:sha-256 '' @ fakeFingerprint fp,
        if offer then ''a=setup:actpass'' else ''a=setup:active'', ''a=mid:0'', ''a=sctp-port:5000''],
      gatherCandidates (mw_policy ep) (mw_profile ep))"

definition change_ep :: "nat \<Rightarrow> (mock_rtc \<Rightarrow> mock_rtc) \<Rightarrow> mock_network \<Rightarrow> mock_network" where
  "change_ep ep f n = n\<lparr>mn_heap := (mn_heap n)[ep := f (mn_heap n ! ep)]\<rparr>"

definition mock_connect :: "nat \<Rightarrow> mock_network \<Rightarrow> mock_network" where
  "mock_connect ep n =
     (if mw_connected (mn_heap n ! ep) then n
      else mn_register (mw_matchId (mn_heap n ! ep)) ep (change_ep ep (\<lambda>x. x\<lparr>mw_connected := True\<rparr>) n))"

definition mock_onData :: "nat \<Rightarrow> nat \<Rightarrow> mock_network \<Rightarrow> mock_network" where
  "mock_onData ep cb n = change_ep ep (\<lambda>x. x\<lparr>mw_dataCb := Some cb\<rparr>) n"

definition mock_sendData :: "nat \<Rightarrow> bytes \<Rightarrow> mock_network \<Rightarrow> mock_network" where
  "mock_sendData ep bytes n = mn_deliver (mw_matchId (mn_heap n ! ep)) ep bytes n"

definition mock_close :: "nat \<Rightarrow> mock_network \<Rightarrow> mock_network" where
  "mock_close ep n = change_ep ep (\<lambda>x. x\<lparr>mw_connected := False, mw_dataCb := None\<rparr>) n"

subsection \<open>What the filter lets through\<close>

lemma fates:
  "candidate_fate ''candidate:1 1 udp 2122260223 192.168.1.37 51820 typ host'' = Inl ''host:raw-ip-dropped''"
  "candidate_fate ''candidate:2 1 udp 2122194687 a1b2c3d4-1111-4222-8333-444455556666.local 51821 typ host''
    = Inr ''2 1 udp 2122194687 a1b2c3d4-1111-4222-8333-444455556666.local 51821 typ host''"
  "candidate_fate ''candidate:3 1 udp 1686052607 203.0.113.45 51822 typ srflx raddr 192.168.1.37 rport 51820''
    = Inr ''3 1 udp 1686052607 203.0.113.45 51822 typ srflx raddr 0.0.0.0 rport 0''"
  "candidate_fate ''candidate:4 1 udp 41885439 198.51.100.10 60000 typ relay raddr 203.0.113.45 rport 51822''
    = Inr ''4 1 udp 41885439 198.51.100.10 60000 typ relay raddr 0.0.0.0 rport 0''"
  "candidate_fate ''candidate:4 1 udp 41885439 198.51.100.10 60000 typ relay raddr 0.0.0.0 rport 0''
    = Inr ''4 1 udp 41885439 198.51.100.10 60000 typ relay raddr 0.0.0.0 rport 0''"
  by code_simp+

text \<open>The address of the host reaches nobody: its candidate goes, and the related addresses are zeroed.\<close>

lemma mock_candidates_filtered:
  "fr_kept (filterCandidates (gatherCandidates PolicyAll DEFAULT_PROFILE)) =
    [''candidate:2 1 udp 2122194687 a1b2c3d4-1111-4222-8333-444455556666.local 51821 typ host'',
     ''candidate:3 1 udp 1686052607 203.0.113.45 51822 typ srflx raddr 0.0.0.0 rport 0'',
     ''candidate:4 1 udp 41885439 198.51.100.10 60000 typ relay raddr 0.0.0.0 rport 0'']"
  "fr_kept (filterCandidates (gatherCandidates PolicyRelay DEFAULT_PROFILE)) =
    [''candidate:4 1 udp 41885439 198.51.100.10 60000 typ relay raddr 0.0.0.0 rport 0'']"
  by (simp_all add: filterCandidates_def gatherCandidates_def DEFAULT_PROFILE_def fates)

subsection \<open>Delivery\<close>

lemma receive_heap [simp]: "mn_heap (mn_receive bytes ep n) = mn_heap n"
  by (simp add: mn_receive_def split: option.split)

definition deliveries :: "nat \<Rightarrow> bytes \<Rightarrow> nat list \<Rightarrow> mock_rtc list \<Rightarrow> (nat \<times> nat \<times> bytes) list" where
  "deliveries from1 bytes eps heap = List.map_filter (\<lambda>ep. if ep = from1 then None else map_option (\<lambda>cb. (ep, cb, bytes)) (mw_dataCb (heap ! ep))) eps"

lemma deliveries_simps [simp]:
  "deliveries from1 bytes [] heap = []"
  "deliveries from1 bytes (ep # eps) heap =
     (if ep = from1 then [] else case mw_dataCb (heap ! ep) of None \<Rightarrow> [] | Some cb \<Rightarrow> [(ep, cb, bytes)]) @ deliveries from1 bytes eps heap"
  by (simp_all add: deliveries_def List.map_filter_simps split: option.split)

lemma deliver_eq:
  "mn_deliver matchId from1 bytes n = n\<lparr>mn_got := mn_got n @ deliveries from1 bytes (or_default (jget (mn_endpoints n) matchId) []) (mn_heap n)\<rparr>"
proof -
  have "fold (\<lambda>ep n. if ep \<noteq> from1 then mn_receive bytes ep n else n) eps n = n\<lparr>mn_got := mn_got n @ deliveries from1 bytes eps (mn_heap n)\<rparr>" for eps
    by (induction eps arbitrary: n) (simp_all, auto simp: mn_receive_def split: option.split)
  then show ?thesis by (simp add: mn_deliver_def)
qed

text \<open>Two endpoints of a match that are connected reach each other, and nobody else is reached.\<close>

lemma pair_delivers:
  assumes "jget (mn_endpoints n) matchId = Some [a, b]" "a \<noteq> b" "mw_matchId (mn_heap n ! a) = matchId" "mw_dataCb (mn_heap n ! b) = Some cb"
  shows "mock_sendData a bytes n = n\<lparr>mn_got := mn_got n @ [(b, cb, bytes)]\<rparr>"
  using assms by (simp add: mock_sendData_def deliver_eq or_default_def)

text \<open>A closed endpoint stays registered, so one that connects again is registered twice and gets everything twice.\<close>

lemma reconnected_gets_twice:
  assumes "jget (mn_endpoints n) matchId = Some [a, b]" "a \<noteq> b" "b < length (mn_heap n)" "mw_matchId (mn_heap n ! a) = matchId" "mw_matchId (mn_heap n ! b) = matchId"
  shows "mn_got (mock_sendData a bytes (mock_onData b cb (mock_connect b (mock_close b n)))) = mn_got n @ [(b, cb, bytes), (b, cb, bytes)]"
  using assms by (simp add: mock_close_def mock_connect_def mock_onData_def change_ep_def mn_register_def mock_sendData_def deliver_eq or_default_def)

end
