(* ===== verification/SettingsDialog.thy ===== *)
theory SettingsDialog
  imports AppViews IceConfig
begin

text \<open>
  \<open>apps/web/src/components/SettingsModal.tsx\<close>: the state of the settings dialog and its handlers, over the state of
  the user interface and the two editors of \<open>IceConfig\<close>; what is rendered is not modelled. A handler runs to
  completion, so the flags that show that one is at work are left out; the answers to a question and the
  picked file are arguments. What the dialog saves has a board and servers that the editor accepts, and
  saving it untouched keeps the servers. Texts have characters outside ASCII as their bytes in UTF-8.
\<close>

subsection \<open>The dialog\<close>

datatype test_state = TestIdle | TestDone ice_test bool | TestError string

record settings_dialog =
  sd_boards :: "string list"
  sd_form :: ice_form
  sd_advanced :: bool
  sd_iceJson :: string
  sd_relayDefault :: json
  sd_error :: "string option"
  sd_saved :: bool
  sd_test :: test_state
  sd_pushError :: "string option"

definition apostrophe :: string where
  "apostrophe = [CHR 0xE2, CHR 0x80, CHR 0x99]"

definition SettingsModal :: "app_settings \<Rightarrow> settings_dialog option" where
  \<comment> \<open>the first render, which throws when the servers are no array; the text is indented, which is not modelled\<close>
  "SettingsModal settings = (case servers_of settings of
       None \<Rightarrow> None
     | Some servers \<Rightarrow> Some \<lparr>
         sd_boards = (if has_length (Some (as_boards settings)) then strings_of (as_boards settings) else [[]]),
         sd_form = iceServersToForm servers, sd_advanced = (\<not> isSimpleConfig servers), sd_iceJson = json_str (JArr servers),
         sd_relayDefault = as_relayOnlyByDefault settings, sd_error = None, sd_saved = False, sd_test = TestIdle, sd_pushError = None\<rparr>)"

definition without_index :: "nat \<Rightarrow> 'a list \<Rightarrow> 'a list" where
  "without_index i xs = take i xs @ drop (Suc i) xs"

definition setBoard :: "nat \<Rightarrow> string \<Rightarrow> settings_dialog \<Rightarrow> settings_dialog" where
  "setBoard i v dl = dl\<lparr>sd_boards := (sd_boards dl)[i := v]\<rparr>"

definition addBoard :: "settings_dialog \<Rightarrow> settings_dialog" where
  "addBoard dl = dl\<lparr>sd_boards := sd_boards dl @ [[]]\<rparr>"

definition removeBoard :: "nat \<Rightarrow> settings_dialog \<Rightarrow> settings_dialog" where
  "removeBoard i dl = dl\<lparr>sd_boards := without_index i (sd_boards dl)\<rparr>"

definition setStun :: "string \<Rightarrow> settings_dialog \<Rightarrow> settings_dialog" where
  "setStun stunUrl dl = dl\<lparr>sd_form := (sd_form dl)\<lparr>if_stunUrl := stunUrl\<rparr>\<rparr>"

definition addTurn :: "settings_dialog \<Rightarrow> settings_dialog" where
  "addTurn dl = dl\<lparr>sd_form := (sd_form dl)\<lparr>if_turns := if_turns (sd_form dl) @ [\<lparr>te_url = [], te_username = [], te_credential = []\<rparr>]\<rparr>\<rparr>"

definition removeTurn :: "nat \<Rightarrow> settings_dialog \<Rightarrow> settings_dialog" where
  "removeTurn i dl = dl\<lparr>sd_form := (sd_form dl)\<lparr>if_turns := without_index i (if_turns (sd_form dl))\<rparr>\<rparr>"

definition setTurn :: "nat \<Rightarrow> (turn_entry \<Rightarrow> turn_entry) \<Rightarrow> settings_dialog \<Rightarrow> settings_dialog" where
  \<comment> \<open>the patch as a function\<close>
  "setTurn i patch dl = dl\<lparr>sd_form := (sd_form dl)\<lparr>if_turns := map (\<lambda>(j, t). if j = i then patch t else t) (enumerate 0 (if_turns (sd_form dl)))\<rparr>\<rparr>"

definition resolveIceServers :: "string \<Rightarrow> settings_dialog \<Rightarrow> string + json list" where
  \<comment> \<open>\<open>why\<close> is the message of the JSON parser\<close>
  "resolveIceServers why dl =
     (if sd_advanced dl then parseIceJson why (sd_iceJson dl)
      else (case validateForm (sd_form dl) of
          err # errs \<Rightarrow> Inl err
        | [] \<Rightarrow> Inr (formToIceServers (sd_form dl))))"

definition openAdvanced :: "settings_dialog \<Rightarrow> settings_dialog" where
  "openAdvanced dl = (if sd_advanced dl then dl else dl\<lparr>sd_iceJson := json_str (JArr (formToIceServers (sd_form dl)))\<rparr>)\<lparr>sd_advanced := True\<rparr>"

definition closeAdvanced :: "string \<Rightarrow> settings_dialog \<Rightarrow> settings_dialog" where
  "closeAdvanced why dl = (case parseIceJson why (sd_iceJson dl) of
       Inl err \<Rightarrow> dl\<lparr>sd_error := Some err\<rparr>
     | Inr servers \<Rightarrow>
         if \<not> isSimpleConfig servers
         then dl\<lparr>sd_error := Some (''This JSON has servers the simple form can'' @ apostrophe @ ''t represent (URL arrays, multiple STUN '' @
           ''entries, or unusual schemes). Keep editing here, or simplify it first.'')\<rparr>
         else dl\<lparr>sd_form := iceServersToForm servers, sd_error := None, sd_advanced := False\<rparr>)"

definition runTest :: "string \<Rightarrow> string option \<Rightarrow> bool \<Rightarrow> gather_event list \<Rightarrow> settings_dialog \<Rightarrow> settings_dialog" where
  \<comment> \<open>\<open>threw\<close>: the test could not start\<close>
  "runTest why threw hasWebRTC events dl = (case resolveIceServers why dl of
       Inl err \<Rightarrow> dl\<lparr>sd_error := Some err\<rparr>
     | Inr servers \<Rightarrow> dl\<lparr>sd_error := None, sd_test := (case threw of
         Some message \<Rightarrow> TestError message
       | None \<Rightarrow> TestDone (testIceServers hasWebRTC events) (configHasTurn servers))\<rparr>)"

definition cleaned_boards :: "settings_dialog \<Rightarrow> string list" where
  "cleaned_boards dl = filter (\<lambda>b. b \<noteq> []) (map trim (sd_boards dl))"

definition dialog_settings :: "settings_dialog \<Rightarrow> json list \<Rightarrow> app_settings \<Rightarrow> app_settings" where
  "dialog_settings dl servers settings =
     \<lparr>as_boards = JArr (map JStr (cleaned_boards dl)), as_iceServers = JArr servers, as_relayOnlyByDefault = sd_relayDefault dl,
      as_pushNotifications = as_pushNotifications settings, as_blockedKeys = as_blockedKeys settings\<rparr>"

definition dialog_save ::
  "string \<Rightarrow> migration_state tx_outcome \<Rightarrow> key_provider option \<Rightarrow> settings_dialog \<Rightarrow> shell \<Rightarrow> settings_dialog \<times> shell" where
  \<comment> \<open>an error of \<open>saveSettings\<close> leaves the handler\<close>
  "dialog_save why wr provider dl sh =
     (if cleaned_boards dl = [] then (dl\<lparr>sd_error := Some ''Add at least one board URL (ws:// or wss://).''\<rparr>, sh)
      else (case resolveIceServers why dl of
          Inl err \<Rightarrow> (dl\<lparr>sd_error := Some err\<rparr>, sh)
        | Inr servers \<Rightarrow> (case saveSettings wr provider (dialog_settings dl servers (sh_settings sh)) sh of
            (Some err, sh1) \<Rightarrow> (dl\<lparr>sd_error := None\<rparr>, sh1)
          | (None, sh1) \<Rightarrow> (dl\<lparr>sd_error := None, sd_saved := True\<rparr>, sh1))))"

definition togglePush :: "client_env \<Rightarrow> bool \<Rightarrow> string + string \<Rightarrow> settings_dialog \<Rightarrow> shell \<Rightarrow> settings_dialog \<times> shell" where
  "togglePush e on token dl sh = (case setPushEnabled e on token sh of (r, sh1) \<Rightarrow> (dl\<lparr>sd_pushError := r\<rparr>, sh1))"

subsection \<open>Backup and restore\<close>

definition BACKUP_REASONS :: "(string \<times> string) list" where
  "BACKUP_REASONS =
     [(''not-valid-json'', ''That file isn'' @ apostrophe @ ''t a valid Orpal backup (not JSON).''),
      (''not-an-object'', ''That file isn'' @ apostrophe @ ''t a valid Orpal backup.''),
      (''not-a-device-backup'', ''That file isn'' @ apostrophe @ ''t an Orpal device backup.''),
      (''unsupported-version'', ''This backup was made by a newer version of Orpal.''),
      (''missing-crypto-fields'', ''This backup file is missing its encryption fields.''),
      (''bad-kdf-params'', ''This backup file has invalid encryption parameters.''),
      (''password-required'', ''Enter the backup'' @ apostrophe @ ''s password.''),
      (''bad-password-or-corrupt'', ''Wrong password, or the file is corrupt or tampered with.''),
      (''decrypted-not-json'', ''Decryption succeeded but the contents are unreadable.''),
      (''not-a-backup-payload'', ''This file decrypted but isn'' @ apostrophe @ ''t a full-device backup.''),
      (''not-ready'', ''Orpal is still starting up '' @ [CHR 0xE2, CHR 0x80, CHR 0x94] @ '' try again in a moment.'')]"

definition reasonText :: "string \<Rightarrow> string" where
  \<comment> \<open>the reasons are the core's, so none is a member that every object inherits\<close>
  "reasonText reason = or_default (map_of BACKUP_REASONS reason) reason"

record backup_section =
  bs_exportPw :: string
  bs_exportPw2 :: string
  bs_importPw :: string
  bs_replace :: bool
  bs_staged :: "(backup_summary \<times> bool) option"
  bs_error :: "string option"
  bs_notice :: "string option"
  bs_result :: "restore_result option"

definition bs_doExport ::
  "bool \<Rightarrow> web_client_deps \<Rightarrow> backup_crypto \<Rightarrow> bytes \<Rightarrow> bytes \<Rightarrow> client_env \<Rightarrow> backup_section \<Rightarrow> shell \<Rightarrow> backup_section \<times> shell" where
  "bs_doExport confirmed d B salt iv e bs sh =
     (let bs1 = bs\<lparr>bs_error := None, bs_notice := None\<rparr>
      in case validateBackupPassword (bs_exportPw bs) of
           Some problem \<Rightarrow> (bs1\<lparr>bs_error := Some problem\<rparr>, sh)
         | None \<Rightarrow>
             if bs_exportPw bs \<noteq> bs_exportPw2 bs then (bs1\<lparr>bs_error := Some (''The two passwords don'' @ apostrophe @ ''t match.'')\<rparr>, sh)
             else if \<not> confirmed then (bs1, sh)
             else (case shell_exportBackup d B (bs_exportPw bs) salt iv e sh of
                 (Some err, sh1) \<Rightarrow> (bs1\<lparr>bs_error := Some err\<rparr>, sh1)
               | (None, sh1) \<Rightarrow> (bs1\<lparr>bs_exportPw := [], bs_exportPw2 := [], bs_notice := Some ''Backup file saved. Store it somewhere safe.''\<rparr>, sh1)))"

definition bs_doPreview :: "web_client_deps \<Rightarrow> backup_crypto \<Rightarrow> string option \<Rightarrow> backup_section \<Rightarrow> shell \<Rightarrow> backup_section \<times> shell" where
  \<comment> \<open>\<open>text\<close>: of the picked file\<close>
  "bs_doPreview d B picked bs sh =
     (let bs1 = bs\<lparr>bs_error := None, bs_notice := None, bs_result := None\<rparr>
      in if bs_importPw bs = [] then (bs1\<lparr>bs_error := Some (''Enter the backup'' @ apostrophe @ ''s password.'')\<rparr>, sh)
         else (case previewBackup d B picked (bs_importPw bs) sh of
             (Inl reason, sh1) \<Rightarrow> (if reason = ''cancelled'' then bs1 else bs1\<lparr>bs_error := Some (reasonText reason)\<rparr>, sh1)
           | (Inr staged, sh1) \<Rightarrow> (bs1\<lparr>bs_staged := Some staged\<rparr>, sh1)))"

definition bs_doRestore ::
  "bool \<Rightarrow> web_client_deps \<Rightarrow> migration_state tx_outcome \<Rightarrow> key_provider option \<Rightarrow> backup_section \<Rightarrow> shell \<Rightarrow> backup_section \<times> shell" where
  "bs_doRestore confirmed d wr provider bs sh =
     (if bs_staged bs = None then (bs, sh)
      else (let bs1 = bs\<lparr>bs_error := None\<rparr>
        in if \<not> confirmed then (bs1, sh)
           else (case shell_restoreBackup d wr provider (bs_replace bs) sh of
               (Inl err, sh1) \<Rightarrow> (bs1\<lparr>bs_error := Some err\<rparr>, sh1)
             | (Inr r, sh1) \<Rightarrow> (bs1\<lparr>bs_result := Some r, bs_staged := None, bs_importPw := []\<rparr>, sh1))))"

definition bs_cancelStaged :: "backup_section \<Rightarrow> shell \<Rightarrow> backup_section \<times> shell" where
  "bs_cancelStaged bs sh = (bs\<lparr>bs_staged := None, bs_importPw := []\<rparr>, cancelBackupPreview sh)"

subsection \<open>What is saved\<close>

lemma accepted:
  assumes "parseIceJson why text = Inr servers"
  shows "json_parse text = Some (JArr servers)" "first_error 0 servers = None"
  using assms by (auto simp: parseIceJson_def split: option.splits json.splits)

lemma valid_form_servers:
  assumes "validateForm f = []"
  shows "first_error 0 (formToIceServers f) = None"
  by (rule accepted(2) [OF valid_form_accepted [OF assms, of "[]"]])

lemma resolved_ok: "resolveIceServers why dl = Inr servers \<Longrightarrow> first_error 0 servers = None"
  using accepted(2) valid_form_servers by (auto simp: resolveIceServers_def split: if_splits list.splits)

lemma saved_settings:
  assumes "saveSettings wr provider s sh = (None, sh1)"
  shows "sh_settings sh1 = s"
  using assms by (auto simp: saveSettings_def split: prod.splits option.splits)

lemma dialog_saved:
  assumes "dialog_save why wr provider dl sh = (dl1, sh1)" "sd_saved dl1" "\<not> sd_saved dl"
  obtains servers where "resolveIceServers why dl = Inr servers" "cleaned_boards dl \<noteq> []" "sh_settings sh1 = dialog_settings dl servers (sh_settings sh)"
    "first_error 0 servers = None"
proof -
  have b: "cleaned_boards dl \<noteq> []" using assms by (auto simp: dialog_save_def)
  then obtain servers where s: "resolveIceServers why dl = Inr servers" using assms by (cases "resolveIceServers why dl") (auto simp: dialog_save_def)
  obtain r sh2 where r: "saveSettings wr provider (dialog_settings dl servers (sh_settings sh)) sh = (r, sh2)" by fastforce
  then have "r = None \<and> sh2 = sh1" using assms b s by (cases r) (auto simp: dialog_save_def)
  then show thesis using that [OF s b _ resolved_ok [OF s]] saved_settings r by blast
qed

lemma not_saved: "dialog_save why wr provider dl sh = (dl1, sh1) \<Longrightarrow> sd_error dl1 \<noteq> None \<Longrightarrow> sh1 = sh"
  by (auto simp: dialog_save_def split: if_splits sum.splits prod.splits option.splits)

text \<open>Untouched, the dialog resolves to the servers it was opened with, in the form with the STUN server first.\<close>

definition shows_all :: "json list \<Rightarrow> bool" where
  "shows_all servers = (if isSimpleConfig servers then (\<forall>s\<in>set servers. plain_server s) else wf_json (JArr servers) \<and> first_error 0 servers = None)"

lemma untouched:
  assumes "SettingsModal settings = Some dl" "servers_of settings = Some servers" "shows_all servers" "resolveIceServers why dl = Inr servers1"
  shows "servers1 = (if isSimpleConfig servers then filter has_stun servers @ filter (\<lambda>s. \<not> has_stun s) servers else servers)"
proof (cases "isSimpleConfig servers")
  case True
  then have "\<not> sd_advanced dl" "sd_form dl = iceServersToForm servers" using assms(1,2) by (auto simp: SettingsModal_def)
  then have "servers1 = formToIceServers (iceServersToForm servers)" using assms(4) by (auto simp: resolveIceServers_def split: list.splits)
  then show ?thesis using form_keeps [OF _ True] assms(3) True by (simp add: shows_all_def)
next
  case False
  then have "sd_advanced dl" "sd_iceJson dl = json_str (JArr servers)" using assms(1,2) by (auto simp: SettingsModal_def)
  then have "json_parse (json_str (JArr servers)) = Some (JArr servers1)" using assms(4) accepted(1) by (simp add: resolveIceServers_def)
  then show ?thesis using assms(3) False by (simp add: shows_all_def)
qed

text \<open>Editing as text and going back to the form gives the same servers.\<close>

lemma advanced_and_back:
  assumes "\<not> sd_advanced dl" "validateForm (sd_form dl) = []" "dl1 = openAdvanced dl"
  shows "resolveIceServers why dl1 = resolveIceServers why dl"
    "isSimpleConfig (formToIceServers (sd_form dl)) \<Longrightarrow>
      closeAdvanced why dl1 = dl1\<lparr>sd_form := iceServersToForm (formToIceServers (sd_form dl)), sd_error := None, sd_advanced := False\<rparr>"
  using assms valid_form_accepted [OF assms(2), of why] by (simp_all add: openAdvanced_def resolveIceServers_def closeAdvanced_def)

subsection \<open>The backup section\<close>

lemma export_guarded:
  assumes "bs_doExport confirmed d B salt iv e bs sh = (bs1, sh1)" "sh1 \<noteq> sh"
  shows "confirmed" "BACKUP_MIN_PASSWORD_LENGTH \<le> length (bs_exportPw bs)" "bs_exportPw bs = bs_exportPw2 bs"
  using assms by (auto simp: bs_doExport_def Let_def validateBackupPassword_def split: if_splits)

lemma restore_guarded: "bs_doRestore confirmed d wr provider bs sh = (bs1, sh1) \<Longrightarrow> sh1 \<noteq> sh \<Longrightarrow> confirmed \<and> bs_staged bs \<noteq> None"
  by (auto simp: bs_doRestore_def Let_def split: if_splits)

lemma restored_clears: "bs_doRestore confirmed d wr provider bs sh = (bs1, sh1) \<Longrightarrow> bs_result bs1 \<noteq> bs_result bs \<Longrightarrow> bs_staged bs1 = None \<and> bs_importPw bs1 = []"
  by (auto simp: bs_doRestore_def Let_def split: if_splits sum.splits prod.splits)

end
