(* ===== verification/SignalMeter.thy ===== *)
theory SignalMeter
  imports OrpalClient
begin

text \<open>
  \<open>apps/web/src/components/SignalMeter.tsx\<close>: the animated meter of the sidebar. Its numbers are rationals, the sine
  is an argument between -1 and 1, and the drawing is the rectangles of its bars. The bars stay on a canvas of
  the heights in use, and the loop of animation frames ends when nothing happens and the board is not there.
\<close>

subsection \<open>The meter\<close>

definition NBARS :: nat where "NBARS = 7"

record meter =
  mt_state :: broker_state
  mt_reduce :: bool
  mt_heights :: "rat list"
  mt_pulse :: rat
  mt_running :: bool
  mt_dims :: "rat \<times> rat \<times> rat"

definition baseEnergy :: "broker_state \<Rightarrow> rat" where
  "baseEnergy state = (case state of BOpen \<Rightarrow> 42 / 100 | BConnecting \<Rightarrow> 3 / 10 | _ \<Rightarrow> 5 / 100)"

definition barLabel :: "broker_state \<Rightarrow> string" where
  "barLabel state = (case state of
       BOpen \<Rightarrow> ''Board signal: connected''
     | BConnecting \<Rightarrow> ''Board signal: connecting''
     | BClosed \<Rightarrow> ''Board signal: disconnected''
     | _ \<Rightarrow> ''Board signal: error'')"

definition new_meter :: "broker_state \<Rightarrow> bool \<Rightarrow> meter" where
  "new_meter state reduce = \<lparr>mt_state = state, mt_reduce = reduce, mt_heights = replicate NBARS (12 / 100), mt_pulse = 0, mt_running = False,
     mt_dims = (64, 20, 1)\<rparr>"

definition or_number :: "rat \<Rightarrow> rat \<Rightarrow> rat" where
  \<comment> \<open>\<open>a || b\<close> of numbers\<close>
  "or_number a b = (if a = 0 then b else a)"

definition round_half_up :: "rat \<Rightarrow> rat" where
  "round_half_up x = of_int \<lfloor>x + 1 / 2\<rfloor>"

definition meter_setup :: "rat \<Rightarrow> rat \<Rightarrow> rat \<Rightarrow> meter \<Rightarrow> meter" where
  \<comment> \<open>the ratio of the device, and the size of the canvas\<close>
  "meter_setup ratio width height m =
     m\<lparr>mt_dims := (max 1 (round_half_up (or_number width 64)), max 1 (round_half_up (or_number height 20)), min (or_number ratio 1) 2)\<rparr>"

definition wobble :: "(rat \<Rightarrow> rat) \<Rightarrow> rat \<Rightarrow> bool \<Rightarrow> broker_state \<Rightarrow> rat \<Rightarrow> nat \<Rightarrow> rat" where
  \<comment> \<open>with the sine and the number pi\<close>
  "wobble sine circ animated st t i =
     (if \<not> animated then 1 / 2 + 4 / 10 * sine (of_nat i / of_nat (NBARS - 1) * circ)
      else if st = BConnecting then (sine (t * (17 / 10) - of_nat i * (6 / 10)) + 1) / 2
      else (sine (t * (125 / 100 + of_nat i * (27 / 100)) + of_nat i) + 1) / 2)"

definition next_height :: "(rat \<Rightarrow> rat) \<Rightarrow> rat \<Rightarrow> bool \<Rightarrow> rat \<Rightarrow> meter \<Rightarrow> nat \<Rightarrow> rat" where
  "next_height sine circ animated t m i =
     (let energy = min 1 (baseEnergy (mt_state m) + mt_pulse m);
          target = 12 / 100 + energy * (22 / 100 + 78 / 100 * wobble sine circ animated (mt_state m) t i)
      in if animated then mt_heights m ! i + (target - mt_heights m ! i) * (25 / 100) else target)"

definition meter_draw :: "(rat \<Rightarrow> rat) \<Rightarrow> rat \<Rightarrow> bool \<Rightarrow> rat \<Rightarrow> meter \<Rightarrow> meter" where
  \<comment> \<open>at time \<open>t\<close>\<close>
  "meter_draw sine circ animated t m = m\<lparr>mt_heights := map (next_height sine circ animated t m) [0..<NBARS]\<rparr>"

definition bar_rect :: "meter \<Rightarrow> nat \<Rightarrow> rat \<times> rat \<times> rat \<times> rat" where
  \<comment> \<open>x, y, width and height of what \<open>draw\<close> fills\<close>
  "bar_rect m i =
     (let (w, h, dpr) = mt_dims m; pad = 3; gap = 2; usableW = w - pad * 2;
          barW = (usableW - gap * of_nat (NBARS - 1)) / of_nat NBARS;
          bh = max 2 (mt_heights m ! i * (h - pad * 2))
      in (pad + of_nat i * (barW + gap), h - pad - bh, barW, bh))"

definition shouldAnimate :: "meter \<Rightarrow> bool" where
  "shouldAnimate m = (mt_state m = BOpen \<or> mt_state m = BConnecting \<or> 1 / 100 < mt_pulse m)"

definition meter_frame :: "(rat \<Rightarrow> rat) \<Rightarrow> rat \<Rightarrow> rat \<Rightarrow> meter \<Rightarrow> meter" where
  \<comment> \<open>the next frame is requested exactly while \<open>running\<close> stays\<close>
  "meter_frame sine circ t m =
     (let m1 = (meter_draw sine circ True t m)\<lparr>mt_pulse := mt_pulse m * (92 / 100)\<rparr>
      in if shouldAnimate m1 then m1 else meter_draw sine circ True t (m1\<lparr>mt_running := False\<rparr>))"

definition meter_start :: "meter \<Rightarrow> meter" where
  "meter_start m = (if mt_running m \<or> mt_reduce m then m else m\<lparr>mt_running := True\<rparr>)"

definition meter_mount :: "(rat \<Rightarrow> rat) \<Rightarrow> rat \<Rightarrow> rat \<Rightarrow> rat \<Rightarrow> rat \<Rightarrow> rat \<Rightarrow> meter \<Rightarrow> meter" where
  "meter_mount sine circ ratio width height t m =
     (let m1 = meter_setup ratio width height m in if mt_reduce m then meter_draw sine circ False t m1 else meter_start m1)"

definition meter_resize :: "(rat \<Rightarrow> rat) \<Rightarrow> rat \<Rightarrow> rat \<Rightarrow> rat \<Rightarrow> rat \<Rightarrow> rat \<Rightarrow> meter \<Rightarrow> meter" where
  "meter_resize sine circ ratio width height t m = meter_draw sine circ (\<not> mt_reduce m) t (meter_setup ratio width height m)"

definition meter_state :: "(rat \<Rightarrow> rat) \<Rightarrow> rat \<Rightarrow> rat \<Rightarrow> broker_state \<Rightarrow> meter \<Rightarrow> meter" where
  "meter_state sine circ t st m =
     (let m1 = m\<lparr>mt_state := st\<rparr> in if mt_reduce m then meter_draw sine circ False t m1 else meter_start m1)"

definition meter_activity :: "nat \<Rightarrow> meter \<Rightarrow> meter" where
  "meter_activity activity m =
     (if activity = 0 then m
      else let m1 = m\<lparr>mt_pulse := min 1 (mt_pulse m + 55 / 100)\<rparr> in if mt_reduce m then m1 else meter_start m1)"

inductive meter_reach :: "(rat \<Rightarrow> rat) \<Rightarrow> rat \<Rightarrow> meter \<Rightarrow> bool" for sine circ where
  New: "meter_reach sine circ (new_meter st reduce)"
| Mount: "meter_reach sine circ m \<Longrightarrow> meter_reach sine circ (meter_mount sine circ ratio width height t m)"
| Resize: "meter_reach sine circ m \<Longrightarrow> meter_reach sine circ (meter_resize sine circ ratio width height t m)"
| State: "meter_reach sine circ m \<Longrightarrow> meter_reach sine circ (meter_state sine circ t st m)"
| Activity: "meter_reach sine circ m \<Longrightarrow> meter_reach sine circ (meter_activity n m)"
| Frame: "meter_reach sine circ m \<Longrightarrow> mt_running m \<Longrightarrow> meter_reach sine circ (meter_frame sine circ t m)"

subsection \<open>The bars stay on the canvas\<close>

definition is_sine :: "(rat \<Rightarrow> rat) \<Rightarrow> rat \<Rightarrow> bool" where
  \<comment> \<open>documented\<close>
  "is_sine sine circ = (\<forall>x. -1 \<le> sine x \<and> sine x \<le> 1)"

definition meter_ok :: "meter \<Rightarrow> bool" where
  "meter_ok m = (0 \<le> mt_pulse m \<and> mt_pulse m \<le> 1 \<and> length (mt_heights m) = NBARS
     \<and> (\<forall>i<NBARS. 12 / 100 \<le> mt_heights m ! i \<and> mt_heights m ! i \<le> 112 / 100) \<and> (mt_running m \<longrightarrow> \<not> mt_reduce m))"

lemma wobble_bounds:
  assumes "is_sine sine circ"
  shows "0 \<le> wobble sine circ animated st t i" "wobble sine circ animated st t i \<le> 1"
proof -
  have s: "-1 \<le> sine x" "sine x \<le> 1" for x using assms by (simp_all add: is_sine_def)
  have "0 \<le> 1 / 2 + 4 / 10 * sine x" "1 / 2 + 4 / 10 * sine x \<le> 1" "0 \<le> (sine x + 1) / 2" "(sine x + 1) / 2 \<le> 1" for x
    using s [of x] by simp_all
  then show "0 \<le> wobble sine circ animated st t i" "wobble sine circ animated st t i \<le> 1" by (simp_all add: wobble_def)
qed

lemma smoothed:
  fixes x y :: rat
  assumes "12 / 100 \<le> x" "x \<le> 112 / 100" "12 / 100 \<le> y" "y \<le> 112 / 100"
  shows "12 / 100 \<le> x + (y - x) * (25 / 100)" "x + (y - x) * (25 / 100) \<le> 112 / 100"
  using assms by (simp_all add: field_simps)

lemma height_bounds:
  assumes "is_sine sine circ" "meter_ok m" "i < NBARS"
  shows "12 / 100 \<le> next_height sine circ animated t m i \<and> next_height sine circ animated t m i \<le> 112 / 100"
proof -
  define e where "e = min 1 (baseEnergy (mt_state m) + mt_pulse m)"
  define v where "v = 22 / 100 + 78 / 100 * wobble sine circ animated (mt_state m) t i"
  have "0 \<le> baseEnergy (mt_state m)" by (simp add: baseEnergy_def split: broker_state.split)
  then have e: "0 \<le> e" "e \<le> 1" using assms(2) by (simp_all add: e_def meter_ok_def)
  have v: "0 \<le> v" "v \<le> 1" unfolding v_def using wobble_bounds [OF assms(1), of animated "mt_state m" t i] by linarith+
  have p: "0 \<le> e * v" "e * v \<le> 1" using e v by (simp_all add: mult_le_one)
  have h: "12 / 100 \<le> mt_heights m ! i" "mt_heights m ! i \<le> 112 / 100" using assms(2,3) by (simp_all add: meter_ok_def)
  have "next_height sine circ animated t m i =
    (if animated then mt_heights m ! i + ((12 / 100 + e * v) - mt_heights m ! i) * (25 / 100) else 12 / 100 + e * v)"
    by (simp add: next_height_def Let_def e_def v_def)
  moreover have "12 / 100 \<le> 12 / 100 + e * v" "12 / 100 + e * v \<le> 112 / 100" using p by simp_all
  moreover note smoothed [OF h this]
  ultimately show ?thesis by (cases animated) (simp_all only: if_True if_False simp_thms)
qed

lemma draw_ok: "is_sine sine circ \<Longrightarrow> meter_ok m \<Longrightarrow> meter_ok (meter_draw sine circ animated t m)"
  using height_bounds [of sine circ m _ animated t] by (simp add: meter_draw_def meter_ok_def)

lemma meter_fields_ok [simp]:
  "meter_ok (m\<lparr>mt_state := st\<rparr>) = meter_ok m" "meter_ok (m\<lparr>mt_dims := x\<rparr>) = meter_ok m"
  by (simp_all add: meter_ok_def)

lemma start_ok: "meter_ok m \<Longrightarrow> meter_ok (meter_start m)"
  by (simp add: meter_start_def meter_ok_def)

lemma meter_ok_reach:
  assumes "is_sine sine circ" "meter_reach sine circ m"
  shows "meter_ok m"
  using assms(2)
proof induction
  case (New st reduce)
  show ?case by (simp add: meter_ok_def new_meter_def)
next
  case (Activity m n)
  have "meter_ok (m\<lparr>mt_pulse := min 1 (mt_pulse m + 55 / 100)\<rparr>)" using Activity.IH by (auto simp: meter_ok_def)
  then show ?case using Activity.IH by (simp add: meter_activity_def Let_def start_ok)
next
  case (Frame m t)
  have "meter_ok ((meter_draw sine circ True t m)\<lparr>mt_pulse := mt_pulse m * (92 / 100)\<rparr>)"
    using draw_ok [OF assms(1) Frame.IH, of True t] by (simp add: meter_ok_def meter_draw_def)
  moreover then have "meter_ok (((meter_draw sine circ True t m)\<lparr>mt_pulse := mt_pulse m * (92 / 100)\<rparr>)\<lparr>mt_running := False\<rparr>)"
    by (simp add: meter_ok_def)
  ultimately show ?case by (simp add: meter_frame_def Let_def draw_ok assms(1))
qed (simp_all add: meter_mount_def meter_resize_def meter_state_def meter_setup_def Let_def draw_ok start_ok assms(1))

lemma bars_fit:
  assumes "meter_ok m" "mt_dims m = (w, h, dpr)" "18 \<le> w" "6 \<le> h" "h \<le> 31" "i < NBARS" "bar_rect m i = (x, y, bw, bh)"
  shows "3 \<le> x" "x + bw \<le> w - 3" "0 \<le> y" "y + bh = h - 3" "0 \<le> bw" "2 \<le> bh"
proof -
  have bw: "bw = (w - 18) / 7" "x = 3 + of_nat i * (bw + 2)" "bh = max 2 (mt_heights m ! i * (h - 6))" "y = h - 3 - bh"
    using assms(2,7) by (auto simp: bar_rect_def Let_def NBARS_def)
  have i: "(0 :: rat) \<le> of_nat i" "(of_nat i :: rat) \<le> 6" using assms(6) by (simp_all add: NBARS_def)
  have b0: "0 \<le> bw" using assms(3) bw(1) by simp
  show "0 \<le> bw" by (rule b0)
  show "3 \<le> x" using bw(2) i(1) b0 by simp
  have "of_nat i * (bw + 2) \<le> 6 * (bw + 2)" by (rule mult_right_mono) (use i b0 in simp_all)
  then have "x + bw \<le> 3 + 6 * (bw + 2) + bw" using bw(2) by simp
  moreover have "w - 3 = 3 + 6 * (bw + 2) + bw" using bw(1) by simp
  ultimately show "x + bw \<le> w - 3" by simp
  have "mt_heights m ! i * (h - 6) \<le> 112 / 100 * (h - 6)" by (rule mult_right_mono) (use assms(1,4,6) in \<open>simp_all add: meter_ok_def\<close>)
  then have "bh \<le> h - 3" using bw(3) assms(4,5) by (simp add: field_simps)
  then show "0 \<le> y" using bw(4) by simp
  show "y + bh = h - 3" "2 \<le> bh" using bw(3,4) by simp_all
qed

subsection \<open>The loop ends\<close>

fun meter_frames :: "(rat \<Rightarrow> rat) \<Rightarrow> rat \<Rightarrow> rat list \<Rightarrow> meter \<Rightarrow> meter" where
  \<comment> \<open>the frames at the times \<open>ts\<close>, as long as they are requested\<close>
  "meter_frames sine circ [] m = m"
| "meter_frames sine circ (t # ts) m = (if mt_running m then meter_frames sine circ ts (meter_frame sine circ t m) else m)"

lemma frame_keeps: "mt_state (meter_frame sine circ t m) = mt_state m" "mt_pulse (meter_frame sine circ t m) = mt_pulse m * (92 / 100)"
  "mt_running (meter_frame sine circ t m) \<Longrightarrow> shouldAnimate (meter_frame sine circ t m)"
  by (auto simp: meter_frame_def Let_def meter_draw_def split: if_splits)

lemma stopped: "\<not> mt_running m \<Longrightarrow> meter_frames sine circ ts m = m"
  by (cases ts) simp_all

lemma running_pulse:
  assumes "mt_running (meter_frames sine circ ts m)"
  shows "mt_state (meter_frames sine circ ts m) = mt_state m \<and> mt_pulse (meter_frames sine circ ts m) = mt_pulse m * (92 / 100) ^ length ts
    \<and> (ts \<noteq> [] \<longrightarrow> shouldAnimate (meter_frames sine circ ts m))"
  using assms
proof (induction ts arbitrary: m)
  case (Cons t ts)
  have r: "mt_running m" using Cons.prems by (auto split: if_splits)
  then have p: "mt_running (meter_frames sine circ ts (meter_frame sine circ t m))" using Cons.prems by simp
  have "mt_running (meter_frame sine circ t m)" using p stopped by metis
  then show ?case using Cons.IH [OF p] r frame_keeps [of sine circ t m] by (cases ts) simp_all
qed simp

lemma loop_ends:
  assumes "meter_ok m" "mt_state m = BClosed \<or> mt_state m = BError" "56 \<le> length ts"
  shows "\<not> mt_running (meter_frames sine circ ts m)"
proof
  assume "mt_running (meter_frames sine circ ts m)"
  from running_pulse [OF this] assms(2,3) have "1 / 100 < mt_pulse m * (92 / 100) ^ length ts" by (auto simp: shouldAnimate_def)
  moreover have "(92 / 100 :: rat) ^ length ts \<le> (92 / 100) ^ 56" by (rule power_decreasing) (use assms(3) in simp_all)
  moreover have "(92 / 100 :: rat) ^ 56 \<le> 1 / 100" by (simp add: power_divide)
  moreover have "mt_pulse m * (92 / 100) ^ length ts \<le> 1 * (92 / 100) ^ length ts" by (rule mult_right_mono) (use assms(1) in \<open>simp_all add: meter_ok_def\<close>)
  ultimately show False by linarith
qed

end
