(* ===== verification/Components.thy ===== *)
theory Components
  imports AppViews
begin

text \<open>
  The logic of the smaller components under \<open>apps/web/src/components/\<close>: what the composer sends, the texts of
  sizes, ages and states, the progress of a file, which dialog is on top, the prompts that add a contact, accept
  a request or a migration, the steps of the wizard, and the choice of a camera. Rendering is left out. Texts
  have characters outside ASCII as their bytes in UTF-8.
\<close>

definition ellipsis :: string where "ellipsis = [CHR 0xE2, CHR 0x80, CHR 0xA6]"

definition typographic_apostrophe :: string where "typographic_apostrophe = [CHR 0xE2, CHR 0x80, CHR 0x99]"

definition long_dash :: string where "long_dash = [CHR 0xE2, CHR 0x80, CHR 0x94]"

definition middle_dot :: string where "middle_dot = [CHR 0xC2, CHR 0xB7]"

subsection \<open>Conversation\<close>

definition PORTAL_PHRASE :: string where "PORTAL_PHRASE = ''show me what you got''"

definition ORBITAL_PHRASE :: string where "ORBITAL_PHRASE = ''that's no moon''"

record composer =
  co_draft :: string
  co_showPortal :: bool
  co_showOrbital :: bool

definition onSend :: "web_client_deps \<Rightarrow> client_env \<Rightarrow> composer \<Rightarrow> shell \<Rightarrow> composer \<times> shell" where
  "onSend d e co sh =
     (if trim (co_draft co) = [] then (co, sh)
      else let phrase = map lower (trim (co_draft co))
        in if phrase = PORTAL_PHRASE then (co\<lparr>co_showPortal := True, co_draft := []\<rparr>, sh)
           else if phrase = ORBITAL_PHRASE then (co\<lparr>co_showOrbital := True, co_draft := []\<rparr>, sh)
           else (co\<lparr>co_draft := []\<rparr>, shell_sendText d e (co_draft co) sh))"

definition preferred_boards :: "string \<Rightarrow> shell \<Rightarrow> string list" where
  "preferred_boards key sh = (case find (\<lambda>c. ct_identityKey c = key) (sh_contacts sh) of
       None \<Rightarrow> [] | Some c \<Rightarrow> or_default (ct_preferredBoards c) [])"

definition toggleBoard :: "web_client_deps \<Rightarrow> client_env \<Rightarrow> string \<Rightarrow> bool \<Rightarrow> shell \<Rightarrow> shell" where
  "toggleBoard d e url on sh = (case sh_selected sh of
       None \<Rightarrow> sh
     | Some key \<Rightarrow> if key = [] then sh
         else (let preferred = preferred_boards key sh
           in shell_setContactBoards d e key (if on then set_of (preferred @ [url]) else filter (\<lambda>b. b \<noteq> url) preferred) sh))"

definition presenceText :: "contact_state \<Rightarrow> string" where
  "presenceText state = (case state of
       CConnected \<Rightarrow> ''online '' @ middle_dot @ '' connected''
     | CConnecting \<Rightarrow> ''connecting'' @ ellipsis
     | CDown \<Rightarrow> ''offline''
     | _ \<Rightarrow> ''tap Connect to reach them'')"

definition name_dirty :: "string \<Rightarrow> string \<Rightarrow> bool" where
  "name_dirty currentName v = (trim v \<noteq> [] \<and> trim v \<noteq> currentName)"

definition submit_name :: "web_client_deps \<Rightarrow> string \<Rightarrow> string \<Rightarrow> string \<Rightarrow> shell \<Rightarrow> shell" where
  "submit_name d contactKey currentName v sh = (if name_dirty currentName v then renameContact d contactKey v sh else sh)"

subsection \<open>Sidebar\<close>

definition js_round :: "rat \<Rightarrow> int" where
  "js_round x = \<lfloor>x + 1 / 2\<rfloor>"

definition formatAge :: "rat \<Rightarrow> rat option \<Rightarrow> string" where
  "formatAge now ts = (case ts of
       None \<Rightarrow> long_dash
     | Some t \<Rightarrow>
         (let secs = max 0 (js_round ((now - t) / 1000)); mins = js_round (of_int secs / 60); hrs = js_round (of_int mins / 60)
          in if secs < 60 then show_int secs @ ''s ago''
             else if mins < 60 then show_int mins @ ''m ago''
             else if hrs < 24 then show_int hrs @ ''h ago''
             else show_int (js_round (of_int hrs / 24)) @ ''d ago''))"

definition presenceLabel :: "contact_state \<Rightarrow> string" where
  "presenceLabel state = (case state of
       CConnected \<Rightarrow> ''online'' | CConnecting \<Rightarrow> ''connecting'' @ ellipsis | CDown \<Rightarrow> ''offline'' | _ \<Rightarrow> long_dash)"

definition BROKER_LABEL :: "broker_state \<Rightarrow> string" where
  "BROKER_LABEL state = (case state of
       BConnecting \<Rightarrow> ''Connecting to board'' @ ellipsis | BOpen \<Rightarrow> ''Board connected''
     | BClosed \<Rightarrow> ''Board disconnected'' | BError \<Rightarrow> ''Board error'')"

definition KEY_PROTECTION_LABEL :: "key_protection \<Rightarrow> string" where
  "KEY_PROTECTION_LABEL k = (case k of Hardware \<Rightarrow> ''Keys hardware-sealed'' | Cleartext \<Rightarrow> ''Keys not hardware-sealed'')"

subsection \<open>Messages\<close>

definition toFixed :: "nat \<Rightarrow> rat \<Rightarrow> string" where
  \<comment> \<open>of a number that is not negative\<close>
  "toFixed digits x =
     (let n = nat \<lfloor>x * 10 ^ digits + 1 / 2\<rfloor>; frac = show_nat (n mod 10 ^ digits)
      in show_nat (n div 10 ^ digits) @ ''.'' @ replicate (digits - length frac) (CHR ''0'') @ frac)"

definition formatBytes :: "rat \<Rightarrow> string" where
  "formatBytes n =
     (if n < 1024 then show_num n @ '' B''
      else if n < 1024 * 1024 then toFixed 1 (n / 1024) @ '' KB''
      else if n < 1024 * 1024 * 1024 then toFixed 1 (n / (1024 * 1024)) @ '' MB''
      else toFixed 2 (n / (1024 * 1024 * 1024)) @ '' GB'')"

definition isImageMime :: "string \<Rightarrow> bool" where
  "isImageMime mime = starts_with ''image/'' mime"

definition verifiedCaption :: "file_meta \<Rightarrow> string" where
  "verifiedCaption f = formatBytes (fm_size f) @ '' '' @ middle_dot @ '' complete '' @ middle_dot @ '' verified'' @
     (if fm_sha256 f = [] then [] else '' '' @ middle_dot @ '' sha256 '' @ take 8 (fm_sha256 f) @ ellipsis)"

definition deliveryGlyph :: "outbound_state \<Rightarrow> string \<times> string \<times> string" where
  "deliveryGlyph state = (case state of
       OQueued \<Rightarrow> ([CHR 0xF0, CHR 0x9F, CHR 0x95, CHR 0x93], ''queued'', ''Queued '' @ long_dash @ '' waiting for the contact to come online'')
     | OSending \<Rightarrow> ([CHR 0xE2, CHR 0x80, CHR 0xA2], ''sending'', ''Attempting delivery'' @ ellipsis)
     | ODelivered \<Rightarrow> ([CHR 0xE2, CHR 0x9C, CHR 0x93], ''delivered'', ''Delivered to their device (channel ACK)'')
     | OAcknowledged \<Rightarrow> ([CHR 0xE2, CHR 0x9C, CHR 0x93, CHR 0xE2, CHR 0x9C, CHR 0x93], ''acknowledged'', ''Acknowledged '' @ long_dash @ '' read by the app'')
     | OFailed \<Rightarrow> (''!'', ''failed'', ''Failed''))"

definition file_pct :: "file_meta \<Rightarrow> rat" where
  "file_pct f = (if fm_size f = 0 then 100 else min 100 (of_int (js_round (fm_transferred f / fm_size f * 100))))"

definition state_label :: "file_meta \<Rightarrow> string" where
  "state_label f = (case fm_state f of
       XOffered \<Rightarrow> ''offered'' | XTransferring \<Rightarrow> show_num (file_pct f) @ ''%'' | XComplete \<Rightarrow> ''complete '' @ middle_dot @ '' verified''
     | XFailed \<Rightarrow> ''failed'' | XIntegrityFailed \<Rightarrow> ''integrity check failed'')"

definition shows_preview :: "file_meta \<Rightarrow> bool" where
  \<comment> \<open>\<open>FileBody\<close>: a preview instead of the row\<close>
  "shows_preview f = (fm_state f = XComplete \<and> isImageMime (fm_mime f))"

definition offers_reveal :: "stored_message \<Rightarrow> file_meta \<Rightarrow> bool" where
  "offers_reveal m f = (fm_state f = XComplete \<and> sm_direction m = DIn \<and> or_default (fm_path f) [] \<noteq> [])"

record image_preview =
  ip_url :: "string option"
  ip_failed :: bool
  ip_open :: bool

definition preview_loaded :: "string option option \<Rightarrow> image_preview \<Rightarrow> image_preview" where
  \<comment> \<open>the answer of \<open>imageObjectUrl\<close>, or its failure\<close>
  "preview_loaded answer ip = (case answer of
       Some u \<Rightarrow> if or_default u [] \<noteq> [] then ip\<lparr>ip_url := u\<rparr> else ip\<lparr>ip_failed := True\<rparr>
     | None \<Rightarrow> ip\<lparr>ip_failed := True\<rparr>)"

subsection \<open>Dialogs\<close>

datatype modal = MIdentity | MAdd | MSettings | MMigration

record app_dialogs =
  ad_modal :: "modal option"
  ad_dismissed :: "string list"

definition activePrompt :: "app_dialogs \<Rightarrow> shell \<Rightarrow> pending_migration option" where
  "activePrompt ad sh = find (\<lambda>p. pn_contactKey p \<notin> set (ad_dismissed ad)) (sh_incoming sh)"

datatype shown_dialog = ShowModal modal | ShowPrompt pending_migration | ShowRequest contact_request | ShowNone

definition shown_dialog :: "app_dialogs \<Rightarrow> shell \<Rightarrow> shown_dialog" where
  "shown_dialog ad sh = (case ad_modal ad of
       Some m \<Rightarrow> ShowModal m
     | None \<Rightarrow> (case activePrompt ad sh of
         Some p \<Rightarrow> ShowPrompt p
       | None \<Rightarrow> (case sh_requests sh of r # rs \<Rightarrow> ShowRequest r | [] \<Rightarrow> ShowNone)))"

definition dismiss_prompt :: "string \<Rightarrow> app_dialogs \<Rightarrow> app_dialogs" where
  "dismiss_prompt key ad = ad\<lparr>ad_dismissed := set_add key (ad_dismissed ad)\<rparr>"

definition document_title :: "shell \<Rightarrow> string" where
  "document_title sh = (if 0 < totalUnread sh then ''('' @ show_nat (totalUnread sh) @ '') Orpal'' else ''Orpal'')"

definition prompt_accept :: "web_client_deps \<Rightarrow> client_env \<Rightarrow> pending_migration \<Rightarrow> app_dialogs \<Rightarrow> shell \<Rightarrow> app_dialogs \<times> shell" where
  "prompt_accept d e p ad sh = (dismiss_prompt (pn_contactKey p) ad, snd (shell_acceptMigration d e (pn_contactKey p) sh))"

definition prompt_decline :: "pending_migration \<Rightarrow> app_dialogs \<Rightarrow> shell \<Rightarrow> app_dialogs \<times> shell" where
  "prompt_decline p ad sh = (dismiss_prompt (pn_contactKey p) ad, shell_declineMigration (pn_contactKey p) sh)"

definition add_reason :: "string \<Rightarrow> string" where
  "add_reason reason = or_default (map_of
     [(''not-valid-json'', ''That doesn'' @ typographic_apostrophe @ ''t look like a contact card.''),
      (''not-an-orpal-contact-card'', ''That isn'' @ typographic_apostrophe @ ''t an Orpal contact card.''),
      (''missing-fields'', ''The card is missing required fields.''),
      (''bad-binding-signature'', ''The card'' @ typographic_apostrophe @ ''s key binding signature is invalid '' @ long_dash @ '' refusing to add it.''),
      (''binding-identity-mismatch'', ''The card'' @ typographic_apostrophe @ ''s binding doesn'' @ typographic_apostrophe @ ''t match its identity key.''),
      (''binding-transport-mismatch'', ''The card'' @ typographic_apostrophe @ ''s binding doesn'' @ typographic_apostrophe @ ''t match its transport key.''),
      (''that-is-your-own-card'', ''That'' @ typographic_apostrophe @ ''s your own card.'')] reason)
     (''Couldn'' @ typographic_apostrophe @ ''t add contact ('' @ reason @ '').'')"

definition name_or_none :: "string \<Rightarrow> string option" where
  "name_or_none name = (if trim name = [] then None else Some (trim name))"

definition add_submit :: "web_client_deps \<Rightarrow> client_env \<Rightarrow> string \<Rightarrow> string \<Rightarrow> bool \<Rightarrow> shell \<Rightarrow> string option \<times> shell" where
  \<comment> \<open>the text of the error; without one the dialog closes\<close>
  "add_submit d e cardText name relayOnly sh =
     (case addContact d e (trim cardText) (name_or_none name) (Some relayOnly) sh of (r, sh1) \<Rightarrow> (map_option add_reason r, sh1))"

definition request_accept :: "web_client_deps \<Rightarrow> client_env \<Rightarrow> contact_request \<Rightarrow> string \<Rightarrow> shell \<Rightarrow> string option \<times> shell" where
  "request_accept d e request name sh = shell_acceptRequest d e (rq_contactKey request) (name_or_none name) sh"

definition request_block :: "contact_request \<Rightarrow> shell \<Rightarrow> string option \<times> shell" where
  "request_block request sh = blockContact (rq_contactKey request) sh"

definition request_close :: "contact_request \<Rightarrow> shell \<Rightarrow> shell" where
  "request_close request sh = shell_dismissRequest (rq_contactKey request) sh"

subsection \<open>The migration wizard\<close>

datatype wizard_step = WConfirm | WChooseWindow | WNotifying | WProgress

record wizard =
  wz_step :: wizard_step
  wz_selectedHours :: nat
  wz_error :: "string option"

definition PRESETS :: "(string \<times> nat) list" where
  "PRESETS = [(''24 hours'', 24), (''7 days'', 7 * 24), (''30 days'', 30 * 24)]"

definition MigrationWizardModal :: "shell \<Rightarrow> wizard" where
  "MigrationWizardModal sh = \<lparr>wz_step = (if sh_progress sh = None then WConfirm else WProgress), wz_selectedHours = snd (PRESETS ! 1), wz_error = None\<rparr>"

definition wizard_start :: "(rat \<Rightarrow> string) \<Rightarrow> web_client_deps \<Rightarrow> client_env \<Rightarrow> rat \<Rightarrow> wizard \<Rightarrow> shell \<Rightarrow> wizard \<times> shell" where
  \<comment> \<open>with \<open>toISOString\<close> of a time\<close>
  "wizard_start toIso d e now wz sh =
     (let wz1 = wz\<lparr>wz_step := WNotifying, wz_error := None\<rparr>
      in case shell_startMigration d e (toIso (now + of_nat (wz_selectedHours wz) * 3600000)) sh of
           (None, sh1) \<Rightarrow> (wz1\<lparr>wz_step := WProgress\<rparr>, sh1)
         | (Some err, sh1) \<Rightarrow> (wz1\<lparr>wz_error := Some err, wz_step := WChooseWindow\<rparr>, sh1))"

definition wizard_retire :: "web_client_deps \<Rightarrow> wizard \<Rightarrow> shell \<Rightarrow> bool \<times> wizard \<times> shell" where
  \<comment> \<open>and whether the dialog closes\<close>
  "wizard_retire d wz sh = (case shell_retireMigration d sh of
       (None, sh1) \<Rightarrow> (True, wz, sh1)
     | (Some err, sh1) \<Rightarrow> (False, wz\<lparr>wz_error := Some err\<rparr>, sh1))"

definition acked_pct :: "nat \<Rightarrow> nat \<Rightarrow> int" where
  "acked_pct acked contacts = (if 0 < contacts then js_round (of_nat acked / of_nat contacts * 100) else 0)"

subsection \<open>Cameras\<close>

definition camera_index :: "string option \<Rightarrow> string list \<Rightarrow> nat option" where
  \<comment> \<open>\<open>findIndex\<close>, with \<open>None\<close> for -1\<close>
  "camera_index current cameras = (case current of None \<Rightarrow> None | Some i \<Rightarrow> index_of i cameras)"

definition switchCamera :: "string list \<Rightarrow> string option \<Rightarrow> string option \<Rightarrow> string option" where
  \<comment> \<open>the ids of the cameras, the chosen one, and the one the browser resolved to\<close>
  "switchCamera cameras deviceId resolved =
     (if length cameras < 2 then deviceId
      else Some (cameras ! (case camera_index (if deviceId = None then resolved else deviceId) cameras of
          None \<Rightarrow> 0 | Some i \<Rightarrow> (i + 1) mod length cameras)))"

subsection \<open>Facts\<close>

lemma phrase_stays:
  assumes "map lower (trim (co_draft co)) = PORTAL_PHRASE \<or> map lower (trim (co_draft co)) = ORBITAL_PHRASE"
  shows "snd (onSend d e co sh) = sh \<and> co_draft (fst (onSend d e co sh)) = []"
  using assms by (auto simp: onSend_def Let_def PORTAL_PHRASE_def ORBITAL_PHRASE_def)

lemma pct_bounds:
  assumes "0 \<le> fm_transferred f" "0 \<le> fm_size f"
  shows "0 \<le> file_pct f" "file_pct f \<le> 100"
proof -
  have "(0 :: rat) \<le> fm_transferred f / fm_size f * 100" using assms by simp
  then have "0 \<le> js_round (fm_transferred f / fm_size f * 100)" by (simp add: js_round_def)
  then show "0 \<le> file_pct f" by (simp add: file_pct_def)
  show "file_pct f \<le> 100" by (simp add: file_pct_def)
qed

text \<open>A file whose hash did not match is never captioned as verified, nor previewed.\<close>

lemma unverified_not_shown: "fm_state f = XIntegrityFailed \<Longrightarrow> \<not> shows_preview f \<and> \<not> offers_reveal m f"
  by (simp add: shows_preview_def offers_reveal_def)

text \<open>A prompt that was answered does not come back, and a request is shown only when nothing else is.\<close>

lemma answered_prompt_gone:
  assumes "prompt_decline p ad sh = (ad1, sh1) \<or> prompt_accept d e p ad sh = (ad1, sh1)" "activePrompt ad1 sh2 = Some q"
  shows "pn_contactKey q \<noteq> pn_contactKey p"
proof -
  have "ad_dismissed ad1 = set_add (pn_contactKey p) (ad_dismissed ad)"
    using assms(1) by (auto simp: prompt_decline_def prompt_accept_def dismiss_prompt_def)
  moreover have "pn_contactKey q \<notin> set (ad_dismissed ad1)"
    using find_Some_mem [OF assms(2) [unfolded activePrompt_def]] by blast
  ultimately show ?thesis by auto
qed

lemma request_shown_last: "shown_dialog ad sh = ShowRequest r \<Longrightarrow> ad_modal ad = None \<and> activePrompt ad sh = None \<and> r \<in> set (sh_requests sh)"
  by (auto simp: shown_dialog_def split: option.splits list.splits)

text \<open>Switching goes through all the cameras and comes back.\<close>

fun switched :: "nat \<Rightarrow> string list \<Rightarrow> string option \<Rightarrow> string option" where
  "switched 0 cameras i = i"
| "switched (Suc n) cameras i = switchCamera cameras (switched n cameras i) None"

lemma index_of_nth: "distinct xs \<Longrightarrow> i < length xs \<Longrightarrow> index_of (xs ! i) xs = Some i"
proof -
  assume d: "distinct xs" "i < length xs"
  have "takeWhile (\<lambda>y. y \<noteq> xs ! i) xs = take i xs"
    using d by (intro takeWhile_eq_take_P_nth) (auto simp: nth_eq_iff_index_eq)
  then show ?thesis using d by (simp add: index_of_def)
qed

lemma cameras_cycle:
  assumes "distinct cameras" "2 \<le> length cameras" "i < length cameras"
  shows "switched n cameras (Some (cameras ! i)) = Some (cameras ! ((i + n) mod length cameras))"
proof (induction n)
  case (Suc n)
  have "(i + n) mod length cameras < length cameras" using assms(2) by (intro mod_less_divisor) linarith
  then have "camera_index (Some (cameras ! ((i + n) mod length cameras))) cameras = Some ((i + n) mod length cameras)"
    using index_of_nth [OF assms(1)] by (simp add: camera_index_def)
  then show ?case using Suc assms(2) by (simp add: switchCamera_def mod_Suc_eq)
qed (use assms in simp)

lemma every_camera_reached:
  assumes "distinct cameras" "2 \<le> length cameras" "i < length cameras" "j < length cameras"
  shows "\<exists>n < length cameras. switched n cameras (Some (cameras ! i)) = Some (cameras ! j)"
proof -
  let ?n = "(j + (length cameras - i)) mod length cameras"
  have "(i + ?n) mod length cameras = (i + (j + (length cameras - i))) mod length cameras" by (simp add: mod_add_right_eq)
  also have "\<dots> = j" using assms(3,4) by simp
  finally have "switched ?n cameras (Some (cameras ! i)) = Some (cameras ! j)" using cameras_cycle [OF assms(1-3), of ?n] by simp
  moreover have "?n < length cameras" by (rule mod_less_divisor) (use assms(2) in linarith)
  ultimately show ?thesis by blast
qed

end
