(* ===== verification/Spec2Isabelle.thy ===== *)
theory Spec2Isabelle
  imports Instances DeliveryLayer MigrationCore Sealed DeliveryWorker ContactExport ConversationStore
    Connections WebFiles WebStores WebMigration BrowserClient BrowserBackup IceConfig Broker
    WebPlatform BrowserRtc MockRtc SettingsDialog SignalMeter Components
begin

text \<open>
  A verification development for Orpal, a serverless messenger: devices find each other through relay boards
  that are not trusted, agree on keys that only their identities can certify, and exchange messages and
  files over an encrypted peer-to-peer channel. The TypeScript sources are under \<open>src/\<close>; a theory names
  the files it models in its first block, and its definitions carry the names of the source's functions
  (with a short prefix per class: \<open>rc_\<close> for \<open>ReliableChannel\<close>, \<open>ms_\<close> for \<open>MatchSession\<close>, and so on).

  \<^bold>\<open>The protocol library\<close> (\<open>src/orp-ref/\<close>).
  \<^item> \<open>Json\<close>, \<open>Encoding\<close>: JSON values, \<open>JSON.parse\<close> and \<open>JSON.stringify\<close> with their round trip; base64url, UTF-8
    and the canonical bytes that are signed (\<open>core/encoding.ts\<close>, \<open>core/canonical.ts\<close>).
  \<^item> \<open>Identity\<close>, \<open>SealedBox\<close>: identities, detached and embedded signatures, key bindings; sealed boxes, the
    one-time acknowledgement keys, the secure channel (\<open>core/identity.ts\<close>, \<open>core/sign.ts\<close>, \<open>core/sealedbox.ts\<close>,
    \<open>core/messagelayer.ts\<close>, \<open>client/securechannel.ts\<close>). The primitives are the fields of the argument \<open>C\<close>.
  \<^item> \<open>Schemas\<close>, \<open>Wire\<close>, \<open>Ice\<close>: the schema validator, the signed records of the board protocol, the filter and
    the gate for network candidates (\<open>core/schemas.ts\<close>, \<open>core/wire.ts\<close>, \<open>core/ice.ts\<close>).
  \<^item> \<open>Clock\<close>, \<open>DeliveryLayer\<close>, \<open>Session\<close>: timers, acknowledged delivery, and the client with its match sessions
    as a step relation over everything a board may relay (\<open>core/clock.ts\<close>, \<open>core/deliverylayer.ts\<close>,
    \<open>client/reliablechannel.ts\<close>, \<open>client/client.ts\<close>).
  \<^item> \<open>MockRtc\<close>: the in-memory transport, with candidates for the filter (\<open>client/webrtc.ts\<close>).
  \<^item> \<open>MigrationCore\<close>: key migration records, their verification, and the registry that follows chains of them
    (\<open>core/migration.ts\<close>).

  \<^bold>\<open>The application core\<close> (\<open>src/packages/orpal-core/src/\<close>).
  \<^item> \<open>Frames\<close>, \<open>Sealed\<close>: the application's frames and their end-to-end sealing (\<open>messaging/frames.ts\<close>, \<open>messaging/sealed.ts\<close>).
  \<^item> \<open>PendingQueue\<close>, \<open>DeliveryWorker\<close>: the durable send queue and the worker that retries until a message is
    acknowledged; a call suspended at an \<open>await\<close> is a thread of the worker's state, and any thread may go on
    at any time (\<open>messaging/pending-queue.ts\<close>, \<open>messaging/delivery-worker.ts\<close>).
  \<^item> \<open>Contacts\<close>, \<open>ContactExport\<close>, \<open>ConversationStore\<close>: contact cards, export and import, history, the registry of
    routing facts (\<open>contacts/\<close>, \<open>persistence/conversation-store.ts\<close>, \<open>messaging/contact-registry.ts\<close>).
  \<^item> \<open>Connections\<close>: the event emitter and the connection manager (\<open>util/events.ts\<close>, \<open>messaging/connection-manager.ts\<close>).
  \<^item> \<open>FileTransfer\<close>: the sender's pool of workers and the receiver, again with suspended calls as threads
    (\<open>transfer/file-transfer.ts\<close>).
  \<^item> \<open>KeyStore\<close>: the key stores and the life cycle of the identity (\<open>identity/\<close>).
  \<^item> \<open>MigrationManager\<close>: the life of a migration on both sides, with its three stores behind the locale
    \<open>migration_stores\<close>, and the challenges that let a contact accept without asking
    (\<open>messaging/migration-manager.ts\<close>).
  \<^item> \<open>OrpalClient\<close>: the client over any stores (\<open>messaging/orpal-client.ts\<close>); \<open>ClientSafety\<close> and
    \<open>ClientInvariant\<close>: its steps, and the invariant of every reachable client, proved in the locale
    \<open>client_stores\<close>; \<open>ClientDelivery\<close>: a text on its way between two clients.
  \<^item> \<open>BrowserRtc\<close>: the endpoint over the browser's peer connection (\<open>rtc/browser-webrtc.ts\<close>).
  \<^item> \<open>Broker\<close>: the connection to a board, its waiting messages and its reconnects (\<open>broker/browser-broker.ts\<close>).
  \<^item> \<open>DeviceBackup\<close>, \<open>ClientBackup\<close>, \<open>BackupRestore\<close>: a device under a password, its export and restore, and
    what a restore brings back (\<open>backup/device-backup.ts\<close>, \<open>messaging/orpal-client.ts\<close>).
  \<^bold>\<open>The browser shell\<close> (\<open>src/apps/web/src/orpal/\<close>, where nothing else is said).
  \<^item> \<open>Idb\<close>, \<open>WebStores\<close>, \<open>WebFiles\<close>: IndexedDB and, over it, the stores and file sinks the core asks for
    (\<open>idb.ts\<close>, \<open>browser-bridge.ts\<close>, \<open>bridge-stores.ts\<close>).
  \<^item> \<open>WebMigration\<close>: the stores of a migration in the browser, the interpretation of \<open>migration_stores\<close>, and
    a whole migration over them (\<open>bridge-stores.ts\<close>, \<open>setup.ts\<close>).
  \<^item> \<open>BrowserClient\<close>: the client over the browser's stores, the interpretation of \<open>client_stores\<close>, and two
    concrete clients that are connected (\<open>setup.ts\<close>); \<open>BrowserBackup\<close>: a backup from one browser to another.
  \<^item> \<open>TurnCredentials\<close>, \<open>IceConfig\<close>: the secrets of TURN servers kept apart from the settings, and the settings'
    form, text editor and test (\<open>turn-credentials.ts\<close>, \<open>ice-config.ts\<close>).
  \<^item> \<open>WebAuthn\<close>: the key provider over the platform's authenticator (\<open>webauthn-keystore.ts\<close>); \<open>WebPlatform\<close>: the
    registration for push and the skins (\<open>push.ts\<close>, \<open>skins.ts\<close>).
  \<^item> \<open>AppLaunch\<close>: the start of the app, which wires all of this together (\<open>setup.ts\<close>); \<open>AppShell\<close>: the state behind
    the user interface and every operation it offers (\<open>src/apps/web/src/state/orpal-context.tsx\<close>); \<open>AppViews\<close>: its
    steps, the invariant of every reachable state, and what a restart brings back.
  \<^item> \<open>SettingsDialog\<close>, \<open>SignalMeter\<close>, \<open>Components\<close>: the handlers and the logic of the components
    (\<open>src/apps/web/src/components/\<close>).
  \<^bold>\<open>Interfaces.\<close> Where the core depends on an interface, its contract is a locale, what the core does with it
  is proved in the locale, and every implementation is an interpretation: \<open>pending_queue_store\<close> and
  \<open>conversation_store\<close> (in memory and over IndexedDB), \<open>secure_key_store\<close> (in memory; and over any \<open>key_slot\<close>
  with secure hardware, the slots being those of IndexedDB), \<open>file_sink\<close> (in memory and the browser's),
  \<open>migration_stores\<close> (the browser's), and \<open>client_stores\<close>, which joins the two stores of the client (in
  memory and over IndexedDB).

  \<^bold>\<open>How the model represents the program.\<close> \<open>Prelude\<close> fixes strings (their UTF-8 bytes), numbers (rationals off
  the wire, naturals for counters), Maps and Sets (lists in insertion order). Time, randomness and the
  answers of the browser are arguments of the operations that ask for them. A thrown error or rejected
  promise is \<open>None\<close> or the left of a sum. A handler runs to completion, except where the source awaits in
  between and the order matters: the delivery worker, the file receiver, the sender's pool, the connection
  attempts, and the calls of the client that wait for one (they are suspended in its state; the chains of
  store updates per message that the source needs are then in order by construction). Recursion is structural or has a measure; the only fuel is the JSON parser's, twice the length
  of its text plus two, and \<open>json_parse_str\<close> shows that this is enough for every value that was printed.

  \<^bold>\<open>What the lemmas show.\<close> Invariants of every reachable state (sessions, connections, worker, sender's
  pool, registry of migrations, and the whole client: what it sends is sealed to certified keys, blocked
  peers stay out, the registry mirrors the store), the functional behaviour of whole exchanges (handshake, acknowledged
  message, file transfer, a text from one client to another), round trips of every format, agreement with reference definitions (validator,
  metrics, pages of history), bounds, and the theorems that pin down where the code departs from its
  intention. Hypotheses on the primitives (\<open>ed_ok\<close>, \<open>ed_only_signed\<close>, \<open>dh_ok\<close>, \<open>aead_ok\<close>, \<open>aead_keyed\<close>, \<open>hkdf_salted\<close>)
  are named where they are used, and \<open>Instances\<close> has concrete functions that satisfy them.

  \<^bold>\<open>Not modelled.\<close> What the components of the user interface render, their busy flags, and the ones that only
  show something (\<open>IdentityModal.tsx\<close>, the overlays, the mascot, the camera stream of \<open>QrScanner.tsx\<close>). The dialog that picks a file, the clipboard and the reveal operation of the
  bridge: the browser's answers are arguments. The primitives, WebRTC, WebAuthn, IndexedDB transactions and
  sockets themselves: parameters, with what the code relies on as named hypotheses. Packaging, type
  declarations and re-exports. The indentation of \<open>JSON.stringify\<close> is left out: it never reaches a parser that
  could tell. A handler of the match session takes the endpoint's answers as arguments; \<open>BrowserRtc\<close> is the
  endpoint by itself.
\<close>

section \<open>Meeting a peer\<close>

text \<open>
  C1: whatever a board relays, in whatever order, the transport key a session holds for its
  counterparty is the counterparty's own, provided the counterparty signed nothing but its binding and
  protocol records.
\<close>

theorem peer_key_authentic:
  assumes "(ms_step C)\<^sup>*\<^sup>* (MatchSession me r mid (identityKeyB64 peer)) s" "ms_peerTransportPub s = Some p"
    and "signs_only C peer R" "identity_ok C peer" "identityKeyB64 peer \<noteq> []"
  shows "p = transportPub peer"
proof -
  have "ms_inv C s \<and> ms_counterpartyKey s = identityKeyB64 peer" by (rule ms_inv_reachable [OF assms(1,5)])
  then have "certified C (identityKeyB64 peer) p" using assms(2) by (auto simp: ms_inv_def)
  then show ?thesis by (rule certified_authentic [OF assms(3) _ assms(4)])
qed

theorem peer_key_authentic_witness:
  "(ms_step bob_signed)\<^sup>*\<^sup>* (MatchSession alice Responder ''m'' (identityKeyB64 bob)) after_key
   \<and> (\<exists>p. ms_peerTransportPub after_key = Some p \<and> p = transportPub bob)"
proof (intro conjI exI)
  show r: "(ms_step bob_signed)\<^sup>*\<^sup>* (MatchSession alice Responder ''m'' (identityKeyB64 bob)) after_key"
    unfolding after_key_def by (intro r_into_rtranclp Relay)
  show "ms_peerTransportPub after_key = Some (transportPub bob)" by (rule after_key_peer)
  show "transportPub bob = transportPub bob"
    by (rule peer_key_authentic [OF r after_key_peer bob_signs_only]) (simp_all add: bob_signed_def keys_distinct)
qed



text \<open>
  C6: every offer and answer a session ever sends passed the gate against raw host addresses and is
  sealed to the counterparty's certified key; no session sends a second offer.
\<close>

theorem signaling_gated:
  assumes "(ms_step C)\<^sup>*\<^sup>* (MatchSession i r mid k) s" "k \<noteq> []"
  shows "(\<forall>(kind, blob)\<in>set (ms_relayed s). kind \<noteq> FKey \<longrightarrow>
      (\<exists>p. ms_peerTransportPub s = Some p \<and> certified C k p \<and> gated C p blob)) \<and> offers s \<le> 1"
  using ms_inv_reachable [OF assms] unfolding ms_inv_def by fast

theorem signaling_gated_witness:
  "list_all (\<lambda>(kind, blob). kind = FKey \<or> (\<exists>p. ms_peerTransportPub hs_a1 = Some p \<and> gated open_crypto p blob)) (ms_relayed hs_a1)
   \<and> offers hs_a1 \<le> 1"
proof -
  have "ms_step open_crypto (MatchSession alice Initiator ''m'' (identityKeyB64 bob)) hs_a0" "ms_step open_crypto hs_a0 hs_a1"
    unfolding hs_a0_def hs_a1_def by (rule ms_step.Start, rule ms_step.Relay)
  then have "(ms_step open_crypto)\<^sup>*\<^sup>* (MatchSession alice Initiator ''m'' (identityKeyB64 bob)) hs_a1" by simp
  from signaling_gated [OF this keys_distinct(4)] show ?thesis by (fastforce simp: list_all_iff)
qed

text \<open>
  C11: no board steers an initiator to a key it did not ask for: the counterparty of every session in
  which the client is the initiator is one it sent an intent for.
\<close>

theorem no_redirection:
  assumes "(cl_step C)\<^sup>*\<^sup>* (Client i scope tok now) c" "jget (cl_sessions c) mid = Some s" "ms_role s = Initiator"
  shows "ms_counterpartyKey s \<in> set (cl_pendingTargets c)"
  using cl_inv_reachable [OF assms(1)] assms(2,3) by (auto simp: cl_inv_def)

definition board_run :: client where
  "board_run = onBoardMessage open_crypto (env_of 2) (OutMatch ''m'' Initiator (identityKeyB64 bob))
     (sendIntent open_crypto (env_of 1) (identityKeyB64 bob) (Client alice None None None))"

theorem no_redirection_witness: "\<exists>s. jget (cl_sessions board_run) ''m'' = Some s
    \<and> ms_counterpartyKey s \<in> set (cl_pendingTargets board_run)"
proof -
  let ?s = "start open_crypto (env_of 2) (MatchSession alice Initiator ''m'' (identityKeyB64 bob))"
  have "cl_step open_crypto (Client alice None None None) (sendIntent open_crypto (env_of 1) (identityKeyB64 bob) (Client alice None None None))"
    "cl_step open_crypto (sendIntent open_crypto (env_of 1) (identityKeyB64 bob) (Client alice None None None)) board_run"
    unfolding board_run_def by (rule cl_step.intros)+
  then have r: "(cl_step open_crypto)\<^sup>*\<^sup>* (Client alice None None None) board_run" by simp
  have g: "jget (cl_sessions board_run) ''m'' = Some ?s"
    by (simp add: board_run_def onBoardMessage_def sendIntent_def Client_def put_session_def Let_def)
  have "ms_role ?s = Initiator" by (simp add: MatchSession_def)
  with no_redirection [OF r g] g show ?thesis by blast
qed

section \<open>Delivering messages\<close>

text \<open>
  C4: the delivery worker never forgets a message. After any sequence of calls, timer events and
  interleaved store reads, as long as the worker runs, every queued message has a timer or a suspended
  call that will attempt it.
\<close>

theorem worker_forgets_nothing:
  assumes "mem_pending_ok s0" "w = dw_run InMemoryPendingQueueStore b evs (DeliveryWorker s0)"
    and "dw_running w" "ps_get InMemoryPendingQueueStore i (dw_store w) \<noteq> None"
  shows "jhas (dw_timers w) i \<or> (\<exists>t\<in>set (dw_threads w). covers i t)"
proof -
  have "mem_pending.dw_inv w"
    unfolding assms(2) by (rule mem_pending.dw_inv_run [OF mem_pending.dw_inv_init [OF assms(1)]])
  then show ?thesis using assms(3,4) by (simp add: mem_pending.dw_inv_def mem_pending.queued_def cov_def)
qed

definition a_message :: "string \<Rightarrow> pending_message" where
  "a_message i = \<lparr>pm_recipientId = ''bob'', pm_recipientTransportKey = ''key'', pm_messageId = i, pm_timestamp = 1,
     pm_attemptCount = 0, pm_lastAttemptAt = None, pm_payload = PendingText ''hello''\<rparr>"

definition an_env :: env where
  "an_env = \<lparr>ev_dispatched = True, ev_now = 5, ev_random = 1 / 2\<rparr>"

definition queue_run :: "mem_pending worker" where
  \<comment> \<open>start, enqueue, the first attempt and its backoff\<close>
  "queue_run = dw_run InMemoryPendingQueueStore DEFAULT_BACKOFF
     [EvStart, EvEnqueue (a_message ''m1''), EvGo 1 an_env, EvRead 1, EvGo 1 an_env, EvGo 1 an_env, EvRead 1, EvGo 1 an_env,
      EvGo 1 an_env] (DeliveryWorker [])"

lemmas queue_run_simps = queue_run_def dw_run_def dw_step_def dw_start_def dw_enqueue_def spawn_def DeliveryWorker_def
  drop_at_def thread_read_def thread_go_def runAttempt_def emitMetrics_def scheduleBackoff_def cancelTimer_def
  mem_pending_defs a_message_def set_add_def set_del_def an_env_def apply_patch_def Let_def jvals_def

lemma queue_run_state: "dw_running queue_run" "jget (dw_store queue_run) ''m1'' = Some ((a_message ''m1'')
    \<lparr>pm_attemptCount := 1, pm_lastAttemptAt := Some 5\<rparr>)"
  by (simp_all add: queue_run_simps)

theorem worker_forgets_nothing_witness:
  "jhas (dw_timers queue_run) ''m1'' \<or> (\<exists>t\<in>set (dw_threads queue_run). covers ''m1'' t)"
  by (rule worker_forgets_nothing [OF _ queue_run_def queue_run_state(1)])
     (simp_all add: queue_run_state InMemoryPendingQueueStore_def mem_get_def mem_pending_ok_def)

text \<open>
  C5: only an acknowledgement removes a message from the queue: whatever else happens, a queued message
  stays queued, through failures and restarts.
\<close>

theorem only_ack_removes:
  assumes "mem_pending_ok s0" "w = dw_run InMemoryPendingQueueStore b evs (DeliveryWorker s0)"
    and "ps_get InMemoryPendingQueueStore i (dw_store w) \<noteq> None"
    and "ps_get InMemoryPendingQueueStore i (dw_store (dw_step InMemoryPendingQueueStore b w ev)) = None"
  shows "\<exists>n e m. ev = EvGo n e \<and> n < length (dw_threads w) \<and> dw_threads w ! n = TAcked i (Some m)"
proof (rule ccontr)
  assume no: "\<not> ?thesis"
  have "mem_pending.dw_inv w"
    unfolding assms(2) by (rule mem_pending.dw_inv_run [OF mem_pending.dw_inv_init [OF assms(1)]])
  then have "mem_pending_ok (dw_store w)" by (simp add: mem_pending.dw_inv_def)
  then have "mem_pending.queued (dw_step InMemoryPendingQueueStore b w ev) i"
    by (rule mem_pending.step_queued) (use assms(3) no in \<open>auto simp: mem_pending.queued_def\<close>)
  with assms(4) show False by (simp add: mem_pending.queued_def)
qed

definition ack_events :: "wevent list" where
  "ack_events = [EvEnqueue (a_message ''m1''), EvAcknowledge ''m1'', EvRead 1]"

theorem only_ack_removes_witness:
  "\<exists>n e m. EvGo 1 an_env = EvGo n e
     \<and> dw_threads (dw_run InMemoryPendingQueueStore DEFAULT_BACKOFF ack_events (DeliveryWorker [])) ! n = TAcked ''m1'' (Some m)"
proof -
  let ?w = "dw_run InMemoryPendingQueueStore DEFAULT_BACKOFF ack_events (DeliveryWorker [])"
  have "ps_get InMemoryPendingQueueStore ''m1'' (dw_store ?w) \<noteq> None"
    "ps_get InMemoryPendingQueueStore ''m1'' (dw_store (dw_step InMemoryPendingQueueStore DEFAULT_BACKOFF ?w (EvGo 1 an_env))) = None"
    by (simp_all add: ack_events_def queue_run_simps dw_acknowledge_def)
  from only_ack_removes [OF _ refl this] show ?thesis by (auto simp: mem_pending_ok_def)
qed

text \<open>
  The worker only ever sends what was enqueued: same recipient, same sealing key, same payload;
  retries change the attempt count and the time of the last attempt only.
\<close>

theorem worker_sends_enqueued:
  assumes "mem_pending_ok s0" "w = dw_run InMemoryPendingQueueStore b evs (DeliveryWorker s0)" "m \<in> set (dw_sends w)"
  shows "\<exists>a. (ps_get InMemoryPendingQueueStore (pm_messageId a) s0 = Some a \<or> a \<in> set (dw_enqueued w)) \<and> same_content a m"
proof -
  have "mem_pending.dw_content s0 w"
    unfolding assms(2) by (rule mem_pending.dw_content_run [OF mem_pending.dw_content_init [OF assms(1)]])
  then show ?thesis using assms(3) by (auto simp: mem_pending.dw_content_def Let_def)
qed

theorem worker_sends_enqueued_witness:
  "\<exists>a. (ps_get InMemoryPendingQueueStore (pm_messageId a) [] = Some a \<or> a \<in> set (dw_enqueued queue_run))
     \<and> same_content a (a_message ''m1'')"
  by (rule worker_sends_enqueued [OF _ queue_run_def]) (simp_all add: queue_run_simps mem_pending_ok_def)

text \<open>
  The guard against concurrent attempts does not hold: two attempts started before the first
  store read answers both pass the in-flight check, and the message is sent twice.
\<close>

theorem double_attempt:
  "\<exists>evs. dw_sends (dw_run InMemoryPendingQueueStore DEFAULT_BACKOFF evs (DeliveryWorker [])) = [a_message ''m1'', a_message ''m1'']
     \<and> length (filter (\<lambda>ev. case ev of EvEnqueue _ \<Rightarrow> True | _ \<Rightarrow> False) evs) = 1
     \<and> list_all (\<lambda>ev. case ev of EvTimer _ \<Rightarrow> False | _ \<Rightarrow> True) evs"
proof (intro exI conjI)
  let ?evs = "[EvStart, EvEnqueue (a_message ''m1''), EvGo 1 an_env, EvFlush None, EvRead 2, EvGo 2 an_env, EvRead 1, EvRead 2,
    EvGo 1 an_env, EvGo 1 an_env]"
  show "dw_sends (dw_run InMemoryPendingQueueStore DEFAULT_BACKOFF ?evs (DeliveryWorker [])) = [a_message ''m1'', a_message ''m1'']"
    by (simp add: queue_run_simps dw_flush_def)
  show "length (filter (\<lambda>ev. case ev of EvEnqueue _ \<Rightarrow> True | _ \<Rightarrow> False) ?evs) = 1" by simp
  show "list_all (\<lambda>ev. case ev of EvTimer _ \<Rightarrow> False | _ \<Rightarrow> True) ?evs" by simp
qed


definition a_channel :: secure_channel where
  "a_channel = \<lparr>sc_sendKey = [1], sc_recvKey = [2]\<rparr>"

definition a_random :: rc_random where
  "a_random = \<lparr>rr_id = [7], rr_ackPriv = [8], rr_nonce = [9], rr_eph = [10]\<rparr>"

definition sent_world :: rc_world where
  "sent_world = rc_send open_crypto a_random ''hello'' (FakeClock, ReliableChannel a_channel None)"

lemma sent_world_pending: "\<exists>e. jget (rc_pending (snd sent_world)) (newMessageId [7]) = Some e"
  "fc_clock (fst sent_world) = 0" "rc_ackTimeoutMs (snd sent_world) = 30000" "pe_sentAt (the (jget (rc_pending (snd sent_world)) (newMessageId [7]))) = 0"
  by (simp_all add: sent_world_def rc_send_def a_random_def FakeClock_def ReliableChannel_def setTimer_def Let_def chan_send_def)

lemma sent_world_reach: "(rc_step open_crypto)\<^sup>*\<^sup>* (FakeClock, ReliableChannel a_channel None) (fst sent_world, snd sent_world)"
  unfolding sent_world_def prod.collapse
  by (intro r_into_rtranclp rc_step.Send) (simp_all add: ReliableChannel_def)


text \<open>
  C9: moving the clock never fails, and at every reachable state it expires exactly the messages whose
  timeout has passed by then, keeping the others as they were.
\<close>

theorem channel_expiry_exact:
  assumes "(rc_step C)\<^sup>*\<^sup>* (FakeClock, ReliableChannel ch t) (c, s)"
  shows "\<exists>c' s'. rc_advance ms (c, s) = Some (c', s') \<and> fc_clock c' = fc_clock c + ms
    \<and> (\<forall>m e. jget (rc_pending s) m = Some e \<longrightarrow>
         (if pe_sentAt e + rc_ackTimeoutMs s \<le> fc_clock c + ms
          then \<not> jhas (rc_pending s') m \<and> jget (rc_settled s') m = Some DeliveryTimeout
          else jget (rc_pending s') m = Some e))"
  using rc_advance_spec [OF rc_inv_reachable [OF assms], of ms] unfolding rc_expired_def by blast

theorem channel_expiry_exact_witness:
  "\<exists>c' s'. rc_advance 29999 sent_world = Some (c', s') \<and> jhas (rc_pending s') (newMessageId [7])"
proof -
  obtain e where e: "jget (rc_pending (snd sent_world)) (newMessageId [7]) = Some e" using sent_world_pending(1) by blast
  then have "pe_sentAt e = 0" using sent_world_pending(4) by simp
  with channel_expiry_exact [OF sent_world_reach, of 29999] sent_world_pending(2,3) e show ?thesis
    by (force simp: jhas_def)
qed

text \<open>
  C10: over one secure channel a sent message is delivered and its acknowledgement settles it: the
  peer's callback gets the body, and the sender's promise resolves when the acknowledgement comes back.
\<close>

theorem channel_round_trip:
  assumes "dh_ok C" "aead_ok C" "x_pub C a \<noteq> x_pub C b"
    and "SecureChannel C a (x_pub C a) (x_pub C b) = Some (rc_channel sa)"
    and "SecureChannel C b (x_pub C b) (x_pub C a) = Some (rc_channel sb)"
    and "length (rr_nonce r) = 24" "length (rr_nonce r') = 24" and "rc_hasCb sb"
    and "\<not> jhas (rc_settled sa) (newMessageId (rr_id r))"
  shows "\<exists>text sealed.
      sc_receive C (rc_channel sb) (last (rc_wire (snd (rc_send C r body (ca, sa))))) = Some text
    \<and> rc_delivered (snd (rc_onRawMessage C r' now text (cb', sb))) = rc_delivered sb @ [body]
    \<and> sc_receive C (rc_channel sa) (last (rc_wire (snd (rc_onRawMessage C r' now text (cb', sb))))) = Some sealed
    \<and> \<not> jhas (rc_pending (snd (rc_onRawMessage C r'' now' sealed (rc_send C r body (ca, sa))))) (newMessageId (rr_id r))
    \<and> jget (rc_settled (snd (rc_onRawMessage C r'' now' sealed (rc_send C r body (ca, sa))))) (newMessageId (rr_id r))
        = Some DeliveryLayer.Resolved"
  using rc_round_trip [OF assms] by blast

definition fresh_random :: rc_random where
  "fresh_random = \<lparr>rr_id = [7], rr_ackPriv = [8], rr_nonce = replicate 24 9, rr_eph = [10]\<rparr>"

lemma open_channels:
  "\<exists>cha. SecureChannel open_crypto [1] (x_pub open_crypto [1]) (x_pub open_crypto [2]) = Some cha"
  "\<exists>chb. SecureChannel open_crypto [2] (x_pub open_crypto [2]) (x_pub open_crypto [1]) = Some chb"
  by (simp_all add: SecureChannel_def deriveDirectionalKeys_def open_crypto_def Let_def)

lemma open_keys: "x_pub open_crypto [1] \<noteq> x_pub open_crypto [2]"
  by (simp add: open_crypto_def pad32_def numeral_eq_Suc)

theorem channel_round_trip_witness:
  "\<exists>cha chb text. SecureChannel open_crypto [1] (x_pub open_crypto [1]) (x_pub open_crypto [2]) = Some cha
    \<and> SecureChannel open_crypto [2] (x_pub open_crypto [2]) (x_pub open_crypto [1]) = Some chb
    \<and> sc_receive open_crypto chb (last (rc_wire (snd (rc_send open_crypto fresh_random ''hello''
          (FakeClock, ReliableChannel cha None))))) = Some text
    \<and> rc_delivered (snd (rc_onRawMessage open_crypto fresh_random ''now'' text
          (FakeClock, rc_onMessage (ReliableChannel chb None)))) = [''hello'']"
proof -
  obtain cha chb where ch: "SecureChannel open_crypto [1] (x_pub open_crypto [1]) (x_pub open_crypto [2]) = Some cha"
    "SecureChannel open_crypto [2] (x_pub open_crypto [2]) (x_pub open_crypto [1]) = Some chb" using open_channels by blast
  have sel: "rc_channel (ReliableChannel cha None) = cha" "rc_channel (rc_onMessage (ReliableChannel chb None)) = chb"
    "rc_hasCb (rc_onMessage (ReliableChannel chb None))" "rc_delivered (rc_onMessage (ReliableChannel chb None)) = []"
    "\<not> jhas (rc_settled (ReliableChannel cha None)) (newMessageId (rr_id fresh_random))"
    by (simp_all add: ReliableChannel_def rc_onMessage_def)
  have n: "length (rr_nonce fresh_random) = 24" by (simp add: fresh_random_def)
  have ch': "SecureChannel open_crypto [1] (x_pub open_crypto [1]) (x_pub open_crypto [2]) = Some (rc_channel (ReliableChannel cha None))"
    "SecureChannel open_crypto [2] (x_pub open_crypto [2]) (x_pub open_crypto [1])
      = Some (rc_channel (rc_onMessage (ReliableChannel chb None)))" using ch by (simp_all only: sel)
  note rt = channel_round_trip [OF open_crypto_ok(3,4) open_keys ch' n n sel(3,5),
      of "''hello''" FakeClock "''now''" FakeClock fresh_random "''now''"]
  then show ?thesis using ch sel by auto
qed

section \<open>Identities that move\<close>

text \<open>
  C12: a key migration that verifies was authorised by the old key: if its holder signed only the bodies
  in \<open>B\<close>, the migration names the new key of one of them.
\<close>

theorem migration_is_authorised:
  assumes "verifyKeyMigration C m = Inr ()" "jprop m ''old_key'' = Some (JStr ok)"
    and "ed_only_signed C (b64uDecode ok) (canonicalBytes ` JObj ` B)"
    and "wf_json (migrationSigningBody m)" "\<forall>b\<in>B. wf_json (JObj b)"
  shows "\<exists>b\<in>B. jget b ''new_key'' = jprop m ''new_key'' \<and> jget b ''old_key'' = Some (JStr ok)"
  by (rule migration_authorised [OF assms])

definition move_body :: fields where
  "move_body = migration_body alice bob ''2026-01-01T00:00:00.000Z'' None None None [5] ''2025-01-01T00:00:00.000Z''"

definition move_crypto :: crypto where
  "move_crypto = signed_crypto [canonicalBytes (JObj move_body),
     canonicalBytes (binding_body (identityKeyB64 bob) (transportKeyB64 bob) ''2024-01-01T00:00:00.000Z'')]"

definition move :: json where
  "move = JObj (makeKeyMigration move_crypto alice bob ''2026-01-01T00:00:00.000Z'' None None None [5]
     ''2025-01-01T00:00:00.000Z'')"

lemma move_verifies: "verifyKeyMigration move_crypto move = Inr ()"
proof -
  have "verifyBinding move_crypto (di_binding bob)"
    by (simp add: verifyBinding_def bob_def move_crypto_def signed_crypto_def binding_body_def identityKeyB64_def
        transportKeyB64_def mk_identity_def Let_def)
  moreover have "identity_ok move_crypto bob" by (simp add: move_crypto_def)
  moreover have "sig_works move_crypto i (canonicalBytes (JObj move_body))" for i
    by (simp add: sig_works_def move_crypto_def signed_crypto_def)
  ultimately show ?thesis unfolding move_def move_body_def by (intro migration_checks keys_distinct)
qed

definition move_bodies :: "fields set" where
  "move_bodies = {move_body, [(''identity_key'', JStr (identityKeyB64 bob)), (''transport_key'', JStr (transportKeyB64 bob)),
     (''created_utc'', JStr ''2024-01-01T00:00:00.000Z'')]}"

theorem migration_is_authorised_witness:
  "\<exists>b\<in>move_bodies. jget b ''new_key'' = jprop move ''new_key'' \<and> jget b ''old_key'' = Some (JStr (identityKeyB64 alice))"
proof (rule migration_is_authorised [OF move_verifies])
  show "jprop move ''old_key'' = Some (JStr (identityKeyB64 alice))"
    by (simp add: move_def makeKeyMigration_def migration_body_def Let_def)
  show "ed_only_signed move_crypto (b64uDecode (identityKeyB64 alice)) (canonicalBytes ` JObj ` move_bodies)"
    unfolding move_crypto_def by (rule ed_only_signed_crypto) (simp add: move_bodies_def binding_body_def)
  have wf: "wf_json (JObj move_body)" using wf_binding [OF alice_bob(2)] by (simp add: move_body_def migration_body_def)
  then show "wf_json (migrationSigningBody move)" unfolding move_def built_body move_body_def .
  show "\<forall>b\<in>move_bodies. wf_json (JObj b)" using wf by (simp add: move_bodies_def)
qed

text \<open>
  C13: a registry fed by arbitrary records keeps its invariant, and following migrations from any key
  ends: at the last key of the chain when it has one, with a binding that this key signed.
\<close>

theorem registry_follows:
  assumes "r = foldl (\<lambda>r m. snd (reg_accept C r m)) [] ms" "(migrates r)\<^sup>*\<^sup>* key k" "\<not> hasMigration r k"
  shows "reg_ok C r \<and> currentKey r key = k \<and> (case currentBinding r key of
      None \<Rightarrow> k = key
    | Some b \<Rightarrow> verifyBinding C b \<and> jprop b ''identity_key'' = Some (JStr k))"
proof -
  have "reg_ok C (foldl (\<lambda>r m. snd (reg_accept C r m)) r0 ms)" if "reg_ok C r0" for r0
    using that by (induction ms arbitrary: r0) (simp_all add: reg_accept_ok)
  then have ok: "reg_ok C r" unfolding assms(1) by simp
  with currentBinding_owned [OF ok, of key] currentKey_terminal [OF assms(2,3)] show ?thesis
    by (simp split: option.splits)
qed

lemma move_fields: "jprop move ''old_key'' = Some (JStr (identityKeyB64 alice))" "jprop move ''new_key'' = Some (JStr (identityKeyB64 bob))"
  "jprop move ''retire_after_utc'' = Some (JStr ''2026-01-01T00:00:00.000Z'')"
  by (simp_all add: move_def makeKeyMigration_def migration_body_def Let_def)

theorem registry_follows_witness:
  "currentKey (foldl (\<lambda>r m. snd (reg_accept open_crypto r m)) [] [move]) (identityKeyB64 alice) = identityKeyB64 bob"
proof -
  let ?r = "foldl (\<lambda>r m. snd (reg_accept open_crypto r m)) [] [move]"
  have eq: "move = JObj (makeKeyMigration open_crypto alice bob ''2026-01-01T00:00:00.000Z'' None None None [5]
     ''2025-01-01T00:00:00.000Z'')"
    by (simp add: move_def makeKeyMigration_def di_sign_def move_crypto_def signed_crypto_def open_crypto_def)
  have v: "verifyKeyMigration open_crypto move = Inr ()"
    unfolding eq by (rule built_migration_verifies [OF open_crypto_ok(1) alice_bob keys_distinct(1)])
  have "date_parse ''2026-01-01T00:00:00.000Z'' \<noteq> None" by code_simp
  then obtain ms where d: "date_parse ''2026-01-01T00:00:00.000Z'' = Some ms" by blast
  have "?r = [(identityKeyB64 alice, \<lparr>am_newKey = identityKeyB64 bob, am_newBinding = the (jprop move ''new_binding''),
      am_retireAfterMs = ms\<rparr>)]"
    by (simp add: reg_accept_def v d move_fields)
  then have "migrates ?r (identityKeyB64 alice) (identityKeyB64 bob)" "\<not> hasMigration ?r (identityKeyB64 bob)"
    using keys_distinct(1) by (auto simp: migrates_def hasMigration_def jhas_def)
  then show ?thesis using registry_follows [OF refl, of open_crypto "[move]"] by blast
qed

section \<open>Moving to new keys\<close>






text \<open>
  C16: an honest device that moves to new keys is accepted without asking: its migration record is queued,
  it answers both challenges, and the second answer completes them.
\<close>

theorem honest_auto_accept:
  assumes "dh_ok C" "aead_ok C" "ed_ok C" "identity_ok C i" "identity_ok C n" "identityKeyB64 i \<noteq> identityKeyB64 n"
    and "m = JObj (makeKeyMigration C i n ret None None (Some now) nonce now)"
    and "find (\<lambda>p. pn_contactKey p = identityKeyB64 i) (mm_pendingIncoming mm0) = None"
    and "handleIncomingMigration C m (identityKeyB64 i) name mm0 = (r, mm)" "mm_newIdentity theirs = Some n"
    and "createChallenges C d (identityKeyB64 i) (transportKeyB64 i) mm = (res, mm1)"
  shows "r = Inr () \<and> (\<exists>c1 c2 e1 e2 mm2 mm3. res = Inr (Some [c1, c2])
    \<and> answerChallenge C eph1 i (oc_target c1) (oc_sealedNonceB64 c1) (oc_ackPubkeyB64 c1) theirs = Inr (Some e1)
    \<and> answerChallenge C eph2 i (oc_target c2) (oc_sealedNonceB64 c2) (oc_ackPubkeyB64 c2) theirs = Inr (Some e2)
    \<and> verifyChallengeResponse C (identityKeyB64 i) (oc_target c1) e1 mm1 = ((False, True), mm2)
    \<and> verifyChallengeResponse C (identityKeyB64 i) (oc_target c2) e2 mm2 = ((True, True), mm3))"
  by (rule honest_move [OF assms])

definition dice :: challenge_random where
  "dice = \<lparr>cd_oldNonce = [1], cd_newNonce = [2], cd_oldAckPriv = [3], cd_newAckPriv = [4], cd_oldEph = [5], cd_newEph = [6]\<rparr>"

definition queued_move :: "(string + unit) \<times> migration_manager" where
  "queued_move = handleIncomingMigration open_crypto
     (JObj (makeKeyMigration open_crypto alice bob ''2026-01-01T00:00:00.000Z'' None None (Some ''2025-01-01T00:00:00.000Z'') [5] ''2025-01-01T00:00:00.000Z''))
     (identityKeyB64 alice) ''Alice'' MigrationManager"

definition challenged :: "(string + outbound_challenge list option) \<times> migration_manager" where
  "challenged = createChallenges open_crypto dice (identityKeyB64 alice) (transportKeyB64 alice) (snd queued_move)"


theorem honest_auto_accept_witness:
  "fst queued_move = Inr () \<and> (\<exists>c1 c2 e1. fst challenged = Inr (Some [c1, c2])
    \<and> answerChallenge open_crypto [7] alice (oc_target c1) (oc_sealedNonceB64 c1) (oc_ackPubkeyB64 c1)
        (MigrationManager\<lparr>mm_newIdentity := Some bob\<rparr>) = Inr (Some e1))"
  using honest_auto_accept [OF open_crypto_ok(3,4,1) alice_bob keys_distinct(1) refl _
      prod.collapse [of queued_move, symmetric, unfolded queued_move_def] _ prod.collapse [of challenged, symmetric, unfolded challenged_def queued_move_def],
      of "MigrationManager\<lparr>mm_newIdentity := Some bob\<rparr>" "[7]" "[8]"]
  by (simp add: MigrationManager_def challenged_def queued_move_def) blast


text \<open>
  A challenge is not told from a message: while a migration is active, a peer that holds a frame sealed
  to this device, of whatever sender, has it decrypted by sending its box as a challenge; the answer is the
  plaintext, sealed to a key of the peer.
\<close>

theorem challenge_decrypts_messages:
  assumes "dh_ok C" "aead_ok C" "identity_ok C i" "sealAppFrame C eph f (transportKeyB64 i) = Some (SealedFrame SEAL_ALG box)"
  shows "\<exists>echo. answerChallenge C eph' i OldKey box (b64uEncode (x_pub C attacker)) mm = Inr (Some echo)
    \<and> unseal C (b64uDecode echo) attacker (x_pub C attacker) = Some (utf8 (encodeAppFrame f))"
proof -
  obtain b where b: "seal C eph (utf8 (encodeAppFrame f)) (transportPub i) = Some b" "box = b64uEncode b"
    using assms(4) by (auto simp: sealAppFrame_def transportKeyB64_def split: option.splits)
  show ?thesis unfolding b(2) by (rule answers_any_box [OF assms(1-3) b(1)])
qed

theorem challenge_decrypts_messages_witness:
  "\<exists>box echo. sealAppFrame open_crypto [1] (TextFrame ''id'' ''hi'' 3) (transportKeyB64 bob) = Some (SealedFrame SEAL_ALG box)
    \<and> answerChallenge open_crypto [2] bob OldKey box (b64uEncode (x_pub open_crypto [9])) MigrationManager = Inr (Some echo)
    \<and> unseal open_crypto (b64uDecode echo) [9] (x_pub open_crypto [9]) = Some (utf8 (encodeAppFrame (TextFrame ''id'' ''hi'' 3)))"
proof -
  obtain box where s: "sealAppFrame open_crypto [1] (TextFrame ''id'' ''hi'' 3) (transportKeyB64 bob) = Some (SealedFrame SEAL_ALG box)"
    by (simp add: sealAppFrame_def seal_def open_crypto_def Let_def deriveKeyAndNonce_def)
  show ?thesis using challenge_decrypts_messages [OF open_crypto_ok(3,4) alice_bob(2) s, of "[2]" "[9]" MigrationManager] s by blast
qed

section \<open>Contacts\<close>

text \<open>
  C17: a contact card that parses carries its owner's own transport key, so a card cannot be altered to
  redirect what is sealed to the contact.
\<close>

theorem card_is_authentic:
  assumes "parseContactCard C input = Inr cd" "cc_identity_key cd = identityKeyB64 i" "signs_only C i R"
  shows "cc_transport_key cd = transportKeyB64 i \<and> card_bound C cd"
  using card_authentic [OF assms(3,1,2)] parseContactCard_Inr(1) [OF assms(1)] by blast

theorem card_is_authentic_witness:
  "\<exists>cd. parseContactCard bob_signed (serializeContactCard (exportPublic bob) (Some ''Bob'')) = Inr cd
    \<and> cc_transport_key cd = transportKeyB64 bob"
proof -
  have "identity_ok bob_signed bob" by (simp add: bob_signed_def)
  note p = parse_card_checks [OF bob_signed_binding this, of "Some ''Bob''"]
  with card_is_authentic [OF p _ bob_signs_only] show ?thesis by auto
qed

text \<open>A device's own card parses back to its keys, its binding and its name.\<close>

theorem card_round_trip:
  assumes "ed_ok C" "identity_ok C i"
  shows "parseContactCard C (serializeContactCard (exportPublic i) name) =
    Inr \<lparr>cc_identity_key = identityKeyB64 i, cc_transport_key = transportKeyB64 i, cc_binding = di_binding i, cc_name = name\<rparr>"
  by (rule parse_serializeContactCard [OF assms])

theorem card_round_trip_witness:
  "map_sum id cc_name (parseContactCard open_crypto (serializeContactCard (exportPublic alice) None)) = Inr None"
  by (simp add: card_round_trip)

text \<open>
  C18: whatever bundle is imported, every contact that comes out has a verified binding for its keys and
  is not the device itself; with the default collision policy there are no duplicates and none of the
  existing contacts; and every entry is counted once, as imported, skipped or rejected.
\<close>

theorem import_is_safe:
  assumes "importContacts C opts sys bundle = (cs, sm)"
  shows "(\<forall>c\<in>set cs. contact_bound C c \<and> \<not> ct_isLoopback c \<and> (ct_identityKey c = [] \<or> io_ownKey opts \<noteq> Some (ct_identityKey c)))
    \<and> (or_default (io_onCollision opts) Skip = Skip \<longrightarrow>
         distinct (map ct_identityKey cs) \<and> (\<forall>c\<in>set cs. ct_identityKey c \<notin> set (io_existingKeys opts)))
    \<and> is_imported sm = length cs
    \<and> is_imported sm + is_skipped sm + length (is_rejected sm) = length (ce_contacts bundle)"
  using importContacts_inv [OF assms] by (auto simp: import_inv_def)

definition skip_all :: import_opts where
  "skip_all = \<lparr>io_onCollision = None, io_existingKeys = [], io_ownKey = None, io_now = None\<rparr>"

theorem import_is_safe_witness:
  "is_imported (snd (importContacts open_crypto skip_all ''now'' \<lparr>ce_exportedUtc = '''', ce_contacts = [JNull, JNull]\<rparr>)) +
   is_skipped (snd (importContacts open_crypto skip_all ''now'' \<lparr>ce_exportedUtc = '''', ce_contacts = [JNull, JNull]\<rparr>)) +
   length (is_rejected (snd (importContacts open_crypto skip_all ''now'' \<lparr>ce_exportedUtc = '''', ce_contacts = [JNull, JNull]\<rparr>))) = 2"
  using import_is_safe [OF prod.collapse [symmetric], of open_crypto skip_all "''now''" "\<lparr>ce_exportedUtc = '''', ce_contacts = [JNull, JNull]\<rparr>"]
  by simp

text \<open>
  Exporting contacts and importing the bundle elsewhere gives the same contacts, in order, without
  the loopback contact.
\<close>

theorem contacts_round_trip:
  assumes "\<forall>c\<in>set cs. contact_bound C c \<and> exportable c \<and> ct_identityKey c \<notin> set (io_existingKeys opts)
      \<and> io_ownKey opts \<noteq> Some (ct_identityKey c)"
    and "distinct (map ct_identityKey cs)"
  shows "\<exists>bundle. parseContactsExport (serializeContacts cs now sys) = Inr bundle
    \<and> fst (importContacts C opts sys' bundle) = filter (\<lambda>c. \<not> ct_isLoopback c) cs"
  by (rule export_import [OF assms])

definition bob_contact :: contact where
  "bob_contact = \<lparr>ct_identityKey = identityKeyB64 bob, ct_transportKey = transportKeyB64 bob, ct_binding = di_binding bob,
     ct_displayName = ''Bob'', ct_relayOnly = True, ct_preferredBoards = Some [''b1''], ct_fallbackBoards = Some [],
     ct_autoAcceptMigration = Some False, ct_addedUtc = ''2025-01-01T00:00:00.000Z'', ct_isLoopback = False\<rparr>"

theorem contacts_round_trip_witness:
  "\<exists>bundle. parseContactsExport (serializeContacts [bob_contact] None ''now'') = Inr bundle
    \<and> fst (importContacts open_crypto skip_all ''then'' bundle) = [bob_contact]"
proof -
  have "contact_bound open_crypto bob_contact"
    using verifyBinding_identity [OF open_crypto_ok(1) alice_bob(2)] wf_binding [OF alice_bob(2)] jprop_binding_ok [OF alice_bob(2)]
    by (simp add: contact_bound_def bob_contact_def)
  moreover have "exportable bob_contact" by (simp add: exportable_def bob_contact_def is_obj_binding [OF alice_bob(2)])
  ultimately show ?thesis
    using contacts_round_trip [of "[bob_contact]" open_crypto skip_all None "''now''" "''then''"]
    by (simp add: skip_all_def bob_contact_def)
qed

section \<open>Formats and codecs\<close>

text \<open>The decoder of application frames inverts the encoder, and no two frames have the same text.\<close>

theorem frames_round_trip:
  assumes "app_frame_ok f"
  shows "decodeAppFrame (encodeAppFrame f) = Some f \<and> (app_frame_ok g \<and> encodeAppFrame g = encodeAppFrame f \<longrightarrow> g = f)"
  using decode_encodeAppFrame [OF assms] encodeAppFrame_inj assms by blast

theorem frames_round_trip_witness:
  "decodeAppFrame (encodeAppFrame (TextFrame ''id'' ''hi'' 3)) = Some (TextFrame ''id'' ''hi'' 3)"
  using frames_round_trip [of "TextFrame ''id'' ''hi'' 3"] by (simp add: app_frame_ok_def)

text \<open>
  A sealed frame opens for its recipient and gives back the frame.
\<close>

theorem sealed_frame_opens:
  assumes "dh_ok C" "aead_ok C" "sealable f"
  shows "\<exists>box. sealAppFrame C eph f (b64uEncode (x_pub C priv)) = Some (SealedFrame SEAL_ALG box)
    \<and> openSealedFrame C SEAL_ALG box priv (x_pub C priv) = Some f"
  by (rule open_sealAppFrame [OF assms])

theorem sealed_frame_opens_witness:
  "\<exists>box. sealAppFrame open_crypto [1] (TextFrame ''id'' ''hi'' 3) (b64uEncode (x_pub open_crypto [2])) = Some (SealedFrame SEAL_ALG box)
    \<and> openSealedFrame open_crypto SEAL_ALG box [2] (x_pub open_crypto [2]) = Some (TextFrame ''id'' ''hi'' 3)"
  by (rule sealed_frame_opens) (simp_all add: sealable_def)

text \<open>A frame sealed to one key opens under no other key.\<close>

theorem sealed_frame_secret:
  assumes "dh_ok C" "aead_keyed C" "hkdf_salted C"
    and "sealAppFrame C eph f key = Some (SealedFrame alg box)" "b64uDecode key \<noteq> pub"
  shows "openSealedFrame C alg box priv pub = None"
  by (rule open_wrong_key [OF assms])

theorem sealed_frame_secret_witness:
  "\<exists>alg box. sealAppFrame keyed_crypto [1] (TextFrame ''id'' ''hi'' 3) (b64uEncode [5]) = Some (SealedFrame alg box)
     \<and> openSealedFrame keyed_crypto alg box [6] [6] = None"
proof -
  obtain alg box where s: "sealAppFrame keyed_crypto [1] (TextFrame ''id'' ''hi'' 3) (b64uEncode [5]) = Some (SealedFrame alg box)"
    by (simp add: sealAppFrame_def seal_def keyed_crypto_def open_crypto_def Let_def deriveKeyAndNonce_def)
  from sealed_frame_secret [OF keyed_crypto_ok(1,2) hkdf_salted_open(2) s, of "[6]" "[6]"] s show ?thesis by auto
qed

text \<open>
  Nothing a device encrypts on a secure channel can be reflected to it: its own ciphertext does not
  decrypt under its receiving key.
\<close>

theorem no_reflection:
  assumes "hkdf_salted C" "aead_keyed C" "length nonce = 24" "SecureChannel C priv mine their = Some ch"
  shows "sc_receive C ch (sc_send C nonce ch t) = None"
  by (rule secure_channel_no_reflection [OF assms])

theorem no_reflection_witness:
  "\<exists>ch. SecureChannel keyed_crypto [1] [1] [2] = Some ch \<and> sc_receive keyed_crypto ch (sc_send keyed_crypto (replicate 24 0) ch ''hi'') = None"
proof -
  obtain ch where "SecureChannel keyed_crypto [1] [1] [2] = Some ch"
    by (simp add: SecureChannel_def deriveDirectionalKeys_def keyed_crypto_def open_crypto_def Let_def)
  with no_reflection [OF hkdf_salted_open(2) keyed_crypto_ok(2) _ this, of "replicate 24 0" "''hi''"] show ?thesis by auto
qed

text \<open>
  On well-formed values the canonical bytes that are signed determine the value up to the order of
  its keys, so a signature covers exactly one record.
\<close>

theorem canonical_injective:
  assumes "wf_json a" "wf_json b"
  shows "canonicalBytes a = canonicalBytes b \<longleftrightarrow> norm_json a = norm_json b"
  by (rule canonicalBytes_eq_iff [OF assms])

theorem canonical_injective_witness:
  "canonicalBytes (JObj [(''b'', JNull), (''a'', JNum 1)]) = canonicalBytes (JObj [(''a'', JNum 1), (''b'', JNull)])"
  by (rule iffD2 [OF canonical_injective], simp, simp, code_simp)


text \<open>
  A closed schema admits its declared keys, and also keys named like the members of
  \<open>Object.prototype\<close>, because the check uses the \<open>in\<close> operator.
\<close>

theorem closed_schema_leak:
  "validateSchema KEY_BINDING_SCHEMA (JObj [(''identity_key'', JStr ''a''), (''transport_key'', JStr ''b''),
     (''created_utc'', JStr ''c''), (''binding_sig'', JStr ''d''), (''constructor'', JNum 666)]) = []
   \<and> validateSchema KEY_BINDING_SCHEMA (JObj [(''identity_key'', JStr ''a''), (''transport_key'', JStr ''b''),
     (''created_utc'', JStr ''c''), (''binding_sig'', JStr ''d''), (''extra'', JNum 666)]) \<noteq> []"
  by code_simp

text \<open>
  The candidates that survive the filter pass the gate that stands before sealing, for every line of
  the standard grammar; and every line is accounted for, as kept or dropped.
\<close>

theorem filter_passes_gate:
  assumes "\<forall>l\<in>set lines. std_line l"
  shows "assertNoUnobfuscatedHost (Inl (fr_kept (filterCandidates lines))) = Inr ()
    \<and> length (fr_kept (filterCandidates lines)) + length (fr_dropped (filterCandidates lines)) = length lines"
  using filtered_passes_gate [OF assms] filter_accounts by blast

theorem filter_passes_gate_witness:
  "assertNoUnobfuscatedHost (Inl (fr_kept (filterCandidates
     [''candidate:2 1 udp 1677729535 203.0.113.7 9 typ srflx raddr 192.168.1.2 rport 5000'']))) = Inr ()"
  using filter_passes_gate [of "[''candidate:2 1 udp 1677729535 203.0.113.7 9 typ srflx raddr 192.168.1.2 rport 5000'']"]
    std_line_srflx by simp

section \<open>Numbers\<close>

text \<open>
  C38: the retry delay is never negative, stays within the jitter band around the capped exponential, and
  never exceeds the jittered cap.
\<close>

theorem backoff_within_bounds:
  assumes "backoff_ok b" "0 \<le> random" "random < 1" "capped = min (bo_maxMs b) (bo_baseMs b * bo_factor b ^ n)"
  shows "0 \<le> delayFor b random n \<and> of_int (delayFor b random n) \<le> capped * (1 + bo_jitter b) + 1 / 2
    \<and> capped * (1 - bo_jitter b) - 1 / 2 < of_int (delayFor b random n)
    \<and> of_int (delayFor b random n) \<le> bo_maxMs b * (1 + bo_jitter b) + 1 / 2"
  using delayFor_bounds [OF assms] by blast

theorem backoff_within_bounds_witness:
  "of_int (delayFor DEFAULT_BACKOFF (1 / 4) 100) \<le> bo_maxMs DEFAULT_BACKOFF * (1 + bo_jitter DEFAULT_BACKOFF) + 1 / 2"
  using backoff_within_bounds [of DEFAULT_BACKOFF "1 / 4" _ 100, OF _ _ _ refl]
  by (simp add: backoff_ok_def DEFAULT_BACKOFF_def)

text \<open>
  The single pass over the queue computes what the metrics stand for: the minimum of the timestamps,
  the latest attempt, the sum and the maximum of the attempts and the count per recipient.
\<close>

theorem metrics_are_exact:
  "metrics_spec rows (computePendingMetrics rows) \<and> mt_total (computePendingMetrics rows) = length rows"
  by (rule computePendingMetrics_spec)

section \<open>Connections and history\<close>

text \<open>
  Concurrent calls for one contact share one connection attempt: until it ends, a second call gets
  the same promise and starts nothing.
\<close>

theorem one_attempt_per_contact:
  assumes "cm_reach c" "Connections.quiet f" "Connections.quiet g" "contactState c key \<noteq> CConnected" "ensureConnection key f c = (r, c1)"
  shows "\<exists>p. r = Inr p \<and> ensureConnection key g c1 = (Inr p, c1) \<and> cm_promises c1 ! p = Waiting"
  using ensure_shared [OF cm_ok_reach [OF assms(1)] assms(2-5)] by blast

theorem one_attempt_per_contact_witness:
  "\<exists>p c1. ensureConnection ''bob'' id cman_init = (Inr p, c1) \<and> ensureConnection ''bob'' id c1 = (Inr p, c1)"
proof -
  have q: "Connections.quiet id" by (simp add: Connections.quiet_def) (metis append_Nil2 cman.surjective cman.update_convs(9))
  have "contactState cman_init ''bob'' \<noteq> CConnected" by (simp add: contactState_def cman_init_def)
  from one_attempt_per_contact [OF cm_start q q this prod.collapse [symmetric]] show ?thesis
    by (metis prod.collapse)
qed

text \<open>
  No connection attempt hangs and none is settled twice: in every reachable state a waiting promise
  has a timer, and no later step changes a promise once it is settled.
\<close>

theorem attempts_end_once:
  assumes "cm_reach c" "p < length (cm_promises c)"
  shows "(cm_promises c ! p = Waiting \<longrightarrow> (\<exists>key. jget (cm_timers c) p = Some key
        \<and> cm_promises (fireConnectTimer p c) ! p = Rejected key))
    \<and> (cm_promises c ! p \<noteq> Waiting \<and> cm_step c c' \<longrightarrow> cm_promises c' ! p = cm_promises c ! p)"
proof -
  have ok: "cm_ok c" by (rule cm_ok_reach [OF assms(1)])
  have "\<exists>key. jget (cm_timers c) p = Some key" if "cm_promises c ! p = Waiting"
    using linked_timer [OF ok [unfolded cm_ok_def], of p] assms(2) that by auto
  then show ?thesis using fireConnectTimer_eq(1) [OF ok] settled_stable [OF _ ok assms(2)] assms(2) by auto
qed

theorem attempts_end_once_witness:
  "cm_promises (fireConnectTimer 0 (snd (ensureConnection ''bob'' id cman_init))) ! 0 = Rejected ''bob''"
proof -
  let ?c = "snd (ensureConnection ''bob'' id cman_init)"
  have q: "Connections.quiet id" by (simp add: Connections.quiet_def) (metis append_Nil2 cman.surjective cman.update_convs(9))
  have r: "cm_reach ?c" by (rule cm_next [OF cm_start cm_ensure [OF q prod.collapse [symmetric]]])
  have s: "cm_promises ?c = [Waiting]" "jget (cm_timers ?c) 0 = Some ''bob''"
    by (simp_all add: ensureConnection_def openAttempt_def cman_init_def Let_def addConnectWaiter_def emitState_def)
  show ?thesis using attempts_end_once [OF r, of 0 ?c] s by simp
qed

text \<open>
  C37: listing a conversation gives the newest messages first: a page is the newest part of the
  conversation's messages before the cursor, whole unless the limit cuts it.
\<close>

theorem history_page: "page_of key opts (mc_listAllMessages s) (mc_listMessages key opts s)"
  by (rule mc_listMessages_page)

section \<open>Files\<close>


definition small_file :: file_source where
  "small_file = \<lparr>fs_bytes = [1, 2, 3], fs_name = ''a.txt'', fs_mime = ''text/plain''\<rparr>"

definition by_two :: transfer_opts where
  "by_two = \<lparr>to_chunkSize = Some 2, to_window = None, to_maxRetries = None, to_retryBackoffMs = None\<rparr>"

definition small_offer :: file_offer where
  "small_offer = offer_of fromUtf8 by_two small_file ''f1'' 0"


text \<open>
  C40: a file whose bytes do not have the offered hash is reported as corrupt, and yet it reaches the user:
  the browser's sink hands out the download, or keeps the image, when it is finalized, before the hash is
  compared.
\<close>

theorem corrupt_file_delivered:
  assumes "offer_for bs cs offer" "0 < cs" "bs \<noteq> []" "hash bs \<noteq> fo_sha256 offer"
    and "createIncomingFileSink offer h w = ((sink, path), w1)" "set order = {..<chunkCount (length bs) cs}"
    and "r = fr_run sink hash ([EvOffer offer, EvResume 0 (Some w1)] @ concat (map (chunk_events bs cs (fo_fileId offer)) order)) FileReceiver"
  shows "fr_outcomes r = [IntegrityFailed (fo_fileId offer)]
    \<and> (\<exists>f w2. fr_heap r = [f] \<and> rf_sink f = Some w2 \<and> delivered h offer bs w2)"
  using transfer_into_browser [OF assms(1-3,5-7)] assms(4) by (simp add: verdict_def)

theorem corrupt_file_delivered_witness:
  "\<exists>sink w1 f w2. createIncomingFileSink small_offer ''h'' web_files_init = ((sink, ''a.txt''), w1) \<and>
     fr_outcomes (fr_run sink fromUtf8 ([EvOffer small_offer, EvResume 0 (Some w1)]
       @ concat (map (chunk_events [6, 6, 6] 2 ''f1'') [0, 1])) FileReceiver) = [IntegrityFailed ''f1''] \<and>
     delivered ''h'' small_offer [6, 6, 6] w2"
proof -
  obtain sink w1 where c: "createIncomingFileSink small_offer ''h'' web_files_init = ((sink, ''a.txt''), w1)"
    by (auto simp: createIncomingFileSink_def openWrite_def small_offer_def offer_of_def small_file_def)
  have o: "set [0, 1] = {..<chunkCount (length [6, 6, 6 :: 8 word]) 2}" by (auto simp: chunkCount_def)
  have s: "offer_for [6, 6, 6] 2 small_offer"
    by (simp add: offer_for_def small_offer_def offer_of_def small_file_def fs_size_def opt_chunkSize_def by_two_def)
  have "fromUtf8 [6, 6, 6] \<noteq> fo_sha256 small_offer" by code_simp
  from corrupt_file_delivered [where hash = fromUtf8, OF s _ _ this c o refl] c show ?thesis
    by (auto simp: small_offer_def offer_of_def)
qed

text \<open>
  Whatever the channel does, the sender's pool sends no chunk more often than the retry limit allows,
  and when all its workers have returned, every chunk of the file was acknowledged exactly once and the
  progress counters are exact.
\<close>

theorem sender_covers_file:
  assumes "0 < sp_chunkSize p" "0 < window" "s = se_run p evs (sender_init p window)"
  shows "(\<forall>i < sp_chunks p. count_list (se_frames s) i \<le> sp_maxRetries p + 1)
    \<and> (set (se_workers s) \<subseteq> {SDone} \<longrightarrow> mset (se_acked s) = mset [0..<sp_chunks p]
        \<and> se_transferred s = sp_size p \<and> se_chunksDone s = sp_chunks p)"
proof -
  have inv: "se_inv p window s" unfolding assms(3) by (rule se_inv_run [OF se_inv_init])
  show ?thesis using sender_tries [OF inv] sender_done [OF inv assms(1,2)] by blast
qed

theorem sender_covers_file_witness:
  "se_transferred (se_run \<lparr>sp_size = 3, sp_chunkSize = 2, sp_maxRetries = 1, sp_backoffMs = 250\<rparr>
     [Run 0, Run 1, TimedOut 0, Acked 1, Wake 0, Run 1, Acked 0, Run 0]
     (sender_init \<lparr>sp_size = 3, sp_chunkSize = 2, sp_maxRetries = 1, sp_backoffMs = 250\<rparr> 4)) = 3"
  (is "se_transferred ?s = 3")
proof -
  have "set (se_workers ?s) \<subseteq> {SDone}" by code_simp
  with sender_covers_file [of "\<lparr>sp_size = 3, sp_chunkSize = 2, sp_maxRetries = 1, sp_backoffMs = 250\<rparr>" 4, OF _ _ refl] show ?thesis
    by simp
qed

section \<open>What the device keeps\<close>

text \<open>
  C27: the device identity is created at the first start only, and every later start has the same one,
  whether the keys are sealed by secure hardware or kept in the clear, and whichever of the transactions
  that try to seal them fail.
\<close>

theorem identity_is_kept:
  assumes "hw_keeps (kv_keys KEYS_KV) provider k st"
    and "loadOrCreate C (HardwareBackedKeyStore (IpcKeyBlobStore wr) provider) rs rt now st = (Inr (i, created), st1)"
  shows "created = (k = None)
    \<and> fst (loadOrCreate C (HardwareBackedKeyStore (IpcKeyBlobStore wr') provider) rs' rt' now' st1) = Inr (i, False)"
  using identity_persists [OF assms] by blast

definition echo_hardware :: key_provider where
  "echo_hardware = \<lparr>kp_backend = ''echo'', kp_isAvailable = Inr True, kp_wrap = Inr, kp_unwrap = Inr\<rparr>"

theorem identity_is_kept_witness:
  "\<exists>i st1. loadOrCreate open_crypto (HardwareBackedKeyStore (IpcKeyBlobStore (\<lambda>v. None)) (Some echo_hardware)) [1] [2] ''now''
       (web_db_empty :: unit web_db, []) = (Inr (i, True), st1)
     \<and> fst (loadOrCreate open_crypto (HardwareBackedKeyStore (IpcKeyBlobStore (\<lambda>v. Some ''full'')) (Some echo_hardware)) [3] [4] ''then'' st1)
       = Inr (i, False)"
proof -
  let ?st = "(web_db_empty :: unit web_db, []) :: unit web_db hw_state"
  have p: "prov_ok (Some echo_hardware)" by (simp add: prov_ok_def provider_ok_def echo_hardware_def)
  have h: "hw_keeps (kv_keys KEYS_KV) (Some echo_hardware) None ?st"
    using p by (simp add: hw_keeps_def hw_holds_def kv_keys_def kvGet_def web_db_empty_def idb_get_def)
  obtain i created st1 where l: "loadOrCreate open_crypto (HardwareBackedKeyStore (IpcKeyBlobStore (\<lambda>v. None)) (Some echo_hardware)) [1] [2]
      ''now'' ?st = (Inr (i, created), st1)"
    by (simp add: loadOrCreate_def HardwareBackedKeyStore_def hw_load_def IpcKeyBlobStore_def kv_slot_def kvGet_def web_db_empty_def
        idb_get_def hw_save_def echo_hardware_def save_sealed_def kvSet_def txDone_def Let_def)
  from identity_is_kept [OF h l] l show ?thesis by auto
qed

text \<open>The settings that were stored are the settings that are loaded.\<close>

theorem settings_round_trip:
  assumes "settings_ok s"
  shows "loadSettings (settings_set s) = s"
  by (rule settings_kept [OF assms])

theorem settings_round_trip_witness: "loadSettings (settings_set DEFAULT_SETTINGS) = DEFAULT_SETTINGS"
  by (rule settings_round_trip) (simp add: settings_ok_def DEFAULT_SETTINGS_def settings_json_def has_length_def)

text \<open>
  A row of the send queue that is removed while an update of it is between its read and its write is
  back afterwards; removed before or after the update it stays removed.
\<close>

theorem removed_row_returns:
  assumes "web_db_ok db" "pq_get i db = Some m"
  shows "pq_get i (pq_update_write (pq_get i db) p (pq_remove i db)) = Some (apply_patch p m)
    \<and> pq_get i (pq_remove i (pq_update i p db)) = None \<and> pq_get i (pq_update i p (pq_remove i db)) = None"
proof -
  have rm: "pq_get i (pq_remove i db) = None" "pq_get i (pq_remove i (pq_update i p db)) = None" by (simp_all add: pq_get_def pq_remove_def)
  then have "pq_update i p (pq_remove i db) = pq_remove i db" by (simp add: pq_update_def pq_update_write_def)
  then show ?thesis using interrupted_update [OF assms(2,1)] rm by simp
qed

definition queued_hi :: pending_message where
  "queued_hi = \<lparr>pm_recipientId = ''bob'', pm_recipientTransportKey = ''k'', pm_messageId = ''m1'', pm_timestamp = 0,
     pm_attemptCount = 0, pm_lastAttemptAt = None, pm_payload = PendingText ''hi''\<rparr>"

theorem removed_row_returns_witness:
  "pq_get ''m1'' (pq_update_write (Some queued_hi) \<lparr>pp_attemptCount = Some 1, pp_lastAttemptAt = None\<rparr>
     (pq_remove ''m1'' (pq_enqueue queued_hi (web_db_empty :: unit web_db)))) \<noteq> None"
proof -
  let ?db = "pq_enqueue queued_hi (web_db_empty :: unit web_db)"
  have g: "pq_get ''m1'' ?db = Some queued_hi" by (simp add: pq_get_def pq_enqueue_def queued_hi_def)
  have "web_db_ok ?db" by (simp add: web_db_ok_def pq_enqueue_def web_db_empty_def)
  from removed_row_returns [OF this g, of "\<lparr>pp_attemptCount = Some 1, pp_lastAttemptAt = None\<rparr>"] g show ?thesis by simp
qed

section \<open>The client\<close>






text \<open>
  C3: a text reaches the contact and is acknowledged. When both devices are connected and the sender's
  worker is idle, sending makes the worker deliver one sealed frame; the receiver stores the text it opens
  and answers once; a duplicate changes nothing in its history; and the answer marks the sender's message
  as acknowledged and takes it off the queue.
\<close>

theorem text_delivered:
  assumes a: "browser_client C provider relay a" "oc_started a" "oc_worker a = Some w" "idle w" "live a (identityKey b)"
      "st_getContact (identityKey b) (oc_store a) \<noteq> None"
    and b: "browser_client C provider2 relay2 b" "live b (identityKey a)" "st_getMessage (en_id e) (oc_store b) = None"
    and honest: "identity_ok C (oc_identity b)" "signs_only C (oc_identity b) R"
    and C: "dh_ok C" "aead_ok C"
    and d: "da = app_deps C provider relay wr sink hash" "db = app_deps C provider2 relay2 wr2 sink2 hash2"
  shows "\<exists>f. let a1 = queue_send da e en (snd (sendText da e (identityKey b) tx a));
      b1 = handleIncomingFrame db e2 (identityKey a) (encodeAppFrame f) b;
      a2 = queue_ack da e3 en3 (handleIncomingFrame da e3 (identityKey b) (encodeAppFrame (AwkFrame (en_id e) (en_ms e2))) a1)
    in oc_sent a1 = oc_sent a @ [(identityKey b, f)]
     \<and> st_getMessage (en_id e) (oc_store b1) = Some (text_message DIn (identityKey a) (en_id e) tx (en_ms e) ODelivered)
     \<and> oc_sent b1 = oc_sent b @ [(identityKey a, AwkFrame (en_id e) (en_ms e2))]
     \<and> oc_store (handleIncomingFrame db e4 (identityKey a) (encodeAppFrame f) b1) = oc_store b1
     \<and> st_getMessage (en_id e) (oc_store a2) = Some (text_message DOut (identityKey b) (en_id e) tx (en_ms e) OAcknowledged)
     \<and> (\<exists>w2. oc_worker a2 = Some w2 \<and> pq_get (en_id e) (dw_store w2) = None)"
proof -
  have S: "cv_getContact IpcConversationStore = st_getContact" "cv_getMessage IpcConversationStore = st_getMessage"
    "ps_get IpcPendingQueueStore = pq_get" by (simp_all add: IpcConversationStore_def IpcPendingQueueStore_def)
  show ?thesis
    using web_client.queued_exchange [of da a w b db e R en tx e2 e3 en3 e4, unfolded S]
      browser_ok [OF a(1), of wr sink hash] browser_ok [OF b(1), of wr2 sink2 hash2] a b(2,3) honest C
    by (simp add: d)
qed

theorem text_delivered_witness:
  "\<exists>f. st_getMessage ''m1'' (oc_store (handleIncomingFrame (app bob_signed) a_client_env (identityKeyB64 alice) (encodeAppFrame f)
      (bob_ready bob_signed))) = Some (text_message DIn (identityKeyB64 alice) ''m1'' ''hi'' 1000 ODelivered)"
proof -
  note w = alice_ready_sel [OF knows_bob_ok(1)] and b = bob_ready_sel [of bob_signed]
  obtain w0 where w0: "oc_worker (alice_ready bob_signed) = Some w0" "idle w0" using w(4) by blast
  have k: "identityKey (alice_ready bob_signed) = identityKeyB64 alice" "identityKey (bob_ready bob_signed) = identityKeyB64 bob"
    by (simp_all add: identityKey_def w(3) b(3))
  have m: "st_getMessage i (oc_store (bob_ready bob_signed)) = None" for i
    by (simp add: b(2) web_db_empty_def st_getMessage_def idb_get_def)
  have i: "identity_ok bob_signed bob" by (simp add: bob_signed_def)
  have c: "dh_ok bob_signed" "aead_ok bob_signed"
    using open_crypto_ok(3,4) by (simp_all add: dh_ok_def aead_ok_def bob_signed_def signed_crypto_def)
  have g: "st_getContact (identityKeyB64 bob) (oc_store (alice_ready bob_signed)) \<noteq> None"
    using w(5) by (simp add: IpcConversationStore_def)
  show ?thesis
    using text_delivered [OF runs_ok(1) w(2) w0, of "bob_ready bob_signed" None False a_client_env bob_records "app bob_signed"]
      w(1) b(1,3) m g c i bob_signs_only runs_ok(2)
    unfolding app_def k by (simp add: Let_def a_client_env_def) blast
qed








text \<open>
  C23: a contact request that is shown can be accepted, and accepting it adds exactly the peer that sent
  it: the contact has the key of the connection the card came over, certified, and the request is gone.
\<close>

theorem request_accepted:
  assumes "browser_client C provider relay c" "jget (oc_pendingCards c) key = Some rq"
    and "d = app_deps C provider relay wr sink hash"
  shows "\<exists>x c1. acceptContactRequest d e key name c = (Inr x, c1) \<and> ct_identityKey x = key \<and> contact_bound C x
    \<and> st_getContact key (oc_store c1) = Some x \<and> jget (oc_contacts c1) key = Some (record_of x) \<and> jget (oc_pendingCards c1) key = None"
proof -
  note ok = browser_ok [OF assms(1)]
  obtain cd where cd: "rq_contactKey rq = key" "key \<noteq> identityKey c" "parseContactCard C (rq_card rq) = Inr cd" "cc_identity_key cd = key"
    using web_client.request_card [OF ok assms(2)] by auto
  let ?x = "contactFromCard cd (no_opts\<lparr>co_displayName := name, co_relayOnly := None\<rparr>) (en_iso e)"
  have "web_db_ok (oc_store c)" using web_client.client_ok_parts(1) [OF ok] by (simp add: web_client.routing_def)
  then have g: "cv_getContact IpcConversationStore key (cv_upsertContact IpcConversationStore ?x (oc_store c)) = Some ?x"
    using cd(4) by (simp add: web_conv.getContact_upsert contactFromCard_def)
  have b: "contact_bound C ?x" by (rule web_client.card_contact_bound(1) [OF cd(3)])
  have k: "ct_identityKey ?x = key" using cd(4) by (simp add: contactFromCard_def)
  have "addContactFromCard d e (rq_card rq) name None c = (Inr ?x, registerContact IpcConversationStore ?x c)"
    using cd(2-4) by (simp add: addContactFromCard_def assms(3) Let_def)
  then have "acceptContactRequest d e key name c = (Inr ?x, dismissContactRequest key (registerContact IpcConversationStore ?x c))"
    using assms(2) by (simp add: acceptContactRequest_def)
  then show ?thesis using b k g
    by (auto simp: registerContact_def dismissContactRequest_def cr_set_def IpcConversationStore_def)
qed

definition alice_asked :: web_client_state where
  \<comment> \<open>Bob, who is no contact yet, sends his card\<close>
  "alice_asked = handleIncomingFrame (app bob_signed) a_client_env (identityKeyB64 bob) (encodeAppFrame (HelloFrame bob_card)) (alice_live bob_signed)"

lemma alice_asked_pending: "\<exists>rq. jget (oc_pendingCards alice_asked) (identityKeyB64 bob) = Some rq"
proof -
  have l: "oc_blockedKeys (alice_live bob_signed) = []" "oc_pendingCards (alice_live bob_signed) = []"
    by (simp_all add: alice_live_def handleConnected_def Let_def isBlocked_def send_on_def getConnection_def cman_init_def)
      (simp add: new_client_def client_init_def)
  have k: "identityKey (alice_live bob_signed) \<noteq> identityKeyB64 bob" using keys_distinct(1) by (simp add: identityKey_def alice_live_sel)
  have n: "cv_getContact IpcConversationStore (identityKeyB64 bob) (oc_store (alice_live bob_signed)) = None"
    by (simp add: alice_live_sel web_conv_defs web_db_empty_def idb_get_def)
  have dec: "decodeAppFrame (encodeAppFrame (HelloFrame bob_card)) = Some (HelloFrame bob_card)"
    by (rule decode_encodeAppFrame) (simp add: app_frame_ok_def)
  show ?thesis using knows_bob_ok(1) k n l
    by (simp add: alice_asked_def handleIncomingFrame_def isBlocked_def dec processFrame_def receive_hello_def knows_bob_def Let_def oc_emit_def jhas_def)
qed

theorem request_accepted_witness:
  "\<exists>x c1. acceptContactRequest (app bob_signed) a_client_env (identityKeyB64 bob) None alice_asked = (Inr x, c1)
    \<and> ct_identityKey x = identityKeyB64 bob"
proof -
  have "browser_client bob_signed None False (alice_live bob_signed)"
    unfolding alice_live_def by (rule browser_app [OF browser_new oc_step.Connected])
  then have r: "browser_client bob_signed None False alice_asked" unfolding alice_asked_def by (rule browser_app) (rule oc_step.Frame)
  obtain rq where "jget (oc_pendingCards alice_asked) (identityKeyB64 bob) = Some rq" using alice_asked_pending by blast
  from request_accepted [OF r this app_def, of a_client_env None] show ?thesis by blast
qed

text \<open>
  C21: no call of the client waits for ever: a call that waits for a connection either has its answer or has
  a timer that gives it one, and then it goes on, once, and is gone; if the timer ran out it goes on as
  failed.
\<close>

theorem calls_end:
  assumes "browser_client C provider relay c" "n < length (oc_calls c)" "oc_calls c ! n = (p, call)"
  defines "c1 \<equiv> c\<lparr>oc_conns := fireConnectTimer p (oc_conns c)\<rparr>"
  shows "(case cm_promises (oc_conns c) ! p of
       Waiting \<Rightarrow> resume_call d e n c1 = call_go d e False call (c1\<lparr>oc_calls := drop_at n (oc_calls c)\<rparr>)
     | Resolved cn \<Rightarrow> resume_call d e n c = call_go d e True call (c\<lparr>oc_calls := drop_at n (oc_calls c)\<rparr>)
     | Rejected key \<Rightarrow> resume_call d e n c = call_go d e False call (c\<lparr>oc_calls := drop_at n (oc_calls c)\<rparr>))
    \<and> oc_calls (call_go d e ok call c) = oc_calls c"
proof -
  note k = web_client.call_ends [OF browser_ok [OF assms(1)] assms(2,3)]
  have fired: "\<exists>key. cm_promises (fireConnectTimer p (oc_conns c)) ! p = Rejected key" if w: "cm_promises (oc_conns c) ! p = Waiting"
  proof -
    obtain key where "jget (cm_timers (oc_conns c)) p = Some key"
      using linked_timer [OF k(1) [unfolded cm_ok_def], of p] k(2) w by auto
    from fireConnectTimer_eq(1) [OF k(1) this] k(2) show ?thesis by auto
  qed
  have "oc_calls (call_go d e ok call c) = oc_calls c"
    by (cases call) (auto simp: call_go_def seal_text_def await_ack_def send_on_def markMessage_def markFile_def notify_updated_def oc_emit_def Let_def
        split: option.split pending_payload.split)
  moreover have "resume_call d e n c1 = call_go d e False call (c1\<lparr>oc_calls := drop_at n (oc_calls c)\<rparr>)"
    if "cm_promises (oc_conns c) ! p = Waiting"
    using fired [OF that] assms(2,3) by (auto simp: resume_call_def c1_def)
  ultimately show ?thesis using assms(2,3) by (auto simp: resume_call_def Let_def split: Connections.outcome.split)
qed

definition alice_calls :: web_client_state where
  "alice_calls = connect (app bob_signed) a_client_env ''nobody'' (new_client alice)"

theorem calls_end_witness:
  "oc_calls (resume_call (app bob_signed) a_client_env 0 (alice_calls\<lparr>oc_conns := fireConnectTimer 0 (oc_conns alice_calls)\<rparr>)) = []"
proof -
  have r: "browser_client bob_signed None False alice_calls" unfolding alice_calls_def by (rule browser_app [OF browser_new oc_step.Connect])
  have c: "oc_calls alice_calls = [(0, CallConnect)]" "cm_promises (oc_conns alice_calls) ! 0 = Waiting"
    by (simp_all add: alice_calls_def connect_def start_call_def oc_ensure_def ensureConnection_def openAttempt_def cman_init_def Let_def
        addConnectWaiter_def emitState_def send_intents_def oc_emit_def) (simp add: new_client_def client_init_def)
  show ?thesis using calls_end [OF r, of 0 0 CallConnect "app bob_signed" a_client_env] c by (simp add: call_go_def drop_at_def)
qed

section \<open>Device backup\<close>

text \<open>
  What a browser's client exports opens under the password with the contacts, the block list and the
  settings that it had, and under a password that derives another key it does not open.
\<close>

theorem backup_under_password:
  assumes "browser_client C provider relay c" "wf_json settings" "migration_wf (oc_world c)" "gcm_ok B" "gcm_authentic B"
    and "exportBackup (app_deps C provider relay wr sink hash) B pw settings salt iv now rows c = (Inr text, c')"
    and "pw' \<noteq> []" "deriveKey B pw' salt DEFAULT_PBKDF2_ITERATIONS \<noteq> deriveKey B pw salt DEFAULT_PBKDF2_ITERATIONS"
  shows "(\<exists>rb. readBackup d2 B (Inl text) pw (c2 :: web_client_state) = Inr (Some rb) \<and> bs_exportedUtc (bo_summary rb) = now
      \<and> bp_settings (bo_payload rb) = settings \<and> bp_contacts (bo_payload rb) = cv_listContacts IpcConversationStore (oc_store c)
      \<and> bp_blockedKeys (bo_payload rb) = oc_blockedKeys c)
    \<and> readBackup d2 B (Inl text) pw' c2 = Inl ''bad-password-or-corrupt''"
proof -
  obtain p where p: "export_payload (app_deps C provider relay wr sink hash) settings rows c = (Inr p, c')"
    "\<And>d2 c2. readBackup d2 B (Inl text) pw c2 = Inr (Some
      (let key = identity_in (dp_crypto d2) (bp_identity p)
       in \<lparr>bo_summary = (summarizeBackup p key)\<lparr>bs_exportedUtc := now\<rparr>,
         bo_identityConflict = (key \<noteq> None \<and> key \<noteq> Some (identityKey (c2 :: web_client_state))), bo_payload = p\<rparr>))"
    using move_opens [OF assms(1,2,4,3,6)] by metis
  note e = web_moves_exported [OF browser_ok [OF assms(1)] p(1)]
  have "serializeBackup B (payload_json p) pw None salt iv now = Some text"
    using assms(6) p(1) by (auto simp: exportBackup_def split: option.splits)
  from backup_sealed [OF assms(5) this assms(7)] assms(8)
  have "openBackup B (Inl text) pw' = Inl ''bad-password-or-corrupt''" by (simp add: DEFAULT_PBKDF2_ITERATIONS_def)
  then show ?thesis using p(2) e by (simp add: readBackup_def Let_def)
qed

theorem backup_under_password_witness:
  "\<exists>text rb. readBackup (app talk_crypto) vault (Inl text) ''a long password'' (new_client bob) = Inr (Some rb)
    \<and> bp_contacts (bo_payload rb) = cv_listContacts IpcConversationStore (oc_store (alice_home talk_crypto))
    \<and> readBackup (app talk_crypto) vault (Inl text) ''guess'' (new_client bob) = Inl ''bad-password-or-corrupt''"
proof -
  let ?C = talk_crypto
  obtain doc c' where e: "exportBackup (app ?C) vault ''a long password'' JNull [1] [2] ''now'' web_db_empty (alice_home ?C) = (Inr doc, c')"
    using alice_exports [OF knows_bob_ok(2), of "''a long password''"] by blast
  have w: "migration_wf (oc_world (alice_home ?C))" using alice_world_sel(2) by (simp add: migration_wf_def alice_home_sel(2))
  have k: "deriveKey vault ''guess'' [1] DEFAULT_PBKDF2_ITERATIONS \<noteq> deriveKey vault ''a long password'' [1] DEFAULT_PBKDF2_ITERATIONS"
    using frame_key_app [of "utf8 ''guess''" "[1]" "utf8 ''a long password''" "[1]"]
    by (auto simp: deriveKey_def vault_def)
  have "wf_json JNull" "''guess'' \<noteq> []" by simp_all
  from backup_under_password [OF alice_home_sel(1) [OF knows_bob_ok(2)] this(1) w vault_ok e [unfolded app_def] this(2) k,
      of "app ?C" "new_client bob"]
  show ?thesis by blast
qed

text \<open>
  C24: a backup moves a device: restored in place of everything else on another browser, it gives it the same
  contacts, messages, queued rows, block list and settings, and at the next launch the same identity.
\<close>

theorem backup_moves_device:
  assumes "browser_client C provider relay c" "web_db_ok (queue_rows rows c)" "hw_keeps (kv_keys KEYS_KV) provider (Some keys) (oc_world c)"
    and "browser_client C provider2 relay2 c2" "web_db_ok (queue_rows rows2 c2)" "hw_keeps (kv_keys KEYS_KV) provider2 k (oc_world c2)"
    and "wf_json settings" "migration_wf (oc_world c)" "gcm_ok B"
    and "exportBackup (app_deps C provider relay wr sink hash) B pw settings salt iv now rows c = (Inr text, c')"
    and "readBackup (app_deps C provider2 relay2 wr2 sink2 hash2) B (Inl text) pw c2 = Inr (Some rb)"
    and "restoreBackup (app_deps C provider2 relay2 wr2 sink2 hash2) (bo_payload rb) True True rows2 c2 = (Inr res, rows3, c3)"
  shows "cv_getContact IpcConversationStore i (oc_store c3) = cv_getContact IpcConversationStore i (oc_store c)
    \<and> cv_getMessage IpcConversationStore j (oc_store c3) = cv_getMessage IpcConversationStore j (oc_store c)
    \<and> ps_get IpcPendingQueueStore m (queue_rows rows3 c3) = ps_get IpcPendingQueueStore m (queue_rows rows c)
    \<and> set (oc_blockedKeys c3) = set (oc_blockedKeys c) \<and> rr_settings res = settings \<and> rr_contactsRejected res = 0
    \<and> fst (loadOrCreate C (web_main wr3 provider2) rs rt now3 (oc_world c3)) = Inr (fromStored C keys, False)"
proof -
  have "export_payload (app_deps C provider relay wr sink hash) settings rows c = (Inr (bo_payload rb), c')"
    by (rule move_payload [OF assms(1,7,9,8,10,11)])
  from moved [OF assms(1-6) this assms(12)] show ?thesis by blast
qed

theorem backup_moves_device_witness:
  "\<exists>text rb res rows3 c3. readBackup (app talk_crypto) vault (Inl text) ''a long password'' (new_client alice) = Inr (Some rb)
    \<and> restoreBackup (app talk_crypto) (bo_payload rb) True True web_db_empty (new_client alice) = (Inr res, rows3, c3)
    \<and> cv_getContact IpcConversationStore (identityKeyB64 bob) (oc_store c3) \<noteq> None
    \<and> fst (loadOrCreate talk_crypto (web_main (\<lambda>_. None) None) [9] [9] ''then'' (oc_world c3)) = Inr (fromStored talk_crypto alice_keys, False)"
proof -
  let ?C = talk_crypto
  note a = alice_home_sel [OF knows_bob_ok(2)]
  obtain doc c' where e: "exportBackup (app ?C) vault ''a long password'' JNull [1] [2] ''now'' web_db_empty (alice_home ?C) = (Inr doc, c')"
    using alice_exports [OF knows_bob_ok(2), of "''a long password''"] by blast
  have w: "migration_wf (oc_world (alice_home ?C))" using alice_world_sel(2) by (simp add: migration_wf_def a(2))
  have j: "wf_json JNull" by simp
  obtain rb where rb: "readBackup (app ?C) vault (Inl doc) ''a long password'' (new_client alice) = Inr (Some rb)"
    using move_opens [OF a(1) j vault_ok(1) w e [unfolded app_def]] by metis
  obtain res rows3 c3 where r: "restoreBackup (app ?C) (bo_payload rb) True True web_db_empty (new_client alice) = (Inr res, rows3, c3)"
    using app_restores by blast
  have q: "web_db_ok (queue_rows web_db_empty (alice_home ?C))" "web_db_ok (queue_rows web_db_empty (new_client alice))"
    using certified_empty [of ?C] a(3) by (simp_all add: queue_rows_def certified_db_def)
  have k: "hw_keeps (kv_keys KEYS_KV) None (Some alice_keys) (oc_world (alice_home ?C))" "hw_keeps (kv_keys KEYS_KV) None None (oc_world (new_client alice))"
    using alice_world_sel(1) fresh_world(1) by (simp_all add: a(2))
  from backup_moves_device [OF a(1) q(1) k(1) browser_new q(2) k(2) j w vault_ok(1) e [unfolded app_def] rb [unfolded app_def] r [unfolded app_def],
      of "identityKeyB64 bob" "[]" "[]" "\<lambda>_. None" "[9]" "[9]" "''then''"] a(4) rb r
  show ?thesis by (intro exI [of _ doc] exI [of _ rb] exI [of _ res] exI [of _ rows3] exI [of _ c3]) simp
qed




text \<open>
  A queued row of a backup is taken over with the transport key that the file gives it: the check that a
  contact's key is certified is not made for it.
\<close>

theorem restored_row_unchecked:
  assumes "browser_client C provider relay c" "web_db_ok (queue_rows rows c)"
    and "distinct (map pm_messageId (bp_pending p))" "m \<in> set (bp_pending p)"
    and "restoreBackup (app_deps C provider relay wr sink hash) p True importIdentity rows c = (Inr res, rows', c')"
  shows "ps_get IpcPendingQueueStore (pm_messageId m) (queue_rows rows' c') = Some m"
  by (rule web_moves_rows [OF browser_ok [OF assms(1)] app_deps_sel(3) assms(2) app_deps_sel(5) assms(3-5)])

definition smuggled :: pending_message where
  "smuggled = queued_hi\<lparr>pm_recipientId := identityKeyB64 bob, pm_recipientTransportKey := transportKeyB64 alice\<rparr>"

definition tampered :: backup_payload where
  "tampered = \<lparr>bp_identity = alice_keys, bp_contacts = [], bp_messages = [], bp_pending = [smuggled], bp_settings = JNull,
     bp_migrationState = None, bp_blockedKeys = []\<rparr>"

theorem restored_row_unchecked_witness:
  "\<exists>res rows' c'. restoreBackup (app talk_crypto) tampered True False web_db_empty (new_client alice) = (Inr res, rows', c')
    \<and> ps_get IpcPendingQueueStore ''m1'' (queue_rows rows' c') = Some smuggled \<and> \<not> pinned_message talk_crypto smuggled"
proof -
  obtain res rows' c' where r: "restoreBackup (app talk_crypto) tampered True False web_db_empty (new_client alice) = (Inr res, rows', c')"
    using app_restores by blast
  have q: "web_db_ok (queue_rows web_db_empty (new_client alice))" using certified_empty by (simp add: queue_rows_def certified_db_def)
  have p: "distinct (map pm_messageId (bp_pending tampered))" "smuggled \<in> set (bp_pending tampered)" by (simp_all add: tampered_def)
  have "ps_get IpcPendingQueueStore (pm_messageId smuggled) (queue_rows rows' c') = Some smuggled"
    by (rule restored_row_unchecked [OF browser_new q p r [unfolded app_def]])
  moreover have b: "signs_only talk_crypto bob bob_records" using bob_signs_only by (simp add: talk_same(3))
  moreover have "transportKeyB64 alice \<noteq> transportKeyB64 bob"
    using keys_distinct(2) b64uEncode_inj unfolding transportKeyB64_def by blast
  ultimately show ?thesis using r pinned_authentic [OF b, of "transportKeyB64 alice"]
    by (auto simp: smuggled_def queued_hi_def pinned_message_def)
qed

section \<open>The connection to a board\<close>

text \<open>
  C28: whatever the caller and the browser do with a board's connection, what it was given to send is on the
  wire or waits, in order and once (a close by the caller drops what waits); it never has a socket and a
  timer at once, waits at most the configured maximum, and without either it was closed, has reconnecting
  off, or is out of attempts.
\<close>

theorem broker_in_order:
  assumes "bk_reach opts (c, sent)"
  shows "(\<exists>n. bc_wire c = map json_str (take n sent)) \<and> (bc_closedByCaller c \<or> bc_wire c @ map json_str (bc_waiting c) = map json_str sent)
    \<and> (bc_ws c = None \<or> bc_reconnectTimer c = None)
    \<and> (bc_ws c \<noteq> None \<or> bc_reconnectTimer c \<noteq> None \<or> bc_closedByCaller c \<or> or_default (bo_reconnect opts) True = False \<or> \<not> attempts_left c)
    \<and> (\<forall>d\<in>set (bc_delays c). d \<le> or_default (bo_reconnectMaxMs opts) 10000)"
proof -
  have ok: "fifo c sent" "one_path c" "paced opts c" using bk_ok_reach [OF assms] by (simp_all add: bk_ok_def)
  have "\<exists>n. bc_wire c = map json_str (take n sent)"
  proof (cases "bc_closedByCaller c")
    case False
    then have "bc_wire c = take (length (bc_wire c)) (map json_str sent)" using ok(1) by (metis fifo_def append_eq_conv_conj)
    then show ?thesis by (metis take_map)
  qed (use ok(1) in \<open>simp add: fifo_def\<close>)
  moreover have "bc_closedByCaller c \<or> bc_wire c @ map json_str (bc_waiting c) = map json_str sent" using ok(1) by (simp add: fifo_def split: if_splits)
  moreover have e: "or_default (bo_reconnect opts) True = bc_reconnectEnabled c" using ok(3) by (simp add: paced_def)
  moreover have "bc_ws c = None \<or> bc_reconnectTimer c = None"
    "bc_ws c \<noteq> None \<or> bc_reconnectTimer c \<noteq> None \<or> bc_closedByCaller c \<or> or_default (bo_reconnect opts) True = False \<or> \<not> attempts_left c"
    using ok(2) unfolding one_path_def e by auto
  moreover have "d \<le> or_default (bo_reconnectMaxMs opts) 10000" if "d \<in> set (bc_delays c)" for d
    using ok(3) that unfolding paced_def by (metis min.cobounded1)
  ultimately show ?thesis by blast
qed

definition slow_board :: broker_options where
  "slow_board = \<lparr>bo_reconnect = None, bo_reconnectInitialMs = Some 400, bo_reconnectMaxMs = Some 1000, bo_maxReconnectAttempts = None\<rparr>"

theorem broker_in_order_witness:
  "\<exists>c. bk_reach slow_board (c, [JNull, JBool True]) \<and> bc_wire c = [''null'', ''true''] \<and> bc_ws c = None \<and> bc_delays c = [400]
    \<and> (bc_closedByCaller c \<or> bc_wire c @ map json_str (bc_waiting c) = [''null'', ''true''])"
proof -
  let ?a = "bk_connect slow_board False" and ?m = JNull and ?n = "JBool True"
  let ?b = "on_open (bk_send ?m ?a)"
  let ?c = "on_close 1006 '''' (bk_send ?n ?b)"
  note d = slow_board_def bk_connect_def bk_open_def bk_send_def on_open_def bk_flush_def bk_hook_def on_close_def scheduleReconnect_def
    attempts_left_def Let_def
  have 1: "bk_reach slow_board (bk_send ?m ?a, [?m])"
    using bk_reach.Step [OF bk_reach.Connect bk_step.Send [of ?a "[]" ?m]] by (simp add: d)
  have 2: "bk_reach slow_board (?b, [?m])" by (rule bk_reach.Step [OF 1 bk_step.Opens]) (simp add: d)
  have 3: "bk_reach slow_board (bk_send ?n ?b, [?m, ?n])"
    using bk_reach.Step [OF 2 bk_step.Send [of ?b "[?m]" ?n]] by (simp add: d)
  have 4: "bk_reach slow_board (?c, [?m, ?n])" by (rule bk_reach.Step [OF 3 bk_step.Closes]) (simp add: d)
  have s: "bc_wire ?c = [''null'', ''true'']" "bc_ws ?c = None" "bc_delays ?c = [400]" by code_simp+
  have j: "map json_str [?m, ?n] = [''null'', ''true'']" by code_simp
  from broker_in_order [OF 4] 4 s show ?thesis unfolding j by (intro exI [of _ ?c]) simp
qed

section \<open>ICE servers\<close>

text \<open>
  The credentials of TURN servers are kept apart: what stays in the settings has none, what was saved is
  loaded, and put back it gives every field of every server that was taken apart; a save that seals leaves
  nothing readable in the slot.
\<close>

theorem turn_secrets_apart:
  assumes "prov_ok provider" "credentialed servers"
    and "cred_save (turn_slot wr) provider (extractTurnCredentials servers) st = (None, st1)"
  shows "\<not> hasInlineTurnSecret (stripTurnCredentials servers)
    \<and> (\<exists>creds. cred_load (turn_slot wr2) provider (fst st1) = Inr creds
      \<and> length (mergeTurnCredentials (stripTurnCredentials servers) creds) = length servers
      \<and> (i < length servers \<longrightarrow> jprop (mergeTurnCredentials (stripTurnCredentials servers) creds ! i) k = jprop (servers ! i) k))
    \<and> ((\<exists>P. provider = Some P \<and> kp_isAvailable P = Inr True) \<and> snd st1 = snd st \<longrightarrow> (\<exists>env. kv_turn (fst st1) = Some (CredsSealed env)))"
proof -
  have "cred_load (turn_slot wr) provider (fst st1) = Inr (extractTurnCredentials servers)"
    by (rule web_creds.creds_kept [OF assms(1) extract_ok assms(3)])
  then have "cred_load (turn_slot wr2) provider (fst st1) = Inr (extractTurnCredentials servers)"
    by (simp add: cred_load_def turn_slot_def)
  moreover have "\<exists>env. kv_turn (fst st1) = Some (CredsSealed env)"
    if "provider = Some P" "kp_isAvailable P = Inr True" "snd st1 = snd st" for P
    using web_creds.sealed_at_rest [OF that(2) assms(3) [unfolded that(1)] that(3)] .
  ultimately show ?thesis using strip_clean merge_strip [OF assms(2)] by blast
qed

definition my_turn :: json where
  "my_turn = JObj [(''urls'', JStr ''turn:t.example''), (''username'', JStr ''me''), (''credential'', JStr ''pw'')]"

theorem turn_secrets_apart_witness:
  "\<exists>st1. cred_save (turn_slot (\<lambda>_. None)) None (extractTurnCredentials [my_turn]) (web_db_empty :: migration_state web_db, []) = (None, st1)
    \<and> (\<exists>creds. cred_load (turn_slot (\<lambda>_. None)) None (fst st1) = Inr creds
      \<and> jprop (mergeTurnCredentials (stripTurnCredentials [my_turn]) creds ! 0) ''credential'' = Some (JStr ''pw''))"
proof -
  have c: "credentialed [my_turn]" by (simp add: credentialed_def my_turn_def urlsOf_def)
  obtain st1 where s: "cred_save (turn_slot (\<lambda>_. None)) None (extractTurnCredentials [my_turn]) (web_db_empty :: migration_state web_db, []) = (None, st1)"
    by (simp add: cred_save_def cred_clear_text_def turn_slot_def kvSet_def txDone_def)
  have p: "prov_ok None" by (simp add: prov_ok_def)
  obtain creds where "cred_load (turn_slot (\<lambda>_. None)) None (fst st1) = Inr creds"
    "jprop (mergeTurnCredentials (stripTurnCredentials [my_turn]) creds ! 0) ''credential'' = jprop my_turn ''credential''"
    using turn_secrets_apart [OF p c s, of "\<lambda>_. None" 0 "''credential''"] by auto
  then show ?thesis using s by (auto simp: my_turn_def)
qed

text \<open>
  The form of the ICE settings loses nothing it can show: a simple configuration of plain servers comes
  back from it, its STUN server first, and what a form without errors yields the text editor accepts as it
  is.
\<close>

theorem ice_form_keeps:
  assumes "\<forall>s\<in>set servers. plain_server s" "isSimpleConfig servers" "validateForm f = []"
  shows "formToIceServers (iceServersToForm servers) = filter has_stun servers @ filter (\<lambda>s. \<not> has_stun s) servers
    \<and> parseIceJson why (json_str (JArr (formToIceServers f))) = Inr (formToIceServers f)"
  using form_keeps [OF assms(1,2)] valid_form_accepted [OF assms(3)] by blast

theorem ice_form_keeps_witness:
  "formToIceServers (iceServersToForm [my_turn, stun_server ''stun:s'']) = [stun_server ''stun:s'', my_turn]
    \<and> parseIceJson '''' (json_str (JArr (formToIceServers (iceServersToForm [my_turn])))) = Inr [my_turn]"
proof -
  let ?t = "\<lparr>te_url = ''turn:t.example'', te_username = ''me'', te_credential = ''pw''\<rparr>"
  have t: "my_turn = turn_server ?t" by code_simp
  have s: "isStunScheme ''stun:s''" "trim ''stun:s'' = ''stun:s''" "isTurnScheme (te_url ?t)" by code_simp+
  then have "\<forall>s\<in>set [my_turn, stun_server ''stun:s'']. plain_server s" unfolding t plain_server_def by auto
  moreover have "isSimpleConfig [my_turn, stun_server ''stun:s'']" "validateForm (iceServersToForm [my_turn]) = []" by code_simp+
  moreover have "filter has_stun [my_turn, stun_server ''stun:s''] @ filter (\<lambda>s. \<not> has_stun s) [my_turn, stun_server ''stun:s'']
      = [stun_server ''stun:s'', my_turn]" "formToIceServers (iceServersToForm [my_turn]) = [my_turn]" by code_simp+
  ultimately show ?thesis using ice_form_keeps [of "[my_turn, stun_server ''stun:s'']" "iceServersToForm [my_turn]" "''''"] by simp
qed

section \<open>The web app\<close>

text \<open>
  C29: in every state that the user interface can reach, each message list has the messages of its contact,
  each once, by time; the conversation that was opened last has no unread count; a sender has one request;
  and the conversations are exactly the contacts and correspondents that are not blocked, each once, with
  the diagnostic contact last.
\<close>

theorem shell_views:
  assumes "shell_reach sh" "collates le"
  shows "(\<forall>key list. jget (sh_messages sh) key = Some list \<longrightarrow>
      distinct (map sm_id list) \<and> sorted (map sm_ts list) \<and> (\<forall>m\<in>set list. sm_contactKey m = key))
    \<and> (\<forall>key. sh_selectedRef sh = Some key \<and> key \<noteq> [] \<longrightarrow> jget (sh_unread sh) key = None)
    \<and> distinct (map rq_contactKey (sh_requests sh)) \<and> distinct (map cn_key (conversations le sh))
    \<and> (\<forall>key. key \<in> cn_key ` set (conversations le sh) \<longleftrightarrow> key \<notin> set (blocked_in (sh_settings sh))
        \<and> (key \<in> ct_identityKey ` set (sh_contacts sh) \<or> jhas (sh_messages sh) key))
    \<and> sorted_wrt (conversation_le le) (conversations le sh)"
proof -
  have "views_ok sh" using shell_ok_reach [OF assms(1)] by (simp add: shell_ok_def)
  then show ?thesis unfolding views_ok_def list_ok_def using conversations_keys conversations_sorted [OF assms(2)] by blast
qed

definition bobs_text :: "string \<Rightarrow> rat \<Rightarrow> stored_message" where
  "bobs_text i ts = \<lparr>sm_id = i, sm_contactKey = ''bob'', sm_direction = DIn, sm_kind = KText, sm_ts = ts, sm_text = Some ''hi'',
     sm_file = None, sm_state = ODelivered\<rparr>"

definition alphabetic :: "string \<Rightarrow> string \<Rightarrow> bool" where
  "alphabetic a b = (length a \<le> length b)"

lemma alphabetic_collates: "collates alphabetic"
  by (auto simp: collates_def alphabetic_def)

lemma default_launch:
  obtains sh where "shell_reach sh" "sh_messages sh = []" "sh_selectedRef sh = None" "sh_unread sh = []" "sh_lastRead sh = []" "sh_stored sh = None"
    "sh_settings sh = DEFAULT_SETTINGS" "sh_contacts sh = [bobs_entry]"
proof -
  let ?stun = "JObj [(''urls'', JStr ''stun:stun.l.google.com:19302'')]"
  have u: "urlsOf ?stun = [''stun:stun.l.google.com:19302'']" "\<not> isTurnScheme ''stun:stun.l.google.com:19302''" by code_simp+
  have d: "servers_of (loadSettings None) = Some [?stun]" "\<not> hasInlineTurnSecret [?stun]" "board_urls (loadSettings None) \<noteq> []"
    "as_pushNotifications (loadSettings None) \<noteq> JBool True" "loadSettings None = DEFAULT_SETTINGS"
    by (simp_all add: loadSettings_def DEFAULT_SETTINGS_def servers_of_def hasInlineTurnSecret_def inline_secret_def board_urls_def strings_of_def
      has_length_def or_default_def)
  have m: "with_servers (mergeTurnCredentials [?stun] []) DEFAULT_SETTINGS = DEFAULT_SETTINGS"
    using u by (simp add: with_servers_def DEFAULT_SETTINGS_def mergeTurnCredentials_def merge_server_def)
  show thesis by (rule fresh_shell [OF d(1-4)]) (rule that, simp_all add: d(5) m)
qed

lemma told:
  obtains c' where "sync c' sh = on_event ev (sh\<lparr>sh_orpal := c'\<rparr>)" "oc_store c' = oc_store (sh_orpal sh)" "oc_blockedKeys c' = oc_blockedKeys (sh_orpal sh)"
proof
  let ?c = "(sh_orpal sh)\<lparr>oc_events := oc_events (sh_orpal sh) @ [ev]\<rparr>"
  have "new_metrics (sh_orpal sh) ?c = []" by (simp add: new_metrics_def split: option.split)
  then show "sync ?c sh = on_event ev (sh\<lparr>sh_orpal := ?c\<rparr>)" by (simp add: sync_def Let_def on_key_seal_def)
qed simp_all

theorem shell_views_witness:
  "\<exists>sh. shell_reach sh \<and> jget (sh_messages sh) ''bob'' = Some [bobs_text ''m1'' 5, bobs_text ''m2'' 7] \<and> sorted (map sm_ts [bobs_text ''m1'' 5, bobs_text ''m2'' 7])
    \<and> ''bob'' \<in> cn_key ` set (conversations alphabetic sh) \<and> jget (sh_unread sh) ''bob'' = Some 2"
proof -
  obtain sh0 where 0: "shell_reach sh0" "sh_messages sh0 = []" "sh_selectedRef sh0 = None" "sh_unread sh0 = []" "sh_lastRead sh0 = []"
    "sh_settings sh0 = DEFAULT_SETTINGS" by (rule default_launch)
  obtain c1 where c1: "sync c1 sh0 = on_event (EvMessage (bobs_text ''m2'' 7)) (sh0\<lparr>sh_orpal := c1\<rparr>)" by (rule told)
  obtain c2 where c2: "sync c2 (sync c1 sh0) = on_event (EvMessage (bobs_text ''m1'' 5)) ((sync c1 sh0)\<lparr>sh_orpal := c2\<rparr>)" by (rule told)
  define sh1 where "sh1 = sync c1 sh0"
  define sh where "sh = sync c2 sh1"
  have m1: "sh_messages sh1 = [(''bob'', [bobs_text ''m2'' 7])]" "sh_selectedRef sh1 = None" "sh_unread sh1 = [(''bob'', 1)]" "sh_lastRead sh1 = []"
    "sh_settings sh1 = DEFAULT_SETTINGS"
    using 0(2-6) unfolding sh1_def c1
    by (simp_all add: on_event_def upsertMessage_def bobs_text_def put_message_def or_default_def Let_def)
  have r: "shell_reach sh" unfolding sh_def sh1_def using 0(1) by (intro shell_reach.Next [OF _ shell_step.Client])
  have m: "jget (sh_messages sh) ''bob'' = Some [bobs_text ''m1'' 5, bobs_text ''m2'' 7]" "jget (sh_unread sh) ''bob'' = Some 2" "sh_settings sh = DEFAULT_SETTINGS"
    using m1 unfolding sh_def c2 [folded sh1_def]
    by (simp_all add: on_event_def upsertMessage_def bobs_text_def put_message_def or_default_def Let_def)
  note v = shell_views [OF r alphabetic_collates]
  have "blocked_in DEFAULT_SETTINGS = []" by (simp add: blocked_in_def DEFAULT_SETTINGS_def strings_of_def)
  then have "''bob'' \<in> cn_key ` set (conversations alphabetic sh)" using v m by (simp add: jhas_def)
  moreover have "sorted (map sm_ts [bobs_text ''m1'' 5, bobs_text ''m2'' 7])" using v m(1) by blast
  ultimately show ?thesis using r m by blast
qed

text \<open>
  C30: whatever was in the storage before the start, the settings stored in any reachable state hold no user
  name and no credential of a TURN server.
\<close>

theorem no_secret_stored:
  assumes "shell_reach sh"
  shows "case servers_of (loadSettings (sh_stored sh)) of None \<Rightarrow> True | Some servers \<Rightarrow> \<not> hasInlineTurnSecret servers"
  using shell_ok_reach [OF assms] by (simp add: shell_ok_def settings_kept_ok_def secret_free_def)

definition turn_settings :: app_settings where
  "turn_settings = with_servers [my_turn] DEFAULT_SETTINGS"

lemma turn_settings_ok: "settings_ok turn_settings" "servers_of turn_settings = Some [my_turn]" "settings_wf turn_settings"
proof -
  show "settings_ok turn_settings"
    by (simp add: settings_ok_def turn_settings_def with_servers_def DEFAULT_SETTINGS_def settings_json_def has_length_def my_turn_def)
  then show "settings_wf turn_settings" by (simp add: settings_ok_def settings_wf_def)
  show "servers_of turn_settings = Some [my_turn]" by (simp add: turn_settings_def)
qed

lemma turn_saved:
  obtains sh' where "saveSettings (\<lambda>_. None) None turn_settings sh = (None, sh')" "sh_stored sh' = settings_set (with_servers (stripTurnCredentials [my_turn]) turn_settings)"
    "sh_settings sh' = turn_settings"
  by (simp add: saveSettings_def save_secrets_def store_settings_def turn_settings_ok cred_save_def cred_clear_text_def turn_slot_def kvSet_def txDone_def)

theorem no_secret_stored_witness:
  "\<exists>sh. shell_reach sh \<and> as_iceServers (sh_settings sh) = JArr [my_turn]
    \<and> (case servers_of (loadSettings (sh_stored sh)) of None \<Rightarrow> True | Some servers \<Rightarrow> \<not> hasInlineTurnSecret servers)"
proof -
  obtain sh0 where 0: "shell_reach sh0" by (rule default_launch)
  obtain sh where 1: "saveSettings (\<lambda>_. None) None turn_settings sh0 = (None, sh)" "sh_settings sh = turn_settings" by (rule turn_saved)
  have r: "shell_reach sh" using shell_reach.Next [OF 0 shell_step.Save [OF turn_settings_ok(3), of sh0 "\<lambda>_. None" None]] 1(1) by simp
  from no_secret_stored [OF r] r 1(2) show ?thesis by (auto simp: turn_settings_def with_servers_def)
qed





text \<open>
  C39: the unread count is wrong in two cases: while the conversation that was open last has been removed, a
  message of its peer is not counted, although nothing is selected; and an update of a message that has
  arrived (the progress of a file) counts as one more.
\<close>

theorem unread_miscounts:
  assumes "sh1 = shell_removeContact d key (select_conversation now (Some key) sh)" "sm_contactKey m = key"
    and "sm_direction m = DIn" "0 < sm_ts m" "sh_selectedRef sh2 = None" "sh_unread sh2 = []" "sh_lastRead sh2 = []"
  shows "sh_selected sh1 = None \<and> sh_unread (on_event (EvMessage m) sh1) = sh_unread sh1
    \<and> jget (sh_unread (on_event (EvMessageUpdated i m) (on_event (EvMessage m) sh2))) key = Some 2"
  using removed_not_unread [OF assms(1,2)] update_counts_again [of m sh2 i] assms(2-7) by (simp add: on_event_def or_default_def)

theorem unread_miscounts_witness:
  "\<exists>sh sh1. shell_reach sh \<and> sh1 = shell_removeContact (app talk_crypto) ''bob'' (select_conversation 1 (Some ''bob'') sh)
    \<and> sh_selected sh1 = None \<and> sh_unread (on_event (EvMessage (bobs_text ''m1'' 5)) sh1) = sh_unread sh1
    \<and> jget (sh_unread (on_event (EvMessageUpdated ''m1'' (bobs_text ''m1'' 5)) (on_event (EvMessage (bobs_text ''m1'' 5)) sh))) ''bob'' = Some 2"
proof -
  obtain sh where 0: "shell_reach sh" "sh_selectedRef sh = None" "sh_unread sh = []" "sh_lastRead sh = []" by (rule default_launch)
  have m: "sm_contactKey (bobs_text ''m1'' 5) = ''bob''" "sm_direction (bobs_text ''m1'' 5) = DIn" "0 < sm_ts (bobs_text ''m1'' 5)" by (simp_all add: bobs_text_def)
  from unread_miscounts [OF refl m 0(2-4)] 0(1) show ?thesis by blast
qed

text \<open>
  C33: what the platform's authenticator sealed opens again, from the first use on, when the credential is
  created; and not with an authenticator that derives another secret for its salt.
\<close>

theorem hardware_seal_opens:
  assumes "gcm_ok B" "gcm_authentic B" "authenticator_ok A" "length salt = SALT_LEN" "length iv = IV_LEN"
    and "wa_wrap A B salt iv plaintext cached = (Inr sealed, cached1)"
    and "\<And>id1 id2 secret. evaluatePrf A id1 salt = Inr secret \<Longrightarrow> evaluatePrf A2 id2 salt \<noteq> Inr secret"
  shows "wa_unwrap A B sealed cached1 = Inr plaintext \<and> (\<exists>err. wa_unwrap A2 B sealed cached2 = Inl err)"
  by (rule conjI [OF seal_opens [OF assms(1,4,5,3,6)] other_device_fails [OF assms(2,4,5,6)]]) (rule assms(7))

definition my_phone :: "8 word \<Rightarrow> authenticator" where
  "my_phone secret = \<lparr>au_window = True, au_publicKeyCredential = True, au_credentials = True, au_secureContext = True, au_platform = Inr True,
     au_create = Inr (Some [1, 2, 3]), au_get = (\<lambda>i salt. Inr (Some (Some (replicate 32 secret)))), au_storageFull = False\<rparr>"

theorem hardware_seal_opens_witness:
  "\<exists>sealed credential. wa_wrap (my_phone 1) vault (replicate 32 5) (replicate 12 6) (utf8 ''key'') None = (Inr sealed, Some credential)
    \<and> wa_unwrap (my_phone 1) vault sealed (Some credential) = Inr (utf8 ''key'') \<and> (\<exists>err. wa_unwrap (my_phone 2) vault sealed (Some credential) = Inl err)"
proof -
  let ?c = "bytesToB64u [1, 2, 3]"
  let ?s = "[ENVELOPE_VERSION, of_nat SALT_LEN] @ replicate 32 5 @ replicate 12 6 @ bc_encrypt vault (replicate 32 1) (replicate 12 6) (utf8 ''key'')"
  have w: "wa_wrap (my_phone 1) vault (replicate 32 5) (replicate 12 6) (utf8 ''key'') None = (Inr ?s, Some ?c)"
    by (simp add: wa_wrap_def ensureCredentialId_def or_default_def evaluatePrf_def deriveAesKey_def my_phone_def)
  have a: "authenticator_ok (my_phone 1)" by (simp add: authenticator_ok_def my_phone_def)
  have d: "evaluatePrf (my_phone 2) id2 (replicate 32 5) \<noteq> Inr secret" if "evaluatePrf (my_phone 1) id1 (replicate 32 5) = Inr secret" for id1 id2 secret
  proof
    assume "evaluatePrf (my_phone 2) id2 (replicate 32 5) = Inr secret"
    then have "hd (replicate 32 (1 :: 8 word)) = hd (replicate 32 2)" using that by (simp add: evaluatePrf_def my_phone_def)
    then show False by simp
  qed
  from hardware_seal_opens [OF vault_ok a _ _ w d] w show ?thesis by (auto simp: SALT_LEN_def IV_LEN_def)
qed

text \<open>
  C34: in every state of the browser's WebRTC endpoint the promise of its data channel is fulfilled only when
  there is a channel, and once settled it stays; an initiator uses only channels it created, and bytes are
  sent only on a channel with handlers; and a description that is waited for gets exactly the candidates
  that are gathered, unfiltered and in order, whichever of the three ways the wait ends.
\<close>

theorem endpoint_sound:
  assumes "ep_steps (BrowserWebRTCEndpoint role options) ep"
  shows "(connectDataChannel ep = Opened \<longrightarrow> be_channel ep \<noteq> None)
    \<and> (ep_steps ep ep' \<and> connectDataChannel ep \<noteq> Unopened \<longrightarrow> connectDataChannel ep' = connectDataChannel ep)
    \<and> (role = Initiator \<longrightarrow> (\<forall>ch\<in>set (be_wired ep). \<exists>label. PcCreateChannel label ch \<in> set (be_calls ep)))
    \<and> (PcSend ch bytes \<in> set (be_calls ep) \<longrightarrow> ch \<in> set (be_wired ep))
    \<and> (createLocalDescription offer created failed False ep = (Inr i, ep1) \<and> [] \<notin> set cs \<longrightarrow>
        (let ep2 = fold (\<lambda>c. onicecandidate (Some c)) cs ep1 in \<not> be_waits ep2 ! i
         \<and> (\<forall>ep3\<in>{onicecandidate None ep2, onicegatheringstatechange True ep2, gather_timer i ep2}. be_waits ep3 ! i
              \<and> (\<exists>g. local_description (Some sdp) ep3 = Inr (sdp, g) \<and> be_arrays ep3 ! g = cs))))"
proof -
  have r: "be_role ep = role" using role_kept [OF assms] by (simp add: BrowserWebRTCEndpoint_def)
  note ok = endpoint_ok_reach [OF assms]
  have g: "let ep2 = fold (\<lambda>c. onicecandidate (Some c)) cs ep1 in \<not> be_waits ep2 ! i
         \<and> (\<forall>ep3\<in>{onicecandidate None ep2, onicegatheringstatechange True ep2, gather_timer i ep2}. be_waits ep3 ! i
              \<and> (\<exists>g. local_description (Some sdp) ep3 = Inr (sdp, g) \<and> be_arrays ep3 ! g = cs))"
    if c: "createLocalDescription offer created failed False ep = (Inr i, ep1)" "[] \<notin> set cs"
    using gathered [OF c refl] unfolding Let_def by auto
  show ?thesis using ok [unfolded endpoint_ok_def] settled_steps [of ep ep'] g unfolding r connectDataChannel_def by blast
qed

definition plain_rtc :: rtc_options where
  "plain_rtc = \<lparr>ro_iceServers = None, ro_iceTransportPolicy = None, ro_iceGatheringTimeoutMs = None, ro_watched = True, ro_dataChannelLabel = None\<rparr>"

theorem endpoint_sound_witness:
  "\<exists>ep ep1 ep3 g. ep_steps (BrowserWebRTCEndpoint Initiator plain_rtc) ep \<and> connectDataChannel ep = Opened \<and> be_channel ep = Some 7
    \<and> createLocalDescription True (Inr (8, False)) None False ep = (Inr 1, ep1)
    \<and> ep3 = gather_timer 1 (fold (\<lambda>c. onicecandidate (Some c)) [''a'', ''b''] ep1) \<and> local_description (Some ''sdp'') ep3 = Inr (''sdp'', g)
    \<and> be_arrays ep3 ! g = [''a'', ''b'']"
proof -
  let ?start = "BrowserWebRTCEndpoint Initiator plain_rtc"
  let ?ep = "snd (createLocalDescription True (Inr (7, True)) None False ?start)"
  have r: "ep_steps ?start ?ep" by (rule ep_steps.Step [OF ep_steps.Refl ep_step.intros(10)])
  have o: "connectDataChannel ?ep = Opened" "be_channel ?ep = Some 7"
    by (simp_all add: createLocalDescription_def BrowserWebRTCEndpoint_def plain_rtc_def connectDataChannel_def waitForGatheringComplete_def
      wireChannel_def resolveChannelOpen_def pc_call_def Let_def)
  obtain ep1 where c: "createLocalDescription True (Inr (8, False)) None False ?ep = (Inr 1, ep1)"
    by (simp add: createLocalDescription_def BrowserWebRTCEndpoint_def plain_rtc_def waitForGatheringComplete_def
      wireChannel_def resolveChannelOpen_def pc_call_def Let_def)
  have "[] \<notin> set [''a'', ''b'']" by simp
  then show ?thesis using endpoint_sound [OF r, of ?ep 0 "[]" True "Inr (8, False)" None 1 ep1 "[''a'', ''b'']" "''sdp''"] r o c
    unfolding Let_def by blast
qed



end
